(* ===== verification/Prelude.thy ===== *)
theory Prelude
  imports Main "HOL-Library.AList" "HOL-Library.Multiset" "HOL-Library.Word" "HOL-Library.Sublist"
begin

text \<open>
  Shared vocabulary of the development.

  \<^item> Rust's \<open>Result\<close> is the sum type \<open>'e + 'a\<close>: \<open>Ok\<close> is \<open>Inr\<close>, \<open>Err\<close> is \<open>Inl\<close>, and the
    operator \<open>?\<close> is \<open>rbind\<close>.
  \<^item> A \<open>HashMap\<close> is an association list with distinct keys (\<open>hm_ok\<close>). The order of the list is
    the order in which the map is iterated; Rust leaves that order open, and the theorems of the
    components are stated for every list, hence for every order.
  \<^item> The unsigned integers \<open>u64\<close>, \<open>u128\<close>, \<open>u32\<close> used for amounts and counters are \<open>nat\<close> with
    the wrap-around of the release build written out at every operation that can overflow
    (\<open>wadd\<close>, \<open>wsub\<close>, \<open>wsum\<close>), and with the saturating operations of the standard library.
    Bit-level code uses HOL-Library's words instead.
  \<^item> A clock reading (\<open>SystemTime\<close>) and a \<open>Duration\<close> are natural numbers.
  \<^item> A labelled transition relation has its reachable states as an inductive predicate, and the
    locale \<open>invariant_system\<close> gives the invariant rule once for all components.
  \<^item> A step that may fail is a function from a state to a state and a result; the locale \<open>step_preorder\<close> says
    which relations between the states before and after sequences of such steps keep.
\<close>

section \<open>Results\<close>

abbreviation Ok :: "'a \<Rightarrow> 'e + 'a" where "Ok \<equiv> Inr"
abbreviation Err :: "'e \<Rightarrow> 'e + 'a" where "Err \<equiv> Inl"

definition rbind :: "'e + 'a \<Rightarrow> ('a \<Rightarrow> 'e + 'b) \<Rightarrow> 'e + 'b" where
  "rbind r f = (case r of Inl e \<Rightarrow> Inl e | Inr a \<Rightarrow> f a)"

definition ok_or :: "'a option \<Rightarrow> 'e \<Rightarrow> 'e + 'a" where
  "ok_or x e = (case x of None \<Rightarrow> Inl e | Some a \<Rightarrow> Inr a)"

definition is_ok :: "'e + 'a \<Rightarrow> bool" where
  "is_ok r = (case r of Inl _ \<Rightarrow> False | Inr _ \<Rightarrow> True)"

definition map_err :: "('e \<Rightarrow> 'f) \<Rightarrow> 'e + 'a \<Rightarrow> 'f + 'a" where
  "map_err g r = (case r of Inl e \<Rightarrow> Inl (g e) | Inr a \<Rightarrow> Inr a)"

definition unwrap_or :: "'a option \<Rightarrow> 'a \<Rightarrow> 'a" where
  "unwrap_or x d = (case x of None \<Rightarrow> d | Some a \<Rightarrow> a)"

section \<open>Machine integers\<close>

type_synonym u64 = nat
type_synonym u128 = nat
type_synonym u32 = nat
type_synonym system_time = nat
type_synonym duration = nat

definition wadd :: "nat \<Rightarrow> nat \<Rightarrow> nat \<Rightarrow> nat" where
  "wadd w a b = (a + b) mod 2 ^ w"

definition wsub :: "nat \<Rightarrow> nat \<Rightarrow> nat \<Rightarrow> nat" where
  "wsub w a b = (if b \<le> a then a - b else a + 2 ^ w - b)"

definition wsum :: "nat \<Rightarrow> nat list \<Rightarrow> nat" where
  "wsum w xs = foldl (wadd w) 0 xs"

definition sat_add :: "nat \<Rightarrow> nat \<Rightarrow> nat \<Rightarrow> nat" where
  "sat_add w a b = min (a + b) (2 ^ w - 1)"

definition sat_mul :: "nat \<Rightarrow> nat \<Rightarrow> nat \<Rightarrow> nat" where
  "sat_mul w a b = min (a * b) (2 ^ w - 1)"

abbreviation (input) sat_sub :: "nat \<Rightarrow> nat \<Rightarrow> nat" where
  "sat_sub a b \<equiv> a - b"

section \<open>Hash maps\<close>

type_synonym ('k, 'v) hmap = "('k \<times> 'v) list"

definition hm_ok :: "('k, 'v) hmap \<Rightarrow> bool" where
  "hm_ok m = distinct (map fst m)"

definition hm_get :: "('k, 'v) hmap \<Rightarrow> 'k \<Rightarrow> 'v option" where
  "hm_get m k = map_of m k"

definition hm_contains :: "('k, 'v) hmap \<Rightarrow> 'k \<Rightarrow> bool" where
  "hm_contains m k = (k \<in> fst ` set m)"

definition hm_insert :: "'k \<Rightarrow> 'v \<Rightarrow> ('k, 'v) hmap \<Rightarrow> ('k, 'v) hmap" where
  "hm_insert k v m = AList.update k v m"

definition hm_remove :: "'k \<Rightarrow> ('k, 'v) hmap \<Rightarrow> ('k, 'v) hmap" where
  "hm_remove k m = AList.delete k m"

definition hm_keys :: "('k, 'v) hmap \<Rightarrow> 'k list" where
  "hm_keys m = map fst m"

definition hm_values :: "('k, 'v) hmap \<Rightarrow> 'v list" where
  "hm_values m = map snd m"

definition hm_retain :: "('k \<Rightarrow> 'v \<Rightarrow> bool) \<Rightarrow> ('k, 'v) hmap \<Rightarrow> ('k, 'v) hmap" where
  "hm_retain P m = filter (\<lambda>(k, v). P k v) m"

definition hm_insert_all :: "('a \<Rightarrow> 'k) \<Rightarrow> ('a \<Rightarrow> 'v) \<Rightarrow> 'a list \<Rightarrow> ('k, 'v) hmap \<Rightarrow> ('k, 'v) hmap" where
  "hm_insert_all key val xs m = foldl (\<lambda>acc x. hm_insert (key x) (val x) acc) m xs"

section \<open>Printing and parsing\<close>

text \<open>The decimal digits of a number, as \<open>Display\<close> prints an unsigned integer; \<open>u64::from_str\<close>, which takes an
  optional plus sign and fails on overflow; and \<open>str::split\<close> at a character.\<close>

fun decimal :: "nat \<Rightarrow> string" where
  "decimal n = (if n < 10 then [char_of (48 + n)] else decimal (n div 10) @ [char_of (48 + n mod 10)])"

declare decimal.simps [simp del]

definition is_digit :: "char \<Rightarrow> bool" where
  "is_digit c \<longleftrightarrow> 48 \<le> (of_char c :: nat) \<and> (of_char c :: nat) \<le> 57"

fun digits_value :: "nat \<Rightarrow> string \<Rightarrow> nat option" where
  "digits_value acc [] = Some acc"
| "digits_value acc (c # cs) = (if is_digit c then digits_value (10 * acc + (of_char c - 48)) cs else None)"

definition strip_plus :: "string \<Rightarrow> string" where
  "strip_plus s = (case s of c # cs \<Rightarrow> if c = CHR ''+'' then cs else s | [] \<Rightarrow> [])"

definition parse_u64 :: "string \<Rightarrow> nat option" where
  "parse_u64 s =
     (let ds = strip_plus s in
      if ds = [] then None
      else case digits_value 0 ds of None \<Rightarrow> None | Some n \<Rightarrow> if n < 2 ^ 64 then Some n else None)"

fun split_on :: "char \<Rightarrow> string \<Rightarrow> string list" where
  "split_on c [] = [[]]"
| "split_on c (x # xs) =
     (if x = c then [] # split_on c xs
      else case split_on c xs of [] \<Rightarrow> [[x]] | p # ps \<Rightarrow> (x # p) # ps)"

section \<open>Reachable states\<close>

inductive reachable :: "('s \<Rightarrow> bool) \<Rightarrow> ('s \<Rightarrow> 's \<Rightarrow> bool) \<Rightarrow> 's \<Rightarrow> bool"
  for init :: "'s \<Rightarrow> bool" and step :: "'s \<Rightarrow> 's \<Rightarrow> bool"
where
  reach_init: "init s \<Longrightarrow> reachable init step s"
| reach_step: "reachable init step s \<Longrightarrow> step s t \<Longrightarrow> reachable init step t"

named_theorems hm_simps "lookup, key and distinctness facts of the hash map operations"
named_theorems result_simps "unfolding of the operations on results"

declare rbind_def [result_simps] ok_or_def [result_simps] is_ok_def [result_simps]
  map_err_def [result_simps] unwrap_or_def [result_simps]

section \<open>Facts on results\<close>

lemma rbind_Inl [simp]: "rbind (Inl e) f = Inl e"
  by (simp add: rbind_def)

lemma rbind_Inr [simp]: "rbind (Inr a) f = f a"
  by (simp add: rbind_def)

lemma rbind_eq_Ok [simp]: "rbind r f = Inr b \<longleftrightarrow> (\<exists>a. r = Inr a \<and> f a = Inr b)"
  by (cases r) auto

lemma ok_or_eq_Ok [simp]: "ok_or x e = Inr a \<longleftrightarrow> x = Some a"
  by (cases x) (auto simp: ok_or_def)

lemma is_ok_Inr [simp]: "is_ok (Inr a)"
  by (simp add: is_ok_def)

lemma is_ok_Inl [simp]: "\<not> is_ok (Inl e)"
  by (simp add: is_ok_def)

lemma is_ok_iff: "is_ok r \<longleftrightarrow> (\<exists>a. r = Inr a)"
  by (cases r) auto

lemma unwrap_or_simps [simp]: "unwrap_or None d = d" "unwrap_or (Some a) d = a"
  by (simp_all add: unwrap_or_def)

section \<open>Facts on machine integers\<close>

lemma wadd_exact [simp]: "a + b < 2 ^ w \<Longrightarrow> wadd w a b = a + b"
  by (simp add: wadd_def)

lemma wadd_bound: "wadd w a b < 2 ^ w"
  by (simp add: wadd_def)

lemma wsub_exact [simp]: "b \<le> a \<Longrightarrow> wsub w a b = a - b"
  by (simp add: wsub_def)

lemma foldl_wadd_mod: "foldl (wadd w) a xs mod 2 ^ w = (a + sum_list xs) mod 2 ^ w"
  by (induction xs arbitrary: a) (simp_all add: wadd_def mod_simps add.assoc)

lemma wsum_bound: "wsum w xs < 2 ^ w"
  unfolding wsum_def by (induction xs rule: rev_induct) (simp_all add: wadd_bound)

lemma wsum_mod: "wsum w xs = sum_list xs mod 2 ^ w"
  using foldl_wadd_mod [of w 0 xs] wsum_bound [of w xs] by (simp add: wsum_def)

lemma wsum_exact [simp]: "sum_list xs < 2 ^ w \<Longrightarrow> wsum w xs = sum_list xs"
  by (simp add: wsum_mod)

lemma wsum_le: "wsum w xs \<le> sum_list xs"
  by (simp add: wsum_mod)

lemma sat_add_exact: "a + b < 2 ^ w \<Longrightarrow> sat_add w a b = a + b"
  by (simp add: sat_add_def min_absorb1 Suc_leI le_diff_conv2)

lemma sat_mul_exact: "a * b < 2 ^ w \<Longrightarrow> sat_mul w a b = a * b"
  by (simp add: sat_mul_def min_absorb1 Suc_leI le_diff_conv2)

lemma unat_bound64: "unat w < 2 ^ 64" for w :: "64 word"
  using unsigned_less [of w] by simp

section \<open>Facts on printing and parsing\<close>

lemma of_char_digit: "d < 10 \<Longrightarrow> (of_char (char_of (48 + d :: nat)) :: nat) = 48 + d"
  by simp

lemma is_digit_char: "d < 10 \<Longrightarrow> is_digit (char_of (48 + d :: nat))"
  by (simp add: is_digit_def of_char_digit)

lemma digits_value_append:
  "digits_value acc (xs @ ys) = (case digits_value acc xs of None \<Rightarrow> None | Some n \<Rightarrow> digits_value n ys)"
  by (induction acc xs rule: digits_value.induct) simp_all

lemma digits_value_decimal: "digits_value 0 (decimal n) = Some n"
proof (induction n rule: decimal.induct)
  case (1 n)
  show ?case
  proof (cases "n < 10")
    case True
    then show ?thesis by (simp add: decimal.simps is_digit_char of_char_digit del: of_char_of)
  next
    case False
    with 1 show ?thesis
      by (subst decimal.simps) (simp add: digits_value_append is_digit_char of_char_digit del: of_char_of)
  qed
qed

lemma decimal_digits: "c \<in> set (decimal n) \<Longrightarrow> is_digit c"
proof (induction n rule: decimal.induct)
  case (1 n)
  then show ?case
    by (subst (asm) (2) decimal.simps) (auto simp: is_digit_char split: if_splits)
qed

lemma decimal_not_Nil [simp]: "decimal n \<noteq> []"
  by (subst decimal.simps) simp

lemma parse_u64_decimal: "n < 2 ^ 64 \<Longrightarrow> parse_u64 (decimal n) = Some n"
proof -
  assume n: "n < 2 ^ 64"
  have "strip_plus (decimal n) = decimal n"
  proof (cases "decimal n")
    case (Cons c cs)
    then have "is_digit c" using decimal_digits [of c n] by simp
    then have "c \<noteq> CHR ''+''" by (auto simp: is_digit_def)
    with Cons show ?thesis by (simp add: strip_plus_def)
  qed simp
  with n show ?thesis by (simp add: parse_u64_def digits_value_decimal)
qed

lemma split_on_single: "c \<notin> set xs \<Longrightarrow> split_on c xs = [xs]"
  by (induction xs) auto

lemma split_on_append: "c \<notin> set xs \<Longrightarrow> split_on c (xs @ c # ys) = xs # split_on c ys"
  by (induction xs) auto

section \<open>Facts on hash maps\<close>

lemma hm_get_insert [simp, hm_simps]:
  "hm_get (hm_insert k v m) k' = (if k' = k then Some v else hm_get m k')"
  by (simp add: hm_get_def hm_insert_def AList.update_conv')

lemma hm_get_remove [simp, hm_simps]:
  "hm_get (hm_remove k m) k' = (if k' = k then None else hm_get m k')"
  by (simp add: hm_get_def hm_remove_def AList.delete_conv')

lemma hm_get_Nil [simp]: "hm_get [] k = None"
  by (simp add: hm_get_def)

lemma hm_get_Cons: "hm_get ((a, b) # m) k = (if k = a then Some b else hm_get m k)"
  by (simp add: hm_get_def)

lemma hm_contains_iff: "hm_contains m k \<longleftrightarrow> hm_get m k \<noteq> None"
  by (simp add: hm_contains_def hm_get_def map_of_eq_None_iff)

lemma hm_keys_insert [simp, hm_simps]:
  "set (hm_keys (hm_insert k v m)) = insert k (set (hm_keys m))"
  by (auto simp: hm_keys_def hm_insert_def AList.update_keys)

lemma hm_keys_remove [simp, hm_simps]:
  "set (hm_keys (hm_remove k m)) = set (hm_keys m) - {k}"
  by (simp add: hm_keys_def hm_remove_def AList.delete_keys)

lemma hm_keys_get: "set (hm_keys m) = {k. hm_get m k \<noteq> None}"
  by (auto simp: hm_keys_def hm_get_def map_of_eq_None_iff)

lemma hm_get_None_iff: "hm_get m k = None \<longleftrightarrow> k \<notin> set (hm_keys m)"
  by (simp add: hm_keys_get)

lemma hm_keys_Nil [simp]: "hm_keys [] = []"
  by (simp add: hm_keys_def)

lemma hm_contains_keys: "hm_contains m k \<longleftrightarrow> k \<in> set (hm_keys m)"
  by (simp add: hm_contains_def hm_keys_def)

lemma hm_keys_retain [hm_simps]:
  "set (hm_keys (hm_retain P m)) \<subseteq> set (hm_keys m)"
  by (auto simp: hm_keys_def hm_retain_def)

lemma hm_ok_Nil [simp]: "hm_ok []"
  by (simp add: hm_ok_def)

lemma hm_ok_insert [simp, hm_simps]: "hm_ok m \<Longrightarrow> hm_ok (hm_insert k v m)"
  by (simp add: hm_ok_def hm_insert_def AList.distinct_update)

lemma hm_ok_remove [simp, hm_simps]: "hm_ok m \<Longrightarrow> hm_ok (hm_remove k m)"
  by (simp add: hm_ok_def hm_remove_def AList.distinct_delete)

lemma hm_ok_retain [simp, hm_simps]: "hm_ok m \<Longrightarrow> hm_ok (hm_retain P m)"
  unfolding hm_ok_def hm_retain_def by (rule distinct_map_filter)

lemma hm_in_set: "hm_ok m \<Longrightarrow> (k, v) \<in> set m \<longleftrightarrow> hm_get m k = Some v"
  by (simp add: hm_ok_def hm_get_def)

lemma hm_get_in_set: "hm_get m k = Some v \<Longrightarrow> (k, v) \<in> set m"
  unfolding hm_get_def by (rule map_of_SomeD)

lemma hm_values_iff: "hm_ok m \<Longrightarrow> v \<in> set (hm_values m) \<longleftrightarrow> (\<exists>k. hm_get m k = Some v)"
  by (force simp: hm_values_def simp flip: hm_in_set)

lemma hm_get_retain:
  "hm_ok m \<Longrightarrow> hm_get (hm_retain P m) k =
     (case hm_get m k of None \<Rightarrow> None | Some v \<Rightarrow> if P k v then Some v else None)"
  by (induction m) (auto simp: hm_ok_def hm_get_def hm_retain_def split: option.splits
      dest!: map_of_SomeD intro: rev_image_eqI)

lemma hm_ok_insert_all [simp, hm_simps]: "hm_ok m \<Longrightarrow> hm_ok (hm_insert_all key val xs m)"
  unfolding hm_insert_all_def by (induction xs arbitrary: m) simp_all

lemma hm_keys_insert_all [simp, hm_simps]:
  "set (hm_keys (hm_insert_all key val xs m)) = key ` set xs \<union> set (hm_keys m)"
  unfolding hm_insert_all_def by (induction xs arbitrary: m) auto

lemma hm_get_insert_all_notin:
  "k \<notin> key ` set xs \<Longrightarrow> hm_get (hm_insert_all key val xs m) k = hm_get m k"
  unfolding hm_insert_all_def by (induction xs arbitrary: m) auto

lemma hm_get_insert_all_in:
  assumes "k \<in> key ` set xs"
  shows "\<exists>x \<in> set xs. key x = k \<and> hm_get (hm_insert_all key val xs m) k = Some (val x)"
  using assms
proof (induction xs rule: rev_induct)
  case Nil
  then show ?case by simp
next
  case (snoc x xs)
  then show ?case by (auto simp: hm_insert_all_def)
qed

lemma hm_get_insert_all_distinct:
  assumes "distinct (map key xs)" and "x \<in> set xs"
  shows "hm_get (hm_insert_all key val xs m) (key x) = Some (val x)"
  using hm_get_insert_all_in [of "key x" key xs val m] assms
  by (metis distinct_map inj_on_def rev_image_eqI)

subsection \<open>Sums over the values of a hash map\<close>

lemma hm_insert_fresh: "k \<notin> set (hm_keys m) \<Longrightarrow> hm_insert k v m = m @ [(k, v)]"
  by (induction m) (auto simp: hm_insert_def hm_keys_def)

lemma hm_values_insert_fresh:
  "k \<notin> set (hm_keys m) \<Longrightarrow> hm_values (hm_insert k v m) = hm_values m @ [v]"
  by (simp add: hm_insert_fresh hm_values_def)

lemma hm_remove_notin: "k \<notin> set (hm_keys m) \<Longrightarrow> hm_remove k m = m"
  by (simp add: hm_remove_def hm_keys_def AList.delete_idem)

lemma hm_remove_Cons:
  "hm_remove k ((a, b) # m) = (if a = k then hm_remove k m else (a, b) # hm_remove k m)"
  by (auto simp: hm_remove_def AList.delete_eq)

lemma mset_hm_remove:
  "hm_ok m \<Longrightarrow> hm_get m k = Some v \<Longrightarrow> mset m = add_mset (k, v) (mset (hm_remove k m))"
proof (induction m)
  case Nil
  then show ?case by simp
next
  case (Cons p m)
  then show ?case
    by (cases p)
      (auto simp: hm_remove_Cons hm_get_Cons hm_ok_def hm_keys_def hm_remove_notin split: if_splits)
qed

lemma length_hm_remove:
  "hm_ok m \<Longrightarrow> hm_get m k = Some v \<Longrightarrow> length m = Suc (length (hm_remove k m))"
  using mset_hm_remove [of m k v] by (metis size_add_mset size_mset)

lemma sum_hm_remove:
  "hm_ok m \<Longrightarrow> hm_get m k = Some v \<Longrightarrow>
     sum_list (map f (hm_values m)) = f v + sum_list (map f (hm_values (hm_remove k m)))"
  for f :: "'v \<Rightarrow> nat"
proof -
  assume "hm_ok m" "hm_get m k = Some v"
  then have "mset (map (f \<circ> snd) m) = add_mset (f v) (mset (map (f \<circ> snd) (hm_remove k m)))"
    by (simp add: mset_hm_remove)
  then have "sum_mset (mset (map (f \<circ> snd) m)) = f v + sum_mset (mset (map (f \<circ> snd) (hm_remove k m)))"
    by (simp del: mset_map)
  then show ?thesis
    by (simp add: hm_values_def sum_mset_sum_list del: mset_map)
qed

lemma sum_hm_insert_fresh:
  "k \<notin> set (hm_keys m) \<Longrightarrow>
     sum_list (map f (hm_values (hm_insert k v m))) = f v + sum_list (map f (hm_values m))"
  for f :: "'v \<Rightarrow> nat"
  by (simp add: hm_values_insert_fresh)

section \<open>The invariant rule\<close>

locale invariant_system =
  fixes init :: "'s \<Rightarrow> bool"
    and step :: "'s \<Rightarrow> 's \<Rightarrow> bool"
    and inv :: "'s \<Rightarrow> bool"
  assumes inv_init: "init s \<Longrightarrow> inv s"
    and inv_step: "inv s \<Longrightarrow> step s t \<Longrightarrow> inv t"
begin

lemma reachable_inv: "reachable init step s \<Longrightarrow> inv s"
  by (induction rule: reachable.induct) (auto intro: inv_init inv_step)

end

section \<open>Sums and sublists\<close>

lemma sum_list_subseq_le: "subseq xs ys \<Longrightarrow> sum_list xs \<le> sum_list (ys :: nat list)"
  by (induction rule: list_emb.induct) auto

lemma sum_list_filter_le: "sum_list (map f (filter P xs)) \<le> sum_list (map f xs)"
  for f :: "'a \<Rightarrow> nat"
  by (induction xs) auto

lemma sum_list_member_le: "x \<in> set xs \<Longrightarrow> f x \<le> sum_list (map f xs)"
  for f :: "'a \<Rightarrow> nat"
  by (induction xs) auto

lemma subseq_set: "subseq xs ys \<Longrightarrow> set xs \<subseteq> set ys"
  by (induction rule: list_emb.induct) auto

lemma subseq_sorted_wrt: "subseq xs ys \<Longrightarrow> sorted_wrt P ys \<Longrightarrow> sorted_wrt P xs"
  by (induction rule: list_emb.induct) (auto dest: subseq_set)

lemma subseq_Cons_right:
  "subseq ys (x # xs) \<Longrightarrow> subseq ys xs \<or> (\<exists>ys'. ys = x # ys' \<and> subseq ys' xs)"
  by (cases ys) (auto split: if_splits)

lemma submset_subseq: "A \<subseteq># mset zs \<Longrightarrow> \<exists>ys. subseq ys zs \<and> mset ys = A"
proof (induction zs arbitrary: A)
  case Nil
  then show ?case by simp
next
  case (Cons z zs)
  show ?case
  proof (cases "z \<in># A")
    case True
    then obtain B where B: "A = add_mset z B" by (blast dest: multi_member_split)
    with Cons.prems Cons.IH [of B] obtain ys where "subseq ys zs" "mset ys = B" by auto
    with B show ?thesis by (intro exI [of _ "z # ys"]) auto
  next
    case False
    have "count A a \<le> count (mset zs) a" for a
      using mset_subset_eq_count [OF Cons.prems, of a] False by (cases "a = z") (simp_all add: not_in_iff)
    then have "A \<subseteq># mset zs" by (rule mset_subset_eqI)
    with Cons.IH show ?thesis by (blast intro: list_emb_Cons)
  qed
qed

lemma subseq_submset: "subseq ys zs \<Longrightarrow> mset ys \<subseteq># mset zs"
  by (induction rule: list_emb.induct) (auto intro: subset_mset.order_trans)

lemma sum_list_mset_cong: "mset xs = mset ys \<Longrightarrow> sum_list (map f xs) = sum_list (map f ys)"
  for f :: "'a \<Rightarrow> nat"
  by (metis mset_map sum_mset_sum_list)

lemma distinct_submset: "mset xs \<subseteq># mset ys \<Longrightarrow> distinct ys \<Longrightarrow> distinct xs"
proof -
  have "subseq zs ys \<Longrightarrow> distinct ys \<Longrightarrow> distinct zs" for zs
    by (induction rule: list_emb.induct) (auto dest: subseq_set)
  then show "mset xs \<subseteq># mset ys \<Longrightarrow> distinct ys \<Longrightarrow> distinct xs"
    using submset_subseq mset_eq_imp_distinct_iff by metis
qed

lemma submset_sum_le: "mset xs \<subseteq># mset ys \<Longrightarrow> sum_list xs \<le> sum_list ys" for xs ys :: "nat list"
  by (metis submset_subseq sum_list_subseq_le sum_mset_sum_list)

lemma sum_list_concat_nat: "sum_list (concat xss) = sum_list (map sum_list xss)" for xss :: "nat list list"
  by (induction xss) simp_all

lemma mset_split_by_key:
  assumes "distinct (map f l)" and "mset sel \<subseteq># mset l"
  shows "mset l = mset sel + mset (filter (\<lambda>x. f x \<notin> f ` set sel) l)"
proof -
  have "distinct sel" "distinct l"
    using assms(1) distinct_submset [OF assms(2)] by (auto simp: distinct_map)
  moreover have "set sel = set (filter (\<lambda>x. f x \<in> f ` set sel) l)"
    using assms(1) set_mset_mono [OF assms(2)] by (auto simp: distinct_map inj_on_def)
  ultimately have "mset sel = mset (filter (\<lambda>x. f x \<in> f ` set sel) l)"
    by (simp add: set_eq_iff_mset_eq_distinct [symmetric] del: mset_filter)
  then show ?thesis by simp
qed

section \<open>Tables of a database\<close>

text \<open>An \<open>UPDATE\<close> of the rows of a table, which is a map from its primary key.\<close>

definition update_rows :: "('k \<Rightarrow> 'v \<Rightarrow> 'v) \<Rightarrow> ('k, 'v) hmap \<Rightarrow> ('k, 'v) hmap" where
  "update_rows f t = map (\<lambda>(i, r). (i, f i r)) t"

lemma hm_get_update_rows [simp]: "hm_get (update_rows f t) i = map_option (f i) (hm_get t i)"
  by (induction t) (auto simp: update_rows_def hm_get_def)

lemma hm_ok_update_rows [simp]: "hm_ok (update_rows f t) \<longleftrightarrow> hm_ok t"
proof -
  have "map fst (update_rows f t) = map fst t" by (induction t) (auto simp: update_rows_def)
  then show ?thesis by (simp add: hm_ok_def)
qed

section \<open>Steps that may fail\<close>

text \<open>Sequences of steps on a state that stop at the first error.\<close>

definition cl_return :: "'a \<Rightarrow> 's \<Rightarrow> 's \<times> ('e + 'a)" where
  "cl_return x c = (c, Ok x)"

definition cl_fail :: "'e \<Rightarrow> 's \<Rightarrow> 's \<times> ('e + 'a)" where
  "cl_fail e c = (c, Err e)"

definition cl_bind :: "('s \<Rightarrow> 's \<times> ('e + 'a)) \<Rightarrow> ('a \<Rightarrow> 's \<Rightarrow> 's \<times> ('e + 'b)) \<Rightarrow> 's \<Rightarrow> 's \<times> ('e + 'b)" where
  "cl_bind m f c = (case m c of (c', Err e) \<Rightarrow> (c', Err e) | (c', Ok x) \<Rightarrow> f x c')"

definition cl_lift :: "'e + 'a \<Rightarrow> 's \<Rightarrow> 's \<times> ('e + 'a)" where
  "cl_lift r c = (c, r)"

definition cl_map_err :: "('e \<Rightarrow> 'f) \<Rightarrow> ('s \<Rightarrow> 's \<times> ('e + 'a)) \<Rightarrow> 's \<Rightarrow> 's \<times> ('f + 'a)" where
  "cl_map_err g m c = (case m c of (c', r) \<Rightarrow> (c', map_err g r))"

text \<open>The steps for the elements of a list, in order.\<close>

fun cl_list :: "('b \<Rightarrow> 's \<Rightarrow> 's \<times> ('e + 'a)) \<Rightarrow> 'b list \<Rightarrow> 's \<Rightarrow> 's \<times> ('e + 'a list)" where
  "cl_list f [] = cl_return []"
| "cl_list f (x # xs) = cl_bind (f x) (\<lambda>y. cl_bind (cl_list f xs) (\<lambda>ys. cl_return (y # ys)))"

lemma cl_bind_cases:
  assumes "cl_bind m f c = (c', r)"
  obtains (failed) e where "m c = (c', Err e)" and "r = Err e"
  | (went_on) c1 x where "m c = (c1, Ok x)" and "f x c1 = (c', r)"
  using assms by (auto simp: cl_bind_def split: prod.splits sum.splits)

text \<open>A step stays within a relation of the states before and after it. For a preorder the steps that do are closed under sequencing.\<close>

definition within :: "('s \<Rightarrow> 's \<Rightarrow> bool) \<Rightarrow> ('s \<Rightarrow> 's \<times> 'r) \<Rightarrow> bool" where
  "within R m \<longleftrightarrow> (\<forall>s. R s (fst (m s)))"

lemma withinD: "within R m \<Longrightarrow> m s = (s', r) \<Longrightarrow> R s s'"
  unfolding within_def by (metis fst_conv)

lemma within_if: "within R a \<Longrightarrow> within R b \<Longrightarrow> within R (if c then a else b)"
  by simp

locale step_preorder =
  fixes R :: "'s \<Rightarrow> 's \<Rightarrow> bool"
  assumes refl: "R s s" and trans: "R s t \<Longrightarrow> R t u \<Longrightarrow> R s u"
begin

lemma within_simple: "within R (cl_return x)" "within R (cl_fail e)" "within R (cl_lift r)"
  by (simp_all add: within_def cl_return_def cl_fail_def cl_lift_def refl)

lemma within_bind: "within R m \<Longrightarrow> (\<And>x. within R (f x)) \<Longrightarrow> within R (cl_bind m f)"
  unfolding within_def cl_bind_def by (auto split: prod.split sum.split) (metis fst_conv trans)+

lemma within_map_err: "within R m \<Longrightarrow> within R (cl_map_err g m)"
  unfolding within_def cl_map_err_def by (auto split: prod.split) (metis fst_conv)

lemma within_list: "(\<And>x. within R (f x)) \<Longrightarrow> within R (cl_list f xs)"
  by (induction xs) (simp_all add: within_simple within_bind)

lemmas within_steps = within_simple within_bind within_map_err within_list

end

end
