(* ===== verification/Timelock.thy ===== *)
theory Timelock
  imports Prelude
begin

text \<open>
  Timelocks of the Spark tree: \<open>crates/spark/src/core/constants.rs\<close>.

  A \<open>Sequence\<close> is its consensus value, a 32-bit word: the low 16 bits are the relative lock in
  blocks (a relative height of \<open>n\<close> blocks is encoded as \<open>n\<close>), bit 30 is the Spark flag. The block
  counts of the code are \<open>u16\<close>, so they are 16-bit words here and their additions wrap as in the
  release build. The theorems show that the refund chain of a leaf decreases by one interval per
  transfer, keeps its flag, never wraps, and that a leaf which is not due for renewal can always be
  decremented once more.
\<close>

unbundle bit_operations_syntax

type_synonym sequence = "32 word"

definition SPARK_SEQUENCE_FLAG :: "32 word" where
  "SPARK_SEQUENCE_FLAG = push_bit 30 1"

definition TIMELOCK_MASK :: "32 word" where
  "TIMELOCK_MASK = 0xFFFF"

definition INITIAL_TIME_LOCK :: "16 word" where
  "INITIAL_TIME_LOCK = 2000"

definition TIME_LOCK_INTERVAL :: "16 word" where
  "TIME_LOCK_INTERVAL = 100"

definition DIRECT_TIME_LOCK_OFFSET :: "16 word" where
  "DIRECT_TIME_LOCK_OFFSET = 50"

definition DIRECT_HTLC_TIME_LOCK_OFFSET :: "16 word" where
  "DIRECT_HTLC_TIME_LOCK_OFFSET = 85"

definition HTLC_TIME_LOCK_OFFSET :: "16 word" where
  "HTLC_TIME_LOCK_OFFSET = 70"

definition spark_sequence_flag :: "sequence \<Rightarrow> 32 word" where
  "spark_sequence_flag s = s AND SPARK_SEQUENCE_FLAG"

definition to_sequence :: "16 word \<Rightarrow> 32 word \<Rightarrow> sequence" where
  "to_sequence blocks flag = ucast blocks OR flag"

definition initial_timelock_sequence :: "sequence \<times> sequence" where
  "initial_timelock_sequence =
     (to_sequence INITIAL_TIME_LOCK SPARK_SEQUENCE_FLAG,
      to_sequence (INITIAL_TIME_LOCK + DIRECT_TIME_LOCK_OFFSET) SPARK_SEQUENCE_FLAG)"

definition initial_root_timelock_sequence :: "sequence \<times> sequence" where
  "initial_root_timelock_sequence =
     (to_sequence 0 SPARK_SEQUENCE_FLAG,
      to_sequence DIRECT_TIME_LOCK_OFFSET SPARK_SEQUENCE_FLAG)"

definition initial_zero_timelock_sequence :: "sequence \<times> sequence" where
  "initial_zero_timelock_sequence =
     (to_sequence 0 SPARK_SEQUENCE_FLAG, to_sequence DIRECT_TIME_LOCK_OFFSET 0)"

definition current_sequence :: "sequence \<Rightarrow> sequence \<times> sequence" where
  "current_sequence cur =
     (let timelock = (ucast cur :: 16 word); flag = spark_sequence_flag cur
      in (cur, to_sequence (timelock + DIRECT_TIME_LOCK_OFFSET) flag))"

definition enforce_timelock :: "sequence \<Rightarrow> sequence" where
  "enforce_timelock s =
     (let timelock = (ucast (s AND TIMELOCK_MASK) :: 16 word);
          remainder = timelock mod TIME_LOCK_INTERVAL;
          enforced_timelock = (if remainder \<noteq> 0 then timelock - remainder else timelock);
          spark_flag = spark_sequence_flag s
      in to_sequence enforced_timelock spark_flag)"

definition check_next_timelock :: "sequence \<Rightarrow> 16 word option" where
  "check_next_timelock s =
     (let timelock = (ucast (s AND TIMELOCK_MASK) :: 16 word)
      in if TIME_LOCK_INTERVAL \<le> timelock then Some (timelock - TIME_LOCK_INTERVAL) else None)"

definition next_sequence :: "sequence \<Rightarrow> (sequence \<times> sequence) option" where
  "next_sequence s =
     (case check_next_timelock s of
        None \<Rightarrow> None
      | Some next_timelock \<Rightarrow>
          (let flag = spark_sequence_flag s
           in Some (to_sequence next_timelock flag,
                    to_sequence (next_timelock + DIRECT_TIME_LOCK_OFFSET) flag)))"

definition next_lightning_htlc_sequence :: "sequence \<Rightarrow> (sequence \<times> sequence) option" where
  "next_lightning_htlc_sequence s =
     (case check_next_timelock s of
        None \<Rightarrow> None
      | Some next_timelock \<Rightarrow>
          (let flag = spark_sequence_flag s
           in Some (to_sequence (next_timelock + HTLC_TIME_LOCK_OFFSET) flag,
                    to_sequence (next_timelock + DIRECT_HTLC_TIME_LOCK_OFFSET) flag)))"

text \<open>The number of blocks a sequence locks, and a run of the refund chain of a leaf: \<open>n\<close> transfers.\<close>

definition blocks :: "sequence \<Rightarrow> nat" where
  "blocks s = unat (ucast s :: 16 word)"

fun refund_chain :: "nat \<Rightarrow> sequence \<Rightarrow> sequence option" where
  "refund_chain 0 s = Some s"
| "refund_chain (Suc n) s =
     (case next_sequence s of None \<Rightarrow> None | Some (cpfp, _) \<Rightarrow> refund_chain n cpfp)"

lemmas timelock_consts =
  SPARK_SEQUENCE_FLAG_def TIMELOCK_MASK_def INITIAL_TIME_LOCK_def TIME_LOCK_INTERVAL_def
  DIRECT_TIME_LOCK_OFFSET_def DIRECT_HTLC_TIME_LOCK_OFFSET_def HTLC_TIME_LOCK_OFFSET_def

section \<open>Bits of a sequence\<close>

lemma bit_flag: "bit SPARK_SEQUENCE_FLAG n \<longleftrightarrow> n = 30"
  unfolding SPARK_SEQUENCE_FLAG_def push_bit_of_1 by (simp only: bit_exp_iff) auto

lemma bit_timelock_mask: "bit TIMELOCK_MASK n \<longleftrightarrow> n < 16"
proof -
  have "TIMELOCK_MASK = mask 16" by (simp add: TIMELOCK_MASK_def mask_eq_exp_minus_1)
  then have "bit TIMELOCK_MASK n = bit (mask 16 :: 32 word) n" by (rule arg_cong)
  also have "\<dots> \<longleftrightarrow> n < 16" unfolding bit_mask_iff by auto
  finally show ?thesis .
qed

lemma bit_block_count: "bit b n \<Longrightarrow> n < 16" for b :: "16 word"
  using bit_imp_le_length [of b n] by simp

lemmas sequence_bits = bit_flag bit_timelock_mask bit_simps

lemma ucast_mask [simp]: "(ucast (s AND TIMELOCK_MASK) :: 16 word) = ucast s"
  by (intro bit_word_eqI) (simp add: sequence_bits)

lemma spark_sequence_flag_cases:
  "spark_sequence_flag s = 0 \<or> spark_sequence_flag s = SPARK_SEQUENCE_FLAG"
proof (cases "bit s 30")
  case True
  then have "spark_sequence_flag s = SPARK_SEQUENCE_FLAG"
    by (intro bit_word_eqI) (auto simp: spark_sequence_flag_def sequence_bits)
  then show ?thesis ..
next
  case False
  then have "spark_sequence_flag s = 0"
    by (intro bit_word_eqI) (auto simp: spark_sequence_flag_def sequence_bits)
  then show ?thesis ..
qed

lemma ucast_to_sequence:
  assumes "f = 0 \<or> f = SPARK_SEQUENCE_FLAG"
  shows "(ucast (to_sequence b f) :: 16 word) = b"
  using assms by (intro bit_word_eqI) (auto simp: to_sequence_def sequence_bits)

lemma flag_to_sequence:
  assumes "f = 0 \<or> f = SPARK_SEQUENCE_FLAG"
  shows "spark_sequence_flag (to_sequence b f) = f"
  using assms by (intro bit_word_eqI)
    (auto simp: spark_sequence_flag_def to_sequence_def sequence_bits dest: bit_block_count)

lemma blocks_to_sequence [simp]:
  "blocks (to_sequence b (spark_sequence_flag s)) = unat b"
  by (simp add: blocks_def ucast_to_sequence spark_sequence_flag_cases)

lemma flag_to_sequence_flag [simp]:
  "spark_sequence_flag (to_sequence b (spark_sequence_flag s)) = spark_sequence_flag s"
  by (simp add: flag_to_sequence spark_sequence_flag_cases)

lemma blocks_bound: "blocks s < 65536"
  using unsigned_less [of "ucast s :: 16 word"] by (simp add: blocks_def)

section \<open>Block counts\<close>

lemma unat_add_offset:
  "unat b + unat k < 65536 \<Longrightarrow> unat (b + k) = unat b + unat k" for b k :: "16 word"
  by (simp add: unat_word_ariths)

lemma check_next_timelock_None: "check_next_timelock s = None \<longleftrightarrow> blocks s < 100"
  by (simp add: check_next_timelock_def Let_def blocks_def TIME_LOCK_INTERVAL_def word_le_nat_alt not_le)

lemma check_next_timelock_Some:
  assumes "check_next_timelock s = Some b"
  shows "100 \<le> blocks s" and "unat b = blocks s - 100"
  using assms
  by (auto simp: check_next_timelock_def Let_def blocks_def TIME_LOCK_INTERVAL_def word_le_nat_alt
      unat_sub split: if_splits)

lemma next_timelock_room:
  assumes "check_next_timelock s = Some b" and "unat k \<le> 100"
  shows "unat (b + k) = blocks s - 100 + unat k"
  using check_next_timelock_Some [OF assms(1)] assms(2) blocks_bound [of s]
  by (simp add: unat_add_offset)

lemma next_sequence_None: "next_sequence s = None \<longleftrightarrow> blocks s < 100"
  by (auto simp: next_sequence_def check_next_timelock_None [symmetric] Let_def split: option.splits)

lemma next_sequence_Some:
  assumes "next_sequence s = Some (c, d)"
  shows "100 \<le> blocks s" and "blocks c = blocks s - 100" and "blocks d = blocks c + 50"
    and "spark_sequence_flag c = spark_sequence_flag s"
    and "spark_sequence_flag d = spark_sequence_flag s"
  using assms
  by (auto simp: next_sequence_def Let_def DIRECT_TIME_LOCK_OFFSET_def
      check_next_timelock_Some next_timelock_room split: option.splits)

lemma next_lightning_htlc_sequence_Some:
  assumes "next_lightning_htlc_sequence s = Some (c, d)"
  shows "100 \<le> blocks s" and "blocks c = blocks s - 30" and "blocks d = blocks s - 15"
    and "spark_sequence_flag c = spark_sequence_flag s"
    and "spark_sequence_flag d = spark_sequence_flag s"
  using assms
  by (auto simp: next_lightning_htlc_sequence_def Let_def HTLC_TIME_LOCK_OFFSET_def
      DIRECT_HTLC_TIME_LOCK_OFFSET_def check_next_timelock_Some next_timelock_room
      dest: check_next_timelock_Some(1) split: option.splits)

lemma blocks_initial: "blocks (fst initial_timelock_sequence) = 2000"
  by (simp add: initial_timelock_sequence_def blocks_def ucast_to_sequence INITIAL_TIME_LOCK_def)

lemma refund_chain_blocks:
  "refund_chain n s = Some t \<Longrightarrow>
     blocks t + 100 * n = blocks s \<and> spark_sequence_flag t = spark_sequence_flag s"
proof (induction n arbitrary: s)
  case 0
  then show ?case by simp
next
  case (Suc n)
  then obtain c d where cd: "next_sequence s = Some (c, d)" and t: "refund_chain n c = Some t"
    by (auto split: option.splits)
  with Suc.IH [OF t] next_sequence_Some [OF cd] show ?case by auto
qed

lemma refund_chain_defined: "100 * n \<le> blocks s \<Longrightarrow> \<exists>t. refund_chain n s = Some t"
proof (induction n arbitrary: s)
  case 0
  then show ?case by simp
next
  case (Suc n)
  then obtain c d where cd: "next_sequence s = Some (c, d)"
    using next_sequence_None [of s] by fastforce
  with Suc.prems have "100 * n \<le> blocks c" by (simp add: next_sequence_Some [OF cd])
  with Suc.IH cd show ?case by simp
qed

section \<open>Properties\<close>

text \<open>The next refund sequence of a leaf exists exactly when at least one interval (100 blocks)
  is left; then the CPFP sequence locks exactly 100 blocks less, the direct sequence exactly 50
  blocks more than the CPFP one (no wrap-around of the 16-bit block count), and both keep the Spark
  flag of the current sequence.\<close>

theorem next_sequence_spec:
  "case next_sequence s of
     None \<Rightarrow> blocks s < 100
   | Some (c, d) \<Rightarrow>
       blocks c + 100 = blocks s \<and> blocks d = blocks c + 50
       \<and> spark_sequence_flag c = spark_sequence_flag s
       \<and> spark_sequence_flag d = spark_sequence_flag s"
proof (cases "next_sequence s")
  case None
  then show ?thesis using next_sequence_None [of s] by simp
next
  case (Some p)
  obtain c d where p: "p = (c, d)" by (cases p)
  show ?thesis using next_sequence_Some [of s c d] by (simp add: Some p)
qed

text \<open>The HTLC sequences leave room for the preimage path: whenever a next timelock exists, the
  CPFP HTLC sequence is 30 blocks and the direct one 15 blocks below the current lock, so both are
  strictly earlier than the current refund, strictly later than the next plain refund pair, and in
  the order CPFP before direct.\<close>

theorem next_lightning_htlc_sequence_between:
  "(next_lightning_htlc_sequence s = None) = (next_sequence s = None)
   \<and> (case (next_lightning_htlc_sequence s, next_sequence s) of
        (Some (hc, hdir), Some (c, d)) \<Rightarrow>
          blocks d < blocks hc \<and> blocks hc < blocks hdir \<and> blocks hdir < blocks s
          \<and> spark_sequence_flag hc = spark_sequence_flag s
          \<and> spark_sequence_flag hdir = spark_sequence_flag s
      | _ \<Rightarrow> blocks s < 100)"
proof (cases "check_next_timelock s")
  case None
  then show ?thesis using check_next_timelock_None [of s]
    by (simp add: next_lightning_htlc_sequence_def next_sequence_def)
next
  case (Some b)
  then obtain hc hdir c d where h: "next_lightning_htlc_sequence s = Some (hc, hdir)"
    and n: "next_sequence s = Some (c, d)"
    by (simp add: next_lightning_htlc_sequence_def next_sequence_def Let_def)
  show ?thesis
    using next_lightning_htlc_sequence_Some [OF h] next_sequence_Some [OF n] by (auto simp: h n)
qed

text \<open>A leaf with \<open>blocks s\<close> blocks of lock can be transferred exactly \<open>blocks s div 100\<close> times:
  the refund chain of length \<open>n\<close> exists if and only if \<open>100 * n\<close> blocks are available, every step
  costs exactly 100 blocks, and the Spark flag survives the whole chain.\<close>

theorem refund_chain_length:
  "((\<exists>t. refund_chain n s = Some t) \<longleftrightarrow> n \<le> blocks s div 100)
   \<and> (case refund_chain n s of
        None \<Rightarrow> blocks s < 100 * n
      | Some t \<Rightarrow> blocks t + 100 * n = blocks s \<and> spark_sequence_flag t = spark_sequence_flag s)"
proof (cases "100 * n \<le> blocks s")
  case True
  then obtain t where t: "refund_chain n s = Some t" using refund_chain_defined by blast
  from True have "n \<le> blocks s div 100" by (simp add: less_eq_div_iff_mult_less_eq mult.commute)
  with refund_chain_blocks [OF t] t show ?thesis by simp
next
  case False
  then have "refund_chain n s = None"
    using refund_chain_blocks [of n s] by (cases "refund_chain n s") auto
  moreover from False have "\<not> n \<le> blocks s div 100"
    by (simp add: less_eq_div_iff_mult_less_eq mult.commute)
  ultimately show ?thesis using False by simp
qed

text \<open>Claims align the timelock: \<open>enforce_timelock\<close> rounds the block count down to the next
  multiple of 100, keeps the flag, and changes nothing when applied twice.\<close>

lemma enforce_timelock_aligned:
  "blocks (enforce_timelock s) = blocks s - blocks s mod 100
   \<and> spark_sequence_flag (enforce_timelock s) = spark_sequence_flag s
   \<and> enforce_timelock (enforce_timelock s) = enforce_timelock s"
proof -
  define b where "b = (ucast s :: 16 word)"
  define e where "e = b - b mod 100"
  have step: "enforce_timelock s = to_sequence e (spark_sequence_flag s)"
    by (simp add: enforce_timelock_def Let_def b_def e_def TIME_LOCK_INTERVAL_def)
  have e: "unat e = unat b - unat b mod 100"
    by (simp add: e_def unat_sub unat_mod word_le_nat_alt)
  have "unat (e mod 100) = 0"
    by (simp add: unat_mod e minus_mod_eq_mult_div)
  then have "e mod 100 = 0" by (simp add: unat_eq_0)
  then have "enforce_timelock (to_sequence e (spark_sequence_flag s)) = to_sequence e (spark_sequence_flag s)"
    by (simp add: enforce_timelock_def Let_def ucast_to_sequence spark_sequence_flag_cases
        TIME_LOCK_INTERVAL_def)
  moreover have "blocks (to_sequence e (spark_sequence_flag s)) = blocks s - blocks s mod 100"
    using e by (simp add: blocks_def [of s] b_def)
  ultimately show ?thesis by (simp add: step)
qed

end
