(* ===== verification/Tree_Model.thy ===== *)
theory Tree_Model
  imports Timelock
begin

text \<open>
  The data of the Spark tree: \<open>crates/spark/src/tree/mod.rs\<close>, with the error enums of
  \<open>crates/spark/src/tree/error.rs\<close> and \<open>crates/spark/src/services/error.rs\<close> and the network enum of
  \<open>crates/spark/src/core/network.rs\<close>.

  Types of third-party crates keep the fields the code reads: a bitcoin \<open>Transaction\<close> has version,
  lock time, inputs and outputs; a script, a public key, a transaction id and a serialised foreign
  error are strings. A Rust index expression that can panic makes the operation return \<open>None\<close>.
\<close>

section \<open>Bitcoin data\<close>

type_synonym txid = string
type_synonym script = string
type_synonym public_key = string

record OutPoint =
  op_txid :: txid
  op_vout :: nat

record TxIn =
  previous_output :: OutPoint
  script_sig :: script
  in_sequence :: sequence
  witness :: "string list"

record TxOut =
  out_value :: u64
  script_pubkey :: script

record Transaction =
  tx_version :: int
  lock_time :: u32
  tx_input :: "TxIn list"
  tx_output :: "TxOut list"

datatype Network = Mainnet | Regtest | Testnet | Signet

fun network_to_string :: "Network \<Rightarrow> string" where
  "network_to_string Mainnet = ''mainnet''"
| "network_to_string Regtest = ''regtest''"
| "network_to_string Testnet = ''testnet''"
| "network_to_string Signet = ''signet''"

definition network_from_str :: "string \<Rightarrow> string + Network" where
  "network_from_str s =
     (if s = ''mainnet'' then Ok Mainnet
      else if s = ''regtest'' then Ok Regtest
      else if s = ''testnet'' then Ok Testnet
      else if s = ''signet'' then Ok Signet
      else Err ''Invalid network'')"

section \<open>Tree nodes\<close>

datatype TreeNodeStatus =
    Creating | Available | FrozenByIssuer | TransferLocked | SplitLocked | Splitted | Aggregated
  | OnChain | Exited | AggregateLock | Investigation | Lost | Reimbursed | RenewLocked
  | ParentExited | Unknown

fun status_to_string :: "TreeNodeStatus \<Rightarrow> string" where
  "status_to_string Creating = ''Creating''"
| "status_to_string Available = ''Available''"
| "status_to_string FrozenByIssuer = ''FrozenByIssuer''"
| "status_to_string TransferLocked = ''TransferLocked''"
| "status_to_string SplitLocked = ''SplitLocked''"
| "status_to_string Splitted = ''Splitted''"
| "status_to_string Aggregated = ''Aggregated''"
| "status_to_string OnChain = ''OnChain''"
| "status_to_string Exited = ''Exited''"
| "status_to_string AggregateLock = ''AggregateLock''"
| "status_to_string Investigation = ''Investigation''"
| "status_to_string Lost = ''Lost''"
| "status_to_string Reimbursed = ''Reimbursed''"
| "status_to_string RenewLocked = ''RenewLocked''"
| "status_to_string ParentExited = ''ParentExited''"
| "status_to_string Unknown = ''Unknown''"

definition status_names :: "(string \<times> TreeNodeStatus) list" where
  "status_names =
     [(''CREATING'', Creating), (''AVAILABLE'', Available), (''FROZEN_BY_ISSUER'', FrozenByIssuer),
      (''TRANSFER_LOCKED'', TransferLocked), (''SPLIT_LOCKED'', SplitLocked),
      (''SPLITTED'', Splitted), (''AGGREGATED'', Aggregated), (''ON_CHAIN'', OnChain),
      (''EXITED'', Exited), (''AGGREGATE_LOCK'', AggregateLock), (''INVESTIGATION'', Investigation),
      (''LOST'', Lost), (''REIMBURSED'', Reimbursed), (''RENEW_LOCKED'', RenewLocked),
      (''PARENT_EXITED'', ParentExited)]"

definition status_from_str :: "string \<Rightarrow> TreeNodeStatus" where
  "status_from_str s = unwrap_or (map_of status_names s) Unknown"

type_synonym TreeNodeId = string

definition tree_node_id_from_str :: "string \<Rightarrow> string + TreeNodeId" where
  "tree_node_id_from_str s = (if s = [] then Err ''TreeNodeId cannot be empty'' else Ok s)"

record SigningKeyshare =
  owner_identifiers :: "string list"
  threshold :: u32
  ks_public_key :: public_key

record TreeNode =
  tn_id :: TreeNodeId
  tree_id :: string
  tn_value :: u64
  parent_node_id :: "TreeNodeId option"
  node_tx :: Transaction
  refund_tx :: "Transaction option"
  direct_tx :: "Transaction option"
  direct_refund_tx :: "Transaction option"
  direct_from_cpfp_refund_tx :: "Transaction option"
  tn_vout :: u32
  verifying_public_key :: public_key
  owner_identity_public_key :: "public_key option"
  signing_keyshare :: SigningKeyshare
  tn_status :: TreeNodeStatus

section \<open>Errors\<close>

datatype SignerError =
    SgFrostError string | SgIdentifierError | SgInvalidHash | SgKeyDerivationError string
  | SgNonceCreationError string | SgSecretSharingError string | SgSerializationError string
  | SgTaprootBuilderError string | SgUnknownKey | SgUnknownNonceCommitment | SgGeneric string

datatype (plugins only: code size) ServiceError =
    DepositAddressUsed | InvalidDepositAddress | InvalidDepositAddressNetwork | InvalidIdentifier
  | MissingDepositAddress | MissingUtxo | MissingDepositAddressProof | MissingSigningKeyshare
  | MissingTreeSignatures | MissingLeafId | InvalidDepositAddressProof | InvalidNodeId string
  | InvalidOutputIndex | InvalidPublicKey | InvalidSignatureShare | InvalidTransaction
  | InvalidNetwork int | InvalidVerifyingKey | NotADepositOutput
  | InvoiceDecodingError string | SSPswapError string | PreimageShareStoreFailed string
  | PaymentNotFound
  | ExtendTimeLockError string | TransferVerificationError string | MaxRetriesExceeded
  | NoLeavesToClaim | ClaimTransferError string | SignatureVerificationFailed string
  | TransferAlreadyClaimed
  | SvInvalidAmount | SvInsufficientFunds | InvalidInput string
  | PartialCheckTimelockError "TreeNode list"
  | InvalidPaymentHash string | InvalidPreimage string | NeededTooManyOutputs
  | BitcoinError string | FrostError string | BitcoinIOError string | RequestError string
  | ServiceProviderError string | ValidationError string | SvSignerError SignerError
  | ServiceConnectionError string | SvTreeServiceError TreeServiceError
  | SvTokenOutputServiceError TokenOutputServiceError | TransferObserverError string | SvGeneric string
and TreeServiceError =
    InsufficientFunds | RpcError string | UnselectableAmount | InvalidAmount
  | TreeSignerError SignerError | NonReservableLeaves | TreeServiceServiceError ServiceError
  | ProcessorShutdown | ResourceBusy nat duration | Generic string
and TokenOutputServiceError =
    TkInsufficientFunds | TkRpcError string | TkSignerError SignerError | TkServiceError ServiceError
  | TkGeneric string

section \<open>Timelock queries of a node\<close>

text \<open>The code indexes \<open>input[0]\<close>: no input at all is a panic, the outer \<open>None\<close>.\<close>

definition first_sequence :: "Transaction \<Rightarrow> sequence option" where
  "first_sequence tx = (case tx_input tx of [] \<Rightarrow> None | i # _ \<Rightarrow> Some (in_sequence i))"

definition node_sequence :: "TreeNode \<Rightarrow> sequence option" where
  "node_sequence n = first_sequence (node_tx n)"

definition refund_sequence :: "TreeNode \<Rightarrow> (TreeServiceError + sequence) option" where
  "refund_sequence n =
     (case refund_tx n of
        None \<Rightarrow> Some (Err (Generic ''No refund tx''))
      | Some tx \<Rightarrow> map_option Ok (first_sequence tx))"

definition needs_node_tx_renewed :: "TreeNode \<Rightarrow> bool option" where
  "needs_node_tx_renewed n = map_option (\<lambda>s. (ucast s :: 16 word) \<le> 100) (node_sequence n)"

definition needs_refund_tx_renewed :: "TreeNode \<Rightarrow> (TreeServiceError + bool) option" where
  "needs_refund_tx_renewed n =
     map_option (\<lambda>r. rbind r (\<lambda>s. Ok ((ucast s :: 16 word) \<le> 100))) (refund_sequence n)"

definition is_zero_timelock :: "TreeNode \<Rightarrow> bool option" where
  "is_zero_timelock n = map_option (\<lambda>s. (ucast s :: 16 word) = 0) (node_sequence n)"

section \<open>Leaves, reservations and targets\<close>

record Leaves =
  lv_available :: "TreeNode list"
  lv_not_available :: "TreeNode list"
  available_missing_from_operators :: "TreeNode list"
  reserved_for_payment :: "TreeNode list"
  reserved_for_swap :: "TreeNode list"

definition leaves_sum :: "TreeNode list \<Rightarrow> u64" where
  "leaves_sum ls = wsum 64 (map tn_value ls)"

definition leaves_available_balance :: "Leaves \<Rightarrow> u64" where
  "leaves_available_balance l = leaves_sum (lv_available l)"

definition missing_operators_balance :: "Leaves \<Rightarrow> u64" where
  "missing_operators_balance l = leaves_sum (available_missing_from_operators l)"

definition payment_reserved_balance :: "Leaves \<Rightarrow> u64" where
  "payment_reserved_balance l = leaves_sum (reserved_for_payment l)"

definition swap_reserved_balance :: "Leaves \<Rightarrow> u64" where
  "swap_reserved_balance l = leaves_sum (reserved_for_swap l)"

definition leaves_balance :: "Leaves \<Rightarrow> u64" where
  "leaves_balance l =
     wadd 64 (wadd 64 (leaves_available_balance l) (missing_operators_balance l))
       (swap_reserved_balance l)"

type_synonym LeavesReservationId = string

record LeavesReservation =
  lr_id :: LeavesReservationId
  lr_leaves :: "TreeNode list"

definition new_reservation :: "TreeNode list \<Rightarrow> LeavesReservationId \<Rightarrow> LeavesReservation" where
  "new_reservation ls i = \<lparr>lr_id = i, lr_leaves = ls\<rparr>"

definition reservation_sum :: "LeavesReservation \<Rightarrow> u64" where
  "reservation_sum r = leaves_sum (lr_leaves r)"

datatype ReserveResult =
    Success LeavesReservation
  | ReserveInsufficientFunds
  | WaitForPending u64 u64 u64

fun into_result :: "ReserveResult \<Rightarrow> TreeServiceError + LeavesReservation" where
  "into_result (Success r) = Ok r"
| "into_result ReserveInsufficientFunds = Err InsufficientFunds"
| "into_result (WaitForPending _ _ _) = Err (Generic ''Unexpected WaitForPending after swap'')"

datatype ReservationPurpose = Payment | Swap

fun purpose_to_string :: "ReservationPurpose \<Rightarrow> string" where
  "purpose_to_string Payment = ''Payment''"
| "purpose_to_string Swap = ''Swap''"

definition purpose_from_str :: "string \<Rightarrow> string + ReservationPurpose" where
  "purpose_from_str s =
     (if s = ''Payment'' then Ok Payment
      else if s = ''Swap'' then Ok Swap
      else Err (''Unknown ReservationPurpose: '' @ s))"

datatype TargetAmounts = AmountAndFee u64 "u64 option" | ExactDenominations "u64 list"

fun total_sats :: "TargetAmounts \<Rightarrow> u64" where
  "total_sats (AmountAndFee amount_sats fee_sats) = wadd 64 amount_sats (unwrap_or fee_sats 0)"
| "total_sats (ExactDenominations denominations) = wsum 64 denominations"

record TargetLeaves =
  amount_leaves :: "TreeNode list"
  fee_leaves :: "TreeNode list option"

definition new_target_leaves :: "TreeNode list \<Rightarrow> TreeNode list option \<Rightarrow> TargetLeaves" where
  "new_target_leaves a f = \<lparr>amount_leaves = a, fee_leaves = f\<rparr>"

abbreviation values_of :: "TreeNode list \<Rightarrow> nat list" where
  "values_of ls \<equiv> map tn_value ls"

abbreviation ids_of :: "TreeNode list \<Rightarrow> TreeNodeId set" where
  "ids_of ls \<equiv> tn_id ` set ls"

text \<open>A leaf with an identifier, a value and a refund transaction of the given sequence; the
  instances of the theorems below and of the other theories use it.\<close>

definition sample_leaf :: "TreeNodeId \<Rightarrow> u64 \<Rightarrow> sequence \<Rightarrow> TreeNode" where
  "sample_leaf i v s =
     (let tx = \<lparr>tx_version = 3, lock_time = 0,
                tx_input = [\<lparr>previous_output = \<lparr>op_txid = ''parent'', op_vout = 0\<rparr>, script_sig = [],
                              in_sequence = s, witness = []\<rparr>],
                tx_output = [\<lparr>out_value = v, script_pubkey = ''pk''\<rparr>]\<rparr>
      in \<lparr>tn_id = i, tree_id = ''tree'', tn_value = v, parent_node_id = None, node_tx = tx,
          refund_tx = Some tx, direct_tx = None, direct_refund_tx = None,
          direct_from_cpfp_refund_tx = None, tn_vout = 0, verifying_public_key = ''vk'',
          owner_identity_public_key = None,
          signing_keyshare = \<lparr>owner_identifiers = [], threshold = 2, ks_public_key = ''ks''\<rparr>,
          tn_status = Available\<rparr>)"

section \<open>Lemmas\<close>

lemma sample_leaf_simps [simp]:
  "tn_id (sample_leaf i v s) = i" "tn_value (sample_leaf i v s) = v"
  "tn_status (sample_leaf i v s) = Available"
  by (simp_all add: sample_leaf_def Let_def)

lemma leaves_sum_exact: "sum_list (values_of ls) < 2 ^ 64 \<Longrightarrow> leaves_sum ls = sum_list (values_of ls)"
  by (simp add: leaves_sum_def)

lemma purpose_roundtrip: "purpose_from_str (purpose_to_string p) = Ok p"
  by (cases p) (simp_all add: purpose_from_str_def)

lemma network_roundtrip: "network_from_str (network_to_string n) = Ok n"
  by (cases n) (simp_all add: network_from_str_def)

lemma ucast_le_100: "((ucast s :: 16 word) \<le> 100) = (blocks s \<le> 100)"
  by (simp add: blocks_def word_le_nat_alt)

section \<open>Properties\<close>

text \<open>The renewal threshold is safe: for a leaf whose refund transaction is not reported as due
  for renewal, the next refund sequence exists, so the leaf can still be transferred, and the refund
  it produces still has a positive timelock.\<close>

theorem not_due_for_renewal_can_transfer:
  assumes "refund_tx n = Some tx" and "first_sequence tx = Some s"
    and "needs_refund_tx_renewed n = Some (Ok False)"
  shows "\<exists>c d. next_sequence s = Some (c, d) \<and> 0 < blocks c \<and> blocks c < blocks d"
proof -
  from assms have "100 < blocks s"
    by (simp add: needs_refund_tx_renewed_def refund_sequence_def ucast_le_100)
  then obtain c d where cd: "next_sequence s = Some (c, d)"
    using next_sequence_None [of s] by fastforce
  with \<open>100 < blocks s\<close> show ?thesis by (auto simp: next_sequence_Some [OF cd])
qed

theorem not_due_for_renewal_can_transfer_witness:
  "\<exists>c d. next_sequence 500 = Some (c, d) \<and> 0 < blocks c \<and> blocks c < blocks d"
proof -
  have "needs_refund_tx_renewed (sample_leaf ''a'' 8 500) = Some (Ok False)"
    by (simp add: needs_refund_tx_renewed_def refund_sequence_def sample_leaf_def Let_def
        first_sequence_def word_le_nat_alt)
  moreover obtain tx where "refund_tx (sample_leaf ''a'' 8 500) = Some tx" "first_sequence tx = Some 500"
    by (simp add: sample_leaf_def Let_def first_sequence_def)
  ultimately show ?thesis using not_due_for_renewal_can_transfer by blast
qed

end
