(* ===== verification/Spark_Transactions.thy ===== *)
theory Spark_Transactions
  imports Tree_Model
begin

text \<open>
  Construction of node, refund, connector and HTLC transactions:
  \<open>crates/spark/src/utils/transactions.rs\<close> and \<open>crates/spark/src/utils/htlc_transactions.rs\<close>.

  Parameters stand for the bitcoin crate: \<open>compute_txid\<close>, \<open>p2tr_script\<close> (the script of the key-spend
  taproot address of a public key on a network) and \<open>taproot_tree\<close> (the script of the taproot address
  of an internal key and a list of script leaves with their depths, or the builder's error). A script
  under construction is the list of the builder's calls. Indexing \<open>output[0]\<close> or \<open>input[0]\<close> of an
  empty list panics: \<open>None\<close>.

  The theorems account for every satoshi of the built transactions, say which output is the
  anchor, and order the timelocks of the CPFP and direct variants.
\<close>

definition ESTIMATED_TX_SIZE :: u64 where "ESTIMATED_TX_SIZE = 191"

definition DEFAULT_FEE_RATE :: u64 where "DEFAULT_FEE_RATE = 5"

definition DEFAULT_FEE_SATS :: u64 where
  "DEFAULT_FEE_SATS = ESTIMATED_TX_SIZE * DEFAULT_FEE_RATE"

record NodeTransactions =
  nt_cpfp_tx :: Transaction
  nt_direct_tx :: Transaction

record RefundTransactions =
  rt_cpfp_tx :: Transaction
  rt_direct_tx :: "Transaction option"
  rt_direct_from_cpfp_tx :: "Transaction option"

record ConnectorRefundTxsParams =
  cp_cpfp_sequence :: sequence
  cp_direct_sequence :: sequence
  cp_node_tx :: Transaction
  cp_direct_tx :: "Transaction option"
  cp_connector_outpoint :: OutPoint
  cp_receiving_pubkey :: public_key
  cp_network :: Network

text \<open>\<open>TxIn::default()\<close> of the bitcoin crate with the given outpoint: maximal sequence, nothing else.\<close>

definition default_txin :: "OutPoint \<Rightarrow> TxIn" where
  "default_txin outp = \<lparr>previous_output = outp, script_sig = [], in_sequence = 0xFFFFFFFF, witness = []\<rparr>"

definition maybe_apply_fee :: "u64 \<Rightarrow> u64" where
  "maybe_apply_fee amount_sats =
     (if DEFAULT_FEE_SATS < amount_sats then sat_sub amount_sats DEFAULT_FEE_SATS else amount_sats)"

definition anchor_script :: script where
  "anchor_script = map char_of [0x51 :: nat, 0x02, 0x4e, 0x73]"

definition ephemeral_anchor_output :: TxOut where
  "ephemeral_anchor_output = \<lparr>out_value = 0, script_pubkey = anchor_script\<rparr>"

definition is_ephemeral_anchor_output :: "TxOut \<Rightarrow> bool" where
  "is_ephemeral_anchor_output outp = (out_value outp = 0 \<and> script_pubkey outp = anchor_script)"

definition create_spark_tx ::
  "OutPoint \<Rightarrow> sequence \<Rightarrow> u64 \<Rightarrow> script \<Rightarrow> bool \<Rightarrow> bool \<Rightarrow> Transaction" where
  "create_spark_tx prev_out seq amount script apply_fee include_anchor =
     (let v = (if apply_fee then maybe_apply_fee amount else amount);
          tx = \<lparr>tx_version = 3, lock_time = 0,
                tx_input = [(default_txin prev_out)\<lparr>in_sequence := seq\<rparr>],
                tx_output = [\<lparr>out_value = v, script_pubkey = script\<rparr>]\<rparr>
      in if include_anchor then tx\<lparr>tx_output := tx_output tx @ [ephemeral_anchor_output]\<rparr> else tx)"

definition create_node_txs ::
  "(Transaction \<Rightarrow> txid) \<Rightarrow> Transaction \<Rightarrow> sequence \<Rightarrow> sequence \<Rightarrow> u32 \<Rightarrow> ServiceError + NodeTransactions" where
  "create_node_txs compute_txid parent_tx cpfp_seq direct_seq vout =
     (if vout < length (tx_output parent_tx)
      then let parent_tx_out = tx_output parent_tx ! vout;
               parent_outpoint = \<lparr>op_txid = compute_txid parent_tx, op_vout = vout\<rparr>
           in Ok \<lparr>nt_cpfp_tx = create_spark_tx parent_outpoint cpfp_seq (out_value parent_tx_out)
                    (script_pubkey parent_tx_out) False True,
                  nt_direct_tx = create_spark_tx parent_outpoint direct_seq (out_value parent_tx_out)
                    (script_pubkey parent_tx_out) True False\<rparr>
      else Err InvalidOutputIndex)"

definition create_root_node_txs ::
  "(Transaction \<Rightarrow> txid) \<Rightarrow> Transaction \<Rightarrow> u32 \<Rightarrow> ServiceError + NodeTransactions" where
  "create_root_node_txs compute_txid parent_tx vout =
     (case initial_root_timelock_sequence of (c, d) \<Rightarrow> create_node_txs compute_txid parent_tx c d vout)"

definition create_initial_timelock_node_txs ::
  "(Transaction \<Rightarrow> txid) \<Rightarrow> Transaction \<Rightarrow> ServiceError + NodeTransactions" where
  "create_initial_timelock_node_txs compute_txid parent_tx =
     (case initial_timelock_sequence of (c, d) \<Rightarrow> create_node_txs compute_txid parent_tx c d 0)"

definition create_decremented_timelock_node_txs ::
  "(Transaction \<Rightarrow> txid) \<Rightarrow> Transaction \<Rightarrow> Transaction \<Rightarrow> (ServiceError + NodeTransactions) option" where
  "create_decremented_timelock_node_txs compute_txid parent_tx ntx =
     (case first_sequence ntx of
        None \<Rightarrow> None
      | Some old_sequence \<Rightarrow>
          Some (case next_sequence old_sequence of
                  None \<Rightarrow> Err (SvGeneric ''Failed to get next sequence'')
                | Some (c, d) \<Rightarrow> create_node_txs compute_txid parent_tx c d 0))"

definition create_zero_timelock_node_txs ::
  "(Transaction \<Rightarrow> txid) \<Rightarrow> Transaction \<Rightarrow> ServiceError + NodeTransactions" where
  "create_zero_timelock_node_txs compute_txid parent_tx =
     (case initial_zero_timelock_sequence of (c, d) \<Rightarrow> create_node_txs compute_txid parent_tx c d 0)"

definition first_output :: "Transaction \<Rightarrow> TxOut option" where
  "first_output tx = (case tx_output tx of [] \<Rightarrow> None | outp # _ \<Rightarrow> Some outp)"

text \<open>The optional direct transaction of the refund builders: spends output 0 of \<open>tx\<close>.\<close>

definition direct_refund ::
  "(Transaction \<Rightarrow> txid) \<Rightarrow> sequence \<Rightarrow> script \<Rightarrow> Transaction \<Rightarrow> Transaction option" where
  "direct_refund compute_txid direct_seq script tx =
     map_option (\<lambda>outp. create_spark_tx \<lparr>op_txid = compute_txid tx, op_vout = 0\<rparr> direct_seq
        (out_value outp) script True False) (first_output tx)"

definition create_refund_txs ::
  "(Transaction \<Rightarrow> txid) \<Rightarrow> (public_key \<Rightarrow> Network \<Rightarrow> script) \<Rightarrow> Transaction \<Rightarrow> Transaction option \<Rightarrow>
   sequence \<Rightarrow> sequence \<Rightarrow> public_key \<Rightarrow> Network \<Rightarrow> RefundTransactions option" where
  "create_refund_txs compute_txid p2tr_script ntx dtx cpfp_seq direct_seq receiving_pubkey network =
     (case first_output ntx of
        None \<Rightarrow> None
      | Some node_out \<Rightarrow>
          (let node_value = out_value node_out;
               cpfp_outpoint = \<lparr>op_txid = compute_txid ntx, op_vout = 0\<rparr>;
               script = p2tr_script receiving_pubkey network;
               cpfp_tx = create_spark_tx cpfp_outpoint cpfp_seq node_value script False True;
               direct_from_cpfp_tx = Some (create_spark_tx cpfp_outpoint direct_seq node_value script True False)
           in case dtx of
                None \<Rightarrow> Some \<lparr>rt_cpfp_tx = cpfp_tx, rt_direct_tx = None,
                              rt_direct_from_cpfp_tx = direct_from_cpfp_tx\<rparr>
              | Some tx \<Rightarrow>
                  map_option (\<lambda>d. \<lparr>rt_cpfp_tx = cpfp_tx, rt_direct_tx = Some d,
                                   rt_direct_from_cpfp_tx = direct_from_cpfp_tx\<rparr>)
                    (direct_refund compute_txid direct_seq script tx)))"

definition create_initial_timelock_refund_txs ::
  "(Transaction \<Rightarrow> txid) \<Rightarrow> (public_key \<Rightarrow> Network \<Rightarrow> script) \<Rightarrow> Transaction \<Rightarrow> Transaction option \<Rightarrow>
   public_key \<Rightarrow> Network \<Rightarrow> RefundTransactions option" where
  "create_initial_timelock_refund_txs compute_txid p2tr_script ntx dtx receiving_pubkey network =
     (case initial_timelock_sequence of (c, d) \<Rightarrow>
        create_refund_txs compute_txid p2tr_script ntx dtx c d receiving_pubkey network)"

definition push_input :: "OutPoint \<Rightarrow> Transaction \<Rightarrow> Transaction" where
  "push_input outp tx = tx\<lparr>tx_input := tx_input tx @ [default_txin outp]\<rparr>"

definition create_connector_refund_txs ::
  "(Transaction \<Rightarrow> txid) \<Rightarrow> (public_key \<Rightarrow> Network \<Rightarrow> script) \<Rightarrow> ConnectorRefundTxsParams \<Rightarrow>
   RefundTransactions option" where
  "create_connector_refund_txs compute_txid p2tr_script params =
     (case first_output (cp_node_tx params) of
        None \<Rightarrow> None
      | Some node_out \<Rightarrow>
          (let node_value = out_value node_out;
               cpfp_outpoint = \<lparr>op_txid = compute_txid (cp_node_tx params), op_vout = 0\<rparr>;
               script = p2tr_script (cp_receiving_pubkey params) (cp_network params);
               connector = cp_connector_outpoint params;
               cpfp_tx = push_input connector
                 (create_spark_tx cpfp_outpoint (cp_cpfp_sequence params) node_value script False True);
               direct_from_cpfp_tx = Some (push_input connector
                 (create_spark_tx cpfp_outpoint (cp_direct_sequence params) node_value script True False))
           in case cp_direct_tx params of
                None \<Rightarrow> Some \<lparr>rt_cpfp_tx = cpfp_tx, rt_direct_tx = None,
                              rt_direct_from_cpfp_tx = direct_from_cpfp_tx\<rparr>
              | Some tx \<Rightarrow>
                  map_option (\<lambda>d. \<lparr>rt_cpfp_tx = cpfp_tx, rt_direct_tx = Some (push_input connector d),
                                   rt_direct_from_cpfp_tx = direct_from_cpfp_tx\<rparr>)
                    (direct_refund compute_txid (cp_direct_sequence params) script tx)))"

definition create_static_deposit_refund_tx :: "OutPoint \<Rightarrow> u64 \<Rightarrow> script \<Rightarrow> Transaction" where
  "create_static_deposit_refund_tx deposit_outpoint amount_sat refund_script =
     \<lparr>tx_version = 3, lock_time = 0, tx_input = [default_txin deposit_outpoint],
      tx_output = [\<lparr>out_value = amount_sat, script_pubkey = refund_script\<rparr>]\<rparr>"

section \<open>HTLC transactions\<close>

datatype script_op =
    OP_SHA256 | OP_EQUALVERIFY | OP_CHECKSIG | OP_CSV | OP_DROP
  | PushSlice string | PushXOnly public_key | PushInt int

definition LIGHTNING_HTLC_TIME_LOCK :: "16 word" where "LIGHTNING_HTLC_TIME_LOCK = 2160"

definition UNSPENDABLE_PUBKEY :: public_key where
  "UNSPENDABLE_PUBKEY = ''0250929b74c1a04954b78b4b6035e97a5e078a5a0f28ec96d547bfee9ace803ac0''"

definition create_hash_lock_script :: "string \<Rightarrow> public_key \<Rightarrow> script_op list" where
  "create_hash_lock_script hash hash_lock_pubkey =
     [OP_SHA256, PushSlice hash, OP_EQUALVERIFY, PushXOnly hash_lock_pubkey, OP_CHECKSIG]"

definition create_sequence_lock_script :: "sequence \<Rightarrow> public_key \<Rightarrow> script_op list" where
  "create_sequence_lock_script seq sequence_lock_pubkey =
     [PushInt (uint seq), OP_CSV, OP_DROP, PushXOnly sequence_lock_pubkey, OP_CHECKSIG]"

type_synonym taproot_tree =
  "public_key \<Rightarrow> (nat \<times> script_op list) list \<Rightarrow> Network \<Rightarrow> SignerError + script"

definition create_htlc_taproot_address ::
  "taproot_tree \<Rightarrow> string \<Rightarrow> public_key \<Rightarrow> sequence \<Rightarrow> public_key \<Rightarrow> Network \<Rightarrow> SignerError + script" where
  "create_htlc_taproot_address taproot hash hash_lock_pubkey seq sequence_lock_pubkey network =
     taproot UNSPENDABLE_PUBKEY
       [(1, create_hash_lock_script hash hash_lock_pubkey),
        (1, create_sequence_lock_script seq sequence_lock_pubkey)] network"

definition create_lightning_htlc_tx ::
  "taproot_tree \<Rightarrow> OutPoint \<Rightarrow> sequence \<Rightarrow> u64 \<Rightarrow> string \<Rightarrow> public_key \<Rightarrow> public_key \<Rightarrow> Network \<Rightarrow>
   bool \<Rightarrow> bool \<Rightarrow> SignerError + Transaction" where
  "create_lightning_htlc_tx taproot prev_out seq amount hash hash_lock_pubkey sequence_lock_pubkey
     network apply_fee include_anchor =
     rbind (create_htlc_taproot_address taproot hash hash_lock_pubkey
              (ucast LIGHTNING_HTLC_TIME_LOCK) sequence_lock_pubkey network)
       (\<lambda>script. Ok (create_spark_tx prev_out seq amount script apply_fee include_anchor))"

record HtlcRefundParams =
  hp_node_tx :: Transaction
  hp_direct_tx :: "Transaction option"
  hp_cpfp_sequence :: sequence
  hp_direct_sequence :: sequence
  hp_hash :: string
  hp_hash_lock_pubkey :: public_key
  hp_sequence_lock_pubkey :: public_key
  hp_network :: Network

definition create_lightning_htlc_refund_txs ::
  "(Transaction \<Rightarrow> txid) \<Rightarrow> taproot_tree \<Rightarrow> HtlcRefundParams \<Rightarrow> (SignerError + RefundTransactions) option" where
  "create_lightning_htlc_refund_txs compute_txid taproot p =
     (let htlc_tx = (\<lambda>prev_out seq amount fee anchor.
            create_lightning_htlc_tx taproot prev_out seq amount (hp_hash p) (hp_hash_lock_pubkey p)
              (hp_sequence_lock_pubkey p) (hp_network p) fee anchor);
          cpfp_outpoint = \<lparr>op_txid = compute_txid (hp_node_tx p), op_vout = 0\<rparr>
      in case first_output (hp_node_tx p) of
           None \<Rightarrow> None
         | Some node_out \<Rightarrow>
             (case htlc_tx cpfp_outpoint (hp_cpfp_sequence p) (out_value node_out) False True of
                Err e \<Rightarrow> Some (Err e)
              | Ok cpfp_tx \<Rightarrow>
                  (case (case hp_direct_tx p of
                           None \<Rightarrow> Some (Ok None)
                         | Some tx \<Rightarrow>
                             map_option (\<lambda>outp. rbind (htlc_tx \<lparr>op_txid = compute_txid tx, op_vout = 0\<rparr>
                                 (hp_direct_sequence p) (out_value outp) True False) (\<lambda>t. Ok (Some t)))
                               (first_output tx)) of
                     None \<Rightarrow> None
                   | Some direct_tx_result \<Rightarrow>
                       Some (rbind direct_tx_result (\<lambda>direct.
                         rbind (htlc_tx cpfp_outpoint (hp_direct_sequence p) (out_value node_out) True False)
                           (\<lambda>d. Ok \<lparr>rt_cpfp_tx = cpfp_tx, rt_direct_tx = direct,
                                    rt_direct_from_cpfp_tx = Some d\<rparr>))))))"

text \<open>Total value of the outputs, and the outpoints and sequences of the inputs.\<close>

definition output_total :: "Transaction \<Rightarrow> nat" where
  "output_total tx = sum_list (map out_value (tx_output tx))"

definition spends :: "Transaction \<Rightarrow> OutPoint list" where
  "spends tx = map previous_output (tx_input tx)"

section \<open>Lemmas\<close>

lemma DEFAULT_FEE_SATS_eq: "DEFAULT_FEE_SATS = 955"
  by (simp add: DEFAULT_FEE_SATS_def ESTIMATED_TX_SIZE_def DEFAULT_FEE_RATE_def)

lemma maybe_apply_fee_le: "maybe_apply_fee v \<le> v"
  by (simp add: maybe_apply_fee_def)

lemma maybe_apply_fee_loss:
  "v - maybe_apply_fee v = (if 955 < v then 955 else 0)"
  by (simp add: maybe_apply_fee_def DEFAULT_FEE_SATS_eq)

lemma maybe_apply_fee_pos: "0 < v \<Longrightarrow> 0 < maybe_apply_fee v"
  by (simp add: maybe_apply_fee_def)

lemma create_spark_tx_fields [simp]:
  "output_total (create_spark_tx outp s v sc fee anchor) = (if fee then maybe_apply_fee v else v)"
  "spends (create_spark_tx outp s v sc fee anchor) = [outp]"
  "first_sequence (create_spark_tx outp s v sc fee anchor) = Some s"
  "first_output (create_spark_tx outp s v sc fee anchor) =
     Some \<lparr>out_value = (if fee then maybe_apply_fee v else v), script_pubkey = sc\<rparr>"
  "lock_time (create_spark_tx outp s v sc fee anchor) = 0"
  by (simp_all add: create_spark_tx_def Let_def output_total_def spends_def first_sequence_def
      first_output_def default_txin_def ephemeral_anchor_output_def)

lemma create_spark_tx_outputs:
  "tx_output (create_spark_tx outp s v sc fee anchor) =
     \<lparr>out_value = (if fee then maybe_apply_fee v else v), script_pubkey = sc\<rparr> #
       (if anchor then [ephemeral_anchor_output] else [])"
  by (simp add: create_spark_tx_def Let_def)

lemma anchor_is_anchor [simp]: "is_ephemeral_anchor_output ephemeral_anchor_output"
  by (simp add: is_ephemeral_anchor_output_def ephemeral_anchor_output_def)

section \<open>Properties\<close>

text \<open>Node transactions account for every satoshi of the parent output they spend: both
  variants spend exactly that one outpoint, the CPFP variant passes the whole value on and carries the
  zero-value anchor as its second output, the direct variant passes on the value less the fixed 955
  satoshi fee when the value exceeds it and the whole value otherwise; an output index out of range is
  an error.\<close>

theorem create_node_txs_accounting:
  "case create_node_txs compute_txid parent c d vout of
     Err e \<Rightarrow> e = InvalidOutputIndex \<and> length (tx_output parent) \<le> vout
   | Ok txs \<Rightarrow>
       (let v = out_value (tx_output parent ! vout);
            outp = \<lparr>op_txid = compute_txid parent, op_vout = vout\<rparr>
        in vout < length (tx_output parent)
           \<and> spends (nt_cpfp_tx txs) = [outp] \<and> spends (nt_direct_tx txs) = [outp]
           \<and> output_total (nt_cpfp_tx txs) = v
           \<and> output_total (nt_direct_tx txs) = (if 955 < v then v - 955 else v)
           \<and> map is_ephemeral_anchor_output (tl (tx_output (nt_cpfp_tx txs))) = [True]
           \<and> tl (tx_output (nt_direct_tx txs)) = []
           \<and> first_sequence (nt_cpfp_tx txs) = Some c \<and> first_sequence (nt_direct_tx txs) = Some d)"
  by (auto simp: create_node_txs_def Let_def create_spark_tx_outputs maybe_apply_fee_def
      DEFAULT_FEE_SATS_eq)

text \<open>A renewed node transaction is one interval closer: when the decremented node transactions
  are built from a node transaction with sequence \<open>s\<close>, the CPFP variant is locked exactly 100 blocks
  less than \<open>s\<close>, the direct variant exactly 50 blocks more than the CPFP variant; the build fails
  exactly when fewer than 100 blocks are left or the parent has no output.\<close>

theorem decremented_node_txs_timelock:
  assumes "first_sequence ntx = Some s"
  shows "case create_decremented_timelock_node_txs compute_txid parent ntx of
      None \<Rightarrow> False
    | Some (Err e) \<Rightarrow> blocks s < 100 \<or> tx_output parent = []
    | Some (Ok txs) \<Rightarrow>
        (\<exists>c d. first_sequence (nt_cpfp_tx txs) = Some c \<and> first_sequence (nt_direct_tx txs) = Some d
           \<and> blocks c + 100 = blocks s \<and> blocks d = blocks c + 50)"
proof (cases "next_sequence s")
  case None
  then have "blocks s < 100" using next_sequence_None by blast
  with assms None show ?thesis by (simp add: create_decremented_timelock_node_txs_def)
next
  case (Some p)
  obtain c d where p: "p = (c, d)" by (cases p)
  with Some have cd: "next_sequence s = Some (c, d)" by simp
  have "blocks c + 100 = blocks s \<and> blocks d = blocks c + 50"
    using next_sequence_Some [OF cd] by simp
  then show ?thesis using assms
    by (auto simp: create_decremented_timelock_node_txs_def cd create_node_txs_def Let_def)
qed

theorem decremented_node_txs_timelock_witness:
  "let ntx = create_spark_tx \<lparr>op_txid = ''a'', op_vout = 0\<rparr> 0x400007D0 5000 ''s'' False True in
   case create_decremented_timelock_node_txs (\<lambda>_. ''t'') ntx ntx of
      None \<Rightarrow> False
    | Some (Err e) \<Rightarrow> blocks 0x400007D0 < 100 \<or> tx_output ntx = []
    | Some (Ok txs) \<Rightarrow>
        (\<exists>c d. first_sequence (nt_cpfp_tx txs) = Some c \<and> first_sequence (nt_direct_tx txs) = Some d
           \<and> blocks c + 100 = blocks 0x400007D0 \<and> blocks d = blocks c + 50)"
proof -
  have h: "first_sequence (create_spark_tx \<lparr>op_txid = ''a'', op_vout = 0\<rparr> 0x400007D0 5000 ''s'' False True)
      = Some 0x400007D0"
    by simp
  show ?thesis
    unfolding Let_def by (rule decremented_node_txs_timelock [OF h])
qed

text \<open>The three refund transactions of a leaf: the CPFP refund and the direct-from-CPFP refund
  spend the same output of the node transaction, so they exclude each other; the CPFP refund forwards
  the node's whole value, every direct variant loses at most the fixed fee; the CPFP refund carries the
  sequence given for it and both direct variants the direct one; and a direct refund is built exactly
  when a direct node transaction is given.\<close>

theorem create_refund_txs_accounting:
  assumes "create_refund_txs compute_txid p2tr ntx dtx c d pk net = Some r"
    and "first_output ntx = Some outp"
  shows "spends (rt_cpfp_tx r) = [\<lparr>op_txid = compute_txid ntx, op_vout = 0\<rparr>]
    \<and> output_total (rt_cpfp_tx r) = out_value outp
    \<and> first_sequence (rt_cpfp_tx r) = Some c
    \<and> (\<exists>t. rt_direct_from_cpfp_tx r = Some t \<and> spends t = spends (rt_cpfp_tx r)
         \<and> first_sequence t = Some d
         \<and> output_total t \<le> out_value outp \<and> out_value outp \<le> output_total t + 955)
    \<and> (case dtx of
         None \<Rightarrow> rt_direct_tx r = None
       | Some dt \<Rightarrow> (\<exists>t outp'. rt_direct_tx r = Some t \<and> first_output dt = Some outp'
           \<and> spends t = [\<lparr>op_txid = compute_txid dt, op_vout = 0\<rparr>] \<and> first_sequence t = Some d
           \<and> output_total t \<le> out_value outp' \<and> out_value outp' \<le> output_total t + 955))"
  using assms
  by (auto simp: create_refund_txs_def Let_def direct_refund_def maybe_apply_fee_def
      DEFAULT_FEE_SATS_eq split: option.splits)

theorem create_refund_txs_accounting_witness:
  "\<exists>r. create_refund_txs (\<lambda>_. ''t'') (\<lambda>_ _. ''k'')
      (create_spark_tx \<lparr>op_txid = ''a'', op_vout = 0\<rparr> 0 5000 ''s'' False True) None 100 150 ''pk'' Regtest
      = Some r
    \<and> output_total (rt_cpfp_tx r) = 5000 \<and> first_sequence (rt_cpfp_tx r) = Some 100"
proof -
  let ?n = "create_spark_tx \<lparr>op_txid = ''a'', op_vout = 0\<rparr> 0 5000 ''s'' False True"
  obtain r where r: "create_refund_txs (\<lambda>_. ''t'') (\<lambda>_ _. ''k'') ?n None 100 150 ''pk'' Regtest = Some r"
    by (simp add: create_refund_txs_def Let_def)
  have n: "first_output ?n = Some \<lparr>out_value = 5000, script_pubkey = ''s''\<rparr>" by simp
  show ?thesis using r create_refund_txs_accounting [OF r n] by auto
qed

text \<open>The HTLC refund transactions pay one and the same taproot script, whose two leaves are the
  hash lock for the receiver and the 2160-block sequence lock for the sender under the unspendable
  internal key: when that script can be built, the CPFP refund forwards the whole node value, the
  alternative from the same output loses at most the fixed fee, and no direct refund appears without a
  direct node transaction.\<close>

theorem htlc_refund_accounting:
  assumes "first_output (hp_node_tx p) = Some outp"
    and "taproot UNSPENDABLE_PUBKEY
           [(1, create_hash_lock_script (hp_hash p) (hp_hash_lock_pubkey p)),
            (1, create_sequence_lock_script 2160 (hp_sequence_lock_pubkey p))] (hp_network p) = Ok sc"
    and "hp_direct_tx p = None"
  shows "\<exists>r t. create_lightning_htlc_refund_txs compute_txid taproot p = Some (Ok r)
    \<and> first_output (rt_cpfp_tx r) = Some \<lparr>out_value = out_value outp, script_pubkey = sc\<rparr>
    \<and> first_sequence (rt_cpfp_tx r) = Some (hp_cpfp_sequence p)
    \<and> rt_direct_tx r = None
    \<and> rt_direct_from_cpfp_tx r = Some t
    \<and> spends t = spends (rt_cpfp_tx r)
    \<and> map_option script_pubkey (first_output t) = Some sc
    \<and> first_sequence t = Some (hp_direct_sequence p)
    \<and> output_total t \<le> output_total (rt_cpfp_tx r) \<and> output_total (rt_cpfp_tx r) \<le> output_total t + 955"
  using assms
  by (simp add: create_lightning_htlc_refund_txs_def create_lightning_htlc_tx_def
      create_htlc_taproot_address_def LIGHTNING_HTLC_TIME_LOCK_def Let_def maybe_apply_fee_def
      DEFAULT_FEE_SATS_eq)

theorem htlc_refund_accounting_witness:
  "let p = \<lparr>hp_node_tx = create_spark_tx \<lparr>op_txid = ''a'', op_vout = 0\<rparr> 0 5000 ''s'' False True,
            hp_direct_tx = None, hp_cpfp_sequence = 70, hp_direct_sequence = 85, hp_hash = ''h'',
            hp_hash_lock_pubkey = ''r'', hp_sequence_lock_pubkey = ''s'', hp_network = Regtest\<rparr>
   in \<exists>r. create_lightning_htlc_refund_txs (\<lambda>_. ''t'') (\<lambda>_ _ _. Ok ''x'') p = Some (Ok r)
        \<and> output_total (rt_cpfp_tx r) \<le> 5955"
proof -
  let ?p = "\<lparr>hp_node_tx = create_spark_tx \<lparr>op_txid = ''a'', op_vout = 0\<rparr> 0 5000 ''s'' False True,
            hp_direct_tx = None, hp_cpfp_sequence = 70, hp_direct_sequence = 85, hp_hash = ''h'',
            hp_hash_lock_pubkey = ''r'', hp_sequence_lock_pubkey = ''s'', hp_network = Regtest\<rparr>"
  have h1: "first_output (hp_node_tx ?p) = Some \<lparr>out_value = 5000, script_pubkey = ''s''\<rparr>" by simp
  have h3: "hp_direct_tx ?p = None" by simp
  obtain r t where r: "create_lightning_htlc_refund_txs (\<lambda>_. ''t'') (\<lambda>_ _ _. Ok ''x'') ?p = Some (Ok r)"
    using htlc_refund_accounting [OF h1 _ h3, of "\<lambda>_ _ _. Ok ''x''" "''x''" "\<lambda>_. ''t''"] by auto
  then have "output_total (rt_cpfp_tx r) \<le> 5955"
    by (auto simp: create_lightning_htlc_refund_txs_def create_lightning_htlc_tx_def
        create_htlc_taproot_address_def Let_def)
  with r show ?thesis by (simp add: Let_def)
qed

end
