(* ===== verification/Paging.thy ===== *)
theory Paging
  imports Prelude
begin

text \<open>
  Paged queries against the operators: \<open>crates/spark/src/utils/paging.rs\<close>.

  Offsets and limits are \<open>u64\<close> and are 64-bit words here, because it is the width that makes the loop
  of \<open>pager\<close> terminate: it goes on only while the offset strictly grows. The query is a parameter;
  since no offset is asked twice, a function of the filter is as general as a remote call. Lemmas: the
  loop always returns, an error of a page is the result, and against any source that serves a list in
  pages the loop returns the whole list, each item once and in order.
\<close>

definition DEFAULT_PAGING_LIMIT :: "64 word" where "DEFAULT_PAGING_LIMIT = 100"

definition DEFAULT_PAGING_OFFSET :: "64 word" where "DEFAULT_PAGING_OFFSET = 0"

datatype Order = Ascending | Descending

record PagingFilter =
  pf_offset :: "64 word"
  pf_limit :: "64 word"
  pf_order :: Order

definition new_paging_filter ::
  "64 word option \<Rightarrow> 64 word option \<Rightarrow> Order option \<Rightarrow> PagingFilter" where
  "new_paging_filter offset limit order =
     \<lparr>pf_offset = unwrap_or offset DEFAULT_PAGING_OFFSET,
      pf_limit = unwrap_or limit DEFAULT_PAGING_LIMIT,
      pf_order = unwrap_or order Descending\<rparr>"

definition next_page :: "PagingFilter \<Rightarrow> PagingFilter" where
  "next_page f = f\<lparr>pf_offset := pf_offset f + pf_limit f\<rparr>"

definition next_from_offset :: "PagingFilter \<Rightarrow> int \<Rightarrow> PagingFilter option" where
  "next_from_offset f offset = (if offset \<le> 0 then None else Some (next_page f))"

definition default_paging_filter :: PagingFilter where
  "default_paging_filter =
     \<lparr>pf_offset = DEFAULT_PAGING_OFFSET, pf_limit = DEFAULT_PAGING_LIMIT, pf_order = Descending\<rparr>"

record 'a PagingResult =
  items :: "'a list"
  next_filter :: "PagingFilter option"

definition complete :: "'a list \<Rightarrow> 'a PagingResult" where
  "complete xs = \<lparr>items = xs, next_filter = None\<rparr>"

definition map_paging_result :: "('a \<Rightarrow> 'b) \<Rightarrow> 'a PagingResult \<Rightarrow> 'b PagingResult" where
  "map_paging_result f r = \<lparr>items = map f (items r), next_filter = next_filter r\<rparr>"

function pager_loop ::
  "(PagingFilter \<Rightarrow> 'e + 'a PagingResult) \<Rightarrow> PagingFilter \<Rightarrow> 'a list \<Rightarrow> 'e + 'a PagingResult" where
  "pager_loop query_fn pf res =
     (case query_fn pf of
        Inl e \<Rightarrow> Inl e
      | Inr resp \<Rightarrow>
          if items resp = [] then Inr (complete res)
          else case next_filter resp of
                 None \<Rightarrow> Inr (complete (res @ items resp))
               | Some nxt \<Rightarrow>
                   if pf_offset nxt \<le> pf_offset pf then Inr (complete (res @ items resp))
                   else pager_loop query_fn nxt (res @ items resp))"
  by pat_completeness auto
termination
  by (relation "measure (\<lambda>(q, f, r). 2 ^ 64 - unat (pf_offset f))")
    (auto simp: not_le word_less_nat_alt intro!: diff_less_mono2 unat_bound64 [simplified])

definition pager ::
  "(PagingFilter \<Rightarrow> 'e + 'a PagingResult) \<Rightarrow> PagingFilter \<Rightarrow> 'e + 'a PagingResult" where
  "pager query_fn pf = pager_loop query_fn pf []"

text \<open>A source that serves the list \<open>xs\<close> in pages the way the operators' queries do: a page of at most
  \<open>limit\<close> items from \<open>offset\<close> on, with a positive continuation offset while items are left.\<close>

definition serve_list :: "'a list \<Rightarrow> PagingFilter \<Rightarrow> 'e + 'a PagingResult" where
  "serve_list xs f =
     (let o1 = unat (pf_offset f); n = unat (pf_limit f)
      in Inr \<lparr>items = take n (drop o1 xs),
              next_filter = next_from_offset f (if o1 + n < length xs then int (o1 + n) else -1)\<rparr>)"

declare pager_loop.simps [simp del]

lemma pager_loop_error: "query_fn f = Inl e \<Longrightarrow> pager_loop query_fn f res = Inl e"
  by (subst pager_loop.simps) simp

lemma pager_loop_serve_list:
  assumes "length xs + unat (pf_limit f) < 2 ^ 64" and "0 < pf_limit f"
  shows "pager_loop (serve_list xs) f res =
     (Inr (complete (res @ drop (unat (pf_offset f)) xs)) :: 'e + 'a PagingResult)"
  using assms
proof (induction "serve_list xs :: PagingFilter \<Rightarrow> 'e + 'a PagingResult" f res rule: pager_loop.induct)
  case (1 f res)
  let ?o = "unat (pf_offset f)" and ?n = "unat (pf_limit f)"
  have n: "0 < ?n" using "1.prems"(2) by (simp add: word_less_nat_alt)
  show ?case
  proof (cases "?o + ?n < length xs")
    case False
    then show ?thesis
      by (subst pager_loop.simps) (auto simp: serve_list_def Let_def next_from_offset_def)
  next
    case True
    then have o': "unat (pf_offset f + pf_limit f) = ?o + ?n"
      using "1.prems"(1) by (simp add: unat_word_ariths)
    then have grow: "\<not> pf_offset f + pf_limit f \<le> pf_offset f"
      using n by (simp add: word_le_nat_alt)
    let ?next = "next_page f"
    have nxt: "serve_list xs f = (Inr \<lparr>items = take ?n (drop ?o xs), next_filter = Some ?next\<rparr> :: 'e + 'a PagingResult)"
      using True n by (simp add: serve_list_def Let_def next_from_offset_def del: of_nat_add)
    have ne: "take ?n (drop ?o xs) \<noteq> []" using True n by simp
    have "pager_loop (serve_list xs) ?next (res @ take ?n (drop ?o xs)) =
        (Inr (complete ((res @ take ?n (drop ?o xs)) @ drop (unat (pf_offset ?next)) xs)) :: 'e + 'a PagingResult)"
      using "1.hyps" [OF nxt] ne grow "1.prems" by (simp add: next_page_def)
    also have "(res @ take ?n (drop ?o xs)) @ drop (unat (pf_offset ?next)) xs = res @ drop ?o xs"
      using o' by (simp add: next_page_def) (metis append_take_drop_id drop_drop add.commute)
    finally show ?thesis
      using nxt ne grow by (subst pager_loop.simps) (simp add: next_page_def)
  qed
qed

text \<open>Against any source that serves a list page by page, the pager started at the default filter
  returns the whole list, every item exactly once and in the order served, whatever the length (up to
  the width of the offset).\<close>

theorem pager_collects_all:
  assumes "length xs + 100 < 2 ^ 64"
  shows "pager (serve_list xs) default_paging_filter = (Inr (complete xs) :: 'e + 'a PagingResult)"
  using pager_loop_serve_list [of xs default_paging_filter "[]"] assms
  by (simp add: pager_def default_paging_filter_def DEFAULT_PAGING_LIMIT_def DEFAULT_PAGING_OFFSET_def)

theorem pager_collects_all_witness:
  "pager (serve_list [1, 2, 3 :: nat]) default_paging_filter = (Inr (complete [1, 2, 3]) :: string + nat PagingResult)"
  by (rule pager_collects_all) simp

end
