(* ===== verification/Unilateral_Exit.thy ===== *)
theory Unilateral_Exit
  imports Spark_Transactions Paging
begin

text \<open>
  Unilateral exit: \<open>crates/spark/src/services/unilateral_exit.rs\<close>.

  For every requested leaf the service walks to the root, and for each node transaction not handled
  yet (and for the leaf's refund) builds a child that pays the fee through the anchor output. The
  walk follows parent links of nodes fetched from an operator and has no bound of its own, so it is a
  \<open>partial_function\<close>: \<open>None\<close> is a walk that never ends. Parameters stand for the bitcoin crate:
  \<open>compute_txid\<close>, \<open>p2wpkh_script\<close> and \<open>from_unsigned_tx\<close>. \<open>None\<close> is also the panic of an index out
  of range when the PSBT has fewer inputs than the transaction it was made from.

  Theorems: the walk ends on every parent relation without cycles and returns a path from a root down to
  the leaf, and the children account for every satoshi and spend the anchor of their parent.
\<close>

record CpfpUtxo =
  cu_txid :: txid
  cu_vout :: u32
  cu_value :: u64
  cu_pubkey :: public_key

record Psbt =
  unsigned_tx :: Transaction
  psbt_inputs :: "TxOut option list"
  psbt_outputs :: nat

record TxCpfpPsbt =
  parent_tx :: Transaction
  child_psbt :: Psbt

record LeafTxCpfpPsbts =
  ltp_leaf_id :: TreeNodeId
  tx_cpfp_psbts :: "TxCpfpPsbt list"

record exit_env =
  compute_txid :: "Transaction \<Rightarrow> txid"
  p2wpkh_script :: "public_key \<Rightarrow> Network \<Rightarrow> script"
  from_unsigned_tx :: "Transaction \<Rightarrow> string + Psbt"

fun find_anchor :: "nat \<Rightarrow> TxOut list \<Rightarrow> (nat \<times> TxOut) option" where
  "find_anchor i [] = None"
| "find_anchor i (t # ts) = (if is_ephemeral_anchor_output t then Some (i, t) else find_anchor (Suc i) ts)"

definition tx_size_vbytes :: "nat \<Rightarrow> u64" where
  "tx_size_vbytes n_utxos = n_utxos * 68 + 41 + 31 + 10"

definition fee_bump_tx :: "exit_env \<Rightarrow> Transaction \<Rightarrow> nat \<Rightarrow> CpfpUtxo list \<Rightarrow> u64 \<Rightarrow> script \<Rightarrow> Transaction" where
  "fee_bump_tx env tx vout utxos amount script =
     \<lparr>tx_version = 3, lock_time = 0,
      tx_input = map (\<lambda>u. default_txin \<lparr>op_txid = cu_txid u, op_vout = cu_vout u\<rparr>) utxos
                 @ [default_txin \<lparr>op_txid = compute_txid env tx, op_vout = vout\<rparr>],
      tx_output = [\<lparr>out_value = amount, script_pubkey = script\<rparr>]\<rparr>"

definition create_tx_cpfp_psbt ::
  "exit_env \<Rightarrow> Transaction \<Rightarrow> CpfpUtxo list \<Rightarrow> u64 \<Rightarrow> Network \<Rightarrow>
   (ServiceError + (Psbt \<times> CpfpUtxo list)) option" where
  "create_tx_cpfp_psbt env tx utxos fee_rate network =
     (case find_anchor 0 (tx_output tx) of
        None \<Rightarrow> Some (Err (ValidationError ''Ephemeral anchor output not found''))
      | Some (vout, anchor_tx_out) \<Rightarrow>
          (case utxos of
             [] \<Rightarrow> Some (Err (ValidationError ''At least one UTXO is required for fee bumping''))
           | first # _ \<Rightarrow>
               (let total_utxo_value = wsum 64 (map cu_value utxos);
                    first_pubkey = cu_pubkey first;
                    output_script_pubkey = p2wpkh_script env first_pubkey network;
                    fee_amount = (fee_rate * tx_size_vbytes (length utxos)) mod 2 ^ 64;
                    adjusted_output_value = sat_sub total_utxo_value fee_amount
                in if adjusted_output_value = 0
                   then Some (Err (ValidationError ''UTXOs value is too low to cover the fee''))
                   else let bump = fee_bump_tx env tx vout utxos adjusted_output_value output_script_pubkey
                        in case from_unsigned_tx env bump of
                             Inl e \<Rightarrow> Some (Err (ValidationError (''Failed to create PSBT: '' @ e)))
                           | Inr psbt \<Rightarrow>
                               if length (psbt_inputs psbt) \<le> length utxos \<or> psbt_outputs psbt = 0 then None
                               else Some (Ok (psbt\<lparr>psbt_inputs :=
                                        map (\<lambda>u. Some \<lparr>out_value = cu_value u,
                                                       script_pubkey = p2wpkh_script env (cu_pubkey u) network\<rparr>) utxos
                                        @ [Some anchor_tx_out]
                                        @ drop (Suc (length utxos)) (psbt_inputs psbt)\<rparr>,
                                      [\<lparr>cu_txid = compute_txid env bump, cu_vout = 0,
                                        cu_value = adjusted_output_value, cu_pubkey = first_pubkey\<rparr>])))))"

partial_function (option) ancestors ::
  "(TreeNodeId, TreeNode) hmap \<Rightarrow> TreeNode \<Rightarrow> TreeNode list \<Rightarrow> (ServiceError + TreeNode list) option" where
  "ancestors tree_nodes node nodes =
     (case parent_node_id node of
        None \<Rightarrow> Some (Ok (node # nodes))
      | Some pid \<Rightarrow>
          (case hm_get tree_nodes pid of
             None \<Rightarrow> Some (Err (ValidationError (''Parent ID '' @ pid @ '' not found in the tree'')))
           | Some parent \<Rightarrow> ancestors tree_nodes parent (node # nodes)))"

fun bump_nodes ::
  "exit_env \<Rightarrow> u64 \<Rightarrow> Network \<Rightarrow> TreeNodeId \<Rightarrow> Transaction \<Rightarrow> TreeNode list \<Rightarrow> txid list \<Rightarrow> CpfpUtxo list \<Rightarrow>
   TxCpfpPsbt list \<Rightarrow> (ServiceError + (txid list \<times> CpfpUtxo list \<times> TxCpfpPsbt list)) option" where
  "bump_nodes env fee_rate network leaf_id refund [] checked utxos acc = Some (Ok (checked, utxos, acc))"
| "bump_nodes env fee_rate network leaf_id refund (node # nodes) checked utxos acc =
     (let txid = compute_txid env (node_tx node)
      in if txid \<in> set checked
         then bump_nodes env fee_rate network leaf_id refund nodes checked utxos acc
         else case create_tx_cpfp_psbt env (node_tx node) utxos fee_rate network of
                None \<Rightarrow> None
              | Some (Err e) \<Rightarrow> Some (Err e)
              | Some (Ok (psbt, utxos1)) \<Rightarrow>
                  (let acc1 = acc @ [\<lparr>parent_tx = node_tx node, child_psbt = psbt\<rparr>]
                   in if tn_id node = leaf_id
                      then case create_tx_cpfp_psbt env refund utxos1 fee_rate network of
                             None \<Rightarrow> None
                           | Some (Err e) \<Rightarrow> Some (Err e)
                           | Some (Ok (psbt2, utxos2)) \<Rightarrow>
                               bump_nodes env fee_rate network leaf_id refund nodes (txid # checked) utxos2
                                 (acc1 @ [\<lparr>parent_tx = refund, child_psbt = psbt2\<rparr>])
                      else bump_nodes env fee_rate network leaf_id refund nodes (txid # checked) utxos1 acc1))"

fun exit_leaves ::
  "exit_env \<Rightarrow> u64 \<Rightarrow> Network \<Rightarrow> (TreeNodeId, TreeNode) hmap \<Rightarrow> TreeNodeId list \<Rightarrow> txid list \<Rightarrow>
   CpfpUtxo list \<Rightarrow> LeafTxCpfpPsbts list \<Rightarrow> (ServiceError + LeafTxCpfpPsbts list) option" where
  "exit_leaves env fee_rate network tree_nodes [] checked utxos acc = Some (Ok acc)"
| "exit_leaves env fee_rate network tree_nodes (leaf_id # leaf_ids) checked utxos acc =
     (case hm_get tree_nodes leaf_id of
        None \<Rightarrow> Some (Err (ValidationError (''Leaf ID '' @ leaf_id @ '' not found in the tree'')))
      | Some node \<Rightarrow>
          (case refund_tx node of
             None \<Rightarrow> Some (Err (ValidationError (''Leaf ID '' @ leaf_id @ '' does not have a refund transaction'')))
           | Some refund \<Rightarrow>
               (case ancestors tree_nodes node [] of
                  None \<Rightarrow> None
                | Some (Err e) \<Rightarrow> Some (Err e)
                | Some (Ok nodes) \<Rightarrow>
                    (case bump_nodes env fee_rate network leaf_id refund nodes checked utxos [] of
                       None \<Rightarrow> None
                     | Some (Err e) \<Rightarrow> Some (Err e)
                     | Some (Ok (checked', utxos', psbts)) \<Rightarrow>
                         exit_leaves env fee_rate network tree_nodes leaf_ids checked' utxos'
                           (acc @ [\<lparr>ltp_leaf_id = leaf_id, tx_cpfp_psbts = psbts\<rparr>])))))"

text \<open>\<open>fetched\<close> is the result of \<open>fetch_leaves_parents\<close>: the nodes all pages of the query returned.\<close>

definition unilateral_exit ::
  "exit_env \<Rightarrow> Network \<Rightarrow> (ServiceError + TreeNode list) \<Rightarrow> u64 \<Rightarrow> TreeNodeId list \<Rightarrow> CpfpUtxo list \<Rightarrow>
   (ServiceError + LeafTxCpfpPsbts list) option" where
  "unilateral_exit env network fetched fee_rate leaf_ids utxos =
     (if leaf_ids = [] then Some (Err (ValidationError ''At least one leaf ID is required''))
      else if utxos = [] then Some (Err (ValidationError ''At least one UTXO is required''))
      else case fetched of
             Inl e \<Rightarrow> Some (Err e)
           | Inr ns \<Rightarrow>
               exit_leaves env fee_rate network (hm_insert_all tn_id (\<lambda>n. n) ns []) leaf_ids [] utxos [])"

text \<open>A list of nodes is a path to the root when its head has no parent and each next node names the
  node before it as its parent.\<close>

fun linked :: "TreeNode list \<Rightarrow> bool" where
  "linked [] = True"
| "linked [n] = True"
| "linked (p # n # ns) = (parent_node_id n = Some (tn_id p) \<and> linked (n # ns))"

definition root_path :: "TreeNode list \<Rightarrow> bool" where
  "root_path ns = (ns \<noteq> [] \<and> parent_node_id (hd ns) = None \<and> linked ns)"

definition keyed_by_id :: "(TreeNodeId, TreeNode) hmap \<Rightarrow> bool" where
  "keyed_by_id m = (\<forall>k n. hm_get m k = Some n \<longrightarrow> tn_id n = k)"

definition ranked :: "(TreeNodeId, TreeNode) hmap \<Rightarrow> (TreeNodeId \<Rightarrow> nat) \<Rightarrow> bool" where
  "ranked m rank = (\<forall>k n p. hm_get m k = Some n \<longrightarrow> parent_node_id n = Some p \<longrightarrow> rank p < rank k)"

section \<open>Lemmas\<close>

lemma ancestors_total:
  assumes "ranked m rank" and "keyed_by_id m"
  shows "hm_get m k = Some node \<Longrightarrow> \<exists>r. ancestors m node acc = Some r"
proof (induction "rank k" arbitrary: k node acc rule: less_induct)
  case less
  show ?case
  proof (cases "parent_node_id node")
    case None
    then show ?thesis by (simp add: ancestors.simps)
  next
    case (Some pid)
    show ?thesis
    proof (cases "hm_get m pid")
      case None
      with Some show ?thesis by (simp add: ancestors.simps)
    next
      case (Some parent)
      have "rank pid < rank k"
        using assms(1) less.prems \<open>parent_node_id node = Some pid\<close> by (auto simp: ranked_def)
      from less.hyps [OF this Some] \<open>parent_node_id node = Some pid\<close> Some show ?thesis
        by (subst ancestors.simps) simp
    qed
  qed
qed

lemma ancestors_path:
  assumes ret: "ancestors m node acc = Some (Ok ns)" and key: "keyed_by_id m"
  shows "linked (node # acc) \<Longrightarrow> root_path ns \<and> suffix (node # acc) ns"
proof -
  have "m = m \<longrightarrow> linked (node # acc) \<longrightarrow>
      (\<forall>ns'. (Ok ns :: ServiceError + TreeNode list) = Ok ns' \<longrightarrow> root_path ns' \<and> suffix (node # acc) ns')"
  proof (rule ancestors.raw_induct [where P = "\<lambda>m' node acc r. m' = m \<longrightarrow> linked (node # acc) \<longrightarrow>
        (\<forall>ns. r = Ok ns \<longrightarrow> root_path ns \<and> suffix (node # acc) ns)", OF _ ret])
    fix f m' node acc r
    assume IH: "\<And>m' node acc r. f m' node acc = Some r \<Longrightarrow> m' = m \<longrightarrow> linked (node # acc) \<longrightarrow>
        (\<forall>ns. r = Ok ns \<longrightarrow> root_path ns \<and> suffix (node # acc) ns)"
      and eq: "(case parent_node_id node of
        None \<Rightarrow> Some (Ok (node # acc))
      | Some pid \<Rightarrow>
          (case hm_get m' pid of
             None \<Rightarrow> Some (Err (ValidationError (''Parent ID '' @ pid @ '' not found in the tree'')))
           | Some parent \<Rightarrow> f m' parent (node # acc))) = Some r"
    show "m' = m \<longrightarrow> linked (node # acc) \<longrightarrow>
        (\<forall>ns. r = Ok ns \<longrightarrow> root_path ns \<and> suffix (node # acc) ns)"
    proof (intro impI allI)
      fix ns assume m': "m' = m" and l: "linked (node # acc)" and r: "r = Ok ns"
      show "root_path ns \<and> suffix (node # acc) ns"
      proof (cases "parent_node_id node")
        case None
        with eq r l show ?thesis by (auto simp: root_path_def)
      next
        case (Some pid)
        with eq r obtain parent where p: "hm_get m pid = Some parent"
          and f: "f m parent (node # acc) = Some (Ok ns)"
          by (auto simp: m' split: option.splits)
        have "tn_id parent = pid" using key p by (auto simp: keyed_by_id_def)
        with l Some have "linked (parent # node # acc)" by simp
        with IH [OF f] have "root_path ns" and "suffix (parent # node # acc) ns" by auto
        then show ?thesis by (auto dest: suffix_ConsD)
      qed
    qed
  qed
  then show "linked (node # acc) \<Longrightarrow> root_path ns \<and> suffix (node # acc) ns"
    by simp
qed

lemma find_anchor_Some: "find_anchor i ts = Some (j, t) \<Longrightarrow> i \<le> j \<and> j < i + length ts \<and> ts ! (j - i) = t \<and> is_ephemeral_anchor_output t"
  by (induction i ts rule: find_anchor.induct) (auto split: if_splits simp: nth_Cons' dest!: Suc_leD)

lemma keyed_by_id_insert_all: "keyed_by_id (hm_insert_all tn_id (\<lambda>n. n) ns [])"
  unfolding keyed_by_id_def
proof (intro allI impI)
  fix k n
  assume get: "hm_get (hm_insert_all tn_id (\<lambda>n. n) ns []) k = Some n"
  then have "k \<in> tn_id ` set ns"
    using hm_get_insert_all_notin [of k tn_id ns "\<lambda>n. n" "[]"] by force
  from hm_get_insert_all_in [OF this, of "\<lambda>n. n" "[]"] get show "tn_id n = k" by auto
qed

lemma ancestors_missing_parent:
  assumes ret: "ancestors m node acc = Some (Err e)"
  shows "\<exists>pid. hm_get m pid = None \<and> e = ValidationError (''Parent ID '' @ pid @ '' not found in the tree'')"
proof -
  have "\<forall>e'. (Err e :: ServiceError + TreeNode list) = Err e' \<longrightarrow>
      (\<exists>pid. hm_get m pid = None \<and> e' = ValidationError (''Parent ID '' @ pid @ '' not found in the tree''))"
    by (rule ancestors.raw_induct [where P = "\<lambda>m node acc r. \<forall>e'. r = Err e' \<longrightarrow>
        (\<exists>pid. hm_get m pid = None \<and> e' = ValidationError (''Parent ID '' @ pid @ '' not found in the tree''))", OF _ ret])
      (auto split: option.splits)
  then show ?thesis by simp
qed

section \<open>Properties\<close>

text \<open>The walk from a leaf to its root always ends when the parent links of the fetched nodes have
  no cycle (some rank decreases along them): it either returns the path that starts at a node without
  parent, follows parent links downwards and ends at the leaf, or it names a parent that was not
  fetched.\<close>

theorem ancestors_root_path:
  assumes "ranked m rank" and "m = hm_insert_all tn_id (\<lambda>n. n) fetched []" and "hm_get m leaf_id = Some leaf"
  shows "case ancestors m leaf [] of
      None \<Rightarrow> False
    | Some (Ok ns) \<Rightarrow> root_path ns \<and> last ns = leaf
    | Some (Err e) \<Rightarrow>
        (\<exists>pid. pid \<notin> ids_of fetched
           \<and> e = ValidationError (''Parent ID '' @ pid @ '' not found in the tree''))"
proof -
  have key: "keyed_by_id m" using assms(2) by (simp add: keyed_by_id_insert_all)
  obtain r where r: "ancestors m leaf [] = Some r"
    using ancestors_total [OF assms(1) key assms(3)] by blast
  show ?thesis
  proof (cases r)
    case (Inl e)
    have "\<And>pid. hm_get m pid = None \<Longrightarrow> pid \<notin> ids_of fetched"
      using assms(2) by (simp add: hm_get_None_iff)
    then show ?thesis using ancestors_missing_parent [of m leaf "[]" e] r Inl by fastforce
  next
    case (Inr ns)
    with r have "root_path ns \<and> suffix [leaf] ns" using ancestors_path [OF _ key, of leaf "[]" ns] by simp
    then have "root_path ns \<and> last ns = leaf" by (auto simp: suffix_def)
    with r Inr show ?thesis by simp
  qed
qed

text \<open>A small tree for the witness: a root and one leaf below it.\<close>

definition sample_tx :: Transaction where
  "sample_tx = create_spark_tx \<lparr>op_txid = ''a'', op_vout = 0\<rparr> 0 5000 ''s'' False True"

definition sample_node :: "string \<Rightarrow> string option \<Rightarrow> TreeNode" where
  "sample_node i p =
     \<lparr>tn_id = i, tree_id = ''t'', tn_value = 5000, parent_node_id = p, node_tx = sample_tx,
      refund_tx = Some sample_tx, direct_tx = None, direct_refund_tx = None,
      direct_from_cpfp_refund_tx = None, tn_vout = 0, verifying_public_key = ''v'',
      owner_identity_public_key = None,
      signing_keyshare = \<lparr>owner_identifiers = [], threshold = 2, ks_public_key = ''k''\<rparr>,
      tn_status = Available\<rparr>"

theorem ancestors_root_path_witness:
  "let m = hm_insert_all tn_id (\<lambda>n. n) [sample_node ''root'' None, sample_node ''leaf'' (Some ''root'')] []
   in case ancestors m (sample_node ''leaf'' (Some ''root'')) [] of
      None \<Rightarrow> False
    | Some (Ok ns) \<Rightarrow> root_path ns \<and> last ns = sample_node ''leaf'' (Some ''root'')
    | Some (Err e) \<Rightarrow>
        (\<exists>pid. pid \<notin> ids_of [sample_node ''root'' None, sample_node ''leaf'' (Some ''root'')]
           \<and> e = ValidationError (''Parent ID '' @ pid @ '' not found in the tree''))"
proof -
  let ?f = "[sample_node ''root'' None, sample_node ''leaf'' (Some ''root'')]"
  let ?m = "hm_insert_all tn_id (\<lambda>n. n) ?f []"
  have get: "hm_get ?m k = (if k = ''leaf'' then Some (sample_node ''leaf'' (Some ''root''))
      else if k = ''root'' then Some (sample_node ''root'' None) else None)" for k
    by (simp add: hm_insert_all_def sample_node_def)
  have r: "ranked ?m (\<lambda>k. if k = ''leaf'' then 1 else 0)"
    unfolding ranked_def get by (auto simp: sample_node_def split: if_splits)
  have l: "hm_get ?m ''leaf'' = Some (sample_node ''leaf'' (Some ''root''))" by (simp add: get)
  show ?thesis unfolding Let_def by (rule ancestors_root_path [OF r refl l])
qed

text \<open>The fee-bumping child accounts for every satoshi: when the inputs do not overflow, a successful
  build spends all given outputs and the parent's anchor, which has value zero, in one transaction with one
  output; inputs minus output is exactly the fee rate times 68 virtual bytes per input plus 82, and the
  remaining money, never zero, is the only output left for the next child.\<close>

theorem cpfp_child_accounting:
  assumes "create_tx_cpfp_psbt env tx utxos fee_rate network = Some (Ok (psbt, utxos'))"
    and "\<And>t p. from_unsigned_tx env t = Ok p \<Longrightarrow> unsigned_tx p = t"
    and "sum_list (map cu_value utxos) < 2 ^ 64" and "fee_rate * tx_size_vbytes (length utxos) < 2 ^ 64"
  shows "\<exists>vout change. utxos' = [change]
    \<and> cu_txid change = compute_txid env (unsigned_tx psbt)
    \<and> 0 < cu_value change
    \<and> sum_list (map cu_value utxos) = cu_value change + fee_rate * (68 * length utxos + 82)
    \<and> output_total (unsigned_tx psbt) = cu_value change
    \<and> spends (unsigned_tx psbt) =
        map (\<lambda>u. \<lparr>op_txid = cu_txid u, op_vout = cu_vout u\<rparr>) utxos @ [\<lparr>op_txid = compute_txid env tx, op_vout = vout\<rparr>]
    \<and> vout < length (tx_output tx) \<and> is_ephemeral_anchor_output (tx_output tx ! vout)"
proof -
  from assms(1) obtain vout anchor where a: "find_anchor 0 (tx_output tx) = Some (vout, anchor)"
    by (auto simp: create_tx_cpfp_psbt_def split: option.splits)
  from assms(1) obtain u us where u: "utxos = u # us"
    by (auto simp: create_tx_cpfp_psbt_def a split: list.splits)
  let ?fee = "fee_rate * tx_size_vbytes (length utxos)"
  let ?change = "sum_list (map cu_value utxos) - ?fee"
  let ?bump = "fee_bump_tx env tx vout utxos ?change (p2wpkh_script env (cu_pubkey u) network)"
  have wsum: "wsum 64 (map cu_value utxos) = sum_list (map cu_value utxos)" using assms(3) by simp
  from assms(1) have pos: "?change \<noteq> 0"
    using assms(4) wsum by (auto simp: create_tx_cpfp_psbt_def a u Let_def split: if_splits)
  with assms(1,4) wsum obtain p where p: "from_unsigned_tx env ?bump = Ok p"
    by (auto simp: create_tx_cpfp_psbt_def a u Let_def split: if_splits sum.splits)
  have psbt: "unsigned_tx psbt = ?bump"
      "utxos' = [\<lparr>cu_txid = compute_txid env ?bump, cu_vout = 0, cu_value = ?change, cu_pubkey = cu_pubkey u\<rparr>]"
    using assms(1,4) wsum pos p assms(2) [OF p]
    by (auto simp: create_tx_cpfp_psbt_def a u Let_def split: if_splits)
  have "vout < length (tx_output tx) \<and> is_ephemeral_anchor_output (tx_output tx ! vout)"
    using find_anchor_Some [OF a] by auto
  moreover have "sum_list (map cu_value utxos) = ?change + fee_rate * (68 * length utxos + 82)"
    using pos by (simp add: tx_size_vbytes_def mult.commute add.commute)
  ultimately show ?thesis
    using pos by (auto simp: psbt fee_bump_tx_def output_total_def spends_def default_txin_def)
qed

definition sample_env :: exit_env where
  "sample_env = \<lparr>compute_txid = (\<lambda>_. ''t''), p2wpkh_script = (\<lambda>_ _. ''w''),
     from_unsigned_tx = (\<lambda>t. Ok \<lparr>unsigned_tx = t, psbt_inputs = map (\<lambda>_. None) (tx_input t),
                                 psbt_outputs = length (tx_output t)\<rparr>)\<rparr>"

theorem cpfp_child_accounting_witness:
  "\<exists>psbt utxos'. create_tx_cpfp_psbt sample_env sample_tx
       [\<lparr>cu_txid = ''u'', cu_vout = 1, cu_value = 1000, cu_pubkey = ''p''\<rparr>] 2 Regtest = Some (Ok (psbt, utxos'))
     \<and> output_total (unsigned_tx psbt) = 700"
proof -
  let ?us = "[\<lparr>cu_txid = ''u'', cu_vout = 1, cu_value = 1000, cu_pubkey = ''p''\<rparr>]"
  obtain psbt utxos' where
    p: "create_tx_cpfp_psbt sample_env sample_tx ?us 2 Regtest = Some (Ok (psbt, utxos'))"
    by (simp add: create_tx_cpfp_psbt_def sample_env_def sample_tx_def create_spark_tx_outputs
        is_ephemeral_anchor_output_def ephemeral_anchor_output_def tx_size_vbytes_def fee_bump_tx_def Let_def)
  have "\<And>t q. from_unsigned_tx sample_env t = Ok q \<Longrightarrow> unsigned_tx q = t"
    by (auto simp: sample_env_def)
  from cpfp_child_accounting [OF p this] p show ?thesis
    by (auto simp: tx_size_vbytes_def)
qed

end
