(* ===== verification/Leaf_Selection.thy ===== *)
theory Leaf_Selection
  imports Tree_Model
begin

text \<open>
  Choosing leaves for an amount: \<open>crates/spark/src/tree/select_helper.rs\<close>.

  The stable descending \<open>sort_by\<close> is \<open>sort_key\<close> on the negated value. The theorems give, for each
  selector, what it returns on success (sub-multiset of the leaves, exact or sufficient sum, amount and fee
  leaves disjoint) and when it succeeds: the greedy search is complete for power-of-two leaves, and the
  denomination search succeeds exactly when the denominations are available.
\<close>

unbundle bit_operations_syntax

definition find_exact_single_match :: "TreeNode list \<Rightarrow> u64 \<Rightarrow> TreeNode option" where
  "find_exact_single_match leaves target_amount_sat =
     find (\<lambda>leaf. tn_value leaf = target_amount_sat) leaves"

definition is_power_of_two :: "u64 \<Rightarrow> bool" where
  "is_power_of_two v = (v > 0 \<and> (v AND (v - 1)) = 0)"

fun greedy_loop :: "TreeNode list \<Rightarrow> u64 \<Rightarrow> TreeNode list \<Rightarrow> TreeNode list option" where
  "greedy_loop [] remaining result = None"
| "greedy_loop (leaf # leaves) remaining result =
     (if remaining < tn_value leaf then greedy_loop leaves remaining result
      else let remaining' = remaining - tn_value leaf; result' = result @ [leaf]
           in if remaining' = 0 then Some result' else greedy_loop leaves remaining' result')"

definition greedy_exact_match :: "TreeNode list \<Rightarrow> u64 \<Rightarrow> TreeNode list option" where
  "greedy_exact_match leaves target_amount_sat =
     (let sorted_leaves = sort_key (\<lambda>l. - int (tn_value l)) leaves
      in greedy_loop sorted_leaves target_amount_sat [])"

definition find_exact_multiple_match :: "TreeNode list \<Rightarrow> u64 \<Rightarrow> TreeNode list option" where
  "find_exact_multiple_match leaves target_amount_sat =
     (if target_amount_sat = 0 then Some []
      else if leaves = [] then None
      else case greedy_exact_match leaves target_amount_sat of
             Some result \<Rightarrow> Some result
           | None \<Rightarrow>
               (let power_of_two_leaves = filter (\<lambda>l. is_power_of_two (tn_value l)) leaves
                in if length power_of_two_leaves = length leaves then None
                   else greedy_exact_match power_of_two_leaves target_amount_sat))"

definition select_leaves_by_exact_amount ::
  "TreeNode list \<Rightarrow> u64 \<Rightarrow> TreeServiceError + TreeNode list option" where
  "select_leaves_by_exact_amount leaves target_amount_sat =
     (if target_amount_sat = 0 then Err InvalidAmount
      else if leaves_sum leaves < target_amount_sat then Err InsufficientFunds
      else case find_exact_single_match leaves target_amount_sat of
             Some leaf \<Rightarrow> Ok (Some [leaf])
           | None \<Rightarrow>
               (case find_exact_multiple_match leaves target_amount_sat of
                  Some selected_leaves \<Rightarrow> Ok (Some selected_leaves)
                | None \<Rightarrow> Ok None))"

fun denominations_loop ::
  "TreeNode list \<Rightarrow> TreeNode list \<Rightarrow> u64 list \<Rightarrow> TreeServiceError + TreeNode list" where
  "denominations_loop remaining_leaves selected_leaves [] = Ok selected_leaves"
| "denominations_loop remaining_leaves selected_leaves (denomination # ds) =
     rbind (ok_or (find_exact_single_match remaining_leaves denomination) UnselectableAmount)
       (\<lambda>leaf. denominations_loop (filter (\<lambda>r. tn_id r \<noteq> tn_id leaf) remaining_leaves)
                 (selected_leaves @ [leaf]) ds)"

definition select_leaves_by_exact_denominations ::
  "TreeNode list \<Rightarrow> u64 list \<Rightarrow> TreeServiceError + TreeNode list" where
  "select_leaves_by_exact_denominations leaves denominations = denominations_loop leaves [] denominations"

fun minimum_loop :: "TreeNode list \<Rightarrow> u64 \<Rightarrow> u64 \<Rightarrow> TreeNode list \<Rightarrow> u64 \<times> TreeNode list" where
  "minimum_loop [] target sum_so_far result = (sum_so_far, result)"
| "minimum_loop (leaf # leaves) target sum_so_far result =
     (let sum' = wadd 64 sum_so_far (tn_value leaf); result' = result @ [leaf]
      in if target \<le> sum' then (sum', result') else minimum_loop leaves target sum' result')"

definition select_leaves_by_minimum_amount ::
  "TreeNode list \<Rightarrow> u64 \<Rightarrow> TreeServiceError + TreeNode list option" where
  "select_leaves_by_minimum_amount leaves target_amount_sat =
     (if target_amount_sat = 0 then Err InvalidAmount
      else if leaves_sum leaves < target_amount_sat then Err InsufficientFunds
      else case minimum_loop leaves target_amount_sat 0 [] of (sum_so_far, result) \<Rightarrow>
             if sum_so_far < target_amount_sat then Ok None else Ok (Some result))"

definition select_leaves_by_target_amounts ::
  "TreeNode list \<Rightarrow> TargetAmounts option \<Rightarrow> TreeServiceError + TargetLeaves" where
  "select_leaves_by_target_amounts leaves target_amounts =
     (case target_amounts of
        None \<Rightarrow> Ok (new_target_leaves leaves None)
      | Some (AmountAndFee amount_sats fee_sats) \<Rightarrow>
          rbind (select_leaves_by_exact_amount leaves amount_sats) (\<lambda>r.
          rbind (ok_or r UnselectableAmount) (\<lambda>amount_leaves.
            (case fee_sats of
               None \<Rightarrow> Ok (new_target_leaves amount_leaves None)
             | Some fee \<Rightarrow>
                 (let remaining_leaves =
                        filter (\<lambda>leaf. \<not> (\<exists>a \<in> set amount_leaves. tn_id a = tn_id leaf)) leaves
                  in rbind (select_leaves_by_exact_amount remaining_leaves fee) (\<lambda>r'.
                     rbind (ok_or r' UnselectableAmount) (\<lambda>fee_leaves.
                       Ok (new_target_leaves amount_leaves (Some fee_leaves))))))))
      | Some (ExactDenominations denominations) \<Rightarrow>
          rbind (select_leaves_by_exact_denominations leaves denominations) (\<lambda>denominations_leaves.
            Ok (new_target_leaves denominations_leaves None)))"

text \<open>All leaves of a selection, the way the callers concatenate them.\<close>

definition selected_leaves :: "TargetLeaves \<Rightarrow> TreeNode list" where
  "selected_leaves t = amount_leaves t @ unwrap_or (fee_leaves t) []"

section \<open>Powers of two\<close>

lemma and_pred_even: "(2 * Suc m AND (2 * Suc m - 1)) = 2 * (Suc m AND m)" for m :: nat
  by (subst and_rec) simp

lemma is_power_of_two_imp: "is_power_of_two v \<Longrightarrow> \<exists>k. v = 2 ^ k"
proof (induction v rule: less_induct)
  case (less v)
  then have v: "0 < v" "v AND (v - 1) = 0" by (simp_all add: is_power_of_two_def)
  show ?case
  proof (cases "even v")
    case True
    then obtain m where "v = 2 * m" by blast
    with v obtain m' where m: "v = 2 * Suc m'" by (cases m) auto
    with v have "is_power_of_two (Suc m')" using and_pred_even [of m'] by (simp add: is_power_of_two_def)
    with less.IH [of "Suc m'"] m obtain k where "Suc m' = 2 ^ k" by auto
    with m have "v = 2 ^ Suc k" by simp
    then show ?thesis by blast
  next
    case False
    then obtain m where m: "v = 2 * m + 1" by (elim oddE)
    with v(2) have "m = 0" by (subst (asm) and_rec) simp
    with m show ?thesis by (intro exI [of _ 0]) simp
  qed
qed

section \<open>The greedy search\<close>

lemma greedy_loop_sound:
  "greedy_loop ls r acc = Some res \<Longrightarrow>
     \<exists>ys. res = acc @ ys \<and> subseq ys ls \<and> sum_list (values_of ys) = r"
proof (induction ls r acc rule: greedy_loop.induct)
  case (1 r acc)
  then show ?case by simp
next
  case (2 l ls r acc)
  show ?case
  proof (cases "r < tn_value l")
    case True
    with 2 show ?thesis by (auto intro: list_emb_Cons)
  next
    case False
    show ?thesis
    proof (cases "r - tn_value l = 0")
      case True
      with False 2(3) have "res = acc @ [l]" "tn_value l = r" by (auto simp: Let_def)
      then show ?thesis by (intro exI [of _ "[l]"]) simp
    next
      case ne: False
      with False 2 obtain ys where "res = (acc @ [l]) @ ys" "subseq ys ls"
        "sum_list (values_of ys) = r - tn_value l" by (auto simp: Let_def)
      with False show ?thesis by (intro exI [of _ "l # ys"]) auto
    qed
  qed
qed

lemma dvd_chain_prefix:
  assumes "sorted_wrt (\<lambda>a b. b dvd a) vs" and "\<forall>x \<in> set vs. x dvd v" and "v \<le> sum_list vs"
  shows "\<exists>k. sum_list (take k vs) = (v :: nat)"
  using assms
proof (induction vs arbitrary: v)
  case Nil
  then show ?case by simp
next
  case (Cons x vs)
  show ?case
  proof (cases "v = 0")
    case True
    then show ?thesis by (intro exI [of _ 0]) simp
  next
    case False
    from Cons.prems False have le: "x \<le> v" by (auto intro: dvd_imp_le)
    from Cons.prems have "\<forall>y \<in> set vs. y dvd v - x" by (auto intro: dvd_diff_nat)
    moreover from Cons.prems le have "v - x \<le> sum_list vs" by simp
    ultimately obtain k where "sum_list (take k vs) = v - x" using Cons by force
    with le show ?thesis by (intro exI [of _ "Suc k"]) simp
  qed
qed

lemma greedy_loop_complete:
  assumes "sorted_wrt (\<lambda>a b. tn_value b dvd tn_value a) ls" and "subseq ys ls"
    and "sum_list (values_of ys) = r" and "0 < r"
  shows "\<exists>res. greedy_loop ls r acc = Some res"
  using assms
proof (induction ls arbitrary: r ys acc)
  case Nil
  then show ?case by (cases ys) auto
next
  case (Cons l ls)
  from Cons.prems(1) have srt: "sorted_wrt (\<lambda>a b. tn_value b dvd tn_value a) ls"
    and dv: "\<forall>x \<in> set ls. tn_value x dvd tn_value l" by simp_all
  consider (skip) "subseq ys ls" | (take) ys' where "ys = l # ys'" "subseq ys' ls"
    using subseq_Cons_right [OF Cons.prems(2)] by blast
  then have *: "\<exists>zs. subseq zs ls \<and> sum_list (values_of zs) = r - tn_value l"
    if le: "tn_value l \<le> r"
  proof cases
    case skip
    have "sorted_wrt (\<lambda>a b. b dvd a) (values_of ys)"
      using subseq_sorted_wrt [OF skip srt] by (simp add: sorted_wrt_map)
    moreover have "\<forall>x \<in> set (values_of ys). x dvd tn_value l"
      using subseq_set [OF skip] dv by auto
    ultimately obtain k where k: "sum_list (take k (values_of ys)) = tn_value l"
      using dvd_chain_prefix [of "values_of ys" "tn_value l"] Cons.prems(3) le by blast
    have "sum_list (values_of ys) = sum_list (take k (values_of ys)) + sum_list (values_of (drop k ys))"
      by (metis append_take_drop_id drop_map sum_list_append)
    with k Cons.prems(3) have "sum_list (values_of (drop k ys)) = r - tn_value l" by simp
    moreover have "subseq (drop k ys) ls"
      using skip by (meson subseq_order.trans suffix_drop suffix_imp_subseq)
    ultimately show ?thesis by blast
  next
    case take
    with Cons.prems(3) show ?thesis by auto
  qed
  show ?case
  proof (cases "tn_value l \<le> r")
    case True
    with * Cons.IH [OF srt] show ?thesis by (cases "r = tn_value l") (auto simp: Let_def)
  next
    case False
    with subseq_Cons_right [OF Cons.prems(2)] Cons.prems(3) have "subseq ys ls" by auto
    with Cons.IH [OF srt] Cons.prems False show ?thesis by auto
  qed
qed

lemma greedy_exact_match_sound:
  "greedy_exact_match leaves t = Some res \<Longrightarrow> mset res \<subseteq># mset leaves \<and> sum_list (values_of res) = t"
  using greedy_loop_sound subseq_submset unfolding greedy_exact_match_def Let_def
  by (metis append_Nil mset_sort)

lemma power_of_two_sorted_dvd:
  assumes "\<forall>l \<in> set ls. is_power_of_two (tn_value l)"
  shows "sorted_wrt (\<lambda>a b. tn_value b dvd tn_value a) (sort_key (\<lambda>l. - int (tn_value l)) ls)"
proof -
  have "tn_value b dvd tn_value a"
    if "a \<in> set ls" "b \<in> set ls" "- int (tn_value a) \<le> - int (tn_value b)" for a b
  proof -
    from that assms obtain i j where "tn_value a = 2 ^ i" "tn_value b = 2 ^ j"
      using is_power_of_two_imp by meson
    with that(3) show ?thesis by (simp add: le_imp_power_dvd)
  qed
  moreover have "sorted_wrt (\<lambda>a b. - int (tn_value a) \<le> - int (tn_value b))
      (sort_key (\<lambda>l. - int (tn_value l)) ls)"
    using sorted_sort_key [of "\<lambda>l. - int (tn_value l)" ls] by (simp add: sorted_map)
  ultimately show ?thesis by (rule_tac sorted_wrt_mono_rel) auto
qed

lemma greedy_exact_match_complete:
  assumes "\<forall>l \<in> set leaves. is_power_of_two (tn_value l)" and "mset ys \<subseteq># mset leaves"
    and "0 < sum_list (values_of ys)"
  shows "\<exists>res. greedy_exact_match leaves (sum_list (values_of ys)) = Some res"
proof -
  from assms(2) obtain zs where zs: "subseq zs (sort_key (\<lambda>l. - int (tn_value l)) leaves)"
    "mset zs = mset ys" using submset_subseq [of "mset ys"] by (metis mset_sort)
  from greedy_loop_complete [OF power_of_two_sorted_dvd [OF assms(1)] zs(1) refl] zs(2) assms(3)
  show ?thesis by (simp add: greedy_exact_match_def sum_list_mset_cong [OF zs(2)])
qed

lemma find_exact_multiple_match_sound:
  assumes "find_exact_multiple_match leaves t = Some res"
  shows "mset res \<subseteq># mset leaves \<and> sum_list (values_of res) = t"
proof (cases "greedy_exact_match leaves t")
  case None
  with assms have "mset res \<subseteq># filter_mset (\<lambda>l. is_power_of_two (tn_value l)) (mset leaves)
      \<and> sum_list (values_of res) = t"
    using greedy_exact_match_sound [of "filter (\<lambda>l. is_power_of_two (tn_value l)) leaves" t res]
    by (auto simp: find_exact_multiple_match_def Let_def split: if_splits)
  then show ?thesis using multiset_filter_subset subset_mset.order_trans by blast
next
  case (Some res')
  with assms greedy_exact_match_sound show ?thesis
    by (auto simp: find_exact_multiple_match_def split: if_splits)
qed

lemma find_exact_multiple_match_complete:
  assumes "mset ys \<subseteq># mset leaves" and "\<forall>y \<in> set ys. is_power_of_two (tn_value y)"
  shows "\<exists>res. find_exact_multiple_match leaves (sum_list (values_of ys)) = Some res"
proof (cases "sum_list (values_of ys) = 0 \<or> greedy_exact_match leaves (sum_list (values_of ys)) \<noteq> None")
  case True
  with assms(1) show ?thesis by (auto simp: find_exact_multiple_match_def)
next
  case False
  let ?p = "filter (\<lambda>l. is_power_of_two (tn_value l)) leaves"
  have "mset ys \<subseteq># mset ?p"
    using multiset_filter_mono [OF assms(1), of "\<lambda>l. is_power_of_two (tn_value l)"] assms(2)
    by (simp add: filter_mset_eq_conv flip: mset_filter)
  moreover have "0 < sum_list (values_of ys)" using False gr0I by blast
  ultimately obtain res where res: "greedy_exact_match ?p (sum_list (values_of ys)) = Some res"
    using greedy_exact_match_complete [of ?p ys] by auto
  moreover have "length ?p \<noteq> length leaves"
  proof
    assume "length ?p = length leaves"
    then have "?p = leaves" by (metis filter_id_conv length_filter_less less_irrefl)
    with res False show False by simp
  qed
  ultimately show ?thesis using assms(1) False by (auto simp: find_exact_multiple_match_def Let_def)
qed

section \<open>The other selectors\<close>

lemma find_exact_single_match_Some:
  "find_exact_single_match leaves v = Some l \<Longrightarrow> l \<in> set leaves \<and> tn_value l = v"
  by (auto simp: find_exact_single_match_def find_Some_iff)

lemma find_exact_single_match_None:
  "find_exact_single_match leaves v = None \<longleftrightarrow> v \<notin> set (values_of leaves)"
  by (auto simp: find_exact_single_match_def find_None_iff)

lemma exact_amount_sound:
  assumes "select_leaves_by_exact_amount leaves t = Ok (Some sel)"
  shows "mset sel \<subseteq># mset leaves \<and> sum_list (values_of sel) = t"
  using assms find_exact_multiple_match_sound [of leaves t sel]
  by (auto simp: select_leaves_by_exact_amount_def split: if_splits option.splits
      dest: find_exact_single_match_Some)

lemma remove_by_id:
  assumes "distinct (map tn_id ls)" and "l \<in> set ls"
  shows "add_mset l (mset (filter (\<lambda>r. tn_id r \<noteq> tn_id l) ls)) = mset ls"
  using assms
proof (induction ls)
  case Nil
  then show ?case by simp
next
  case (Cons a ls)
  show ?case
  proof (cases "a = l")
    case True
    with Cons.prems(1) have "filter (\<lambda>r. tn_id r \<noteq> tn_id l) ls = ls"
      by (intro filter_True) (auto simp: image_iff)
    with True show ?thesis by simp
  next
    case False
    with Cons show ?thesis by force
  qed
qed

lemma denominations_loop_ok:
  assumes "distinct (map tn_id ls)"
  shows "(\<exists>sel. denominations_loop ls acc ds = Ok sel) \<longleftrightarrow> mset ds \<subseteq># mset (values_of ls)"
  using assms
proof (induction ds arbitrary: ls acc)
  case Nil
  then show ?case by simp
next
  case (Cons d ds)
  show ?case
  proof (cases "find_exact_single_match ls d")
    case None
    then have "\<not> mset (d # ds) \<subseteq># mset (values_of ls)"
      by (auto simp: find_exact_single_match_None dest!: mset_subset_eq_insertD)
    with None show ?thesis by (simp add: ok_or_def)
  next
    case (Some l)
    let ?ls = "filter (\<lambda>r. tn_id r \<noteq> tn_id l) ls"
    from Some have l: "l \<in> set ls" "tn_value l = d" by (auto dest: find_exact_single_match_Some)
    have "mset (values_of ls) = add_mset d (mset (values_of ?ls))"
      using arg_cong [OF remove_by_id [OF Cons.prems l(1)], of "image_mset tn_value"] l(2) by simp
    with Some Cons.IH [of ?ls "acc @ [l]"] Cons.prems show ?thesis
      by (simp add: distinct_map_filter ok_or_def)
  qed
qed

lemma denominations_loop_sound:
  assumes "distinct (map tn_id ls)" and "denominations_loop ls acc ds = Ok sel"
  shows "\<exists>ys. sel = acc @ ys \<and> mset ys \<subseteq># mset ls \<and> values_of ys = ds"
  using assms
proof (induction ds arbitrary: ls acc)
  case Nil
  then show ?case by simp
next
  case (Cons d ds)
  from Cons.prems obtain l where l: "find_exact_single_match ls d = Some l"
    "denominations_loop (filter (\<lambda>r. tn_id r \<noteq> tn_id l) ls) (acc @ [l]) ds = Ok sel" by auto
  from Cons.IH [OF distinct_map_filter [OF Cons.prems(1)] l(2)]
  obtain ys where ys: "sel = (acc @ [l]) @ ys"
    "mset ys \<subseteq># mset (filter (\<lambda>r. tn_id r \<noteq> tn_id l) ls)" "values_of ys = ds"
    by blast
  from find_exact_single_match_Some [OF l(1)] have "l \<in> set ls" "tn_value l = d" by auto
  with remove_by_id [OF Cons.prems(1)] have "mset (l # ys) \<subseteq># mset ls"
    using ys(2) by (metis mset.simps(2) mset_subset_eq_add_mset_cancel)
  with ys \<open>tn_value l = d\<close> show ?case by (intro exI [of _ "l # ys"]) simp
qed

lemma minimum_loop_prefix:
  assumes "s + sum_list (values_of ls) < 2 ^ 64" and "s < t" and "t \<le> s + sum_list (values_of ls)"
  shows "\<exists>k < length ls. minimum_loop ls t s acc =
           (s + sum_list (values_of (take (Suc k) ls)), acc @ take (Suc k) ls)
         \<and> t \<le> s + sum_list (values_of (take (Suc k) ls)) \<and> s + sum_list (values_of (take k ls)) < t"
  using assms
proof (induction ls t s acc rule: minimum_loop.induct)
  case (1 t s acc)
  then show ?case by simp
next
  case (2 l ls t s acc)
  have w: "wadd 64 s (tn_value l) = s + tn_value l" using 2(2) by simp
  show ?case
  proof (cases "t \<le> s + tn_value l")
    case True
    with 2 w show ?thesis by (intro exI [of _ 0]) simp
  next
    case False
    with 2 w obtain k where "k < length ls" "minimum_loop ls t (s + tn_value l) (acc @ [l]) =
           (s + tn_value l + sum_list (values_of (take (Suc k) ls)), (acc @ [l]) @ take (Suc k) ls)"
      "t \<le> s + tn_value l + sum_list (values_of (take (Suc k) ls))"
      "s + tn_value l + sum_list (values_of (take k ls)) < t" by auto
    with False w show ?thesis by (intro exI [of _ "Suc k"]) (simp add: add.assoc)
  qed
qed

lemma exact_amount_cases:
  assumes "select_leaves_by_target_amounts leaves (Some (AmountAndFee a f)) = Ok t"
  shows "select_leaves_by_exact_amount leaves a = Ok (Some (amount_leaves t))"
    and "f = Some v \<Longrightarrow> \<exists>fl. fee_leaves t = Some fl \<and> select_leaves_by_exact_amount
           (filter (\<lambda>leaf. \<not> (\<exists>a \<in> set (amount_leaves t). tn_id a = tn_id leaf)) leaves) v = Ok (Some fl)"
    and "f = None \<Longrightarrow> fee_leaves t = None"
  using assms by (auto simp: select_leaves_by_target_amounts_def new_target_leaves_def Let_def
      split: option.splits)

lemma disjoint_submset:
  assumes "mset xs \<subseteq># mset ls"
    and "mset ys \<subseteq># mset (filter (\<lambda>l. \<not> (\<exists>a \<in> set xs. tn_id a = tn_id l)) ls)"
  shows "mset (xs @ ys) \<subseteq># mset ls" and "ids_of xs \<inter> ids_of ys = {}"
proof -
  let ?P = "\<lambda>l. \<exists>a \<in> set xs. tn_id a = tn_id l"
  have "filter ?P xs = xs" by (auto simp: filter_id_conv)
  then have "mset xs \<subseteq># filter_mset ?P (mset ls)"
    using multiset_filter_mono [OF assms(1), of ?P] by (simp flip: mset_filter)
  with assms(2) have "mset xs + mset ys \<subseteq># filter_mset ?P (mset ls) + filter_mset (\<lambda>l. \<not> ?P l) (mset ls)"
    by (intro subset_mset.add_mono) simp_all
  then show "mset (xs @ ys) \<subseteq># mset ls"
    by (metis mset_append multiset_partition)
  have "set ys \<subseteq> {l. \<not> ?P l}" using set_mset_mono [OF assms(2)] by auto
  then show "ids_of xs \<inter> ids_of ys = {}" by fastforce
qed

lemma exact_amount_search_complete:
  assumes "mset ys \<subseteq># mset leaves" and "\<forall>y \<in> set ys. is_power_of_two (tn_value y)"
    and "sum_list (values_of ys) = t" and "0 < t" and "sum_list (values_of leaves) < 2 ^ 64"
  shows "\<exists>sel. select_leaves_by_exact_amount leaves t = Ok (Some sel)
           \<and> mset sel \<subseteq># mset leaves \<and> sum_list (values_of sel) = t"
proof -
  have "t \<le> sum_list (values_of leaves)"
    using assms(1,3) submset_subseq [OF assms(1)] sum_list_mset_cong sum_list_subseq_le subseq_map
    by metis
  moreover obtain res where "find_exact_multiple_match leaves t = Some res"
    using find_exact_multiple_match_complete [OF assms(1,2)] assms(3) by auto
  ultimately have "\<exists>sel. select_leaves_by_exact_amount leaves t = Ok (Some sel)"
    using assms(4,5) by (auto simp: select_leaves_by_exact_amount_def leaves_sum_exact split: option.split)
  then show ?thesis using exact_amount_sound by blast
qed

section \<open>Properties\<close>

text \<open>C34. The exact-amount search is complete for power-of-two leaves: whenever some sub-collection of the
  leaves whose values are powers of two sums to a positive target, and the total does not overflow, the
  search returns leaves of the wallet that sum to exactly the target, whatever other leaves there are.\<close>

theorem exact_amount_complete:
  assumes "mset ys \<subseteq># mset leaves" and "\<forall>y \<in> set ys. is_power_of_two (tn_value y)"
    and "sum_list (values_of ys) = t" and "0 < t" and "sum_list (values_of leaves) < 2 ^ 64"
  shows "\<exists>sel. select_leaves_by_exact_amount leaves t = Ok (Some sel)
           \<and> mset sel \<subseteq># mset leaves \<and> sum_list (values_of sel) = t"
  using assms by (rule exact_amount_search_complete)

theorem exact_amount_complete_witness:
  "let leaves = [sample_leaf ''a'' 7 0, sample_leaf ''b'' 4 0, sample_leaf ''c'' 2 0, sample_leaf ''d'' 4 0]
   in \<exists>sel. select_leaves_by_exact_amount leaves 10 = Ok (Some sel)
        \<and> mset sel \<subseteq># mset leaves \<and> sum_list (values_of sel) = 10"
  unfolding Let_def
  by (rule exact_amount_complete [of "[sample_leaf ''b'' 4 0, sample_leaf ''c'' 2 0, sample_leaf ''d'' 4 0]"])
    (simp_all add: is_power_of_two_def)

text \<open>A payment with a fee never spends a leaf twice: on success the amount leaves sum to exactly the
  amount, the fee leaves to exactly the fee, both together are a sub-collection of the wallet's leaves, and
  no leaf identifier is used for both.\<close>

theorem amount_and_fee_disjoint:
  assumes "select_leaves_by_target_amounts leaves (Some (AmountAndFee a (Some f))) = Ok t"
  shows "mset (selected_leaves t) \<subseteq># mset leaves
       \<and> sum_list (values_of (amount_leaves t)) = a
       \<and> (\<exists>fl. fee_leaves t = Some fl \<and> sum_list (values_of fl) = f
              \<and> ids_of (amount_leaves t) \<inter> ids_of fl = {})"
proof -
  from exact_amount_sound [OF exact_amount_cases(1) [OF assms]]
  have am: "mset (amount_leaves t) \<subseteq># mset leaves" "sum_list (values_of (amount_leaves t)) = a" by auto
  from exact_amount_cases(2) [OF assms refl] obtain fl where fl: "fee_leaves t = Some fl"
    "select_leaves_by_exact_amount
       (filter (\<lambda>leaf. \<not> (\<exists>a \<in> set (amount_leaves t). tn_id a = tn_id leaf)) leaves) f = Ok (Some fl)" by blast
  from exact_amount_sound [OF fl(2)] have "mset fl \<subseteq># mset (filter (\<lambda>leaf. \<not> (\<exists>a \<in> set (amount_leaves t).
      tn_id a = tn_id leaf)) leaves)" "sum_list (values_of fl) = f" by auto
  with disjoint_submset [OF am(1), of fl] fl(1) am show ?thesis by (simp add: selected_leaves_def)
qed

theorem amount_and_fee_disjoint_witness:
  "let leaves = [sample_leaf ''a'' 4 0, sample_leaf ''b'' 2 0, sample_leaf ''c'' 1 0]
   in \<exists>t. select_leaves_by_target_amounts leaves (Some (AmountAndFee 5 (Some 2))) = Ok t
        \<and> mset (selected_leaves t) \<subseteq># mset leaves \<and> sum_list (values_of (amount_leaves t)) = 5"
proof -
  let ?ls = "[sample_leaf ''a'' 4 0, sample_leaf ''b'' 2 0, sample_leaf ''c'' 1 0]"
  have "\<exists>t. select_leaves_by_target_amounts ?ls (Some (AmountAndFee 5 (Some 2))) = Ok t"
    by (simp add: select_leaves_by_target_amounts_def select_leaves_by_exact_amount_def leaves_sum_def
        find_exact_single_match_def find_exact_multiple_match_def greedy_exact_match_def Let_def wsum_def)
  then show ?thesis using amount_and_fee_disjoint [of ?ls 5 2] unfolding Let_def by blast
qed

text \<open>Leaves with distinct identifiers can be chosen for a list of denominations exactly when the
  denominations are available, counted with multiplicity; the chosen leaves then have these values in this
  order and are a sub-collection of the wallet's leaves.\<close>

theorem exact_denominations_iff:
  assumes "distinct (map tn_id leaves)"
  shows "(case select_leaves_by_exact_denominations leaves ds of
            Ok sel \<Rightarrow> mset ds \<subseteq># mset (values_of leaves) \<and> values_of sel = ds \<and> mset sel \<subseteq># mset leaves
          | Err e \<Rightarrow> \<not> mset ds \<subseteq># mset (values_of leaves))"
proof (cases "select_leaves_by_exact_denominations leaves ds")
  case (Inl e)
  then show ?thesis
    using denominations_loop_ok [OF assms, of "[]" ds]
    by (simp add: select_leaves_by_exact_denominations_def)
next
  case (Inr sel)
  then show ?thesis
    using denominations_loop_ok [OF assms, of "[]" ds] denominations_loop_sound [OF assms, of "[]" ds sel]
    by (auto simp: select_leaves_by_exact_denominations_def)
qed

theorem exact_denominations_iff_witness:
  "let leaves = [sample_leaf ''a'' 4 0, sample_leaf ''b'' 2 0, sample_leaf ''c'' 4 0]
   in case select_leaves_by_exact_denominations leaves [4, 4] of
        Ok sel \<Rightarrow> mset [4, 4] \<subseteq># mset (values_of leaves) \<and> values_of sel = [4, 4] \<and> mset sel \<subseteq># mset leaves
      | Err e \<Rightarrow> \<not> mset [4, 4] \<subseteq># mset (values_of leaves)"
  unfolding Let_def by (rule exact_denominations_iff) simp

text \<open>Selection for a minimum amount takes the shortest prefix of the leaves that reaches the amount, and
  never gives up when the balance suffices.\<close>

theorem minimum_amount_shortest_prefix:
  assumes "sum_list (values_of leaves) < 2 ^ 64" and "0 < t" and "t \<le> sum_list (values_of leaves)"
  shows "\<exists>k < length leaves. select_leaves_by_minimum_amount leaves t = Ok (Some (take (Suc k) leaves))
           \<and> t \<le> sum_list (values_of (take (Suc k) leaves)) \<and> sum_list (values_of (take k leaves)) < t"
  using minimum_loop_prefix [of 0 leaves t "[]"] assms
  by (auto simp: select_leaves_by_minimum_amount_def leaves_sum_exact)

theorem minimum_amount_shortest_prefix_witness:
  "\<exists>k < Suc 1. select_leaves_by_minimum_amount [sample_leaf ''a'' 4 0, sample_leaf ''b'' 2 0] 5 =
           Ok (Some (take (Suc k) [sample_leaf ''a'' 4 0, sample_leaf ''b'' 2 0]))"
  using minimum_amount_shortest_prefix [of "[sample_leaf ''a'' 4 0, sample_leaf ''b'' 2 0]" 5]
  by (auto simp del: take_Suc_Cons)

end
