(* ===== verification/Tree_Store.thy ===== *)
theory Tree_Store
  imports Leaf_Selection
begin

text \<open>
  The in-memory tree store: \<open>crates/spark/src/tree/store.rs\<close>.

  The processor task is the only code that touches the state, so its commands are functions on
  \<open>LeavesState\<close>; the readings of the clock and the identifier that \<open>Uuid::now_v7\<close> returns are
  arguments. A reservation entry owns one semaphore permit; the permit is released when the entry, or a
  reserve command that made no entry, is dropped. The record \<open>InMemoryTreeStore\<close> adds the semaphore, the
  command queue (the channel with the senders that wait for a slot, served in order) and the version of
  the watch channel, and \<open>store_step\<close> is its step relation.

  The invariant of the store is that a leaf is in one place only: in the pool, in one reservation, or
  spent; and that the semaphore neither loses nor gains a permit.
\<close>

section \<open>State\<close>

definition DEFAULT_MAX_CONCURRENT_RESERVATIONS :: nat where
  "DEFAULT_MAX_CONCURRENT_RESERVATIONS = 30"

definition DEFAULT_RESERVATION_TIMEOUT :: duration where
  "DEFAULT_RESERVATION_TIMEOUT = 60"

record StoredLeaf =
  sl_node :: TreeNode
  added_at :: system_time

record ReservationEntry =
  re_leaves :: "StoredLeaf list"
  re_purpose :: ReservationPurpose
  pending_change_amount :: u64

type_synonym leaf_pool = "(TreeNodeId, StoredLeaf) hmap"

record LeavesState =
  st_leaves :: leaf_pool
  missing_operators_leaves :: leaf_pool
  leaves_reservations :: "(LeavesReservationId, ReservationEntry) hmap"
  spent_leaf_ids :: "(TreeNodeId, system_time) hmap"
  last_swap_completed_at :: "system_time option"

definition default_leaves_state :: LeavesState where
  "default_leaves_state = \<lparr>st_leaves = [], missing_operators_leaves = [], leaves_reservations = [],
     spent_leaf_ids = [], last_swap_completed_at = None\<rparr>"

definition available_nodes :: "LeavesState \<Rightarrow> TreeNode list" where
  "available_nodes st =
     map sl_node (filter (\<lambda>s. tn_status (sl_node s) = Available) (hm_values (st_leaves st)))"

definition available_balance :: "LeavesState \<Rightarrow> u64" where
  "available_balance st = leaves_sum (available_nodes st)"

definition pending_balance :: "LeavesState \<Rightarrow> u64" where
  "pending_balance st = wsum 64 (map pending_change_amount (hm_values (leaves_reservations st)))"

datatype StoreCommand =
    AddLeaves "TreeNode list"
  | GetLeaves
  | SetLeaves "TreeNode list" "TreeNode list" system_time
  | TryReserveLeaves "TargetAmounts option" bool ReservationPurpose
  | CancelReservation LeavesReservationId
  | FinalizeReservation LeavesReservationId "TreeNode list option"
  | UpdateReservation LeavesReservationId "TreeNode list" "TreeNode list"

datatype StoreResponse =
    UnitResponse "TreeServiceError + unit"
  | LeavesResponse "TreeServiceError + Leaves"
  | ReserveResponse "TreeServiceError + ReserveResult"
  | UpdateResponse "TreeServiceError + LeavesReservation"

section \<open>Commands\<close>

definition insert_leaves :: "system_time \<Rightarrow> TreeNode list \<Rightarrow> leaf_pool \<Rightarrow> leaf_pool" where
  "insert_leaves now ls pool = hm_insert_all tn_id (\<lambda>l. \<lparr>sl_node = l, added_at = now\<rparr>) ls pool"

fun process_add_leaves :: "system_time \<Rightarrow> LeavesState \<Rightarrow> TreeNode list \<Rightarrow> LeavesState" where
  "process_add_leaves now st [] = st"
| "process_add_leaves now st (leaf # ls) =
     (let st1 = st\<lparr>spent_leaf_ids := hm_remove (tn_id leaf) (spent_leaf_ids st)\<rparr>;
          st2 = st1\<lparr>st_leaves := hm_insert (tn_id leaf) \<lparr>sl_node = leaf, added_at = now\<rparr> (st_leaves st1)\<rparr>
      in process_add_leaves now st2 ls)"

definition reserved_nodes_for :: "ReservationPurpose \<Rightarrow> LeavesState \<Rightarrow> TreeNode list" where
  "reserved_nodes_for p st =
     concat (map (\<lambda>e. map sl_node (re_leaves e))
       (filter (\<lambda>e. re_purpose e = p) (hm_values (leaves_reservations st))))"

definition process_get_leaves :: "LeavesState \<Rightarrow> Leaves" where
  "process_get_leaves st =
     \<lparr>lv_available = available_nodes st,
      lv_not_available =
        map sl_node (filter (\<lambda>s. tn_status (sl_node s) \<noteq> Available) (hm_values (st_leaves st))),
      available_missing_from_operators =
        map sl_node (filter (\<lambda>s. tn_status (sl_node s) = Available)
          (hm_values (missing_operators_leaves st))),
      reserved_for_payment = reserved_nodes_for Payment st,
      reserved_for_swap = reserved_nodes_for Swap st\<rparr>"

definition has_active_swap :: "LeavesState \<Rightarrow> bool" where
  "has_active_swap st = list_ex (\<lambda>e. re_purpose e = Swap) (hm_values (leaves_reservations st))"

definition swap_completed_during_refresh :: "LeavesState \<Rightarrow> system_time \<Rightarrow> bool" where
  "swap_completed_during_refresh st refresh_started_at =
     (case last_swap_completed_at st of None \<Rightarrow> False
      | Some completed_at \<Rightarrow> refresh_started_at \<le> completed_at)"

definition preserve_loop ::
  "system_time \<Rightarrow> leaf_pool \<Rightarrow> leaf_pool \<Rightarrow> leaf_pool \<Rightarrow> leaf_pool" where
  "preserve_loop refresh_started_at other old pool =
     foldl (\<lambda>p (i, s). if refresh_started_at \<le> added_at s \<and> \<not> hm_contains p i \<and> \<not> hm_contains other i
                       then hm_insert i s p else p) pool old"

fun refresh_entry_leaves ::
  "StoredLeaf list \<Rightarrow> leaf_pool \<Rightarrow> leaf_pool \<Rightarrow> StoredLeaf list \<times> leaf_pool \<times> leaf_pool" where
  "refresh_entry_leaves [] pool missing = ([], pool, missing)"
| "refresh_entry_leaves (s # ss) pool missing =
     (let i = tn_id (sl_node s) in
      case hm_get pool i of
        Some fresh \<Rightarrow>
          (case refresh_entry_leaves ss (hm_remove i pool) missing of
             (ss', pool', missing') \<Rightarrow> (fresh # ss', pool', missing'))
      | None \<Rightarrow>
          (case hm_get missing i of
             Some fresh \<Rightarrow>
               (case refresh_entry_leaves ss pool (hm_remove i missing) of
                  (ss', pool', missing') \<Rightarrow> (fresh # ss', pool', missing'))
           | None \<Rightarrow>
               (case refresh_entry_leaves ss pool missing of
                  (ss', pool', missing') \<Rightarrow> (s # ss', pool', missing'))))"

fun refresh_reservations ::
  "(LeavesReservationId, ReservationEntry) hmap \<Rightarrow> leaf_pool \<Rightarrow> leaf_pool \<Rightarrow>
   (LeavesReservationId, ReservationEntry) hmap \<times> leaf_pool \<times> leaf_pool" where
  "refresh_reservations [] pool missing = ([], pool, missing)"
| "refresh_reservations ((i, e) # rs) pool missing =
     (case refresh_entry_leaves (re_leaves e) pool missing of
        (ss', pool', missing') \<Rightarrow>
          (case refresh_reservations rs pool' missing' of
             (rs', pool'', missing'') \<Rightarrow> ((i, e\<lparr>re_leaves := ss'\<rparr>) # rs', pool'', missing'')))"

definition process_set_leaves ::
  "system_time \<Rightarrow> LeavesState \<Rightarrow> TreeNode list \<Rightarrow> TreeNode list \<Rightarrow> system_time \<Rightarrow> LeavesState" where
  "process_set_leaves now st leaves missing refresh_started_at =
     (if has_active_swap st \<or> swap_completed_during_refresh st refresh_started_at then st
      else
        let spent = hm_retain (\<lambda>_ spent_at. refresh_started_at \<le> spent_at) (spent_leaf_ids st);
            old_leaves = st_leaves st;
            old_missing = missing_operators_leaves st;
            pool = insert_leaves now (filter (\<lambda>l. \<not> hm_contains spent (tn_id l)) leaves) [];
            miss = insert_leaves now (filter (\<lambda>l. \<not> hm_contains spent (tn_id l)) missing) [];
            pool = preserve_loop refresh_started_at miss old_leaves pool;
            miss = preserve_loop refresh_started_at pool old_missing miss
        in case refresh_reservations (leaves_reservations st) pool miss of
             (rs', pool', miss') \<Rightarrow>
               st\<lparr>st_leaves := pool', missing_operators_leaves := miss', leaves_reservations := rs',
                  spent_leaf_ids := spent\<rparr>)"

fun take_leaves :: "TreeNode list \<Rightarrow> leaf_pool \<Rightarrow> StoredLeaf list \<times> leaf_pool" where
  "take_leaves [] pool = ([], pool)"
| "take_leaves (l # ls) pool =
     (case hm_get pool (tn_id l) of
        None \<Rightarrow> take_leaves ls pool
      | Some s \<Rightarrow> (case take_leaves ls (hm_remove (tn_id l) pool) of (ss, pool') \<Rightarrow> (s # ss, pool')))"

definition reserve_internal ::
  "LeavesReservationId \<Rightarrow> LeavesState \<Rightarrow> TreeNode list \<Rightarrow> ReservationPurpose \<Rightarrow> u64 \<Rightarrow>
   TreeServiceError + (LeavesState \<times> LeavesReservationId)" where
  "reserve_internal i st leaves purpose pending_change =
     (if leaves = [] then Err NonReservableLeaves
      else if \<not> list_all (\<lambda>l. hm_contains (st_leaves st) (tn_id l)) leaves then Err NonReservableLeaves
      else case take_leaves leaves (st_leaves st) of
             (stored_leaves, pool) \<Rightarrow>
               Ok (st\<lparr>st_leaves := pool,
                      leaves_reservations :=
                        hm_insert i \<lparr>re_leaves = stored_leaves, re_purpose = purpose,
                                     pending_change_amount = pending_change\<rparr> (leaves_reservations st)\<rparr>, i))"

definition wait_or_insufficient :: "u64 \<Rightarrow> u64 \<Rightarrow> u64 \<Rightarrow> ReserveResult" where
  "wait_or_insufficient target_amount available pending =
     (if target_amount \<le> wadd 64 available pending
      then WaitForPending target_amount available pending else ReserveInsufficientFunds)"

definition pending_change :: "u64 \<Rightarrow> u64 \<Rightarrow> u64" where
  "pending_change reserved_amount target_amount =
     (if target_amount < reserved_amount \<and> 0 < target_amount then reserved_amount - target_amount else 0)"

definition process_try_reserve_leaves ::
  "LeavesReservationId \<Rightarrow> LeavesState \<Rightarrow> TargetAmounts option \<Rightarrow> bool \<Rightarrow> ReservationPurpose \<Rightarrow>
   LeavesState \<times> (TreeServiceError + ReserveResult)" where
  "process_try_reserve_leaves i st target_amounts exact_only purpose =
     (let target_amount = (case target_amounts of None \<Rightarrow> 0 | Some ta \<Rightarrow> total_sats ta);
          available = available_balance st;
          pending = pending_balance st;
          leaves = available_nodes st;
          reserve = (\<lambda>selected change.
            case reserve_internal i st selected purpose change of
              Err e \<Rightarrow> (st, Err e)
            | Ok (st', i') \<Rightarrow> (st', Ok (Success (new_reservation selected i'))))
      in case select_leaves_by_target_amounts leaves target_amounts of
           Ok target_leaves \<Rightarrow> reserve (selected_leaves target_leaves) 0
         | Err _ \<Rightarrow>
             if \<not> exact_only
             then (case select_leaves_by_minimum_amount leaves target_amount of
                     Ok (Some selected) \<Rightarrow> reserve selected (pending_change (leaves_sum selected) target_amount)
                   | _ \<Rightarrow> (st, Ok (wait_or_insufficient target_amount available pending)))
             else (st, Ok (wait_or_insufficient target_amount available pending)))"

definition process_cancel_reservation :: "LeavesState \<Rightarrow> LeavesReservationId \<Rightarrow> LeavesState" where
  "process_cancel_reservation st i =
     (case hm_get (leaves_reservations st) i of
        None \<Rightarrow> st
      | Some e \<Rightarrow>
          st\<lparr>leaves_reservations := hm_remove i (leaves_reservations st),
             st_leaves := hm_insert_all (\<lambda>s. tn_id (sl_node s)) (\<lambda>s. s) (re_leaves e) (st_leaves st)\<rparr>)"

text \<open>The handler reads the clock twice: \<open>now\<close> for the spent marks and \<open>now'\<close> for the new leaves.\<close>

definition process_finalize_reservation ::
  "system_time \<Rightarrow> system_time \<Rightarrow> LeavesState \<Rightarrow> LeavesReservationId \<Rightarrow> TreeNode list option \<Rightarrow> LeavesState"
where
  "process_finalize_reservation now now' st i new_leaves =
     (let st1 =
        (case hm_get (leaves_reservations st) i of
           None \<Rightarrow> st
         | Some e \<Rightarrow>
             st\<lparr>leaves_reservations := hm_remove i (leaves_reservations st),
                spent_leaf_ids :=
                  hm_insert_all (\<lambda>s. tn_id (sl_node s)) (\<lambda>_. now) (re_leaves e) (spent_leaf_ids st),
                last_swap_completed_at :=
                  (if re_purpose e = Swap \<and> new_leaves \<noteq> None then Some now
                   else last_swap_completed_at st)\<rparr>)
      in case new_leaves of
           None \<Rightarrow> st1
         | Some ls \<Rightarrow> st1\<lparr>st_leaves := insert_leaves now' ls (st_leaves st1)\<rparr>)"

definition process_update_reservation ::
  "system_time \<Rightarrow> LeavesState \<Rightarrow> LeavesReservationId \<Rightarrow> TreeNode list \<Rightarrow> TreeNode list \<Rightarrow>
   LeavesState \<times> (TreeServiceError + LeavesReservation)" where
  "process_update_reservation now st i reserved_leaves change_leaves =
     (case hm_get (leaves_reservations st) i of
        None \<Rightarrow> (st, Err (Generic (''Reservation '' @ i @ '' not found'')))
      | Some old_entry \<Rightarrow>
          (let reserved = map (\<lambda>l. \<lparr>sl_node = l, added_at = now\<rparr>) reserved_leaves
           in (st\<lparr>st_leaves := insert_leaves now change_leaves (st_leaves st),
                  leaves_reservations :=
                    hm_insert i \<lparr>re_leaves = reserved, re_purpose = re_purpose old_entry,
                                 pending_change_amount = 0\<rparr> (hm_remove i (leaves_reservations st))\<rparr>,
               Ok (new_reservation (map sl_node reserved) i))))"

section \<open>The processor loop\<close>

text \<open>The arguments of one turn of the loop besides the command: two clock readings and the identifier a
  new reservation would get.\<close>

record turn =
  tu_now :: system_time
  tu_now' :: system_time
  tu_id :: LeavesReservationId

definition process_command :: "turn \<Rightarrow> StoreCommand \<Rightarrow> LeavesState \<Rightarrow> LeavesState \<times> StoreResponse" where
  "process_command t c st =
     (case c of
        AddLeaves ls \<Rightarrow> (process_add_leaves (tu_now t) st ls, UnitResponse (Ok ()))
      | GetLeaves \<Rightarrow> (st, LeavesResponse (Ok (process_get_leaves st)))
      | SetLeaves ls missing started \<Rightarrow>
          (process_set_leaves (tu_now t) st ls missing started, UnitResponse (Ok ()))
      | TryReserveLeaves ta exact purpose \<Rightarrow>
          (case process_try_reserve_leaves (tu_id t) st ta exact purpose of
             (st', r) \<Rightarrow> (st', ReserveResponse r))
      | CancelReservation i \<Rightarrow> (process_cancel_reservation st i, UnitResponse (Ok ()))
      | FinalizeReservation i ls \<Rightarrow>
          (process_finalize_reservation (tu_now t) (tu_now' t) st i ls, UnitResponse (Ok ()))
      | UpdateReservation i rs cs \<Rightarrow>
          (case process_update_reservation (tu_now t) st i rs cs of (st', r) \<Rightarrow> (st', UpdateResponse r)))"

fun force_notify :: "StoreResponse \<Rightarrow> bool" where
  "force_notify (UpdateResponse r) = is_ok r"
| "force_notify _ = False"

definition should_notify :: "LeavesState \<Rightarrow> LeavesState \<Rightarrow> StoreResponse \<Rightarrow> bool" where
  "should_notify before after r =
     (available_balance after \<noteq> available_balance before
      \<or> pending_balance after \<noteq> pending_balance before \<or> force_notify r)"

text \<open>The whole loop on a list of received commands: the final state, the responses and, for each
  command, whether the watch channel was notified.\<close>

fun run_processor ::
  "(turn \<times> StoreCommand) list \<Rightarrow> LeavesState \<Rightarrow> LeavesState \<times> (StoreResponse \<times> bool) list" where
  "run_processor [] st = (st, [])"
| "run_processor ((t, c) # cs) st =
     (case process_command t c st of
        (st', r) \<Rightarrow>
          (case run_processor cs st' of
             (st'', out) \<Rightarrow> (st'', (r, should_notify st st' r) # out)))"

section \<open>The store as a system\<close>

record InMemoryTreeStore =
  sys_state :: LeavesState
  command_queue :: "StoreCommand list"
  available_permits :: nat
  max_concurrent_reservations :: nat
  balance_version :: nat

definition with_config :: "nat \<Rightarrow> InMemoryTreeStore" where
  "with_config n = \<lparr>sys_state = default_leaves_state, command_queue = [], available_permits = n,
     max_concurrent_reservations = n, balance_version = 0\<rparr>"

fun is_reserve :: "StoreCommand \<Rightarrow> bool" where
  "is_reserve (TryReserveLeaves _ _ _) = True"
| "is_reserve _ = False"

text \<open>The permits that drop when a command has been processed: the permit of an entry that was removed
  for good, and the permit of a reserve command that made no entry. An update moves the permit into the
  new entry.\<close>

fun dropped_permits :: "StoreCommand \<Rightarrow> LeavesState \<Rightarrow> StoreResponse \<Rightarrow> nat" where
  "dropped_permits (TryReserveLeaves _ _ _) st r =
     (case r of ReserveResponse (Ok (Success _)) \<Rightarrow> 0 | _ \<Rightarrow> 1)"
| "dropped_permits (CancelReservation i) st r = (if hm_contains (leaves_reservations st) i then 1 else 0)"
| "dropped_permits (FinalizeReservation i _) st r =
     (if hm_contains (leaves_reservations st) i then 1 else 0)"
| "dropped_permits _ st r = 0"

definition acquire_and_send ::
  "duration \<Rightarrow> TargetAmounts option \<Rightarrow> bool \<Rightarrow> ReservationPurpose \<Rightarrow> InMemoryTreeStore \<Rightarrow>
   TreeServiceError + InMemoryTreeStore" where
  "acquire_and_send timeout ta exact purpose s =
     (if available_permits s = 0 then Err (ResourceBusy (max_concurrent_reservations s) timeout)
      else Ok (s\<lparr>available_permits := available_permits s - 1,
                 command_queue := command_queue s @ [TryReserveLeaves ta exact purpose]\<rparr>))"

definition process_next :: "turn \<Rightarrow> InMemoryTreeStore \<Rightarrow> (StoreResponse \<times> InMemoryTreeStore) option" where
  "process_next t s =
     (case command_queue s of
        [] \<Rightarrow> None
      | c # cs \<Rightarrow>
          (case process_command t c (sys_state s) of
             (st', r) \<Rightarrow>
               Some (r, s\<lparr>sys_state := st', command_queue := cs,
                          available_permits := available_permits s + dropped_permits c (sys_state s) r,
                          balance_version := (if should_notify (sys_state s) st' r
                            then Suc (balance_version s) else balance_version s)\<rparr>)))"

section \<open>Where a leaf is\<close>

abbreviation stored_id :: "StoredLeaf \<Rightarrow> TreeNodeId" where
  "stored_id s \<equiv> tn_id (sl_node s)"

definition reserved_ids :: "(LeavesReservationId, ReservationEntry) hmap \<Rightarrow> TreeNodeId list" where
  "reserved_ids rs = concat (map (\<lambda>e. map stored_id (re_leaves e)) (hm_values rs))"

definition keyed :: "leaf_pool \<Rightarrow> bool" where
  "keyed pool = list_all (\<lambda>(i, s). stored_id s = i) pool"

text \<open>The invariant: maps have distinct keys, pools are keyed by leaf identifier, no leaf is reserved
  twice, no reserved leaf is in the pool, and no spent leaf is in the pool or reserved.\<close>

definition store_inv :: "LeavesState \<Rightarrow> bool" where
  "store_inv st =
     (hm_ok (st_leaves st) \<and> hm_ok (missing_operators_leaves st) \<and> hm_ok (leaves_reservations st)
      \<and> hm_ok (spent_leaf_ids st) \<and> keyed (st_leaves st) \<and> keyed (missing_operators_leaves st)
      \<and> distinct (reserved_ids (leaves_reservations st))
      \<and> set (hm_keys (st_leaves st)) \<inter> set (reserved_ids (leaves_reservations st)) = {}
      \<and> (set (hm_keys (st_leaves st)) \<union> set (reserved_ids (leaves_reservations st)))
          \<inter> set (hm_keys (spent_leaf_ids st)) = {})"

text \<open>What the callers guarantee: leaves that enter the store are not reserved or spent at that moment
  (a received leaf may have been spent before), and the identifier of a reservation is new.\<close>

definition fresh_command :: "turn \<Rightarrow> StoreCommand \<Rightarrow> LeavesState \<Rightarrow> bool" where
  "fresh_command t c st =
     (let spent = set (hm_keys (spent_leaf_ids st)) in
      case c of
        AddLeaves ls \<Rightarrow> ids_of ls \<inter> set (reserved_ids (leaves_reservations st)) = {}
      | TryReserveLeaves _ _ _ \<Rightarrow> tu_id t \<notin> set (hm_keys (leaves_reservations st))
      | FinalizeReservation _ (Some ls) \<Rightarrow>
          ids_of ls \<inter> (set (reserved_ids (leaves_reservations st)) \<union> spent) = {}
      | UpdateReservation i rs cs \<Rightarrow>
          (let others = set (reserved_ids (hm_remove i (leaves_reservations st)))
           in distinct (map tn_id rs) \<and> ids_of rs \<inter> ids_of cs = {}
            \<and> ids_of rs \<inter> (set (hm_keys (st_leaves st)) \<union> others \<union> spent) = {}
            \<and> ids_of cs \<inter> (others \<union> spent) = {})
      | _ \<Rightarrow> True)"

inductive store_step :: "InMemoryTreeStore \<Rightarrow> InMemoryTreeStore \<Rightarrow> bool" where
  step_acquire: "acquire_and_send timeout ta exact purpose s = Ok s' \<Longrightarrow> store_step s s'"
| step_send: "\<not> is_reserve c \<Longrightarrow> store_step s (s\<lparr>command_queue := command_queue s @ [c]\<rparr>)"
| step_process:
    "process_next t s = Some (r, s') \<Longrightarrow> fresh_command t (hd (command_queue s)) (sys_state s) \<Longrightarrow>
     store_step s s'"

section \<open>Lemmas on the pool\<close>

lemma keyed_iff: "hm_ok pool \<Longrightarrow> keyed pool \<longleftrightarrow> (\<forall>i s. hm_get pool i = Some s \<longrightarrow> stored_id s = i)"
  by (auto simp: keyed_def list_all_iff simp flip: hm_in_set)

lemma keyed_get: "keyed pool \<Longrightarrow> hm_get pool i = Some s \<Longrightarrow> stored_id s = i"
  by (auto simp: keyed_def list_all_iff dest: hm_get_in_set)

lemma keyed_Nil [simp]: "keyed []"
  by (simp add: keyed_def)

lemma keyed_insert [simp]: "hm_ok pool \<Longrightarrow> keyed pool \<Longrightarrow> stored_id s = i \<Longrightarrow> keyed (hm_insert i s pool)"
  by (simp add: keyed_iff)

lemma keyed_remove [simp]: "hm_ok pool \<Longrightarrow> keyed pool \<Longrightarrow> keyed (hm_remove i pool)"
  by (simp add: keyed_iff)

lemma keyed_insert_all:
  "hm_ok pool \<Longrightarrow> keyed pool \<Longrightarrow> (\<And>x. x \<in> set xs \<Longrightarrow> stored_id (val x) = key x) \<Longrightarrow>
     keyed (hm_insert_all key val xs pool)"
  unfolding hm_insert_all_def by (induction xs arbitrary: pool) simp_all

lemma insert_leaves_ok [simp]:
  "hm_ok pool \<Longrightarrow> hm_ok (insert_leaves now ls pool)"
  "hm_ok pool \<Longrightarrow> keyed pool \<Longrightarrow> keyed (insert_leaves now ls pool)"
  "set (hm_keys (insert_leaves now ls pool)) = ids_of ls \<union> set (hm_keys pool)"
  by (simp_all add: insert_leaves_def keyed_insert_all)

lemma hm_keys_in_pool: "hm_get pool k = Some s \<Longrightarrow> k \<in> set (hm_keys pool)"
  by (simp add: hm_keys_get)

lemma pool_ids: "keyed pool \<Longrightarrow> map stored_id (hm_values pool) = hm_keys pool"
  by (auto simp: keyed_def hm_values_def hm_keys_def list_all_iff)

definition taken :: "TreeNode list \<Rightarrow> leaf_pool \<Rightarrow> StoredLeaf list \<Rightarrow> leaf_pool \<Rightarrow> bool" where
  "taken ls pool ss pool' \<longleftrightarrow>
     map sl_node ss = ls \<and> hm_ok pool' \<and> keyed pool'
     \<and> hm_get pool' = (\<lambda>k. if k \<in> ids_of ls then None else hm_get pool k)
     \<and> (\<forall>s \<in> set ss. hm_get pool (stored_id s) = Some s)"

lemma take_leaves_spec:
  assumes "hm_ok pool" and "keyed pool" and "distinct (map tn_id ls)"
    and "\<forall>l \<in> set ls. \<exists>s. hm_get pool (tn_id l) = Some s \<and> sl_node s = l"
  shows "\<exists>ss pool'. take_leaves ls pool = (ss, pool') \<and> taken ls pool ss pool'"
  using assms
proof (induction ls arbitrary: pool)
  case Nil
  then show ?case by (simp add: taken_def)
next
  case (Cons l ls)
  then obtain s where s: "hm_get pool (tn_id l) = Some s" "sl_node s = l" by auto
  let ?pool = "hm_remove (tn_id l) pool"
  have "\<forall>l' \<in> set ls. \<exists>s. hm_get ?pool (tn_id l') = Some s \<and> sl_node s = l'"
  proof
    fix l' assume "l' \<in> set ls"
    with Cons.prems(3) have "tn_id l' \<noteq> tn_id l" by (auto simp: image_iff)
    with Cons.prems(4) \<open>l' \<in> set ls\<close> show "\<exists>s. hm_get ?pool (tn_id l') = Some s \<and> sl_node s = l'" by simp
  qed
  from Cons.IH [OF _ _ _ this] Cons.prems(1-3)
  obtain ss pool' where IH: "take_leaves ls ?pool = (ss, pool')" "taken ls ?pool ss pool'" by auto
  with s have "taken (l # ls) pool (s # ss) pool'"
    by (auto simp: taken_def fun_eq_iff split: if_splits)
  with s IH(1) show ?case by simp
qed

section \<open>Lemmas on the reservations\<close>

lemma reserved_ids_Nil [simp]: "reserved_ids [] = []"
  by (simp add: reserved_ids_def hm_values_def)

lemma reserved_ids_Cons: "reserved_ids ((i, e) # rs) = map stored_id (re_leaves e) @ reserved_ids rs"
  by (simp add: reserved_ids_def hm_values_def)

lemma reserved_ids_insert_fresh:
  "i \<notin> set (hm_keys rs) \<Longrightarrow> reserved_ids (hm_insert i e rs) = reserved_ids rs @ map stored_id (re_leaves e)"
  by (simp add: reserved_ids_def hm_values_insert_fresh)

lemma reserved_ids_remove:
  assumes "hm_ok rs" and "hm_get rs i = Some e"
  shows "mset (reserved_ids rs) = mset (map stored_id (re_leaves e)) + mset (reserved_ids (hm_remove i rs))"
  using assms
proof (induction rs)
  case Nil
  then show ?case by simp
next
  case (Cons p rs)
  then show ?case
    by (cases p) (auto simp: reserved_ids_Cons hm_remove_Cons hm_get_Cons hm_ok_def hm_keys_def
        hm_remove_notin split: if_splits)
qed

lemma reserved_ids_remove_set:
  assumes "hm_ok rs" and "hm_get rs i = Some e"
  shows "set (reserved_ids rs) = stored_id ` set (re_leaves e) \<union> set (reserved_ids (hm_remove i rs))"
  using arg_cong [OF reserved_ids_remove [OF assms], of set_mset] by simp

lemma reserved_ids_remove_distinct:
  assumes "hm_ok rs" and "hm_get rs i = Some e" and "distinct (reserved_ids rs)"
  shows "distinct (map stored_id (re_leaves e))" and "distinct (reserved_ids (hm_remove i rs))"
    and "stored_id ` set (re_leaves e) \<inter> set (reserved_ids (hm_remove i rs)) = {}"
proof -
  have "mset (reserved_ids rs) = mset (map stored_id (re_leaves e) @ reserved_ids (hm_remove i rs))"
    using reserved_ids_remove [OF assms(1,2)] by simp
  from mset_eq_imp_distinct_iff [OF this] assms(3)
  have "distinct (map stored_id (re_leaves e) @ reserved_ids (hm_remove i rs))" by simp
  then show "distinct (map stored_id (re_leaves e))" "distinct (reserved_ids (hm_remove i rs))"
    "stored_id ` set (re_leaves e) \<inter> set (reserved_ids (hm_remove i rs)) = {}" by auto
qed

lemma available_nodes_props:
  assumes "store_inv st"
  shows "distinct (map tn_id (available_nodes st))"
    and "l \<in> set (available_nodes st) \<Longrightarrow> \<exists>s. hm_get (st_leaves st) (tn_id l) = Some s \<and> sl_node s = l"
proof -
  from assms have ok: "hm_ok (st_leaves st)" and k: "keyed (st_leaves st)" by (simp_all add: store_inv_def)
  have "distinct (map stored_id (hm_values (st_leaves st)))"
    using ok by (simp add: pool_ids [OF k] hm_keys_def hm_ok_def)
  then show "distinct (map tn_id (available_nodes st))"
    using distinct_map_filter [of stored_id] by (simp add: available_nodes_def comp_def)
  show "l \<in> set (available_nodes st) \<Longrightarrow> \<exists>s. hm_get (st_leaves st) (tn_id l) = Some s \<and> sl_node s = l"
    using keyed_get [OF k] by (auto simp: available_nodes_def hm_values_iff [OF ok])
qed

lemma selected_submset:
  assumes "select_leaves_by_target_amounts leaves ta = Ok t" and "distinct (map tn_id leaves)"
  shows "mset (selected_leaves t) \<subseteq># mset leaves"
proof (cases ta)
  case None
  with assms show ?thesis
    by (auto simp: select_leaves_by_target_amounts_def new_target_leaves_def selected_leaves_def)
next
  case (Some x)
  show ?thesis
  proof (cases x)
    case (AmountAndFee a f)
    with Some assms have sel: "select_leaves_by_target_amounts leaves (Some (AmountAndFee a f)) = Ok t" by simp
    note am = exact_amount_sound [OF exact_amount_cases(1) [OF sel]]
    show ?thesis
    proof (cases f)
      case None
      with am exact_amount_cases(3) [OF sel] show ?thesis by (simp add: selected_leaves_def)
    next
      case (Some v)
      with exact_amount_cases(2) [OF sel Some] disjoint_submset(1) am exact_amount_sound
      show ?thesis by (fastforce simp: selected_leaves_def)
    qed
  next
    case (ExactDenominations ds)
    with Some assms denominations_loop_sound [OF assms(2), of "[]" ds] show ?thesis
      by (auto simp: select_leaves_by_target_amounts_def select_leaves_by_exact_denominations_def
          new_target_leaves_def selected_leaves_def)
  qed
qed

section \<open>Reserving\<close>

definition reserved_as ::
  "LeavesReservationId \<Rightarrow> TreeNode list \<Rightarrow> ReservationPurpose \<Rightarrow> u64 \<Rightarrow> LeavesState \<Rightarrow> LeavesState \<Rightarrow> bool" where
  "reserved_as i sel p c st st' \<longleftrightarrow>
     sel \<noteq> [] \<and> mset sel \<subseteq># mset (available_nodes st)
     \<and> (\<exists>ss pool'. taken sel (st_leaves st) ss pool'
          \<and> st' = st\<lparr>st_leaves := pool',
                    leaves_reservations := hm_insert i \<lparr>re_leaves = ss, re_purpose = p,
                      pending_change_amount = c\<rparr> (leaves_reservations st)\<rparr>)"

lemma reserve_internal_cases:
  assumes "store_inv st" and "mset sel \<subseteq># mset (available_nodes st)"
  shows "(if sel = [] then reserve_internal i st sel p c = Err NonReservableLeaves
          else \<exists>st'. reserve_internal i st sel p c = Ok (st', i) \<and> reserved_as i sel p c st st')"
proof (cases "sel = []")
  case True
  then show ?thesis by (simp add: reserve_internal_def)
next
  case False
  have ok: "hm_ok (st_leaves st)" "keyed (st_leaves st)" using assms(1) by (simp_all add: store_inv_def)
  have "mset (map tn_id sel) \<subseteq># mset (map tn_id (available_nodes st))"
    using image_mset_subseteq_mono [OF assms(2)] by simp
  then have d: "distinct (map tn_id sel)"
    using distinct_submset available_nodes_props(1) [OF assms(1)] by blast
  have "set sel \<subseteq> set (available_nodes st)" using set_mset_mono [OF assms(2)] by simp
  then have p: "\<forall>l \<in> set sel. \<exists>s. hm_get (st_leaves st) (tn_id l) = Some s \<and> sl_node s = l"
    using available_nodes_props(2) [OF assms(1)] by blast
  then have "list_all (\<lambda>l. hm_contains (st_leaves st) (tn_id l)) sel"
    by (force simp: list_all_iff hm_contains_iff)
  with take_leaves_spec [OF ok d p] False assms(2) show ?thesis
    by (simp add: reserve_internal_def reserved_as_def) (metis (no_types, lifting) case_prod_conv)
qed

lemma minimum_loop_prefix_of: "\<exists>k. snd (minimum_loop ls t s acc) = acc @ take k ls"
proof (induction ls t s acc rule: minimum_loop.induct)
  case (1 t s acc)
  then show ?case by simp
next
  case (2 l ls t s acc)
  show ?case
  proof (cases "t \<le> wadd 64 s (tn_value l)")
    case True
    then show ?thesis by (intro exI [of _ 1]) (simp add: Let_def)
  next
    case False
    with 2 obtain k where "snd (minimum_loop ls t (wadd 64 s (tn_value l)) (acc @ [l])) = (acc @ [l]) @ take k ls"
      by auto
    with False show ?thesis by (intro exI [of _ "Suc k"]) (simp add: Let_def)
  qed
qed

lemma minimum_amount_submset:
  assumes "select_leaves_by_minimum_amount leaves t = Ok (Some sel)"
  shows "mset sel \<subseteq># mset leaves"
proof -
  from assms have "sel = snd (minimum_loop leaves t 0 [])"
    by (auto simp: select_leaves_by_minimum_amount_def split: if_splits prod.splits)
  with minimum_loop_prefix_of [of leaves t 0 "[]"] obtain k where "sel = take k leaves" by auto
  then show ?thesis by (simp add: subseq_submset prefix_imp_subseq take_is_prefix)
qed

text \<open>The amount a reserve command aims at.\<close>

definition target_amount_of :: "TargetAmounts option \<Rightarrow> u64" where
  "target_amount_of ta = (case ta of None \<Rightarrow> 0 | Some x \<Rightarrow> total_sats x)"

lemma try_reserve_outcomes:
  assumes "store_inv st" and "process_try_reserve_leaves i st ta exact p = (st', r)"
  obtains
    (exact_match) t where "select_leaves_by_target_amounts (available_nodes st) ta = Ok t"
      "r = Ok (Success (new_reservation (selected_leaves t) i))" "reserved_as i (selected_leaves t) p 0 st st'"
  | (minimum) e sel where "select_leaves_by_target_amounts (available_nodes st) ta = Err e" "\<not> exact"
      "select_leaves_by_minimum_amount (available_nodes st) (target_amount_of ta) = Ok (Some sel)"
      "r = Ok (Success (new_reservation sel i))"
      "reserved_as i sel p (pending_change (leaves_sum sel) (target_amount_of ta)) st st'"
  | (no_leaves) "st' = st" "r = Err NonReservableLeaves"
  | (unmatched) e where "st' = st" "select_leaves_by_target_amounts (available_nodes st) ta = Err e"
      "r = Ok (wait_or_insufficient (target_amount_of ta) (available_balance st) (pending_balance st))"
      "exact \<or> (\<forall>sel. select_leaves_by_minimum_amount (available_nodes st) (target_amount_of ta) \<noteq> Ok (Some sel))"
proof (cases "select_leaves_by_target_amounts (available_nodes st) ta")
  case (Inr t)
  have "mset (selected_leaves t) \<subseteq># mset (available_nodes st)"
    using selected_submset [OF Inr available_nodes_props(1) [OF assms(1)]] .
  from reserve_internal_cases [OF assms(1) this, of i p 0] assms(2) Inr
  have "(st' = st \<and> r = Err NonReservableLeaves) \<or>
      (r = Ok (Success (new_reservation (selected_leaves t) i)) \<and> reserved_as i (selected_leaves t) p 0 st st')"
    by (auto simp: process_try_reserve_leaves_def Let_def split: if_splits)
  then show ?thesis
  proof
    assume "st' = st \<and> r = Err NonReservableLeaves"
    then show ?thesis using no_leaves by simp
  next
    assume "r = Ok (Success (new_reservation (selected_leaves t) i)) \<and> reserved_as i (selected_leaves t) p 0 st st'"
    then show ?thesis using exact_match [OF Inr] by simp
  qed
next
  case (Inl e)
  show ?thesis
  proof (cases "\<not> exact \<and> (\<exists>sel. select_leaves_by_minimum_amount (available_nodes st) (target_amount_of ta) = Ok (Some sel))")
    case True
    then obtain sel where sel: "select_leaves_by_minimum_amount (available_nodes st) (target_amount_of ta) = Ok (Some sel)"
      and ne: "\<not> exact" by blast
    from reserve_internal_cases [OF assms(1) minimum_amount_submset [OF sel], of i p
        "pending_change (leaves_sum sel) (target_amount_of ta)"]
      assms(2) Inl sel ne
    have "(st' = st \<and> r = Err NonReservableLeaves) \<or> (r = Ok (Success (new_reservation sel i))
        \<and> reserved_as i sel p (pending_change (leaves_sum sel) (target_amount_of ta)) st st')"
      by (auto simp: process_try_reserve_leaves_def Let_def target_amount_of_def split: if_splits)
    then show ?thesis using minimum [OF Inl ne sel] no_leaves by auto
  next
    case False
    then have "process_try_reserve_leaves i st ta exact p =
        (st, Ok (wait_or_insufficient (target_amount_of ta) (available_balance st) (pending_balance st)))"
      using Inl by (auto simp: process_try_reserve_leaves_def Let_def target_amount_of_def
          split: sum.split option.split)
    with assms(2) Inl False show ?thesis by (intro unmatched) auto
  qed
qed

section \<open>The refresh\<close>

lemma refresh_entry_leaves_spec:
  assumes "refresh_entry_leaves ss pool missing = (ss', pool', missing')"
    and "hm_ok pool" "hm_ok missing" "keyed pool" "keyed missing"
  shows "map stored_id ss' = map stored_id ss \<and> hm_ok pool' \<and> hm_ok missing' \<and> keyed pool' \<and> keyed missing'
       \<and> hm_get pool' = (\<lambda>k. if k \<in> stored_id ` set ss then None else hm_get pool k)"
  using assms
proof (induction ss pool missing arbitrary: ss' pool' missing' rule: refresh_entry_leaves.induct)
  case (1 pool missing)
  then show ?case by auto
next
  case (2 s ss pool missing)
  show ?case
  proof (cases "hm_get pool (stored_id s)")
    case (Some fresh)
    with 2(4) obtain ss1 where ss1: "ss' = fresh # ss1"
      "refresh_entry_leaves ss (hm_remove (stored_id s) pool) missing = (ss1, pool', missing')"
      by (auto simp: Let_def split: prod.splits)
    have "stored_id fresh = stored_id s" using keyed_get [OF 2(7) Some] .
    with 2(3) [OF refl Some ss1(2)] 2(5-) ss1(1) show ?thesis by (auto simp: fun_eq_iff)
  next
    case None
    show ?thesis
    proof (cases "hm_get missing (stored_id s)")
      case (Some fresh)
      with None 2(4) obtain ss1 where ss1: "ss' = fresh # ss1"
        "refresh_entry_leaves ss pool (hm_remove (stored_id s) missing) = (ss1, pool', missing')"
        by (auto simp: Let_def split: prod.splits)
      have "stored_id fresh = stored_id s" using keyed_get [OF 2(8) Some] .
      with 2(2) [OF refl None Some ss1(2)] None 2(5-) ss1(1) show ?thesis by (auto simp: fun_eq_iff)
    next
      case none: None
      with None 2(4) obtain ss1 where ss1: "ss' = s # ss1"
        "refresh_entry_leaves ss pool missing = (ss1, pool', missing')"
        by (auto simp: Let_def split: prod.splits)
      with 2(1) [OF refl None none ss1(2)] None 2(5-) show ?thesis by (auto simp: fun_eq_iff)
    qed
  qed
qed

lemma refresh_reservations_spec:
  assumes "refresh_reservations rs pool missing = (rs', pool', missing')"
    and "hm_ok pool" "hm_ok missing" "keyed pool" "keyed missing"
  shows "hm_keys rs' = hm_keys rs \<and> reserved_ids rs' = reserved_ids rs
       \<and> map pending_change_amount (hm_values rs') = map pending_change_amount (hm_values rs)
       \<and> map re_purpose (hm_values rs') = map re_purpose (hm_values rs)
       \<and> hm_ok pool' \<and> hm_ok missing' \<and> keyed pool' \<and> keyed missing'
       \<and> hm_get pool' = (\<lambda>k. if k \<in> set (reserved_ids rs) then None else hm_get pool k)"
  using assms
proof (induction rs pool missing arbitrary: rs' pool' missing' rule: refresh_reservations.induct)
  case (1 pool missing)
  then show ?case by auto
next
  case (2 i e rs pool missing)
  obtain ss1 pool1 missing1 where 1: "refresh_entry_leaves (re_leaves e) pool missing = (ss1, pool1, missing1)"
    by (metis prod_cases3)
  with 2(2) obtain rs1 where rs1: "rs' = (i, e\<lparr>re_leaves := ss1\<rparr>) # rs1"
    "refresh_reservations rs pool1 missing1 = (rs1, pool', missing')" by (auto split: prod.splits)
  note E = refresh_entry_leaves_spec [OF 1 2(3-6)]
  note R = 2(1) [OF 1 [symmetric] refl rs1(2)]
  from E R rs1(1) show ?case
    by (auto simp: reserved_ids_Cons hm_keys_def hm_values_def fun_eq_iff)
qed

lemma preserve_loop_Cons:
  "preserve_loop started other ((i, s) # old) pool = preserve_loop started other old
     (if started \<le> added_at s \<and> \<not> hm_contains pool i \<and> \<not> hm_contains other i
      then hm_insert i s pool else pool)"
  by (simp add: preserve_loop_def)

lemma preserve_loop_ok:
  assumes "hm_ok pool" "keyed pool" "list_all (\<lambda>(i, s). stored_id s = i) old"
  shows "hm_ok (preserve_loop started other old pool) \<and> keyed (preserve_loop started other old pool)"
  using assms
proof (induction old arbitrary: pool)
  case Nil
  then show ?case by (simp add: preserve_loop_def)
next
  case (Cons p old)
  obtain i s where p: "p = (i, s)" by (cases p)
  let ?pool = "if started \<le> added_at s \<and> \<not> hm_contains pool i \<and> \<not> hm_contains other i
               then hm_insert i s pool else pool"
  have "hm_ok ?pool" "keyed ?pool" using Cons.prems p by simp_all
  moreover have "list_all (\<lambda>(i, s). stored_id s = i) old" using Cons.prems by simp
  ultimately show ?case unfolding p preserve_loop_Cons by (rule Cons.IH)
qed

lemma preserve_loop_get:
  assumes "hm_ok old"
  shows "hm_get (preserve_loop started other old pool) k =
     (case hm_get pool k of
        Some s \<Rightarrow> Some s
      | None \<Rightarrow> if hm_contains other k then None
                else case hm_get old k of
                       Some s \<Rightarrow> if started \<le> added_at s then Some s else None
                     | None \<Rightarrow> None)"
  using assms
proof (induction old arbitrary: pool)
  case Nil
  then show ?case by (simp add: preserve_loop_def split: option.split)
next
  case (Cons p old)
  obtain i s where p: "p = (i, s)" by (cases p)
  from Cons.prems p have ok: "hm_ok old" and i: "hm_get old i = None"
    by (auto simp: hm_ok_def hm_get_None_iff hm_keys_def)
  show ?case
    unfolding p preserve_loop_Cons Cons.IH [OF ok] hm_get_Cons
    using i by (cases "hm_get pool i") (auto simp: hm_contains_iff split: option.split)
qed

section \<open>Every command keeps the invariant\<close>

lemma store_inv_add:
  assumes "store_inv st" and "ids_of ls \<inter> set (reserved_ids (leaves_reservations st)) = {}"
  shows "store_inv (process_add_leaves now st ls)"
  using assms
proof (induction ls arbitrary: st)
  case Nil
  then show ?case by simp
next
  case (Cons l ls)
  have "store_inv (st\<lparr>spent_leaf_ids := hm_remove (tn_id l) (spent_leaf_ids st),
      st_leaves := hm_insert (tn_id l) \<lparr>sl_node = l, added_at = now\<rparr> (st_leaves st)\<rparr>)"
    using Cons.prems by (auto simp: store_inv_def)
  with Cons.IH Cons.prems(2) show ?case by (simp add: Let_def)
qed

lemma set_leaves_skip:
  "has_active_swap st \<or> swap_completed_during_refresh st started \<Longrightarrow>
     process_set_leaves now st ls ms started = st"
  by (simp add: process_set_leaves_def)

text \<open>The pool before the reserved leaves are taken out of it, as a partial function.\<close>

definition refreshed_pool ::
  "system_time \<Rightarrow> LeavesState \<Rightarrow> TreeNode list \<Rightarrow> TreeNode list \<Rightarrow> system_time \<Rightarrow> TreeNodeId \<Rightarrow> StoredLeaf option"
where
  "refreshed_pool now st leaves missing started k =
     (let unspent = filter (\<lambda>l. \<not> hm_contains (hm_retain (\<lambda>_ at. started \<le> at) (spent_leaf_ids st)) (tn_id l))
      in case hm_get (insert_leaves now (unspent leaves) []) k of
           Some s \<Rightarrow> Some s
         | None \<Rightarrow>
             if k \<in> ids_of (unspent missing) then None
             else case hm_get (st_leaves st) k of
                    Some s \<Rightarrow> if started \<le> added_at s then Some s else None
                  | None \<Rightarrow> None)"

definition set_leaves_result ::
  "system_time \<Rightarrow> LeavesState \<Rightarrow> TreeNode list \<Rightarrow> TreeNode list \<Rightarrow> system_time \<Rightarrow> LeavesState \<Rightarrow> bool" where
  "set_leaves_result now st leaves missing started st' \<longleftrightarrow>
     reserved_ids (leaves_reservations st') = reserved_ids (leaves_reservations st)
     \<and> hm_keys (leaves_reservations st') = hm_keys (leaves_reservations st)
     \<and> pending_balance st' = pending_balance st
     \<and> spent_leaf_ids st' = hm_retain (\<lambda>_ at. started \<le> at) (spent_leaf_ids st)
     \<and> last_swap_completed_at st' = last_swap_completed_at st
     \<and> hm_ok (st_leaves st') \<and> keyed (st_leaves st')
     \<and> hm_ok (missing_operators_leaves st') \<and> keyed (missing_operators_leaves st')
     \<and> hm_get (st_leaves st') =
         (\<lambda>k. if k \<in> set (reserved_ids (leaves_reservations st)) then None
              else refreshed_pool now st leaves missing started k)"

lemma set_leaves_applied:
  assumes "store_inv st" and "\<not> (has_active_swap st \<or> swap_completed_during_refresh st started)"
  shows "set_leaves_result now st leaves missing started (process_set_leaves now st leaves missing started)"
proof -
  define spent where "spent = hm_retain (\<lambda>_ at. started \<le> at) (spent_leaf_ids st)"
  define pool0 where "pool0 = insert_leaves now (filter (\<lambda>l. \<not> hm_contains spent (tn_id l)) leaves) []"
  define miss0 where "miss0 = insert_leaves now (filter (\<lambda>l. \<not> hm_contains spent (tn_id l)) missing) []"
  define pool1 where "pool1 = preserve_loop started miss0 (st_leaves st) pool0"
  define miss1 where "miss1 = preserve_loop started pool1 (missing_operators_leaves st) miss0"
  obtain rs' pool' miss' where R: "refresh_reservations (leaves_reservations st) pool1 miss1 = (rs', pool', miss')"
    by (metis prod_cases3)
  have eq: "process_set_leaves now st leaves missing started =
      st\<lparr>st_leaves := pool', missing_operators_leaves := miss', leaves_reservations := rs', spent_leaf_ids := spent\<rparr>"
    using assms(2) R
    by (simp add: process_set_leaves_def Let_def spent_def pool0_def miss0_def pool1_def miss1_def)
  have ok: "hm_ok pool1" "keyed pool1" "hm_ok miss1" "keyed miss1"
    using assms(1) unfolding pool1_def miss1_def pool0_def miss0_def store_inv_def keyed_def
    by (auto intro!: preserve_loop_ok [unfolded keyed_def, THEN conjunct1]
        preserve_loop_ok [unfolded keyed_def, THEN conjunct2] simp: insert_leaves_ok [unfolded keyed_def])
  have get: "hm_get pool1 = refreshed_pool now st leaves missing started"
  proof
    fix k
    have "hm_contains miss0 k \<longleftrightarrow> k \<in> ids_of (filter (\<lambda>l. \<not> hm_contains spent (tn_id l)) missing)"
      by (simp add: miss0_def hm_contains_keys)
    then show "hm_get pool1 k = refreshed_pool now st leaves missing started k"
      using assms(1) unfolding pool1_def store_inv_def
      by (simp add: preserve_loop_get refreshed_pool_def pool0_def Let_def flip: spent_def)
  qed
  from refresh_reservations_spec [OF R ok(1,3,2,4)] show ?thesis
    unfolding get by (simp add: set_leaves_result_def eq spent_def pending_balance_def)
qed

lemma store_inv_set:
  assumes "store_inv st"
  shows "store_inv (process_set_leaves now st leaves missing started)"
proof (cases "has_active_swap st \<or> swap_completed_during_refresh st started")
  case True
  with assms show ?thesis by (simp add: set_leaves_skip)
next
  case False
  let ?st = "process_set_leaves now st leaves missing started"
  note R = set_leaves_applied [OF assms False, of now leaves missing, unfolded set_leaves_result_def]
  have sp: "set (hm_keys (spent_leaf_ids ?st)) \<subseteq> set (hm_keys (spent_leaf_ids st))"
    using R hm_keys_retain by metis
  have "k \<notin> set (hm_keys (spent_leaf_ids ?st))" if "hm_get (st_leaves ?st) k = Some s" for k s
  proof -
    from that R have "refreshed_pool now st leaves missing started k = Some s" by (simp split: if_splits)
    then consider "hm_get (st_leaves st) k = Some s"
      | "k \<in> ids_of (filter (\<lambda>l. \<not> hm_contains (spent_leaf_ids ?st) (tn_id l)) leaves)"
      using R by (auto simp: refreshed_pool_def Let_def split: option.splits if_splits dest!: hm_keys_in_pool)
    then show ?thesis
    proof cases
      case 1
      with assms sp show ?thesis by (auto simp: store_inv_def dest!: hm_keys_in_pool)
    next
      case 2
      then show ?thesis by (auto simp: hm_contains_keys)
    qed
  qed
  then have "set (hm_keys (st_leaves ?st)) \<inter> set (hm_keys (spent_leaf_ids ?st)) = {}"
    by (auto simp: hm_keys_get)
  moreover have "set (hm_keys (st_leaves ?st)) \<inter> set (reserved_ids (leaves_reservations ?st)) = {}"
    using R by (auto simp: hm_keys_get)
  moreover have "set (reserved_ids (leaves_reservations ?st)) \<inter> set (hm_keys (spent_leaf_ids ?st)) = {}"
    using R sp assms unfolding store_inv_def by auto
  moreover have "hm_ok (leaves_reservations ?st)" "hm_ok (spent_leaf_ids ?st)"
    using R assms unfolding store_inv_def by (simp_all add: hm_ok_def flip: hm_keys_def) (simp add: hm_keys_def distinct_map_filter hm_retain_def)
  ultimately show ?thesis
    using R assms unfolding store_inv_def by (simp add: Int_Un_distrib2)
qed

lemma reserved_as_inv:
  assumes "store_inv st" and "reserved_as i sel p c st st'" and "i \<notin> set (hm_keys (leaves_reservations st))"
  shows "store_inv st'"
proof -
  from assms(2) obtain ss pool' where t: "taken sel (st_leaves st) ss pool'"
    and st': "st' = st\<lparr>st_leaves := pool', leaves_reservations := hm_insert i \<lparr>re_leaves = ss, re_purpose = p,
      pending_change_amount = c\<rparr> (leaves_reservations st)\<rparr>" by (auto simp: reserved_as_def)
  from t have "map tn_id (map sl_node ss) = map tn_id sel" by (simp only: taken_def)
  then have ids: "map stored_id ss = map tn_id sel" by (simp add: comp_def)
  have "set (map tn_id sel) \<subseteq> set (hm_keys (st_leaves st))"
    using t unfolding ids [symmetric] by (auto simp: taken_def hm_keys_get)
  moreover have "distinct (map tn_id sel)"
    using assms(2) distinct_submset [OF _ available_nodes_props(1) [OF assms(1)], of "map tn_id sel"]
    by (simp add: reserved_as_def image_mset_subseteq_mono)
  moreover have "set (hm_keys pool') = set (hm_keys (st_leaves st)) - set (map tn_id sel)"
    using t by (auto simp: taken_def hm_keys_get)
  ultimately show ?thesis
    using assms(1,3) t ids unfolding st'
    by (auto simp: store_inv_def reserved_ids_insert_fresh taken_def)
qed

lemma store_inv_reserve:
  assumes "store_inv st" and "i \<notin> set (hm_keys (leaves_reservations st))"
  shows "store_inv (fst (process_try_reserve_leaves i st ta exact p))"
proof -
  obtain st' r where E: "process_try_reserve_leaves i st ta exact p = (st', r)" by fastforce
  from assms(1) E have "store_inv st'"
    by (cases rule: try_reserve_outcomes) (use assms reserved_as_inv in auto)
  with E show ?thesis by simp
qed

lemma store_inv_cancel:
  assumes "store_inv st"
  shows "store_inv (process_cancel_reservation st i)"
proof (cases "hm_get (leaves_reservations st) i")
  case None
  with assms show ?thesis by (simp add: process_cancel_reservation_def)
next
  case (Some e)
  from assms have ok: "hm_ok (leaves_reservations st)" "distinct (reserved_ids (leaves_reservations st))"
    by (simp_all add: store_inv_def)
  note R = reserved_ids_remove_set [OF ok(1) Some] reserved_ids_remove_distinct [OF ok(1) Some ok(2)]
  from assms R show ?thesis
    by (auto simp: process_cancel_reservation_def Some store_inv_def keyed_insert_all)
qed

lemma store_inv_finalize:
  assumes "store_inv st"
    and "\<And>ls. new = Some ls \<Longrightarrow>
      ids_of ls \<inter> (set (reserved_ids (leaves_reservations st)) \<union> set (hm_keys (spent_leaf_ids st))) = {}"
  shows "store_inv (process_finalize_reservation now now' st i new)"
proof (cases "hm_get (leaves_reservations st) i")
  case None
  with assms show ?thesis
    by (cases new) (auto simp: process_finalize_reservation_def store_inv_def)
next
  case (Some e)
  from assms have ok: "hm_ok (leaves_reservations st)" "distinct (reserved_ids (leaves_reservations st))"
    by (simp_all add: store_inv_def)
  note R = reserved_ids_remove_set [OF ok(1) Some] reserved_ids_remove_distinct [OF ok(1) Some ok(2)]
  from assms R show ?thesis
    by (cases new) (auto simp: process_finalize_reservation_def Some store_inv_def)
qed

lemma store_inv_update:
  assumes "store_inv st" and "fresh_command t (UpdateReservation i rs cs) st"
  shows "store_inv (fst (process_update_reservation now st i rs cs))"
proof (cases "hm_get (leaves_reservations st) i")
  case None
  with assms show ?thesis by (simp add: process_update_reservation_def)
next
  case (Some e)
  from assms have ok: "hm_ok (leaves_reservations st)" "distinct (reserved_ids (leaves_reservations st))"
    by (simp_all add: store_inv_def)
  note R = reserved_ids_remove_set [OF ok(1) Some] reserved_ids_remove_distinct [OF ok(1) Some ok(2)]
  have *: "reserved_ids (hm_insert i x (hm_remove i (leaves_reservations st))) =
      reserved_ids (hm_remove i (leaves_reservations st)) @ map stored_id (re_leaves x)" for x
    by (simp add: reserved_ids_insert_fresh)
  from assms R show ?thesis
    by (auto simp: process_update_reservation_def Some store_inv_def fresh_command_def Let_def * comp_def)
qed

lemma store_inv_command:
  assumes "store_inv st" and "fresh_command t c st"
  shows "store_inv (fst (process_command t c st))"
proof (cases c)
  case (AddLeaves ls)
  with assms show ?thesis by (simp add: process_command_def fresh_command_def store_inv_add)
next
  case GetLeaves
  with assms show ?thesis by (simp add: process_command_def)
next
  case (SetLeaves ls ms started)
  with assms show ?thesis by (simp add: process_command_def store_inv_set)
next
  case (TryReserveLeaves ta exact p)
  with assms store_inv_reserve [of st "tu_id t" ta exact p] show ?thesis
    by (auto simp: process_command_def fresh_command_def Let_def split: prod.split)
next
  case (CancelReservation i)
  with assms show ?thesis by (simp add: process_command_def store_inv_cancel)
next
  case (FinalizeReservation i new)
  with assms store_inv_finalize [of st new] show ?thesis
    by (auto simp: process_command_def fresh_command_def Let_def split: option.splits)
next
  case (UpdateReservation i rs cs)
  with assms store_inv_update [of st t i rs cs "tu_now t"] show ?thesis
    by (auto simp: process_command_def split: prod.split)
qed

section \<open>Permits\<close>

lemma length_add_leaves [simp]: "leaves_reservations (process_add_leaves now st ls) = leaves_reservations st"
  by (induction ls arbitrary: st) (simp_all add: Let_def)

lemma length_set_leaves:
  assumes "store_inv st"
  shows "length (leaves_reservations (process_set_leaves now st ls ms started)) = length (leaves_reservations st)"
proof (cases "has_active_swap st \<or> swap_completed_during_refresh st started")
  case True
  then show ?thesis by (simp add: set_leaves_skip)
next
  case False
  from set_leaves_applied [OF assms False, of now ls ms] show ?thesis
    unfolding set_leaves_result_def hm_keys_def by (metis length_map)
qed

lemma length_hm_insert_fresh: "i \<notin> set (hm_keys m) \<Longrightarrow> length (hm_insert i e m) = Suc (length m)"
  by (simp add: hm_insert_fresh)

lemma reserved_as_length:
  "reserved_as i sel p c st st' \<Longrightarrow> i \<notin> set (hm_keys (leaves_reservations st)) \<Longrightarrow>
     length (leaves_reservations st') = Suc (length (leaves_reservations st))"
  by (auto simp: reserved_as_def length_hm_insert_fresh)

lemma wait_or_insufficient_not_Success [simp]:
  "wait_or_insufficient t a b \<noteq> Success x" "Success x \<noteq> wait_or_insufficient t a b"
  by (simp_all add: wait_or_insufficient_def)

lemma permits_of_command:
  assumes "store_inv st" and "fresh_command t c st" and "process_command t c st = (st', r)"
  shows "length (leaves_reservations st') + dropped_permits c st r =
         length (leaves_reservations st) + (if is_reserve c then 1 else 0)"
proof (cases c)
  case (TryReserveLeaves ta exact p)
  with assms(3) obtain x where E: "process_try_reserve_leaves (tu_id t) st ta exact p = (st', x)"
    and r: "r = ReserveResponse x" by (auto simp: process_command_def split: prod.splits)
  from assms(2) TryReserveLeaves have i: "tu_id t \<notin> set (hm_keys (leaves_reservations st))"
    by (simp add: fresh_command_def Let_def)
  from assms(1) E show ?thesis
    by (cases rule: try_reserve_outcomes)
      (simp_all add: TryReserveLeaves r reserved_as_length [OF _ i] wait_or_insufficient_def)
next
  case (CancelReservation i)
  with assms(1,3) show ?thesis
    by (auto simp: process_command_def process_cancel_reservation_def hm_contains_iff store_inv_def
        length_hm_remove split: option.splits)
next
  case (FinalizeReservation i new)
  with assms(1,3) show ?thesis
    by (cases new; cases "hm_get (leaves_reservations st) i")
      (auto simp: process_command_def process_finalize_reservation_def hm_contains_iff
        store_inv_def length_hm_remove)
next
  case (UpdateReservation i rs cs)
  with assms(1,3) show ?thesis
    by (auto simp: process_command_def process_update_reservation_def Let_def store_inv_def
        length_hm_remove length_hm_insert_fresh split: option.splits)
qed (use assms in \<open>auto simp: process_command_def length_set_leaves\<close>)

definition system_inv :: "nat \<Rightarrow> InMemoryTreeStore \<Rightarrow> bool" where
  "system_inv n s \<longleftrightarrow>
     store_inv (sys_state s) \<and> max_concurrent_reservations s = n
     \<and> available_permits s + length (leaves_reservations (sys_state s))
         + length (filter is_reserve (command_queue s)) = n"

lemma system_inv_step:
  assumes "system_inv n s" and "store_step s s'"
  shows "system_inv n s'"
  using assms(2)
proof (cases rule: store_step.cases)
  case (step_acquire timeout ta exact purpose)
  with assms(1) show ?thesis
    by (auto simp: acquire_and_send_def system_inv_def split: if_splits)
next
  case (step_send c)
  with assms(1) show ?thesis by (simp add: system_inv_def)
next
  case (step_process t r)
  then obtain c cs st' where q: "command_queue s = c # cs"
    and pc: "process_command t c (sys_state s) = (st', r)"
    and s': "s' = s\<lparr>sys_state := st', command_queue := cs,
        available_permits := available_permits s + dropped_permits c (sys_state s) r,
        balance_version := (if should_notify (sys_state s) st' r
          then Suc (balance_version s) else balance_version s)\<rparr>"
    by (auto simp: process_next_def split: list.splits prod.splits)
  from step_process(2) q have f: "fresh_command t c (sys_state s)" by simp
  from assms(1) have inv: "store_inv (sys_state s)" by (simp add: system_inv_def)
  from permits_of_command [OF inv f pc] store_inv_command [OF inv f] assms(1) q pc show ?thesis
    unfolding s' by (auto simp: system_inv_def split: if_splits)
qed

lemma store_inv_default: "store_inv default_leaves_state"
  by (simp add: store_inv_def default_leaves_state_def)

lemma system_inv_init: "system_inv n (with_config n)"
  using store_inv_default by (simp add: with_config_def system_inv_def) (simp add: default_leaves_state_def)

interpretation store: invariant_system "\<lambda>s. s = with_config n" store_step "system_inv n" for n
  by unfold_locales (simp_all add: system_inv_init system_inv_step)

section \<open>Amounts\<close>

lemma mset_restrict_hmap:
  assumes "hm_ok m" and "hm_ok m'" and "hm_get m' = (\<lambda>k. if k \<in> K then None else hm_get m k)"
  shows "mset m' = mset (filter (\<lambda>p. fst p \<notin> K) m)"
proof -
  have "distinct m" "distinct m'" using assms(1,2) by (simp_all add: hm_ok_def distinct_map)
  moreover have "set m' = set (filter (\<lambda>p. fst p \<notin> K) m)"
    using assms by (auto simp: hm_in_set split: if_splits)
  ultimately show ?thesis by (simp add: set_eq_iff_mset_eq_distinct [symmetric] del: mset_filter)
qed

lemma taken_available:
  assumes "store_inv st" and "reserved_as i sel p c st st'"
  shows "mset (available_nodes st) = mset sel + mset (available_nodes st')"
proof -
  from assms(2) obtain ss where t: "taken sel (st_leaves st) ss (st_leaves st')"
    and sub: "mset sel \<subseteq># mset (available_nodes st)" by (auto simp: reserved_as_def)
  from assms(1) have ok: "hm_ok (st_leaves st)" "keyed (st_leaves st)" by (simp_all add: store_inv_def)
  let ?in = "\<lambda>l. tn_id l \<in> ids_of sel"
  have "mset (st_leaves st') = mset (filter (\<lambda>p. fst p \<notin> ids_of sel) (st_leaves st))"
    using t ok mset_restrict_hmap unfolding taken_def by blast
  also have "filter (\<lambda>p. fst p \<notin> ids_of sel) (st_leaves st) =
      filter (\<lambda>p. \<not> ?in (sl_node (snd p))) (st_leaves st)"
    using ok(2) by (intro filter_cong) (auto simp: keyed_def list_all_iff)
  finally have P: "mset (st_leaves st') = mset (filter (\<lambda>p. \<not> ?in (sl_node (snd p))) (st_leaves st))" .
  have av: "mset (available_nodes x) = image_mset (\<lambda>p. sl_node (snd p))
      (filter_mset (\<lambda>p. tn_status (sl_node (snd p)) = Available) (mset (st_leaves x)))" for x
    by (simp add: available_nodes_def hm_values_def filter_map comp_def)
  have rest: "mset (available_nodes st') = mset (filter (\<lambda>l. \<not> ?in l) (available_nodes st))"
    unfolding av P
    by (simp add: available_nodes_def hm_values_def filter_map comp_def filter_filter_mset conj_commute)
  with mset_split_by_key [OF available_nodes_props(1) [OF assms(1)] sub] show ?thesis by simp
qed

lemma pending_after_reserve:
  assumes "store_inv st" and "reserved_as i sel p c st st'" and "i \<notin> set (hm_keys (leaves_reservations st))"
  shows "sum_list (map pending_change_amount (hm_values (leaves_reservations st'))) =
         sum_list (map pending_change_amount (hm_values (leaves_reservations st))) + c"
  using assms by (auto simp: reserved_as_def hm_values_insert_fresh)

lemma exact_target_sum:
  assumes "select_leaves_by_target_amounts leaves (Some ta) = Ok t" and "distinct (map tn_id leaves)"
    and "sum_list (values_of leaves) < 2 ^ 64"
  shows "sum_list (values_of (selected_leaves t)) = total_sats ta"
proof -
  have "sum_list (values_of (selected_leaves t)) \<le> sum_list (values_of leaves)"
    using submset_subseq [OF selected_submset [OF assms(1,2)]] sum_list_mset_cong sum_list_subseq_le subseq_map
    by metis
  then have lt: "sum_list (values_of (selected_leaves t)) < 2 ^ 64" using assms(3) by simp
  show ?thesis
  proof (cases ta)
    case (AmountAndFee a f)
    with assms(1) have sel: "select_leaves_by_target_amounts leaves (Some (AmountAndFee a f)) = Ok t" by simp
    note am = exact_amount_sound [OF exact_amount_cases(1) [OF sel]]
    show ?thesis
    proof (cases f)
      case None
      with AmountAndFee am exact_amount_cases(3) [OF sel] lt show ?thesis by (simp add: selected_leaves_def)
    next
      case (Some v)
      from exact_amount_cases(2) [OF sel Some] exact_amount_sound obtain fl where
        "fee_leaves t = Some fl" "sum_list (values_of fl) = v" by blast
      with AmountAndFee Some am lt show ?thesis by (simp add: selected_leaves_def)
    qed
  next
    case (ExactDenominations ds)
    with assms(1) denominations_loop_sound [OF assms(2), of "[]" ds] have "values_of (selected_leaves t) = ds"
      by (auto simp: select_leaves_by_target_amounts_def select_leaves_by_exact_denominations_def
          new_target_leaves_def selected_leaves_def)
    with lt ExactDenominations show ?thesis by simp
  qed
qed

lemma reserved_as_amounts:
  assumes "store_inv st" and R: "reserved_as i sel p c st st'"
    and "i \<notin> set (hm_keys (leaves_reservations st))"
    and "sum_list (values_of (available_nodes st))
         + sum_list (map pending_change_amount (hm_values (leaves_reservations st))) < 2 ^ 64"
    and r: "r = new_reservation sel i" and le: "c \<le> sum_list (values_of sel)"
  shows "reservation_sum r = sum_list (values_of sel)
      \<and> available_balance st = available_balance st' + reservation_sum r
      \<and> pending_balance st' = pending_balance st + c"
proof -
  have bal: "available_balance st = sum_list (values_of (available_nodes st))"
    "pending_balance st = sum_list (map pending_change_amount (hm_values (leaves_reservations st)))"
    using assms(4) by (simp_all add: available_balance_def pending_balance_def leaves_sum_exact)
  have sum: "sum_list (values_of (available_nodes st)) =
      sum_list (values_of sel) + sum_list (values_of (available_nodes st'))"
    using arg_cong [OF taken_available [OF assms(1) R], of "\<lambda>M. sum_mset (image_mset tn_value M)"]
    by (simp add: sum_mset_sum_list flip: mset_map)
  then have "reservation_sum r = sum_list (values_of sel)"
    using assms(4) by (simp add: r reservation_sum_def new_reservation_def leaves_sum_exact)
  moreover have "available_balance st' = sum_list (values_of (available_nodes st'))"
    using assms(4) sum by (simp add: available_balance_def leaves_sum_exact)
  moreover have "pending_balance st' = pending_balance st + c"
    using pending_after_reserve [OF assms(1) R assms(3)] sum le assms(4) bal(2)
    by (simp add: pending_balance_def)
  ultimately show ?thesis using sum bal(1) by simp
qed

lemma exact_match_reserves:
  assumes "store_inv st" and "select_leaves_by_target_amounts (available_nodes st) ta = Ok t"
    and "selected_leaves t \<noteq> []"
  shows "\<exists>st'. process_try_reserve_leaves i st ta exact p =
           (st', Ok (Success (new_reservation (selected_leaves t) i)))"
  using reserve_internal_cases [OF assms(1) selected_submset [OF assms(2) available_nodes_props(1) [OF assms(1)]],
      of i p 0] assms(2,3)
  by (auto simp: process_try_reserve_leaves_def Let_def)

text \<open>A turn, and a state with three leaves, for the instances of the theorems.\<close>

definition sample_turn :: turn where
  "sample_turn = \<lparr>tu_now = 5, tu_now' = 5, tu_id = ''r1''\<rparr>"

definition sample_pool :: "TreeNode list" where
  "sample_pool = [sample_leaf ''a'' 4 0, sample_leaf ''b'' 2 0, sample_leaf ''c'' 1 0]"

definition sample_state :: LeavesState where
  "sample_state = process_add_leaves 5 default_leaves_state sample_pool"

lemma sample_state_inv: "store_inv sample_state"
  unfolding sample_state_def by (rule store_inv_add) (simp_all add: store_inv_default, simp add: default_leaves_state_def)

lemma sample_state_eval:
  "sample_state = default_leaves_state\<lparr>st_leaves := map (\<lambda>l. (tn_id l, \<lparr>sl_node = l, added_at = 5\<rparr>)) sample_pool\<rparr>"
  by (simp add: sample_state_def sample_pool_def default_leaves_state_def Let_def hm_insert_def hm_remove_def)

lemma sample_available [simp]: "available_nodes sample_state = sample_pool"
  by (simp add: sample_state_eval available_nodes_def hm_values_def sample_pool_def)

lemma sample_reservations [simp]: "leaves_reservations sample_state = []"
  by (simp add: sample_state_eval default_leaves_state_def)

lemma sample_reachable:
  "\<exists>s. reachable (\<lambda>s. s = with_config 2) store_step s \<and> sys_state s = sample_state \<and> command_queue s = []"
proof -
  let ?s0 = "with_config 2"
  let ?s1 = "?s0\<lparr>command_queue := command_queue ?s0 @ [AddLeaves sample_pool]\<rparr>"
  have 0: "reachable (\<lambda>s. s = ?s0) store_step ?s0" by (rule reach_init) simp
  have 1: "reachable (\<lambda>s. s = ?s0) store_step ?s1" by (rule reach_step [OF 0 step_send]) simp
  obtain r s2 where p: "process_next sample_turn ?s1 = Some (r, s2)"
    and s2: "sys_state s2 = sample_state" "command_queue s2 = []"
    by (simp add: process_next_def with_config_def process_command_def sample_state_def sample_turn_def)
  have "fresh_command sample_turn (hd (command_queue ?s1)) (sys_state ?s1)"
    by (simp add: fresh_command_def with_config_def default_leaves_state_def)
  from reach_step [OF 1 step_process [OF p this]] s2 show ?thesis by blast
qed

section \<open>Properties\<close>



text \<open>The semaphore neither loses nor invents permits: in every reachable state the free permits, the
  permits held by reservations and those held by queued reserve commands add up to the configured maximum,
  so never more than that many reservations exist and every path of a reserve command returns its permit.\<close>

theorem permits_conserved:
  assumes "reachable (\<lambda>s. s = with_config n) store_step s"
  shows "available_permits s + length (leaves_reservations (sys_state s))
           + length (filter is_reserve (command_queue s)) = n"
  using store.reachable_inv [OF assms] by (simp add: system_inv_def)

theorem permits_conserved_witness:
  "\<exists>s :: InMemoryTreeStore. sys_state s = sample_state \<and> command_queue s = [] \<and> available_permits s = 2"
proof -
  obtain s where s: "reachable (\<lambda>s. s = with_config 2) store_step s" "sys_state s = sample_state"
    "command_queue s = []" using sample_reachable by blast
  with permits_conserved [OF s(1)] show ?thesis by (intro exI [of _ s]) simp
qed

text \<open>C3. The answer to a reserve command for an amount: on success the leaves come from the available ones, the
  reserved sum covers the target, equals it when only exact matches are allowed, the available balance
  drops by exactly the reserved sum, and the pending balance grows by exactly the excess that a swap will
  return. Otherwise nothing changes, and the caller is told to wait precisely when the available and
  pending amounts together reach the target.\<close>

theorem reserve_result_spec:
  assumes "store_inv st" and "i \<notin> set (hm_keys (leaves_reservations st))"
    and "sum_list (values_of (available_nodes st))
         + sum_list (map pending_change_amount (hm_values (leaves_reservations st))) < 2 ^ 64"
    and "0 < total_sats ta"
    and "process_try_reserve_leaves i st (Some ta) exact p = (st', Ok res)"
  shows "(case res of
            Success r \<Rightarrow>
              mset (lr_leaves r) \<subseteq># mset (available_nodes st) \<and> lr_id r = i
              \<and> total_sats ta \<le> reservation_sum r
              \<and> (exact \<longrightarrow> reservation_sum r = total_sats ta)
              \<and> available_balance st = available_balance st' + reservation_sum r
              \<and> pending_balance st' = pending_balance st + (reservation_sum r - total_sats ta)
          | WaitForPending needed available pending \<Rightarrow>
              st' = st \<and> needed = total_sats ta \<and> available = available_balance st
              \<and> pending = pending_balance st \<and> needed \<le> available + pending
          | ReserveInsufficientFunds \<Rightarrow>
              st' = st \<and> available_balance st + pending_balance st < total_sats ta)"
proof -
  let ?T = "total_sats ta"
  have T: "target_amount_of (Some ta) = ?T" by (simp add: target_amount_of_def)
  have bal: "available_balance st = sum_list (values_of (available_nodes st))"
    "pending_balance st = sum_list (map pending_change_amount (hm_values (leaves_reservations st)))"
    using assms(3) by (simp_all add: available_balance_def pending_balance_def leaves_sum_exact)
  note success = reserved_as_amounts [OF assms(1) _ assms(2,3)]
  from assms(1,5) show ?thesis
  proof (cases rule: try_reserve_outcomes)
    case (exact_match t)
    have "sum_list (values_of (selected_leaves t)) = ?T"
      using exact_target_sum [OF exact_match(1) available_nodes_props(1) [OF assms(1)]] assms(3) by simp
    with success [OF exact_match(3) refl] exact_match show ?thesis
      by (simp add: new_reservation_def reserved_as_def)
  next
    case (minimum e sel)
    have sub: "sum_list (values_of sel) \<le> sum_list (values_of (available_nodes st))"
      using submset_subseq [OF minimum_amount_submset [OF minimum(3)]] sum_list_mset_cong sum_list_subseq_le
        subseq_map by metis
    then have lsum: "leaves_sum sel = sum_list (values_of sel)" using assms(3) by (simp add: leaves_sum_exact)
    have "?T \<le> sum_list (values_of sel)"
      using minimum(3) minimum_loop_prefix [of 0 "available_nodes st" ?T "[]"] assms(3,4) T
      by (auto simp: select_leaves_by_minimum_amount_def leaves_sum_exact split: if_splits)
    with success [OF minimum(5) refl] minimum assms(4) lsum T show ?thesis
      by (simp add: new_reservation_def reserved_as_def pending_change_def)
  next
    case no_leaves
    then show ?thesis by simp
  next
    case (unmatched e)
    then show ?thesis
      using assms(3) bal T by (auto simp: wait_or_insufficient_def)
  qed
qed

theorem reserve_result_spec_witness:
  "\<exists>st' r. process_try_reserve_leaves ''r1'' sample_state (Some (AmountAndFee 3 None)) True Payment
            = (st', Ok (Success r))
         \<and> reservation_sum r = 3 \<and> available_balance sample_state = available_balance st' + 3"
proof -
  have "select_leaves_by_target_amounts (available_nodes sample_state) (Some (AmountAndFee 3 None)) =
      Ok (new_target_leaves [sample_leaf ''b'' 2 0, sample_leaf ''c'' 1 0] None)"
    by (simp add: select_leaves_by_target_amounts_def Let_def
        select_leaves_by_exact_amount_def leaves_sum_def wsum_def sample_pool_def
        find_exact_single_match_def find_exact_multiple_match_def greedy_exact_match_def)
  from exact_match_reserves [OF sample_state_inv this, of "''r1''" True Payment] obtain st' r where
    E: "process_try_reserve_leaves ''r1'' sample_state (Some (AmountAndFee 3 None)) True Payment
          = (st', Ok (Success r))"
    by (auto simp: selected_leaves_def new_target_leaves_def)
  from reserve_result_spec [OF sample_state_inv _ _ _ E] E show ?thesis
    by (simp add: sample_pool_def hm_values_def)
qed

text \<open>Reserving and then cancelling is the identity: after a successful reservation under a new identifier,
  cancelling it gives back a store with the same pool, the same reservations and the same spent marks.\<close>

theorem cancel_undoes_reserve:
  assumes "store_inv st" and "i \<notin> set (hm_keys (leaves_reservations st))"
    and "process_try_reserve_leaves i st ta exact p = (st', Ok (Success r))"
  shows "\<exists>pool. hm_get pool = hm_get (st_leaves st)
           \<and> process_cancel_reservation st' i = st\<lparr>st_leaves := pool\<rparr>"
proof -
  from assms(1,3) obtain sel c where R: "reserved_as i sel p c st st'"
    by (cases rule: try_reserve_outcomes) auto
  then obtain ss pool' where t: "taken sel (st_leaves st) ss pool'"
    and st': "st' = st\<lparr>st_leaves := pool', leaves_reservations := hm_insert i \<lparr>re_leaves = ss, re_purpose = p,
      pending_change_amount = c\<rparr> (leaves_reservations st)\<rparr>" by (auto simp: reserved_as_def)
  let ?pool = "hm_insert_all stored_id (\<lambda>s. s) ss pool'"
  from t have ids: "stored_id ` set ss = ids_of sel" by (metis image_image image_set taken_def)
  have "hm_get ?pool k = hm_get (st_leaves st) k" for k
  proof (cases "k \<in> stored_id ` set ss")
    case True
    with hm_get_insert_all_in [of k stored_id ss "\<lambda>s. s" pool'] t show ?thesis by (auto simp: taken_def)
  next
    case False
    with t ids show ?thesis by (simp add: hm_get_insert_all_notin taken_def)
  qed
  moreover have "hm_remove i (hm_insert i x (leaves_reservations st)) = leaves_reservations st" for x
    using assms(2) by (simp add: hm_insert_fresh hm_remove_def AList.delete_eq hm_keys_def filter_id_conv)
      (auto simp: image_iff)
  ultimately show ?thesis
    by (intro exI [of _ ?pool]) (auto simp: process_cancel_reservation_def st')
qed

theorem cancel_undoes_reserve_witness:
  "\<exists>st' r pool. process_try_reserve_leaves ''r1'' sample_state None True Payment = (st', Ok (Success r))
     \<and> hm_get pool = hm_get (st_leaves sample_state)
     \<and> process_cancel_reservation st' ''r1'' = sample_state\<lparr>st_leaves := pool\<rparr>"
proof -
  have "select_leaves_by_target_amounts (available_nodes sample_state) None =
      Ok (new_target_leaves sample_pool None)"
    by (simp add: select_leaves_by_target_amounts_def)
  from exact_match_reserves [OF sample_state_inv this, of "''r1''" True Payment] obtain st' r where
    E: "process_try_reserve_leaves ''r1'' sample_state None True Payment = (st', Ok (Success r))"
    by (auto simp: selected_leaves_def new_target_leaves_def sample_pool_def)
  from cancel_undoes_reserve [OF sample_state_inv _ E] E show ?thesis by auto
qed

text \<open>C2. What a refresh leaves in the pool. Unless a swap is in flight or ended after the refresh began (then
  nothing changes), a leaf is in the pool afterwards exactly when it is not reserved and it is either
  reported by the refresh and not spent since the refresh began, or not reported among the missing ones but
  was added to the pool since then.\<close>

theorem refresh_pool_iff:
  assumes "store_inv st"
  shows "(let st' = process_set_leaves now st leaves missing started;
              spent_since = {k. \<exists>at. hm_get (spent_leaf_ids st) k = Some at \<and> started \<le> at}
          in if has_active_swap st \<or> swap_completed_during_refresh st started then st' = st
             else k \<in> set (hm_keys (st_leaves st')) \<longleftrightarrow>
                    k \<notin> set (reserved_ids (leaves_reservations st))
                    \<and> (k \<in> ids_of leaves - spent_since
                       \<or> (k \<notin> ids_of missing - spent_since
                          \<and> (\<exists>s. hm_get (st_leaves st) k = Some s \<and> started \<le> added_at s))))"
proof (cases "has_active_swap st \<or> swap_completed_during_refresh st started")
  case True
  then show ?thesis by (simp add: set_leaves_skip)
next
  case False
  have ret: "hm_contains (hm_retain (\<lambda>_ at. started \<le> at) (spent_leaf_ids st)) x \<longleftrightarrow>
      (\<exists>at. hm_get (spent_leaf_ids st) x = Some at \<and> started \<le> at)" for x
    using assms by (auto simp: store_inv_def hm_contains_iff hm_get_retain split: option.splits)
  have ids: "hm_get (insert_leaves now ls []) k = None \<longleftrightarrow> k \<notin> ids_of ls" for ls
    by (simp add: hm_get_None_iff)
  from set_leaves_applied [OF assms False, of now leaves missing]
  have "k \<in> set (hm_keys (st_leaves (process_set_leaves now st leaves missing started))) \<longleftrightarrow>
      k \<notin> set (reserved_ids (leaves_reservations st)) \<and> refreshed_pool now st leaves missing started k \<noteq> None"
    by (simp add: set_leaves_result_def hm_keys_get)
  also have "refreshed_pool now st leaves missing started k \<noteq> None \<longleftrightarrow>
      k \<in> ids_of (filter (\<lambda>l. \<not> hm_contains (hm_retain (\<lambda>_ at. started \<le> at) (spent_leaf_ids st)) (tn_id l)) leaves)
      \<or> (k \<notin> ids_of (filter (\<lambda>l. \<not> hm_contains (hm_retain (\<lambda>_ at. started \<le> at) (spent_leaf_ids st)) (tn_id l)) missing)
         \<and> (\<exists>s. hm_get (st_leaves st) k = Some s \<and> started \<le> added_at s))"
    unfolding refreshed_pool_def Let_def
    using ids [of "filter (\<lambda>l. \<not> hm_contains (hm_retain (\<lambda>_ at. started \<le> at) (spent_leaf_ids st)) (tn_id l)) leaves"]
    by (auto split: option.splits)
  finally show ?thesis using False unfolding ret Let_def by auto
qed

theorem refresh_pool_iff_witness:
  "''z'' \<in> set (hm_keys (st_leaves (process_set_leaves 9 sample_state [sample_leaf ''z'' 8 0] [] 3)))
   \<and> ''a'' \<in> set (hm_keys (st_leaves (process_set_leaves 9 sample_state [sample_leaf ''z'' 8 0] [] 3)))
   \<and> ''a'' \<notin> set (hm_keys (st_leaves (process_set_leaves 9 sample_state [sample_leaf ''z'' 8 0] [] 6)))"
  using refresh_pool_iff [OF sample_state_inv, where now = 9 and leaves = "[sample_leaf ''z'' 8 0]" and missing = "[]"]
  by (simp add: Let_def has_active_swap_def swap_completed_during_refresh_def sample_state_eval hm_values_def
      default_leaves_state_def hm_get_def sample_pool_def)

lemma spent_retained:
  assumes "store_inv st" and "hm_get (spent_leaf_ids st) k = Some at" and "started \<le> at"
  shows "hm_get (spent_leaf_ids (process_set_leaves now st ls ms started)) k = Some at"
proof (cases "has_active_swap st \<or> swap_completed_during_refresh st started")
  case True
  with assms show ?thesis by (simp add: set_leaves_skip)
next
  case False
  from set_leaves_applied [OF assms(1) False, of now ls ms] assms show ?thesis
    by (simp add: set_leaves_result_def hm_get_retain store_inv_def)
qed

fun refreshes :: "(system_time \<times> TreeNode list \<times> TreeNode list \<times> system_time) list \<Rightarrow> LeavesState \<Rightarrow> LeavesState" where
  "refreshes [] st = st"
| "refreshes ((now, ls, ms, started) # rs) st = refreshes rs (process_set_leaves now st ls ms started)"

lemma refreshes_spent:
  assumes "store_inv st" and "hm_get (spent_leaf_ids st) k = Some at" and "\<forall>(now, ls, ms, started) \<in> set rs. started \<le> at"
  shows "store_inv (refreshes rs st) \<and> hm_get (spent_leaf_ids (refreshes rs st)) k = Some at"
  using assms by (induction rs st rule: refreshes.induct) (auto simp: store_inv_set spent_retained)

text \<open>C4. Spent leaves do not come back: once a reservation is finalized, none of its leaves is in the pool
  after any number of refreshes that began no later than the finalization, even when the operators still
  report them as available.\<close>

theorem finalized_leaves_stay_out:
  assumes "store_inv st" and "hm_get (leaves_reservations st) i = Some e" and "s \<in> set (re_leaves e)"
    and "\<forall>ls. new = Some ls \<longrightarrow>
      ids_of ls \<inter> (set (reserved_ids (leaves_reservations st)) \<union> set (hm_keys (spent_leaf_ids st))) = {}"
    and "\<forall>(_, _, _, started) \<in> set rs. started \<le> now"
  shows "tn_id (sl_node s) \<notin>
           set (hm_keys (st_leaves (refreshes rs (process_finalize_reservation now now' st i new))))"
proof -
  let ?st = "process_finalize_reservation now now' st i new"
  have inv: "store_inv ?st" using assms(1,4) by (intro store_inv_finalize) auto
  have "hm_get (spent_leaf_ids ?st) (stored_id s) = Some now"
    using hm_get_insert_all_in [of "stored_id s" stored_id "re_leaves e" "\<lambda>_. now" "spent_leaf_ids st"] assms(2,3)
    by (auto simp: process_finalize_reservation_def Let_def split: option.split)
  from refreshes_spent [OF inv this] assms(5)
  have "store_inv (refreshes rs ?st)" "hm_get (spent_leaf_ids (refreshes rs ?st)) (stored_id s) = Some now"
    by auto
  then show ?thesis by (auto simp: store_inv_def dest!: hm_keys_in_pool)
qed

theorem finalized_leaves_stay_out_witness:
  "''a'' \<notin> set (hm_keys (st_leaves (refreshes [(8, [sample_leaf ''a'' 4 0], [], 6), (9, [sample_leaf ''a'' 4 0], [], 7)]
     (process_finalize_reservation 7 7 (default_leaves_state\<lparr>leaves_reservations :=
        [(''r'', \<lparr>re_leaves = [\<lparr>sl_node = sample_leaf ''a'' 4 0, added_at = 5\<rparr>], re_purpose = Payment,
                  pending_change_amount = 0\<rparr>)]\<rparr>) ''r'' None))))"
proof -
  let ?st = "default_leaves_state\<lparr>leaves_reservations :=
        [(''r'', \<lparr>re_leaves = [\<lparr>sl_node = sample_leaf ''a'' 4 0, added_at = 5\<rparr>], re_purpose = Payment,
                  pending_change_amount = 0\<rparr>)]\<rparr>"
  have "store_inv ?st"
    by (simp add: store_inv_def default_leaves_state_def reserved_ids_Cons hm_ok_def)
  from finalized_leaves_stay_out [OF this, where s = "\<lparr>sl_node = sample_leaf ''a'' 4 0, added_at = 5\<rparr>" and i = "''r''"
      and new = None and now = 7 and now' = 7
      and rs = "[(8, [sample_leaf ''a'' 4 0], [], 6), (9, [sample_leaf ''a'' 4 0], [], 7)]"]
  show ?thesis by (simp add: hm_get_def del: refreshes.simps)
qed

text \<open>Adding a leaf does not remove it from the leaves that are missing from operators: from a store that
  knows a leaf as missing, adding it makes the reported balance count it twice.\<close>

theorem add_leaves_counts_missing_twice:
  "let leaf = sample_leaf ''m'' v 0;
       st = process_set_leaves 1 default_leaves_state [] [leaf] 1;
       st' = process_add_leaves 2 st [leaf]
   in leaves_balance (process_get_leaves st) = v mod 2 ^ 64
      \<and> leaves_balance (process_get_leaves st') = (v + v) mod 2 ^ 64"
  by (simp add: process_set_leaves_def default_leaves_state_def has_active_swap_def Let_def hm_values_def
      swap_completed_during_refresh_def hm_retain_def insert_leaves_def hm_insert_all_def hm_contains_def
      preserve_loop_def hm_insert_def hm_remove_def process_get_leaves_def available_nodes_def
      reserved_nodes_for_def leaves_balance_def leaves_available_balance_def missing_operators_balance_def
      swap_reserved_balance_def leaves_sum_def wsum_def wadd_def mod_simps)

end
