(* ===== verification/Reservation_Scope.thy ===== *)
theory Reservation_Scope
  imports Prelude
begin

text \<open>
  Running an operation under a reservation: \<open>with_reserved_leaves\<close> of
  \<open>crates/spark/src/tree/select_helper.rs\<close> and \<open>with_reserved_token_outputs\<close> of
  \<open>crates/spark/src/token/mod.rs\<close> have the same shape, which \<open>with_reserved\<close> models once: the operation runs,
  then the reservation is finalized on success and cancelled on failure. An error of the store is only
  logged; the in-memory stores answer both calls with \<open>Ok\<close>, so the model leaves it out.

  The locale \<open>reservation_store\<close> is the interface both stores provide, and the lemmas proved in it hold for
  both; the interpretations are in \<open>Tree_Service\<close> and \<open>Token_Store\<close>.
\<close>

definition with_reserved ::
  "('s \<Rightarrow> 'i \<Rightarrow> 's) \<Rightarrow> ('s \<Rightarrow> 'i \<Rightarrow> 's) \<Rightarrow> ('s \<Rightarrow> 's \<times> ('e + 'r)) \<Rightarrow> 'i \<Rightarrow> 's \<Rightarrow> 's \<times> ('e + 'r)" where
  "with_reserved finalize cancel f i s =
     (case f s of
        (s', Ok r) \<Rightarrow> (finalize s' i, Ok r)
      | (s', Err e) \<Rightarrow> (cancel s' i, Err e))"

locale reservation_store =
  fixes inv :: "'s \<Rightarrow> bool"
    and reserved :: "'s \<Rightarrow> 'i \<Rightarrow> 'x list option"
    and pooled :: "'s \<Rightarrow> 'x \<Rightarrow> bool"
    and cancel :: "'s \<Rightarrow> 'i \<Rightarrow> 's"
    and finalize :: "'s \<Rightarrow> 'i \<Rightarrow> 's"
  assumes cancel_inv: "inv s \<Longrightarrow> inv (cancel s i)"
    and finalize_inv: "inv s \<Longrightarrow> inv (finalize s i)"
    and cancel_reserved: "inv s \<Longrightarrow> reserved (cancel s i) j = (if j = i then None else reserved s j)"
    and finalize_reserved: "inv s \<Longrightarrow> reserved (finalize s i) j = (if j = i then None else reserved s j)"
    and cancel_pooled:
      "inv s \<Longrightarrow> reserved s i = Some xs \<Longrightarrow> pooled (cancel s i) x \<longleftrightarrow> x \<in> set xs \<or> pooled s x"
    and finalize_pooled:
      "inv s \<Longrightarrow> reserved s i = Some xs \<Longrightarrow> pooled (finalize s i) x \<longleftrightarrow> pooled s x"
    and exclusive: "inv s \<Longrightarrow> reserved s i = Some xs \<Longrightarrow> x \<in> set xs \<Longrightarrow> \<not> pooled s x"
begin

lemma scope_releases:
  assumes "f s = (s1, r)" and "inv s1" and "with_reserved finalize cancel f i s = (s2, r')"
  shows "inv s2 \<and> r' = r \<and> reserved s2 i = None \<and> (\<forall>j. j \<noteq> i \<longrightarrow> reserved s2 j = reserved s1 j)"
  using assms by (cases r)
    (auto simp: with_reserved_def cancel_inv finalize_inv cancel_reserved finalize_reserved)

lemma scope_pool:
  assumes "f s = (s1, r)" and "inv s1" and "reserved s1 i = Some xs"
    and "with_reserved finalize cancel f i s = (s2, r')"
  shows "pooled s2 x \<longleftrightarrow> pooled s1 x \<or> (x \<in> set xs \<and> \<not> is_ok r)"
  using assms by (cases r) (auto simp: with_reserved_def cancel_pooled finalize_pooled)

lemma cancel_twice:
  "inv s \<Longrightarrow> reserved (cancel (cancel s i) i) j = reserved (cancel s i) j"
  by (simp add: cancel_inv cancel_reserved)

lemma finalize_then_cancel:
  assumes "inv s" and "reserved s i = Some xs" and "x \<in> set xs"
  shows "\<not> pooled (finalize s i) x" and "reserved (cancel (finalize s i) i) j = reserved (finalize s i) j"
  using assms exclusive by (simp_all add: finalize_inv cancel_reserved finalize_reserved finalize_pooled)

end

end
