(* ===== verification/Tree_Service.thy ===== *)
theory Tree_Service
  imports Tree_Store Reservation_Scope
begin

text \<open>
  The tree service: \<open>crates/spark/src/tree/service.rs\<close>, with \<open>with_reserved_leaves\<close> of
  \<open>crates/spark/src/tree/select_helper.rs\<close> and \<open>check_renew_nodes\<close> of
  \<open>crates/spark/src/services/timelock_manager.rs\<close>.

  The remote parties are parameters (\<open>tree_env\<close>): the swap with the service provider, the query of parent
  nodes and the three renewal requests, the signer's public keys and the addition of public keys. The
  store is the in-memory store of \<open>Tree_Store\<close>. The outer \<open>option\<close> is \<open>None\<close> when the code panics, on a
  transaction with no input. When several renewals fail, which error arrives first is open in the code; the
  model reports the first of the list.
\<close>

section \<open>Parameters\<close>

record tree_env =
  te_swap_leaves :: "TreeNode list \<Rightarrow> u64 list option \<Rightarrow> ServiceError + TreeNode list"
  te_query_with_parents :: "TreeNodeId list \<Rightarrow> ServiceError + TreeNode list"
  te_renew_node :: "TreeNode \<Rightarrow> TreeNode \<Rightarrow> ServiceError + TreeNode"
  te_renew_refund :: "TreeNode \<Rightarrow> TreeNode \<Rightarrow> ServiceError + TreeNode"
  te_renew_zero_timelock :: "TreeNode \<Rightarrow> ServiceError + TreeNode"
  te_node_pubkey :: "TreeNodeId \<Rightarrow> SignerError + public_key"
  te_combine :: "public_key \<Rightarrow> public_key \<Rightarrow> public_key option"
  te_debug :: "ServiceError \<Rightarrow> string"

section \<open>Timelock renewal\<close>

record renewals =
  ready_nodes :: "TreeNode list"
  renewable_nodes :: "TreeNode list"
  renewable_refunds :: "TreeNode list"
  renewable_zero_timelock_nodes :: "TreeNode list"
  renew_ids :: "TreeNodeId list"

definition no_renewals :: renewals where
  "no_renewals = \<lparr>ready_nodes = [], renewable_nodes = [], renewable_refunds = [],
     renewable_zero_timelock_nodes = [], renew_ids = []\<rparr>"

definition sort_node :: "TreeNode \<Rightarrow> renewals \<Rightarrow> (ServiceError + renewals) option" where
  "sort_node node r =
     Option.bind (needs_refund_tx_renewed node) (\<lambda>due.
       case due of
         Err e \<Rightarrow> Some (Err (SvTreeServiceError e))
       | Ok False \<Rightarrow> Some (Ok (r\<lparr>ready_nodes := ready_nodes r @ [node]\<rparr>))
       | Ok True \<Rightarrow>
           (let r' = r\<lparr>renew_ids := renew_ids r @ [tn_id node]\<rparr> in
            Option.bind (is_zero_timelock node) (\<lambda>zero.
              if zero
              then Some (Ok (r'\<lparr>renewable_zero_timelock_nodes := renewable_zero_timelock_nodes r' @ [node]\<rparr>))
              else Option.bind (needs_node_tx_renewed node) (\<lambda>node_due.
                if node_due then Some (Ok (r'\<lparr>renewable_nodes := renewable_nodes r' @ [node]\<rparr>))
                else Some (Ok (r'\<lparr>renewable_refunds := renewable_refunds r' @ [node]\<rparr>))))))"

fun sort_nodes :: "TreeNode list \<Rightarrow> renewals \<Rightarrow> (ServiceError + renewals) option" where
  "sort_nodes [] r = Some (Ok r)"
| "sort_nodes (node # nodes) r =
     Option.bind (sort_node node r) (\<lambda>x.
       case x of Err e \<Rightarrow> Some (Err e) | Ok r' \<Rightarrow> sort_nodes nodes r')"

definition nodes_map :: "TreeNode list \<Rightarrow> (TreeNodeId, TreeNode) hmap" where
  "nodes_map nodes = hm_insert_all tn_id (\<lambda>n. n) nodes []"

definition get_parent_node :: "(TreeNodeId, TreeNode) hmap \<Rightarrow> TreeNode \<Rightarrow> ServiceError + TreeNode" where
  "get_parent_node m node =
     rbind (ok_or (parent_node_id node) (SvGeneric (''Node '' @ tn_id node @ '' has no parent node''))) (\<lambda>p.
       ok_or (hm_get m p) (SvGeneric (''Parent node not found for node '' @ tn_id node)))"

fun collect :: "('a \<Rightarrow> 'e + 'b) \<Rightarrow> 'a list \<Rightarrow> 'e + 'b list" where
  "collect f [] = Ok []"
| "collect f (x # xs) = rbind (f x) (\<lambda>y. rbind (collect f xs) (\<lambda>ys. Ok (y # ys)))"

definition node_with_parent :: "(TreeNodeId, TreeNode) hmap \<Rightarrow> TreeNode \<Rightarrow> ServiceError + (TreeNode \<times> TreeNode)" where
  "node_with_parent m node = rbind (get_parent_node m node) (\<lambda>p. Ok (node, p))"

definition check_renew_nodes :: "tree_env \<Rightarrow> TreeNode list \<Rightarrow> (ServiceError + TreeNode list) option" where
  "check_renew_nodes env nodes =
     map_option (\<lambda>x. rbind x (\<lambda>r.
       if renewable_nodes r = [] \<and> renewable_refunds r = [] \<and> renewable_zero_timelock_nodes r = []
       then Ok (ready_nodes r)
       else
         rbind (te_query_with_parents env (renew_ids r)) (\<lambda>found.
         let m = nodes_map found in
         rbind (collect (node_with_parent m) (renewable_nodes r)) (\<lambda>ns.
         rbind (collect (node_with_parent m) (renewable_refunds r)) (\<lambda>rs.
         rbind (collect (\<lambda>(n, p). te_renew_node env n p) ns) (\<lambda>ns'.
         rbind (collect (\<lambda>(n, p). te_renew_refund env n p) rs) (\<lambda>rs'.
         rbind (collect (te_renew_zero_timelock env) (renewable_zero_timelock_nodes r)) (\<lambda>zs'.
           Ok (ready_nodes r @ ns' @ rs' @ zs')))))))))
       (sort_nodes nodes no_renewals)"

section \<open>The service's use of renewal\<close>

definition renew_error :: "tree_env \<Rightarrow> ServiceError \<Rightarrow> TreeServiceError" where
  "renew_error env e = Generic (''Failed to check time lock: '' @ te_debug env e)"

fun partial_nodes :: "ServiceError \<Rightarrow> TreeNode list option" where
  "partial_nodes (PartialCheckTimelockError nodes) = Some nodes"
| "partial_nodes _ = None"

definition add_partial :: "system_time \<Rightarrow> ServiceError \<Rightarrow> LeavesState \<Rightarrow> LeavesState" where
  "add_partial now e st =
     (case partial_nodes e of Some nodes \<Rightarrow> process_add_leaves now st nodes | None \<Rightarrow> st)"

definition service_insert_leaves ::
  "tree_env \<Rightarrow> system_time \<Rightarrow> LeavesState \<Rightarrow> TreeNode list \<Rightarrow>
   (LeavesState \<times> (TreeServiceError + TreeNode list)) option" where
  "service_insert_leaves env now st leaves =
     map_option (\<lambda>x. case x of
         Ok nodes \<Rightarrow> (process_add_leaves now st nodes, Ok nodes)
       | Err e \<Rightarrow> (add_partial now e st, Err (renew_error env e)))
       (check_renew_nodes env leaves)"

definition renew_reservation_timelocks ::
  "tree_env \<Rightarrow> system_time \<Rightarrow> LeavesState \<Rightarrow> LeavesReservation \<Rightarrow>
   (LeavesState \<times> (TreeServiceError + LeavesReservation)) option" where
  "renew_reservation_timelocks env now st r =
     map_option (\<lambda>x. case x of
         Ok nodes \<Rightarrow> (st, Ok (new_reservation nodes (lr_id r)))
       | Err e \<Rightarrow> (add_partial now e (process_cancel_reservation st (lr_id r)), Err (renew_error env e)))
       (check_renew_nodes env (lr_leaves r))"

section \<open>Swapping\<close>

fun swap_targets :: "TargetAmounts \<Rightarrow> u64 list" where
  "swap_targets (AmountAndFee amount_sats fee_sats) =
     amount_sats # (case fee_sats of None \<Rightarrow> [] | Some fee \<Rightarrow> [fee])"
| "swap_targets (ExactDenominations denominations) = denominations"

definition swap_leaves_internal ::
  "tree_env \<Rightarrow> TreeNode list \<Rightarrow> TargetAmounts option \<Rightarrow> (TreeServiceError + TreeNode list) option" where
  "swap_leaves_internal env leaves target_amounts =
     (if leaves = [] then Some (Err (Generic ''no leaves to swap''))
      else case te_swap_leaves env leaves (map_option swap_targets target_amounts) of
             Err e \<Rightarrow> Some (Err (TreeServiceServiceError e))
           | Ok claimed_nodes \<Rightarrow>
               map_option (map_err (renew_error env)) (check_renew_nodes env claimed_nodes))"

definition reservation_matches_target :: "LeavesReservation \<Rightarrow> TargetAmounts option \<Rightarrow> bool" where
  "reservation_matches_target r target_amounts =
     (let total_amount_sats = (case target_amounts of None \<Rightarrow> 0 | Some ta \<Rightarrow> total_sats ta)
      in (total_amount_sats = 0 \<or> reservation_sum r = total_amount_sats)
         \<and> is_ok (select_leaves_by_target_amounts (lr_leaves r) target_amounts))"

definition perform_swap_and_update_reservation ::
  "tree_env \<Rightarrow> turn \<Rightarrow> LeavesState \<Rightarrow> LeavesReservation \<Rightarrow> TargetAmounts option \<Rightarrow>
   (LeavesState \<times> (TreeServiceError + LeavesReservation)) option" where
  "perform_swap_and_update_reservation env t st r target_amounts =
     map_option (\<lambda>swap_result. case swap_result of
         Err e \<Rightarrow> (process_cancel_reservation st (lr_id r), Err e)
       | Ok new_leaves \<Rightarrow>
           (case select_leaves_by_target_amounts new_leaves target_amounts of
              Err e \<Rightarrow> (st, Err e)
            | Ok target_leaves \<Rightarrow>
                (let reserved_leaves = selected_leaves target_leaves;
                     change_leaves = filter (\<lambda>l. tn_id l \<notin> ids_of reserved_leaves) new_leaves
                 in case process_update_reservation (tu_now t) st (lr_id r) reserved_leaves change_leaves of
                      (st', Ok final_reservation) \<Rightarrow> (st', Ok final_reservation)
                    | (st', Err e) \<Rightarrow>
                        (process_finalize_reservation (tu_now t) (tu_now' t) st' (lr_id r) (Some new_leaves), Err e))))
       (swap_leaves_internal env (lr_leaves r) target_amounts)"

section \<open>Selecting with waiting\<close>

datatype WaitEvent = BalanceChanged | StoreClosed | WaitTimeout

text \<open>One round of the loop: the turn of the reserve command, the time since the loop began, how the wait
  for a notification ended, and what the other tasks did to the store meanwhile.\<close>

record attempt =
  at_turn :: turn
  at_elapsed :: duration
  at_event :: WaitEvent
  at_others :: "LeavesState \<Rightarrow> LeavesState"

text \<open>The text of the timeout error also has the elapsed time, which the model leaves out.\<close>

definition wait_for_pending_balance :: "attempt \<Rightarrow> duration \<Rightarrow> TreeServiceError + unit" where
  "wait_for_pending_balance a max_wait =
     (if max_wait < at_elapsed a then Err (Generic ''Timeout waiting for pending balance'')
      else case at_event a of
             StoreClosed \<Rightarrow> Err (Generic ''Store closed'')
           | _ \<Rightarrow> Ok ())"

definition finish_selection ::
  "tree_env \<Rightarrow> turn \<Rightarrow> LeavesState \<Rightarrow> LeavesReservation \<Rightarrow> TargetAmounts option \<Rightarrow>
   (LeavesState \<times> (TreeServiceError + LeavesReservation)) option" where
  "finish_selection env t st r target_amounts =
     Option.bind (renew_reservation_timelocks env (tu_now t) st r) (\<lambda>(st', x). case x of
         Err e \<Rightarrow> Some (st', Err e)
       | Ok r' \<Rightarrow>
           if reservation_matches_target r' target_amounts then Some (st', Ok r')
           else perform_swap_and_update_reservation env t st' r' target_amounts)"

text \<open>The loop on the list of its rounds; the inner \<open>None\<close> is a loop that has not ended after them.\<close>

fun select_leaves ::
  "tree_env \<Rightarrow> TargetAmounts option \<Rightarrow> ReservationPurpose \<Rightarrow> duration \<Rightarrow> attempt list \<Rightarrow> LeavesState \<Rightarrow>
   (LeavesState \<times> (TreeServiceError + LeavesReservation) option) option" where
  "select_leaves env ta purpose max_wait [] st = Some (st, None)"
| "select_leaves env ta purpose max_wait (a # as) st =
     (case process_try_reserve_leaves (tu_id (at_turn a)) st ta False purpose of
        (st', Err e) \<Rightarrow> Some (st', Some (Err e))
      | (st', Ok ReserveInsufficientFunds) \<Rightarrow> Some (st', Some (Err InsufficientFunds))
      | (st', Ok (WaitForPending needed available pending)) \<Rightarrow>
          if max_wait = 0 then Some (st', Some (Err InsufficientFunds))
          else (case wait_for_pending_balance a max_wait of
                  Err e \<Rightarrow> Some (st', Some (Err e))
                | Ok _ \<Rightarrow> select_leaves env ta purpose max_wait as (at_others a st'))
      | (st', Ok (Success r)) \<Rightarrow>
          map_option (\<lambda>(st'', x). (st'', Some x)) (finish_selection env (at_turn a) st' r ta))"

section \<open>Refreshing\<close>

definition leaf_mismatch :: "TreeNode \<Rightarrow> TreeNode \<Rightarrow> bool" where
  "leaf_mismatch leaf operator_leaf =
     (tn_status operator_leaf \<noteq> tn_status leaf
      \<or> ks_public_key (signing_keyshare operator_leaf) \<noteq> ks_public_key (signing_keyshare leaf)
      \<or> node_tx operator_leaf \<noteq> node_tx leaf
      \<or> refund_tx operator_leaf \<noteq> refund_tx leaf)"

definition missing_from :: "TreeNode list \<Rightarrow> TreeNode \<Rightarrow> bool" where
  "missing_from operator_leaves leaf =
     (case find (\<lambda>l. tn_id l = tn_id leaf) operator_leaves of
        Some operator_leaf \<Rightarrow> leaf_mismatch leaf operator_leaf
      | None \<Rightarrow> True)"

definition compare_operators ::
  "TreeNode list \<Rightarrow> TreeNode list list \<Rightarrow> (TreeNodeId, TreeNode) hmap" where
  "compare_operators coordinator_leaves operator_leaves_vec =
     foldl (\<lambda>m operator_leaves.
        hm_insert_all tn_id (\<lambda>l. l) (filter (missing_from operator_leaves) coordinator_leaves) m)
       [] operator_leaves_vec"

fun ignored_leaves ::
  "tree_env \<Rightarrow> TreeNode list \<Rightarrow> (TreeNodeId, TreeNode) hmap \<Rightarrow>
   TreeServiceError + (TreeNodeId, TreeNode) hmap" where
  "ignored_leaves env [] m = Ok m"
| "ignored_leaves env (leaf # ls) m =
     (if tn_status leaf \<noteq> Available then ignored_leaves env ls (hm_insert (tn_id leaf) leaf m)
      else rbind (map_err TreeSignerError (te_node_pubkey env (tn_id leaf))) (\<lambda>our_node_pubkey.
           rbind (ok_or (te_combine env our_node_pubkey (ks_public_key (signing_keyshare leaf)))
                    (Generic ''Failed to combine public keys'')) (\<lambda>combined_pubkey.
             ignored_leaves env ls
               (if combined_pubkey \<noteq> verifying_public_key leaf then hm_insert (tn_id leaf) leaf m else m))))"

fun first_error :: "('e + 'a) list \<Rightarrow> 'e + 'a list" where
  "first_error [] = Ok []"
| "first_error (x # xs) = rbind x (\<lambda>y. rbind (first_error xs) (\<lambda>ys. Ok (y # ys)))"

text \<open>The classification of the reported leaves into those for the pool and those missing from operators.\<close>

definition classify_leaves ::
  "tree_env \<Rightarrow> TreeServiceError + TreeNode list \<Rightarrow> (TreeServiceError + TreeNode list) list \<Rightarrow>
   TreeServiceError + (TreeNode list \<times> TreeNode list)" where
  "classify_leaves env coordinator_res operator_res =
     rbind coordinator_res (\<lambda>coordinator_leaves.
     rbind (first_error operator_res) (\<lambda>operator_leaves_vec.
     let missing = compare_operators coordinator_leaves operator_leaves_vec in
     rbind (ignored_leaves env coordinator_leaves []) (\<lambda>ignored.
       Ok (filter (\<lambda>l. \<not> hm_contains missing (tn_id l) \<and> \<not> hm_contains ignored (tn_id l)) coordinator_leaves,
           filter (\<lambda>l. \<not> hm_contains ignored (tn_id l)) (hm_values missing)))))"

definition refresh_leaves ::
  "tree_env \<Rightarrow> system_time \<Rightarrow> system_time \<Rightarrow> LeavesState \<Rightarrow>
   TreeServiceError + TreeNode list \<Rightarrow> (TreeServiceError + TreeNode list) list \<Rightarrow>
   (LeavesState \<times> (TreeServiceError + unit)) option" where
  "refresh_leaves env refresh_started_at now st coordinator_res operator_res =
     (case classify_leaves env coordinator_res operator_res of
        Err e \<Rightarrow> Some (st, Err e)
      | Ok (new_leaves, missing_operator_leaves) \<Rightarrow>
          map_option (\<lambda>x. case x of
              Ok refreshed_leaves \<Rightarrow>
                (process_set_leaves now st refreshed_leaves missing_operator_leaves refresh_started_at, Ok ())
            | Err e \<Rightarrow>
                ((case partial_nodes e of
                    Some nodes \<Rightarrow> process_set_leaves now st nodes missing_operator_leaves refresh_started_at
                  | None \<Rightarrow> st),
                 Err (renew_error env e)))
            (check_renew_nodes env new_leaves))"

definition with_reserved_leaves ::
  "turn \<Rightarrow> (LeavesState \<Rightarrow> LeavesState \<times> ('e + 'r)) \<Rightarrow> LeavesReservation \<Rightarrow> LeavesState \<Rightarrow>
   LeavesState \<times> ('e + 'r)" where
  "with_reserved_leaves t f leaves st =
     with_reserved (\<lambda>s i. process_finalize_reservation (tu_now t) (tu_now' t) s i None)
       process_cancel_reservation f (lr_id leaves) st"

section \<open>Lemmas on renewal\<close>

abbreviation due_nodes :: "renewals \<Rightarrow> TreeNode list" where
  "due_nodes r \<equiv> renewable_nodes r @ renewable_refunds r @ renewable_zero_timelock_nodes r"

definition due_status :: "TreeNode \<Rightarrow> bool" where
  "due_status n \<longleftrightarrow> needs_refund_tx_renewed n = Some (Ok True)"

lemma sort_node_spec:
  assumes "sort_node n r = Some (Ok r')"
  shows "(if due_status n
          then ready_nodes r' = ready_nodes r \<and> mset (due_nodes r') = add_mset n (mset (due_nodes r))
          else ready_nodes r' = ready_nodes r @ [n] \<and> mset (due_nodes r') = mset (due_nodes r)
             \<and> needs_refund_tx_renewed n = Some (Ok False))"
proof -
  obtain due where due: "needs_refund_tx_renewed n = Some (Ok due)"
    using assms by (cases "needs_refund_tx_renewed n"; cases "the (needs_refund_tx_renewed n)")
      (auto simp: sort_node_def)
  with assms show ?thesis
    by (cases due) (auto simp: sort_node_def due_status_def Let_def bind_eq_Some_conv split: if_splits)
qed

lemma sort_nodes_spec:
  assumes "sort_nodes nodes r = Some (Ok r')"
  shows "ready_nodes r' = ready_nodes r @ filter (\<lambda>n. \<not> due_status n) nodes
       \<and> mset (due_nodes r') = mset (due_nodes r) + mset (filter due_status nodes)
       \<and> (\<forall>n \<in> set nodes. \<not> due_status n \<longrightarrow> needs_refund_tx_renewed n = Some (Ok False))"
  using assms
proof (induction nodes arbitrary: r)
  case Nil
  then show ?case by simp
next
  case (Cons n nodes)
  obtain x where x: "sort_node n r = Some x" using Cons.prems by (cases "sort_node n r") auto
  with Cons.prems obtain r1 where r1: "sort_node n r = Some (Ok r1)" "sort_nodes nodes r1 = Some (Ok r')"
    by (cases x) auto
  from sort_node_spec [OF r1(1)] Cons.IH [OF r1(2)] show ?case by (auto split: if_splits)
qed

lemma collect_map:
  assumes "collect f xs = Ok ys" and "\<And>x y. x \<in> set xs \<Longrightarrow> f x = Ok y \<Longrightarrow> g y = h x"
  shows "map g ys = map h xs"
  using assms by (induction xs arbitrary: ys) auto

lemma collect_node_with_parent: "collect (node_with_parent m) xs = Ok ys \<Longrightarrow> map fst ys = xs"
  using collect_map [of "node_with_parent m" xs ys fst "\<lambda>x. x"] by (auto simp: node_with_parent_def)

text \<open>What the operators promise of a renewal: the renewed node is the same node.\<close>

definition renew_keeps_id :: "tree_env \<Rightarrow> bool" where
  "renew_keeps_id env \<longleftrightarrow>
     (\<forall>n p n'. te_renew_node env n p = Ok n' \<longrightarrow> tn_id n' = tn_id n)
     \<and> (\<forall>n p n'. te_renew_refund env n p = Ok n' \<longrightarrow> tn_id n' = tn_id n)
     \<and> (\<forall>n n'. te_renew_zero_timelock env n = Ok n' \<longrightarrow> tn_id n' = tn_id n)"

lemma renewed_ids:
  assumes "renew_keeps_id env"
  shows "collect (\<lambda>(n, p). te_renew_node env n p) ns = Ok ns' \<Longrightarrow> map tn_id ns' = map (tn_id \<circ> fst) ns"
    and "collect (\<lambda>(n, p). te_renew_refund env n p) ns = Ok ns' \<Longrightarrow> map tn_id ns' = map (tn_id \<circ> fst) ns"
    and "collect (te_renew_zero_timelock env) zs = Ok zs' \<Longrightarrow> map tn_id zs' = map tn_id zs"
  using assms unfolding renew_keeps_id_def by (auto intro!: collect_map)

section \<open>Properties\<close>

text \<open>Renewal loses no leaf: when the check succeeds, the returned nodes are the given ones, counted by
  identifier, the nodes that are not due are returned as they are, and the others are the answers of the
  operators.\<close>

theorem check_renew_keeps_leaves:
  assumes "renew_keeps_id env" and "check_renew_nodes env nodes = Some (Ok out)"
  shows "mset (map tn_id out) = mset (map tn_id nodes)
       \<and> (\<exists>renewed. out = filter (\<lambda>n. needs_refund_tx_renewed n = Some (Ok False)) nodes @ renewed)"
proof -
  from assms(2) obtain r where r: "sort_nodes nodes no_renewals = Some (Ok r)"
    by (auto simp: check_renew_nodes_def)
  note S = sort_nodes_spec [OF r, unfolded no_renewals_def, simplified]
  have rdy: "ready_nodes r = filter (\<lambda>n. needs_refund_tx_renewed n = Some (Ok False)) nodes"
    using S by (auto intro: filter_cong simp: due_status_def)
  have "\<exists>renewed. out = ready_nodes r @ renewed \<and> mset (map tn_id renewed) = mset (map tn_id (due_nodes r))"
  proof (cases "due_nodes r = []")
    case True
    with assms(2) r show ?thesis by (auto simp: check_renew_nodes_def)
  next
    case False
    with assms(2) r obtain m ns rs ns' rs' zs' where
      p: "collect (node_with_parent m) (renewable_nodes r) = Ok ns" "collect (node_with_parent m) (renewable_refunds r) = Ok rs"
      and "collect (\<lambda>(n, p). te_renew_node env n p) ns = Ok ns'"
        "collect (\<lambda>(n, p). te_renew_refund env n p) rs = Ok rs'"
        "collect (te_renew_zero_timelock env) (renewable_zero_timelock_nodes r) = Ok zs'"
      and out: "out = ready_nodes r @ ns' @ rs' @ zs'"
      by (auto simp: check_renew_nodes_def Let_def split: if_splits)
    then have "map tn_id (ns' @ rs' @ zs') =
        map tn_id (map fst ns @ map fst rs @ renewable_zero_timelock_nodes r)"
      using renewed_ids [OF assms(1)] by simp
    also have "map fst ns @ map fst rs @ renewable_zero_timelock_nodes r = due_nodes r"
      using collect_node_with_parent [OF p(1)] collect_node_with_parent [OF p(2)] by simp
    finally show ?thesis using out by (metis mset_map)
  qed
  then obtain renewed where out: "out = ready_nodes r @ renewed"
    "mset (map tn_id renewed) = image_mset tn_id (mset (due_nodes r))" by auto
  have "image_mset tn_id (mset (due_nodes r)) = image_mset tn_id (mset (filter due_status nodes))"
    using S by simp
  moreover have "filter_mset (\<lambda>n. \<not> due_status n) (mset nodes) + filter_mset due_status (mset nodes) = mset nodes"
    by (metis add.commute multiset_partition)
  ultimately have "mset (map tn_id out) = mset (map tn_id nodes)"
    using out S by (simp flip: image_mset_union)
  then show ?thesis using out rdy by blast
qed

definition service_sample_env :: tree_env where
  "service_sample_env = \<lparr>te_swap_leaves = (\<lambda>_ _. Ok [sample_leaf ''n'' 3 2000]), te_query_with_parents = (\<lambda>_. Ok []),
     te_renew_node = (\<lambda>n _. Ok n), te_renew_refund = (\<lambda>n _. Ok n),
     te_renew_zero_timelock = (\<lambda>n. Ok (sample_leaf (tn_id n) (tn_value n) 2000)),
     te_node_pubkey = (\<lambda>i. Ok ''ours''), te_combine = (\<lambda>a b. Some ''vk''), te_debug = (\<lambda>_. ''error'')\<rparr>"

theorem check_renew_keeps_leaves_witness:
  "\<exists>out. check_renew_nodes service_sample_env [sample_leaf ''a'' 4 2000, sample_leaf ''b'' 2 0] = Some (Ok out)
     \<and> mset (map tn_id out) = {#''a'', ''b''#}"
proof -
  let ?ns = "[sample_leaf ''a'' 4 2000, sample_leaf ''b'' 2 0]"
  obtain out where o: "check_renew_nodes service_sample_env ?ns = Some (Ok out)"
    by (simp add: check_renew_nodes_def sort_node_def needs_refund_tx_renewed_def refund_sequence_def
        sample_leaf_def first_sequence_def Let_def is_zero_timelock_def node_sequence_def no_renewals_def
        word_le_nat_alt service_sample_env_def)
  have "renew_keeps_id service_sample_env" by (simp add: renew_keeps_id_def service_sample_env_def)
  from check_renew_keeps_leaves [OF this o] o show ?thesis by auto
qed

text \<open>A leaf the wallet can spend: available, and its verifying key is the sum of the wallet's key for the
  node and the operators' key.\<close>

definition acceptable :: "tree_env \<Rightarrow> TreeNode \<Rightarrow> bool" where
  "acceptable env l \<longleftrightarrow>
     tn_status l = Available
     \<and> (\<exists>p. te_node_pubkey env (tn_id l) = Ok p
            \<and> te_combine env p (ks_public_key (signing_keyshare l)) = Some (verifying_public_key l))"

lemma compare_operators_snoc:
  "compare_operators cl (ops @ [ol]) =
     hm_insert_all tn_id (\<lambda>l. l) (filter (missing_from ol) cl) (compare_operators cl ops)"
  by (simp add: compare_operators_def)

lemma compare_operators_ok: "hm_ok (compare_operators cl ops)"
  by (induction ops rule: rev_induct) (simp add: compare_operators_def, simp add: compare_operators_snoc)

lemma compare_operators_contains:
  "hm_contains (compare_operators cl ops) k \<longleftrightarrow> (\<exists>ol \<in> set ops. \<exists>l \<in> set cl. tn_id l = k \<and> missing_from ol l)"
proof (induction ops rule: rev_induct)
  case Nil
  then show ?case by (simp add: compare_operators_def hm_contains_def)
next
  case (snoc ol ops)
  have "hm_contains (compare_operators cl (ops @ [ol])) k \<longleftrightarrow>
      k \<in> ids_of (filter (missing_from ol) cl) \<or> hm_contains (compare_operators cl ops) k"
    by (simp add: compare_operators_snoc hm_contains_keys)
  with snoc show ?case by auto
qed

lemma compare_operators_get:
  "hm_get (compare_operators cl ops) k = Some l \<Longrightarrow> l \<in> set cl \<and> tn_id l = k"
proof (induction ops rule: rev_induct)
  case Nil
  then show ?case by (simp add: compare_operators_def)
next
  case (snoc ol ops)
  let ?f = "filter (missing_from ol) cl" and ?m = "compare_operators cl ops"
  show ?case
  proof (cases "k \<in> ids_of ?f")
    case True
    with hm_get_insert_all_in [OF True, of "\<lambda>l. l" ?m] snoc.prems show ?thesis
      by (auto simp: compare_operators_snoc)
  next
    case False
    then have "hm_get ?m k = Some l"
      using snoc.prems hm_get_insert_all_notin [OF False, of "\<lambda>l. l" ?m] by (simp only: compare_operators_snoc)
    then show ?thesis by (rule snoc.IH)
  qed
qed

lemma ignored_leaves_spec:
  assumes "ignored_leaves env ls m = Ok m'"
  shows "hm_contains m' k \<longleftrightarrow> hm_contains m k \<or> (\<exists>l \<in> set ls. tn_id l = k \<and> \<not> acceptable env l)"
  using assms
proof (induction ls arbitrary: m)
  case Nil
  then show ?case by simp
next
  case (Cons l ls)
  show ?case
  proof (cases "tn_status l = Available")
    case False
    with Cons show ?thesis by (auto simp: hm_contains_keys acceptable_def)
  next
    case True
    from Cons.prems True obtain p where p: "te_node_pubkey env (tn_id l) = Ok p"
      by (cases "te_node_pubkey env (tn_id l)") (simp_all add: map_err_def)
    with Cons.prems True obtain c where c: "te_combine env p (ks_public_key (signing_keyshare l)) = Some c"
      by (cases "te_combine env p (ks_public_key (signing_keyshare l))") (simp_all add: map_err_def ok_or_def)
    with Cons.prems True p
    have i: "ignored_leaves env ls (if c \<noteq> verifying_public_key l then hm_insert (tn_id l) l m else m) = Ok m'"
      by (simp add: map_err_def ok_or_def)
    from True p c have "acceptable env l \<longleftrightarrow> c = verifying_public_key l" by (simp add: acceptable_def)
    with Cons.IH [OF i] show ?thesis by (auto simp: hm_contains_keys)
  qed
qed

lemma first_error_Ok: "first_error xs = Ok ys \<longleftrightarrow> xs = map Ok ys"
  by (induction xs arbitrary: ys) (auto simp: Cons_eq_map_conv)

text \<open>A refresh trusts no single operator: a leaf the coordinator reports goes to the spendable pool exactly
  when it is available, its keys add up, and every other operator reports the same leaf with the same
  status, key and transactions; leaves that only fail the last test are kept apart as missing.\<close>

theorem classify_leaves_iff:
  assumes "distinct (map tn_id coordinator_leaves)"
    and "classify_leaves env (Ok coordinator_leaves) operator_res = Ok (new, missing)"
  shows "\<exists>ops. operator_res = map Ok ops
     \<and> set new = {l \<in> set coordinator_leaves. acceptable env l \<and> (\<forall>ol \<in> set ops. \<not> missing_from ol l)}
     \<and> set missing = {l \<in> set coordinator_leaves. acceptable env l \<and> (\<exists>ol \<in> set ops. missing_from ol l)}
     \<and> ids_of new \<inter> ids_of missing = {}"
proof -
  let ?cl = "coordinator_leaves"
  from assms(2) obtain ops ign where ops: "operator_res = map Ok ops"
    and ign: "ignored_leaves env ?cl [] = Ok ign"
    and new: "new = filter (\<lambda>l. \<not> hm_contains (compare_operators ?cl ops) (tn_id l) \<and> \<not> hm_contains ign (tn_id l)) ?cl"
    and mis: "missing = filter (\<lambda>l. \<not> hm_contains ign (tn_id l)) (hm_values (compare_operators ?cl ops))"
    by (auto simp: classify_leaves_def Let_def first_error_Ok)
  have uniq: "l = l'" if "l \<in> set ?cl" "l' \<in> set ?cl" "tn_id l = tn_id l'" for l l'
    using that assms(1) by (auto simp: distinct_map inj_on_def)
  have I: "hm_contains ign (tn_id l) \<longleftrightarrow> \<not> acceptable env l" if "l \<in> set ?cl" for l
    using ignored_leaves_spec [OF ign, of "tn_id l"] that uniq by (auto simp: hm_contains_def)
  have M: "hm_contains (compare_operators ?cl ops) (tn_id l) \<longleftrightarrow> (\<exists>ol \<in> set ops. missing_from ol l)" if "l \<in> set ?cl" for l
    using compare_operators_contains [of ?cl ops "tn_id l"] that uniq by blast
  have V: "l \<in> set (hm_values (compare_operators ?cl ops)) \<longleftrightarrow> l \<in> set ?cl \<and> (\<exists>ol \<in> set ops. missing_from ol l)" for l
  proof
    assume "l \<in> set (hm_values (compare_operators ?cl ops))"
    then obtain k where k: "hm_get (compare_operators ?cl ops) k = Some l"
      by (auto simp: hm_values_iff [OF compare_operators_ok])
    from compare_operators_get [OF k] have "l \<in> set ?cl" "tn_id l = k" by auto
    with k M [of l] show "l \<in> set ?cl \<and> (\<exists>ol \<in> set ops. missing_from ol l)" by (simp add: hm_contains_iff)
  next
    assume l: "l \<in> set ?cl \<and> (\<exists>ol \<in> set ops. missing_from ol l)"
    then obtain l' where l': "hm_get (compare_operators ?cl ops) (tn_id l) = Some l'"
      using M [of l] by (auto simp: hm_contains_iff)
    from compare_operators_get [OF l'] uniq [of l l'] l have "l' = l" by simp
    with l' show "l \<in> set (hm_values (compare_operators ?cl ops))"
      by (auto simp: hm_values_iff [OF compare_operators_ok])
  qed
  have "set new = {l \<in> set ?cl. acceptable env l \<and> (\<forall>ol \<in> set ops. \<not> missing_from ol l)}"
    using I M by (auto simp: new)
  moreover have "set missing = {l \<in> set ?cl. acceptable env l \<and> (\<exists>ol \<in> set ops. missing_from ol l)}"
    using I V by (auto simp: mis)
  moreover have "ids_of new \<inter> ids_of missing = {}"
    using calculation uniq by (auto; metis)
  ultimately show ?thesis using ops by blast
qed

theorem classify_leaves_iff_witness:
  "\<exists>new missing. classify_leaves service_sample_env (Ok [sample_leaf ''a'' 4 0, sample_leaf ''b'' 2 0]) [Ok [sample_leaf ''a'' 4 0]]
       = Ok (new, missing)
     \<and> sample_leaf ''a'' 4 0 \<in> set new \<and> sample_leaf ''b'' 2 0 \<in> set missing"
proof -
  let ?a = "sample_leaf ''a'' 4 0" and ?b = "sample_leaf ''b'' 2 0"
  have key: "ks_public_key (signing_keyshare (sample_leaf i v s)) = ''ks''"
    "verifying_public_key (sample_leaf i v s) = ''vk''" for i v s
    by (simp_all add: sample_leaf_def Let_def)
  obtain new missing where c: "classify_leaves service_sample_env (Ok [?a, ?b]) [Ok [?a]] = Ok (new, missing)"
    by (simp add: classify_leaves_def Let_def service_sample_env_def map_err_def ok_or_def key)
  have "missing_from [?a] ?b" "\<not> missing_from [?a] ?a" "acceptable service_sample_env ?a" "acceptable service_sample_env ?b"
    by (simp_all add: missing_from_def leaf_mismatch_def acceptable_def service_sample_env_def key)
  note facts = this
  have "distinct (map tn_id [?a, ?b])" by simp
  from classify_leaves_iff [OF this c] obtain ops where ops: "[Ok [?a]] = map (Ok :: _ \<Rightarrow> TreeServiceError + _) ops
      \<and> set new = {l \<in> set [?a, ?b]. acceptable service_sample_env l \<and> (\<forall>ol \<in> set ops. \<not> missing_from ol l)}
      \<and> set missing = {l \<in> set [?a, ?b]. acceptable service_sample_env l \<and> (\<exists>ol \<in> set ops. missing_from ol l)}
      \<and> ids_of new \<inter> ids_of missing = {}" by (rule exE)
  then have "ops = [[?a]]" by (simp add: map_eq_Cons_conv eq_commute [of "[_]"])
  with ops facts have "?a \<in> set new" "?b \<in> set missing" by simp_all
  with c show ?thesis by blast
qed

section \<open>The scope of a reservation\<close>

definition reserved_in :: "LeavesState \<Rightarrow> LeavesReservationId \<Rightarrow> TreeNodeId list option" where
  "reserved_in st i = map_option (\<lambda>e. map stored_id (re_leaves e)) (hm_get (leaves_reservations st) i)"

definition pooled_in :: "LeavesState \<Rightarrow> TreeNodeId \<Rightarrow> bool" where
  "pooled_in st k = hm_contains (st_leaves st) k"

lemma cancel_pool_keys:
  "hm_get (leaves_reservations st) i = Some e \<Longrightarrow>
     set (hm_keys (st_leaves (process_cancel_reservation st i))) =
       stored_id ` set (re_leaves e) \<union> set (hm_keys (st_leaves st))"
  by (simp add: process_cancel_reservation_def)

lemma cancel_reservations:
  "leaves_reservations (process_cancel_reservation st i) = hm_remove i (leaves_reservations st)"
  by (auto simp: process_cancel_reservation_def hm_remove_notin hm_get_None_iff split: option.split)

lemma finalize_reservations:
  "leaves_reservations (process_finalize_reservation now now' st i new) = hm_remove i (leaves_reservations st)"
  by (auto simp: process_finalize_reservation_def Let_def hm_remove_notin hm_get_None_iff split: option.split)

lemma finalize_pool: "st_leaves (process_finalize_reservation now now' st i None) = st_leaves st"
  by (simp add: process_finalize_reservation_def Let_def split: option.split)

interpretation tree_scope: reservation_store store_inv reserved_in pooled_in process_cancel_reservation
  "\<lambda>s i. process_finalize_reservation now now' s i None" for now now'
proof
  fix s i j and xs :: "TreeNodeId list" and x
  assume inv: "store_inv s"
  show "store_inv (process_cancel_reservation s i)" using inv by (rule store_inv_cancel)
  show "store_inv (process_finalize_reservation now now' s i None)" using inv by (rule store_inv_finalize) simp
  show "reserved_in (process_cancel_reservation s i) j = (if j = i then None else reserved_in s j)"
    by (simp add: reserved_in_def cancel_reservations)
  show "reserved_in (process_finalize_reservation now now' s i None) j = (if j = i then None else reserved_in s j)"
    by (simp add: reserved_in_def finalize_reservations)
  assume r: "reserved_in s i = Some xs"
  then obtain e where e: "hm_get (leaves_reservations s) i = Some e" "xs = map stored_id (re_leaves e)"
    by (auto simp: reserved_in_def)
  show "pooled_in (process_cancel_reservation s i) x = (x \<in> set xs \<or> pooled_in s x)"
    using e by (simp add: pooled_in_def hm_contains_keys cancel_pool_keys)
  show "pooled_in (process_finalize_reservation now now' s i None) x = pooled_in s x"
    by (simp add: pooled_in_def finalize_pool)
  assume "x \<in> set xs"
  then show "\<not> pooled_in s x"
    using inv e reserved_ids_remove_set [OF _ e(1)] by (auto simp: store_inv_def pooled_in_def hm_contains_keys)
qed

text \<open>A payment under a reservation always gives the reservation back: whatever the payment returns, the
  reservation is gone afterwards and the others are untouched; the reserved leaves return to the pool
  exactly when the payment failed.\<close>

theorem with_reserved_leaves_releases:
  assumes "f st = (st1, r)" and "store_inv st1" and "hm_get (leaves_reservations st1) (lr_id res) = Some e"
    and "with_reserved_leaves t f res st = (st2, r')"
  shows "store_inv st2 \<and> r' = r
       \<and> hm_get (leaves_reservations st2) (lr_id res) = None
       \<and> (hm_contains (st_leaves st2) k \<longleftrightarrow>
            hm_contains (st_leaves st1) k \<or> (k \<in> (\<lambda>s. tn_id (sl_node s)) ` set (re_leaves e) \<and> \<not> is_ok r))"
  using tree_scope.scope_releases [where f = f and s = st, OF assms(1,2), of "tu_now t" "tu_now' t" "lr_id res" st2 r']
    tree_scope.scope_pool [where f = f and s = st, OF assms(1,2),
      of "lr_id res" "map stored_id (re_leaves e)" "tu_now t" "tu_now' t" st2 r' k]
    assms(3,4)
  by (auto simp: with_reserved_leaves_def reserved_in_def pooled_in_def)

theorem with_reserved_leaves_releases_witness:
  "let st = default_leaves_state\<lparr>leaves_reservations :=
        [(''r1'', \<lparr>re_leaves = [\<lparr>sl_node = sample_leaf ''a'' 4 0, added_at = 5\<rparr>], re_purpose = Payment,
                  pending_change_amount = 0\<rparr>)]\<rparr>;
       st2 = fst (with_reserved_leaves sample_turn (\<lambda>s. (s, Err ''declined'' :: string + unit))
                   (new_reservation [] ''r1'') st)
   in hm_get (leaves_reservations st2) ''r1'' = None \<and> hm_contains (st_leaves st2) ''a''"
proof -
  let ?e = "\<lparr>re_leaves = [\<lparr>sl_node = sample_leaf ''a'' 4 0, added_at = 5\<rparr>], re_purpose = Payment,
                  pending_change_amount = 0\<rparr>"
  let ?st = "default_leaves_state\<lparr>leaves_reservations := [(''r1'', ?e)]\<rparr>"
  let ?f = "\<lambda>s. (s, Err ''declined'' :: string + unit)"
  have "store_inv ?st"
    by (simp add: store_inv_def default_leaves_state_def reserved_ids_Cons hm_ok_def)
  from with_reserved_leaves_releases [of ?f ?st ?st "Err ''declined''" "new_reservation [] ''r1''" ?e sample_turn _ _ "''a''",
      OF refl this] show ?thesis unfolding Let_def
    by (cases "with_reserved_leaves sample_turn ?f (new_reservation [] ''r1'') ?st")
      (simp add: new_reservation_def hm_get_def)
qed

section \<open>Selection\<close>

lemma add_partial_reservations [simp]: "leaves_reservations (add_partial now e st) = leaves_reservations st"
  by (simp add: add_partial_def split: option.split)

lemma renew_reservation_cases:
  assumes "renew_reservation_timelocks env now st r = Some (st', x)"
  obtains (renewed) nodes where "st' = st" "x = Ok (new_reservation nodes (lr_id r))"
      "check_renew_nodes env (lr_leaves r) = Some (Ok nodes)"
  | (failed) e where "x = Err (renew_error env e)"
      "leaves_reservations st' = hm_remove (lr_id r) (leaves_reservations st)"
proof -
  from assms obtain y where y: "check_renew_nodes env (lr_leaves r) = Some y"
    by (auto simp: renew_reservation_timelocks_def)
  show ?thesis
  proof (cases y)
    case (Inl e)
    with assms y show ?thesis
      by (intro failed [of e]) (auto simp: renew_reservation_timelocks_def cancel_reservations)
  next
    case (Inr nodes)
    with assms y show ?thesis by (intro renewed [of nodes]) (auto simp: renew_reservation_timelocks_def)
  qed
qed

lemma perform_swap_cases:
  assumes "perform_swap_and_update_reservation env t st r ta = Some (st', x)"
    and "hm_get (leaves_reservations st) (lr_id r) = Some e0"
  obtains (no_swap) e where "swap_leaves_internal env (lr_leaves r) ta = Some (Err e)" "x = Err e"
      "st' = process_cancel_reservation st (lr_id r)"
  | (unselectable) new e where "swap_leaves_internal env (lr_leaves r) ta = Some (Ok new)"
      "select_leaves_by_target_amounts new ta = Err e" "x = Err e" "st' = st"
  | (swapped) new tl where "swap_leaves_internal env (lr_leaves r) ta = Some (Ok new)"
      "select_leaves_by_target_amounts new ta = Ok tl"
      "x = Ok (new_reservation (selected_leaves tl) (lr_id r))"
      "(st', x) = process_update_reservation (tu_now t) st (lr_id r) (selected_leaves tl)
         (filter (\<lambda>l. tn_id l \<notin> ids_of (selected_leaves tl)) new)"
proof -
  from assms(1) obtain sw where sw: "swap_leaves_internal env (lr_leaves r) ta = Some sw"
    by (auto simp: perform_swap_and_update_reservation_def)
  show ?thesis
  proof (cases sw)
    case (Inl e)
    with assms(1) sw show ?thesis by (intro no_swap) (auto simp: perform_swap_and_update_reservation_def)
  next
    case (Inr new)
    show ?thesis
    proof (cases "select_leaves_by_target_amounts new ta")
      case (Inl e)
      with assms(1) sw Inr show ?thesis
        by (intro unselectable [of new e]) (auto simp: perform_swap_and_update_reservation_def)
    next
      case sel: (Inr tl)
      with assms sw Inr show ?thesis
        by (intro swapped [of new tl])
          (auto simp: perform_swap_and_update_reservation_def process_update_reservation_def Let_def comp_def)
    qed
  qed
qed

text \<open>C39. When finishing a selection fails, the reservation is released, with one exception: after a swap that
  succeeded, if the new leaves cannot be matched to the target, the error is returned while the reservation
  of the consumed leaves, and its permit, stay in the store.\<close>

theorem failed_selection_keeps_reservation_iff:
  assumes "hm_get (leaves_reservations st) (lr_id r) = Some e0"
    and "finish_selection env t st r ta = Some (st', Err e)"
  shows "hm_contains (leaves_reservations st') (lr_id r) \<longleftrightarrow>
           (\<exists>nodes new. check_renew_nodes env (lr_leaves r) = Some (Ok nodes)
              \<and> \<not> reservation_matches_target (new_reservation nodes (lr_id r)) ta
              \<and> swap_leaves_internal env nodes ta = Some (Ok new)
              \<and> select_leaves_by_target_amounts new ta = Err e)"
proof -
  from assms(2) obtain st1 x where R: "renew_reservation_timelocks env (tu_now t) st r = Some (st1, x)"
    by (auto simp: finish_selection_def bind_eq_Some_conv)
  from R show ?thesis
  proof (cases rule: renew_reservation_cases)
    case (failed e1)
    then have "leaves_reservations st' = hm_remove (lr_id r) (leaves_reservations st)"
      using assms(2) R by (auto simp: finish_selection_def)
    moreover have "check_renew_nodes env (lr_leaves r) \<noteq> Some (Ok nodes)" for nodes
      using failed R by (auto simp: renew_reservation_timelocks_def)
    ultimately show ?thesis by (simp add: hm_contains_iff)
  next
    case (renewed nodes)
    let ?r = "new_reservation nodes (lr_id r)"
    from renewed R assms(2) have nm: "\<not> reservation_matches_target ?r ta"
      and P: "perform_swap_and_update_reservation env t st ?r ta = Some (st', Err e)"
      by (auto simp: finish_selection_def split: if_splits)
    have r: "lr_leaves ?r = nodes" "lr_id ?r = lr_id r" by (simp_all add: new_reservation_def)
    from assms(1) have "hm_get (leaves_reservations st) (lr_id ?r) = Some e0" by (simp add: r)
    from P this show ?thesis
    proof (cases rule: perform_swap_cases)
      case (no_swap e)
      with r renewed show ?thesis by (simp add: hm_contains_iff cancel_reservations)
    next
      case (unselectable new e)
      with r renewed nm assms(1) show ?thesis by (auto simp: hm_contains_iff)
    next
      case (swapped new tl)
      then show ?thesis by simp
    qed
  qed
qed

lemma sample_not_due [simp]:
  "check_renew_nodes service_sample_env [sample_leaf i v 2000] = Some (Ok [sample_leaf i v 2000])"
  by (simp add: check_renew_nodes_def sort_node_def needs_refund_tx_renewed_def refund_sequence_def
      sample_leaf_def first_sequence_def Let_def no_renewals_def word_le_nat_alt)

lemma sample_swap: "te_swap_leaves service_sample_env ls ts = Ok [sample_leaf ''n'' 3 2000]"
  by (simp add: service_sample_env_def)

theorem failed_selection_keeps_reservation_iff_witness:
  "let st = default_leaves_state\<lparr>leaves_reservations :=
        [(''r1'', \<lparr>re_leaves = [\<lparr>sl_node = sample_leaf ''a'' 4 2000, added_at = 5\<rparr>], re_purpose = Payment,
                  pending_change_amount = 2\<rparr>)]\<rparr>
   in \<exists>st' e. finish_selection service_sample_env sample_turn st (new_reservation [sample_leaf ''a'' 4 2000] ''r1'')
             (Some (AmountAndFee 2 None)) = Some (st', Err e)
         \<and> hm_contains (leaves_reservations st') ''r1''"
proof -
  let ?e = "\<lparr>re_leaves = [\<lparr>sl_node = sample_leaf ''a'' 4 2000, added_at = 5\<rparr>], re_purpose = Payment,
                  pending_change_amount = 2\<rparr>"
  let ?st = "default_leaves_state\<lparr>leaves_reservations := [(''r1'', ?e)]\<rparr>"
  let ?r = "new_reservation [sample_leaf ''a'' 4 2000] ''r1''" and ?ta = "Some (AmountAndFee 2 None)"
  have r: "lr_leaves ?r = [sample_leaf ''a'' 4 2000]" "lr_id ?r = ''r1''" by (simp_all add: new_reservation_def)
  have m: "\<not> reservation_matches_target ?r ?ta"
    by (simp add: reservation_matches_target_def reservation_sum_def r leaves_sum_def wsum_def)
  have sw: "swap_leaves_internal service_sample_env [sample_leaf ''a'' 4 2000] ?ta = Some (Ok [sample_leaf ''n'' 3 2000])"
    by (simp add: swap_leaves_internal_def map_err_def sample_swap)
  have sel: "select_leaves_by_target_amounts [sample_leaf ''n'' 3 2000] ?ta = Err UnselectableAmount"
    by (simp add: select_leaves_by_target_amounts_def select_leaves_by_exact_amount_def leaves_sum_def wsum_def
        find_exact_single_match_def find_exact_multiple_match_def greedy_exact_match_def Let_def ok_or_def)
  have f: "finish_selection service_sample_env sample_turn ?st ?r ?ta = Some (?st, Err UnselectableAmount)"
    using m sw sel by (simp add: finish_selection_def renew_reservation_timelocks_def r
        perform_swap_and_update_reservation_def)
  have "hm_get (leaves_reservations ?st) (lr_id ?r) = Some ?e" by (simp add: hm_get_def r)
  from failed_selection_keeps_reservation_iff [OF this f] m sw sel f show ?thesis
    by (auto simp: Let_def r)
qed

text \<open>What the service provider promises of a swap.\<close>

definition swap_sane :: "tree_env \<Rightarrow> TargetAmounts \<Rightarrow> bool" where
  "swap_sane env ta \<longleftrightarrow>
     (\<forall>ls out. swap_leaves_internal env ls (Some ta) = Some (Ok out) \<longrightarrow>
        distinct (map tn_id out) \<and> sum_list (values_of out) < 2 ^ 64)"

lemma finish_selection_exact:
  assumes "finish_selection env t st r (Some ta) = Some (st', Ok r')" and "swap_sane env ta"
    and "0 < total_sats ta" and "hm_get (leaves_reservations st) (lr_id r) = Some e0"
  shows "reservation_sum r' = total_sats ta \<and> lr_id r' = lr_id r \<and> hm_contains (leaves_reservations st') (lr_id r)"
proof -
  from assms(1) obtain st1 x where R: "renew_reservation_timelocks env (tu_now t) st r = Some (st1, x)"
    by (auto simp: finish_selection_def bind_eq_Some_conv)
  from R show ?thesis
  proof (cases rule: renew_reservation_cases)
    case (failed e1)
    with assms(1) R show ?thesis by (auto simp: finish_selection_def)
  next
    case (renewed nodes)
    let ?r = "new_reservation nodes (lr_id r)"
    have id: "lr_id ?r = lr_id r" by (simp add: new_reservation_def)
    show ?thesis
    proof (cases "reservation_matches_target ?r (Some ta)")
      case True
      with assms R renewed show ?thesis
        by (auto simp: finish_selection_def reservation_matches_target_def id hm_contains_iff)
    next
      case False
      with assms(1) R renewed have P: "perform_swap_and_update_reservation env t st ?r (Some ta) = Some (st', Ok r')"
        by (auto simp: finish_selection_def)
      have "hm_get (leaves_reservations st) (lr_id ?r) = Some e0" using assms(4) by (simp only: id)
      from P this show ?thesis
      proof (cases rule: perform_swap_cases)
        case (swapped new tl)
        from assms(2) swapped(1) have ok: "distinct (map tn_id new)" "sum_list (values_of new) < 2 ^ 64"
          by (auto simp: swap_sane_def)
        note sum = exact_target_sum [OF swapped(2) ok]
        have "total_sats ta < 2 ^ 64" using wadd_bound [of 64] wsum_bound [of 64] by (cases ta) simp_all
        with sum swapped(3,4) assms(4) show ?thesis
          by (auto simp: reservation_sum_def new_reservation_def leaves_sum_exact process_update_reservation_def
              Let_def hm_contains_iff split: option.splits)
      qed simp_all
    qed
  qed
qed

text \<open>C8. A selection that returns a reservation covers the target exactly: the leaves of the result sum to the
  amount, whether they matched at once or after a swap, and the reservation is in the store. A swap is
  assumed to return distinct leaves whose sum fits 64 bits, and the other tasks to keep the invariant.\<close>

theorem select_leaves_exact:
  assumes "select_leaves env (Some ta) purpose max_wait as st = Some (st', Some (Ok r))"
    and "store_inv st" and "\<forall>a \<in> set as. \<forall>s. store_inv s \<longrightarrow> store_inv (at_others a s)"
    and "swap_sane env ta" and "0 < total_sats ta"
  shows "reservation_sum r = total_sats ta \<and> hm_contains (leaves_reservations st') (lr_id r)"
  using assms
proof (induction as arbitrary: st)
  case Nil
  then show ?case by simp
next
  case (Cons a as)
  obtain st1 x where E: "process_try_reserve_leaves (tu_id (at_turn a)) st (Some ta) False purpose = (st1, x)"
    by fastforce
  have finish: ?case
    if "x = Ok (Success (new_reservation sel (tu_id (at_turn a))))" "reserved_as (tu_id (at_turn a)) sel purpose c st st1"
    for sel c
  proof -
    let ?r = "new_reservation sel (tu_id (at_turn a))"
    from that(2) obtain e0 where e0: "hm_get (leaves_reservations st1) (lr_id ?r) = Some e0"
      by (auto simp: reserved_as_def new_reservation_def)
    from Cons.prems(1) E that(1) obtain st2 where
      "finish_selection env (at_turn a) st1 ?r (Some ta) = Some (st2, Ok r)" "st' = st2" by auto
    with finish_selection_exact [OF _ Cons.prems(4,5) e0] show ?thesis by (auto simp: new_reservation_def)
  qed
  from Cons.prems(2) E show ?case
  proof (cases rule: try_reserve_outcomes)
    case (unmatched e)
    show ?thesis
    proof (cases "wait_for_pending_balance a max_wait")
      case (Inl e')
      with Cons.prems(1) E unmatched show ?thesis by (auto simp: wait_or_insufficient_def split: if_splits)
    next
      case (Inr u)
      with Cons.prems(1) E unmatched have "select_leaves env (Some ta) purpose max_wait as (at_others a st) = Some (st', Some (Ok r))"
        by (auto simp: wait_or_insufficient_def split: if_splits)
      with Cons.IH Cons.prems show ?thesis by simp
    qed
  qed (use finish Cons.prems(1) E in auto)
qed

theorem select_leaves_exact_witness:
  "\<exists>st' r. select_leaves service_sample_env (Some (AmountAndFee 4 None)) Payment 0
       [\<lparr>at_turn = sample_turn, at_elapsed = 0, at_event = WaitTimeout, at_others = (\<lambda>s. s)\<rparr>]
       (process_add_leaves 1 default_leaves_state [sample_leaf ''a'' 4 2000]) = Some (st', Some (Ok r))
     \<and> reservation_sum r = 4 \<and> hm_contains (leaves_reservations st') (lr_id r)"
proof -
  let ?st = "process_add_leaves 1 default_leaves_state [sample_leaf ''a'' 4 2000]"
  let ?ta = "AmountAndFee 4 None"
  let ?as = "[\<lparr>at_turn = sample_turn, at_elapsed = 0, at_event = WaitTimeout, at_others = (\<lambda>s. s)\<rparr>]"
  have inv: "store_inv ?st" using store_inv_default
    by (rule store_inv_add) (simp add: default_leaves_state_def)
  have av: "available_nodes ?st = [sample_leaf ''a'' 4 2000]"
    by (simp add: available_nodes_def default_leaves_state_def Let_def hm_insert_def hm_values_def)
  have sel: "select_leaves_by_target_amounts [sample_leaf ''a'' 4 2000] (Some ?ta) =
      Ok (new_target_leaves [sample_leaf ''a'' 4 2000] None)"
    by (simp add: select_leaves_by_target_amounts_def select_leaves_by_exact_amount_def leaves_sum_def wsum_def
        find_exact_single_match_def)
  from exact_match_reserves [OF inv, of "Some ?ta" _ "''r1''" False Payment] sel av
  obtain st1 where E: "process_try_reserve_leaves ''r1'' ?st (Some ?ta) False Payment =
      (st1, Ok (Success (new_reservation [sample_leaf ''a'' 4 2000] ''r1'')))"
    by (fastforce simp: selected_leaves_def new_target_leaves_def)
  have m: "reservation_matches_target (new_reservation [sample_leaf ''a'' 4 2000] ''r1'') (Some ?ta)"
    using sel by (simp add: reservation_matches_target_def reservation_sum_def new_reservation_def leaves_sum_def wsum_def)
  then have S: "select_leaves service_sample_env (Some ?ta) Payment 0 ?as ?st =
      Some (st1, Some (Ok (new_reservation [sample_leaf ''a'' 4 2000] ''r1'')))"
    using E by (simp add: sample_turn_def finish_selection_def renew_reservation_timelocks_def new_reservation_def
        del: process_add_leaves.simps)
  have "swap_sane service_sample_env ?ta"
    by (simp add: swap_sane_def swap_leaves_internal_def sample_swap map_err_def)
  from select_leaves_exact [OF S inv _ this] S show ?thesis by auto
qed

lemma finish_selection_returns:
  assumes "\<nexists>nodes. check_renew_nodes env nodes = None"
  shows "finish_selection env t s r ta \<noteq> None"
proof -
  have c: "\<exists>x. check_renew_nodes env nodes = Some x" for nodes using assms by (metis not_None_eq)
  have "\<exists>y. swap_leaves_internal env ls ta = Some y" for ls
    using c by (cases "te_swap_leaves env ls (map_option swap_targets ta)") (auto simp: swap_leaves_internal_def)
  then have p: "perform_swap_and_update_reservation env t s' r' ta \<noteq> None" for s' r'
    by (simp add: perform_swap_and_update_reservation_def)
  obtain s1 x where "renew_reservation_timelocks env (tu_now t) s r = Some (s1, x)"
    using c [of "lr_leaves r"] by (metis (no_types, lifting) option.simps(9) prod.exhaust renew_reservation_timelocks_def)
  with p show ?thesis by (cases x) (auto simp: finish_selection_def)
qed



text \<open>A swap can consume the leaves and the selection still put them back in the pool: when the swap succeeds
  and the timelock check of the new leaves fails, the reservation is cancelled and all its leaves, which
  the swap has spent, are selectable again.\<close>

theorem swap_then_failed_renewal_returns_spent_leaves:
  assumes "hm_get (leaves_reservations st) (lr_id r) = Some e0" and "lr_leaves r \<noteq> []"
    and "te_swap_leaves env (lr_leaves r) (map_option swap_targets ta) = Ok claimed"
    and "check_renew_nodes env claimed = Some (Err e)"
  shows "\<exists>st'. perform_swap_and_update_reservation env t st r ta = Some (st', Err (renew_error env e))
           \<and> (\<lambda>s. tn_id (sl_node s)) ` set (re_leaves e0) \<subseteq> set (hm_keys (st_leaves st'))"
  using assms cancel_pool_keys [OF assms(1)]
  by (auto simp: perform_swap_and_update_reservation_def swap_leaves_internal_def map_err_def)

theorem swap_then_failed_renewal_returns_spent_leaves_witness:
  "let st = default_leaves_state\<lparr>leaves_reservations :=
        [(''r1'', \<lparr>re_leaves = [\<lparr>sl_node = sample_leaf ''a'' 4 2000, added_at = 5\<rparr>], re_purpose = Payment,
                  pending_change_amount = 2\<rparr>)]\<rparr>;
       env = service_sample_env\<lparr>te_swap_leaves := (\<lambda>_ _. Ok [(sample_leaf ''n'' 2 0)\<lparr>refund_tx := None\<rparr>])\<rparr>
   in \<exists>st' e. perform_swap_and_update_reservation env sample_turn st (new_reservation [sample_leaf ''a'' 4 2000] ''r1'')
             None = Some (st', Err e) \<and> ''a'' \<in> set (hm_keys (st_leaves st'))"
proof -
  let ?e = "\<lparr>re_leaves = [\<lparr>sl_node = sample_leaf ''a'' 4 2000, added_at = 5\<rparr>], re_purpose = Payment,
                  pending_change_amount = 2\<rparr>"
  let ?st = "default_leaves_state\<lparr>leaves_reservations := [(''r1'', ?e)]\<rparr>"
  let ?env = "service_sample_env\<lparr>te_swap_leaves := (\<lambda>_ _. Ok [(sample_leaf ''n'' 2 0)\<lparr>refund_tx := None\<rparr>])\<rparr>"
  let ?r = "new_reservation [sample_leaf ''a'' 4 2000] ''r1''"
  have "check_renew_nodes ?env [(sample_leaf ''n'' 2 0)\<lparr>refund_tx := None\<rparr>] =
      Some (Err (SvTreeServiceError (Generic ''No refund tx'')))"
    by (simp add: check_renew_nodes_def sort_node_def needs_refund_tx_renewed_def refund_sequence_def)
  with swap_then_failed_renewal_returns_spent_leaves [of ?st ?r ?e ?env None] show ?thesis
    by (fastforce simp: Let_def new_reservation_def hm_get_def)
qed

end
