(* ===== verification/Leaf_Optimizer.thy ===== *)
theory Leaf_Optimizer
  imports Tree_Service
begin

text \<open>
  The leaf optimizer: \<open>crates/spark/src/services/leaf_optimizer.rs\<close>.

  The planning functions are pure: they choose powers of two for a balance and cut the difference between
  the wallet and the optimal set into swaps. \<open>Vec::chunks\<close> panics for a chunk size of zero, which is
  \<open>None\<close>. The rounds run against the in-memory store, with the remote swap as a parameter.

  Theorems: the greedy decomposition is the binary representation, every plan conserves value and gives
  only leaves of the wallet, a wallet with the optimal leaves can pay every amount up to its balance with
  no swap, and the rounds leave no reservation behind.
\<close>

section \<open>Options, progress and events\<close>

definition DEFAULT_MAX_LEAVES_PER_SWAP :: u32 where "DEFAULT_MAX_LEAVES_PER_SWAP = 64"

record LeafOptimizationOptions =
  multiplicity :: nat
  max_leaves_per_swap :: u32

definition default_options :: LeafOptimizationOptions where
  "default_options = \<lparr>multiplicity = 1, max_leaves_per_swap = DEFAULT_MAX_LEAVES_PER_SWAP\<rparr>"

definition validate :: "LeafOptimizationOptions \<Rightarrow> ServiceError + unit" where
  "validate c =
     (if max_leaves_per_swap c = 0 then Err (SvGeneric ''max_leaves_per_swap must be greater than 0'') else Ok ())"

record OptimizationProgress =
  is_running :: bool
  current_round :: u32
  total_rounds :: u32

definition default_progress :: OptimizationProgress where
  "default_progress = \<lparr>is_running = False, current_round = 0, total_rounds = 0\<rparr>"

datatype OptimizationEvent =
    Started u32 | RoundCompleted u32 u32 | Completed | Cancelled | Failed ServiceError | Skipped

record SwapPlan =
  leaves_to_give :: "u64 list"
  leaves_to_receive :: "u64 list"

section \<open>Choosing denominations\<close>

function take_power :: "u64 \<Rightarrow> u64 \<Rightarrow> u64 list \<Rightarrow> u64 \<times> u64 list" where
  "take_power pw v result =
     (if 0 < pw \<and> pw \<le> v then take_power pw (v - pw) (result @ [pw]) else (v, result))"
  by pat_completeness auto
termination by (relation "measure (\<lambda>(p, v, r). v)") auto

declare take_power.simps [simp del]

function greedy_leaves_loop :: "u64 \<Rightarrow> u64 \<Rightarrow> u64 list \<Rightarrow> u64 list" where
  "greedy_leaves_loop pw v result =
     (if 0 < v \<and> 0 < pw
      then case take_power pw v result of (v', result') \<Rightarrow> greedy_leaves_loop (pw div 2) v' result'
      else result)"
  by pat_completeness auto
termination by (relation "measure (\<lambda>(p, v, r). p)") auto

declare greedy_leaves_loop.simps [simp del]

definition greedy_leaves :: "u64 \<Rightarrow> u64 list" where
  "greedy_leaves v = sort (greedy_leaves_loop (2 ^ 63) v [])"

fun repeat_power :: "nat \<Rightarrow> u64 \<Rightarrow> u64 \<Rightarrow> u64 list \<Rightarrow> u64 \<times> u64 list" where
  "repeat_power 0 pw remaining result = (remaining, result)"
| "repeat_power (Suc n) pw remaining result =
     (if pw \<le> remaining then repeat_power n pw (remaining - pw) (result @ [pw])
      else repeat_power n pw remaining result)"

function minimizing_loop :: "u64 \<Rightarrow> nat \<Rightarrow> u64 \<Rightarrow> u64 \<Rightarrow> u64 list \<Rightarrow> u64 \<times> u64 list" where
  "minimizing_loop amount multi pw remaining result =
     (if 0 < pw \<and> pw \<le> amount
      then case repeat_power multi pw remaining result of
             (remaining', result') \<Rightarrow>
               if (2 ^ 64 - 1) div 2 < pw then (remaining', result')
               else minimizing_loop amount multi (pw * 2) remaining' result'
      else (remaining, result))"
  by pat_completeness auto
termination by (relation "measure (\<lambda>(a, m, p, r, x). Suc a - p)") auto

declare minimizing_loop.simps [simp del]

definition swap_minimizing_leaves :: "u64 \<Rightarrow> nat \<Rightarrow> u64 list" where
  "swap_minimizing_leaves amount multi =
     (case minimizing_loop amount multi 1 amount [] of
        (remaining, result) \<Rightarrow> sort (result @ greedy_leaves remaining))"

section \<open>Counters\<close>

type_synonym counter = "(u64, u64) hmap"

definition count_occurrences :: "u64 list \<Rightarrow> counter" where
  "count_occurrences vs = foldl (\<lambda>c v. hm_insert v (Suc (unwrap_or (hm_get c v) 0)) c) [] vs"

definition subtract_counters :: "counter \<Rightarrow> counter \<Rightarrow> counter" where
  "subtract_counters a b =
     foldl (\<lambda>result (k, v). let b_count = unwrap_or (hm_get b k) 0
              in if b_count < v then hm_insert k (v - b_count) result else result) [] a"

definition counter_to_flat_array :: "counter \<Rightarrow> u64 list" where
  "counter_to_flat_array c =
     concat (map (\<lambda>k. replicate (unwrap_or (hm_get c k) 0) k) (sort (hm_keys c)))"

section \<open>Planning\<close>

function batches_loop ::
  "nat \<Rightarrow> u64 list \<Rightarrow> u64 list \<Rightarrow> SwapPlan list \<Rightarrow> u64 list \<times> SwapPlan list" where
  "batches_loop max_leaves leaves batch swaps =
     (case leaves of
        [] \<Rightarrow> (batch, swaps)
      | leaf # rest \<Rightarrow>
          (let batch' = batch @ [leaf]; target = greedy_leaves (wsum 64 batch')
           in if max_leaves \<le> length batch' \<or> max_leaves \<le> length target
              then batches_loop max_leaves rest []
                     (if target \<noteq> batch'
                      then swaps @ [\<lparr>leaves_to_give = batch', leaves_to_receive = target\<rparr>] else swaps)
              else batches_loop max_leaves rest batch' swaps))"
  by pat_completeness auto
termination by (relation "measure (\<lambda>(m, l, b, s). length l)") auto

definition maximize_unilateral_exit :: "u64 list \<Rightarrow> u32 \<Rightarrow> SwapPlan list" where
  "maximize_unilateral_exit input_leave_amounts max_leaves =
     (case batches_loop max_leaves (sort input_leave_amounts) [] [] of
        (batch, swaps) \<Rightarrow>
          if batch = [] then swaps
          else let target = greedy_leaves (wsum 64 batch)
               in if target \<noteq> batch
                  then swaps @ [\<lparr>leaves_to_give = batch, leaves_to_receive = target\<rparr>] else swaps)"

function chunks :: "nat \<Rightarrow> 'a list \<Rightarrow> 'a list list" where
  "chunks n xs = (if n = 0 \<or> xs = [] then [] else take n xs # chunks n (drop n xs))"
  by pat_completeness auto
termination by (relation "measure (\<lambda>(n, xs). length xs)") auto

declare chunks.simps [simp del]

definition alternate_batch :: "u64 list \<Rightarrow> u64 \<Rightarrow> nat \<Rightarrow> u64 list" where
  "alternate_batch to_receive give_sum cutoff =
     (let sum_cut = wsum 64 (take cutoff to_receive); remainder = wsub 64 give_sum sum_cut
      in take cutoff to_receive @ greedy_leaves remainder)"

definition plan_batch :: "nat \<Rightarrow> u64 list \<Rightarrow> u64 list \<Rightarrow> SwapPlan list option" where
  "plan_batch max_leaves to_give to_receive =
     (if max_leaves < length to_give
      then (if max_leaves = 0 then None
            else Some (map (\<lambda>chunk. \<lparr>leaves_to_give = chunk, leaves_to_receive = greedy_leaves (wsum 64 chunk)\<rparr>)
                        (chunks max_leaves to_give)))
      else if max_leaves < length to_receive
      then (case find (\<lambda>b. length b \<le> max_leaves)
                   (map (alternate_batch to_receive (wsum 64 to_give)) (rev [1..<Suc max_leaves])) of
              Some b \<Rightarrow> Some [\<lparr>leaves_to_give = to_give, leaves_to_receive = b\<rparr>]
            | None \<Rightarrow> Some [])
      else Some [\<lparr>leaves_to_give = to_give, leaves_to_receive = to_receive\<rparr>])"

text \<open>One turn of the balancing loop: the side that is behind takes its next leaf; \<open>None\<close> is the \<open>break\<close>.\<close>

definition next_leaf ::
  "u64 list \<Rightarrow> u64 list \<Rightarrow> u64 list \<Rightarrow> u64 list \<Rightarrow> (u64 list \<times> u64 list \<times> u64 list \<times> u64 list) option" where
  "next_leaf give receive to_give to_receive =
     (if wsum 64 to_receive < wsum 64 to_give
      then (case receive of [] \<Rightarrow> None | r # rs \<Rightarrow> Some (give, rs, to_give, to_receive @ [r]))
      else (case give of [] \<Rightarrow> None | g # gs \<Rightarrow> Some (gs, receive, to_give @ [g], to_receive)))"

lemma next_leaf_decreases [termination_simp]:
  "next_leaf give receive gb rb = Some (give', receive', gb', rb') \<Longrightarrow>
     length give' + length receive' < length give + length receive"
  by (auto simp: next_leaf_def split: if_splits list.splits)

function balance_loop ::
  "nat \<Rightarrow> u64 list \<Rightarrow> u64 list \<Rightarrow> u64 list \<Rightarrow> u64 list \<Rightarrow> SwapPlan list \<Rightarrow> SwapPlan list option" where
  "balance_loop max_leaves give receive to_give to_receive swaps =
     (if give = [] \<and> receive = [] then Some swaps
      else case next_leaf give receive to_give to_receive of
             None \<Rightarrow> Some swaps
           | Some (give', receive', to_give', to_receive') \<Rightarrow>
               if to_give' \<noteq> [] \<and> to_receive' \<noteq> [] \<and> wsum 64 to_give' = wsum 64 to_receive'
               then (case plan_batch max_leaves to_give' to_receive' of
                       None \<Rightarrow> None
                     | Some ps \<Rightarrow> balance_loop max_leaves give' receive' [] [] (swaps @ ps))
               else balance_loop max_leaves give' receive' to_give' to_receive' swaps)"
  by pat_completeness auto
termination
  by (relation "measure (\<lambda>(m, g, r, gb, rb, s). length g + length r)") (auto simp: next_leaf_decreases)

declare balance_loop.simps [simp del] batches_loop.simps [simp del]

definition minimize_transfer_swap :: "u64 list \<Rightarrow> nat \<Rightarrow> u32 \<Rightarrow> SwapPlan list option" where
  "minimize_transfer_swap input_leave_amounts multi max_leaves =
     (let balance = wsum 64 input_leave_amounts;
          optimal_leaves = swap_minimizing_leaves balance multi;
          wallet_counter = count_occurrences input_leave_amounts;
          optimal_counter = count_occurrences optimal_leaves;
          give = counter_to_flat_array (subtract_counters wallet_counter optimal_counter);
          receive = counter_to_flat_array (subtract_counters optimal_counter wallet_counter)
      in if wsum 64 give \<noteq> wsum 64 receive then Some []
         else balance_loop max_leaves give receive [] [] [])"

definition calculate_optimization_swaps :: "u64 list \<Rightarrow> nat \<Rightarrow> u32 \<Rightarrow> SwapPlan list option" where
  "calculate_optimization_swaps input_leave_amounts multi max_leaves =
     (if multi = 0 then Some (maximize_unilateral_exit input_leave_amounts max_leaves)
      else minimize_transfer_swap input_leave_amounts multi max_leaves)"

definition should_optimize :: "LeafOptimizationOptions \<Rightarrow> TreeNode list \<Rightarrow> bool" where
  "should_optimize config leaves =
     (if multiplicity config = 0
      then let swaps = maximize_unilateral_exit (values_of leaves) (max_leaves_per_swap config)
           in sum_list (map (\<lambda>p. length (leaves_to_receive p)) swaps)
              < sum_list (map (\<lambda>p. length (leaves_to_give p)) swaps)
      else True)"

section \<open>Running the rounds\<close>

record LeafOptimizer =
  lo_config :: LeafOptimizationOptions
  lo_progress :: OptimizationProgress
  cancel_flag :: bool
  has_handler :: bool
  lo_events :: "OptimizationEvent list"

definition new_optimizer :: "LeafOptimizationOptions \<Rightarrow> bool \<Rightarrow> LeafOptimizer" where
  "new_optimizer config handler =
     \<lparr>lo_config = config, lo_progress = default_progress, cancel_flag = False, has_handler = handler, lo_events = []\<rparr>"

definition start_optimization :: "LeafOptimizer \<Rightarrow> LeafOptimizer \<times> bool" where
  "start_optimization lo =
     (if is_running (lo_progress lo) then (lo, False)
      else (lo\<lparr>lo_progress := \<lparr>is_running = True, current_round = 0, total_rounds = 0\<rparr>\<rparr>, True))"

text \<open>\<open>cancel\<close> up to the point where it waits for the guard to be dropped.\<close>

definition cancel_optimization :: "LeafOptimizer \<Rightarrow> LeafOptimizer" where
  "cancel_optimization lo = (if is_running (lo_progress lo) then lo\<lparr>cancel_flag := True\<rparr> else lo)"

definition emit_event :: "OptimizationEvent \<Rightarrow> LeafOptimizer \<Rightarrow> LeafOptimizer" where
  "emit_event e lo = (if has_handler lo then lo\<lparr>lo_events := lo_events lo @ [e]\<rparr> else lo)"

definition drop_guard :: "LeafOptimizer \<Rightarrow> LeafOptimizer" where
  "drop_guard lo = lo\<lparr>lo_progress := default_progress\<rparr>"

text \<open>What is open in a round: whether \<open>cancel\<close> is called before it, the turn of its store commands and what
  other tasks do to the store before it.\<close>

record round =
  rd_cancelled :: bool
  rd_turn :: turn
  rd_others :: "LeavesState \<Rightarrow> LeavesState"

definition no_wait_attempt :: "turn \<Rightarrow> attempt" where
  "no_wait_attempt t = \<lparr>at_turn = t, at_elapsed = 0, at_event = WaitTimeout, at_others = (\<lambda>s. s)\<rparr>"

fun execute_optimization_rounds ::
  "tree_env \<Rightarrow> u32 \<Rightarrow> u32 \<Rightarrow> (SwapPlan \<times> round) list \<Rightarrow> LeafOptimizer \<Rightarrow> LeavesState \<Rightarrow>
   (LeafOptimizer \<times> LeavesState \<times> (ServiceError + bool)) option" where
  "execute_optimization_rounds env i n [] lo st = Some (lo, st, Ok True)"
| "execute_optimization_rounds env i n ((swap, rd) # rest) lo0 st0 =
     (let st = rd_others rd st0; lo = (if rd_cancelled rd then cancel_optimization lo0 else lo0) in
      if cancel_flag lo then Some (lo, st, Ok False)
      else case select_leaves env (Some (ExactDenominations (leaves_to_give swap))) Swap 0
                  [no_wait_attempt (rd_turn rd)] st of
             None \<Rightarrow> None
           | Some (st1, Some (Ok swap_reservation)) \<Rightarrow>
               (let lo1 = lo\<lparr>lo_progress := \<lparr>is_running = True, current_round = i, total_rounds = n\<rparr>\<rparr> in
                case te_swap_leaves env (lr_leaves swap_reservation) (Some (leaves_to_receive swap)) of
                  Ok new_leaves \<Rightarrow>
                    execute_optimization_rounds env (Suc i) n rest (emit_event (RoundCompleted i n) lo1)
                      (process_finalize_reservation (tu_now (rd_turn rd)) (tu_now' (rd_turn rd)) st1
                        (lr_id swap_reservation) (Some new_leaves))
                | Err e \<Rightarrow>
                    Some (lo1, process_cancel_reservation st1 (lr_id swap_reservation),
                          Err (SvGeneric (''Failed to perform swap in optimization round '' @ decimal i @ '': ''
                                 @ te_debug env e))))
           | Some (st1, _) \<Rightarrow> execute_optimization_rounds env (Suc i) n rest lo st1)"

text \<open>\<open>run_optimization_with_guard\<close>: the leaves are those listed at the start, \<open>rounds\<close> supplies the open part of
  each swap of the plan, and \<open>refresh\<close> is the refresh that follows a failure. The guard is dropped on every
  return. The event of a failure carries the error itself instead of its text.\<close>

definition run_optimization_with_guard ::
  "tree_env \<Rightarrow> (nat \<Rightarrow> round) \<Rightarrow> (LeavesState \<Rightarrow> LeavesState) \<Rightarrow> LeafOptimizer \<Rightarrow> LeavesState \<Rightarrow>
   (LeafOptimizer \<times> LeavesState \<times> (ServiceError + unit)) option" where
  "run_optimization_with_guard env rounds refresh lo0 st =
     (let lo = lo0\<lparr>cancel_flag := False\<rparr>;
          leaves = lv_available (process_get_leaves st);
          skip = (drop_guard (emit_event Skipped lo), st, Ok ())
      in if leaves = [] \<or> \<not> should_optimize (lo_config lo) leaves then Some skip
         else case calculate_optimization_swaps (values_of leaves) (multiplicity (lo_config lo))
                     (max_leaves_per_swap (lo_config lo)) of
                None \<Rightarrow> None
              | Some swaps \<Rightarrow>
                  if swaps = [] then Some skip
                  else
                    (let n = length swaps;
                         lo1 = emit_event (Started n)
                           (lo\<lparr>lo_progress := (lo_progress lo)\<lparr>current_round := 0, total_rounds := n\<rparr>\<rparr>)
                     in case execute_optimization_rounds env 1 n (zip swaps (map rounds [0..<n])) lo1 st of
                          None \<Rightarrow> None
                        | Some (lo2, st', Ok True) \<Rightarrow> Some (drop_guard (emit_event Completed lo2), st', Ok ())
                        | Some (lo2, st', Ok False) \<Rightarrow> Some (drop_guard (emit_event Cancelled lo2), st', Ok ())
                        | Some (lo2, st', Err e) \<Rightarrow>
                            Some (drop_guard (emit_event (Failed e) lo2), refresh st', Err e)))"

section \<open>The greedy decomposition\<close>

lemma take_power_once:
  assumes "v < 2 * pw" and "0 < pw"
  shows "take_power pw v result = (if pw \<le> v then (v - pw, result @ [pw]) else (v, result))"
proof (cases "pw \<le> v")
  case True
  with assms have "\<not> pw \<le> v - pw" by simp
  with True assms show ?thesis
    by (subst take_power.simps, simp) (subst take_power.simps, simp)
next
  case False
  then show ?thesis by (simp add: take_power.simps [of pw v])
qed

definition pow2 :: "nat \<Rightarrow> bool" where
  "pow2 v \<longleftrightarrow> (\<exists>k. v = 2 ^ k)"

lemma greedy_leaves_loop_spec:
  assumes "v < 2 ^ Suc k"
  shows "\<exists>bs. greedy_leaves_loop (2 ^ k) v result = result @ bs \<and> sum_list bs = v
           \<and> sorted_wrt (>) bs \<and> (\<forall>b \<in> set bs. pow2 b \<and> b \<le> 2 ^ k)"
  using assms
proof (induction k arbitrary: v result)
  case 0
  then consider "v = 0" | "v = 1" by fastforce
  then show ?case
  proof cases
    case 1
    then show ?thesis by (simp add: greedy_leaves_loop.simps)
  next
    case 2
    have "pow2 1" unfolding pow2_def by (intro exI [of _ 0]) simp
    with 2 show ?thesis
      by (simp add: greedy_leaves_loop.simps [of "Suc 0"] greedy_leaves_loop.simps [of 0] take_power_once)
  qed
next
  case (Suc k)
  show ?case
  proof (cases "v = 0")
    case True
    then show ?thesis by (simp add: greedy_leaves_loop.simps)
  next
    case False
    let ?v = "if 2 ^ Suc k \<le> v then v - 2 ^ Suc k else v"
    let ?r = "if 2 ^ Suc k \<le> v then result @ [2 ^ Suc k] else result"
    have step: "greedy_leaves_loop (2 ^ Suc k) v result = greedy_leaves_loop (2 ^ k) ?v ?r"
      using False Suc.prems by (simp add: greedy_leaves_loop.simps [of "2 * 2 ^ k"] take_power_once)
    have "?v < 2 ^ Suc k" using Suc.prems by auto
    from Suc.IH [OF this, of ?r] obtain bs where bs: "greedy_leaves_loop (2 ^ k) ?v ?r = ?r @ bs"
      "sum_list bs = ?v" "sorted_wrt (>) bs" "\<forall>b \<in> set bs. pow2 b \<and> b \<le> 2 ^ k" by blast
    have "pow2 (2 ^ Suc k)" unfolding pow2_def by blast
    moreover have "\<forall>b \<in> set bs. b < 2 ^ Suc k" using bs(4) by (auto intro: le_less_trans)
    ultimately show ?thesis
      using step bs
      by (intro exI [of _ "(if 2 ^ Suc k \<le> v then [2 ^ Suc k] else []) @ bs"]) (auto intro: less_imp_le)
  qed
qed

lemma greedy_leaves_facts:
  assumes "v < 2 ^ 64"
  shows "sum_list (greedy_leaves v) = v" and "sorted (greedy_leaves v)" and "distinct (greedy_leaves v)"
    and "\<forall>b \<in> set (greedy_leaves v). pow2 b \<and> b \<le> v"
proof -
  from assms have "v < 2 ^ Suc 63" by simp
  from greedy_leaves_loop_spec [OF this, of "[]"] obtain bs where
    bs: "greedy_leaves_loop (2 ^ 63) v [] = bs" "sum_list bs = v" "sorted_wrt (>) bs" "\<forall>b \<in> set bs. pow2 b"
    by auto
  have "sum_list (sort bs) = sum_list bs" by (metis mset_sort sum_mset_sum_list)
  with bs show "sum_list (greedy_leaves v) = v" by (simp only: greedy_leaves_def)
  show "sorted (greedy_leaves v)" by (simp add: greedy_leaves_def)
  have "distinct bs" using bs(3) by (induction bs) auto
  with bs(1) show "distinct (greedy_leaves v)" by (simp only: greedy_leaves_def distinct_sort)
  have "b \<le> v" if "b \<in> set bs" for b using that bs(2) member_le_sum_list [of b bs] by simp
  with bs show "\<forall>b \<in> set (greedy_leaves v). pow2 b \<and> b \<le> v" by (simp only: greedy_leaves_def set_sort) blast
qed

section \<open>Every amount can be paid from the optimal leaves\<close>

text \<open>A list of values is complete when each value is at most one more than the sum of those before it.\<close>

fun complete_chain :: "nat \<Rightarrow> nat list \<Rightarrow> bool" where
  "complete_chain s [] = True"
| "complete_chain s (x # xs) = (x \<le> Suc s \<and> complete_chain (s + x) xs)"

lemma complete_chain_append:
  "complete_chain s (xs @ ys) \<longleftrightarrow> complete_chain s xs \<and> complete_chain (s + sum_list xs) ys"
  by (induction xs arbitrary: s) (auto simp: add.assoc)

lemma complete_chain_small: "\<forall>x \<in> set xs. x \<le> Suc s \<Longrightarrow> complete_chain s xs"
proof (induction xs arbitrary: s)
  case (Cons x xs)
  have "\<forall>y \<in> set xs. y \<le> Suc (s + x)" using Cons.prems by (auto intro: le_trans)
  with Cons show ?case by simp
qed simp

lemma complete_chain_subset_sum:
  assumes "complete_chain 0 xs" and "t \<le> sum_list xs"
  shows "\<exists>ys. mset ys \<subseteq># mset xs \<and> sum_list ys = t"
  using assms
proof (induction xs arbitrary: t rule: rev_induct)
  case Nil
  then show ?case by simp
next
  case (snoc x xs)
  from snoc.prems(1) have c: "complete_chain 0 xs" and x: "x \<le> Suc (sum_list xs)"
    by (simp_all add: complete_chain_append)
  show ?case
  proof (cases "t \<le> sum_list xs")
    case True
    with snoc.IH [OF c] obtain ys where "mset ys \<subseteq># mset xs" "sum_list ys = t" by blast
    then show ?thesis by (intro exI [of _ ys]) (auto intro: subset_mset.order_trans)
  next
    case False
    with x snoc.prems(2) have "t - x \<le> sum_list xs" "x \<le> t" by simp_all
    with snoc.IH [OF c] obtain ys where "mset ys \<subseteq># mset xs" "sum_list ys = t - x" by blast
    with \<open>x \<le> t\<close> show ?thesis by (intro exI [of _ "x # ys"]) simp
  qed
qed

lemma repeat_power_spec:
  assumes "repeat_power n pw r acc = (r', acc')"
  shows "\<exists>j \<le> n. acc' = acc @ replicate j pw \<and> r' + j * pw = r \<and> (j = 0 \<longleftrightarrow> n = 0 \<or> r < pw)"
  using assms
proof (induction n pw r acc rule: repeat_power.induct)
  case (1 pw r acc)
  then show ?case by simp
next
  case (2 n pw r acc)
  show ?case
  proof (cases "pw \<le> r")
    case True
    with 2 obtain j where j: "j \<le> n" "acc' = (acc @ [pw]) @ replicate j pw" "r' + j * pw = r - pw" by auto
    with True show ?thesis by (intro exI [of _ "Suc j"]) (auto simp: algebra_simps)
  next
    case False
    with 2 obtain j where "j \<le> n" "acc' = acc @ replicate j pw" "r' + j * pw = r" "j = 0 \<longleftrightarrow> n = 0 \<or> r < pw" by auto
    with False show ?thesis by (intro exI [of _ j]) auto
  qed
qed

text \<open>The invariant of the loop over the powers: everything taken so far is a complete chain, and either all
  smaller powers were taken or the remainder is too small for any further power.\<close>

definition minimizing_inv :: "nat \<Rightarrow> nat \<Rightarrow> nat \<Rightarrow> nat list \<Rightarrow> bool" where
  "minimizing_inv amount k r acc \<longleftrightarrow>
     r + sum_list acc = amount \<and> complete_chain 0 acc \<and> (\<forall>b \<in> set acc. pow2 b)
     \<and> (\<exists>j \<le> k. 2 ^ j \<le> Suc (sum_list acc) \<and> (j = k \<or> r < 2 ^ j))"

lemma minimizing_inv_step:
  assumes "minimizing_inv amount k r acc" and "repeat_power (Suc m) (2 ^ k) r acc = (r', acc')"
  shows "minimizing_inv amount (Suc k) r' acc'"
proof -
  from repeat_power_spec [OF assms(2)] obtain n where
    n: "acc' = acc @ replicate n (2 ^ k)" "r' + n * 2 ^ k = r" "n = 0 \<longleftrightarrow> r < 2 ^ k" by auto
  from assms(1) obtain j where j: "j \<le> k" "2 ^ j \<le> Suc (sum_list acc)" "j = k \<or> r < 2 ^ j"
    by (auto simp: minimizing_inv_def)
  have sum: "sum_list acc' = sum_list acc + n * 2 ^ k" by (simp add: n sum_list_replicate)
  show ?thesis
  proof (cases "r < 2 ^ k")
    case True
    with n have "n = 0" by simp
    with n assms(1) j True show ?thesis unfolding minimizing_inv_def
      by (auto intro!: exI [of _ j])
  next
    case False
    with j have "j = k" by (metis le_less_trans not_less power_increasing one_le_numeral)
    have k: "2 ^ k \<le> Suc (sum_list acc)" using j \<open>j = k\<close> by simp
    from False n have "1 \<le> n" by simp
    then have "2 ^ k \<le> n * 2 ^ k" by simp
    with k sum have "2 ^ Suc k \<le> Suc (sum_list acc')" unfolding power_Suc by linarith
    moreover have "complete_chain 0 acc'"
      using k assms(1) complete_chain_small [of "replicate n (2 ^ k)" "sum_list acc"]
      by (simp add: n(1) complete_chain_append minimizing_inv_def)
    moreover have "pow2 (2 ^ k)" unfolding pow2_def by blast
    then have "\<forall>b \<in> set acc'. pow2 b" using assms(1) by (auto simp: n(1) minimizing_inv_def)
    ultimately show ?thesis
      using assms(1) n(2) sum unfolding minimizing_inv_def by (intro conjI exI [of _ "Suc k"]) simp_all
  qed
qed

lemma minimizing_loop_spec:
  assumes "minimizing_inv amount k r acc" and "k \<le> 63" and "amount < 2 ^ 64"
    and "minimizing_loop amount (Suc m) (2 ^ k) r acc = (r', acc')"
  shows "\<exists>k'. minimizing_inv amount k' r' acc' \<and> r' < 2 ^ k'"
  using assms
proof (induction "64 - k" arbitrary: k r acc)
  case 0
  then show ?case by simp
next
  case (Suc d)
  show ?case
  proof (cases "2 ^ k \<le> amount")
    case False
    with Suc.prems(4) have "r' = r" "acc' = acc" by (simp_all add: minimizing_loop.simps)
    with Suc.prems(1) False show ?thesis by (intro exI [of _ k]) (auto simp: minimizing_inv_def)
  next
    case True
    obtain r1 acc1 where R: "repeat_power (Suc m) (2 ^ k) r acc = (r1, acc1)" by fastforce
    note inv = minimizing_inv_step [OF Suc.prems(1) R]
    have loop: "minimizing_loop amount (Suc m) (2 ^ k) r acc =
        (if (2 ^ 64 - 1) div 2 < (2 ^ k :: nat) then (r1, acc1) else minimizing_loop amount (Suc m) (2 ^ Suc k) r1 acc1)"
      using True R by (subst minimizing_loop.simps) (simp add: mult.commute)
    show ?thesis
    proof (cases "k = 63")
      case True
      then have "(2 ^ 64 - 1) div 2 < (2 ^ k :: nat)" by simp
      with loop Suc.prems(4) have "r' = r1" "acc' = acc1" by simp_all
      moreover have "r1 < 2 ^ Suc k" using inv Suc.prems(3) True by (simp add: minimizing_inv_def)
      ultimately show ?thesis using inv by blast
    next
      case False
      with Suc.prems(2) have k: "Suc k \<le> 63" by simp
      then have "(2 :: nat) ^ k \<le> 2 ^ 62" by (intro power_increasing) simp_all
      then have "\<not> (2 ^ 64 - 1) div 2 < (2 ^ k :: nat)" by simp
      with loop Suc.prems(4) have "minimizing_loop amount (Suc m) (2 ^ Suc k) r1 acc1 = (r', acc')" by simp
      moreover have "d = 64 - Suc k" using Suc.hyps(2) by simp
      ultimately show ?thesis using Suc.hyps(1) inv k Suc.prems(3) by blast
    qed
  qed
qed

lemma swap_minimizing_leaves_facts:
  assumes "amount < 2 ^ 64" and "0 < m"
  shows "sum_list (swap_minimizing_leaves amount m) = amount"
    and "\<forall>b \<in> set (swap_minimizing_leaves amount m). pow2 b"
    and "t \<le> amount \<Longrightarrow> \<exists>ys. mset ys \<subseteq># mset (swap_minimizing_leaves amount m) \<and> sum_list ys = t"
proof -
  obtain r acc where L: "minimizing_loop amount (Suc (m - 1)) (2 ^ 0) amount [] = (r, acc)" by fastforce
  have "minimizing_inv amount 0 amount []" by (simp add: minimizing_inv_def)
  from minimizing_loop_spec [OF this _ assms(1) L] obtain k where
    inv: "minimizing_inv amount k r acc" and r: "r < 2 ^ k" by auto
  then obtain j where j: "2 ^ j \<le> Suc (sum_list acc)" "r < 2 ^ j" by (auto simp: minimizing_inv_def)
  from inv assms(1) have r64: "r < 2 ^ 64" by (simp add: minimizing_inv_def)
  note G = greedy_leaves_facts [OF r64]
  let ?xs = "acc @ greedy_leaves r"
  have eq: "swap_minimizing_leaves amount m = sort ?xs"
    using L assms(2) by (simp add: swap_minimizing_leaves_def)
  have sum: "sum_list ?xs = amount" using inv G(1) by (simp add: minimizing_inv_def)
  have ms: "mset (swap_minimizing_leaves amount m) = mset ?xs" by (simp only: eq mset_sort)
  then show "sum_list (swap_minimizing_leaves amount m) = amount" using sum by (metis sum_mset_sum_list)
  show "\<forall>b \<in> set (swap_minimizing_leaves amount m). pow2 b"
    unfolding eq using inv G(4) by (auto simp: minimizing_inv_def)
  have "complete_chain (sum_list acc) (greedy_leaves r)"
    using G(4) j by (intro complete_chain_small) (auto intro: le_trans less_imp_le)
  then have "complete_chain 0 ?xs" using inv by (simp add: complete_chain_append minimizing_inv_def)
  from complete_chain_subset_sum [OF this] sum ms
  show "t \<le> amount \<Longrightarrow> \<exists>ys. mset ys \<subseteq># mset (swap_minimizing_leaves amount m) \<and> sum_list ys = t" by metis
qed

section \<open>Counters are multisets\<close>

lemma count_occurrences_snoc:
  "count_occurrences (vs @ [v]) =
     hm_insert v (Suc (unwrap_or (hm_get (count_occurrences vs) v) 0)) (count_occurrences vs)"
  by (simp add: count_occurrences_def)

lemma count_occurrences_ok: "hm_ok (count_occurrences vs)"
  by (induction vs rule: rev_induct) (simp add: count_occurrences_def, simp add: count_occurrences_snoc)

lemma count_occurrences_get: "unwrap_or (hm_get (count_occurrences vs) k) 0 = count (mset vs) k"
  by (induction vs rule: rev_induct) (simp add: count_occurrences_def, simp add: count_occurrences_snoc)

lemma subtract_counters_spec:
  assumes "hm_ok a"
  shows "hm_ok (subtract_counters a b)
       \<and> unwrap_or (hm_get (subtract_counters a b) k) 0 = unwrap_or (hm_get a k) 0 - unwrap_or (hm_get b k) 0"
  using assms
proof (induction a rule: rev_induct)
  case Nil
  then show ?case by (simp add: subtract_counters_def)
next
  case (snoc p a)
  obtain k' v where p: "p = (k', v)" by (cases p)
  from snoc.prems p have ok: "hm_ok a" and k': "hm_get a k' = None"
    by (auto simp: hm_ok_def hm_get_None_iff hm_keys_def)
  have get: "hm_get (a @ [p]) k = (if k = k' then Some v else hm_get a k)"
    using k' by (auto simp: hm_get_def p map_of_append map_add_def split: option.splits)
  have step: "subtract_counters (a @ [p]) b =
      (if unwrap_or (hm_get b k') 0 < v then hm_insert k' (v - unwrap_or (hm_get b k') 0) (subtract_counters a b)
       else subtract_counters a b)"
    by (simp add: subtract_counters_def p Let_def)
  from snoc.IH [OF ok] k' show ?case unfolding step get by auto
qed

lemma count_concat_replicate:
  "distinct ks \<Longrightarrow> count (mset (concat (map (\<lambda>k. replicate (f k) k) ks))) x = (if x \<in> set ks then f x else 0)"
  by (induction ks) (auto simp: count_replicate_mset)

lemma counter_to_flat_array_count:
  assumes "hm_ok c"
  shows "count (mset (counter_to_flat_array c)) k = unwrap_or (hm_get c k) 0"
proof -
  have "distinct (sort (hm_keys c))" using assms by (simp add: hm_ok_def hm_keys_def)
  from count_concat_replicate [OF this, of "\<lambda>k. unwrap_or (hm_get c k) 0" k] show ?thesis
    by (cases "hm_get c k") (auto simp: counter_to_flat_array_def hm_keys_get)
qed

lemma counters_are_multisets:
  "mset (counter_to_flat_array (subtract_counters (count_occurrences a) (count_occurrences b))) = mset a - mset b"
  by (rule multiset_eqI)
    (simp add: counter_to_flat_array_count subtract_counters_spec count_occurrences_ok count_occurrences_get)

section \<open>Plans conserve value\<close>

definition conserves :: "SwapPlan \<Rightarrow> bool" where
  "conserves p \<longleftrightarrow> sum_list (leaves_to_give p) = sum_list (leaves_to_receive p)"

definition all_given :: "SwapPlan list \<Rightarrow> u64 list" where
  "all_given ps = concat (map leaves_to_give ps)"

lemma all_given_simps [simp]:
  "all_given [] = []" "all_given (p # ps) = leaves_to_give p @ all_given ps"
  "all_given (ps @ qs) = all_given ps @ all_given qs"
  by (simp_all add: all_given_def)

lemma concat_chunks: "0 < n \<Longrightarrow> concat (chunks n xs) = xs"
proof (induction n xs rule: chunks.induct)
  case (1 n xs)
  show ?case
  proof (cases "xs = []")
    case True
    then show ?thesis by (simp add: chunks.simps)
  next
    case False
    with 1 show ?thesis by (subst chunks.simps) simp
  qed
qed

lemma chunks_length: "c \<in> set (chunks n xs) \<Longrightarrow> length c \<le> n"
proof (induction n xs rule: chunks.induct)
  case (1 n xs)
  then show ?case by (subst (asm) (2) chunks.simps) (auto split: if_splits)
qed

lemma wsum_greedy: "sum_list xs < 2 ^ 64 \<Longrightarrow> sum_list (greedy_leaves (wsum 64 xs)) = sum_list xs"
  by (simp add: greedy_leaves_facts)

lemma alternate_batch_sum:
  assumes "sum_list r < 2 ^ 64" and "sum_list r = s"
  shows "sum_list (alternate_batch r s c) = s"
proof -
  have "sum_list (take c r) + sum_list (drop c r) = s" using assms(2) by (metis append_take_drop_id sum_list_append)
  then have le: "sum_list (take c r) \<le> s" "sum_list (take c r) < 2 ^ 64" "s - sum_list (take c r) < 2 ^ 64"
    using assms by linarith+
  then show ?thesis by (simp add: alternate_batch_def Let_def greedy_leaves_facts)
qed

lemma plan_batch_spec:
  assumes "plan_batch n g r = Some ps" and "sum_list g = sum_list r" and "sum_list g < 2 ^ 64"
  shows "(\<forall>p \<in> set ps. conserves p \<and> length (leaves_to_give p) \<le> n) \<and> (all_given ps = g \<or> ps = [])"
proof (cases "n < length g")
  case True
  with assms(1) have n: "0 < n" and ps: "ps = map (\<lambda>chunk. \<lparr>leaves_to_give = chunk,
      leaves_to_receive = greedy_leaves (wsum 64 chunk)\<rparr>) (chunks n g)"
    by (auto simp: plan_batch_def split: if_splits)
  have "sum_list c < 2 ^ 64" if "c \<in> set (chunks n g)" for c
  proof -
    have "sum_list c \<le> sum_list (map sum_list (chunks n g))"
      using that member_le_sum_list [of "sum_list c" "map sum_list (chunks n g)"] by simp
    also have "\<dots> = sum_list g" by (metis concat_chunks n sum_list_concat_nat)
    finally show ?thesis using assms(3) by simp
  qed
  then have "\<forall>p \<in> set ps. conserves p \<and> length (leaves_to_give p) \<le> n"
    by (auto simp: ps conserves_def chunks_length simp del: wsum_exact intro!: wsum_greedy [symmetric])
  moreover have "all_given ps = g" by (simp add: ps all_given_def comp_def concat_chunks n)
  ultimately show ?thesis by blast
next
  case False
  show ?thesis
  proof (cases "n < length r")
    case True
    have r: "sum_list r < 2 ^ 64" "sum_list r = wsum 64 g" using assms by simp_all
    show ?thesis
    proof (cases "find (\<lambda>b. length b \<le> n) (map (alternate_batch r (wsum 64 g)) (rev [1..<Suc n]))")
      case None
      with False True assms(1) show ?thesis by (simp add: plan_batch_def del: upt_Suc)
    next
      case (Some b)
      then obtain c where "b = alternate_batch r (wsum 64 g) c" by (auto simp: find_Some_iff)
      with alternate_batch_sum [OF r] assms have "sum_list b = sum_list g" by simp
      with Some False True assms(1) show ?thesis by (auto simp: plan_batch_def conserves_def simp del: upt_Suc)
    qed
  next
    case nr: False
    with False assms show ?thesis by (auto simp: plan_batch_def conserves_def)
  qed
qed

lemma next_leaf_spec:
  assumes "next_leaf give receive gb rb = Some (give', receive', gb', rb')"
  shows "mset gb' + mset give' = mset gb + mset give \<and> mset rb' + mset receive' = mset rb + mset receive"
  using assms by (auto simp: next_leaf_def split: if_splits list.splits)

lemma sum_list_mset_add: "mset a + mset b = mset c + mset d \<Longrightarrow> sum_list a + sum_list b = sum_list c + sum_list d"
  for a b c d :: "nat list"
  by (metis sum_mset.union sum_mset_sum_list)

lemma balance_loop_spec:
  assumes "balance_loop n give receive gb rb swaps = Some out"
    and "sum_list gb + sum_list give < 2 ^ 64" and "sum_list rb + sum_list receive < 2 ^ 64"
  shows "\<exists>ps. out = swaps @ ps \<and> (\<forall>p \<in> set ps. conserves p \<and> length (leaves_to_give p) \<le> n)
           \<and> mset (all_given ps) \<subseteq># mset gb + mset give"
  using assms
proof (induction n give receive gb rb swaps rule: balance_loop.induct)
  case (1 n give receive gb rb swaps)
  show ?case
  proof (cases "(give = [] \<and> receive = []) \<or> next_leaf give receive gb rb = None")
    case True
    with 1(3) have "out = swaps" by (subst (asm) balance_loop.simps) (auto split: if_splits)
    then show ?thesis by simp
  next
    case False
    then obtain g' r' gb' rb' where nl: "next_leaf give receive gb rb = Some (g', r', gb', rb')" by auto
    from False have ne: "\<not> (give = [] \<and> receive = [])" by blast
    note N = next_leaf_spec [OF nl]
    have sums: "sum_list gb' + sum_list g' < 2 ^ 64" "sum_list rb' + sum_list r' < 2 ^ 64"
      using N 1(4,5) sum_list_mset_add [of gb' g' gb give] sum_list_mset_add [of rb' r' rb receive] by simp_all
    let ?eq = "gb' \<noteq> [] \<and> rb' \<noteq> [] \<and> wsum 64 gb' = wsum 64 rb'"
    show ?thesis
    proof (cases ?eq)
      case False
      with 1(3) nl ne have "balance_loop n g' r' gb' rb' swaps = Some out"
        by (subst (asm) balance_loop.simps) (simp split: if_splits)
      from 1(2) [OF ne nl refl refl refl False this sums] show ?thesis using N by simp
    next
      case True
      with 1(3) nl ne obtain ps where ps: "plan_batch n gb' rb' = Some ps"
        and loop: "balance_loop n g' r' [] [] (swaps @ ps) = Some out"
        by (subst (asm) balance_loop.simps) (auto split: option.splits)
      have eq: "sum_list gb' = sum_list rb'" "sum_list gb' < 2 ^ 64" using True sums by simp_all
      from 1(1) [OF ne nl refl refl refl True ps loop] sums obtain qs where
        qs: "out = (swaps @ ps) @ qs" "\<forall>p \<in> set qs. conserves p \<and> length (leaves_to_give p) \<le> n"
        "mset (all_given qs) \<subseteq># mset g'" by auto
      have "mset (all_given ps) \<subseteq># mset gb'" using plan_batch_spec [OF ps eq] by auto
      with qs(3) have "mset (all_given (ps @ qs)) \<subseteq># mset gb' + mset g'"
        by (simp add: subset_mset.add_mono)
      with N qs plan_batch_spec [OF ps eq] show ?thesis by (intro exI [of _ "ps @ qs"]) auto
    qed
  qed
qed

lemma batches_loop_spec:
  assumes "batches_loop n ls batch swaps = (batch', swaps')"
    and "sum_list batch + sum_list ls < 2 ^ 64" and "length batch < n"
  shows "\<exists>ps. swaps' = swaps @ ps \<and> (\<forall>p \<in> set ps. conserves p \<and> length (leaves_to_give p) \<le> n)
           \<and> mset (all_given ps) + mset batch' \<subseteq># mset batch + mset ls \<and> length batch' < n"
  using assms
proof (induction n ls batch swaps rule: batches_loop.induct)
  case (1 n ls batch swaps)
  show ?case
  proof (cases ls)
    case Nil
    with 1 show ?thesis by (simp add: batches_loop.simps)
  next
    case (Cons l rest)
    let ?b = "batch @ [l]" and ?t = "greedy_leaves (wsum 64 (batch @ [l]))"
    let ?s = "if ?t \<noteq> ?b then swaps @ [\<lparr>leaves_to_give = ?b, leaves_to_receive = ?t\<rparr>] else swaps"
    have b: "sum_list ?b < 2 ^ 64" using 1(4) Cons by simp
    have cons: "conserves \<lparr>leaves_to_give = ?b, leaves_to_receive = ?t\<rparr>"
      using wsum_greedy [OF b] by (simp only: conserves_def SwapPlan.simps)
    show ?thesis
    proof (cases "n \<le> length ?b \<or> n \<le> length ?t")
      case True
      with 1(3) Cons have loop: "batches_loop n rest [] ?s = (batch', swaps')"
        by (subst (asm) batches_loop.simps) (simp add: Let_def)
      from 1(1) [OF Cons refl refl True loop] 1(4,5) Cons obtain ps where
        ps: "swaps' = ?s @ ps" "\<forall>p \<in> set ps. conserves p \<and> length (leaves_to_give p) \<le> n"
        "mset (all_given ps) + mset batch' \<subseteq># mset rest" "length batch' < n" by auto
      show ?thesis
      proof (cases "?t \<noteq> ?b")
        case True
        with ps cons Cons 1(5) show ?thesis
          by (intro exI [of _ "\<lparr>leaves_to_give = ?b, leaves_to_receive = ?t\<rparr> # ps"])
            (auto intro: subset_mset.add_left_mono simp: add.assoc)
      next
        case False
        have "mset rest \<subseteq># mset batch + mset ls" by (simp add: Cons)
        with False ps show ?thesis by (auto intro: subset_mset.order_trans)
      qed
    next
      case False
      with 1(3) Cons have loop: "batches_loop n rest ?b swaps = (batch', swaps')"
        by (subst (asm) batches_loop.simps) (simp add: Let_def)
      from 1(2) [OF Cons refl refl False loop] 1(4) Cons False show ?thesis by (simp add: add.assoc)
    qed
  qed
qed

lemma plan_batch_returns: "0 < n \<Longrightarrow> \<exists>ps. plan_batch n g r = Some ps"
  by (auto simp: plan_batch_def split: option.split)

lemma balance_loop_returns: "0 < n \<Longrightarrow> \<exists>out. balance_loop n give receive gb rb swaps = Some out"
proof (induction n give receive gb rb swaps rule: balance_loop.induct)
  case (1 n give receive gb rb swaps)
  show ?case
  proof (cases "(give = [] \<and> receive = []) \<or> next_leaf give receive gb rb = None")
    case True
    then show ?thesis by (subst balance_loop.simps) auto
  next
    case False
    then obtain g' r' gb' rb' where nl: "next_leaf give receive gb rb = Some (g', r', gb', rb')" by auto
    from False have ne: "\<not> (give = [] \<and> receive = [])" by blast
    obtain ps where ps: "plan_batch n gb' rb' = Some ps" using plan_batch_returns [OF 1(3)] by blast
    show ?thesis
    proof (cases "gb' \<noteq> [] \<and> rb' \<noteq> [] \<and> wsum 64 gb' = wsum 64 rb'")
      case True
      with 1(1) [OF ne nl refl refl refl True ps 1(3)] ne nl ps show ?thesis by (subst balance_loop.simps) auto
    next
      case False
      with 1(2) [OF ne nl refl refl refl False 1(3)] ne nl show ?thesis by (subst balance_loop.simps) auto
    qed
  qed
qed

lemma minimize_transfer_swap_spec:
  assumes "sum_list input < 2 ^ 64" and "0 < m" and "0 < n"
  shows "\<exists>ps. minimize_transfer_swap input m n = Some ps
       \<and> (\<forall>p \<in> set ps. conserves p \<and> length (leaves_to_give p) \<le> n) \<and> mset (all_given ps) \<subseteq># mset input"
proof -
  define opt where "opt = swap_minimizing_leaves (wsum 64 input) m"
  define g where "g = counter_to_flat_array (subtract_counters (count_occurrences input) (count_occurrences opt))"
  define r where "r = counter_to_flat_array (subtract_counters (count_occurrences opt) (count_occurrences input))"
  have ms: "mset g = mset input - mset opt" "mset r = mset opt - mset input"
    by (simp_all only: g_def r_def counters_are_multisets)
  have opt: "sum_list opt = sum_list input" using swap_minimizing_leaves_facts(1) assms by (simp add: opt_def)
  have "mset g \<subseteq># mset input" "mset r \<subseteq># mset opt" by (simp_all add: ms)
  then have le: "sum_list g \<le> sum_list input" "sum_list r \<le> sum_list opt"
    by (simp_all add: submset_sum_le)
  show ?thesis
  proof (cases "wsum 64 g = wsum 64 r")
    case False
    then show ?thesis by (simp add: minimize_transfer_swap_def Let_def flip: opt_def g_def r_def)
  next
    case True
    from balance_loop_returns [OF assms(3)] obtain out where out: "balance_loop n g r [] [] [] = Some out" by blast
    have "sum_list g < 2 ^ 64" "sum_list r < 2 ^ 64" using le opt assms(1) by simp_all
    with balance_loop_spec [OF out] obtain ps where
      ps: "out = ps" "\<forall>p \<in> set ps. conserves p \<and> length (leaves_to_give p) \<le> n" "mset (all_given ps) \<subseteq># mset g" by auto
    then have "mset (all_given ps) \<subseteq># mset input" using \<open>mset g \<subseteq># mset input\<close> subset_mset.order_trans by blast
    with True out ps show ?thesis by (simp add: minimize_transfer_swap_def Let_def flip: opt_def g_def r_def)
  qed
qed

lemma maximize_unilateral_exit_spec:
  assumes "sum_list input < 2 ^ 64" and "0 < n"
  shows "(\<forall>p \<in> set (maximize_unilateral_exit input n). conserves p \<and> length (leaves_to_give p) \<le> n)
       \<and> mset (all_given (maximize_unilateral_exit input n)) \<subseteq># mset input"
proof -
  obtain batch swaps where B: "batches_loop n (sort input) [] [] = (batch, swaps)" by fastforce
  have sum: "sum_list (sort input) = sum_list input" by (metis mset_sort sum_mset_sum_list)
  with assms batches_loop_spec [OF B] have S: "\<forall>p \<in> set swaps. conserves p \<and> length (leaves_to_give p) \<le> n"
    "mset (all_given swaps) + mset batch \<subseteq># mset input" "length batch < n" by auto
  have "sum_list batch \<le> sum_list input"
    using S(2) by (intro submset_sum_le) (meson mset_subset_eq_add_right subset_mset.order_trans)
  then have c: "conserves \<lparr>leaves_to_give = batch, leaves_to_receive = greedy_leaves (wsum 64 batch)\<rparr>"
    using wsum_greedy [of batch] assms(1) by (simp add: conserves_def del: wsum_exact)
  have "mset (all_given swaps) \<subseteq># mset input"
    using S(2) by (meson mset_subset_eq_add_left subset_mset.order_trans)
  with B S c show ?thesis by (auto simp: maximize_unilateral_exit_def Let_def)
qed

lemma subseq_of_map: "subseq xs (map f l) \<Longrightarrow> \<exists>zs. subseq zs l \<and> xs = map f zs"
  by (auto simp: subseq_conv_nths nths_map)

lemma pow2_is_power_of_two: "pow2 v \<Longrightarrow> is_power_of_two v"
proof -
  have "((2::nat) ^ k AND (2 ^ k - 1)) = 0" for k
  proof (induction k)
    case 0
    then show ?case by simp
  next
    case (Suc k)
    have "Suc (2 ^ k - 1) = (2::nat) ^ k" by simp
    with and_pred_even [of "2 ^ k - 1"] Suc show ?case by simp
  qed
  then show "pow2 v \<Longrightarrow> is_power_of_two v" by (auto simp: pow2_def is_power_of_two_def)
qed

section \<open>Properties\<close>

text \<open>The greedy decomposition of a 64-bit amount is its binary representation: distinct powers of two in
  ascending order that sum to the amount.\<close>

theorem greedy_leaves_binary:
  assumes "v < 2 ^ 64"
  shows "sum_list (greedy_leaves v) = v \<and> sorted (greedy_leaves v) \<and> distinct (greedy_leaves v)
       \<and> (\<forall>b \<in> set (greedy_leaves v). \<exists>k. b = 2 ^ k)"
  using greedy_leaves_facts [OF assms] by (auto simp: pow2_def)

theorem greedy_leaves_binary_witness: "sum_list (greedy_leaves 1000) = 1000 \<and> sorted (greedy_leaves 1000)"
  using greedy_leaves_binary [of 1000] by simp

text \<open>C33. What the optimizer is for: a wallet whose leaf values are the optimal set for its balance, with a
  multiplicity of at least one, can pay every amount up to its balance from its leaves alone, and the
  selection used for payments finds such leaves.\<close>

theorem optimal_leaves_pay_any_amount:
  assumes "mset (values_of leaves) = mset (swap_minimizing_leaves balance m)"
    and "balance < 2 ^ 64" and "0 < m" and "0 < t" and "t \<le> balance"
  shows "\<exists>sel. select_leaves_by_exact_amount leaves t = Ok (Some sel)
           \<and> mset sel \<subseteq># mset leaves \<and> sum_list (values_of sel) = t"
proof -
  note F = swap_minimizing_leaves_facts [OF assms(2,3)]
  from F(3) [OF assms(5)] obtain ys where ys: "mset ys \<subseteq># mset (values_of leaves)" "sum_list ys = t"
    using assms(1) by metis
  from submset_subseq [OF ys(1)] subseq_of_map obtain zs where
    zs: "subseq zs leaves" "mset (values_of zs) = mset ys" by metis
  have "sum_list (values_of zs) = t" using zs(2) ys(2) by (metis sum_mset_sum_list)
  moreover have "is_power_of_two (tn_value z)" if "z \<in> set zs" for z
  proof -
    from that subseq_set [OF zs(1)] have "tn_value z \<in> set (values_of leaves)" by auto
    then have "tn_value z \<in> set (swap_minimizing_leaves balance m)"
      using assms(1) by (metis set_mset_mset)
    with F(2) show ?thesis by (auto intro: pow2_is_power_of_two)
  qed
  moreover have "sum_list (values_of leaves) < 2 ^ 64" using F(1) assms(1,2) by (metis sum_mset_sum_list)
  ultimately show ?thesis
    using exact_amount_search_complete [OF subseq_submset [OF zs(1)]] assms(4) by blast
qed

theorem optimal_leaves_pay_any_amount_witness:
  "\<exists>leaves sel. values_of leaves = swap_minimizing_leaves 10 1
     \<and> select_leaves_by_exact_amount leaves 9 = Ok (Some sel) \<and> sum_list (values_of sel) = 9"
proof -
  let ?ls = "map (\<lambda>v. sample_leaf ''x'' v 0) (swap_minimizing_leaves 10 1)"
  have v: "values_of ?ls = swap_minimizing_leaves 10 1" by (simp add: comp_def)
  have "mset (values_of ?ls) = mset (swap_minimizing_leaves 10 1)" by (simp only: v)
  from optimal_leaves_pay_any_amount [OF this, of 9] obtain sel where
    "select_leaves_by_exact_amount ?ls 9 = Ok (Some sel)" "sum_list (values_of sel) = 9" by auto
  with v show ?thesis by (intro exI [of _ ?ls] exI [of _ sel] conjI)
qed

text \<open>C35. Optimization plans are sound: with a positive limit the planner returns, every swap it plans gives and
  receives the same amount and gives at most the limit of leaves, and the leaves all swaps give are leaves of the
  wallet, each used once.\<close>

theorem optimization_plans_sound:
  assumes "sum_list input < 2 ^ 64" and "0 < n"
  shows "\<exists>ps. calculate_optimization_swaps input m n = Some ps
       \<and> (\<forall>p \<in> set ps. sum_list (leaves_to_give p) = sum_list (leaves_to_receive p)
            \<and> length (leaves_to_give p) \<le> n)
       \<and> mset (concat (map leaves_to_give ps)) \<subseteq># mset input"
proof (cases "m = 0")
  case True
  with maximize_unilateral_exit_spec [OF assms] show ?thesis
    by (simp add: calculate_optimization_swaps_def conserves_def all_given_def)
next
  case False
  with minimize_transfer_swap_spec [OF assms(1) _ assms(2)] show ?thesis
    by (simp add: calculate_optimization_swaps_def conserves_def all_given_def)
qed

theorem optimization_plans_sound_witness:
  "\<exists>ps. calculate_optimization_swaps [100, 7] 1 64 = Some ps
     \<and> list_all (\<lambda>p. sum_list (leaves_to_give p) = sum_list (leaves_to_receive p)) ps"
  using optimization_plans_sound [of "[100, 7]" 64 1] by (auto simp: list_all_iff)

section \<open>The rounds release their reservations\<close>

lemma try_reserve_keys:
  assumes "process_try_reserve_leaves i st ta exact p = (st', x)"
  shows "(\<exists>r. x = Ok (Success r) \<and> lr_id r = i
            \<and> set (hm_keys (leaves_reservations st')) = insert i (set (hm_keys (leaves_reservations st))))
       \<or> ((\<forall>r. x \<noteq> Ok (Success r)) \<and> st' = st)"
proof -
  have R: "case reserve_internal i st sel p c of Err e \<Rightarrow> True
      | Ok (st1, i') \<Rightarrow> i' = i \<and> set (hm_keys (leaves_reservations st1)) = insert i (set (hm_keys (leaves_reservations st)))"
    for sel c by (simp add: reserve_internal_def split: prod.split)
  show ?thesis
  proof (cases "select_leaves_by_target_amounts (available_nodes st) ta")
    case (Inr t)
    with assms R [of "selected_leaves t" 0] show ?thesis
      by (cases "reserve_internal i st (selected_leaves t) p 0")
        (auto simp: process_try_reserve_leaves_def Let_def new_reservation_def)
  next
    case (Inl e)
    let ?T = "target_amount_of ta"
    consider sel where "\<not> exact" "select_leaves_by_minimum_amount (available_nodes st) ?T = Ok (Some sel)"
      | "exact \<or> (\<forall>sel. select_leaves_by_minimum_amount (available_nodes st) ?T \<noteq> Ok (Some sel))" by blast
    then show ?thesis
    proof cases
      case (1 sel)
      let ?c = "pending_change (leaves_sum sel) ?T"
      from 1 Inl assms R [of sel ?c] show ?thesis
        by (cases "reserve_internal i st sel p ?c")
          (auto simp: process_try_reserve_leaves_def Let_def new_reservation_def target_amount_of_def)
    next
      case 2
      then have "process_try_reserve_leaves i st ta exact p =
          (st, Ok (wait_or_insufficient ?T (available_balance st) (pending_balance st)))"
        using Inl by (auto simp: process_try_reserve_leaves_def Let_def target_amount_of_def
            split: sum.split option.split)
      with assms show ?thesis by auto
    qed
  qed
qed

text \<open>What the service provider promises here: the leaves a swap returns can be matched to the target.\<close>

definition swap_selectable :: "tree_env \<Rightarrow> bool" where
  "swap_selectable env \<longleftrightarrow>
     (\<forall>ls ta new. swap_leaves_internal env ls ta = Some (Ok new) \<longrightarrow> is_ok (select_leaves_by_target_amounts new ta))"

lemma finish_selection_keys:
  assumes "finish_selection env t st r ta = Some (st', x)" and "swap_selectable env"
    and "lr_id r \<in> set (hm_keys (leaves_reservations st))"
  shows "(case x of
            Ok r' \<Rightarrow> lr_id r' = lr_id r
              \<and> set (hm_keys (leaves_reservations st')) = set (hm_keys (leaves_reservations st))
          | Err e \<Rightarrow> set (hm_keys (leaves_reservations st')) = set (hm_keys (leaves_reservations st)) - {lr_id r})"
proof -
  from assms(1) obtain st1 y where R: "renew_reservation_timelocks env (tu_now t) st r = Some (st1, y)"
    by (auto simp: finish_selection_def bind_eq_Some_conv)
  from R show ?thesis
  proof (cases rule: renew_reservation_cases)
    case (failed e)
    with assms(1) R show ?thesis by (auto simp: finish_selection_def)
  next
    case (renewed nodes)
    let ?r = "new_reservation nodes (lr_id r)"
    have id: "lr_id ?r = lr_id r" by (simp add: new_reservation_def)
    show ?thesis
    proof (cases "reservation_matches_target ?r ta")
      case True
      with assms(1) R renewed show ?thesis by (auto simp: finish_selection_def id)
    next
      case False
      with assms(1) R renewed have P: "perform_swap_and_update_reservation env t st ?r ta = Some (st', x)"
        by (auto simp: finish_selection_def)
      obtain e0 where e0: "hm_get (leaves_reservations st) (lr_id ?r) = Some e0"
        using assms(3) by (auto simp: id hm_keys_get)
      from P e0 show ?thesis
      proof (cases rule: perform_swap_cases)
        case (no_swap e)
        then show ?thesis by (simp add: id cancel_reservations)
      next
        case (unselectable new e)
        with assms(2) have "is_ok (select_leaves_by_target_amounts new ta)" unfolding swap_selectable_def by blast
        with unselectable show ?thesis by simp
      next
        case (swapped new tl)
        with e0 assms(3) show ?thesis
          by (auto simp: process_update_reservation_def Let_def new_reservation_def split: option.splits)
      qed
    qed
  qed
qed

lemma single_attempt_keys:
  assumes "select_leaves env ta p 0 [no_wait_attempt t] st = Some (st', x)" and "swap_selectable env"
  shows "(case x of
            Some (Ok r) \<Rightarrow> set (hm_keys (leaves_reservations st')) \<subseteq> insert (lr_id r) (set (hm_keys (leaves_reservations st)))
          | _ \<Rightarrow> set (hm_keys (leaves_reservations st')) \<subseteq> set (hm_keys (leaves_reservations st)))"
proof -
  obtain st1 y where E: "process_try_reserve_leaves (tu_id t) st ta False p = (st1, y)" by fastforce
  from try_reserve_keys [OF E] consider
    (success) r where "y = Ok (Success r)" "lr_id r = tu_id t"
      "set (hm_keys (leaves_reservations st1)) = insert (tu_id t) (set (hm_keys (leaves_reservations st)))"
    | (other) "\<forall>r. y \<noteq> Ok (Success r)" "st1 = st" by blast
  then show ?thesis
  proof cases
    case success
    with assms(1) E obtain z where F: "finish_selection env t st1 r ta = Some (st', z)" "x = Some z"
      by (auto simp: no_wait_attempt_def)
    have "lr_id r \<in> set (hm_keys (leaves_reservations st1))" using success by simp
    from finish_selection_keys [OF F(1) assms(2) this] success F(2) show ?thesis by (cases z) auto
  next
    case other
    with assms(1) E have "st' = st" "\<forall>r. x \<noteq> Some (Ok r)"
      by (auto simp: no_wait_attempt_def split: sum.splits ReserveResult.splits)
    then show ?thesis by (auto split: option.split sum.split)
  qed
qed

lemma optimization_round_cases:
  assumes "execute_optimization_rounds env i n ((swap, rd) # rest) lo st = Some (lo', st', r)"
  obtains
    (cancelled) "st' = rd_others rd st" "r = Ok False" "lo_events lo' = lo_events lo" "has_handler lo' = has_handler lo"
  | (skipped) lo1 st1 x where
      "select_leaves env (Some (ExactDenominations (leaves_to_give swap))) Swap 0 [no_wait_attempt (rd_turn rd)]
         (rd_others rd st) = Some (st1, x)" "\<forall>res. x \<noteq> Some (Ok res)"
      "execute_optimization_rounds env (Suc i) n rest lo1 st1 = Some (lo', st', r)"
      "lo_events lo1 = lo_events lo" "has_handler lo1 = has_handler lo"
  | (failed) st1 res e where
      "select_leaves env (Some (ExactDenominations (leaves_to_give swap))) Swap 0 [no_wait_attempt (rd_turn rd)]
         (rd_others rd st) = Some (st1, Some (Ok res))"
      "st' = process_cancel_reservation st1 (lr_id res)" "r = Err e"
      "lo_events lo' = lo_events lo" "has_handler lo' = has_handler lo"
  | (swapped) lo1 st1 res new where
      "select_leaves env (Some (ExactDenominations (leaves_to_give swap))) Swap 0 [no_wait_attempt (rd_turn rd)]
         (rd_others rd st) = Some (st1, Some (Ok res))"
      "lo_events lo1 = lo_events lo" "has_handler lo1 = has_handler lo"
      "execute_optimization_rounds env (Suc i) n rest (emit_event (RoundCompleted i n) lo1)
         (process_finalize_reservation (tu_now (rd_turn rd)) (tu_now' (rd_turn rd)) st1 (lr_id res) (Some new))
       = Some (lo', st', r)"
proof -
  define lo1 where "lo1 = (if rd_cancelled rd then cancel_optimization lo else lo)"
  have lo1: "lo_events lo1 = lo_events lo" "has_handler lo1 = has_handler lo"
    by (simp_all add: lo1_def cancel_optimization_def)
  let ?lo2 = "lo1\<lparr>lo_progress := \<lparr>is_running = True, current_round = i, total_rounds = n\<rparr>\<rparr>"
  show ?thesis
  proof (cases "cancel_flag lo1")
    case True
    with assms lo1 show ?thesis by (intro cancelled) (simp_all add: Let_def flip: lo1_def)
  next
    case False
    with assms obtain st1 x where
      S: "select_leaves env (Some (ExactDenominations (leaves_to_give swap))) Swap 0 [no_wait_attempt (rd_turn rd)]
          (rd_others rd st) = Some (st1, x)"
      by (auto simp: Let_def simp del: select_leaves.simps simp flip: lo1_def split: option.splits)
    consider (ok) res where "x = Some (Ok res)" | (skip) "\<forall>res. x \<noteq> Some (Ok res)" by blast
    then show ?thesis
    proof cases
      case skip
      then have "execute_optimization_rounds env (Suc i) n rest lo1 st1 = Some (lo', st', r)"
        using assms False S
        by (auto simp: Let_def simp del: select_leaves.simps simp flip: lo1_def split: option.splits sum.splits)
      with S skip lo1 show ?thesis by (intro skipped)
    next
      case ok
      show ?thesis
      proof (cases "te_swap_leaves env (lr_leaves res) (Some (leaves_to_receive swap))")
        case (Inl e)
        with assms False S ok lo1 show ?thesis
          by (intro failed [of st1 res]) (auto simp: Let_def simp del: select_leaves.simps simp flip: lo1_def)
      next
        case (Inr new)
        with assms False S ok lo1 show ?thesis
          by (intro swapped [of st1 res ?lo2 new]) (auto simp: Let_def simp del: select_leaves.simps simp flip: lo1_def)
      qed
    qed
  qed
qed

lemma optimization_rounds_events:
  assumes "execute_optimization_rounds env i n rounds lo st = Some (lo', st', r)" and "has_handler lo"
  shows "has_handler lo' \<and> (\<exists>ks. lo_events lo' = lo_events lo @ map (\<lambda>k. RoundCompleted k n) ks
     \<and> sorted_wrt (<) ks \<and> set ks \<subseteq> {i..<i + length rounds})"
  using assms
proof (induction rounds arbitrary: i lo st)
  case Nil
  then show ?case by simp
next
  case (Cons a rounds)
  obtain swap rd where a: "a = (swap, rd)" by (cases a)
  from Cons.prems(1) [unfolded a] show ?case
  proof (cases rule: optimization_round_cases)
    case (skipped lo1 st1 x)
    from Cons.IH [OF skipped(3)] skipped(4,5) Cons.prems(2) obtain ks where
      "has_handler lo'" "lo_events lo' = lo_events lo @ map (\<lambda>k. RoundCompleted k n) ks" "sorted_wrt (<) ks"
      "set ks \<subseteq> {Suc i..<Suc i + length rounds}" by auto
    then show ?thesis by (auto intro!: exI [of _ ks])
  next
    case (swapped lo1 st1 res new)
    from Cons.IH [OF swapped(4)] swapped(2,3) Cons.prems(2) obtain ks where
      "has_handler lo'" "lo_events lo' = lo_events lo @ RoundCompleted i n # map (\<lambda>k. RoundCompleted k n) ks"
      "sorted_wrt (<) ks" "set ks \<subseteq> {Suc i..<Suc i + length rounds}" by (auto simp: emit_event_def)
    then show ?thesis by (intro conjI exI [of _ "i # ks"]) auto
  qed (use Cons.prems(2) in auto)
qed

lemma run_optimization_cases:
  assumes "run_optimization_with_guard env rounds refresh lo st = Some (lo', st', r)"
  obtains
    (skip) "lo' = drop_guard (emit_event Skipped (lo\<lparr>cancel_flag := False\<rparr>))" "st' = st" "r = Ok ()"
  | (ran) n rs lo1 lo2 st2 r2 last where
      "lo1 = emit_event (Started n) (lo\<lparr>cancel_flag := False, lo_progress := (lo_progress lo)\<lparr>current_round := 0, total_rounds := n\<rparr>\<rparr>)"
      "lo_events lo1 = lo_events lo @ (if has_handler lo then [Started n] else []) \<and> has_handler lo1 = has_handler lo"
      "length rs = n"
      "execute_optimization_rounds env 1 n rs lo1 st = Some (lo2, st2, r2)"
      "lo' = drop_guard (emit_event last lo2)"
      "case r of Ok u \<Rightarrow> last = Completed \<or> last = Cancelled | Err e \<Rightarrow> last = Failed e"
proof -
  let ?leaves = "lv_available (process_get_leaves st)"
  let ?lo = "lo\<lparr>cancel_flag := False\<rparr>"
  show ?thesis
  proof (cases "?leaves = [] \<or> \<not> should_optimize (lo_config ?lo) ?leaves")
    case True
    with assms show ?thesis by (intro skip) (auto simp: run_optimization_with_guard_def Let_def)
  next
    case False
    with assms obtain swaps where P: "calculate_optimization_swaps (values_of ?leaves) (multiplicity (lo_config ?lo))
        (max_leaves_per_swap (lo_config ?lo)) = Some swaps"
      by (auto simp: run_optimization_with_guard_def Let_def split: option.splits)
    show ?thesis
    proof (cases "swaps = []")
      case True
      with assms False P show ?thesis by (intro skip) (auto simp: run_optimization_with_guard_def Let_def)
    next
      case ne: False
      let ?n = "length swaps" and ?rs = "zip swaps (map rounds [0..<length swaps])"
      define lo1 where "lo1 = emit_event (Started ?n)
        (?lo\<lparr>lo_progress := (lo_progress ?lo)\<lparr>current_round := 0, total_rounds := ?n\<rparr>\<rparr>)"
      from assms False P ne obtain lo2 st2 r2 where R: "execute_optimization_rounds env 1 ?n ?rs lo1 st = Some (lo2, st2, r2)"
        by (auto simp: run_optimization_with_guard_def Let_def lo1_def split: option.splits)
      show ?thesis
        by (rule ran [OF _ _ _ R, of "case r2 of Ok b \<Rightarrow> if b then Completed else Cancelled | Err e \<Rightarrow> Failed e"])
          (use assms False P ne R in \<open>auto simp: lo1_def emit_event_def run_optimization_with_guard_def Let_def
             split: sum.splits bool.splits\<close>)
    qed
  qed
qed

text \<open>The optimizer gives every reservation back: however the rounds end, completed, cancelled or failed, the
  store holds no reservation that was not there before. The swap is assumed to return leaves that match its
  target, and other tasks to add no reservations of their own.\<close>

theorem optimization_rounds_release:
  assumes "execute_optimization_rounds env i n rounds lo st = Some (lo', st', r)"
    and "swap_selectable env"
    and "\<forall>(swap, rd) \<in> set rounds. \<forall>s. set (hm_keys (leaves_reservations (rd_others rd s)))
           \<subseteq> set (hm_keys (leaves_reservations s))"
  shows "set (hm_keys (leaves_reservations st')) \<subseteq> set (hm_keys (leaves_reservations st))"
  using assms
proof (induction rounds arbitrary: i lo st)
  case Nil
  then show ?case by simp
next
  case (Cons a rounds)
  obtain swap rd where a: "a = (swap, rd)" by (cases a)
  let ?st = "rd_others rd st"
  have o: "set (hm_keys (leaves_reservations ?st)) \<subseteq> set (hm_keys (leaves_reservations st))"
    using Cons.prems(3) a by auto
  have rest: "set (hm_keys (leaves_reservations st')) \<subseteq> set (hm_keys (leaves_reservations st2))"
    if "execute_optimization_rounds env (Suc i) n rounds lo2 st2 = Some (lo', st', r)" for lo2 st2
    using Cons.IH [OF that] Cons.prems(2,3) by simp
  from Cons.prems(1) [unfolded a] show ?case
  proof (cases rule: optimization_round_cases)
    case cancelled
    with o show ?thesis by simp
  next
    case (skipped lo1 st1 x)
    note K = single_attempt_keys [OF skipped(1) Cons.prems(2)]
    from rest [OF skipped(3)] K skipped(2) o show ?thesis by (auto split: option.splits sum.splits)
  next
    case (failed st1 res e)
    with single_attempt_keys [OF failed(1) Cons.prems(2)] o show ?thesis by (auto simp: cancel_reservations)
  next
    case (swapped lo1 st1 res new)
    from rest [OF swapped(4)] single_attempt_keys [OF swapped(1) Cons.prems(2)] o show ?thesis
      by (auto simp: finalize_reservations)
  qed
qed

theorem optimization_rounds_release_witness:
  "\<exists>lo' st' e. execute_optimization_rounds (service_sample_env\<lparr>te_swap_leaves := (\<lambda>_ _. Err MaxRetriesExceeded)\<rparr>) 1 1
      [(\<lparr>leaves_to_give = [4], leaves_to_receive = [2, 2]\<rparr>,
        \<lparr>rd_cancelled = False, rd_turn = sample_turn, rd_others = (\<lambda>s. s)\<rparr>)] (new_optimizer default_options True)
      (process_add_leaves 1 default_leaves_state [sample_leaf ''a'' 4 2000]) = Some (lo', st', Err e)
    \<and> hm_keys (leaves_reservations st') = []"
proof -
  let ?env = "service_sample_env\<lparr>te_swap_leaves := (\<lambda>_ _. Err MaxRetriesExceeded)\<rparr>"
  let ?st = "process_add_leaves 1 default_leaves_state [sample_leaf ''a'' 4 2000]"
  let ?rs = "[(\<lparr>leaves_to_give = [4], leaves_to_receive = [2, 2]\<rparr>,
        \<lparr>rd_cancelled = False, rd_turn = sample_turn, rd_others = (\<lambda>s. s)\<rparr>)]"
  let ?ta = "ExactDenominations [4]" and ?r = "new_reservation [sample_leaf ''a'' 4 2000] ''r1''"
  have inv: "store_inv ?st" using store_inv_default
    by (rule store_inv_add) (simp add: default_leaves_state_def)
  have av: "available_nodes ?st = [sample_leaf ''a'' 4 2000]"
    by (simp add: available_nodes_def default_leaves_state_def Let_def hm_insert_def hm_values_def)
  have sel: "select_leaves_by_target_amounts [sample_leaf ''a'' 4 2000] (Some ?ta) =
      Ok (new_target_leaves [sample_leaf ''a'' 4 2000] None)"
    by (simp add: select_leaves_by_target_amounts_def select_leaves_by_exact_denominations_def
        find_exact_single_match_def)
  from exact_match_reserves [OF inv, of "Some ?ta" _ "''r1''" False Swap] sel av
  obtain st1 where E: "process_try_reserve_leaves ''r1'' ?st (Some ?ta) False Swap = (st1, Ok (Success ?r))"
    by (fastforce simp: selected_leaves_def new_target_leaves_def)
  have m: "reservation_matches_target ?r (Some ?ta)"
    using sel by (simp add: reservation_matches_target_def reservation_sum_def new_reservation_def leaves_sum_def
        wsum_def)
  have "check_renew_nodes ?env [sample_leaf ''a'' 4 2000] = Some (Ok [sample_leaf ''a'' 4 2000])"
    by (simp add: check_renew_nodes_def sort_node_def needs_refund_tx_renewed_def refund_sequence_def
        sample_leaf_def first_sequence_def Let_def no_renewals_def word_le_nat_alt)
  with E m have "select_leaves ?env (Some ?ta) Swap 0 [no_wait_attempt sample_turn] ?st = Some (st1, Some (Ok ?r))"
    by (simp add: no_wait_attempt_def sample_turn_def finish_selection_def renew_reservation_timelocks_def
        new_reservation_def del: process_add_leaves.simps)
  then obtain lo' st' e where
    X: "execute_optimization_rounds ?env 1 1 ?rs (new_optimizer default_options True) ?st = Some (lo', st', Err e)"
    by (simp add: Let_def new_optimizer_def del: select_leaves.simps process_add_leaves.simps)
  have "swap_selectable ?env" by (auto simp: swap_selectable_def swap_leaves_internal_def)
  from optimization_rounds_release [OF X this] X show ?thesis by (auto simp: default_leaves_state_def)
qed

text \<open>The life of an optimization run, as its listener sees it: a run that does anything starts with the
  number of rounds, reports completed rounds by increasing number within that range, and closes with exactly
  one event that agrees with the result; the progress is reset and so a new run can start, whatever happened.\<close>

theorem optimization_run_events:
  assumes "run_optimization_with_guard env rounds refresh lo st = Some (lo', st', r)" and "has_handler lo"
  shows "\<exists>evs. lo_events lo' = lo_events lo @ evs \<and> snd (start_optimization lo') \<and>
     (evs = [Skipped] \<and> r = Ok () \<and> st' = st
      \<or> (\<exists>n ks last. evs = Started n # map (\<lambda>k. RoundCompleted k n) ks @ [last]
           \<and> sorted_wrt (<) ks \<and> set ks \<subseteq> {1..n}
           \<and> (case r of Ok u \<Rightarrow> last = Completed \<or> last = Cancelled | Err e \<Rightarrow> last = Failed e)))"
proof -
  let ?lo = "lo\<lparr>cancel_flag := False\<rparr>"
  from assms(1) show ?thesis
  proof (cases rule: run_optimization_cases)
    case skip
    then show ?thesis
      using assms(2) by (simp add: emit_event_def drop_guard_def start_optimization_def default_progress_def)
  next
    case (ran n rs lo1 lo2 st2 r2 last)
    from optimization_rounds_events [OF ran(4)] ran(2,3) assms(2) obtain ks where
      ks: "lo_events lo2 = lo_events lo1 @ map (\<lambda>k. RoundCompleted k n) ks" "sorted_wrt (<) ks" "set ks \<subseteq> {1..<1 + length rs}"
      "has_handler lo2" by (auto simp: emit_event_def)
    have ev: "lo_events lo' = lo_events lo @ Started n # map (\<lambda>k. RoundCompleted k n) ks @ [last]"
      using ks(1,4) ran(2,5) assms(2) by (simp add: emit_event_def drop_guard_def)
    have st: "snd (start_optimization lo')"
      using ran(5) by (simp add: drop_guard_def start_optimization_def default_progress_def)
    show ?thesis
      by (rule exI [of _ "Started n # map (\<lambda>k. RoundCompleted k n) ks @ [last]"])
        (use ev st ks(2,3) ran(3,6) in force)
  qed
qed

theorem optimization_run_events_witness:
  "\<exists>evs lo'. run_optimization_with_guard service_sample_env (\<lambda>_. \<lparr>rd_cancelled = False, rd_turn = sample_turn, rd_others = (\<lambda>s. s)\<rparr>)
      (\<lambda>s. s) \<lparr>lo_config = default_options, lo_progress = \<lparr>is_running = True, current_round = 0, total_rounds = 0\<rparr>,
        cancel_flag = True, has_handler = True, lo_events = []\<rparr> default_leaves_state = Some (lo', default_leaves_state, Ok ())
     \<and> lo_events lo' = evs \<and> last evs \<in> {Skipped, Completed, Cancelled}"
  (is "\<exists>evs lo'. run_optimization_with_guard _ ?rd ?rf ?lo _ = _ \<and> _ \<and> _")
proof -
  obtain lo' where run: "run_optimization_with_guard service_sample_env ?rd ?rf ?lo default_leaves_state
      = Some (lo', default_leaves_state, Ok ())"
    by (fastforce simp: run_optimization_with_guard_def process_get_leaves_def default_leaves_state_def
        available_nodes_def hm_values_def Let_def)
  from optimization_run_events [OF run] run show ?thesis by fastforce
qed

text \<open>A cancellation that arrives after \<open>start\<close> returned and before the spawned task begins is lost: the task
  resets the flag first, and the whole run is the one without the cancellation.\<close>

theorem early_cancel_is_lost:
  "(let lo1 = fst (start_optimization (new_optimizer config handler)) in
    cancel_flag (cancel_optimization lo1)
    \<and> run_optimization_with_guard env rounds refresh (cancel_optimization lo1) st
      = run_optimization_with_guard env rounds refresh lo1 st)"
  by (simp add: start_optimization_def new_optimizer_def default_progress_def cancel_optimization_def
      run_optimization_with_guard_def)

end
