(* ===== verification/Token_Store.thy ===== *)
theory Token_Store
  imports Tree_Model Reservation_Scope
begin

text \<open>
  The in-memory token output store: \<open>crates/spark/src/token/store/mod.rs\<close>, with the types of
  \<open>crates/spark/src/token/mod.rs\<close>; the errors of \<open>crates/spark/src/token/error.rs\<close> are in \<open>Tree_Model\<close>.

  A mutex guards the state, so every operation is a function on \<open>TokenOutputsState\<close>; clock readings and new
  identifiers are arguments. Token amounts are \<open>u128\<close>. The invariant is that an output of a token is
  either available or in one reservation, and that the token of every reservation is known to the pool, so
  that cancelling never loses outputs.
\<close>

section \<open>Types\<close>

record TokenMetadata =
  tm_identifier :: string
  issuer_public_key :: public_key
  tm_name :: string
  ticker :: string
  decimals :: u32
  max_supply :: u128
  is_freezable :: bool
  creation_entity_public_key :: "public_key option"

record TokenOutput =
  to_id :: string
  owner_public_key :: public_key
  revocation_commitment :: string
  withdraw_bond_sats :: u64
  withdraw_relative_block_locktime :: u64
  token_public_key :: "public_key option"
  token_identifier :: string
  token_amount :: u128

record TokenOutputWithPrevOut =
  tw_output :: TokenOutput
  prev_tx_hash :: string
  prev_tx_vout :: u32

record TokenOutputs =
  tos_metadata :: TokenMetadata
  tos_outputs :: "TokenOutputWithPrevOut list"

record TokenOutputsPerStatus =
  tps_metadata :: TokenMetadata
  tps_available :: "TokenOutputWithPrevOut list"
  tps_reserved_for_payment :: "TokenOutputWithPrevOut list"
  tps_reserved_for_swap :: "TokenOutputWithPrevOut list"

abbreviation amounts_of :: "TokenOutputWithPrevOut list \<Rightarrow> nat list" where
  "amounts_of os \<equiv> map (\<lambda>w. token_amount (tw_output w)) os"

definition tps_available_balance :: "TokenOutputsPerStatus \<Rightarrow> u128" where
  "tps_available_balance t = wsum 128 (amounts_of (tps_available t))"

definition reserved_for_swap_balance :: "TokenOutputsPerStatus \<Rightarrow> u128" where
  "reserved_for_swap_balance t = wsum 128 (amounts_of (tps_reserved_for_swap t))"

definition token_balance :: "TokenOutputsPerStatus \<Rightarrow> u128" where
  "token_balance t = wadd 128 (tps_available_balance t) (reserved_for_swap_balance t)"

type_synonym TokenOutputsReservationId = string

record TokenOutputsReservation =
  tr_id :: TokenOutputsReservationId
  tr_token_outputs :: TokenOutputs

datatype SelectionStrategy = SmallestFirst | LargestFirst
datatype ReservationTarget = MinTotalValue u128 | MaxOutputCount nat
datatype TokenReservationPurpose = TokenPayment | TokenSwap
datatype GetTokenOutputsFilter = Identifier string | IssuerPublicKey public_key

section \<open>State\<close>

record StoredTokenOutput =
  so_output :: TokenOutputWithPrevOut
  so_added_at :: system_time

record TokenOutputsEntry =
  te_metadata :: TokenMetadata
  stored_outputs :: "StoredTokenOutput list"
  te_purpose :: TokenReservationPurpose

type_synonym output_pool = "(string, StoredTokenOutput) hmap"

record AvailableTokenOutputs =
  ato_metadata :: TokenMetadata
  ato_outputs :: output_pool

type_synonym token_pool = "(string, AvailableTokenOutputs) hmap"

record TokenOutputsState =
  available_token_outputs :: token_pool
  tk_reservations :: "(TokenOutputsReservationId, TokenOutputsEntry) hmap"
  spent_output_ids :: "(string, system_time) hmap"
  tk_last_swap_completed_at :: "system_time option"

definition default_token_state :: TokenOutputsState where
  "default_token_state = \<lparr>available_token_outputs = [], tk_reservations = [], spent_output_ids = [],
     tk_last_swap_completed_at = None\<rparr>"

definition output_vec :: "AvailableTokenOutputs \<Rightarrow> TokenOutputWithPrevOut list" where
  "output_vec a = map so_output (hm_values (ato_outputs a))"

abbreviation output_id :: "TokenOutputWithPrevOut \<Rightarrow> string" where
  "output_id w \<equiv> to_id (tw_output w)"

abbreviation stored_output_id :: "StoredTokenOutput \<Rightarrow> string" where
  "stored_output_id s \<equiv> output_id (so_output s)"

abbreviation entry_token :: "TokenOutputsEntry \<Rightarrow> string" where
  "entry_token e \<equiv> tm_identifier (te_metadata e)"

section \<open>Refreshing\<close>

definition token_entry :: "TokenMetadata \<Rightarrow> token_pool \<Rightarrow> AvailableTokenOutputs" where
  "token_entry md pool =
     unwrap_or (hm_get pool (tm_identifier md)) \<lparr>ato_metadata = md, ato_outputs = []\<rparr>"

fun build_pool :: "system_time \<Rightarrow> string set \<Rightarrow> TokenOutputs list \<Rightarrow> token_pool \<Rightarrow> token_pool" where
  "build_pool now spent [] pool = pool"
| "build_pool now spent (t # ts) pool =
     (let entry = token_entry (tos_metadata t) pool;
          outputs = hm_insert_all output_id (\<lambda>w. \<lparr>so_output = w, so_added_at = now\<rparr>)
                      (filter (\<lambda>w. output_id w \<notin> spent) (tos_outputs t)) (ato_outputs entry)
      in build_pool now spent ts
           (hm_insert (tm_identifier (tos_metadata t))
             (entry\<lparr>ato_metadata := tos_metadata t, ato_outputs := outputs\<rparr>) pool))"

definition already_exists :: "token_pool \<Rightarrow> string \<Rightarrow> bool" where
  "already_exists pool k = list_ex (\<lambda>a. hm_contains (ato_outputs a) k) (hm_values pool)"

fun preserve_outputs ::
  "system_time \<Rightarrow> (TokenMetadata \<times> string \<times> StoredTokenOutput) list \<Rightarrow> token_pool \<Rightarrow> token_pool" where
  "preserve_outputs started [] pool = pool"
| "preserve_outputs started ((md, k, s) # olds) pool =
     preserve_outputs started olds
       (if started \<le> so_added_at s \<and> \<not> already_exists pool k
        then let entry = token_entry md pool
             in hm_insert (tm_identifier md) (entry\<lparr>ato_outputs := hm_insert k s (ato_outputs entry)\<rparr>) pool
        else pool)"

definition old_outputs :: "token_pool \<Rightarrow> (TokenMetadata \<times> string \<times> StoredTokenOutput) list" where
  "old_outputs pool =
     concat (map (\<lambda>a. map (\<lambda>(k, s). (ato_metadata a, k, s)) (ato_outputs a)) (hm_values pool))"

fun reconcile ::
  "(TokenOutputsReservationId \<times> TokenOutputsEntry) list \<Rightarrow> token_pool \<Rightarrow>
   (TokenOutputsReservationId, TokenOutputsEntry) hmap \<Rightarrow>
   token_pool \<times> (TokenOutputsReservationId, TokenOutputsEntry) hmap" where
  "reconcile [] pool res = (pool, res)"
| "reconcile ((i, e) # es) pool res =
     (case hm_get pool (entry_token e) of
        None \<Rightarrow> reconcile es pool (hm_remove i res)
      | Some a \<Rightarrow>
          (let kept = filter (\<lambda>s. hm_contains (ato_outputs a) (stored_output_id s)) (stored_outputs e)
           in if kept = [] then reconcile es pool (hm_remove i res)
              else reconcile es
                     (hm_insert (entry_token e)
                       (a\<lparr>ato_outputs := hm_retain (\<lambda>k _. k \<notin> stored_output_id ` set kept) (ato_outputs a)\<rparr>) pool)
                     (hm_insert i (e\<lparr>stored_outputs := kept\<rparr>) res)))"

definition set_tokens_outputs ::
  "system_time \<Rightarrow> TokenOutputsState \<Rightarrow> TokenOutputs list \<Rightarrow> system_time \<Rightarrow> TokenOutputsState" where
  "set_tokens_outputs now st token_outputs refresh_started_at =
     (let has_swap = list_ex (\<lambda>e. te_purpose e = TokenSwap) (hm_values (tk_reservations st));
          swap_completed = (case tk_last_swap_completed_at st of None \<Rightarrow> False
                            | Some completed_at \<Rightarrow> refresh_started_at \<le> completed_at)
      in if has_swap \<or> swap_completed then st
         else
           let spent = hm_retain (\<lambda>_ spent_at. refresh_started_at \<le> spent_at) (spent_output_ids st);
               built = build_pool now (set (hm_keys spent)) token_outputs [];
               pool = preserve_outputs refresh_started_at (old_outputs (available_token_outputs st)) built
           in case reconcile (tk_reservations st) pool (tk_reservations st) of
                (pool', res') \<Rightarrow>
                  st\<lparr>available_token_outputs := pool', tk_reservations := res', spent_output_ids := spent\<rparr>)"

section \<open>Queries\<close>

definition reserved_outputs_for ::
  "TokenReservationPurpose \<Rightarrow> string \<Rightarrow> TokenOutputsState \<Rightarrow> TokenOutputWithPrevOut list" where
  "reserved_outputs_for p tid st =
     concat (map (\<lambda>e. map so_output (stored_outputs e))
       (filter (\<lambda>e. entry_token e = tid \<and> te_purpose e = p) (hm_values (tk_reservations st))))"

definition available_outputs_for :: "string \<Rightarrow> TokenOutputsState \<Rightarrow> TokenOutputWithPrevOut list" where
  "available_outputs_for tid st =
     (case hm_get (available_token_outputs st) tid of None \<Rightarrow> [] | Some a \<Rightarrow> output_vec a)"

definition per_status :: "TokenMetadata \<Rightarrow> string \<Rightarrow> TokenOutputsState \<Rightarrow> TokenOutputsPerStatus" where
  "per_status md tid st =
     \<lparr>tps_metadata = md, tps_available = available_outputs_for tid st,
      tps_reserved_for_payment = reserved_outputs_for TokenPayment tid st,
      tps_reserved_for_swap = reserved_outputs_for TokenSwap tid st\<rparr>"

definition find_token ::
  "GetTokenOutputsFilter \<Rightarrow> TokenOutputsState \<Rightarrow> TokenOutputServiceError + (string \<times> TokenMetadata)" where
  "find_token flt st =
     (let not_found = TkGeneric ''Token outputs not found'' in
      case flt of
        Identifier tid \<Rightarrow>
          (case hm_get (available_token_outputs st) tid of
             Some a \<Rightarrow> Ok (tid, ato_metadata a)
           | None \<Rightarrow>
               rbind (ok_or (find (\<lambda>e. entry_token e = tid) (hm_values (tk_reservations st))) not_found)
                 (\<lambda>e. Ok (tid, te_metadata e)))
      | IssuerPublicKey pk \<Rightarrow>
          (case find (\<lambda>a. issuer_public_key (ato_metadata a) = pk) (hm_values (available_token_outputs st)) of
             Some a \<Rightarrow> Ok (tm_identifier (ato_metadata a), ato_metadata a)
           | None \<Rightarrow>
               rbind (ok_or (find (\<lambda>e. issuer_public_key (te_metadata e) = pk) (hm_values (tk_reservations st)))
                        not_found)
                 (\<lambda>e. Ok (entry_token e, te_metadata e))))"

definition get_token_outputs ::
  "GetTokenOutputsFilter \<Rightarrow> TokenOutputsState \<Rightarrow> TokenOutputServiceError + TokenOutputsPerStatus" where
  "get_token_outputs flt st = rbind (find_token flt st) (\<lambda>(tid, md). Ok (per_status md tid st))"

text \<open>The tokens of the result, in some order: those of the pool, then those only reservations know.\<close>

fun reservation_tokens ::
  "TokenOutputsEntry list \<Rightarrow> (string, TokenMetadata) hmap \<Rightarrow> (string, TokenMetadata) hmap" where
  "reservation_tokens [] m = m"
| "reservation_tokens (e # es) m =
     reservation_tokens es (if hm_contains m (entry_token e) then m
                            else hm_insert (entry_token e) (te_metadata e) m)"

definition list_tokens_outputs :: "TokenOutputsState \<Rightarrow> TokenOutputsPerStatus list" where
  "list_tokens_outputs st =
     (let available = map (\<lambda>(tid, a). (tid, ato_metadata a)) (available_token_outputs st);
          tokens = reservation_tokens (hm_values (tk_reservations st)) available
      in map (\<lambda>(tid, md). per_status md tid st) tokens)"

section \<open>Inserting, reserving, cancelling, finalizing\<close>

fun insert_new :: "system_time \<Rightarrow> TokenOutputWithPrevOut list \<Rightarrow> output_pool \<Rightarrow> output_pool" where
  "insert_new now [] m = m"
| "insert_new now (w # ws) m =
     insert_new now ws (if hm_contains m (output_id w) then m
                        else hm_insert (output_id w) \<lparr>so_output = w, so_added_at = now\<rparr> m)"

definition insert_token_outputs :: "system_time \<Rightarrow> TokenOutputsState \<Rightarrow> TokenOutputs \<Rightarrow> TokenOutputsState" where
  "insert_token_outputs now st t =
     (let tid = tm_identifier (tos_metadata t);
          spent = foldl (\<lambda>m w. hm_remove (output_id w) m) (spent_output_ids st) (tos_outputs t);
          pool = available_token_outputs st;
          entry = (case hm_get pool tid of
             Some a \<Rightarrow> a\<lparr>ato_outputs := insert_new now (tos_outputs t) (ato_outputs a)\<rparr>
           | None \<Rightarrow> \<lparr>ato_metadata = tos_metadata t,
                      ato_outputs = hm_insert_all output_id (\<lambda>w. \<lparr>so_output = w, so_added_at = now\<rparr>)
                                      (tos_outputs t) []\<rparr>)
      in st\<lparr>spent_output_ids := spent, available_token_outputs := hm_insert tid entry pool\<rparr>)"

fun collect_amount ::
  "TokenOutputWithPrevOut list \<Rightarrow> u128 \<Rightarrow> TokenOutputWithPrevOut list \<Rightarrow> TokenOutputWithPrevOut list \<times> u128" where
  "collect_amount [] remaining selected = (selected, remaining)"
| "collect_amount (w # ws) remaining selected =
     (if remaining = 0 then (selected, remaining)
      else collect_amount ws (sat_sub remaining (token_amount (tw_output w))) (selected @ [w]))"

definition sort_outputs ::
  "SelectionStrategy option \<Rightarrow> TokenOutputWithPrevOut list \<Rightarrow> TokenOutputWithPrevOut list" where
  "sort_outputs strategy os =
     (case strategy of
        Some LargestFirst \<Rightarrow> sort_key (\<lambda>w. - int (token_amount (tw_output w))) os
      | _ \<Rightarrow> sort_key (\<lambda>w. token_amount (tw_output w)) os)"

definition select_outputs ::
  "ReservationTarget \<Rightarrow> SelectionStrategy option \<Rightarrow> TokenOutputWithPrevOut list \<Rightarrow>
   TokenOutputServiceError + TokenOutputWithPrevOut list" where
  "select_outputs target strategy outputs =
     (case target of
        MinTotalValue amount \<Rightarrow>
          if wsum 128 (amounts_of outputs) < amount then Err TkInsufficientFunds
          else (case find (\<lambda>w. token_amount (tw_output w) = amount) outputs of
                  Some w \<Rightarrow> Ok [w]
                | None \<Rightarrow>
                    (case collect_amount (sort_outputs strategy outputs) amount [] of
                       (selected, remaining) \<Rightarrow>
                         if 0 < remaining then Err TkInsufficientFunds else Ok selected))
      | MaxOutputCount cnt \<Rightarrow> Ok (take cnt (sort_outputs strategy outputs)))"

fun target_is_zero :: "ReservationTarget \<Rightarrow> TokenOutputServiceError option" where
  "target_is_zero (MinTotalValue amount) =
     (if amount = 0 then Some (TkGeneric ''Amount to reserve must be greater than zero'') else None)"
| "target_is_zero (MaxOutputCount cnt) =
     (if cnt = 0 then Some (TkGeneric ''Count to reserve must be greater than zero'') else None)"

definition candidate_outputs ::
  "TokenOutputWithPrevOut list option \<Rightarrow> AvailableTokenOutputs \<Rightarrow> TokenOutputWithPrevOut list" where
  "candidate_outputs preferred a =
     (case preferred of
        Some ps \<Rightarrow> filter (\<lambda>w. list_ex (\<lambda>p. output_id w = output_id p) ps) (output_vec a)
      | None \<Rightarrow> output_vec a)"

definition reserve_token_outputs ::
  "TokenOutputsReservationId \<Rightarrow> TokenOutputsState \<Rightarrow> string \<Rightarrow> ReservationTarget \<Rightarrow> TokenReservationPurpose \<Rightarrow>
   TokenOutputWithPrevOut list option \<Rightarrow> SelectionStrategy option \<Rightarrow>
   TokenOutputsState \<times> (TokenOutputServiceError + TokenOutputsReservation)" where
  "reserve_token_outputs i st tid target purpose preferred strategy =
     (case target_is_zero target of
        Some e \<Rightarrow> (st, Err e)
      | None \<Rightarrow>
          (case hm_get (available_token_outputs st) tid of
             None \<Rightarrow> (st, Err (TkGeneric (''Token outputs not found for identifier: '' @ tid)))
           | Some a \<Rightarrow>
               (case select_outputs target strategy (candidate_outputs preferred a) of
                  Err e \<Rightarrow> (st, Err e)
                | Ok selected \<Rightarrow>
                    (let stored = List.map_filter (\<lambda>w. hm_get (ato_outputs a) (output_id w)) selected;
                         remaining = hm_retain (\<lambda>k _. k \<notin> output_id ` set selected) (ato_outputs a)
                     in (st\<lparr>available_token_outputs :=
                              hm_insert tid (a\<lparr>ato_outputs := remaining\<rparr>) (available_token_outputs st),
                            tk_reservations :=
                              hm_insert i \<lparr>te_metadata = ato_metadata a, stored_outputs = stored, te_purpose = purpose\<rparr>
                                (tk_reservations st)\<rparr>,
                         Ok \<lparr>tr_id = i, tr_token_outputs = \<lparr>tos_metadata = ato_metadata a, tos_outputs = selected\<rparr>\<rparr>)))))"

definition token_cancel_reservation :: "TokenOutputsState \<Rightarrow> TokenOutputsReservationId \<Rightarrow> TokenOutputsState" where
  "token_cancel_reservation st i =
     (case hm_get (tk_reservations st) i of
        None \<Rightarrow> st
      | Some e \<Rightarrow>
          (let st1 = st\<lparr>tk_reservations := hm_remove i (tk_reservations st)\<rparr> in
           case hm_get (available_token_outputs st) (entry_token e) of
             None \<Rightarrow> st1
           | Some a \<Rightarrow>
               st1\<lparr>available_token_outputs :=
                 hm_insert (entry_token e)
                   (a\<lparr>ato_outputs := hm_insert_all stored_output_id (\<lambda>s. s) (stored_outputs e) (ato_outputs a)\<rparr>)
                   (available_token_outputs st)\<rparr>))"

definition token_finalize_reservation ::
  "system_time \<Rightarrow> TokenOutputsState \<Rightarrow> TokenOutputsReservationId \<Rightarrow> TokenOutputsState" where
  "token_finalize_reservation now st i =
     (case hm_get (tk_reservations st) i of
        None \<Rightarrow> st
      | Some e \<Rightarrow>
          st\<lparr>tk_reservations := hm_remove i (tk_reservations st),
             spent_output_ids :=
               hm_insert_all stored_output_id (\<lambda>_. now) (stored_outputs e) (spent_output_ids st),
             tk_last_swap_completed_at :=
               (if te_purpose e = TokenSwap then Some now else tk_last_swap_completed_at st)\<rparr>)"

definition with_reserved_token_outputs ::
  "system_time \<Rightarrow> (TokenOutputsState \<Rightarrow> TokenOutputsState \<times> ('e + 'r)) \<Rightarrow> TokenOutputsReservation \<Rightarrow>
   TokenOutputsState \<Rightarrow> TokenOutputsState \<times> ('e + 'r)" where
  "with_reserved_token_outputs now f reservation st =
     with_reserved (token_finalize_reservation now) token_cancel_reservation f (tr_id reservation) st"

section \<open>Invariant\<close>

definition outputs_ok :: "output_pool \<Rightarrow> bool" where
  "outputs_ok m \<longleftrightarrow> hm_ok m \<and> (\<forall>k s. hm_get m k = Some s \<longrightarrow> stored_output_id s = k)"

definition pool_ok :: "token_pool \<Rightarrow> bool" where
  "pool_ok pool \<longleftrightarrow>
     hm_ok pool \<and> (\<forall>tid a. hm_get pool tid = Some a \<longrightarrow> tm_identifier (ato_metadata a) = tid \<and> outputs_ok (ato_outputs a))"

definition pooled :: "token_pool \<Rightarrow> string \<times> string \<Rightarrow> bool" where
  "pooled pool x = (case hm_get pool (fst x) of None \<Rightarrow> False | Some a \<Rightarrow> hm_contains (ato_outputs a) (snd x))"

definition entry_outputs :: "TokenOutputsEntry \<Rightarrow> (string \<times> string) list" where
  "entry_outputs e = map (\<lambda>s. (entry_token e, stored_output_id s)) (stored_outputs e)"

definition entry_ok :: "token_pool \<Rightarrow> TokenOutputsEntry \<Rightarrow> bool" where
  "entry_ok pool e \<longleftrightarrow>
     hm_contains pool (entry_token e) \<and> (\<forall>x \<in> set (entry_outputs e). \<not> pooled pool x)"

definition disjoint_entries :: "(TokenOutputsReservationId, TokenOutputsEntry) hmap \<Rightarrow> bool" where
  "disjoint_entries res \<longleftrightarrow>
     (\<forall>i e. hm_get res i = Some e \<longrightarrow> distinct (entry_outputs e))
     \<and> (\<forall>i j e f. i \<noteq> j \<longrightarrow> hm_get res i = Some e \<longrightarrow> hm_get res j = Some f \<longrightarrow>
          set (entry_outputs e) \<inter> set (entry_outputs f) = {})"

definition token_inv :: "TokenOutputsState \<Rightarrow> bool" where
  "token_inv st \<longleftrightarrow>
     pool_ok (available_token_outputs st) \<and> hm_ok (tk_reservations st) \<and> disjoint_entries (tk_reservations st)
     \<and> (\<forall>i e. hm_get (tk_reservations st) i = Some e \<longrightarrow> entry_ok (available_token_outputs st) e)"

datatype TokenCommand =
    SetTokensOutputs "TokenOutputs list" system_time
  | InsertTokenOutputs TokenOutputs
  | ReserveTokenOutputs TokenOutputsReservationId string ReservationTarget TokenReservationPurpose
      "TokenOutputWithPrevOut list option" "SelectionStrategy option"
  | TokenCancel TokenOutputsReservationId
  | TokenFinalize TokenOutputsReservationId

definition token_command :: "system_time \<Rightarrow> TokenCommand \<Rightarrow> TokenOutputsState \<Rightarrow> TokenOutputsState" where
  "token_command now c st =
     (case c of
        SetTokensOutputs ts started \<Rightarrow> set_tokens_outputs now st ts started
      | InsertTokenOutputs t \<Rightarrow> insert_token_outputs now st t
      | ReserveTokenOutputs i tid target purpose preferred strategy \<Rightarrow>
          fst (reserve_token_outputs i st tid target purpose preferred strategy)
      | TokenCancel i \<Rightarrow> token_cancel_reservation st i
      | TokenFinalize i \<Rightarrow> token_finalize_reservation now st i)"

text \<open>What the callers guarantee: inserted outputs are not reserved at that moment, and identifiers of
  reservations are new.\<close>

fun fresh_token_command :: "TokenCommand \<Rightarrow> TokenOutputsState \<Rightarrow> bool" where
  "fresh_token_command (InsertTokenOutputs t) st =
     (\<forall>i e. hm_get (tk_reservations st) i = Some e \<longrightarrow>
        (\<forall>w \<in> set (tos_outputs t). (tm_identifier (tos_metadata t), output_id w) \<notin> set (entry_outputs e)))"
| "fresh_token_command (ReserveTokenOutputs i tid target purpose preferred strategy) st =
     (i \<notin> set (hm_keys (tk_reservations st)))"
| "fresh_token_command _ st = True"

inductive token_step :: "TokenOutputsState \<Rightarrow> TokenOutputsState \<Rightarrow> bool" where
  "fresh_token_command c st \<Longrightarrow> token_step st (token_command now c st)"

section \<open>Lemmas on the pool\<close>

lemma outputs_ok_Nil [simp]: "outputs_ok []"
  by (simp add: outputs_ok_def)

lemma outputs_ok_insert: "outputs_ok m \<Longrightarrow> stored_output_id s = k \<Longrightarrow> outputs_ok (hm_insert k s m)"
  by (simp add: outputs_ok_def)

lemma outputs_ok_insert_all:
  "outputs_ok m \<Longrightarrow> (\<And>x. x \<in> set xs \<Longrightarrow> stored_output_id (val x) = key x) \<Longrightarrow> outputs_ok (hm_insert_all key val xs m)"
  unfolding hm_insert_all_def by (induction xs arbitrary: m) (simp_all add: outputs_ok_insert)

lemma outputs_ok_retain: "outputs_ok m \<Longrightarrow> outputs_ok (hm_retain P m)"
  by (auto simp: outputs_ok_def hm_get_retain split: option.splits if_splits)

lemma pool_ok_Nil [simp]: "pool_ok []"
  by (simp add: pool_ok_def)

lemma pool_ok_insert:
  "pool_ok pool \<Longrightarrow> tm_identifier (ato_metadata a) = tid \<Longrightarrow> outputs_ok (ato_outputs a) \<Longrightarrow> pool_ok (hm_insert tid a pool)"
  by (simp add: pool_ok_def)

lemma pool_ok_get:
  "pool_ok pool \<Longrightarrow> hm_get pool tid = Some a \<Longrightarrow> tm_identifier (ato_metadata a) = tid \<and> outputs_ok (ato_outputs a)"
  by (simp add: pool_ok_def)

lemma token_entry_ok:
  "pool_ok pool \<Longrightarrow> tm_identifier (ato_metadata (token_entry md pool)) = tm_identifier md
     \<and> outputs_ok (ato_outputs (token_entry md pool))"
  by (cases "hm_get pool (tm_identifier md)") (simp_all add: token_entry_def pool_ok_get)

lemma build_pool_ok: "pool_ok pool \<Longrightarrow> pool_ok (build_pool now spent ts pool)"
  by (induction ts arbitrary: pool)
    (simp_all add: Let_def pool_ok_insert outputs_ok_insert_all token_entry_ok)

lemma preserve_outputs_ok:
  assumes "pool_ok pool" and "\<forall>(md, k, s) \<in> set olds. stored_output_id s = k"
  shows "pool_ok (preserve_outputs started olds pool)"
  using assms
proof (induction started olds pool rule: preserve_outputs.induct)
  case (1 started pool)
  then show ?case by simp
next
  case (2 started md k s olds pool)
  let ?e = "token_entry md pool"
  have "pool_ok (hm_insert (tm_identifier md) (?e\<lparr>ato_outputs := hm_insert k s (ato_outputs ?e)\<rparr>) pool)"
    using 2(2,3) token_entry_ok [of pool md] by (intro pool_ok_insert) (auto simp: outputs_ok_insert)
  with 2 show ?case by (simp add: Let_def)
qed

lemma old_outputs_keyed: "pool_ok pool \<Longrightarrow> \<forall>(md, k, s) \<in> set (old_outputs pool). stored_output_id s = k"
  by (auto simp: old_outputs_def pool_ok_def outputs_ok_def hm_values_iff hm_in_set)

lemma pooled_insert:
  "pooled (hm_insert tid a pool) x = (if fst x = tid then hm_contains (ato_outputs a) (snd x) else pooled pool x)"
  by (simp add: pooled_def)

lemma entry_ok_insert_shrink:
  assumes "entry_ok pool e" and "hm_get pool tid = Some a"
    and "\<And>k. hm_contains (ato_outputs a') k \<Longrightarrow> hm_contains (ato_outputs a) k"
  shows "entry_ok (hm_insert tid a' pool) e"
proof -
  have "\<not> pooled (hm_insert tid a' pool) x" if "x \<in> set (entry_outputs e)" for x
  proof
    assume "pooled (hm_insert tid a' pool) x"
    then have "pooled pool x"
      using assms(2,3) by (cases "fst x = tid") (simp_all add: pooled_insert, simp add: pooled_def)
    with assms(1) that show False by (simp add: entry_ok_def)
  qed
  with assms(1) show ?thesis by (simp add: entry_ok_def hm_contains_keys)
qed

section \<open>The refresh\<close>

text \<open>The invariant of the reconciliation: entries still to come are unchanged, entries already seen are
  consistent with the pool.\<close>

definition reconcile_inv ::
  "(TokenOutputsReservationId \<times> TokenOutputsEntry) list \<Rightarrow> token_pool \<Rightarrow>
   (TokenOutputsReservationId, TokenOutputsEntry) hmap \<Rightarrow> bool" where
  "reconcile_inv es pool res \<longleftrightarrow>
     pool_ok pool \<and> hm_ok res \<and> disjoint_entries res \<and> hm_ok es
     \<and> (\<forall>(i, e) \<in> set es. hm_get res i = Some e)
     \<and> (\<forall>i e. hm_get res i = Some e \<longrightarrow> i \<notin> set (hm_keys es) \<longrightarrow> entry_ok pool e)"

lemma disjoint_entries_remove: "disjoint_entries res \<Longrightarrow> disjoint_entries (hm_remove i res)"
  by (auto simp: disjoint_entries_def)

lemma disjoint_entries_shrink:
  assumes "disjoint_entries res" and "hm_get res i = Some e" and "distinct (entry_outputs e')"
    and "set (entry_outputs e') \<subseteq> set (entry_outputs e)"
  shows "disjoint_entries (hm_insert i e' res)"
  unfolding disjoint_entries_def
proof (intro conjI allI impI)
  fix j f
  assume "hm_get (hm_insert i e' res) j = Some f"
  then show "distinct (entry_outputs f)"
    using assms(1,3) by (cases "j = i") (auto simp: disjoint_entries_def)
next
  fix j k f g
  assume jk: "j \<noteq> k" "hm_get (hm_insert i e' res) j = Some f" "hm_get (hm_insert i e' res) k = Some g"
  have dis: "set (entry_outputs f0) \<inter> set (entry_outputs g0) = {}"
    if "hm_get res j = Some f0" "hm_get res k = Some g0" for f0 g0
    using assms(1) jk(1) that by (simp add: disjoint_entries_def)
  show "set (entry_outputs f) \<inter> set (entry_outputs g) = {}"
  proof (cases "j = i")
    case True
    with jk assms(2) dis [of e g] have "f = e'" "set (entry_outputs e) \<inter> set (entry_outputs g) = {}" by simp_all
    with assms(4) show ?thesis by blast
  next
    case False
    show ?thesis
    proof (cases "k = i")
      case True
      with jk assms(2) dis [of f e] have "g = e'" "set (entry_outputs f) \<inter> set (entry_outputs e) = {}" by simp_all
      with assms(4) show ?thesis by blast
    next
      case ki: False
      with False jk dis [of f g] show ?thesis by simp
    qed
  qed
qed

lemma reconcile_remove:
  assumes "reconcile_inv ((i, e) # es) pool res"
  shows "reconcile_inv es pool (hm_remove i res)"
proof -
  have "i \<notin> fst ` set es" using assms by (simp add: reconcile_inv_def hm_ok_def)
  then have "\<forall>(j, f) \<in> set es. hm_get (hm_remove i res) j = Some f"
    using assms by (auto simp: reconcile_inv_def rev_image_eqI)
  with assms show ?thesis
    using assms by (auto simp: reconcile_inv_def disjoint_entries_remove hm_keys_def)
      (simp add: hm_ok_def)
qed

lemma reconcile_keep:
  assumes inv: "reconcile_inv ((i, e) # es) pool res" and a: "hm_get pool (entry_token e) = Some a"
    and kept: "kept = filter (\<lambda>s. hm_contains (ato_outputs a) (stored_output_id s)) (stored_outputs e)"
  shows "reconcile_inv es
     (hm_insert (entry_token e)
        (a\<lparr>ato_outputs := hm_retain (\<lambda>k _. k \<notin> stored_output_id ` set kept) (ato_outputs a)\<rparr>) pool)
     (hm_insert i (e\<lparr>stored_outputs := kept\<rparr>) res)"
proof -
  let ?a = "a\<lparr>ato_outputs := hm_retain (\<lambda>k _. k \<notin> stored_output_id ` set kept) (ato_outputs a)\<rparr>"
  let ?pool = "hm_insert (entry_token e) ?a pool" and ?e = "e\<lparr>stored_outputs := kept\<rparr>"
  have i: "i \<notin> fst ` set es" and ok: "pool_ok pool" "hm_ok res" "disjoint_entries res" "hm_ok es"
    and e: "hm_get res i = Some e" and todo: "\<forall>(j, f) \<in> set es. hm_get res j = Some f"
    using inv by (auto simp: reconcile_inv_def hm_ok_def)
  have aok: "outputs_ok (ato_outputs a)" "tm_identifier (ato_metadata a) = entry_token e"
    using pool_ok_get [OF ok(1) a] by simp_all
  have contains: "hm_contains (hm_retain (\<lambda>k _. k \<notin> stored_output_id ` set kept) (ato_outputs a)) k \<longleftrightarrow>
      hm_contains (ato_outputs a) k \<and> k \<notin> stored_output_id ` set kept" for k
    using aok(1) by (auto simp: outputs_ok_def hm_contains_iff hm_get_retain split: option.split)
  have "pool_ok ?pool" using ok(1) aok by (intro pool_ok_insert) (simp_all add: outputs_ok_retain)
  moreover have sub: "set (entry_outputs ?e) \<subseteq> set (entry_outputs e)" by (auto simp: entry_outputs_def kept)
  have "distinct (entry_outputs e)" using ok(3) e by (simp add: disjoint_entries_def)
  then have "distinct (entry_outputs ?e)" by (simp add: entry_outputs_def kept distinct_map_filter)
  from disjoint_entries_shrink [OF ok(3) e this sub] have "disjoint_entries (hm_insert i ?e res)" .
  moreover have "\<forall>(j, f) \<in> set es. hm_get (hm_insert i ?e res) j = Some f" using todo i by force
  moreover have "entry_ok ?pool f" if "hm_get (hm_insert i ?e res) j = Some f" "j \<notin> set (hm_keys es)" for j f
  proof (cases "j = i")
    case True
    with that(1) have f: "f = ?e" by simp
    have "hm_contains ?pool (entry_token e)" by (simp add: hm_contains_iff)
    then show ?thesis by (auto simp: f entry_ok_def pooled_insert entry_outputs_def contains)
  next
    case False
    with that inv have "entry_ok pool f" by (auto simp: reconcile_inv_def hm_keys_def)
    then show ?thesis using a by (rule entry_ok_insert_shrink) (simp add: contains)
  qed
  ultimately show ?thesis using ok(2,4) by (auto simp: reconcile_inv_def)
qed

lemma reconcile_spec:
  "reconcile_inv es pool res \<Longrightarrow> reconcile es pool res = (pool', res') \<Longrightarrow> reconcile_inv [] pool' res'"
proof (induction es pool res rule: reconcile.induct)
  case (1 pool res)
  then show ?case by simp
next
  case (2 i e es pool res)
  show ?case
  proof (cases "hm_get pool (entry_token e)")
    case None
    with 2(1) [OF None reconcile_remove [OF 2(4)]] 2(5) show ?thesis by simp
  next
    case (Some a)
    define kept where "kept = filter (\<lambda>s. hm_contains (ato_outputs a) (stored_output_id s)) (stored_outputs e)"
    show ?thesis
    proof (cases "kept = []")
      case True
      with 2(2) [OF Some kept_def True reconcile_remove [OF 2(4)]] 2(5) Some show ?thesis
        by (simp add: Let_def flip: kept_def)
    next
      case False
      with 2(3) [OF Some kept_def False reconcile_keep [OF 2(4) Some kept_def]] 2(5) Some show ?thesis
        by (simp add: Let_def flip: kept_def)
    qed
  qed
qed

lemma token_inv_set:
  assumes "token_inv st"
  shows "token_inv (set_tokens_outputs now st ts started)"
proof -
  define pool where "pool = preserve_outputs started (old_outputs (available_token_outputs st))
    (build_pool now (set (hm_keys (hm_retain (\<lambda>_ at. started \<le> at) (spent_output_ids st)))) ts [])"
  obtain pool' res' where R: "reconcile (tk_reservations st) pool (tk_reservations st) = (pool', res')" by fastforce
  have "pool_ok pool" unfolding pool_def
    using assms by (intro preserve_outputs_ok old_outputs_keyed build_pool_ok) (simp_all add: token_inv_def)
  then have "reconcile_inv (tk_reservations st) pool (tk_reservations st)"
    using assms by (auto simp: reconcile_inv_def token_inv_def hm_in_set hm_keys_get)
  from reconcile_spec [OF this R] have "reconcile_inv [] pool' res'" .
  then have "token_inv (st\<lparr>available_token_outputs := pool', tk_reservations := res',
      spent_output_ids := hm_retain (\<lambda>_ at. started \<le> at) (spent_output_ids st)\<rparr>)"
    by (simp add: reconcile_inv_def token_inv_def)
  with assms R show ?thesis by (simp add: set_tokens_outputs_def Let_def flip: pool_def)
qed

section \<open>The other commands keep the invariant\<close>

lemma insert_new_spec:
  "outputs_ok m \<Longrightarrow> outputs_ok (insert_new now ws m)
     \<and> (hm_contains (insert_new now ws m) k \<longleftrightarrow> hm_contains m k \<or> k \<in> output_id ` set ws)"
  by (induction ws arbitrary: m) (auto simp: outputs_ok_insert hm_contains_keys)

lemma token_inv_insert:
  assumes "token_inv st" and "fresh_token_command (InsertTokenOutputs t) st"
  shows "token_inv (insert_token_outputs now st t)"
proof -
  let ?tid = "tm_identifier (tos_metadata t)" and ?pool = "available_token_outputs st"
  obtain a where st': "available_token_outputs (insert_token_outputs now st t) = hm_insert ?tid a ?pool"
      "tk_reservations (insert_token_outputs now st t) = tk_reservations st"
    and a: "tm_identifier (ato_metadata a) = ?tid" "outputs_ok (ato_outputs a)"
    and c: "\<And>k. hm_contains (ato_outputs a) k \<longleftrightarrow> pooled ?pool (?tid, k) \<or> k \<in> output_id ` set (tos_outputs t)"
  proof (cases "hm_get ?pool ?tid")
    case None
    show thesis
      by (rule that [of "\<lparr>ato_metadata = tos_metadata t, ato_outputs =
          hm_insert_all output_id (\<lambda>w. \<lparr>so_output = w, so_added_at = now\<rparr>) (tos_outputs t) []\<rparr>"])
        (simp_all add: None insert_token_outputs_def Let_def outputs_ok_insert_all pooled_def hm_contains_keys)
  next
    case (Some a)
    then have ok: "tm_identifier (ato_metadata a) = ?tid" "outputs_ok (ato_outputs a)"
      using assms(1) pool_ok_get [of ?pool ?tid a] by (auto simp: token_inv_def)
    show thesis
      by (rule that [of "a\<lparr>ato_outputs := insert_new now (tos_outputs t) (ato_outputs a)\<rparr>"])
        (simp_all add: Some ok insert_token_outputs_def Let_def insert_new_spec pooled_def)
  qed
  have "entry_ok (hm_insert ?tid a ?pool) e" if "hm_get (tk_reservations st) i = Some e" for i e
  proof -
    have "entry_ok ?pool e" using assms(1) that by (auto simp: token_inv_def)
    moreover have "\<forall>w \<in> set (tos_outputs t). (?tid, output_id w) \<notin> set (entry_outputs e)" using assms(2) that by auto
    ultimately show ?thesis using c by (auto simp: entry_ok_def pooled_insert hm_contains_keys)
  qed
  with assms(1) a st' show ?thesis by (auto simp: token_inv_def pool_ok_insert)
qed

lemma token_inv_cancel:
  assumes "token_inv st"
  shows "token_inv (token_cancel_reservation st i)"
proof (cases "hm_get (tk_reservations st) i")
  case None
  with assms show ?thesis by (simp add: token_cancel_reservation_def)
next
  case (Some e)
  let ?pool = "available_token_outputs st"
  from assms Some have "entry_ok ?pool e" by (auto simp: token_inv_def)
  then obtain a where a: "hm_get ?pool (entry_token e) = Some a" by (auto simp: entry_ok_def hm_contains_iff)
  then have ok: "tm_identifier (ato_metadata a) = entry_token e" "outputs_ok (ato_outputs a)"
    using assms pool_ok_get [of ?pool "entry_token e" a] by (auto simp: token_inv_def)
  let ?a = "a\<lparr>ato_outputs := hm_insert_all stored_output_id (\<lambda>s. s) (stored_outputs e) (ato_outputs a)\<rparr>"
  have "entry_ok (hm_insert (entry_token e) ?a ?pool) f"
    if f: "hm_get (hm_remove i (tk_reservations st)) j = Some f" for j f
  proof -
    from f have j: "j \<noteq> i" "hm_get (tk_reservations st) j = Some f" by (auto split: if_splits)
    then have fok: "entry_ok ?pool f" using assms by (auto simp: token_inv_def)
    from assms have "disjoint_entries (tk_reservations st)" by (simp add: token_inv_def)
    with j Some have dis: "set (entry_outputs e) \<inter> set (entry_outputs f) = {}"
      unfolding disjoint_entries_def by metis
    have "\<not> pooled (hm_insert (entry_token e) ?a ?pool) x" if x: "x \<in> set (entry_outputs f)" for x
    proof
      assume "pooled (hm_insert (entry_token e) ?a ?pool) x"
      then have "pooled ?pool x \<or> x \<in> set (entry_outputs e)"
        using a by (cases x) (auto simp: pooled_insert hm_contains_keys entry_outputs_def pooled_def split: if_splits)
      with x dis fok show False by (auto simp: entry_ok_def)
    qed
    with fok show ?thesis by (simp add: entry_ok_def hm_contains_keys)
  qed
  moreover have "pool_ok (hm_insert (entry_token e) ?a ?pool)"
    using assms ok by (intro pool_ok_insert) (simp_all add: token_inv_def outputs_ok_insert_all)
  ultimately show ?thesis
    using assms Some a by (auto simp: token_cancel_reservation_def Let_def token_inv_def disjoint_entries_remove)
qed

lemma token_inv_finalize: "token_inv st \<Longrightarrow> token_inv (token_finalize_reservation now st i)"
  by (auto simp: token_finalize_reservation_def token_inv_def disjoint_entries_remove split: option.splits if_splits)

section \<open>Selecting outputs\<close>

lemma collect_amount_spec:
  assumes "collect_amount ws amount acc = (sel, r)"
  shows "\<exists>k. sel = acc @ take k ws \<and> r = amount - sum_list (amounts_of (take k ws))
       \<and> (r = 0 \<or> k = length ws)"
  using assms
proof (induction ws amount acc rule: collect_amount.induct)
  case (1 amount acc)
  then show ?case by simp
next
  case (2 w ws amount acc)
  show ?case
  proof (cases "amount = 0")
    case True
    with 2(2) show ?thesis by (intro exI [of _ 0]) simp
  next
    case False
    with 2 obtain k where "sel = (acc @ [w]) @ take k ws"
      "r = amount - token_amount (tw_output w) - sum_list (amounts_of (take k ws))" "r = 0 \<or> k = length ws" by auto
    then show ?thesis by (intro exI [of _ "Suc k"]) simp
  qed
qed

lemma mset_sort_outputs [simp]: "mset (sort_outputs strategy os) = mset os"
  by (auto simp: sort_outputs_def split: option.split SelectionStrategy.split)

lemma select_outputs_submset:
  assumes "select_outputs target strategy os = Ok sel"
  shows "mset sel \<subseteq># mset os"
proof -
  have take: "mset (take k (sort_outputs strategy os)) \<subseteq># mset os" for k
    using subseq_submset [OF prefix_imp_subseq [OF take_is_prefix [of k "sort_outputs strategy os"]]] by simp
  show ?thesis
  proof (cases target)
    case (MaxOutputCount n)
    with assms take [of n] show ?thesis by (simp add: select_outputs_def)
  next
    case (MinTotalValue amount)
    show ?thesis
    proof (cases "find (\<lambda>w. token_amount (tw_output w) = amount) os")
      case (Some w)
      then have "w \<in> set os" by (auto simp: find_Some_iff)
      with Some assms MinTotalValue show ?thesis by (auto simp: select_outputs_def split: if_splits)
    next
      case None
      obtain s r where c: "collect_amount (sort_outputs strategy os) amount [] = (s, r)" by fastforce
      with assms MinTotalValue None have "sel = s" by (auto simp: select_outputs_def split: if_splits)
      with collect_amount_spec [OF c] take show ?thesis by auto
    qed
  qed
qed

lemma select_outputs_amount:
  assumes "sum_list (amounts_of os) < 2 ^ 128"
  shows "(case select_outputs (MinTotalValue amount) strategy os of
            Ok sel \<Rightarrow> amount \<le> sum_list (amounts_of sel)
              \<and> (amount \<in> set (amounts_of os) \<longrightarrow> length sel = 1 \<and> sum_list (amounts_of sel) = amount)
          | Err e \<Rightarrow> e = TkInsufficientFunds \<and> sum_list (amounts_of os) < amount)"
proof (cases "sum_list (amounts_of os) < amount")
  case True
  with assms show ?thesis by (simp add: select_outputs_def)
next
  case False
  show ?thesis
  proof (cases "find (\<lambda>w. token_amount (tw_output w) = amount) os")
    case (Some w)
    then have "token_amount (tw_output w) = amount" by (auto simp: find_Some_iff)
    with Some False assms show ?thesis by (simp add: select_outputs_def)
  next
    case None
    obtain s r where c: "collect_amount (sort_outputs strategy os) amount [] = (s, r)" by fastforce
    from collect_amount_spec [OF c] obtain k where k: "s = take k (sort_outputs strategy os)"
      "r = amount - sum_list (amounts_of s)" "r = 0 \<or> k = length (sort_outputs strategy os)" by auto
    have "sum_list (amounts_of (sort_outputs strategy os)) = sum_list (amounts_of os)"
      by (rule sum_list_mset_cong) simp
    with k False have "r = 0" by auto
    moreover have "amount \<notin> set (amounts_of os)" using None by (auto simp: find_None_iff)
    ultimately show ?thesis using None c k False assms by (simp add: select_outputs_def)
  qed
qed

lemma candidate_outputs_submset: "mset (candidate_outputs preferred a) \<subseteq># mset (output_vec a)"
  by (cases preferred) (simp_all add: candidate_outputs_def multiset_filter_subset)

lemma outputs_ok_distinct:
  assumes "outputs_ok (ato_outputs a)"
  shows "distinct (map output_id (output_vec a))"
    and "w \<in> set (output_vec a) \<Longrightarrow> \<exists>s. hm_get (ato_outputs a) (output_id w) = Some s \<and> so_output s = w"
proof -
  have ok: "hm_ok (ato_outputs a)" using assms by (simp add: outputs_ok_def)
  have key: "stored_output_id s = k" if "(k, s) \<in> set (ato_outputs a)" for k s
    using that assms by (auto simp: outputs_ok_def hm_in_set)
  have "map output_id (output_vec a) = map fst (ato_outputs a)"
    using key by (auto simp: output_vec_def hm_values_def)
  with ok show "distinct (map output_id (output_vec a))" by (simp only: hm_ok_def)
  show "w \<in> set (output_vec a) \<Longrightarrow> \<exists>s. hm_get (ato_outputs a) (output_id w) = Some s \<and> so_output s = w"
    using key by (auto simp: output_vec_def hm_values_def simp flip: hm_in_set [OF ok])
qed

lemma stored_of_selected:
  assumes "outputs_ok (ato_outputs a)" and "set sel \<subseteq> set (output_vec a)"
  shows "map so_output (List.map_filter (\<lambda>w. hm_get (ato_outputs a) (output_id w)) sel) = sel"
  using assms(2)
proof (induction sel)
  case Nil
  then show ?case by simp
next
  case (Cons w sel)
  then obtain s where "hm_get (ato_outputs a) (output_id w) = Some s" "so_output s = w"
    using outputs_ok_distinct(2) [OF assms(1), of w] by auto
  with Cons show ?case by simp
qed

text \<open>A successful reservation, in terms of the pool.\<close>

definition token_reserved ::
  "TokenOutputsReservationId \<Rightarrow> string \<Rightarrow> TokenReservationPurpose \<Rightarrow> TokenOutputWithPrevOut list \<Rightarrow>
   AvailableTokenOutputs \<Rightarrow> TokenOutputsState \<Rightarrow> TokenOutputsState \<Rightarrow> bool" where
  "token_reserved i tid p sel a st st' \<longleftrightarrow>
     hm_get (available_token_outputs st) tid = Some a \<and> mset sel \<subseteq># mset (output_vec a)
     \<and> (\<exists>stored. map so_output stored = sel
          \<and> st' = st\<lparr>available_token_outputs :=
                hm_insert tid (a\<lparr>ato_outputs := hm_retain (\<lambda>k _. k \<notin> output_id ` set sel) (ato_outputs a)\<rparr>)
                  (available_token_outputs st),
              tk_reservations :=
                hm_insert i \<lparr>te_metadata = ato_metadata a, stored_outputs = stored, te_purpose = p\<rparr>
                  (tk_reservations st)\<rparr>)"

lemma reserve_token_outcomes:
  assumes "token_inv st" and "reserve_token_outputs i st tid target p preferred strategy = (st', r)"
  obtains (failed) e where "r = Err e" "st' = st"
  | (reserved) a sel where "select_outputs target strategy (candidate_outputs preferred a) = Ok sel"
      "r = Ok \<lparr>tr_id = i, tr_token_outputs = \<lparr>tos_metadata = ato_metadata a, tos_outputs = sel\<rparr>\<rparr>"
      "token_reserved i tid p sel a st st'" "target_is_zero target = None"
proof (cases "target_is_zero target = None \<and> (\<exists>a sel. hm_get (available_token_outputs st) tid = Some a
    \<and> select_outputs target strategy (candidate_outputs preferred a) = Ok sel)")
  case True
  then obtain a sel where a: "hm_get (available_token_outputs st) tid = Some a"
    and sel: "select_outputs target strategy (candidate_outputs preferred a) = Ok sel" by blast
  have ok: "outputs_ok (ato_outputs a)"
    using assms(1) a pool_ok_get by (auto simp: token_inv_def)
  have sub: "mset sel \<subseteq># mset (output_vec a)"
    using select_outputs_submset [OF sel] candidate_outputs_submset subset_mset.order_trans by blast
  then have "set sel \<subseteq> set (output_vec a)" using set_mset_mono by fastforce
  note stored = stored_of_selected [OF ok this]
  show ?thesis
    by (rule reserved [OF sel]) (use assms(2) True a sel sub stored in \<open>auto simp: reserve_token_outputs_def Let_def token_reserved_def\<close>)
next
  case False
  then have "\<exists>e. r = Err e \<and> st' = st"
    using assms(2) by (auto simp: reserve_token_outputs_def split: option.splits sum.splits)
  with failed show ?thesis by blast
qed

lemma retain_selected_contains:
  assumes "outputs_ok m"
  shows "hm_contains (hm_retain (\<lambda>k _. k \<notin> K) m) k \<longleftrightarrow> hm_contains m k \<and> k \<notin> K"
  using assms by (auto simp: outputs_ok_def hm_contains_iff hm_get_retain split: option.split)

lemma token_reserved_inv:
  assumes "token_inv st" and "token_reserved i tid p sel a st st'"
  shows "token_inv st'"
proof -
  let ?pool = "available_token_outputs st" and ?res = "tk_reservations st"
  let ?a = "a\<lparr>ato_outputs := hm_retain (\<lambda>k _. k \<notin> output_id ` set sel) (ato_outputs a)\<rparr>"
  from assms(2) obtain stored where a: "hm_get ?pool tid = Some a" and sub: "mset sel \<subseteq># mset (output_vec a)"
    and stored: "map so_output stored = sel"
    and st': "st' = st\<lparr>available_token_outputs := hm_insert tid ?a ?pool, tk_reservations :=
        hm_insert i \<lparr>te_metadata = ato_metadata a, stored_outputs = stored, te_purpose = p\<rparr> ?res\<rparr>"
    by (auto simp: token_reserved_def)
  let ?e = "\<lparr>te_metadata = ato_metadata a, stored_outputs = stored, te_purpose = p\<rparr>"
  have ok: "tm_identifier (ato_metadata a) = tid" "outputs_ok (ato_outputs a)"
    using assms(1) a pool_ok_get by (auto simp: token_inv_def)
  from stored have "map output_id (map so_output stored) = map output_id sel" by (simp only:)
  then have ids: "map stored_output_id stored = map output_id sel" by (simp add: comp_def)
  have eo: "entry_outputs ?e = map (\<lambda>k. (tid, k)) (map output_id sel)"
    by (simp add: entry_outputs_def ok(1) comp_def flip: ids)
  have "mset (map output_id sel) \<subseteq># mset (map output_id (output_vec a))"
    using image_mset_subseteq_mono [OF sub] by simp
  then have d: "distinct (map output_id sel)" using distinct_submset outputs_ok_distinct(1) [OF ok(2)] by blast
  have "set sel \<subseteq> set (output_vec a)" using set_mset_mono [OF sub] by simp
  then have inpool: "pooled ?pool x" if "x \<in> set (entry_outputs ?e)" for x
    using that outputs_ok_distinct(2) [OF ok(2)] a by (force simp: eo pooled_def hm_contains_iff)
  have eok: "entry_ok (hm_insert tid ?a ?pool) ?e"
    by (auto simp: entry_ok_def ok(1) eo pooled_insert retain_selected_contains [OF ok(2)]) (simp add: hm_contains_iff)
  have rest: "entry_ok (hm_insert tid ?a ?pool) f" if "hm_get ?res j = Some f" for j f
    using that assms(1) a by (intro entry_ok_insert_shrink [OF _ a])
      (auto simp: token_inv_def retain_selected_contains [OF ok(2)])
  have "distinct (entry_outputs ?e)" using d unfolding eo by (simp add: distinct_map inj_on_def)
  moreover have "set (entry_outputs ?e) \<inter> set (entry_outputs f) = {}" if "hm_get ?res j = Some f" for j f
  proof -
    from that assms(1) have "entry_ok ?pool f" by (auto simp: token_inv_def)
    then show ?thesis using inpool by (auto simp: entry_ok_def)
  qed
  ultimately have "disjoint_entries (hm_insert i ?e ?res)"
    using assms(1) unfolding disjoint_entries_def token_inv_def by (auto split: if_splits)
  moreover have "pool_ok (hm_insert tid ?a ?pool)"
    using assms(1) ok by (intro pool_ok_insert) (simp_all add: token_inv_def outputs_ok_retain)
  ultimately show ?thesis
    using assms(1) eok rest unfolding st' token_inv_def by auto
qed

lemma token_inv_command: "token_inv st \<Longrightarrow> fresh_token_command c st \<Longrightarrow> token_inv (token_command now c st)"
proof (cases c)
  case (ReserveTokenOutputs i tid target p preferred strategy)
  assume inv: "token_inv st" and fresh: "fresh_token_command c st"
  obtain st' r where E: "reserve_token_outputs i st tid target p preferred strategy = (st', r)" by fastforce
  from inv E have "token_inv st'"
    by (cases rule: reserve_token_outcomes) (use inv token_reserved_inv in auto)
  with E ReserveTokenOutputs show ?thesis by (simp add: token_command_def)
qed (auto simp: token_command_def token_inv_set token_inv_insert token_inv_cancel token_inv_finalize)

interpretation tokens: invariant_system "\<lambda>s. s = default_token_state" token_step token_inv
proof
  show "s = default_token_state \<Longrightarrow> token_inv s" for s
    by (simp add: default_token_state_def token_inv_def disjoint_entries_def)
  show "token_inv s \<Longrightarrow> token_step s t \<Longrightarrow> token_inv t" for s t
    by (auto elim!: token_step.cases simp: token_inv_command)
qed

section \<open>The scope of a reservation\<close>

definition token_reserved_in :: "TokenOutputsState \<Rightarrow> TokenOutputsReservationId \<Rightarrow> (string \<times> string) list option" where
  "token_reserved_in st i = map_option entry_outputs (hm_get (tk_reservations st) i)"

definition token_pooled_in :: "TokenOutputsState \<Rightarrow> string \<times> string \<Rightarrow> bool" where
  "token_pooled_in st x = pooled (available_token_outputs st) x"

lemma token_cancel_reservations:
  "tk_reservations (token_cancel_reservation st i) = hm_remove i (tk_reservations st)"
  by (auto simp: token_cancel_reservation_def Let_def hm_remove_notin hm_get_None_iff split: option.split)

lemma token_finalize_reservations:
  "tk_reservations (token_finalize_reservation now st i) = hm_remove i (tk_reservations st)"
  by (auto simp: token_finalize_reservation_def hm_remove_notin hm_get_None_iff split: option.split)

lemma token_finalize_pool:
  "available_token_outputs (token_finalize_reservation now st i) = available_token_outputs st"
  by (simp add: token_finalize_reservation_def split: option.split)

lemma token_cancel_pooled:
  assumes "token_inv st" and "hm_get (tk_reservations st) i = Some e"
  shows "pooled (available_token_outputs (token_cancel_reservation st i)) x \<longleftrightarrow>
           x \<in> set (entry_outputs e) \<or> pooled (available_token_outputs st) x"
proof -
  from assms have "entry_ok (available_token_outputs st) e" by (auto simp: token_inv_def)
  then obtain a where a: "hm_get (available_token_outputs st) (entry_token e) = Some a"
    by (auto simp: entry_ok_def hm_contains_iff)
  with assms(2) show ?thesis
    by (cases x) (auto simp: token_cancel_reservation_def Let_def pooled_insert hm_contains_keys
        entry_outputs_def pooled_def)
qed

interpretation token_scope: reservation_store token_inv token_reserved_in token_pooled_in token_cancel_reservation
  "token_finalize_reservation now" for now
proof
  fix s i j and xs :: "(string \<times> string) list" and x
  assume inv: "token_inv s"
  show "token_inv (token_cancel_reservation s i)" using inv by (rule token_inv_cancel)
  show "token_inv (token_finalize_reservation now s i)" using inv by (rule token_inv_finalize)
  show "token_reserved_in (token_cancel_reservation s i) j = (if j = i then None else token_reserved_in s j)"
    by (simp add: token_reserved_in_def token_cancel_reservations)
  show "token_reserved_in (token_finalize_reservation now s i) j = (if j = i then None else token_reserved_in s j)"
    by (simp add: token_reserved_in_def token_finalize_reservations)
  assume r: "token_reserved_in s i = Some xs"
  then obtain e where e: "hm_get (tk_reservations s) i = Some e" "xs = entry_outputs e"
    by (auto simp: token_reserved_in_def)
  show "token_pooled_in (token_cancel_reservation s i) x = (x \<in> set xs \<or> token_pooled_in s x)"
    using token_cancel_pooled [OF inv e(1)] e(2) by (simp add: token_pooled_in_def)
  show "token_pooled_in (token_finalize_reservation now s i) x = token_pooled_in s x"
    by (simp add: token_pooled_in_def token_finalize_pool)
  assume "x \<in> set xs"
  with inv e show "\<not> token_pooled_in s x" by (auto simp: token_inv_def entry_ok_def token_pooled_in_def)
qed

section \<open>Balances\<close>

lemma output_vec_retain:
  assumes "outputs_ok (ato_outputs a)"
  shows "output_vec (a\<lparr>ato_outputs := hm_retain (\<lambda>k _. k \<notin> K) (ato_outputs a)\<rparr>) =
         filter (\<lambda>w. output_id w \<notin> K) (output_vec a)"
proof -
  have "\<forall>p \<in> set (ato_outputs a). stored_output_id (snd p) = fst p"
    using assms by (auto simp: outputs_ok_def hm_in_set)
  then have "filter (\<lambda>p. fst p \<notin> K) (ato_outputs a) = filter (\<lambda>p. stored_output_id (snd p) \<notin> K) (ato_outputs a)"
    by (intro filter_cong) auto
  moreover have "hm_retain (\<lambda>k _. k \<notin> K) (ato_outputs a) = filter (\<lambda>p. fst p \<notin> K) (ato_outputs a)"
    by (simp add: hm_retain_def split_def)
  ultimately show ?thesis
    by (simp add: output_vec_def hm_values_def filter_map comp_def)
qed

lemma token_reserved_amounts:
  assumes "token_inv st" and "token_reserved i tid p sel a st st'"
  shows "sum_list (amounts_of (available_outputs_for tid st)) =
         sum_list (amounts_of sel) + sum_list (amounts_of (available_outputs_for tid st'))"
proof -
  from assms(2) have a: "hm_get (available_token_outputs st) tid = Some a" and sub: "mset sel \<subseteq># mset (output_vec a)"
    and av: "available_outputs_for tid st' =
      output_vec (a\<lparr>ato_outputs := hm_retain (\<lambda>k _. k \<notin> output_id ` set sel) (ato_outputs a)\<rparr>)"
    by (auto simp: token_reserved_def available_outputs_for_def)
  have ok: "outputs_ok (ato_outputs a)" using assms(1) a pool_ok_get by (auto simp: token_inv_def)
  have "mset (output_vec a) = mset (sel @ filter (\<lambda>w. output_id w \<notin> output_id ` set sel) (output_vec a))"
    using mset_split_by_key [OF outputs_ok_distinct(1) [OF ok] sub] by simp
  from sum_list_mset_cong [OF this, of "\<lambda>w. token_amount (tw_output w)"]
  have "sum_list (amounts_of (output_vec a)) =
    sum_list (amounts_of sel) + sum_list (amounts_of (available_outputs_for tid st'))"
    by (simp add: av output_vec_retain [OF ok])
  moreover have "available_outputs_for tid st = output_vec a" using a by (simp add: available_outputs_for_def)
  ultimately show ?thesis by simp
qed

lemma reserved_outputs_insert:
  assumes "i \<notin> set (hm_keys (tk_reservations st))"
    and "tk_reservations st' = hm_insert i \<lparr>te_metadata = md, stored_outputs = stored, te_purpose = p\<rparr> (tk_reservations st)"
  shows "reserved_outputs_for q tid st' = reserved_outputs_for q tid st
     @ (if tm_identifier md = tid \<and> p = q then map so_output stored else [])"
  using assms by (simp add: reserved_outputs_for_def hm_values_insert_fresh)

section \<open>A sample pool\<close>

definition sample_metadata :: TokenMetadata where
  "sample_metadata = \<lparr>tm_identifier = ''tok'', issuer_public_key = ''pk'', tm_name = ''Token'', ticker = ''TK'',
     decimals = 0, max_supply = 100, is_freezable = False, creation_entity_public_key = None\<rparr>"

definition sample_output :: "string \<Rightarrow> u128 \<Rightarrow> TokenOutputWithPrevOut" where
  "sample_output k v = \<lparr>tw_output = \<lparr>to_id = k, owner_public_key = ''pk'', revocation_commitment = [],
     withdraw_bond_sats = 0, withdraw_relative_block_locktime = 0, token_public_key = None,
     token_identifier = ''tok'', token_amount = v\<rparr>, prev_tx_hash = [], prev_tx_vout = 0\<rparr>"

definition sample_outputs :: TokenOutputs where
  "sample_outputs = \<lparr>tos_metadata = sample_metadata, tos_outputs = [sample_output ''a'' 3, sample_output ''b'' 4]\<rparr>"

definition sample_tokens :: TokenOutputsState where
  "sample_tokens = insert_token_outputs 5 default_token_state sample_outputs"

definition sample_reserved :: TokenOutputsState where
  "sample_reserved = fst (reserve_token_outputs ''r1'' sample_tokens ''tok'' (MinTotalValue 3) TokenSwap None None)"

lemmas sample_token_defs = sample_metadata_def sample_output_def sample_outputs_def

lemma sample_tokens_eval:
  "sample_tokens = default_token_state\<lparr>available_token_outputs := [(''tok'',
     \<lparr>ato_metadata = sample_metadata,
      ato_outputs = [(''a'', \<lparr>so_output = sample_output ''a'' 3, so_added_at = 5\<rparr>),
                     (''b'', \<lparr>so_output = sample_output ''b'' 4, so_added_at = 5\<rparr>)]\<rparr>)]\<rparr>"
  by (simp add: sample_tokens_def insert_token_outputs_def sample_token_defs default_token_state_def
      hm_insert_all_def hm_insert_def hm_remove_def)

lemma sample_reserved_eval:
  "sample_reserved = sample_tokens\<lparr>available_token_outputs := [(''tok'',
     \<lparr>ato_metadata = sample_metadata,
      ato_outputs = [(''b'', \<lparr>so_output = sample_output ''b'' 4, so_added_at = 5\<rparr>)]\<rparr>)],
     tk_reservations := [(''r1'', \<lparr>te_metadata = sample_metadata,
       stored_outputs = [\<lparr>so_output = sample_output ''a'' 3, so_added_at = 5\<rparr>], te_purpose = TokenSwap\<rparr>)]\<rparr>"
  by (simp add: sample_reserved_def sample_tokens_eval reserve_token_outputs_def default_token_state_def
      hm_get_Cons candidate_outputs_def output_vec_def hm_values_def select_outputs_def sample_output_def
      hm_retain_def hm_insert_def hm_remove_def Let_def List.map_filter_def)

lemma sample_tokens_reachable: "reachable (\<lambda>s. s = default_token_state) token_step sample_tokens"
proof -
  have "token_step default_token_state (token_command 5 (InsertTokenOutputs sample_outputs) default_token_state)"
    by (rule token_step.intros) (simp add: default_token_state_def)
  then show ?thesis
    using reach_step [OF reach_init, of "\<lambda>s. s = default_token_state" default_token_state]
    by (simp add: token_command_def sample_tokens_def)
qed

lemma sample_reserved_reachable: "reachable (\<lambda>s. s = default_token_state) token_step sample_reserved"
proof -
  let ?c = "ReserveTokenOutputs ''r1'' ''tok'' (MinTotalValue 3) TokenSwap None None"
  have "token_step sample_tokens (token_command 5 ?c sample_tokens)"
    by (rule token_step.intros) (simp add: sample_tokens_eval default_token_state_def)
  then show ?thesis
    using reach_step [OF sample_tokens_reachable] by (simp add: token_command_def sample_reserved_def)
qed

lemma sample_tokens_inv: "token_inv sample_tokens"
  using tokens.reachable_inv [OF sample_tokens_reachable] .

lemma sample_reserved_inv: "token_inv sample_reserved"
  using tokens.reachable_inv [OF sample_reserved_reachable] .

section \<open>Properties\<close>



text \<open>Reserving a minimum amount of a token: it fails with insufficient funds exactly when the candidate
  outputs do not reach the amount; otherwise the reserved outputs are candidates, cover the amount, and an
  output of exactly that amount is used alone when there is one.\<close>

theorem token_reserve_amount_spec:
  assumes "token_inv st" and "hm_get (available_token_outputs st) tid = Some a" and "0 < amount"
    and "sum_list (amounts_of (candidate_outputs preferred a)) < 2 ^ 128"
    and "reserve_token_outputs i st tid (MinTotalValue amount) p preferred strategy = (st', r)"
  shows "(case r of
            Ok res \<Rightarrow>
              (let sel = tos_outputs (tr_token_outputs res)
               in mset sel \<subseteq># mset (candidate_outputs preferred a) \<and> amount \<le> sum_list (amounts_of sel)
                  \<and> (amount \<in> set (amounts_of (candidate_outputs preferred a)) \<longrightarrow>
                       length sel = 1 \<and> sum_list (amounts_of sel) = amount))
          | Err e \<Rightarrow> e = TkInsufficientFunds \<and> st' = st
              \<and> sum_list (amounts_of (candidate_outputs preferred a)) < amount)"
proof (cases "select_outputs (MinTotalValue amount) strategy (candidate_outputs preferred a)")
  case (Inl e)
  with assms(2,3,5) select_outputs_amount [OF assms(4), of amount strategy] show ?thesis
    by (auto simp: reserve_token_outputs_def)
next
  case (Inr sel)
  with assms(2,3,5) select_outputs_amount [OF assms(4), of amount strategy] select_outputs_submset [OF Inr]
  show ?thesis by (auto simp: reserve_token_outputs_def Let_def)
qed

theorem token_reserve_amount_spec_witness:
  "\<exists>st' r. reserve_token_outputs ''r1'' sample_tokens ''tok'' (MinTotalValue 5) TokenPayment None None = (st', Ok r)
     \<and> 5 \<le> sum_list (amounts_of (tos_outputs (tr_token_outputs r)))"
proof -
  obtain a where a: "hm_get (available_token_outputs sample_tokens) ''tok'' = Some a"
    "amounts_of (output_vec a) = [3, 4]"
    by (simp add: sample_tokens_eval hm_get_Cons output_vec_def hm_values_def sample_output_def)
  then have c: "amounts_of (candidate_outputs None a) = [3, 4]" by (simp add: candidate_outputs_def)
  then have "sum_list (amounts_of (candidate_outputs None a)) < 2 ^ 128" by simp
  note spec = token_reserve_amount_spec [OF sample_tokens_inv a(1) _ this, of 5]
  obtain st' x where "reserve_token_outputs ''r1'' sample_tokens ''tok'' (MinTotalValue 5) TokenPayment None None = (st', x)"
    by fastforce
  with spec [OF _ this] c show ?thesis by (cases x) (auto simp: Let_def)
qed

text \<open>Reserving outputs for a swap does not change the reported balance of the token, since the swap will
  return the same amount; reserving for a payment lowers the available balance by what was reserved.\<close>

theorem token_reserve_balance:
  assumes "token_inv st" and "i \<notin> set (hm_keys (tk_reservations st))"
    and "reserve_token_outputs i st tid target p preferred strategy = (st', Ok res)"
  shows "(let sel = tos_outputs (tr_token_outputs res) in
          sum_list (amounts_of (available_outputs_for tid st)) =
            sum_list (amounts_of sel) + sum_list (amounts_of (available_outputs_for tid st'))
          \<and> (p = TokenSwap \<longrightarrow> token_balance (per_status md tid st') = token_balance (per_status md tid st)))"
  using assms(1,3)
proof (cases rule: reserve_token_outcomes)
  case (failed e)
  then show ?thesis by simp
next
  case (reserved a sel)
  note am = token_reserved_amounts [OF assms(1) reserved(3)]
  have tid: "tm_identifier (ato_metadata a) = tid"
    using assms(1) reserved(3) pool_ok_get by (auto simp: token_reserved_def token_inv_def)
  have "sum_list (amounts_of (available_outputs_for tid st')) + sum_list (amounts_of (reserved_outputs_for TokenSwap tid st'))
      = sum_list (amounts_of (available_outputs_for tid st)) + sum_list (amounts_of (reserved_outputs_for TokenSwap tid st))"
    if "p = TokenSwap"
  proof -
    from reserved(3) obtain stored where "map so_output stored = sel" "tk_reservations st' =
        hm_insert i \<lparr>te_metadata = ato_metadata a, stored_outputs = stored, te_purpose = p\<rparr> (tk_reservations st)"
      by (auto simp: token_reserved_def)
    with reserved_outputs_insert [OF assms(2) this(2), of TokenSwap tid] that tid am show ?thesis by simp
  qed
  then have "p = TokenSwap \<longrightarrow> token_balance (per_status md tid st') = token_balance (per_status md tid st)"
    by (simp add: token_balance_def tps_available_balance_def reserved_for_swap_balance_def per_status_def
        wadd_def wsum_mod mod_simps)
  with am reserved(2) show ?thesis by simp
qed

theorem token_reserve_balance_witness:
  "\<exists>st' r. reserve_token_outputs ''r1'' sample_tokens ''tok'' (MinTotalValue 3) TokenSwap None None = (st', Ok r)
     \<and> token_balance (per_status sample_metadata ''tok'' st')
       = token_balance (per_status sample_metadata ''tok'' sample_tokens)"
proof -
  have i: "''r1'' \<notin> set (hm_keys (tk_reservations sample_tokens))"
    by (simp add: sample_tokens_eval default_token_state_def)
  obtain st' r where "reserve_token_outputs ''r1'' sample_tokens ''tok'' (MinTotalValue 3) TokenSwap None None = (st', Ok r)"
    by (simp add: sample_tokens_eval reserve_token_outputs_def hm_get_Cons candidate_outputs_def output_vec_def
        hm_values_def select_outputs_def sample_output_def Let_def)
  with token_reserve_balance [OF sample_tokens_inv i this, of sample_metadata] show ?thesis
    by (auto simp: Let_def)
qed

text \<open>A token transfer under a reservation always gives the reservation back: it is gone afterwards whatever
  the transfer returned, and its outputs are available again exactly when the transfer failed.\<close>

theorem with_reserved_token_outputs_releases:
  assumes "f st = (st1, r)" and "token_inv st1" and "hm_get (tk_reservations st1) (tr_id res) = Some e"
    and "with_reserved_token_outputs now f res st = (st2, r')"
  shows "token_inv st2 \<and> r' = r \<and> hm_get (tk_reservations st2) (tr_id res) = None
       \<and> (pooled (available_token_outputs st2) x \<longleftrightarrow>
            pooled (available_token_outputs st1) x \<or> (x \<in> set (entry_outputs e) \<and> \<not> is_ok r))"
  using token_scope.scope_releases [where f = f and s = st, OF assms(1,2), of now "tr_id res" st2 r']
    token_scope.scope_pool [where f = f and s = st, OF assms(1,2), of "tr_id res" "entry_outputs e" now st2 r' x]
    assms(3,4)
  by (auto simp: with_reserved_token_outputs_def token_reserved_in_def token_pooled_in_def)

theorem with_reserved_token_outputs_releases_witness:
  "let st2 = fst (with_reserved_token_outputs 9 (\<lambda>s. (s, Err ''declined'' :: string + unit))
        \<lparr>tr_id = ''r1'', tr_token_outputs = sample_outputs\<rparr> sample_reserved)
   in hm_get (tk_reservations st2) ''r1'' = None \<and> pooled (available_token_outputs st2) (''tok'', ''a'')"
proof -
  let ?f = "\<lambda>s. (s, Err ''declined'' :: string + unit)"
  let ?r = "\<lparr>tr_id = ''r1'', tr_token_outputs = sample_outputs\<rparr>"
  obtain e where e: "hm_get (tk_reservations sample_reserved) (tr_id ?r) = Some e"
    "set (entry_outputs e) = {(''tok'', ''a'')}"
    by (simp add: sample_reserved_eval hm_get_Cons entry_outputs_def sample_token_defs)
  obtain st2 r' where "with_reserved_token_outputs 9 ?f ?r sample_reserved = (st2, r')" by fastforce
  from with_reserved_token_outputs_releases [of ?f, OF refl sample_reserved_inv e(1) this, of "(''tok'', ''a'')"] this e(2)
  show ?thesis by simp
qed

text \<open>A refresh that began before an output arrived keeps the output while it is available, but drops the
  payment reservation holding it when it was reserved in the meantime: the answer does not list the output,
  and reservations are only compared with the refreshed pool.\<close>

theorem stale_refresh_drops_reservation:
  "(let kept = set_tokens_outputs 9 sample_tokens [] 4;
        paying = fst (reserve_token_outputs ''r1'' sample_tokens ''tok'' (MinTotalValue 3) TokenPayment None None);
        dropped = set_tokens_outputs 9 paying [] 4
    in pooled (available_token_outputs kept) (''tok'', ''a'')
       \<and> hm_contains (tk_reservations paying) ''r1''
       \<and> \<not> hm_contains (tk_reservations dropped) ''r1''
       \<and> \<not> pooled (available_token_outputs dropped) (''tok'', ''a''))"
  by (simp add: set_tokens_outputs_def sample_tokens_eval default_token_state_def old_outputs_def hm_values_def
      already_exists_def token_entry_def reserve_token_outputs_def candidate_outputs_def output_vec_def
      select_outputs_def sample_metadata_def sample_output_def hm_retain_def hm_insert_def hm_remove_def
      hm_get_Cons hm_contains_iff pooled_def Let_def List.map_filter_def)

end
