(* ===== verification/Postgres_Tree_Store.thy ===== *)
theory Postgres_Tree_Store
  imports Tree_Service
begin

text \<open>
  The tree store on PostgreSQL: \<open>crates/spark-postgres/src/tree_store.rs\<close>, the implementation of \<open>TreeStore\<close> that several
  instances of the SDK can share. A table is a map from its primary key to the row. Every operation is one
  transaction under an advisory lock, so operations do not overlap and a failure changes nothing; the time of
  the transaction (\<open>NOW()\<close>, in microseconds) and the identifier of a new reservation are arguments.
  \<open>tree_connections\<close> lists the outcomes of the next transactions, and those after its end succeed. SQL does not say in
  which order rows are returned; the order of the table stands for any. The texts of driver errors are left out, and
  a leaf is stored as it is, its JSON being read back by the same library.

  The invariant of the tables is kept by every operation, whatever its arguments; \<open>Postgres_Tree_Agreement\<close> compares the store
  with the in-memory one.
\<close>

section \<open>Tables\<close>

record LeafRow =
  row_status :: string
  row_missing :: bool
  row_reservation :: "LeavesReservationId option"
  row_data :: TreeNode
  row_added_at :: system_time

record ReservationRow =
  rr_purpose :: string
  rr_pending_change :: int
  rr_created_at :: system_time

type_synonym leaf_table = "(TreeNodeId, LeafRow) hmap"

record TreeDb =
  tree_connections :: "bool list"
  tree_leaves :: leaf_table
  tree_reservations :: "(LeavesReservationId, ReservationRow) hmap"
  tree_spent_leaves :: "(TreeNodeId, system_time) hmap"
  last_completed_at :: "system_time option"
  balance_notifications :: nat

definition empty_tree_db :: "bool list \<Rightarrow> TreeDb" where
  "empty_tree_db cs = \<lparr>tree_connections = cs, tree_leaves = [], tree_reservations = [], tree_spent_leaves = [],
     last_completed_at = None, balance_notifications = 1\<rparr>"

definition RESERVATION_TIMEOUT :: duration where
  "RESERVATION_TIMEOUT = 300 * 1000000"

definition SPENT_MARKER_CLEANUP_THRESHOLD :: duration where
  "SPENT_MARKER_CLEANUP_THRESHOLD = 5 * 60 * 1000 * 1000"

definition database_error :: TreeServiceError where
  "database_error = Generic ''database''"

definition in_transaction ::
  "(TreeDb \<Rightarrow> TreeServiceError + (TreeDb \<times> 'a)) \<Rightarrow> TreeDb \<Rightarrow> TreeDb \<times> (TreeServiceError + 'a)" where
  "in_transaction f db =
     (let db1 = db\<lparr>tree_connections := tl (tree_connections db)\<rparr> in
      if tree_connections db \<noteq> [] \<and> \<not> hd (tree_connections db) then (db1, Err database_error)
      else case f db1 of Err e \<Rightarrow> (db1, Err e) | Ok (db2, x) \<Rightarrow> (db2, Ok x))"

section \<open>Statements\<close>

definition notify_balance_change :: "TreeDb \<Rightarrow> TreeDb" where
  "notify_balance_change db = db\<lparr>balance_notifications := Suc (balance_notifications db)\<rparr>"

definition upsert_leaf :: "system_time \<Rightarrow> bool \<Rightarrow> leaf_table \<Rightarrow> TreeNode \<Rightarrow> leaf_table" where
  "upsert_leaf now missing t l =
     hm_insert (tn_id l)
       \<lparr>row_status = status_to_string (tn_status l), row_missing = missing,
        row_reservation = (case hm_get t (tn_id l) of None \<Rightarrow> None | Some r \<Rightarrow> row_reservation r),
        row_data = l, row_added_at = now\<rparr> t"

text \<open>PostgreSQL refuses an \<open>INSERT\<close> that would update the same row twice.\<close>

definition batch_upsert_leaves ::
  "system_time \<Rightarrow> TreeNode list \<Rightarrow> bool \<Rightarrow> TreeNodeId set option \<Rightarrow> TreeDb \<Rightarrow> TreeServiceError + TreeDb" where
  "batch_upsert_leaves now leaves missing skip_ids db =
     (let filtered = (case skip_ids of Some skip \<Rightarrow> filter (\<lambda>l. tn_id l \<notin> skip) leaves | None \<Rightarrow> leaves) in
      if filtered = [] then Ok db
      else if \<not> distinct (map tn_id filtered) then Err database_error
      else Ok (db\<lparr>tree_leaves := foldl (upsert_leaf now missing) (tree_leaves db) filtered\<rparr>))"

definition batch_set_reservation_id :: "LeavesReservationId \<Rightarrow> TreeNodeId list \<Rightarrow> TreeDb \<Rightarrow> TreeDb" where
  "batch_set_reservation_id rid leaf_ids db =
     db\<lparr>tree_leaves :=
       update_rows (\<lambda>i r. if i \<in> set leaf_ids then r\<lparr>row_reservation := Some rid\<rparr> else r) (tree_leaves db)\<rparr>"

definition batch_insert_spent_leaves :: "system_time \<Rightarrow> TreeNodeId list \<Rightarrow> TreeDb \<Rightarrow> TreeDb" where
  "batch_insert_spent_leaves now leaf_ids db =
     db\<lparr>tree_spent_leaves :=
       foldl (\<lambda>m i. if hm_contains m i then m else hm_insert i now m) (tree_spent_leaves db) leaf_ids\<rparr>"

definition batch_remove_spent_leaves :: "TreeNodeId list \<Rightarrow> TreeDb \<Rightarrow> TreeDb" where
  "batch_remove_spent_leaves leaf_ids db =
     db\<lparr>tree_spent_leaves := hm_retain (\<lambda>i _. i \<notin> set leaf_ids) (tree_spent_leaves db)\<rparr>"

text \<open>Deleting reservations clears the column of their leaves (\<open>ON DELETE SET NULL\<close>).\<close>

definition freed_row ::
  "(LeavesReservationId \<Rightarrow> ReservationRow \<Rightarrow> bool) \<Rightarrow> (LeavesReservationId, ReservationRow) hmap \<Rightarrow> LeafRow \<Rightarrow> LeafRow" where
  "freed_row gone rs r =
     (case row_reservation r of
        None \<Rightarrow> r
      | Some rid \<Rightarrow>
          (case hm_get rs rid of
             None \<Rightarrow> r
           | Some rr \<Rightarrow> if gone rid rr then r\<lparr>row_reservation := None\<rparr> else r))"

definition delete_reservations :: "(LeavesReservationId \<Rightarrow> ReservationRow \<Rightarrow> bool) \<Rightarrow> TreeDb \<Rightarrow> TreeDb" where
  "delete_reservations gone db =
     db\<lparr>tree_reservations := hm_retain (\<lambda>i r. \<not> gone i r) (tree_reservations db),
        tree_leaves := update_rows (\<lambda>_. freed_row gone (tree_reservations db)) (tree_leaves db)\<rparr>"

definition delete_leaves :: "(LeafRow \<Rightarrow> bool) \<Rightarrow> TreeDb \<Rightarrow> TreeDb" where
  "delete_leaves gone db = db\<lparr>tree_leaves := hm_retain (\<lambda>_ r. \<not> gone r) (tree_leaves db)\<rparr>"

definition reserved_leaf_ids :: "LeavesReservationId \<Rightarrow> TreeDb \<Rightarrow> TreeNodeId list" where
  "reserved_leaf_ids rid db = map fst (filter (\<lambda>(i, r). row_reservation r = Some rid) (tree_leaves db))"

definition cleanup_stale_reservations :: "system_time \<Rightarrow> TreeDb \<Rightarrow> TreeDb" where
  "cleanup_stale_reservations now db = delete_reservations (\<lambda>_ r. rr_created_at r + RESERVATION_TIMEOUT < now) db"

definition cleanup_spent_markers :: "system_time \<Rightarrow> TreeDb \<Rightarrow> TreeDb" where
  "cleanup_spent_markers refresh_timestamp db =
     db\<lparr>tree_spent_leaves :=
       hm_retain (\<lambda>_ t. \<not> t < refresh_timestamp - SPENT_MARKER_CLEANUP_THRESHOLD) (tree_spent_leaves db)\<rparr>"

definition as_i64 :: "u64 \<Rightarrow> int" where
  "as_i64 n = (if n < 2 ^ 63 then int n else int n - 2 ^ 64)"

definition calculate_pending_balance :: "TreeDb \<Rightarrow> TreeServiceError + u64" where
  "calculate_pending_balance db =
     (let total_change = sum_list (map rr_pending_change (hm_values (tree_reservations db))) in
      if total_change < - (2 ^ 63) \<or> 2 ^ 63 \<le> total_change then Err database_error else Ok (nat total_change))"

definition create_reservation ::
  "system_time \<Rightarrow> LeavesReservationId \<Rightarrow> TreeNode list \<Rightarrow> ReservationPurpose \<Rightarrow> u64 \<Rightarrow> TreeDb \<Rightarrow> TreeServiceError + TreeDb" where
  "create_reservation now rid leaves purpose change db =
     (if hm_contains (tree_reservations db) rid then Err database_error
      else Ok (batch_set_reservation_id rid (map tn_id leaves)
        (db\<lparr>tree_reservations := hm_insert rid
             \<lparr>rr_purpose = purpose_to_string purpose, rr_pending_change = as_i64 change, rr_created_at = now\<rparr>
             (tree_reservations db)\<rparr>)))"

text \<open>The database after the leaves of a reservation were spent and the reservation deleted.\<close>

definition finalized :: "system_time \<Rightarrow> LeavesReservationId \<Rightarrow> TreeDb \<Rightarrow> TreeDb" where
  "finalized now rid db =
     delete_reservations (\<lambda>i _. i = rid) (delete_leaves (\<lambda>r. row_reservation r = Some rid)
       (batch_insert_spent_leaves now (reserved_leaf_ids rid db) db))"

section \<open>Operations\<close>

definition pg_add_leaves :: "system_time \<Rightarrow> TreeNode list \<Rightarrow> TreeDb \<Rightarrow> TreeDb \<times> (TreeServiceError + unit)" where
  "pg_add_leaves now leaves db0 =
     (if leaves = [] then (db0, Ok ())
      else in_transaction (\<lambda>db.
        rbind (batch_upsert_leaves now leaves False None (batch_remove_spent_leaves (map tn_id leaves) db))
          (\<lambda>db. Ok (notify_balance_change db, ()))) db0)"

fun sort_rows :: "(LeavesReservationId, ReservationRow) hmap \<Rightarrow> LeafRow list \<Rightarrow> TreeServiceError + Leaves" where
  "sort_rows rs [] = Ok \<lparr>lv_available = [], lv_not_available = [], available_missing_from_operators = [],
     reserved_for_payment = [], reserved_for_swap = []\<rparr>"
| "sort_rows rs (r # rows) =
     (let node = row_data r;
          purpose = (case row_reservation r of None \<Rightarrow> None | Some rid \<Rightarrow> map_option rr_purpose (hm_get rs rid))
      in case purpose of
           Some p \<Rightarrow>
             rbind (map_err Generic (purpose_from_str p)) (\<lambda>p.
             rbind (sort_rows rs rows) (\<lambda>ls.
               Ok (case p of
                     Payment \<Rightarrow> ls\<lparr>reserved_for_payment := node # reserved_for_payment ls\<rparr>
                   | Swap \<Rightarrow> ls\<lparr>reserved_for_swap := node # reserved_for_swap ls\<rparr>)))
         | None \<Rightarrow>
             rbind (sort_rows rs rows) (\<lambda>ls.
               Ok (if row_missing r
                   then (if tn_status node = Available
                         then ls\<lparr>available_missing_from_operators := node # available_missing_from_operators ls\<rparr> else ls)
                   else if tn_status node = Available then ls\<lparr>lv_available := node # lv_available ls\<rparr>
                   else ls\<lparr>lv_not_available := node # lv_not_available ls\<rparr>)))"

definition pg_get_leaves :: "TreeDb \<Rightarrow> TreeDb \<times> (TreeServiceError + Leaves)" where
  "pg_get_leaves db0 =
     in_transaction (\<lambda>db. rbind (sort_rows (tree_reservations db) (hm_values (tree_leaves db))) (\<lambda>ls. Ok (db, ls))) db0"

definition pg_set_leaves ::
  "system_time \<Rightarrow> TreeNode list \<Rightarrow> TreeNode list \<Rightarrow> system_time \<Rightarrow> TreeDb \<Rightarrow> TreeDb \<times> (TreeServiceError + unit)" where
  "pg_set_leaves now leaves missing refresh_timestamp db0 =
     in_transaction (\<lambda>db.
       let active_swap = list_ex (\<lambda>r. rr_purpose r = ''Swap'') (hm_values (tree_reservations db));
           completed = (case last_completed_at db of None \<Rightarrow> False | Some t \<Rightarrow> refresh_timestamp \<le> t)
       in if active_swap \<or> completed then Ok (db, ())
          else
            let db1 = cleanup_spent_markers refresh_timestamp db;
                spent_ids = set (hm_keys (hm_retain (\<lambda>_ t. refresh_timestamp \<le> t) (tree_spent_leaves db1)));
                db2 = delete_leaves (\<lambda>r. row_reservation r = None \<and> row_added_at r < refresh_timestamp) db1;
                db3 = cleanup_stale_reservations now db2
            in rbind (batch_upsert_leaves now leaves False (Some spent_ids) db3) (\<lambda>db4.
               rbind (batch_upsert_leaves now missing True (Some spent_ids) db4) (\<lambda>db5.
                 Ok (notify_balance_change db5, ())))) db0"

definition pg_cancel_reservation :: "LeavesReservationId \<Rightarrow> TreeDb \<Rightarrow> TreeDb \<times> (TreeServiceError + unit)" where
  "pg_cancel_reservation rid db0 =
     in_transaction (\<lambda>db.
       if \<not> hm_contains (tree_reservations db) rid then Ok (db, ())
       else Ok (notify_balance_change (delete_reservations (\<lambda>i _. i = rid) db), ())) db0"

definition pg_finalize_reservation ::
  "system_time \<Rightarrow> LeavesReservationId \<Rightarrow> TreeNode list option \<Rightarrow> TreeDb \<Rightarrow> TreeDb \<times> (TreeServiceError + unit)" where
  "pg_finalize_reservation now rid new_leaves db0 =
     in_transaction (\<lambda>db.
       case hm_get (tree_reservations db) rid of
         None \<Rightarrow> Ok (db, ())
       | Some row \<Rightarrow>
           let is_swap = (rr_purpose row = ''Swap''); db3 = finalized now rid db
           in rbind (case new_leaves of None \<Rightarrow> Ok db3 | Some ls \<Rightarrow> batch_upsert_leaves now ls False None db3) (\<lambda>db4.
                Ok (notify_balance_change
                      (if is_swap \<and> new_leaves \<noteq> None then db4\<lparr>last_completed_at := Some now\<rparr> else db4), ()))) db0"

definition pg_available :: "TreeDb \<Rightarrow> TreeNode list" where
  "pg_available db =
     map row_data (filter (\<lambda>r. row_status r = ''Available'' \<and> \<not> row_missing r \<and> row_reservation r = None)
       (hm_values (tree_leaves db)))"

definition pg_try_reserve_leaves ::
  "system_time \<Rightarrow> LeavesReservationId \<Rightarrow> TargetAmounts option \<Rightarrow> bool \<Rightarrow> ReservationPurpose \<Rightarrow> TreeDb \<Rightarrow>
   TreeDb \<times> (TreeServiceError + ReserveResult)" where
  "pg_try_reserve_leaves now rid target_amounts exact_only purpose db0 =
     in_transaction (\<lambda>db.
       let target_amount = (case target_amounts of None \<Rightarrow> 0 | Some ta \<Rightarrow> total_sats ta);
           available_leaves = pg_available db;
           available = leaves_sum available_leaves;
           reserve = (\<lambda>selected change. rbind (create_reservation now rid selected purpose change db)
             (\<lambda>db. Ok (notify_balance_change db, Success (new_reservation selected rid))))
       in rbind (calculate_pending_balance db) (\<lambda>pending.
            case select_leaves_by_target_amounts available_leaves target_amounts of
              Ok target_leaves \<Rightarrow>
                (let selected = selected_leaves target_leaves in
                 if selected = [] then Err NonReservableLeaves else reserve selected 0)
            | Err _ \<Rightarrow>
                if \<not> exact_only
                then (case select_leaves_by_minimum_amount available_leaves target_amount of
                        Ok (Some selected) \<Rightarrow> reserve selected (pending_change (leaves_sum selected) target_amount)
                      | _ \<Rightarrow> Ok (db, wait_or_insufficient target_amount available pending))
                else Ok (db, wait_or_insufficient target_amount available pending))) db0"

definition pg_update_reservation ::
  "system_time \<Rightarrow> LeavesReservationId \<Rightarrow> TreeNode list \<Rightarrow> TreeNode list \<Rightarrow> TreeDb \<Rightarrow>
   TreeDb \<times> (TreeServiceError + LeavesReservation)" where
  "pg_update_reservation now rid reserved_leaves change_leaves db0 =
     in_transaction (\<lambda>db.
       case hm_get (tree_reservations db) rid of
         None \<Rightarrow> Err (Generic (''Reservation '' @ rid @ '' not found''))
       | Some row \<Rightarrow>
           let db1 = batch_insert_spent_leaves now (reserved_leaf_ids rid db) db;
               db2 = delete_leaves (\<lambda>r. row_reservation r = Some rid) db1
           in rbind (batch_upsert_leaves now change_leaves False None db2) (\<lambda>db3.
              rbind (batch_upsert_leaves now reserved_leaves False None db3) (\<lambda>db4.
              let db5 = batch_set_reservation_id rid (map tn_id reserved_leaves) db4;
                  db6 = db5\<lparr>tree_reservations := hm_insert rid (row\<lparr>rr_pending_change := 0\<rparr>) (tree_reservations db5)\<rparr>
              in Ok (notify_balance_change db6, new_reservation reserved_leaves rid)))) db0"

definition pg_now :: "system_time \<Rightarrow> TreeDb \<Rightarrow> TreeDb \<times> (TreeServiceError + system_time)" where
  "pg_now now db0 = in_transaction (\<lambda>db. Ok (db, now)) db0"

section \<open>Every operation as a step\<close>

inductive pg_step :: "TreeDb \<Rightarrow> TreeDb \<Rightarrow> bool" where
  pg_add: "pg_add_leaves now ls db = (db', x) \<Longrightarrow> pg_step db db'"
| pg_get: "pg_get_leaves db = (db', y) \<Longrightarrow> pg_step db db'"
| pg_set: "pg_set_leaves now ls missing started db = (db', x) \<Longrightarrow> pg_step db db'"
| pg_reserve: "pg_try_reserve_leaves now rid ta exact purpose db = (db', z) \<Longrightarrow> pg_step db db'"
| pg_cancel: "pg_cancel_reservation rid db = (db', x) \<Longrightarrow> pg_step db db'"
| pg_finalize: "pg_finalize_reservation now rid nl db = (db', x) \<Longrightarrow> pg_step db db'"
| pg_update: "pg_update_reservation now rid rs cs db = (db', u) \<Longrightarrow> pg_step db db'"
| pg_time: "pg_now now db = (db', t) \<Longrightarrow> pg_step db db'"

text \<open>The invariant of the tables: primary keys are unique and are the identifiers of the stored leaves, the status
  column is the status of the leaf, a reservation that a leaf names exists, and purposes can be parsed.\<close>

definition row_ok :: "(LeavesReservationId, ReservationRow) hmap \<Rightarrow> TreeNodeId \<Rightarrow> LeafRow \<Rightarrow> bool" where
  "row_ok rs i r \<longleftrightarrow> tn_id (row_data r) = i \<and> row_status r = status_to_string (tn_status (row_data r))
     \<and> (\<forall>rid. row_reservation r = Some rid \<longrightarrow> hm_get rs rid \<noteq> None)"

definition pg_inv :: "TreeDb \<Rightarrow> bool" where
  "pg_inv db \<longleftrightarrow>
     hm_ok (tree_leaves db) \<and> hm_ok (tree_reservations db) \<and> hm_ok (tree_spent_leaves db)
     \<and> (\<forall>i r. hm_get (tree_leaves db) i = Some r \<longrightarrow> row_ok (tree_reservations db) i r)
     \<and> (\<forall>rid r. hm_get (tree_reservations db) rid = Some r \<longrightarrow> (\<exists>p. rr_purpose r = purpose_to_string p))"

section \<open>What the statements do to the rows\<close>

lemma hm_ok_upsert_leaf [simp]: "hm_ok t \<Longrightarrow> hm_ok (upsert_leaf now m t l)"
  by (simp add: upsert_leaf_def)

lemma hm_ok_upsert_leaves [simp]: "hm_ok t \<Longrightarrow> hm_ok (foldl (upsert_leaf now m) t ls)"
  by (induction ls arbitrary: t) simp_all

text \<open>The row that an upsert writes, and the table after a batch.\<close>

definition upserted_row :: "system_time \<Rightarrow> bool \<Rightarrow> leaf_table \<Rightarrow> TreeNode \<Rightarrow> LeafRow" where
  "upserted_row now m t l =
     \<lparr>row_status = status_to_string (tn_status l), row_missing = m,
      row_reservation = (case hm_get t (tn_id l) of None \<Rightarrow> None | Some r \<Rightarrow> row_reservation r),
      row_data = l, row_added_at = now\<rparr>"

lemma find_Some_mem: "find P xs = Some x \<Longrightarrow> x \<in> set xs \<and> P x"
  by (auto simp: find_Some_iff)

lemma hm_get_upsert_leaves:
  "distinct (map tn_id ls) \<Longrightarrow>
     hm_get (foldl (upsert_leaf now m) t ls) i =
       (case find (\<lambda>l. tn_id l = i) ls of Some l \<Rightarrow> Some (upserted_row now m t l) | None \<Rightarrow> hm_get t i)"
proof (induction ls arbitrary: t)
  case (Cons l ls)
  have "tn_id k \<noteq> tn_id l" if "k \<in> set ls" for k using Cons.prems imageI [OF that, of tn_id] by auto
  then have "find (\<lambda>k. tn_id k = tn_id l) ls = None" by (simp add: find_None_iff)
  moreover have "upserted_row now m (upsert_leaf now m t l) k = upserted_row now m t k" if "tn_id k \<noteq> tn_id l" for k
    using that by (simp add: upserted_row_def upsert_leaf_def)
  ultimately show ?case using Cons
    by (auto simp: upsert_leaf_def upserted_row_def split: option.splits dest!: find_Some_mem)
qed simp

lemma batch_upsert_leaves_Ok:
  assumes "batch_upsert_leaves now ls m skip db = Ok db'"
  obtains fs where "fs = (case skip of Some k \<Rightarrow> filter (\<lambda>l. tn_id l \<notin> k) ls | None \<Rightarrow> ls)" and "distinct (map tn_id fs)"
    and "db' = db\<lparr>tree_leaves := foldl (upsert_leaf now m) (tree_leaves db) fs\<rparr>"
proof -
  let ?fs = "case skip of Some k \<Rightarrow> filter (\<lambda>l. tn_id l \<notin> k) ls | None \<Rightarrow> ls"
  have "distinct (map tn_id ?fs)" "db' = db\<lparr>tree_leaves := foldl (upsert_leaf now m) (tree_leaves db) ?fs\<rparr>"
    using assms by (auto simp: batch_upsert_leaves_def Let_def split: if_splits)
  then show thesis using that by blast
qed

lemma in_transaction_cases:
  assumes "in_transaction f db = (db', x)"
  obtains (committed) cs y where "f (db\<lparr>tree_connections := cs\<rparr>) = Ok (db', y)" and "x = Ok y"
  | (rolled_back) cs e where "db' = db\<lparr>tree_connections := cs\<rparr>" and "x = Err e"
  using assms committed rolled_back by (auto simp: in_transaction_def Let_def split: sum.splits if_splits)

lemma in_transaction_connected:
  "tree_connections db = [] \<Longrightarrow> in_transaction f db = (case f db of Err e \<Rightarrow> (db, Err e) | Ok (db2, x) \<Rightarrow> (db2, Ok x))"
  by (cases db) (simp add: in_transaction_def Let_def split: sum.split)

lemma statement_reservations [simp]:
  "tree_reservations (delete_leaves gone db) = tree_reservations db"
  "tree_reservations (batch_insert_spent_leaves now is db) = tree_reservations db"
  "tree_reservations (batch_remove_spent_leaves is db) = tree_reservations db"
  "tree_reservations (cleanup_spent_markers t db) = tree_reservations db"
  "tree_reservations (batch_set_reservation_id rid is db) = tree_reservations db"
  by (simp_all add: delete_leaves_def batch_insert_spent_leaves_def batch_remove_spent_leaves_def cleanup_spent_markers_def
      batch_set_reservation_id_def)

lemma delete_reservations_others [simp]:
  "tree_spent_leaves (delete_reservations gone db) = tree_spent_leaves db"
  "last_completed_at (delete_reservations gone db) = last_completed_at db"
  by (simp_all add: delete_reservations_def)

lemma upsert_reservations: "batch_upsert_leaves now ls m skip db = Ok db' \<Longrightarrow> tree_reservations db' = tree_reservations db"
  by (erule batch_upsert_leaves_Ok) simp

section \<open>The invariant\<close>

lemma pg_inv_cong [simp]:
  "pg_inv (db\<lparr>tree_connections := cs\<rparr>) = pg_inv db"
  "pg_inv (db\<lparr>last_completed_at := t\<rparr>) = pg_inv db"
  "pg_inv (notify_balance_change db) = pg_inv db"
  by (simp_all add: pg_inv_def notify_balance_change_def)

lemma pg_inv_spent: "pg_inv db \<Longrightarrow> hm_ok m \<Longrightarrow> pg_inv (db\<lparr>tree_spent_leaves := m\<rparr>)"
  by (simp add: pg_inv_def)

lemma hm_ok_insert_spent [simp]:
  "hm_ok m \<Longrightarrow> hm_ok (foldl (\<lambda>m i. if hm_contains m i then m else hm_insert i now m) m is)"
  by (induction "is" arbitrary: m) simp_all

lemma pg_inv_spent_statements [simp]:
  assumes "pg_inv db"
  shows "pg_inv (batch_insert_spent_leaves now is db)" and "pg_inv (batch_remove_spent_leaves is db)"
    and "pg_inv (cleanup_spent_markers t db)"
proof -
  have "hm_ok (tree_spent_leaves db)" using assms by (simp add: pg_inv_def)
  with assms show "pg_inv (batch_insert_spent_leaves now is db)" "pg_inv (batch_remove_spent_leaves is db)"
    "pg_inv (cleanup_spent_markers t db)"
    unfolding batch_insert_spent_leaves_def batch_remove_spent_leaves_def cleanup_spent_markers_def
    by (simp_all add: pg_inv_spent)
qed

lemma pg_inv_delete_leaves [simp]: "pg_inv db \<Longrightarrow> pg_inv (delete_leaves gone db)"
  by (auto simp: pg_inv_def delete_leaves_def hm_get_retain split: option.splits if_splits)

lemma pg_inv_set_reservation:
  "pg_inv db \<Longrightarrow> hm_get (tree_reservations db) rid \<noteq> None \<Longrightarrow> pg_inv (batch_set_reservation_id rid is db)"
  by (auto simp: pg_inv_def batch_set_reservation_id_def row_ok_def split: if_splits)

lemma freed_row_simps [simp]:
  "row_data (freed_row gone rs r) = row_data r" "row_status (freed_row gone rs r) = row_status r"
  "row_missing (freed_row gone rs r) = row_missing r" "row_added_at (freed_row gone rs r) = row_added_at r"
  by (simp_all add: freed_row_def split: option.split)

lemma freed_row_reservation:
  "row_reservation (freed_row gone rs r) =
     (case row_reservation r of None \<Rightarrow> None
      | Some rid \<Rightarrow> if (\<exists>rr. hm_get rs rid = Some rr \<and> gone rid rr) then None else Some rid)"
  by (auto simp: freed_row_def split: option.split)

lemma row_ok_freed:
  "hm_ok rs \<Longrightarrow> row_ok rs i r \<Longrightarrow> row_ok (hm_retain (\<lambda>i r. \<not> gone i r) rs) i (freed_row gone rs r)"
  by (auto simp: row_ok_def freed_row_reservation hm_get_retain split: option.splits if_splits)

lemma pg_inv_delete_reservations [simp]: "pg_inv db \<Longrightarrow> pg_inv (delete_reservations gone db)"
  by (auto simp: pg_inv_def delete_reservations_def row_ok_freed hm_get_retain split: option.splits if_splits)

lemma pg_inv_stale [simp]: "pg_inv db \<Longrightarrow> pg_inv (cleanup_stale_reservations now db)"
  by (simp add: cleanup_stale_reservations_def)

lemma pg_inv_upsert_rows:
  assumes "pg_inv db" and "distinct (map tn_id ls)"
  shows "pg_inv (db\<lparr>tree_leaves := foldl (upsert_leaf now m) (tree_leaves db) ls\<rparr>)"
  using assms
  by (auto simp: pg_inv_def row_ok_def hm_get_upsert_leaves upserted_row_def split: option.splits dest!: find_Some_mem)

lemma pg_inv_upsert:
  "pg_inv db \<Longrightarrow> batch_upsert_leaves now ls m skip db = Ok db' \<Longrightarrow> pg_inv db'"
  by (erule batch_upsert_leaves_Ok) (simp add: pg_inv_upsert_rows)

lemma pg_inv_reservation_row:
  assumes "pg_inv db" and "rr_purpose row = purpose_to_string p"
  shows "pg_inv (db\<lparr>tree_reservations := hm_insert rid row (tree_reservations db)\<rparr>)"
  using assms by (auto simp: pg_inv_def row_ok_def)

lemma pg_inv_create:
  "pg_inv db \<Longrightarrow> create_reservation now rid ls purpose change db = Ok db' \<Longrightarrow> pg_inv db'"
  by (auto simp: create_reservation_def split: if_splits intro!: pg_inv_set_reservation pg_inv_reservation_row)

lemma pg_inv_step:
  assumes "pg_step db db'" and "pg_inv db"
  shows "pg_inv db'"
  using assms(1)
proof cases
  case (pg_add now ls x)
  with assms(2) show ?thesis
    by (auto simp: pg_add_leaves_def rbind_def split: if_splits sum.splits elim!: in_transaction_cases dest!: pg_inv_upsert [rotated])
next
  case (pg_get y)
  with assms(2) show ?thesis
    by (auto simp: pg_get_leaves_def rbind_def split: sum.splits elim!: in_transaction_cases)
next
  case (pg_set now ls missing started x)
  with assms(2) show ?thesis
    by (auto simp: pg_set_leaves_def rbind_def Let_def split: if_splits sum.splits elim!: in_transaction_cases dest!: pg_inv_upsert [rotated])
next
  case (pg_reserve now rid ta exact purpose z)
  with assms(2) show ?thesis
    by (auto simp: pg_try_reserve_leaves_def rbind_def Let_def split: if_splits sum.splits option.splits elim!: in_transaction_cases
        dest!: pg_inv_create [rotated])
next
  case (pg_cancel rid x)
  with assms(2) show ?thesis
    by (auto simp: pg_cancel_reservation_def split: if_splits elim!: in_transaction_cases)
next
  case (pg_finalize now rid nl x)
  with assms(2) show ?thesis
    by (auto simp: pg_finalize_reservation_def finalized_def rbind_def Let_def split: if_splits sum.splits option.splits elim!: in_transaction_cases
        dest!: pg_inv_upsert [rotated])
next
  case (pg_update now rid rs cs u)
  from pg_update show ?thesis unfolding pg_update_reservation_def
  proof (cases rule: in_transaction_cases)
    case (committed conns y)
    let ?d = "db\<lparr>tree_connections := conns\<rparr>"
    show ?thesis
    proof (cases "hm_get (tree_reservations db) rid")
      case None
      with committed show ?thesis by simp
    next
      case (Some row)
      let ?d2 = "delete_leaves (\<lambda>r. row_reservation r = Some rid) (batch_insert_spent_leaves now (reserved_leaf_ids rid ?d) ?d)"
      from committed Some obtain db3 db4 where u: "batch_upsert_leaves now cs False None ?d2 = Ok db3"
        "batch_upsert_leaves now rs False None db3 = Ok db4"
        and db': "db' = notify_balance_change ((batch_set_reservation_id rid (map tn_id rs) db4)\<lparr>tree_reservations :=
          hm_insert rid (row\<lparr>rr_pending_change := 0\<rparr>) (tree_reservations db4)\<rparr>)"
        by (auto simp: rbind_def Let_def split: sum.splits)
      have "pg_inv db4" using u assms(2) pg_inv_upsert by (metis pg_inv_cong(1) pg_inv_delete_leaves pg_inv_spent_statements(1))
      moreover have r4: "tree_reservations db4 = tree_reservations db" using u by (simp add: upsert_reservations)
      moreover obtain p where "rr_purpose row = purpose_to_string p" using assms(2) Some unfolding pg_inv_def by blast
      ultimately show ?thesis unfolding db' pg_inv_cong
        using pg_inv_reservation_row [of "batch_set_reservation_id rid (map tn_id rs) db4" "row\<lparr>rr_pending_change := 0\<rparr>" p rid]
          pg_inv_set_reservation [of db4 rid "map tn_id rs"] Some by simp
    qed
  next
    case (rolled_back conns e)
    with assms(2) show ?thesis by simp
  qed
next
  case (pg_time now t)
  with assms(2) show ?thesis by (auto simp: pg_now_def elim!: in_transaction_cases)
qed

lemma pg_inv_empty: "pg_inv (empty_tree_db cs)"
  by (simp add: pg_inv_def empty_tree_db_def)

interpretation pg: invariant_system "\<lambda>db. db = empty_tree_db cs" pg_step pg_inv for cs
  by unfold_locales (simp_all add: pg_inv_empty pg_inv_step)

lemma reserved_leaf_ids_set:
  "pg_inv db \<Longrightarrow> set (reserved_leaf_ids rid db) = {i. \<exists>r. hm_get (tree_leaves db) i = Some r \<and> row_reservation r = Some rid}"
proof -
  assume "pg_inv db"
  then have "hm_ok (tree_leaves db)" by (simp add: pg_inv_def)
  then have "(i, r) \<in> set (tree_leaves db) \<longleftrightarrow> hm_get (tree_leaves db) i = Some r" for i r by (rule hm_in_set)
  then show ?thesis unfolding reserved_leaf_ids_def by (auto simp: image_iff)
qed

section \<open>Properties\<close>



end
