(* ===== verification/Postgres_Tree_Agreement.thy ===== *)
theory Postgres_Tree_Agreement
  imports Postgres_Tree_Store
begin

text \<open>
  The two implementations of \<open>TreeStore\<close>, on PostgreSQL (\<open>crates/spark-postgres/src/tree_store.rs\<close>) and in memory
  (\<open>crates/spark/src/tree/store.rs\<close>), against each other. The relation \<open>stores_match\<close> says that the same leaves are in the same
  places; adding, reserving, cancelling and finalizing keep it and answer alike, and a refresh gives both the same
  pool. The last section shows where the stores differ. The database store also provides the interface
  \<open>reservation_store\<close>.
\<close>

section \<open>Agreement with the in-memory store\<close>

definition stored_row :: "LeafRow \<Rightarrow> StoredLeaf" where
  "stored_row r = \<lparr>sl_node = row_data r, added_at = row_added_at r\<rparr>"

definition pool_of :: "TreeDb \<Rightarrow> TreeNodeId \<Rightarrow> StoredLeaf option" where
  "pool_of db i =
     (case hm_get (tree_leaves db) i of
        None \<Rightarrow> None
      | Some r \<Rightarrow> if row_reservation r = None \<and> \<not> row_missing r then Some (stored_row r) else None)"

definition reserved_of :: "TreeDb \<Rightarrow> LeavesReservationId \<Rightarrow> StoredLeaf set" where
  "reserved_of db rid = {s. \<exists>i r. hm_get (tree_leaves db) i = Some r \<and> row_reservation r = Some rid \<and> s = stored_row r}"

definition entry_match :: "TreeDb \<Rightarrow> LeavesReservationId \<Rightarrow> ReservationEntry option \<Rightarrow> bool" where
  "entry_match db rid e \<longleftrightarrow>
     (case e of
        None \<Rightarrow> hm_get (tree_reservations db) rid = None
      | Some e \<Rightarrow> (\<exists>t. hm_get (tree_reservations db) rid =
            Some \<lparr>rr_purpose = purpose_to_string (re_purpose e), rr_pending_change = as_i64 (pending_change_amount e), rr_created_at = t\<rparr>)
          \<and> set (re_leaves e) = reserved_of db rid)"

text \<open>The two stores hold the same leaves in the same places. The database may keep marks of spent leaves that the
  other store has dropped; they are from before the time \<open>b\<close>.\<close>

definition spent_match :: "system_time \<Rightarrow> LeavesState \<Rightarrow> TreeDb \<Rightarrow> bool" where
  "spent_match b st db \<longleftrightarrow>
     (\<forall>i. hm_get (spent_leaf_ids st) i = hm_get (tree_spent_leaves db) i
        \<or> hm_get (spent_leaf_ids st) i = None \<and> (\<exists>t. hm_get (tree_spent_leaves db) i = Some t \<and> t < b))"

definition stores_match :: "system_time \<Rightarrow> LeavesState \<Rightarrow> TreeDb \<Rightarrow> bool" where
  "stores_match b st db \<longleftrightarrow>
     hm_get (st_leaves st) = pool_of db
     \<and> (\<forall>rid. entry_match db rid (hm_get (leaves_reservations st) rid))
     \<and> (\<forall>i r. hm_get (tree_leaves db) i = Some r \<and> row_reservation r \<noteq> None \<longrightarrow> \<not> row_missing r)
     \<and> spent_match b st db
     \<and> last_swap_completed_at st = last_completed_at db"

lemma match_entry: "stores_match b st db \<Longrightarrow> entry_match db rid (hm_get (leaves_reservations st) rid)"
  by (simp add: stores_match_def)

lemma entry_match_cong:
  "hm_get (tree_reservations db') j = hm_get (tree_reservations db) j \<Longrightarrow> reserved_of db' j = reserved_of db j \<Longrightarrow>
     entry_match db' j e = entry_match db j e"
  by (cases e) (simp_all add: entry_match_def)

lemma inv_row: "pg_inv db \<Longrightarrow> hm_get (tree_leaves db) i = Some r \<Longrightarrow> row_ok (tree_reservations db) i r"
  by (simp add: pg_inv_def)

lemma stored_row_id: "pg_inv db \<Longrightarrow> hm_get (tree_leaves db) i = Some r \<Longrightarrow> stored_id (stored_row r) = i"
  by (simp add: pg_inv_def row_ok_def stored_row_def)

lemma reserved_of_iff:
  "pg_inv db \<Longrightarrow> s \<in> reserved_of db rid \<longleftrightarrow>
     (\<exists>r. hm_get (tree_leaves db) (stored_id s) = Some r \<and> row_reservation r = Some rid \<and> s = stored_row r)"
  using stored_row_id [of db] by (auto simp: reserved_of_def)

lemma stored_row_freed [simp]: "stored_row (freed_row gone rs r) = stored_row r"
  by (simp add: stored_row_def)

lemma views_notify [simp]:
  "pool_of (notify_balance_change db) = pool_of db" "reserved_of (notify_balance_change db) = reserved_of db"
  "tree_leaves (notify_balance_change db) = tree_leaves db" "tree_reservations (notify_balance_change db) = tree_reservations db"
  "tree_spent_leaves (notify_balance_change db) = tree_spent_leaves db" "last_completed_at (notify_balance_change db) = last_completed_at db"
  "tree_connections (notify_balance_change db) = tree_connections db"
  by (simp_all add: fun_eq_iff pool_of_def reserved_of_def notify_balance_change_def)

lemma match_notify [simp]:
  "entry_match (notify_balance_change db) rid e = entry_match db rid e"
  "stores_match b st (notify_balance_change db) = stores_match b st db"
  by (simp_all add: stores_match_def spent_match_def entry_match_cong [of "notify_balance_change db" _ db])

lemma delete_one_reservation:
  assumes "pg_inv db" and "hm_get (tree_reservations db) rid \<noteq> None"
  defines "db' \<equiv> delete_reservations (\<lambda>i _. i = rid) db"
  shows "hm_get (tree_leaves db') i = map_option (\<lambda>r. if row_reservation r = Some rid then r\<lparr>row_reservation := None\<rparr> else r)
           (hm_get (tree_leaves db) i)"
    and "hm_get (tree_reservations db') j = (if j = rid then None else hm_get (tree_reservations db) j)"
proof -
  show "hm_get (tree_leaves db') i = map_option (\<lambda>r. if row_reservation r = Some rid then r\<lparr>row_reservation := None\<rparr> else r)
           (hm_get (tree_leaves db) i)"
    using assms(2) by (cases "hm_get (tree_leaves db) i") (auto simp: db'_def delete_reservations_def freed_row_def split: option.split)
  show "hm_get (tree_reservations db') j = (if j = rid then None else hm_get (tree_reservations db) j)"
    using assms(1) by (simp add: db'_def delete_reservations_def hm_get_retain pg_inv_def split: option.split)
qed

lemma pg_cancel_connected:
  assumes "tree_connections db = []"
  shows "pg_cancel_reservation rid db =
    (if hm_get (tree_reservations db) rid = None then db
     else notify_balance_change (delete_reservations (\<lambda>i _. i = rid) db), Ok ())"
  using assms by (simp add: pg_cancel_reservation_def in_transaction_connected hm_contains_iff)

lemma cancel_matches:
  assumes m: "stores_match b st db" and inv: "store_inv st" "pg_inv db" and c: "tree_connections db = []"
  shows "stores_match b (process_cancel_reservation st rid) (fst (pg_cancel_reservation rid db))"
proof (cases "hm_get (leaves_reservations st) rid")
  case None
  with match_entry [OF m, of rid] have "hm_get (tree_reservations db) rid = None" by (simp add: entry_match_def)
  with None m c show ?thesis by (simp add: pg_cancel_connected process_cancel_reservation_def)
next
  case (Some e)
  let ?db = "delete_reservations (\<lambda>i _. i = rid) db" and ?st = "process_cancel_reservation st rid"
  have e: "set (re_leaves e) = reserved_of db rid" "hm_get (tree_reservations db) rid \<noteq> None"
    using match_entry [OF m, of rid] Some by (auto simp: entry_match_def)
  note del = delete_one_reservation [OF inv(2) e(2)]
  have d: "distinct (map stored_id (re_leaves e))"
    using inv(1) Some reserved_ids_remove_distinct(1) by (auto simp: store_inv_def)
  have nm: "\<not> row_missing r" if "hm_get (tree_leaves db) i = Some r" "row_reservation r \<noteq> None" for i r
    using m that by (auto simp: stores_match_def)
  have "hm_get (st_leaves ?st) k = pool_of ?db k" for k
  proof (cases "k \<in> stored_id ` set (re_leaves e)")
    case True
    then obtain s where s: "s \<in> set (re_leaves e)" "k = stored_id s" by blast
    with e(1) obtain r where "hm_get (tree_leaves db) k = Some r" "row_reservation r = Some rid" "s = stored_row r"
      by (auto simp: reserved_of_iff [OF inv(2)])
    with s nm [of k r] show ?thesis
      using hm_get_insert_all_distinct [OF d s(1), of "\<lambda>s. s" "st_leaves st"] Some
      by (simp add: process_cancel_reservation_def pool_of_def del stored_row_def)
  next
    case False
    have "row_reservation r \<noteq> Some rid" if "hm_get (tree_leaves db) k = Some r" for r
    proof
      assume "row_reservation r = Some rid"
      with that e(1) have "stored_row r \<in> set (re_leaves e)" by (auto simp: reserved_of_def)
      with False stored_row_id [OF inv(2) that] show False by force
    qed
    moreover have "hm_get (st_leaves ?st) k = pool_of db k"
      using False Some m by (simp add: process_cancel_reservation_def hm_get_insert_all_notin stores_match_def)
    ultimately show ?thesis by (auto simp: pool_of_def del split: option.split)
  qed
  moreover have "entry_match ?db j (hm_get (leaves_reservations ?st) j)" for j
  proof (cases "j = rid")
    case True
    then show ?thesis by (simp add: cancel_reservations entry_match_def del)
  next
    case False
    then have "reserved_of ?db j = reserved_of db j"
      by (auto simp: reserved_of_def del stored_row_def split: if_splits) (metis option.inject stored_row_def)+
    with False match_entry [OF m, of j] show ?thesis by (simp add: cancel_reservations entry_match_cong [of ?db j db] del)
  qed
  moreover have "spent_leaf_ids ?st = spent_leaf_ids st" "last_swap_completed_at ?st = last_swap_completed_at st"
    using Some by (simp_all add: process_cancel_reservation_def)
  ultimately show ?thesis using m c e(2) nm
    by (auto simp: pg_cancel_connected stores_match_def spent_match_def del fun_eq_iff split: if_splits)
qed

text \<open>Leaves that enter the pool.\<close>

lemma hm_get_insert_leaves:
  "distinct (map tn_id ls) \<Longrightarrow>
     hm_get (insert_leaves now ls pool) k =
       (case find (\<lambda>l. tn_id l = k) ls of Some l \<Rightarrow> Some \<lparr>sl_node = l, added_at = now\<rparr> | None \<Rightarrow> hm_get pool k)"
  unfolding insert_leaves_def
  using hm_get_insert_all_distinct [of tn_id ls _ "\<lambda>l. \<lparr>sl_node = l, added_at = now\<rparr>" pool]
    hm_get_insert_all_notin [of k tn_id ls "\<lambda>l. \<lparr>sl_node = l, added_at = now\<rparr>" pool]
  by (auto simp: find_None_iff image_iff split: option.split dest!: find_Some_mem)

lemma upsert_matches:
  assumes m: "stores_match b st db" and d: "distinct (map tn_id ls)"
    and free: "\<And>l r. l \<in> set ls \<Longrightarrow> hm_get (tree_leaves db) (tn_id l) = Some r \<Longrightarrow> row_reservation r = None"
  shows "stores_match b (st\<lparr>st_leaves := insert_leaves now ls (st_leaves st)\<rparr>)
    (db\<lparr>tree_leaves := foldl (upsert_leaf now False) (tree_leaves db) ls\<rparr>)"
    (is "stores_match b ?st ?db")
proof -
  have row: "hm_get (tree_leaves ?db) i = (case find (\<lambda>l. tn_id l = i) ls of
      Some l \<Rightarrow> Some \<lparr>row_status = status_to_string (tn_status l), row_missing = False, row_reservation = None,
                     row_data = l, row_added_at = now\<rparr>
    | None \<Rightarrow> hm_get (tree_leaves db) i)" for i
    using free by (auto simp: hm_get_upsert_leaves [OF d] upserted_row_def split: option.split dest!: find_Some_mem)
  have "pool_of ?db k = hm_get (st_leaves ?st) k" for k
    using m unfolding pool_of_def row
    by (simp add: hm_get_insert_leaves [OF d] stores_match_def pool_of_def stored_row_def split: option.split)
  moreover have res: "hm_get (tree_leaves ?db) i = Some r \<and> row_reservation r = Some rid \<longleftrightarrow>
      hm_get (tree_leaves db) i = Some r \<and> row_reservation r = Some rid" for i r rid
    unfolding row using free by (auto split: option.split dest!: find_Some_mem)
  then have "reserved_of ?db rid = reserved_of db rid" for rid
    by (simp only: reserved_of_def conj_assoc [symmetric])
  then have "entry_match ?db rid (hm_get (leaves_reservations ?st) rid)" for rid
    using match_entry [OF m, of rid] by (simp add: entry_match_cong [of ?db rid db])
  moreover have "\<not> row_missing r" if "hm_get (tree_leaves ?db) i = Some r" "row_reservation r \<noteq> None" for i r
    using m res that unfolding stores_match_def by blast
  ultimately show ?thesis using m unfolding stores_match_def spent_match_def by (auto simp: fun_eq_iff)
qed

lemma match_with_spent:
  "stores_match b st db \<Longrightarrow> spent_match b (st\<lparr>spent_leaf_ids := m\<rparr>) (db\<lparr>tree_spent_leaves := m'\<rparr>) \<Longrightarrow>
     stores_match b (st\<lparr>spent_leaf_ids := m\<rparr>) (db\<lparr>tree_spent_leaves := m'\<rparr>)"
  using entry_match_cong [of "db\<lparr>tree_spent_leaves := m'\<rparr>" _ db]
  by (auto simp: stores_match_def spent_match_def pool_of_def [abs_def] reserved_of_def)

lemma spent_cases:
  assumes "spent_match b st db"
  obtains "hm_get (spent_leaf_ids st) i = hm_get (tree_spent_leaves db) i"
  | t where "hm_get (spent_leaf_ids st) i = None" and "hm_get (tree_spent_leaves db) i = Some t" and "t < b"
  using assms by (auto simp: spent_match_def)

lemma match_spent: "stores_match b st db \<Longrightarrow> spent_match b st db"
  by (simp add: stores_match_def)

lemma match_swap:
  "stores_match b st db \<Longrightarrow> stores_match b (st\<lparr>last_swap_completed_at := t\<rparr>) (db\<lparr>last_completed_at := t\<rparr>)"
  using entry_match_cong [of "db\<lparr>last_completed_at := t\<rparr>" _ db]
  by (auto simp: stores_match_def spent_match_def pool_of_def [abs_def] reserved_of_def)

lemma add_leaves_eq:
  "\<exists>m. process_add_leaves now st ls = st\<lparr>spent_leaf_ids := m, st_leaves := insert_leaves now ls (st_leaves st)\<rparr>
     \<and> hm_get m = (\<lambda>k. if k \<in> ids_of ls then None else hm_get (spent_leaf_ids st) k)"
proof (induction ls arbitrary: st)
  case Nil
  then show ?case by (intro exI [of _ "spent_leaf_ids st"]) (simp add: insert_leaves_def hm_insert_all_def)
next
  case (Cons l ls)
  show ?case
    using Cons [of "st\<lparr>spent_leaf_ids := hm_remove (tn_id l) (spent_leaf_ids st),
        st_leaves := hm_insert (tn_id l) \<lparr>sl_node = l, added_at = now\<rparr> (st_leaves st)\<rparr>"]
    by (auto simp: Let_def insert_leaves_def hm_insert_all_def fun_eq_iff)
qed

lemma pg_add_connected:
  assumes "tree_connections db = []" and "ls \<noteq> []" and "distinct (map tn_id ls)"
  shows "pg_add_leaves now ls db =
    (notify_balance_change (db\<lparr>tree_spent_leaves := hm_retain (\<lambda>i _. i \<notin> ids_of ls) (tree_spent_leaves db),
       tree_leaves := foldl (upsert_leaf now False) (tree_leaves db) ls\<rparr>), Ok ())"
  using assms
  by (simp add: pg_add_leaves_def in_transaction_connected batch_upsert_leaves_def batch_remove_spent_leaves_def)

lemma reserved_row_ids:
  assumes "stores_match b st db" and "store_inv st" and "pg_inv db"
    and "hm_get (tree_leaves db) i = Some r" and "row_reservation r \<noteq> None"
  shows "i \<in> set (reserved_ids (leaves_reservations st))"
proof -
  obtain rid where "row_reservation r = Some rid" using assms(5) by blast
  with assms(3,4) have "stored_row r \<in> reserved_of db rid" "hm_get (tree_reservations db) rid \<noteq> None"
    by (auto simp: reserved_of_def pg_inv_def row_ok_def)
  with match_entry [OF assms(1), of rid] obtain e where "hm_get (leaves_reservations st) rid = Some e" "stored_row r \<in> set (re_leaves e)"
    by (auto simp: entry_match_def split: option.splits)
  then have "stored_id (stored_row r) \<in> set (reserved_ids (leaves_reservations st))"
    using assms(2) reserved_ids_remove_set [of "leaves_reservations st" rid e] by (auto simp: store_inv_def)
  then show ?thesis using stored_row_id [OF assms(3,4)] by simp
qed

lemma add_matches:
  assumes m: "stores_match b st db" and inv: "store_inv st" "pg_inv db" and c: "tree_connections db = []"
    and d: "distinct (map tn_id ls)" and free: "ids_of ls \<inter> set (reserved_ids (leaves_reservations st)) = {}"
  shows "stores_match b (process_add_leaves now st ls) (fst (pg_add_leaves now ls db))
    \<and> snd (pg_add_leaves now ls db) = Ok ()"
proof (cases "ls = []")
  case True
  with m show ?thesis by (simp add: pg_add_leaves_def)
next
  case False
  obtain sp where sp: "process_add_leaves now st ls =
      st\<lparr>spent_leaf_ids := sp, st_leaves := insert_leaves now ls (st_leaves st)\<rparr>"
    "hm_get sp = (\<lambda>k. if k \<in> ids_of ls then None else hm_get (spent_leaf_ids st) k)" using add_leaves_eq by blast
  let ?st = "st\<lparr>spent_leaf_ids := sp\<rparr>"
  let ?db = "db\<lparr>tree_spent_leaves := hm_retain (\<lambda>i _. i \<notin> ids_of ls) (tree_spent_leaves db)\<rparr>"
  have ok: "hm_ok (tree_spent_leaves db)" using inv(2) by (simp add: pg_inv_def)
  have "spent_match b ?st ?db" unfolding spent_match_def
  proof
    fix i
    from match_spent [OF m] show "hm_get (spent_leaf_ids ?st) i = hm_get (tree_spent_leaves ?db) i
        \<or> hm_get (spent_leaf_ids ?st) i = None \<and> (\<exists>t. hm_get (tree_spent_leaves ?db) i = Some t \<and> t < b)"
      by (cases rule: spent_cases [of b st db i]) (auto simp: sp(2) hm_get_retain [OF ok] split: option.split)
  qed
  with m have "stores_match b ?st ?db" by (rule match_with_spent)
  moreover have "row_reservation r = None" if "l \<in> set ls" "hm_get (tree_leaves ?db) (tn_id l) = Some r" for l r
    using reserved_row_ids [OF m inv, of "tn_id l" r] that free by (cases "row_reservation r") (auto simp: disjoint_iff)
  ultimately have "stores_match b (?st\<lparr>st_leaves := insert_leaves now ls (st_leaves ?st)\<rparr>)
      (?db\<lparr>tree_leaves := foldl (upsert_leaf now False) (tree_leaves ?db) ls\<rparr>)"
    by (intro upsert_matches [OF _ d]) auto
  then show ?thesis by (simp add: sp(1) pg_add_connected [OF c False d])
qed

subsection \<open>Finalizing\<close>

lemma hm_get_insert_spent:
  "hm_get (foldl (\<lambda>m i. if hm_contains m i then m else hm_insert i now m) m is) k =
     (if hm_get m k = None \<and> k \<in> set is then Some now else hm_get m k)"
  by (induction "is" arbitrary: m) (auto simp: hm_contains_iff)

lemma finalized_views:
  assumes "pg_inv db" and "hm_get (tree_reservations db) rid \<noteq> None"
  shows "hm_get (tree_leaves (finalized now rid db)) i =
      (case hm_get (tree_leaves db) i of None \<Rightarrow> None | Some r \<Rightarrow> if row_reservation r = Some rid then None else Some r)"
    and "hm_get (tree_reservations (finalized now rid db)) j = (if j = rid then None else hm_get (tree_reservations db) j)"
    and "hm_get (tree_spent_leaves (finalized now rid db)) i =
      (if hm_get (tree_spent_leaves db) i = None \<and> i \<in> set (reserved_leaf_ids rid db) then Some now
       else hm_get (tree_spent_leaves db) i)"
    and "last_completed_at (finalized now rid db) = last_completed_at db"
    and "pg_inv (finalized now rid db)"
proof -
  let ?d = "delete_leaves (\<lambda>r. row_reservation r = Some rid) (batch_insert_spent_leaves now (reserved_leaf_ids rid db) db)"
  have d: "pg_inv ?d" "hm_get (tree_reservations ?d) rid \<noteq> None" using assms by simp_all
  have ok: "hm_ok (tree_leaves db)" using assms(1) by (simp add: pg_inv_def)
  have t: "hm_get (tree_leaves ?d) i =
      (case hm_get (tree_leaves db) i of None \<Rightarrow> None | Some r \<Rightarrow> if row_reservation r = Some rid then None else Some r)" for i
    by (simp add: delete_leaves_def batch_insert_spent_leaves_def hm_get_retain [OF ok] split: option.split)
  show "hm_get (tree_leaves (finalized now rid db)) i =
      (case hm_get (tree_leaves db) i of None \<Rightarrow> None | Some r \<Rightarrow> if row_reservation r = Some rid then None else Some r)"
    unfolding finalized_def by (auto simp: delete_one_reservation(1) [OF d] t split: option.split)
  show "hm_get (tree_reservations (finalized now rid db)) j = (if j = rid then None else hm_get (tree_reservations db) j)"
    unfolding finalized_def by (simp add: delete_one_reservation(2) [OF d])
  show "hm_get (tree_spent_leaves (finalized now rid db)) i =
      (if hm_get (tree_spent_leaves db) i = None \<and> i \<in> set (reserved_leaf_ids rid db) then Some now
       else hm_get (tree_spent_leaves db) i)"
    unfolding finalized_def
    by (simp add: hm_get_insert_spent delete_leaves_def batch_insert_spent_leaves_def)
  show "last_completed_at (finalized now rid db) = last_completed_at db"
    unfolding finalized_def
    by (simp add: delete_leaves_def batch_insert_spent_leaves_def)
  show "pg_inv (finalized now rid db)" unfolding finalized_def using d(1) by simp
qed

lemma pg_finalize_connected:
  assumes "tree_connections db = []" and "hm_get (tree_reservations db) rid = Some row"
    and "nl = None \<or> (\<exists>ls. nl = Some ls \<and> distinct (map tn_id ls))"
  shows "pg_finalize_reservation now rid nl db =
    (let d = finalized now rid db;
         d' = (case nl of None \<Rightarrow> d | Some ls \<Rightarrow> d\<lparr>tree_leaves := foldl (upsert_leaf now False) (tree_leaves d) ls\<rparr>)
     in (notify_balance_change (if rr_purpose row = ''Swap'' \<and> nl \<noteq> None then d'\<lparr>last_completed_at := Some now\<rparr> else d'), Ok ()))"
proof -
  have f: "pg_finalize_reservation now rid nl db =
      (case rbind (case nl of None \<Rightarrow> Ok (finalized now rid db) | Some ls \<Rightarrow> batch_upsert_leaves now ls False None (finalized now rid db))
          (\<lambda>d. Ok (notify_balance_change (if rr_purpose row = ''Swap'' \<and> nl \<noteq> None then d\<lparr>last_completed_at := Some now\<rparr> else d), ())) of
         Err e \<Rightarrow> (db, Err e) | Ok (d, x) \<Rightarrow> (d, Ok x))"
    using assms(1,2) by (simp add: pg_finalize_reservation_def in_transaction_connected Let_def)
  show ?thesis
  proof (cases nl)
    case None
    then show ?thesis unfolding f by (simp add: Let_def)
  next
    case (Some ls)
    with assms(3) show ?thesis unfolding f by (simp add: batch_upsert_leaves_def Let_def)
  qed
qed

lemma finalize_matches:
  assumes m: "stores_match b st db" and inv: "store_inv st" "pg_inv db" and c: "tree_connections db = []"
    and e: "hm_get (leaves_reservations st) rid = Some e"
    and unmarked: "\<And>s. s \<in> set (re_leaves e) \<Longrightarrow> hm_get (tree_spent_leaves db) (stored_id s) = None"
    and nl: "nl = None \<or> (\<exists>ls. nl = Some ls \<and> distinct (map tn_id ls)
      \<and> ids_of ls \<inter> set (reserved_ids (leaves_reservations st)) = {})"
  shows "stores_match b (process_finalize_reservation now now st rid nl) (fst (pg_finalize_reservation now rid nl db))
    \<and> snd (pg_finalize_reservation now rid nl db) = Ok ()"
proof -
  obtain row where row: "hm_get (tree_reservations db) rid = Some row" "rr_purpose row = purpose_to_string (re_purpose e)"
    and se: "set (re_leaves e) = reserved_of db rid"
    using match_entry [OF m, of rid] e by (auto simp: entry_match_def)
  let ?d = "finalized now rid db"
  note v = finalized_views [OF inv(2), of rid now]
  have v: "hm_get (tree_leaves ?d) i =
      (case hm_get (tree_leaves db) i of None \<Rightarrow> None | Some r \<Rightarrow> if row_reservation r = Some rid then None else Some r)"
    "hm_get (tree_reservations ?d) j = (if j = rid then None else hm_get (tree_reservations db) j)"
    "hm_get (tree_spent_leaves ?d) i = (if hm_get (tree_spent_leaves db) i = None \<and> i \<in> set (reserved_leaf_ids rid db) then Some now
       else hm_get (tree_spent_leaves db) i)" for i j using v row(1) by simp_all
  let ?sp = "hm_insert_all stored_id (\<lambda>_. now) (re_leaves e) (spent_leaf_ids st)"
  let ?st = "st\<lparr>leaves_reservations := hm_remove rid (leaves_reservations st), spent_leaf_ids := ?sp\<rparr>"
  have ids: "set (reserved_leaf_ids rid db) = stored_id ` set (re_leaves e)"
    unfolding reserved_leaf_ids_set [OF inv(2)] se using stored_row_id [OF inv(2)] by (force simp: reserved_of_def)
  have "pool_of ?d = pool_of db" by (auto simp: fun_eq_iff pool_of_def v split: option.split)
  moreover have "reserved_of ?d j = reserved_of db j" if "j \<noteq> rid" for j
    using that by (auto simp: reserved_of_def v split: option.splits if_splits)
  then have "entry_match ?d j (hm_get (leaves_reservations ?st) j)" for j
    using match_entry [OF m, of j] entry_match_cong [of ?d j db] by (cases "j = rid") (simp_all add: v entry_match_def [of _ _ None])
  moreover have "spent_match b ?st ?d" unfolding spent_match_def
  proof
    fix i
    show "hm_get (spent_leaf_ids ?st) i = hm_get (tree_spent_leaves ?d) i
        \<or> hm_get (spent_leaf_ids ?st) i = None \<and> (\<exists>t. hm_get (tree_spent_leaves ?d) i = Some t \<and> t < b)"
    proof (cases "i \<in> stored_id ` set (re_leaves e)")
      case True
      then have "hm_get (tree_spent_leaves db) i = None" using unmarked by auto
      with True hm_get_insert_all_in [OF True, of "\<lambda>_. now" "spent_leaf_ids st"] show ?thesis by (auto simp: v ids)
    next
      case False
      with match_spent [OF m] show ?thesis
        by (cases rule: spent_cases [of b st db i]) (auto simp: v ids hm_get_insert_all_notin)
    qed
  qed
  moreover have "\<not> row_missing r" if "hm_get (tree_leaves ?d) i = Some r" "row_reservation r \<noteq> None" for i r
    using m that by (auto simp: v stores_match_def split: option.splits if_splits)
  ultimately have st: "stores_match b ?st ?d"
    using m finalized_views(4) [OF inv(2), of rid now] row(1) by (auto simp: stores_match_def)
  have swap: "rr_purpose row = ''Swap'' \<longleftrightarrow> re_purpose e = Swap" unfolding row(2) by (cases "re_purpose e") simp_all
  show ?thesis
  proof (cases nl)
    case None
    with st e show ?thesis
      by (simp add: pg_finalize_connected [OF c row(1)] process_finalize_reservation_def Let_def)
  next
    case (Some ls)
    with nl have ls: "distinct (map tn_id ls)" "ids_of ls \<inter> set (reserved_ids (leaves_reservations st)) = {}" by simp_all
    have "stores_match b (?st\<lparr>st_leaves := insert_leaves now ls (st_leaves ?st)\<rparr>)
        (?d\<lparr>tree_leaves := foldl (upsert_leaf now False) (tree_leaves ?d) ls\<rparr>)"
    proof (rule upsert_matches [OF st ls(1)])
      fix l r assume "l \<in> set ls" "hm_get (tree_leaves ?d) (tn_id l) = Some r"
      with reserved_row_ids [OF m inv, of "tn_id l" r] ls(2) show "row_reservation r = None"
        by (cases "row_reservation r") (auto simp: v disjoint_iff split: option.splits if_splits)
    qed
    moreover have "process_finalize_reservation now now st rid nl =
        (let s = ?st\<lparr>st_leaves := insert_leaves now ls (st_leaves ?st)\<rparr>
         in if re_purpose e = Swap then s\<lparr>last_swap_completed_at := Some now\<rparr> else s)"
      using e Some by (cases st) (simp add: process_finalize_reservation_def Let_def)
    ultimately show ?thesis
      using match_swap [of b _ _ "Some now"] Some swap
      by (simp add: pg_finalize_connected [OF c row(1)] ls(1) Let_def)
  qed
qed

subsection \<open>Reserving\<close>

lemma sum_hm_values:
  fixes f :: "'a \<Rightarrow> 'c :: comm_monoid_add"
  assumes "hm_ok m"
  shows "sum_list (map f (hm_values m)) = (\<Sum>k \<in> set (hm_keys m). f (the (hm_get m k)))"
proof -
  have "map f (hm_values m) = map (\<lambda>k. f (the (hm_get m k))) (hm_keys m)"
    using assms by (auto simp: hm_values_def hm_keys_def hm_in_set split: prod.splits)
  moreover have "distinct (hm_keys m)" using assms by (simp add: hm_keys_def hm_ok_def)
  ultimately show ?thesis by (simp add: sum_list_distinct_conv_sum_set)
qed

lemma pending_matches:
  assumes m: "stores_match b st db" and inv: "store_inv st" "pg_inv db"
    and small: "sum_list (map pending_change_amount (hm_values (leaves_reservations st))) < 2 ^ 63"
  shows "calculate_pending_balance db = Ok (pending_balance st)"
proof -
  let ?P = "\<lambda>k. the (hm_get (leaves_reservations st) k)"
  have ok: "hm_ok (leaves_reservations st)" "hm_ok (tree_reservations db)" using inv by (simp_all add: store_inv_def pg_inv_def)
  have get: "k \<in> set (hm_keys (leaves_reservations st)) \<longleftrightarrow> k \<in> set (hm_keys (tree_reservations db))" for k
    using match_entry [OF m, of k] by (auto simp: entry_match_def hm_keys_get split: option.splits)
  have le: "pending_change_amount (?P k) < 2 ^ 63" if "k \<in> set (hm_keys (leaves_reservations st))" for k
  proof -
    have "pending_change_amount (?P k) \<le> (\<Sum>k \<in> set (hm_keys (leaves_reservations st)). pending_change_amount (?P k))"
      using that by (intro member_le_sum) simp_all
    with small show ?thesis by (simp add: sum_hm_values [OF ok(1)])
  qed
  have "rr_pending_change (the (hm_get (tree_reservations db) k)) = int (pending_change_amount (?P k))"
    if "k \<in> set (hm_keys (leaves_reservations st))" for k
    using match_entry [OF m, of k] le [OF that] that
    by (auto simp: entry_match_def hm_keys_get as_i64_def split: option.splits)
  then have "(\<Sum>k \<in> set (hm_keys (leaves_reservations st)). rr_pending_change (the (hm_get (tree_reservations db) k)))
      = int (\<Sum>k \<in> set (hm_keys (leaves_reservations st)). pending_change_amount (?P k))"
    unfolding of_nat_sum by (rule sum.cong [OF refl])
  moreover have "set (hm_keys (leaves_reservations st)) = set (hm_keys (tree_reservations db))" using get by blast
  ultimately have "sum_list (map rr_pending_change (hm_values (tree_reservations db)))
      = int (sum_list (map pending_change_amount (hm_values (leaves_reservations st))))"
    by (simp only: sum_hm_values [OF ok(1)] sum_hm_values [OF ok(2)])
  with small show ?thesis by (simp add: calculate_pending_balance_def Let_def pending_balance_def)
qed

lemma create_matches:
  assumes m: "stores_match b st db" and inv: "store_inv st" "pg_inv db"
    and new: "rid \<notin> set (hm_keys (leaves_reservations st))" and r: "reserved_as rid sel p c st st'"
  shows "\<exists>db'. create_reservation now rid sel p c db = Ok db' \<and> stores_match b st' db'"
proof -
  let ?row = "\<lparr>rr_purpose = purpose_to_string p, rr_pending_change = as_i64 c, rr_created_at = now\<rparr>"
  let ?db = "batch_set_reservation_id rid (map tn_id sel) (db\<lparr>tree_reservations := hm_insert rid ?row (tree_reservations db)\<rparr>)"
  from new match_entry [OF m, of rid] have fresh: "hm_get (tree_reservations db) rid = None"
    by (simp add: entry_match_def flip: hm_get_None_iff)
  have none: "row_reservation q \<noteq> Some rid" if "hm_get (tree_leaves db) i = Some q" for i q
    using inv_row [OF inv(2) that] fresh by (auto simp: row_ok_def)
  from r obtain ss pool' where ss: "taken sel (st_leaves st) ss pool'"
    and st': "st' = st\<lparr>st_leaves := pool', leaves_reservations := hm_insert rid \<lparr>re_leaves = ss, re_purpose = p,
                      pending_change_amount = c\<rparr> (leaves_reservations st)\<rparr>" by (auto simp: reserved_as_def)
  have pool: "hm_get (st_leaves st) = pool_of db" using m by (simp add: stores_match_def)
  have row: "hm_get (tree_leaves ?db) i =
      map_option (\<lambda>q. if i \<in> ids_of sel then q\<lparr>row_reservation := Some rid\<rparr> else q) (hm_get (tree_leaves db) i)" for i
    by (simp add: batch_set_reservation_id_def)
  have free: "\<exists>q. hm_get (tree_leaves db) i = Some q \<and> row_reservation q = None \<and> \<not> row_missing q \<and> stored_row q \<in> set ss"
    if "i \<in> ids_of sel" for i
  proof -
    from that ss obtain s where s: "s \<in> set ss" "stored_id s = i" by (auto simp: taken_def)
    with ss pool have "pool_of db i = Some s" by (auto simp: taken_def)
    with s show ?thesis by (auto simp: pool_of_def split: option.splits if_splits)
  qed
  have "hm_get pool' = pool_of ?db"
  proof
    fix k
    show "hm_get pool' k = pool_of ?db k"
      using ss free [of k] by (cases "k \<in> ids_of sel") (auto simp: taken_def pool pool_of_def row stored_row_def split: option.split)
  qed
  moreover have "set ss = reserved_of ?db rid"
  proof (intro set_eqI iffI)
    fix s assume s: "s \<in> set ss"
    with ss have "stored_id s \<in> ids_of sel" "pool_of db (stored_id s) = Some s" by (auto simp: taken_def pool)
    then show "s \<in> reserved_of ?db rid"
      by (auto simp: reserved_of_def row pool_of_def stored_row_def split: option.splits if_splits intro!: exI [of _ "stored_id s"])
  next
    fix s assume "s \<in> reserved_of ?db rid"
    then obtain i q where q: "hm_get (tree_leaves ?db) i = Some q" "row_reservation q = Some rid" "s = stored_row q"
      by (auto simp: reserved_of_def)
    with none free [of i] show "s \<in> set ss" by (auto simp: row stored_row_def split: if_splits)
  qed
  moreover have "reserved_of ?db j = reserved_of db j" if "j \<noteq> rid" for j
  proof -
    have "hm_get (tree_leaves ?db) i = Some q \<and> row_reservation q = Some j \<longleftrightarrow>
        hm_get (tree_leaves db) i = Some q \<and> row_reservation q = Some j" for i q
      using that free [of i] by (auto simp: row)
    then show ?thesis by (simp only: reserved_of_def conj_assoc [symmetric])
  qed
  ultimately have "entry_match ?db j (hm_get (leaves_reservations st') j)" for j
    using match_entry [OF m, of j] entry_match_cong [of ?db j db]
    by (cases "j = rid") (simp_all add: st' entry_match_def [of _ rid])
  moreover have "\<not> row_missing q" if "hm_get (tree_leaves ?db) i = Some q" "row_reservation q \<noteq> None" for i q
    using m that free [of i] by (auto simp: row stores_match_def split: if_splits)
  moreover have "tree_spent_leaves ?db = tree_spent_leaves db" "last_completed_at ?db = last_completed_at db"
    by (simp_all add: batch_set_reservation_id_def)
  ultimately have "stores_match b st' ?db" using m \<open>hm_get pool' = pool_of ?db\<close>
    unfolding stores_match_def spent_match_def by (auto simp: st')
  with fresh show ?thesis by (simp add: create_reservation_def hm_contains_iff)
qed

lemma minimum_amount_nonempty:
  assumes "select_leaves_by_minimum_amount leaves t = Ok (Some sel)"
  shows "sel \<noteq> []"
proof (cases leaves)
  case Nil
  with assms show ?thesis by (auto simp: select_leaves_by_minimum_amount_def split: if_splits)
next
  case (Cons l ls)
  have "snd (minimum_loop leaves t 0 []) \<noteq> []"
    using minimum_loop_prefix_of [of ls t "wadd 64 0 (tn_value l)" "[l]"] by (auto simp: Cons Let_def)
  with assms show ?thesis by (auto simp: select_leaves_by_minimum_amount_def split: if_splits prod.splits)
qed

lemma reserve_matches:
  assumes m: "stores_match b st db" and inv: "store_inv st" "pg_inv db" and c: "tree_connections db = []"
    and new: "rid \<notin> set (hm_keys (leaves_reservations st))" and av: "pg_available db = available_nodes st"
    and small: "sum_list (map pending_change_amount (hm_values (leaves_reservations st))) < 2 ^ 63"
  shows "stores_match b (fst (process_try_reserve_leaves rid st ta exact p)) (fst (pg_try_reserve_leaves now rid ta exact p db))
    \<and> snd (pg_try_reserve_leaves now rid ta exact p db) = snd (process_try_reserve_leaves rid st ta exact p)"
proof -
  note pend = pending_matches [OF m inv small]
  have both: "\<exists>st' db'. reserve_internal rid st sel p ch = Ok (st', rid) \<and> create_reservation now rid sel p ch db = Ok db'
      \<and> stores_match b st' db'" if "mset sel \<subseteq># mset (available_nodes st)" "sel \<noteq> []" for sel ch
    using reserve_internal_cases [OF inv(1) that(1), of rid p ch] that(2) create_matches [OF m inv new] by fastforce
  show ?thesis
  proof (cases "select_leaves_by_target_amounts (available_nodes st) ta")
    case (Inr t)
    note sub = selected_submset [OF Inr available_nodes_props(1) [OF inv(1)]]
    show ?thesis
    proof (cases "selected_leaves t = []")
      case True
      with Inr m show ?thesis
        by (simp add: process_try_reserve_leaves_def pg_try_reserve_leaves_def in_transaction_connected [OF c] av pend
            reserve_internal_def Let_def)
    next
      case False
      from both [OF sub False, of 0] obtain st' db' where "reserve_internal rid st (selected_leaves t) p 0 = Ok (st', rid)"
        "create_reservation now rid (selected_leaves t) p 0 db = Ok db'" "stores_match b st' db'" by blast
      with Inr False show ?thesis
        by (simp add: process_try_reserve_leaves_def pg_try_reserve_leaves_def in_transaction_connected [OF c] av pend Let_def)
    qed
  next
    case (Inl e)
    let ?t = "case ta of None \<Rightarrow> 0 | Some ta \<Rightarrow> total_sats ta"
    show ?thesis
    proof (cases "\<not> exact \<and> (\<exists>sel. select_leaves_by_minimum_amount (available_nodes st) ?t = Ok (Some sel))")
      case True
      then obtain sel where sel: "select_leaves_by_minimum_amount (available_nodes st) ?t = Ok (Some sel)" by blast
      from both [OF minimum_amount_submset [OF sel] minimum_amount_nonempty [OF sel], of "pending_change (leaves_sum sel) ?t"]
      obtain st' db' where "reserve_internal rid st sel p (pending_change (leaves_sum sel) ?t) = Ok (st', rid)"
        "create_reservation now rid sel p (pending_change (leaves_sum sel) ?t) db = Ok db'" "stores_match b st' db'" by blast
      with Inl True sel show ?thesis
        by (simp add: process_try_reserve_leaves_def pg_try_reserve_leaves_def in_transaction_connected [OF c] av pend Let_def)
    next
      case False
      have "process_try_reserve_leaves rid st ta exact p =
          (st, Ok (wait_or_insufficient ?t (available_balance st) (pending_balance st)))"
        using Inl False by (auto simp: process_try_reserve_leaves_def Let_def split: sum.split option.split)
      moreover have "pg_try_reserve_leaves now rid ta exact p db =
          (db, Ok (wait_or_insufficient ?t (available_balance st) (pending_balance st)))"
        using Inl False by (auto simp: pg_try_reserve_leaves_def in_transaction_connected [OF c] av pend available_balance_def
            Let_def split: sum.split option.split)
      ultimately show ?thesis using m by simp
    qed
  qed
qed

subsection \<open>Refreshing\<close>

text \<open>The leaves of a list that are not marked as spent since the refresh began.\<close>

definition unspent_since :: "system_time \<Rightarrow> TreeDb \<Rightarrow> TreeNode list \<Rightarrow> TreeNode list" where
  "unspent_since started db ls =
     filter (\<lambda>l. \<not> (\<exists>t. hm_get (tree_spent_leaves db) (tn_id l) = Some t \<and> started \<le> t)) ls"

definition stale :: "system_time \<Rightarrow> LeavesReservationId \<Rightarrow> ReservationRow \<Rightarrow> bool" where
  "stale now rid r \<longleftrightarrow> rr_created_at r + RESERVATION_TIMEOUT < now"

definition pg_swap_blocks :: "system_time \<Rightarrow> TreeDb \<Rightarrow> bool" where
  "pg_swap_blocks started db \<longleftrightarrow>
     (\<exists>rid r. hm_get (tree_reservations db) rid = Some r \<and> rr_purpose r = ''Swap'')
     \<or> (\<exists>t. last_completed_at db = Some t \<and> started \<le> t)"

text \<open>What is left of a row when the new leaves are written.\<close>

definition kept_row :: "system_time \<Rightarrow> system_time \<Rightarrow> TreeDb \<Rightarrow> TreeNodeId \<Rightarrow> LeafRow option" where
  "kept_row now started db i =
     (case hm_get (tree_leaves db) i of
        None \<Rightarrow> None
      | Some r \<Rightarrow> if row_reservation r = None \<and> row_added_at r < started then None
                  else Some (freed_row (stale now) (tree_reservations db) r))"

definition written_row :: "system_time \<Rightarrow> bool \<Rightarrow> LeafRow option \<Rightarrow> TreeNode \<Rightarrow> LeafRow" where
  "written_row now missing old l =
     \<lparr>row_status = status_to_string (tn_status l), row_missing = missing,
      row_reservation = (case old of None \<Rightarrow> None | Some r \<Rightarrow> row_reservation r), row_data = l, row_added_at = now\<rparr>"

lemma find_unspent:
  "distinct (map tn_id ls) \<Longrightarrow> (\<And>i. i \<in> skip \<longleftrightarrow> (\<exists>t. hm_get (tree_spent_leaves db) i = Some t \<and> started \<le> t)) \<Longrightarrow>
     filter (\<lambda>l. tn_id l \<notin> skip) ls = unspent_since started db ls"
  by (simp add: unspent_since_def)

lemma distinct_unspent: "distinct (map tn_id ls) \<Longrightarrow> distinct (map tn_id (unspent_since started db ls))"
  unfolding unspent_since_def by (rule distinct_map_filter)

lemma pg_set_skipped:
  assumes "pg_inv db" and "pg_swap_blocks started db" and "tree_connections db = []"
  shows "pg_set_leaves now ls ms started db = (db, Ok ())"
proof -
  have "hm_ok (tree_reservations db)" using assms(1) by (simp add: pg_inv_def)
  note val = hm_values_iff [OF this]
  have "list_ex (\<lambda>r. rr_purpose r = ''Swap'') (hm_values (tree_reservations db))
      \<or> (case last_completed_at db of None \<Rightarrow> False | Some t \<Rightarrow> started \<le> t)"
    using assms(2) unfolding pg_swap_blocks_def list_ex_iff by (auto simp: val Bex_def)
  with assms(3) show ?thesis by (auto simp: pg_set_leaves_def in_transaction_connected Let_def)
qed

lemma pg_set_applied:
  assumes inv: "pg_inv db" and c: "tree_connections db = []" and nb: "\<not> pg_swap_blocks started db"
    and d: "distinct (map tn_id ls)" "distinct (map tn_id ms)"
  shows "\<exists>db'. pg_set_leaves now ls ms started db = (db', Ok ())
    \<and> (\<forall>i. hm_get (tree_leaves db') i =
         (case find (\<lambda>l. tn_id l = i) (unspent_since started db ms) of
            Some l \<Rightarrow> Some (written_row now True (kept_row now started db i) l)
          | None \<Rightarrow>
              (case find (\<lambda>l. tn_id l = i) (unspent_since started db ls) of
                 Some l \<Rightarrow> Some (written_row now False (kept_row now started db i) l)
               | None \<Rightarrow> kept_row now started db i)))
    \<and> tree_reservations db' = hm_retain (\<lambda>i r. \<not> stale now i r) (tree_reservations db)
    \<and> tree_spent_leaves db' = hm_retain (\<lambda>_ t. \<not> t < started - SPENT_MARKER_CLEANUP_THRESHOLD) (tree_spent_leaves db)"
proof -
  have ok: "hm_ok (tree_reservations db)" "hm_ok (tree_leaves db)" "hm_ok (tree_spent_leaves db)" using inv by (simp_all add: pg_inv_def)
  let ?d1 = "cleanup_spent_markers started db"
  let ?skip = "set (hm_keys (hm_retain (\<lambda>_ t. started \<le> t) (tree_spent_leaves ?d1)))"
  let ?d3 = "cleanup_stale_reservations now (delete_leaves (\<lambda>r. row_reservation r = None \<and> row_added_at r < started) ?d1)"
  let ?us = "unspent_since started db"
  let ?d4 = "?d3\<lparr>tree_leaves := foldl (upsert_leaf now False) (tree_leaves ?d3) (?us ls)\<rparr>"
  let ?d5 = "?d4\<lparr>tree_leaves := foldl (upsert_leaf now True) (tree_leaves ?d4) (?us ms)\<rparr>"
  have skip: "i \<in> ?skip \<longleftrightarrow> (\<exists>t. hm_get (tree_spent_leaves db) i = Some t \<and> started \<le> t)" for i
    by (auto simp: hm_keys_get hm_get_retain cleanup_spent_markers_def ok(3) split: option.splits if_splits)
  have f: "filter (\<lambda>l. tn_id l \<notin> ?skip) ks = ?us ks" for ks by (simp only: unspent_since_def skip)
  have "\<not> list_ex (\<lambda>r. rr_purpose r = ''Swap'') (hm_values (tree_reservations db))"
    "\<not> (case last_completed_at db of None \<Rightarrow> False | Some t \<Rightarrow> started \<le> t)"
    using nb by (auto simp: pg_swap_blocks_def list_ex_iff hm_values_iff [OF ok(1)] split: option.split)
  then have run: "pg_set_leaves now ls ms started db = (notify_balance_change ?d5, Ok ())"
    using d distinct_unspent by (simp add: pg_set_leaves_def in_transaction_connected [OF c] batch_upsert_leaves_def Let_def f)
  have d3: "hm_get (tree_leaves ?d3) i = kept_row now started db i" for i
    by (auto simp: cleanup_stale_reservations_def delete_reservations_def delete_leaves_def cleanup_spent_markers_def
        hm_get_retain [OF ok(2)] kept_row_def stale_def [abs_def] split: option.split)
  have d4: "hm_get (tree_leaves ?d4) i = (case find (\<lambda>l. tn_id l = i) (?us ls) of
      Some l \<Rightarrow> Some (written_row now False (kept_row now started db i) l) | None \<Rightarrow> kept_row now started db i)" for i
    using hm_get_upsert_leaves [OF distinct_unspent [OF d(1)], of now False "tree_leaves ?d3" started db i]
    by (auto simp: d3 upserted_row_def written_row_def split: option.split dest!: find_Some_mem)
  have "hm_get (tree_leaves ?d5) i = (case find (\<lambda>l. tn_id l = i) (?us ms) of
      Some l \<Rightarrow> Some (upserted_row now True (tree_leaves ?d4) l) | None \<Rightarrow> hm_get (tree_leaves ?d4) i)" for i
    using hm_get_upsert_leaves [OF distinct_unspent [OF d(2)], of now True "tree_leaves ?d4" started db i] by simp
  moreover have "upserted_row now True (tree_leaves ?d4) l = written_row now True (kept_row now started db (tn_id l)) l" for l
    unfolding upserted_row_def d4 by (simp add: written_row_def split: option.split)
  ultimately have "hm_get (tree_leaves ?d5) i = (case find (\<lambda>l. tn_id l = i) (?us ms) of
      Some l \<Rightarrow> Some (written_row now True (kept_row now started db i) l)
    | None \<Rightarrow> (case find (\<lambda>l. tn_id l = i) (?us ls) of
        Some l \<Rightarrow> Some (written_row now False (kept_row now started db i) l) | None \<Rightarrow> kept_row now started db i))" for i
    unfolding d4 by (auto split: option.split dest!: find_Some_mem)
  with run show ?thesis
    by (auto simp: cleanup_stale_reservations_def delete_reservations_def delete_leaves_def cleanup_spent_markers_def stale_def [abs_def])
qed

lemma reserved_ids_rows:
  assumes m: "stores_match b st db" and inv: "store_inv st" "pg_inv db"
  shows "k \<in> set (reserved_ids (leaves_reservations st)) \<longleftrightarrow> (\<exists>r. hm_get (tree_leaves db) k = Some r \<and> row_reservation r \<noteq> None)"
proof
  have ok: "hm_ok (leaves_reservations st)" using inv(1) by (simp add: store_inv_def)
  assume "k \<in> set (reserved_ids (leaves_reservations st))"
  then obtain rid e s where "hm_get (leaves_reservations st) rid = Some e" "s \<in> set (re_leaves e)" "stored_id s = k"
    by (auto simp: reserved_ids_def hm_values_iff [OF ok])
  then show "\<exists>r. hm_get (tree_leaves db) k = Some r \<and> row_reservation r \<noteq> None"
    using match_entry [OF m, of rid] by (auto simp: entry_match_def reserved_of_iff [OF inv(2)])
qed (use reserved_row_ids [OF m inv] in blast)

lemma swap_blocks_match:
  assumes m: "stores_match b st db" and inv: "store_inv st"
  shows "pg_swap_blocks started db \<longleftrightarrow> has_active_swap st \<or> swap_completed_during_refresh st started"
proof -
  have "purpose_to_string p = ''Swap'' \<longleftrightarrow> p = Swap" for p by (cases p) simp_all
  then have "(\<exists>r. hm_get (tree_reservations db) rid = Some r \<and> rr_purpose r = ''Swap'') \<longleftrightarrow>
      (\<exists>e. hm_get (leaves_reservations st) rid = Some e \<and> re_purpose e = Swap)" for rid
    using match_entry [OF m, of rid] by (auto simp: entry_match_def split: option.splits)
  moreover have "has_active_swap st \<longleftrightarrow> (\<exists>rid e. hm_get (leaves_reservations st) rid = Some e \<and> re_purpose e = Swap)"
    using inv by (auto simp: has_active_swap_def list_ex_iff hm_values_iff store_inv_def Bex_def)
  moreover have "swap_completed_during_refresh st started \<longleftrightarrow> (\<exists>t. last_completed_at db = Some t \<and> started \<le> t)"
    using m by (auto simp: swap_completed_during_refresh_def stores_match_def split: option.split)
  ultimately show ?thesis by (auto simp: pg_swap_blocks_def)
qed

lemma unspent_match:
  assumes m: "stores_match b st db" and inv: "store_inv st" and "b \<le> started"
  shows "filter (\<lambda>l. \<not> hm_contains (hm_retain (\<lambda>_ at. started \<le> at) (spent_leaf_ids st)) (tn_id l)) ls = unspent_since started db ls"
proof -
  have ok: "hm_ok (spent_leaf_ids st)" using inv by (simp add: store_inv_def)
  have "hm_contains (hm_retain (\<lambda>_ at. started \<le> at) (spent_leaf_ids st)) i \<longleftrightarrow>
      (\<exists>t. hm_get (tree_spent_leaves db) i = Some t \<and> started \<le> t)" for i
    using match_spent [OF m]
  proof (cases rule: spent_cases [of b st db i])
    case 1
    then show ?thesis by (auto simp: hm_contains_iff hm_get_retain [OF ok] split: option.split)
  next
    case (2 t)
    with assms(3) show ?thesis by (auto simp: hm_contains_iff hm_get_retain [OF ok])
  qed
  then show ?thesis by (simp add: unspent_since_def)
qed

text \<open>Without reservations that timed out, both stores have the same pool after a refresh.\<close>

lemma refresh_matches:
  assumes m: "stores_match b st db" and inv: "store_inv st" "pg_inv db" and c: "tree_connections db = []" and b: "b \<le> started"
    and d: "distinct (map tn_id ls)" "distinct (map tn_id ms)" "ids_of ls \<inter> ids_of ms = {}"
    and ns: "\<And>rid r. hm_get (tree_reservations db) rid = Some r \<Longrightarrow> \<not> stale now rid r"
  shows "hm_get (st_leaves (process_set_leaves now st ls ms started)) = pool_of (fst (pg_set_leaves now ls ms started db))"
proof (cases "pg_swap_blocks started db")
  case True
  with m inv c swap_blocks_match [OF m inv(1)] show ?thesis
    by (simp add: set_leaves_skip pg_set_skipped stores_match_def)
next
  case False
  let ?us = "unspent_since started db"
  from set_leaves_applied [OF inv(1)] False swap_blocks_match [OF m inv(1)]
  have mem: "hm_get (st_leaves (process_set_leaves now st ls ms started)) =
      (\<lambda>k. if k \<in> set (reserved_ids (leaves_reservations st)) then None else refreshed_pool now st ls ms started k)"
    by (simp add: set_leaves_result_def)
  from pg_set_applied [OF inv(2) c False d(1,2)] obtain db' where
    run: "pg_set_leaves now ls ms started db = (db', Ok ())"
    and rows: "\<And>i. hm_get (tree_leaves db') i = (case find (\<lambda>l. tn_id l = i) (?us ms) of
            Some l \<Rightarrow> Some (written_row now True (kept_row now started db i) l)
          | None \<Rightarrow> (case find (\<lambda>l. tn_id l = i) (?us ls) of
                 Some l \<Rightarrow> Some (written_row now False (kept_row now started db i) l)
               | None \<Rightarrow> kept_row now started db i))" by blast
  have fr: "freed_row (stale now) (tree_reservations db) r = r" for r
    using ns by (auto simp: freed_row_def split: option.split)
  have ids: "find (\<lambda>l. tn_id l = i) ks = None \<longleftrightarrow> i \<notin> ids_of ks" for i ks by (auto simp: find_None_iff image_iff)
  have dis: "\<not> (i \<in> ids_of (?us ls) \<and> i \<in> ids_of (?us ms))" for i using d(3) by (auto simp: unspent_since_def)
  have "hm_get (st_leaves (process_set_leaves now st ls ms started)) k = pool_of db' k" for k
  proof (cases "k \<in> set (reserved_ids (leaves_reservations st))")
    case True
    then obtain r where "kept_row now started db k = Some r" "row_reservation r \<noteq> None"
      using reserved_ids_rows [OF m inv] by (auto simp: kept_row_def fr)
    with True show ?thesis by (auto simp: mem pool_of_def rows written_row_def split: option.split)
  next
    case False
    then have free: "row_reservation r = None" if "hm_get (tree_leaves db) k = Some r" for r
      using reserved_ids_rows [OF m inv, of k] that by (cases "row_reservation r") auto
    have pool: "hm_get (st_leaves st) k = pool_of db k" using m by (simp add: stores_match_def)
    have kept: "kept_row now started db k = (case hm_get (tree_leaves db) k of None \<Rightarrow> None
        | Some r \<Rightarrow> if row_added_at r < started then None else Some r)"
      using free by (auto simp: kept_row_def fr split: option.split)
    have "refreshed_pool now st ls ms started k =
        (case find (\<lambda>l. tn_id l = k) (?us ls) of
           Some l \<Rightarrow> Some \<lparr>sl_node = l, added_at = now\<rparr>
         | None \<Rightarrow> if k \<in> ids_of (?us ms) then None
                  else (case pool_of db k of None \<Rightarrow> None | Some s \<Rightarrow> if started \<le> added_at s then Some s else None))"
      unfolding refreshed_pool_def Let_def unspent_match [OF m inv(1) b] hm_get_insert_leaves [OF distinct_unspent [OF d(1)]] pool
      by (simp split: option.split)
    moreover have "pool_of db' k =
        (case find (\<lambda>l. tn_id l = k) (?us ms) of
           Some l \<Rightarrow> None
         | None \<Rightarrow> (case find (\<lambda>l. tn_id l = k) (?us ls) of
             Some l \<Rightarrow> Some \<lparr>sl_node = l, added_at = now\<rparr>
           | None \<Rightarrow> (case pool_of db k of None \<Rightarrow> None | Some s \<Rightarrow> if started \<le> added_at s then Some s else None)))"
      unfolding pool_of_def rows kept using free
      by (auto simp: written_row_def stored_row_def split: option.split)
    ultimately show ?thesis using False dis [of k] ids [of k "?us ls"] ids [of k "?us ms"]
      by (auto simp: mem split: option.splits)
  qed
  then show ?thesis by (simp add: run fun_eq_iff)
qed

section \<open>The scope of a reservation\<close>

text \<open>As long as no transaction fails, the store provides what the finalize-or-cancel scope needs.\<close>

definition pg_reserved_in :: "TreeDb \<Rightarrow> LeavesReservationId \<Rightarrow> TreeNodeId list option" where
  "pg_reserved_in db rid = (if hm_contains (tree_reservations db) rid then Some (reserved_leaf_ids rid db) else None)"

definition pg_pooled_in :: "TreeDb \<Rightarrow> TreeNodeId \<Rightarrow> bool" where
  "pg_pooled_in db i = (case hm_get (tree_leaves db) i of None \<Rightarrow> False | Some r \<Rightarrow> row_reservation r = None)"

definition pg_connected :: "TreeDb \<Rightarrow> bool" where
  "pg_connected db \<longleftrightarrow> pg_inv db \<and> tree_connections db = []"

lemma reserved_leaf_ids_cong:
  "map (\<lambda>(i, r). (i, row_reservation r = Some rid)) t = map (\<lambda>(i, r). (i, row_reservation r = Some rid)) t' \<Longrightarrow>
     map fst (filter (\<lambda>(i, r). row_reservation r = Some rid) t) = map fst (filter (\<lambda>(i, r). row_reservation r = Some rid) t')"
  by (induction t t' rule: list_induct2') auto

lemma reserved_leaf_ids_delete:
  assumes "pg_inv db" and "hm_get (tree_reservations db) rid \<noteq> None" and "j \<noteq> rid"
  shows "reserved_leaf_ids j (delete_reservations (\<lambda>i _. i = rid) db) = reserved_leaf_ids j db"
proof -
  have "row_reservation (freed_row (\<lambda>i _. i = rid) (tree_reservations db) r) = Some j \<longleftrightarrow> row_reservation r = Some j" for r
    using assms(2,3) by (auto simp: freed_row_reservation split: option.splits if_splits)
  then show ?thesis unfolding reserved_leaf_ids_def
    by (intro reserved_leaf_ids_cong) (simp add: delete_reservations_def update_rows_def case_prod_beta comp_def)
qed

lemma reserved_leaf_ids_finalized:
  assumes "pg_inv db" and "hm_get (tree_reservations db) rid \<noteq> None" and "j \<noteq> rid"
  shows "reserved_leaf_ids j (finalized now rid db) = reserved_leaf_ids j db"
proof -
  let ?d = "delete_leaves (\<lambda>r. row_reservation r = Some rid) (batch_insert_spent_leaves now (reserved_leaf_ids rid db) db)"
  have "reserved_leaf_ids j ?d = reserved_leaf_ids j db"
    unfolding reserved_leaf_ids_def delete_leaves_def batch_insert_spent_leaves_def hm_retain_def
    using assms(3) by (auto simp: filter_filter case_prod_beta intro!: arg_cong [of _ _ "map fst"] filter_cong)
  then show ?thesis unfolding finalized_def using reserved_leaf_ids_delete [of ?d rid j] assms by simp
qed

lemma pg_finalize_none:
  assumes "tree_connections db = []"
  shows "fst (pg_finalize_reservation now rid None db) =
    (if hm_get (tree_reservations db) rid = None then db else notify_balance_change (finalized now rid db))"
proof (cases "hm_get (tree_reservations db) rid")
  case None
  with assms show ?thesis by (simp add: pg_finalize_reservation_def in_transaction_connected)
next
  case (Some row)
  with assms show ?thesis by (simp add: pg_finalize_connected Let_def)
qed

lemma scope_connections [simp]:
  "tree_connections (finalized now rid db) = tree_connections db"
  "tree_connections (delete_reservations gone db) = tree_connections db"
  by (simp_all add: finalized_def delete_reservations_def delete_leaves_def batch_insert_spent_leaves_def)

lemma reserved_leaf_ids_notify [simp]: "reserved_leaf_ids rid (notify_balance_change db) = reserved_leaf_ids rid db"
  by (simp add: reserved_leaf_ids_def)

interpretation pg_scope: reservation_store pg_connected pg_reserved_in pg_pooled_in
  "\<lambda>db rid. fst (pg_cancel_reservation rid db)" "\<lambda>db rid. fst (pg_finalize_reservation now rid None db)" for now
proof
  fix s i j and xs :: "TreeNodeId list" and x
  assume "pg_connected s"
  then have inv: "pg_inv s" and c: "tree_connections s = []" by (simp_all add: pg_connected_def)
  note can = pg_cancel_connected [OF c, of i] and fin = pg_finalize_none [OF c, of now i]
  show "pg_connected (fst (pg_cancel_reservation i s))" using inv c by (simp add: can pg_connected_def)
  show "pg_connected (fst (pg_finalize_reservation now i None s))"
    using inv c finalized_views(5) [OF inv, of i now] by (simp add: fin pg_connected_def)
  show "pg_reserved_in (fst (pg_cancel_reservation i s)) j = (if j = i then None else pg_reserved_in s j)"
  proof (cases "hm_get (tree_reservations s) i")
    case (Some row)
    then show ?thesis using delete_one_reservation(2) [OF inv, of i j] reserved_leaf_ids_delete [OF inv, of i j]
      by (simp add: can pg_reserved_in_def hm_contains_iff)
  qed (auto simp: can pg_reserved_in_def hm_contains_iff)
  show "pg_reserved_in (fst (pg_finalize_reservation now i None s)) j = (if j = i then None else pg_reserved_in s j)"
  proof (cases "hm_get (tree_reservations s) i")
    case (Some row)
    then show ?thesis using finalized_views(2) [OF inv, of i now j] reserved_leaf_ids_finalized [OF inv, of i j now]
      by (simp add: fin pg_reserved_in_def hm_contains_iff)
  qed (auto simp: fin pg_reserved_in_def hm_contains_iff)
  assume "pg_reserved_in s i = Some xs"
  then have r: "hm_get (tree_reservations s) i \<noteq> None" "set xs = {k. \<exists>r. hm_get (tree_leaves s) k = Some r \<and> row_reservation r = Some i}"
    by (auto simp: pg_reserved_in_def hm_contains_iff reserved_leaf_ids_set [OF inv] split: if_splits)
  show "pg_pooled_in (fst (pg_cancel_reservation i s)) x = (x \<in> set xs \<or> pg_pooled_in s x)"
    using r delete_one_reservation(1) [OF inv r(1), of x] by (auto simp: can pg_pooled_in_def split: option.split)
  show "pg_pooled_in (fst (pg_finalize_reservation now i None s)) x = pg_pooled_in s x"
    using r(1) finalized_views(1) [OF inv r(1), of now x] by (auto simp: fin pg_pooled_in_def split: option.split)
  assume "x \<in> set xs"
  then show "\<not> pg_pooled_in s x" unfolding r(2) by (auto simp: pg_pooled_in_def)
qed

section \<open>Properties\<close>

text \<open>The commands of the in-memory store as transactions.\<close>

definition pg_command :: "turn \<Rightarrow> StoreCommand \<Rightarrow> TreeDb \<Rightarrow> TreeDb \<times> StoreResponse" where
  "pg_command t c db =
     (case c of
        AddLeaves ls \<Rightarrow> map_prod id UnitResponse (pg_add_leaves (tu_now t) ls db)
      | GetLeaves \<Rightarrow> map_prod id LeavesResponse (pg_get_leaves db)
      | SetLeaves ls missing started \<Rightarrow> map_prod id UnitResponse (pg_set_leaves (tu_now t) ls missing started db)
      | TryReserveLeaves ta exact purpose \<Rightarrow>
          map_prod id ReserveResponse (pg_try_reserve_leaves (tu_now t) (tu_id t) ta exact purpose db)
      | CancelReservation i \<Rightarrow> map_prod id UnitResponse (pg_cancel_reservation i db)
      | FinalizeReservation i ls \<Rightarrow> map_prod id UnitResponse (pg_finalize_reservation (tu_now t) i ls db)
      | UpdateReservation i rs cs \<Rightarrow> map_prod id UpdateResponse (pg_update_reservation (tu_now t) i rs cs db))"

text \<open>The commands that both stores treat alike, with the conditions: a batch has no leaf twice and none that is
  reserved; the rows are read in the order of the pool, and the pending amounts fit a signed integer; the
  finalized reservation is known, its leaves carry no older mark, and both clocks of the handler show the same time.\<close>

definition alike :: "turn \<Rightarrow> StoreCommand \<Rightarrow> LeavesState \<Rightarrow> TreeDb \<Rightarrow> bool" where
  "alike t c st db =
     (let reserved = set (reserved_ids (leaves_reservations st)) in
      case c of
        AddLeaves ls \<Rightarrow> distinct (map tn_id ls) \<and> ids_of ls \<inter> reserved = {}
      | TryReserveLeaves ta exact purpose \<Rightarrow>
          tu_id t \<notin> set (hm_keys (leaves_reservations st)) \<and> pg_available db = available_nodes st
          \<and> sum_list (map pending_change_amount (hm_values (leaves_reservations st))) < 2 ^ 63
      | CancelReservation i \<Rightarrow> True
      | FinalizeReservation i nl \<Rightarrow>
          tu_now' t = tu_now t
          \<and> (case hm_get (leaves_reservations st) i of
               None \<Rightarrow> False
             | Some e \<Rightarrow> list_all (\<lambda>s. hm_get (tree_spent_leaves db) (stored_id s) = None) (re_leaves e))
          \<and> (case nl of None \<Rightarrow> True | Some ls \<Rightarrow> distinct (map tn_id ls) \<and> ids_of ls \<inter> reserved = {})
      | _ \<Rightarrow> False)"

text \<open>A state of both stores: one leaf, reserved for a payment.\<close>

definition sample_tree_db :: "string \<Rightarrow> TreeDb" where
  "sample_tree_db p = (empty_tree_db [])
     \<lparr>tree_leaves := [(''a'', \<lparr>row_status = ''Available'', row_missing = False, row_reservation = Some ''r'',
                           row_data = sample_leaf ''a'' 4 0, row_added_at = 5\<rparr>)],
      tree_reservations := [(''r'', \<lparr>rr_purpose = p, rr_pending_change = 0, rr_created_at = 5\<rparr>)]\<rparr>"

definition sample_memory :: LeavesState where
  "sample_memory = default_leaves_state\<lparr>leaves_reservations :=
     [(''r'', \<lparr>re_leaves = [\<lparr>sl_node = sample_leaf ''a'' 4 0, added_at = 5\<rparr>], re_purpose = Payment, pending_change_amount = 0\<rparr>)]\<rparr>"

lemma sample_db_inv: "pg_inv (sample_tree_db (purpose_to_string p))" "tree_connections (sample_tree_db q) = []"
  by (auto simp: sample_tree_db_def empty_tree_db_def pg_inv_def hm_ok_def hm_get_def row_ok_def split: if_splits)

lemma sample_memory_inv: "store_inv sample_memory"
  by (simp add: sample_memory_def store_inv_def default_leaves_state_def reserved_ids_Cons hm_ok_def)

lemma sample_match: "stores_match 0 sample_memory (sample_tree_db ''Payment'')"
  by (auto simp: stores_match_def sample_memory_def sample_tree_db_def default_leaves_state_def empty_tree_db_def hm_get_def
      fun_eq_iff pool_of_def entry_match_def reserved_of_def stored_row_def spent_match_def as_i64_def split: if_splits)

lemma sample_payment_inv: "pg_inv (sample_tree_db ''Payment'')"
  using sample_db_inv(1) [of Payment] by simp



text \<open>C7. A refresh gives both stores the same pool: when they hold the same leaves and no reservation has timed out,
  the leaves that can be used afterwards are the same, with the same times, skipped refreshes included.\<close>

theorem postgres_refresh_same_pool:
  assumes "stores_match b st db" and "store_inv st" and "pg_inv db" and "tree_connections db = []" and "b \<le> started"
    and "distinct (map tn_id ls)" and "distinct (map tn_id ms)" and "ids_of ls \<inter> ids_of ms = {}"
    and "list_all (\<lambda>r. now \<le> rr_created_at r + RESERVATION_TIMEOUT) (hm_values (tree_reservations db))"
  shows "hm_get (st_leaves (process_set_leaves now st ls ms started)) = pool_of (fst (pg_set_leaves now ls ms started db))"
proof (rule refresh_matches [OF assms(1-8)])
  have ok: "hm_ok (tree_reservations db)" using assms(3) by (simp add: pg_inv_def)
  show "\<not> stale now rid r" if "hm_get (tree_reservations db) rid = Some r" for rid r
    using that assms(9) by (force simp: stale_def list_all_iff hm_values_iff [OF ok])
qed

theorem postgres_refresh_same_pool_witness:
  "hm_get (st_leaves (process_set_leaves 9 sample_memory [sample_leaf ''b'' 4 0] [sample_leaf ''c'' 2 0] 8))
     = pool_of (fst (pg_set_leaves 9 [sample_leaf ''b'' 4 0] [sample_leaf ''c'' 2 0] 8 (sample_tree_db ''Payment'')))"
  by (rule postgres_refresh_same_pool [OF sample_match sample_memory_inv sample_payment_inv sample_db_inv(2)])
    (simp_all add: sample_tree_db_def hm_values_def RESERVATION_TIMEOUT_def)

section \<open>Where the stores differ\<close>

fun pg_refreshes :: "(system_time \<times> TreeNode list \<times> TreeNode list \<times> system_time) list \<Rightarrow> TreeDb \<Rightarrow> TreeDb" where
  "pg_refreshes [] db = db"
| "pg_refreshes ((now, ls, ms, started) # rs) db = pg_refreshes rs (fst (pg_set_leaves now ls ms started db))"

lemma swap_keeps_tables:
  assumes "pg_inv db" and "hm_get (tree_reservations db) rid = Some r" and "rr_purpose r = ''Swap''"
  shows "\<exists>cs. fst (pg_set_leaves now ls ms started db) = db\<lparr>tree_connections := cs\<rparr>"
proof -
  obtain db' x where p: "pg_set_leaves now ls ms started db = (db', x)" by fastforce
  have "r \<in> set (hm_values (tree_reservations db))" using assms by (auto simp: hm_values_iff pg_inv_def)
  with assms(3) have sw: "list_ex (\<lambda>r. rr_purpose r = ''Swap'') (hm_values (tree_reservations db))" by (auto simp: list_ex_iff)
  from p have "\<exists>cs. db' = db\<lparr>tree_connections := cs\<rparr>" unfolding pg_set_leaves_def
    by (cases rule: in_transaction_cases) (auto simp: sw)
  with p show ?thesis by simp
qed

text \<open>A swap reservation is never cleaned up: as long as it is in the table, no sequence of refreshes, at whatever
  times, changes any table, however long ago it was made. The check for an active swap comes before the removal
  of reservations that timed out, so after a crash during a swap the wallet is never refreshed again.\<close>

theorem stale_swap_blocks_refresh:
  assumes "pg_inv db" and "hm_get (tree_reservations db) rid = Some r" and "rr_purpose r = ''Swap''"
  shows "\<exists>cs. pg_refreshes rs db = db\<lparr>tree_connections := cs\<rparr>"
  using assms
proof (induction rs db rule: pg_refreshes.induct)
  case (1 db)
  then show ?case by (intro exI [of _ "tree_connections db"]) simp
next
  case (2 now ls ms started rs db)
  from swap_keeps_tables [OF "2.prems"] obtain cs where cs: "fst (pg_set_leaves now ls ms started db) = db\<lparr>tree_connections := cs\<rparr>"
    by blast
  with "2.IH" "2.prems" show ?case by (auto simp: cs)
qed

theorem stale_swap_blocks_refresh_witness:
  "\<exists>cs. pg_refreshes [(10 ^ 15, [sample_leaf ''b'' 4 0], [], 10 ^ 15 - 1), (10 ^ 16, [], [], 10 ^ 16 - 1)] (sample_tree_db ''Swap'')
     = (sample_tree_db ''Swap'')\<lparr>tree_connections := cs\<rparr>"
  by (rule stale_swap_blocks_refresh [where rid = "''r''" and r = "\<lparr>rr_purpose = ''Swap'', rr_pending_change = 0, rr_created_at = 5\<rparr>"])
    (use sample_db_inv(1) [of Swap] in \<open>simp_all add: sample_tree_db_def hm_get_def\<close>)

lemma refreshed_leaf:
  assumes "pg_inv db" and "tree_connections db = []" and "\<not> pg_swap_blocks started db" and "hm_get (tree_leaves db) (tn_id l) = None"
  shows "pool_of (fst (pg_set_leaves now [l] [] started db)) (tn_id l) =
    (if \<exists>t. hm_get (tree_spent_leaves db) (tn_id l) = Some t \<and> started \<le> t then None else Some \<lparr>sl_node = l, added_at = now\<rparr>)"
proof -
  from pg_set_applied [OF assms(1-3), of "[l]" "[]" now] obtain db' where "pg_set_leaves now [l] [] started db = (db', Ok ())"
    and "hm_get (tree_leaves db') (tn_id l) = (case find (\<lambda>k. tn_id k = tn_id l) (unspent_since started db [l]) of
      Some k \<Rightarrow> Some (written_row now False (kept_row now started db (tn_id l)) k) | None \<Rightarrow> kept_row now started db (tn_id l))"
    by (auto simp: unspent_since_def)
  with assms(4) show ?thesis
    by (auto simp: pool_of_def kept_row_def written_row_def stored_row_def unspent_since_def)
qed

text \<open>A leaf that is spent a second time can come back: its old mark stays in the table (\<open>ON CONFLICT DO NOTHING\<close>
  keeps the old time), so a refresh that started after the first spend, and before the second, adds the leaf to the
  pool again. The in-memory store overwrites the mark and leaves the leaf out.\<close>

theorem respent_leaf_returns:
  assumes "pg_inv db" and "tree_connections db = []" and "\<not> pg_swap_blocks started db"
    and "hm_get (tree_leaves db) (tn_id l) = Some r" and "row_reservation r = Some rid"
    and "hm_get (tree_spent_leaves db) (tn_id l) = Some t" and "t < started"
  shows "pool_of (fst (pg_finalize_reservation now rid None db)) (tn_id l) = None
    \<and> pool_of (fst (pg_set_leaves now' [l] [] started (fst (pg_finalize_reservation now rid None db)))) (tn_id l)
        = Some \<lparr>sl_node = l, added_at = now'\<rparr>"
proof -
  have r: "hm_get (tree_reservations db) rid \<noteq> None" using inv_row [OF assms(1,4)] assms(5) by (simp add: row_ok_def)
  let ?d = "notify_balance_change (finalized now rid db)"
  have fin: "fst (pg_finalize_reservation now rid None db) = ?d" using r by (auto simp: pg_finalize_none [OF assms(2)])
  note v = finalized_views [OF assms(1) r, of now]
  have "hm_get (tree_leaves ?d) (tn_id l) = None" "hm_get (tree_spent_leaves ?d) (tn_id l) = Some t"
    using assms(4-6) by (simp_all add: v(1,3))
  moreover have "\<not> pg_swap_blocks started ?d" using assms(3) by (auto simp: pg_swap_blocks_def v(2,4) split: if_splits)
  moreover have "pg_inv ?d" "tree_connections ?d = []" using v(5) assms(2) by simp_all
  ultimately show ?thesis using assms(7) refreshed_leaf [of ?d started l now'] unfolding fin by (simp add: pool_of_def)
qed

theorem respent_leaf_returns_witness:
  "pool_of (fst (pg_set_leaves 9 [sample_leaf ''a'' 4 0] [] 6
      (fst (pg_finalize_reservation 7 ''r'' None ((sample_tree_db ''Payment'')\<lparr>tree_spent_leaves := [(''a'', 3)]\<rparr>))))) ''a''
     = Some \<lparr>sl_node = sample_leaf ''a'' 4 0, added_at = 9\<rparr>"
proof -
  let ?db = "(sample_tree_db ''Payment'')\<lparr>tree_spent_leaves := [(''a'', 3)]\<rparr>"
  have "pg_inv ?db" using sample_payment_inv by (rule pg_inv_spent) (simp add: hm_ok_def)
  moreover have "\<not> pg_swap_blocks 6 ?db"
    by (simp add: pg_swap_blocks_def sample_tree_db_def empty_tree_db_def hm_get_def)
  ultimately show ?thesis
    using respent_leaf_returns [of ?db 6 "sample_leaf ''a'' 4 0" _ "''r''" 3 7 9]
    by (simp add: sample_tree_db_def empty_tree_db_def hm_get_def)
qed

lemma memory_swapped_leaf:
  assumes inv: "store_inv st" and e: "hm_get (leaves_reservations st) rid = Some e" and s: "tn_id l \<in> stored_id ` set (re_leaves e)"
    and p: "re_purpose e = Payment" and fresh: "fresh_command tu (UpdateReservation rid rs cs) st"
    and l: "tn_id l \<notin> ids_of rs" and nb: "\<not> (has_active_swap st \<or> swap_completed_during_refresh st started)"
  shows "hm_get (st_leaves (process_set_leaves now' (fst (process_update_reservation now st rid rs cs)) [l] [] started)) (tn_id l)
    = Some \<lparr>sl_node = l, added_at = now'\<rparr>"
proof -
  let ?st = "fst (process_update_reservation now st rid rs cs)"
  have ok: "hm_ok (leaves_reservations st)" "distinct (reserved_ids (leaves_reservations st))" using inv by (simp_all add: store_inv_def)
  note R = reserved_ids_remove_set [OF ok(1) e] reserved_ids_remove_distinct [OF ok(1) e ok(2)]
  have spent: "spent_leaf_ids ?st = spent_leaf_ids st" "last_swap_completed_at ?st = last_swap_completed_at st"
    using e by (simp_all add: process_update_reservation_def Let_def)
  have res: "reserved_ids (leaves_reservations ?st) = reserved_ids (hm_remove rid (leaves_reservations st)) @ map tn_id rs"
    using e by (simp add: process_update_reservation_def Let_def reserved_ids_insert_fresh comp_def)
  have "tn_id l \<notin> set (reserved_ids (leaves_reservations ?st))" using R s l unfolding res by auto
  moreover have "hm_get (spent_leaf_ids st) (tn_id l) = None"
    using inv s R(1) by (auto simp: store_inv_def hm_get_None_iff)
  moreover have "\<not> has_active_swap ?st" using nb p e ok(1)
    by (auto simp: has_active_swap_def list_ex_iff Bex_def hm_values_iff process_update_reservation_def Let_def split: if_splits)
  moreover have "\<not> swap_completed_during_refresh ?st started" using nb by (simp add: swap_completed_during_refresh_def spent)
  ultimately show ?thesis using set_leaves_applied [OF store_inv_update [OF inv fresh, of now], of started now' "[l]" "[]"] inv
    by (simp add: set_leaves_result_def refreshed_pool_def Let_def spent insert_leaves_def hm_insert_all_def hm_contains_iff
        hm_get_retain store_inv_def)
qed

lemma pg_swapped_leaf:
  assumes inv: "pg_inv db" and c: "tree_connections db = []" and nb: "\<not> pg_swap_blocks started db"
    and r: "hm_get (tree_leaves db) (tn_id l) = Some r" "row_reservation r = Some rid"
    and m: "hm_get (tree_spent_leaves db) (tn_id l) = None" and t: "started \<le> now"
    and d: "distinct (map tn_id rs)" "distinct (map tn_id cs)" "tn_id l \<notin> ids_of rs \<union> ids_of cs"
  shows "pool_of (fst (pg_set_leaves now' [l] [] started (fst (pg_update_reservation now rid rs cs db)))) (tn_id l) = None"
proof -
  obtain row where row: "hm_get (tree_reservations db) rid = Some row" using inv_row [OF inv r(1)] r(2) by (auto simp: row_ok_def)
  let ?d2 = "delete_leaves (\<lambda>r. row_reservation r = Some rid) (batch_insert_spent_leaves now (reserved_leaf_ids rid db) db)"
  let ?t4 = "foldl (upsert_leaf now False) (foldl (upsert_leaf now False) (tree_leaves ?d2) cs) rs"
  let ?d = "fst (pg_update_reservation now rid rs cs db)"
  have d: "?d = notify_balance_change (batch_set_reservation_id rid (map tn_id rs) (?d2\<lparr>tree_leaves := ?t4\<rparr>)
      \<lparr>tree_reservations := hm_insert rid (row\<lparr>rr_pending_change := 0\<rparr>) (tree_reservations db)\<rparr>)"
    using row d(1,2) by (simp add: pg_update_reservation_def in_transaction_connected [OF c] batch_upsert_leaves_def Let_def)
  have step: "pg_step db ?d" by (rule pg_update [of now rid rs cs _ _ "snd (pg_update_reservation now rid rs cs db)"]) simp
  have d1: "pg_inv ?d" using step inv by (rule pg_inv_step)
  have d2: "tree_connections ?d = []" using c
    by (simp add: d batch_set_reservation_id_def delete_leaves_def batch_insert_spent_leaves_def)
  have d3: "\<not> pg_swap_blocks started ?d" using nb row
    by (auto simp: pg_swap_blocks_def d batch_set_reservation_id_def delete_leaves_def batch_insert_spent_leaves_def split: if_splits)
  have "hm_get (tree_leaves ?d2) (tn_id l) = None"
    using r inv by (simp add: delete_leaves_def batch_insert_spent_leaves_def hm_get_retain pg_inv_def)
  moreover have "find (\<lambda>k. tn_id k = tn_id l) rs = None" "find (\<lambda>k. tn_id k = tn_id l) cs = None"
    using assms(10) by (auto simp: find_None_iff image_iff)
  ultimately have d4: "hm_get (tree_leaves ?d) (tn_id l) = None" using assms(8,9)
    by (simp add: d batch_set_reservation_id_def hm_get_upsert_leaves)
  have "tn_id l \<in> set (reserved_leaf_ids rid db)" using r by (auto simp: reserved_leaf_ids_set [OF inv])
  then have "hm_get (tree_spent_leaves ?d) (tn_id l) = Some now" using m
    by (simp add: d batch_set_reservation_id_def delete_leaves_def batch_insert_spent_leaves_def hm_get_insert_spent)
  with t show ?thesis by (simp add: refreshed_leaf [OF d1 d2 d3 d4])
qed

text \<open>After a swap for a payment the two stores treat the leaves that went into it differently: the update of the
  reservation marks them as spent in the database only. A refresh that started before the swap, and still lists
  such a leaf, brings it back into the pool of the in-memory store, and not into the one of the database.\<close>

theorem swapped_leaves_return:
  assumes "stores_match b st db" and "store_inv st" and "pg_inv db" and "tree_connections db = []"
    and "hm_get (leaves_reservations st) rid = Some e" and "s \<in> set (re_leaves e)" and "stored_id s = tn_id l"
    and "re_purpose e = Payment" and "fresh_command tu (UpdateReservation rid rs cs) st"
    and "\<not> (has_active_swap st \<or> swap_completed_during_refresh st started)" and "started \<le> now"
    and "hm_get (tree_spent_leaves db) (tn_id l) = None"
    and "distinct (map tn_id cs)" and "tn_id l \<notin> ids_of rs \<union> ids_of cs"
  shows "hm_get (st_leaves (process_set_leaves now' (fst (process_update_reservation now st rid rs cs)) [l] [] started)) (tn_id l)
      = Some \<lparr>sl_node = l, added_at = now'\<rparr>
    \<and> pool_of (fst (pg_set_leaves now' [l] [] started (fst (pg_update_reservation now rid rs cs db)))) (tn_id l) = None"
proof
  have l: "tn_id l \<in> stored_id ` set (re_leaves e)" using assms(6,7) by force
  show "hm_get (st_leaves (process_set_leaves now' (fst (process_update_reservation now st rid rs cs)) [l] [] started)) (tn_id l)
      = Some \<lparr>sl_node = l, added_at = now'\<rparr>"
    using assms(14) by (intro memory_swapped_leaf [OF assms(2,5) l assms(8,9) _ assms(10)]) simp
  have "s \<in> reserved_of db rid" using match_entry [OF assms(1), of rid] assms(5,6) by (simp add: entry_match_def)
  then obtain r where "hm_get (tree_leaves db) (tn_id l) = Some r" "row_reservation r = Some rid"
    using reserved_of_iff [OF assms(3)] assms(7) by auto
  moreover have "\<not> pg_swap_blocks started db" using swap_blocks_match [OF assms(1,2)] assms(10) by simp
  moreover have "distinct (map tn_id rs)" using assms(9) by (simp add: fresh_command_def Let_def)
  ultimately show "pool_of (fst (pg_set_leaves now' [l] [] started (fst (pg_update_reservation now rid rs cs db)))) (tn_id l) = None"
    using assms(3,4,11-14) by (intro pg_swapped_leaf) simp_all
qed

theorem swapped_leaves_return_witness:
  "hm_get (st_leaves (process_set_leaves 9 (fst (process_update_reservation 7 sample_memory ''r'' [sample_leaf ''b'' 4 0] []))
      [sample_leaf ''a'' 4 0] [] 6)) ''a'' = Some \<lparr>sl_node = sample_leaf ''a'' 4 0, added_at = 9\<rparr>
   \<and> pool_of (fst (pg_set_leaves 9 [sample_leaf ''a'' 4 0] [] 6
      (fst (pg_update_reservation 7 ''r'' [sample_leaf ''b'' 4 0] [] (sample_tree_db ''Payment''))))) ''a'' = None"
proof -
  have "hm_get (leaves_reservations sample_memory) ''r'' = Some \<lparr>re_leaves = [\<lparr>sl_node = sample_leaf ''a'' 4 0, added_at = 5\<rparr>],
      re_purpose = Payment, pending_change_amount = 0\<rparr>" by (simp add: sample_memory_def hm_get_def)
  from swapped_leaves_return [OF sample_match sample_memory_inv sample_payment_inv sample_db_inv(2) this,
      of "\<lparr>sl_node = sample_leaf ''a'' 4 0, added_at = 5\<rparr>" "sample_leaf ''a'' 4 0" sample_turn "[sample_leaf ''b'' 4 0]" "[]" 6 7 9]
  show ?thesis
    by (simp add: fresh_command_def sample_memory_def default_leaves_state_def has_active_swap_def swap_completed_during_refresh_def
        sample_tree_db_def empty_tree_db_def hm_get_def hm_values_def hm_keys_def hm_remove_def reserved_ids_def)
qed

end
