(* ===== verification/Sync_Model.thy ===== *)
theory Sync_Model
  imports Prelude
begin

text \<open>
  The data model of real-time sync: \<open>crates/breez-sdk/common/src/sync/model.rs\<close> and the conversions of
  \<open>crates/breez-sdk/common/src/sync/storage.rs\<close>.

  The code has every type twice, once with parsed schema versions and JSON values and once with their texts; the
  records here are polymorphic in both, so that \<open>(SchemaVersion, 'v) Record\<close> is the first and \<open>(string, string) Record\<close>
  the second. The JSON library is the argument \<open>json\<close>.
\<close>

section \<open>Schema versions\<close>

record SchemaVersion =
  major :: u64
  minor :: u64
  patch :: u64

definition is_supported_by :: "SchemaVersion \<Rightarrow> SchemaVersion \<Rightarrow> bool" where
  "is_supported_by v supported_max \<longleftrightarrow> major v \<le> major supported_max"

definition schema_to_string :: "SchemaVersion \<Rightarrow> string" where
  "schema_to_string v = decimal (major v) @ ''.'' @ decimal (minor v) @ ''.'' @ decimal (patch v)"

definition schema_from_str :: "string \<Rightarrow> string + SchemaVersion" where
  "schema_from_str s =
     (case split_on (CHR ''.'') s of
        [a, b, c] \<Rightarrow>
          rbind (ok_or (parse_u64 a) (''Invalid major version: '' @ a)) (\<lambda>ma.
          rbind (ok_or (parse_u64 b) (''Invalid minor version: '' @ b)) (\<lambda>mi.
          rbind (ok_or (parse_u64 c) (''Invalid patch version: '' @ c)) (\<lambda>pa.
            Ok \<lparr>major = ma, minor = mi, patch = pa\<rparr>)))
      | _ \<Rightarrow> Err (''Invalid version format '' @ [CHR 0x27] @ s @ [CHR 0x27] @ '': expected major.minor.patch''))"

section \<open>Records and changes\<close>

record RecordId =
  rid_type :: string
  rid_data_id :: string

record ('s, 'v) Record =
  rec_id :: RecordId
  rec_revision :: u64
  rec_schema :: 's
  rec_data :: "(string, 'v) hmap"

record ('s, 'v) UnversionedRecordChange =
  ur_id :: RecordId
  ur_schema :: 's
  ur_fields :: "(string, 'v) hmap"

record ('s, 'v) RecordChange =
  rc_id :: RecordId
  rc_schema :: 's
  rc_fields :: "(string, 'v) hmap"
  rc_local_revision :: u64

record ('s, 'v) OutgoingChange =
  oc_change :: "('s, 'v) RecordChange"
  oc_parent :: "('s, 'v) Record option"

record ('s, 'v) IncomingChange =
  ic_new_state :: "('s, 'v) Record"
  ic_old_state :: "('s, 'v) Record option"

abbreviation overlay :: "(string, 'v) hmap \<Rightarrow> (string, 'v) hmap \<Rightarrow> (string, 'v) hmap" where
  "overlay fs m \<equiv> hm_insert_all fst snd fs m"

definition parent_fields :: "('s, 'v) Record option \<Rightarrow> (string, 'v) hmap" where
  "parent_fields parent = (case parent of None \<Rightarrow> [] | Some p \<Rightarrow> overlay (rec_data p) [])"

definition merge_change :: "('s, 'v) OutgoingChange \<Rightarrow> ('s, 'v) Record" where
  "merge_change c =
     \<lparr>rec_id = rc_id (oc_change c),
      rec_revision = (case oc_parent c of None \<Rightarrow> 0 | Some p \<Rightarrow> rec_revision p),
      rec_schema = rc_schema (oc_change c),
      rec_data = overlay (rc_fields (oc_change c)) (parent_fields (oc_parent c))\<rparr>"

definition with_parent :: "('s, 'v) Record \<Rightarrow> ('s, 'v) Record option \<Rightarrow> ('s, 'v) Record" where
  "with_parent r parent = r\<lparr>rec_data := overlay (rec_data r) (parent_fields parent)\<rparr>"

definition change_set :: "('s, 'v) Record \<Rightarrow> ('s, 'v) Record option \<Rightarrow> ('s, 'v) OutgoingChange" where
  "change_set r parent =
     \<lparr>oc_change =
        \<lparr>rc_id = rec_id r, rc_schema = rec_schema r,
         rc_fields = (case parent of
             None \<Rightarrow> rec_data r
           | Some p \<Rightarrow> overlay (filter (\<lambda>(k, v). hm_get (rec_data p) k \<noteq> Some v) (rec_data r)) []),
         rc_local_revision = rec_revision r\<rparr>,
      oc_parent = parent\<rparr>"

section \<open>Conversions to and from the stored form\<close>

datatype SyncStorageError = SyImplementation string | SyInitializationError string | SySerialization string

record 'v json =
  from_json :: "string \<Rightarrow> string + 'v"
  to_json :: "'v \<Rightarrow> string + string"

fun collect_fields :: "('a \<Rightarrow> 'e + 'b) \<Rightarrow> (string, 'a) hmap \<Rightarrow> 'e + (string, 'b) hmap" where
  "collect_fields f [] = Ok []"
| "collect_fields f ((k, a) # xs) = rbind (f a) (\<lambda>b. rbind (collect_fields f xs) (\<lambda>ys. Ok ((k, b) # ys)))"

definition parse_fields :: "'v json \<Rightarrow> (string, string) hmap \<Rightarrow> SyncStorageError + (string, 'v) hmap" where
  "parse_fields js = collect_fields (\<lambda>t. map_err SySerialization (from_json js t))"

definition print_fields :: "'v json \<Rightarrow> (string, 'v) hmap \<Rightarrow> SyncStorageError + (string, string) hmap" where
  "print_fields js = collect_fields (\<lambda>v. map_err SySerialization (to_json js v))"

definition parse_schema :: "string \<Rightarrow> SyncStorageError + SchemaVersion" where
  "parse_schema s = map_err SySerialization (schema_from_str s)"

definition record_from_storage ::
  "'v json \<Rightarrow> (string, string) Record \<Rightarrow> SyncStorageError + (SchemaVersion, 'v) Record" where
  "record_from_storage js r =
     rbind (parse_schema (rec_schema r)) (\<lambda>v.
     rbind (parse_fields js (rec_data r)) (\<lambda>d.
       Ok \<lparr>rec_id = rec_id r, rec_revision = rec_revision r, rec_schema = v, rec_data = d\<rparr>))"

definition record_to_storage ::
  "'v json \<Rightarrow> (SchemaVersion, 'v) Record \<Rightarrow> SyncStorageError + (string, string) Record" where
  "record_to_storage js r =
     rbind (print_fields js (rec_data r)) (\<lambda>d.
       Ok \<lparr>rec_id = rec_id r, rec_revision = rec_revision r, rec_schema = schema_to_string (rec_schema r), rec_data = d\<rparr>)"

definition parent_from_storage ::
  "'v json \<Rightarrow> (string, string) Record option \<Rightarrow> SyncStorageError + (SchemaVersion, 'v) Record option" where
  "parent_from_storage js parent =
     (case parent of None \<Rightarrow> Ok None | Some p \<Rightarrow> rbind (record_from_storage js p) (\<lambda>q. Ok (Some q)))"

definition incoming_from_storage ::
  "'v json \<Rightarrow> (string, string) IncomingChange \<Rightarrow> SyncStorageError + (SchemaVersion, 'v) IncomingChange" where
  "incoming_from_storage js c =
     rbind (record_from_storage js (ic_new_state c)) (\<lambda>n.
     rbind (parent_from_storage js (ic_old_state c)) (\<lambda>old.
       Ok \<lparr>ic_new_state = n, ic_old_state = old\<rparr>))"

definition change_from_storage ::
  "'v json \<Rightarrow> (string, string) RecordChange \<Rightarrow> SyncStorageError + (SchemaVersion, 'v) RecordChange" where
  "change_from_storage js c =
     rbind (parse_schema (rc_schema c)) (\<lambda>v.
     rbind (parse_fields js (rc_fields c)) (\<lambda>d.
       Ok \<lparr>rc_id = rc_id c, rc_schema = v, rc_fields = d, rc_local_revision = rc_local_revision c\<rparr>))"

definition outgoing_from_storage ::
  "'v json \<Rightarrow> (string, string) OutgoingChange \<Rightarrow> SyncStorageError + (SchemaVersion, 'v) OutgoingChange" where
  "outgoing_from_storage js c =
     rbind (change_from_storage js (oc_change c)) (\<lambda>ch.
     rbind (parent_from_storage js (oc_parent c)) (\<lambda>p.
       Ok \<lparr>oc_change = ch, oc_parent = p\<rparr>))"

definition unversioned_to_storage ::
  "'v json \<Rightarrow> (SchemaVersion, 'v) UnversionedRecordChange \<Rightarrow>
   SyncStorageError + (string, string) UnversionedRecordChange" where
  "unversioned_to_storage js u =
     rbind (print_fields js (ur_fields u)) (\<lambda>d.
       Ok \<lparr>ur_id = ur_id u, ur_schema = schema_to_string (ur_schema u), ur_fields = d\<rparr>)"

definition unversioned_from_storage ::
  "'v json \<Rightarrow> (string, string) UnversionedRecordChange \<Rightarrow>
   SyncStorageError + (SchemaVersion, 'v) UnversionedRecordChange" where
  "unversioned_from_storage js u =
     rbind (parse_schema (ur_schema u)) (\<lambda>v.
     rbind (parse_fields js (ur_fields u)) (\<lambda>d.
       Ok \<lparr>ur_id = ur_id u, ur_schema = v, ur_fields = d\<rparr>))"

section \<open>Facts\<close>

text \<open>What the JSON library promises: every value is printed, and parsing the text gives the value back.\<close>

definition json_roundtrip :: "'v json \<Rightarrow> bool" where
  "json_roundtrip js \<longleftrightarrow> (\<forall>v. \<exists>t. to_json js v = Ok t \<and> from_json js t = Ok v)"

definition version_fits :: "SchemaVersion \<Rightarrow> bool" where
  "version_fits v \<longleftrightarrow> major v < 2 ^ 64 \<and> minor v < 2 ^ 64 \<and> patch v < 2 ^ 64"

lemma dot_not_digit: "CHR ''.'' \<notin> set (decimal n)"
  using decimal_digits [of "CHR ''.''" n] by (auto simp: is_digit_def)

lemma schema_roundtrip: "version_fits v \<Longrightarrow> schema_from_str (schema_to_string v) = Ok v"
  by (simp add: schema_from_str_def schema_to_string_def split_on_append split_on_single dot_not_digit
      version_fits_def parse_u64_decimal ok_or_def)

lemma fields_roundtrip:
  assumes "json_roundtrip js"
  shows "\<exists>ts. print_fields js vs = Ok ts \<and> parse_fields js ts = Ok vs"
proof (induction vs)
  case Nil
  then show ?case by (simp add: print_fields_def parse_fields_def)
next
  case (Cons p vs)
  obtain k v where p: "p = (k, v)" by (cases p)
  from assms obtain t where t: "to_json js v = Ok t" "from_json js t = Ok v" by (auto simp: json_roundtrip_def)
  from Cons obtain ts where "print_fields js vs = Ok ts" "parse_fields js ts = Ok vs" by auto
  with p t show ?case
    by (intro exI [of _ "(k, t) # ts"]) (simp add: print_fields_def parse_fields_def map_err_def)
qed

lemma overlay_get:
  "hm_ok fs \<Longrightarrow> hm_get (overlay fs m) k = (case hm_get fs k of None \<Rightarrow> hm_get m k | Some v \<Rightarrow> Some v)"
proof (induction fs arbitrary: m)
  case Nil
  then show ?case by (simp add: hm_insert_all_def)
next
  case (Cons p fs)
  obtain a b where p: "p = (a, b)" by (cases p)
  from Cons.prems p have "hm_get fs a = None" "hm_ok fs"
    by (auto simp: hm_ok_def hm_get_def map_of_eq_None_iff)
  with Cons.IH [of "hm_insert a b m"] p show ?case
    by (auto simp: hm_insert_all_def hm_get_Cons split: option.split)
qed

lemma overlay_Nil_get [simp]: "hm_ok fs \<Longrightarrow> hm_get (overlay fs []) k = hm_get fs k"
  by (simp add: overlay_get split: option.split)

lemma hm_ok_filter: "hm_ok m \<Longrightarrow> hm_ok (filter P m)"
  unfolding hm_ok_def by (rule distinct_map_filter)

lemma hm_get_filter:
  "hm_ok m \<Longrightarrow> hm_get (filter (\<lambda>(k, v). P k v) m) k =
     (case hm_get m k of None \<Rightarrow> None | Some v \<Rightarrow> if P k v then Some v else None)"
  using hm_get_retain [of m P k] by (simp add: hm_retain_def)

lemma change_set_parent [simp]: "oc_parent (change_set r parent) = parent"
  by (simp add: change_set_def)

lemma change_set_fields:
  assumes "hm_ok (rec_data r)"
  shows "hm_get (rc_fields (oc_change (change_set r parent))) k = Some v \<longleftrightarrow>
         hm_get (rec_data r) k = Some v \<and> (\<forall>p. parent = Some p \<longrightarrow> hm_get (rec_data p) k \<noteq> Some v)"
  using assms by (cases parent)
    (auto simp: change_set_def hm_ok_filter hm_get_filter split: option.splits if_splits)

lemma change_set_fields_ok: "hm_ok (rec_data r) \<Longrightarrow> hm_ok (rc_fields (oc_change (change_set r parent)))"
  by (cases parent) (simp_all add: change_set_def)

section \<open>Properties\<close>

text \<open>A change set is minimal and sufficient: it holds exactly the fields of the record that the parent lacks or
  has with another value, and merging it into the parent again gives the parent overlaid with the record, under
  the revision of the parent.\<close>

theorem merge_change_set:
  assumes "hm_ok (rec_data r)" and "\<forall>p. parent = Some p \<longrightarrow> hm_ok (rec_data p)"
  shows "(let c = change_set r parent; m = merge_change c in
           (hm_get (rc_fields (oc_change c)) k = Some v \<longleftrightarrow>
              hm_get (rec_data r) k = Some v \<and> (\<forall>p. parent = Some p \<longrightarrow> hm_get (rec_data p) k \<noteq> Some v))
           \<and> hm_get (rec_data m) k = hm_get (rec_data (with_parent r parent)) k
           \<and> rec_id m = rec_id r \<and> rec_revision m = (case parent of None \<Rightarrow> 0 | Some p \<Rightarrow> rec_revision p))"
proof -
  let ?c = "change_set r parent"
  have fs: "hm_get (rc_fields (oc_change ?c)) k = Some v \<longleftrightarrow>
      hm_get (rec_data r) k = Some v \<and> (\<forall>p. parent = Some p \<longrightarrow> hm_get (rec_data p) k \<noteq> Some v)" for v
    using change_set_fields [OF assms(1)] .
  have m: "hm_get (rec_data (merge_change ?c)) k = (case hm_get (rc_fields (oc_change ?c)) k of
      None \<Rightarrow> hm_get (parent_fields parent) k | Some v \<Rightarrow> Some v)"
    by (simp add: merge_change_def overlay_get change_set_fields_ok [OF assms(1)])
  have w: "hm_get (rec_data (with_parent r parent)) k = (case hm_get (rec_data r) k of
      None \<Rightarrow> hm_get (parent_fields parent) k | Some v \<Rightarrow> Some v)"
    using assms(1) by (simp add: with_parent_def overlay_get)
  have "hm_get (rec_data (merge_change ?c)) k = hm_get (rec_data (with_parent r parent)) k"
  proof (cases "hm_get (rec_data r) k")
    case None
    then have "hm_get (rc_fields (oc_change ?c)) k = None" using fs by (cases "hm_get (rc_fields (oc_change ?c)) k") auto
    with None show ?thesis by (simp only: m w option.case)
  next
    case (Some v)
    show ?thesis
    proof (cases "hm_get (rc_fields (oc_change ?c)) k")
      case None
      with fs [of v] Some obtain p where "parent = Some p" "hm_get (rec_data p) k = Some v" by auto
      with assms(2) have "hm_get (parent_fields parent) k = Some v" by (simp add: parent_fields_def)
      with None Some show ?thesis by (simp only: m w option.case)
    next
      case (Some u)
      with fs [of u] \<open>hm_get (rec_data r) k = Some v\<close> show ?thesis by (simp add: m w)
    qed
  qed
  with fs show ?thesis by (simp add: Let_def merge_change_def change_set_def)
qed

theorem merge_change_set_witness:
  "(let r = \<lparr>rec_id = \<lparr>rid_type = ''t'', rid_data_id = ''1''\<rparr>, rec_revision = 7, rec_schema = (),
             rec_data = [(''a'', 1), (''b'', 2 :: nat)]\<rparr>;
        p = r\<lparr>rec_revision := 5, rec_data := [(''a'', 1), (''b'', 3), (''c'', 4)]\<rparr>
    in hm_get (rec_data (merge_change (change_set r (Some p)))) ''c''
       = hm_get (rec_data (with_parent r (Some p))) ''c'')"
proof -
  let ?r = "\<lparr>rec_id = \<lparr>rid_type = ''t'', rid_data_id = ''1''\<rparr>, rec_revision = 7, rec_schema = (),
             rec_data = [(''a'', 1), (''b'', 2 :: nat)]\<rparr>"
  let ?p = "?r\<lparr>rec_revision := 5, rec_data := [(''a'', 1), (''b'', 3), (''c'', 4)]\<rparr>"
  have "hm_ok (rec_data ?r)" "\<forall>q. Some ?p = Some q \<longrightarrow> hm_ok (rec_data q)" by (simp_all add: hm_ok_def)
  from merge_change_set [OF this, of "''c''" 4] show ?thesis by (simp add: Let_def)
qed

text \<open>Storing a record and reading it back gives the record, schema version included, when the JSON library
  reads back what it prints and the version numbers fit 64 bits.\<close>

theorem record_storage_roundtrip:
  assumes "json_roundtrip js" and "version_fits (rec_schema r)"
  shows "\<exists>s. record_to_storage js r = Ok s \<and> record_from_storage js s = Ok r \<and> rec_id s = rec_id r"
proof -
  from fields_roundtrip [OF assms(1)] obtain ts where
    "print_fields js (rec_data r) = Ok ts" "parse_fields js ts = Ok (rec_data r)" by blast
  with schema_roundtrip [OF assms(2)] show ?thesis
    by (simp add: record_to_storage_def record_from_storage_def parse_schema_def map_err_def)
qed

theorem record_storage_roundtrip_witness:
  "\<exists>s. record_to_storage \<lparr>from_json = Ok, to_json = Ok\<rparr>
      \<lparr>rec_id = \<lparr>rid_type = ''t'', rid_data_id = ''1''\<rparr>, rec_revision = 7,
       rec_schema = \<lparr>major = 1, minor = 0, patch = 12\<rparr>, rec_data = [(''a'', ''x'')]\<rparr> = Ok s
     \<and> rec_id s = \<lparr>rid_type = ''t'', rid_data_id = ''1''\<rparr>"
proof -
  let ?r = "\<lparr>rec_id = \<lparr>rid_type = ''t'', rid_data_id = ''1''\<rparr>, rec_revision = 7,
       rec_schema = \<lparr>major = 1, minor = 0, patch = 12\<rparr>, rec_data = [(''a'', ''x'')]\<rparr>"
  have "json_roundtrip \<lparr>from_json = Ok, to_json = Ok\<rparr>" "version_fits (rec_schema ?r)"
    by (simp_all add: json_roundtrip_def version_fits_def)
  from record_storage_roundtrip [OF this] show ?thesis by auto
qed

end
