(* ===== verification/Sync_Storage.thy ===== *)
theory Sync_Storage
  imports Sync_Model
begin

text \<open>
  The storage of real-time sync. The trait \<open>SyncStorage\<close> of
  \<open>crates/breez-sdk/common/src/sync/storage.rs\<close> is the record \<open>SyncStorage\<close> of its operations. What it promises is the
  abstract machine on \<open>SyncView\<close>, a queue of outgoing changes, the incoming records that wait, the last known
  state of every record and the cursor; the locale \<open>sync_storage\<close> says that an implementation refines the machine,
  where every operation may also fail. Its two interpretations are the statements of
  \<open>crates/breez-sdk/core/src/persist/sqlite.rs\<close> and of \<open>crates/breez-sdk/core/src/persist/postgres/storage.rs\<close>.

  A table is a list of its rows, or a map from its primary key to the row. Connections can fail: \<open>connections\<close> lists
  the outcomes of the next attempts, and the attempts after its end succeed. Revisions are stored as 64-bit
  signed integers, so those from \<open>2 ^ 63\<close> on are refused. Maps of strings are stored as they are, since their JSON text
  is read back by the same library; the column \<open>commit_time\<close> is never read and left out; the texts of driver
  errors are left out.
\<close>

section \<open>The interface\<close>

type_synonym stored_record = "(string, string) Record"
type_synonym stored_change = "(string, string) RecordChange"
type_synonym record_key = "RecordId \<times> u64"

abbreviation record_key :: "stored_record \<Rightarrow> record_key" where
  "record_key r \<equiv> (rec_id r, rec_revision r)"

record 's SyncStorage =
  ss_add_outgoing_change ::
    "'s \<Rightarrow> (string, string) UnversionedRecordChange \<Rightarrow> 's \<times> (SyncStorageError + u64)"
  ss_complete_outgoing_sync :: "'s \<Rightarrow> stored_record \<Rightarrow> u64 \<Rightarrow> 's \<times> (SyncStorageError + unit)"
  ss_get_pending_outgoing_changes ::
    "'s \<Rightarrow> u32 \<Rightarrow> 's \<times> (SyncStorageError + (string, string) OutgoingChange list)"
  ss_get_last_revision :: "'s \<Rightarrow> 's \<times> (SyncStorageError + u64)"
  ss_insert_incoming_records :: "'s \<Rightarrow> stored_record list \<Rightarrow> 's \<times> (SyncStorageError + unit)"
  ss_delete_incoming_record :: "'s \<Rightarrow> stored_record \<Rightarrow> 's \<times> (SyncStorageError + unit)"
  ss_get_incoming_records ::
    "'s \<Rightarrow> u32 \<Rightarrow> 's \<times> (SyncStorageError + (string, string) IncomingChange list)"
  ss_get_latest_outgoing_change ::
    "'s \<Rightarrow> 's \<times> (SyncStorageError + (string, string) OutgoingChange option)"
  ss_update_record_from_incoming :: "'s \<Rightarrow> stored_record \<Rightarrow> 's \<times> (SyncStorageError + unit)"

section \<open>The tables\<close>

record SyncDb =
  connections :: "bool list"
  sync_revision :: u64
  sync_outgoing :: "stored_change list"
  sync_state :: "(RecordId, stored_record) hmap"
  sync_incoming :: "(record_key, stored_record) hmap"

definition empty_db :: "bool list \<Rightarrow> SyncDb" where
  "empty_db cs = \<lparr>connections = cs, sync_revision = 0, sync_outgoing = [], sync_state = [], sync_incoming = []\<rparr>"

definition connect :: "SyncDb \<Rightarrow> SyncDb \<times> bool" where
  "connect db = (case connections db of [] \<Rightarrow> (db, True) | c # cs \<Rightarrow> (db\<lparr>connections := cs\<rparr>, c))"

definition with_connection ::
  "(SyncDb \<Rightarrow> SyncDb \<times> (SyncStorageError + 'a)) \<Rightarrow> SyncDb \<Rightarrow> SyncDb \<times> (SyncStorageError + 'a)" where
  "with_connection f db =
     (case connect db of (db', ok) \<Rightarrow> if ok then f db' else (db', Err (SyImplementation ''connection'')))"

definition fits_i64 :: "u64 \<Rightarrow> bool" where
  "fits_i64 n \<longleftrightarrow> n < 2 ^ 63"

definition overflow_error :: SyncStorageError where
  "overflow_error = SyImplementation ''integer overflow''"

subsection \<open>Statements\<close>

definition next_queue_id :: "SyncDb \<Rightarrow> u64" where
  "next_queue_id db = foldr max (map rc_local_revision (sync_outgoing db)) 0 + 1"

definition insert_outgoing :: "stored_change \<Rightarrow> SyncDb \<Rightarrow> SyncDb" where
  "insert_outgoing c db = db\<lparr>sync_outgoing := sync_outgoing db @ [c]\<rparr>"

definition delete_outgoing :: "RecordId \<Rightarrow> u64 \<Rightarrow> SyncDb \<Rightarrow> SyncDb" where
  "delete_outgoing i n db =
     db\<lparr>sync_outgoing := filter (\<lambda>c. \<not> (rc_id c = i \<and> rc_local_revision c = n)) (sync_outgoing db)\<rparr>"

definition upsert_state :: "stored_record \<Rightarrow> SyncDb \<Rightarrow> SyncDb" where
  "upsert_state r db = db\<lparr>sync_state := hm_insert (rec_id r) r (sync_state db)\<rparr>"

definition raise_cursor :: "u64 \<Rightarrow> SyncDb \<Rightarrow> SyncDb" where
  "raise_cursor n db = db\<lparr>sync_revision := max (sync_revision db) n\<rparr>"

definition upsert_incoming :: "stored_record \<Rightarrow> SyncDb \<Rightarrow> SyncDb" where
  "upsert_incoming r db = db\<lparr>sync_incoming := hm_insert (record_key r) r (sync_incoming db)\<rparr>"

definition delete_incoming :: "stored_record \<Rightarrow> SyncDb \<Rightarrow> SyncDb" where
  "delete_incoming r db = db\<lparr>sync_incoming := hm_remove (record_key r) (sync_incoming db)\<rparr>"

definition with_parent_row :: "SyncDb \<Rightarrow> stored_change \<Rightarrow> (string, string) OutgoingChange" where
  "with_parent_row db c = \<lparr>oc_change = c, oc_parent = hm_get (sync_state db) (rc_id c)\<rparr>"

definition with_old_row :: "SyncDb \<Rightarrow> stored_record \<Rightarrow> (string, string) IncomingChange" where
  "with_old_row db r = \<lparr>ic_new_state = r, ic_old_state = hm_get (sync_state db) (rec_id r)\<rparr>"

definition select_outgoing :: "u32 \<Rightarrow> SyncDb \<Rightarrow> (string, string) OutgoingChange list" where
  "select_outgoing limit db = map (with_parent_row db) (take limit (sort_key rc_local_revision (sync_outgoing db)))"

definition select_latest_outgoing :: "SyncDb \<Rightarrow> (string, string) OutgoingChange option" where
  "select_latest_outgoing db =
     (case rev (sort_key rc_local_revision (sync_outgoing db)) of
        [] \<Rightarrow> None | c # cs \<Rightarrow> Some (with_parent_row db c))"

definition select_incoming :: "u32 \<Rightarrow> SyncDb \<Rightarrow> (string, string) IncomingChange list" where
  "select_incoming limit db = map (with_old_row db) (take limit (sort_key rec_revision (hm_values (sync_incoming db))))"

section \<open>SQLite\<close>

definition sqlite_add_outgoing_change ::
  "SyncDb \<Rightarrow> (string, string) UnversionedRecordChange \<Rightarrow> SyncDb \<times> (SyncStorageError + u64)" where
  "sqlite_add_outgoing_change db0 u =
     with_connection (\<lambda>db.
       let local_revision = next_queue_id db in
       if fits_i64 local_revision
       then (insert_outgoing \<lparr>rc_id = ur_id u, rc_schema = ur_schema u, rc_fields = ur_fields u,
                              rc_local_revision = local_revision\<rparr> db, Ok local_revision)
       else (db, Err overflow_error)) db0"

definition sqlite_complete_outgoing_sync ::
  "SyncDb \<Rightarrow> stored_record \<Rightarrow> u64 \<Rightarrow> SyncDb \<times> (SyncStorageError + unit)" where
  "sqlite_complete_outgoing_sync db0 r local_revision =
     with_connection (\<lambda>db.
       if fits_i64 local_revision \<and> fits_i64 (rec_revision r)
       then (raise_cursor (rec_revision r) (upsert_state r (delete_outgoing (rec_id r) local_revision db)), Ok ())
       else (db, Err overflow_error)) db0"

definition sqlite_get_pending_outgoing_changes ::
  "SyncDb \<Rightarrow> u32 \<Rightarrow> SyncDb \<times> (SyncStorageError + (string, string) OutgoingChange list)" where
  "sqlite_get_pending_outgoing_changes db0 limit = with_connection (\<lambda>db. (db, Ok (select_outgoing limit db))) db0"

definition sqlite_get_last_revision :: "SyncDb \<Rightarrow> SyncDb \<times> (SyncStorageError + u64)" where
  "sqlite_get_last_revision db0 = with_connection (\<lambda>db. (db, Ok (sync_revision db))) db0"

text \<open>All rows are inserted in one transaction.\<close>

definition sqlite_insert_incoming_records ::
  "SyncDb \<Rightarrow> stored_record list \<Rightarrow> SyncDb \<times> (SyncStorageError + unit)" where
  "sqlite_insert_incoming_records db0 rs =
     (if rs = [] then (db0, Ok ())
      else with_connection (\<lambda>db.
        if list_all (\<lambda>r. fits_i64 (rec_revision r)) rs then (foldl (\<lambda>d r. upsert_incoming r d) db rs, Ok ())
        else (db, Err overflow_error)) db0)"

definition sqlite_delete_incoming_record :: "SyncDb \<Rightarrow> stored_record \<Rightarrow> SyncDb \<times> (SyncStorageError + unit)" where
  "sqlite_delete_incoming_record db0 r =
     with_connection (\<lambda>db. if fits_i64 (rec_revision r) then (delete_incoming r db, Ok ()) else (db, Err overflow_error)) db0"

definition sqlite_get_incoming_records ::
  "SyncDb \<Rightarrow> u32 \<Rightarrow> SyncDb \<times> (SyncStorageError + (string, string) IncomingChange list)" where
  "sqlite_get_incoming_records db0 limit = with_connection (\<lambda>db. (db, Ok (select_incoming limit db))) db0"

definition sqlite_get_latest_outgoing_change ::
  "SyncDb \<Rightarrow> SyncDb \<times> (SyncStorageError + (string, string) OutgoingChange option)" where
  "sqlite_get_latest_outgoing_change db0 = with_connection (\<lambda>db. (db, Ok (select_latest_outgoing db))) db0"

definition sqlite_update_record_from_incoming :: "SyncDb \<Rightarrow> stored_record \<Rightarrow> SyncDb \<times> (SyncStorageError + unit)" where
  "sqlite_update_record_from_incoming db0 r =
     with_connection (\<lambda>db.
       if fits_i64 (rec_revision r) then (raise_cursor (rec_revision r) (upsert_state r db), Ok ())
       else (db, Err overflow_error)) db0"

definition sqlite_storage :: "SyncDb SyncStorage" where
  "sqlite_storage =
     \<lparr>ss_add_outgoing_change = sqlite_add_outgoing_change,
      ss_complete_outgoing_sync = sqlite_complete_outgoing_sync,
      ss_get_pending_outgoing_changes = sqlite_get_pending_outgoing_changes,
      ss_get_last_revision = sqlite_get_last_revision,
      ss_insert_incoming_records = sqlite_insert_incoming_records,
      ss_delete_incoming_record = sqlite_delete_incoming_record,
      ss_get_incoming_records = sqlite_get_incoming_records,
      ss_get_latest_outgoing_change = sqlite_get_latest_outgoing_change,
      ss_update_record_from_incoming = sqlite_update_record_from_incoming\<rparr>"

section \<open>PostgreSQL\<close>

definition postgres_add_outgoing_change ::
  "SyncDb \<Rightarrow> (string, string) UnversionedRecordChange \<Rightarrow> SyncDb \<times> (SyncStorageError + u64)" where
  "postgres_add_outgoing_change db0 u =
     with_connection (\<lambda>db.
       let local_revision = next_queue_id db;
           change = \<lparr>rc_id = ur_id u, rc_schema = ur_schema u, rc_fields = ur_fields u, rc_local_revision = local_revision\<rparr>
       in if fits_i64 local_revision then (insert_outgoing change db, Ok local_revision)
          else (db, Err overflow_error)) db0"

definition postgres_complete_outgoing_sync ::
  "SyncDb \<Rightarrow> stored_record \<Rightarrow> u64 \<Rightarrow> SyncDb \<times> (SyncStorageError + unit)" where
  "postgres_complete_outgoing_sync db0 r local_revision =
     with_connection (\<lambda>db.
       if \<not> fits_i64 local_revision then (db, Err overflow_error)
       else let db1 = delete_outgoing (rec_id r) local_revision db in
         if \<not> fits_i64 (rec_revision r) then (db, Err overflow_error)
         else (raise_cursor (rec_revision r) (upsert_state r db1), Ok ())) db0"

definition postgres_get_pending_outgoing_changes ::
  "SyncDb \<Rightarrow> u32 \<Rightarrow> SyncDb \<times> (SyncStorageError + (string, string) OutgoingChange list)" where
  "postgres_get_pending_outgoing_changes db0 limit = with_connection (\<lambda>db. (db, Ok (select_outgoing limit db))) db0"

definition postgres_get_last_revision :: "SyncDb \<Rightarrow> SyncDb \<times> (SyncStorageError + u64)" where
  "postgres_get_last_revision db0 = with_connection (\<lambda>db. (db, Ok (sync_revision db))) db0"

text \<open>One statement per row and no transaction: a failure keeps the rows before it, and every statement can lose the
  connection.\<close>

fun postgres_insert_rows :: "SyncDb \<Rightarrow> stored_record list \<Rightarrow> SyncDb \<times> (SyncStorageError + unit)" where
  "postgres_insert_rows db [] = (db, Ok ())"
| "postgres_insert_rows db (r # rs) =
     (if \<not> fits_i64 (rec_revision r) then (db, Err overflow_error)
      else case connect db of
             (db', ok) \<Rightarrow> if ok then postgres_insert_rows (upsert_incoming r db') rs
                         else (db', Err (SyImplementation ''connection'')))"

definition postgres_insert_incoming_records ::
  "SyncDb \<Rightarrow> stored_record list \<Rightarrow> SyncDb \<times> (SyncStorageError + unit)" where
  "postgres_insert_incoming_records db0 rs =
     (if rs = [] then (db0, Ok ()) else with_connection (\<lambda>db. postgres_insert_rows db rs) db0)"

definition postgres_delete_incoming_record :: "SyncDb \<Rightarrow> stored_record \<Rightarrow> SyncDb \<times> (SyncStorageError + unit)" where
  "postgres_delete_incoming_record db0 r =
     with_connection (\<lambda>db. if fits_i64 (rec_revision r) then (delete_incoming r db, Ok ()) else (db, Err overflow_error)) db0"

definition postgres_get_incoming_records ::
  "SyncDb \<Rightarrow> u32 \<Rightarrow> SyncDb \<times> (SyncStorageError + (string, string) IncomingChange list)" where
  "postgres_get_incoming_records db0 limit = with_connection (\<lambda>db. (db, Ok (select_incoming limit db))) db0"

definition postgres_get_latest_outgoing_change ::
  "SyncDb \<Rightarrow> SyncDb \<times> (SyncStorageError + (string, string) OutgoingChange option)" where
  "postgres_get_latest_outgoing_change db0 = with_connection (\<lambda>db. (db, Ok (select_latest_outgoing db))) db0"

definition postgres_update_record_from_incoming :: "SyncDb \<Rightarrow> stored_record \<Rightarrow> SyncDb \<times> (SyncStorageError + unit)" where
  "postgres_update_record_from_incoming db0 r =
     with_connection (\<lambda>db.
       if fits_i64 (rec_revision r) then (raise_cursor (rec_revision r) (upsert_state r db), Ok ())
       else (db, Err overflow_error)) db0"

definition postgres_storage :: "SyncDb SyncStorage" where
  "postgres_storage =
     \<lparr>ss_add_outgoing_change = postgres_add_outgoing_change,
      ss_complete_outgoing_sync = postgres_complete_outgoing_sync,
      ss_get_pending_outgoing_changes = postgres_get_pending_outgoing_changes,
      ss_get_last_revision = postgres_get_last_revision,
      ss_insert_incoming_records = postgres_insert_incoming_records,
      ss_delete_incoming_record = postgres_delete_incoming_record,
      ss_get_incoming_records = postgres_get_incoming_records,
      ss_get_latest_outgoing_change = postgres_get_latest_outgoing_change,
      ss_update_record_from_incoming = postgres_update_record_from_incoming\<rparr>"

section \<open>The abstract machine\<close>

record SyncView =
  vw_queue :: "stored_change list"
  vw_waiting :: "record_key \<Rightarrow> stored_record option"
  vw_known :: "RecordId \<Rightarrow> stored_record option"
  vw_cursor :: u64

text \<open>The queue is in order of its numbers, which are positive; a waiting record stands under its key; what is known
  of a record is not newer than the cursor.\<close>

definition view_ok :: "SyncView \<Rightarrow> bool" where
  "view_ok v \<longleftrightarrow>
     sorted_wrt (<) (map rc_local_revision (vw_queue v)) \<and> 0 \<notin> rc_local_revision ` set (vw_queue v)
     \<and> (\<forall>k r. vw_waiting v k = Some r \<longrightarrow> record_key r = k)
     \<and> (\<forall>i r. vw_known v i = Some r \<longrightarrow> rec_id r = i \<and> rec_revision r \<le> vw_cursor v)"

definition view_learn :: "stored_record \<Rightarrow> SyncView \<Rightarrow> SyncView" where
  "view_learn r v = v\<lparr>vw_known := (vw_known v)(rec_id r \<mapsto> r), vw_cursor := max (vw_cursor v) (rec_revision r)\<rparr>"

definition view_complete :: "stored_record \<Rightarrow> u64 \<Rightarrow> SyncView \<Rightarrow> SyncView" where
  "view_complete r n v =
     view_learn r (v\<lparr>vw_queue := filter (\<lambda>c. \<not> (rc_id c = rec_id r \<and> rc_local_revision c = n)) (vw_queue v)\<rparr>)"

definition view_receive :: "stored_record list \<Rightarrow> SyncView \<Rightarrow> SyncView" where
  "view_receive rs v = v\<lparr>vw_waiting := (\<lambda>k. case find (\<lambda>r. record_key r = k) (rev rs) of
     Some r \<Rightarrow> Some r | None \<Rightarrow> vw_waiting v k)\<rparr>"

definition view_discard :: "stored_record \<Rightarrow> SyncView \<Rightarrow> SyncView" where
  "view_discard r v = v\<lparr>vw_waiting := (vw_waiting v)(record_key r := None)\<rparr>"

definition view_enqueue :: "(string, string) UnversionedRecordChange \<Rightarrow> u64 \<Rightarrow> SyncView \<Rightarrow> SyncView" where
  "view_enqueue u n v =
     v\<lparr>vw_queue := vw_queue v @ [\<lparr>rc_id = ur_id u, rc_schema = ur_schema u, rc_fields = ur_fields u, rc_local_revision = n\<rparr>]\<rparr>"

definition view_outgoing :: "SyncView \<Rightarrow> stored_change \<Rightarrow> (string, string) OutgoingChange" where
  "view_outgoing v c = \<lparr>oc_change = c, oc_parent = vw_known v (rc_id c)\<rparr>"

definition view_incoming :: "SyncView \<Rightarrow> stored_record \<Rightarrow> (string, string) IncomingChange" where
  "view_incoming v r = \<lparr>ic_new_state = r, ic_old_state = vw_known v (rec_id r)\<rparr>"

text \<open>A list of all waiting records in the order of their revisions.\<close>

definition lists_waiting :: "SyncView \<Rightarrow> stored_record list \<Rightarrow> bool" where
  "lists_waiting v rs \<longleftrightarrow>
     sorted (map rec_revision rs) \<and> distinct (map record_key rs)
     \<and> (\<forall>k r. vw_waiting v k = Some r \<longleftrightarrow> r \<in> set rs \<and> record_key r = k)"

text \<open>One call of any operation, whatever it answers.\<close>

inductive storage_step :: "'s SyncStorage \<Rightarrow> 's \<Rightarrow> 's \<Rightarrow> bool" for S :: "'s SyncStorage" where
  st_add: "ss_add_outgoing_change S s u = (s', x) \<Longrightarrow> storage_step S s s'"
| st_complete: "ss_complete_outgoing_sync S s r n = (s', z) \<Longrightarrow> storage_step S s s'"
| st_insert: "ss_insert_incoming_records S s rs = (s', z) \<Longrightarrow> storage_step S s s'"
| st_delete: "ss_delete_incoming_record S s r = (s', z) \<Longrightarrow> storage_step S s s'"
| st_update: "ss_update_record_from_incoming S s r = (s', z) \<Longrightarrow> storage_step S s s'"
| st_pending: "ss_get_pending_outgoing_changes S s limit = (s', p) \<Longrightarrow> storage_step S s s'"
| st_last: "ss_get_last_revision S s = (s', x) \<Longrightarrow> storage_step S s s'"
| st_incoming: "ss_get_incoming_records S s limit = (s', i) \<Longrightarrow> storage_step S s s'"
| st_latest: "ss_get_latest_outgoing_change S s = (s', l) \<Longrightarrow> storage_step S s s'"

locale sync_storage =
  fixes S :: "'s SyncStorage"
    and view :: "'s \<Rightarrow> SyncView"
    and inv :: "'s \<Rightarrow> bool"
  assumes inv_view: "inv s \<Longrightarrow> view_ok (view s)"
    and add: "inv s \<Longrightarrow> ss_add_outgoing_change S s u = (s', x) \<Longrightarrow> inv s' \<and>
      (case x of Ok n \<Rightarrow> view s' = view_enqueue u n (view s) | Err e \<Rightarrow> view s' = view s)"
    and complete: "inv s \<Longrightarrow> ss_complete_outgoing_sync S s r n = (s', z) \<Longrightarrow> inv s' \<and>
      (case z of Ok _ \<Rightarrow> view s' = view_complete r n (view s) | Err e \<Rightarrow> view s' = view s)"
    and pending: "inv s \<Longrightarrow> ss_get_pending_outgoing_changes S s limit = (s', p) \<Longrightarrow> inv s' \<and> view s' = view s \<and>
      (\<forall>cs. p = Ok cs \<longrightarrow> cs = map (view_outgoing (view s)) (take limit (vw_queue (view s))))"
    and last_revision: "inv s \<Longrightarrow> ss_get_last_revision S s = (s', x) \<Longrightarrow> inv s' \<and> view s' = view s \<and>
      (\<forall>n. x = Ok n \<longrightarrow> n = vw_cursor (view s))"
    and insert_incoming: "inv s \<Longrightarrow> ss_insert_incoming_records S s rs = (s', z) \<Longrightarrow> inv s' \<and>
      (\<exists>k. view s' = view_receive (take k rs) (view s) \<and> (is_ok z \<longrightarrow> k = length rs))"
    and delete_incoming: "inv s \<Longrightarrow> ss_delete_incoming_record S s r = (s', z) \<Longrightarrow> inv s' \<and>
      (case z of Ok _ \<Rightarrow> view s' = view_discard r (view s) | Err e \<Rightarrow> view s' = view s)"
    and incoming: "inv s \<Longrightarrow> ss_get_incoming_records S s limit = (s', i) \<Longrightarrow> inv s' \<and> view s' = view s \<and>
      (\<forall>is. i = Ok is \<longrightarrow> (\<exists>rs. lists_waiting (view s) rs \<and> is = map (view_incoming (view s)) (take limit rs)))"
    and latest: "inv s \<Longrightarrow> ss_get_latest_outgoing_change S s = (s', l) \<Longrightarrow> inv s' \<and> view s' = view s \<and>
      (\<forall>c. l = Ok c \<longrightarrow> c = (if vw_queue (view s) = [] then None
                                else Some (view_outgoing (view s) (last (vw_queue (view s))))))"
    and update_record: "inv s \<Longrightarrow> ss_update_record_from_incoming S s r = (s', z) \<Longrightarrow> inv s' \<and>
      (case z of Ok _ \<Rightarrow> view s' = view_learn r (view s) | Err e \<Rightarrow> view s' = view s)"
begin

text \<open>A change that was just queued is the one a restart replays.\<close>

lemma add_then_latest:
  assumes "inv s" and "ss_add_outgoing_change S s u = (s1, Ok n)" and "ss_get_latest_outgoing_change S s1 = (s2, Ok l)"
  shows "\<exists>c. l = Some c \<and> rc_id (oc_change c) = ur_id u \<and> rc_fields (oc_change c) = ur_fields u
           \<and> rc_local_revision (oc_change c) = n \<and> oc_parent c = vw_known (view s) (ur_id u)"
  using add [OF assms(1,2)] latest [of s1 s2 "Ok l"] assms(3) by (auto simp: view_enqueue_def view_outgoing_def)

text \<open>Only completing a push and learning an incoming record move the cursor, and both only forward.\<close>

lemma step_forward:
  assumes "storage_step S s s'" and "inv s"
  shows "inv s' \<and> vw_cursor (view s) \<le> vw_cursor (view s')"
  using assms(1)
proof cases
  case (st_add u x)
  with add [OF assms(2) st_add] show ?thesis by (cases x) (simp_all add: view_enqueue_def)
next
  case (st_complete r n z)
  with complete [OF assms(2) st_complete] show ?thesis by (cases z) (simp_all add: view_complete_def view_learn_def)
next
  case (st_insert rs z)
  with insert_incoming [OF assms(2) st_insert] show ?thesis by (auto simp: view_receive_def)
next
  case (st_delete r z)
  with delete_incoming [OF assms(2) st_delete] show ?thesis by (cases z) (simp_all add: view_discard_def)
next
  case (st_update r z)
  with update_record [OF assms(2) st_update] show ?thesis by (cases z) (simp_all add: view_learn_def)
next
  case (st_pending limit p)
  with pending [OF assms(2) st_pending] show ?thesis by simp
next
  case (st_last x)
  with last_revision [OF assms(2) st_last] show ?thesis by simp
next
  case (st_incoming limit i)
  with incoming [OF assms(2) st_incoming] show ?thesis by simp
next
  case (st_latest l)
  with latest [OF assms(2) st_latest] show ?thesis by simp
qed

lemma steps_forward:
  "(storage_step S)\<^sup>*\<^sup>* s s' \<Longrightarrow> inv s \<Longrightarrow> inv s' \<and> vw_cursor (view s) \<le> vw_cursor (view s')"
  by (induction rule: rtranclp_induct) (auto dest: step_forward)

end

section \<open>The tables refine the machine\<close>

definition db_view :: "SyncDb \<Rightarrow> SyncView" where
  "db_view db = \<lparr>vw_queue = sync_outgoing db, vw_waiting = hm_get (sync_incoming db),
     vw_known = hm_get (sync_state db), vw_cursor = sync_revision db\<rparr>"

definition db_inv :: "SyncDb \<Rightarrow> bool" where
  "db_inv db \<longleftrightarrow> view_ok (db_view db) \<and> hm_ok (sync_incoming db) \<and> hm_ok (sync_state db)"

lemma db_view_connections [simp]: "db_view (db\<lparr>connections := cs\<rparr>) = db_view db"
  by (simp add: db_view_def)

lemma db_inv_connections [simp]: "db_inv (db\<lparr>connections := cs\<rparr>) = db_inv db"
  by (simp add: db_inv_def)

lemma select_incoming_connections [simp]: "select_incoming limit (db\<lparr>connections := cs\<rparr>) = select_incoming limit db"
  by (simp add: select_incoming_def with_old_row_def)

lemma with_connection_cases:
  assumes "with_connection f db = (db', x)"
  obtains (connected) cs where "f (db\<lparr>connections := cs\<rparr>) = (db', x)"
  | (failed) cs where "db' = db\<lparr>connections := cs\<rparr>" "x = Err (SyImplementation ''connection'')"
proof (cases "connections db")
  case Nil
  then have "db\<lparr>connections := []\<rparr> = db" by (cases db) simp
  moreover have "f db = (db', x)" using Nil assms by (simp add: with_connection_def connect_def)
  ultimately show ?thesis by (intro connected [of "[]"]) simp
next
  case (Cons c cs)
  with assms show ?thesis
    by (cases c) (auto simp: with_connection_def connect_def intro: connected failed)
qed

subsection \<open>The abstract operations keep the view well-formed\<close>

lemma view_ok_learn: "view_ok v \<Longrightarrow> view_ok (view_learn r v)"
  by (fastforce simp: view_ok_def view_learn_def)

lemma view_ok_complete: "view_ok v \<Longrightarrow> view_ok (view_complete r n v)"
  unfolding view_complete_def
  by (rule view_ok_learn) (auto simp: view_ok_def sorted_wrt_map sorted_wrt_filter)

lemma view_ok_discard: "view_ok v \<Longrightarrow> view_ok (view_discard r v)"
  by (auto simp: view_ok_def view_discard_def)

lemma find_in: "find P xs = Some x \<Longrightarrow> P x \<and> x \<in> set xs"
  by (induction xs) (auto split: if_splits)

lemma find_append: "find P (xs @ ys) = (case find P xs of None \<Rightarrow> find P ys | Some x \<Rightarrow> Some x)"
  by (induction xs) auto

lemma view_ok_receive: "view_ok v \<Longrightarrow> view_ok (view_receive rs v)"
  by (fastforce simp: view_ok_def view_receive_def dest: find_in split: option.splits)

lemma view_ok_enqueue:
  "view_ok v \<Longrightarrow> (\<And>c. c \<in> set (vw_queue v) \<Longrightarrow> rc_local_revision c < n) \<Longrightarrow> 0 < n \<Longrightarrow> view_ok (view_enqueue u n v)"
  by (auto simp: view_ok_def view_enqueue_def sorted_wrt_append)

lemma view_receive_Nil [simp]: "view_receive [] v = v"
  by (simp add: view_receive_def)

lemma view_receive_no_row: "\<exists>k. v = view_receive (take k rs) v"
  by (rule exI [of _ 0]) simp

lemma view_receive_Cons: "view_receive (r # rs) v = view_receive rs (view_receive [r] v)"
proof -
  have "(case find (\<lambda>r. record_key r = k) (rev (r # rs)) of Some r \<Rightarrow> Some r | None \<Rightarrow> vw_waiting v k)
      = (case find (\<lambda>r. record_key r = k) (rev rs) of Some r \<Rightarrow> Some r | None \<Rightarrow> vw_waiting (view_receive [r] v) k)" for k
    by (cases "find (\<lambda>r. record_key r = k) (rev rs)") (auto simp: find_append view_receive_def)
  then show ?thesis unfolding view_receive_def by simp
qed

subsection \<open>Statements against the view\<close>

lemma foldr_max_ge: "x \<in> set xs \<Longrightarrow> x \<le> foldr max xs 0" for xs :: "nat list"
  by (induction xs) auto

lemma next_queue_id_greater: "c \<in> set (sync_outgoing db) \<Longrightarrow> rc_local_revision c < next_queue_id db"
  using foldr_max_ge [of "rc_local_revision c" "map rc_local_revision (sync_outgoing db)"]
  by (simp add: next_queue_id_def)

lemma sort_key_sorted: "sorted (map f xs) \<Longrightarrow> sort_key f xs = xs"
  by (induction xs) (auto intro: insort_is_Cons)

lemma queue_sorted: "db_inv db \<Longrightarrow> sort_key rc_local_revision (sync_outgoing db) = sync_outgoing db"
  by (rule sort_key_sorted)
    (simp add: db_inv_def view_ok_def db_view_def strict_sorted_imp_sorted)

lemma statement_views:
  "db_view (upsert_state r db) = (db_view db)\<lparr>vw_known := (vw_known (db_view db))(rec_id r \<mapsto> r)\<rparr>"
  "db_view (raise_cursor n db) = (db_view db)\<lparr>vw_cursor := max (vw_cursor (db_view db)) n\<rparr>"
  "db_view (delete_outgoing i n db) = (db_view db)\<lparr>vw_queue :=
     filter (\<lambda>c. \<not> (rc_id c = i \<and> rc_local_revision c = n)) (vw_queue (db_view db))\<rparr>"
  "db_view (insert_outgoing c db) = (db_view db)\<lparr>vw_queue := vw_queue (db_view db) @ [c]\<rparr>"
  "db_view (upsert_incoming r db) = view_receive [r] (db_view db)"
  "db_view (Sync_Storage.delete_incoming r db) = view_discard r (db_view db)"
  by (auto simp: db_view_def upsert_state_def raise_cursor_def delete_outgoing_def insert_outgoing_def
      upsert_incoming_def Sync_Storage.delete_incoming_def view_receive_def view_discard_def)

lemma statement_maps:
  "sync_incoming (upsert_state r db) = sync_incoming db" "sync_state (upsert_state r db) = hm_insert (rec_id r) r (sync_state db)"
  "sync_incoming (raise_cursor n db) = sync_incoming db" "sync_state (raise_cursor n db) = sync_state db"
  "sync_incoming (delete_outgoing i n db) = sync_incoming db" "sync_state (delete_outgoing i n db) = sync_state db"
  "sync_incoming (insert_outgoing c db) = sync_incoming db" "sync_state (insert_outgoing c db) = sync_state db"
  "sync_incoming (upsert_incoming r db) = hm_insert (record_key r) r (sync_incoming db)"
  "sync_state (upsert_incoming r db) = sync_state db"
  "sync_incoming (Sync_Storage.delete_incoming r db) = hm_remove (record_key r) (sync_incoming db)"
  "sync_state (Sync_Storage.delete_incoming r db) = sync_state db"
  by (simp_all add: upsert_state_def raise_cursor_def delete_outgoing_def insert_outgoing_def
      upsert_incoming_def Sync_Storage.delete_incoming_def)

lemma learn_statements:
  assumes "db_inv db"
  shows "db_view (raise_cursor (rec_revision r) (upsert_state r db)) = view_learn r (db_view db)
       \<and> db_inv (raise_cursor (rec_revision r) (upsert_state r db))"
proof -
  have v: "db_view (raise_cursor (rec_revision r) (upsert_state r db)) = view_learn r (db_view db)"
    by (simp add: statement_views view_learn_def)
  with assms show ?thesis by (simp add: db_inv_def statement_maps view_ok_learn)
qed

lemma complete_statements:
  assumes "db_inv db"
  shows "db_view (raise_cursor (rec_revision r) (upsert_state r (delete_outgoing (rec_id r) n db))) =
           view_complete r n (db_view db)
       \<and> db_inv (raise_cursor (rec_revision r) (upsert_state r (delete_outgoing (rec_id r) n db)))"
proof -
  have v: "db_view (raise_cursor (rec_revision r) (upsert_state r (delete_outgoing (rec_id r) n db))) =
      view_complete r n (db_view db)"
    by (simp add: statement_views view_learn_def view_complete_def)
  with assms show ?thesis by (simp add: db_inv_def statement_maps view_ok_complete)
qed

lemma discard_statement:
  assumes "db_inv db"
  shows "db_inv (Sync_Storage.delete_incoming r db)"
  using assms by (simp add: db_inv_def statement_maps statement_views view_ok_discard)

lemma upsert_incoming_inv: "db_inv db \<Longrightarrow> db_inv (upsert_incoming r db)"
  by (simp add: db_inv_def statement_maps statement_views view_ok_receive)

lemma upsert_all_incoming:
  "db_inv db \<Longrightarrow> db_inv (foldl (\<lambda>d r. upsert_incoming r d) db rs)
     \<and> db_view (foldl (\<lambda>d r. upsert_incoming r d) db rs) = view_receive rs (db_view db)"
proof (induction rs arbitrary: db)
  case (Cons r rs)
  then show ?case
    using upsert_incoming_inv [of db r] by (simp add: statement_views view_receive_Cons [of r rs])
qed simp

lemma enqueue_statement:
  assumes "db_inv db" and "n = next_queue_id db"
  shows "db_view (insert_outgoing \<lparr>rc_id = ur_id u, rc_schema = ur_schema u, rc_fields = ur_fields u,
           rc_local_revision = n\<rparr> db) = view_enqueue u n (db_view db)
       \<and> db_inv (insert_outgoing \<lparr>rc_id = ur_id u, rc_schema = ur_schema u, rc_fields = ur_fields u,
           rc_local_revision = n\<rparr> db)"
proof -
  have v: "db_view (insert_outgoing \<lparr>rc_id = ur_id u, rc_schema = ur_schema u, rc_fields = ur_fields u,
      rc_local_revision = n\<rparr> db) = view_enqueue u n (db_view db)"
    by (simp add: statement_views view_enqueue_def)
  have "rc_local_revision c < n" if "c \<in> set (vw_queue (db_view db))" for c
    using that next_queue_id_greater assms(2) by (simp add: db_view_def)
  moreover have "0 < n" by (simp add: assms(2) next_queue_id_def)
  ultimately show ?thesis using assms(1) v by (simp add: db_inv_def statement_maps view_ok_enqueue)
qed

lemma select_outgoing_view:
  "db_inv db \<Longrightarrow> select_outgoing limit db = map (view_outgoing (db_view db)) (take limit (vw_queue (db_view db)))"
  by (simp add: select_outgoing_def queue_sorted, simp add: db_view_def with_parent_row_def view_outgoing_def)

lemma select_latest_view:
  "db_inv db \<Longrightarrow> select_latest_outgoing db = (if vw_queue (db_view db) = [] then None
     else Some (view_outgoing (db_view db) (last (vw_queue (db_view db)))))"
  unfolding select_latest_outgoing_def using queue_sorted [of db]
  by (cases "sync_outgoing db" rule: rev_cases) (auto simp: db_view_def with_parent_row_def view_outgoing_def)

lemma values_listed:
  assumes "db_inv db"
  shows "lists_waiting (db_view db) (sort_key rec_revision (hm_values (sync_incoming db)))"
proof -
  let ?vs = "hm_values (sync_incoming db)"
  have ok: "hm_ok (sync_incoming db)" and key: "\<And>k r. hm_get (sync_incoming db) k = Some r \<Longrightarrow> record_key r = k"
    using assms by (auto simp: db_inv_def view_ok_def db_view_def)
  have "map record_key ?vs = hm_keys (sync_incoming db)"
    using key hm_in_set [OF ok] by (auto simp: hm_values_def hm_keys_def)
  then have d: "distinct (map record_key ?vs)" using ok by (simp add: hm_ok_def hm_keys_def)
  have "mset (map record_key (sort_key rec_revision ?vs)) = mset (map record_key ?vs)"
    by (simp only: mset_map mset_sort)
  then have "distinct (map record_key (sort_key rec_revision ?vs))"
    using d mset_eq_imp_distinct_iff by blast
  moreover have "sorted (map rec_revision (sort_key rec_revision ?vs))" by simp
  moreover have "hm_get (sync_incoming db) k = Some r \<longleftrightarrow> r \<in> set ?vs \<and> record_key r = k" for k r
    using hm_values_iff [OF ok, of r] key [of _ r] by blast
  ultimately show ?thesis unfolding lists_waiting_def by (simp add: db_view_def)
qed

lemma select_incoming_view:
  assumes "db_inv db"
  shows "\<exists>rs. lists_waiting (db_view db) rs \<and> select_incoming limit db = map (view_incoming (db_view db)) (take limit rs)"
  using values_listed [OF assms]
  by (intro exI [of _ "sort_key rec_revision (hm_values (sync_incoming db))"])
    (simp add: select_incoming_def with_old_row_def view_incoming_def db_view_def)

lemmas statement_facts = learn_statements complete_statements discard_statement upsert_all_incoming
  select_outgoing_view select_latest_view select_incoming_view

lemmas sqlite_defs = sqlite_storage_def sqlite_add_outgoing_change_def sqlite_complete_outgoing_sync_def
  sqlite_get_pending_outgoing_changes_def sqlite_get_last_revision_def sqlite_insert_incoming_records_def
  sqlite_delete_incoming_record_def sqlite_get_incoming_records_def sqlite_get_latest_outgoing_change_def
  sqlite_update_record_from_incoming_def

interpretation sqlite: sync_storage sqlite_storage db_view db_inv
proof
  show "view_ok (db_view s)" if "db_inv s" for s
    using that by (simp add: db_inv_def)
  show "db_inv s' \<and> (case x of Ok n \<Rightarrow> db_view s' = view_enqueue u n (db_view s) | Err e \<Rightarrow> db_view s' = db_view s)"
    if "db_inv s" "ss_add_outgoing_change sqlite_storage s u = (s', x)" for s u s' x
    using that by (auto simp: sqlite_defs Let_def enqueue_statement split: if_splits elim!: with_connection_cases)
  show "db_inv s' \<and> (case z of Ok _ \<Rightarrow> db_view s' = view_complete r n (db_view s) | Err e \<Rightarrow> db_view s' = db_view s)"
    if "db_inv s" "ss_complete_outgoing_sync sqlite_storage s r n = (s', z)" for s r n s' z
    using that by (auto simp: sqlite_defs complete_statements split: if_splits elim!: with_connection_cases)
  show "db_inv s' \<and> db_view s' = db_view s \<and>
      (\<forall>cs. p = Ok cs \<longrightarrow> cs = map (view_outgoing (db_view s)) (take limit (vw_queue (db_view s))))"
    if "db_inv s" "ss_get_pending_outgoing_changes sqlite_storage s limit = (s', p)" for s limit s' p
    using that by (auto simp: sqlite_defs select_outgoing_view elim!: with_connection_cases)
  show "db_inv s' \<and> db_view s' = db_view s \<and> (\<forall>n. x = Ok n \<longrightarrow> n = vw_cursor (db_view s))"
    if "db_inv s" "ss_get_last_revision sqlite_storage s = (s', x)" for s s' x
    using that by (auto simp: sqlite_defs elim!: with_connection_cases) (simp add: db_view_def)
  show "db_inv s' \<and> (\<exists>k. db_view s' = view_receive (take k rs) (db_view s) \<and> (is_ok z \<longrightarrow> k = length rs))"
    if "db_inv s" "ss_insert_incoming_records sqlite_storage s rs = (s', z)" for s rs s' z
    using that by (auto simp: sqlite_defs upsert_all_incoming view_receive_no_row intro: exI [of _ "length rs"]
        split: if_splits elim!: with_connection_cases)
  show "db_inv s' \<and> (case z of Ok _ \<Rightarrow> db_view s' = view_discard r (db_view s) | Err e \<Rightarrow> db_view s' = db_view s)"
    if "db_inv s" "ss_delete_incoming_record sqlite_storage s r = (s', z)" for s r s' z
    using that by (auto simp: sqlite_defs discard_statement statement_views split: if_splits elim!: with_connection_cases)
  show "db_inv s' \<and> db_view s' = db_view s \<and>
      (\<forall>is. i = Ok is \<longrightarrow> (\<exists>rs. lists_waiting (db_view s) rs \<and> is = map (view_incoming (db_view s)) (take limit rs)))"
    if "db_inv s" "ss_get_incoming_records sqlite_storage s limit = (s', i)" for s limit s' i
    using that by (auto simp: sqlite_defs select_incoming_view elim!: with_connection_cases)
  show "db_inv s' \<and> db_view s' = db_view s \<and>
      (\<forall>c. l = Ok c \<longrightarrow> c = (if vw_queue (db_view s) = [] then None
         else Some (view_outgoing (db_view s) (last (vw_queue (db_view s))))))"
    if "db_inv s" "ss_get_latest_outgoing_change sqlite_storage s = (s', l)" for s s' l
    using that by (auto simp: sqlite_defs select_latest_view elim!: with_connection_cases)
  show "db_inv s' \<and> (case z of Ok _ \<Rightarrow> db_view s' = view_learn r (db_view s) | Err e \<Rightarrow> db_view s' = db_view s)"
    if "db_inv s" "ss_update_record_from_incoming sqlite_storage s r = (s', z)" for s r s' z
    using that by (auto simp: sqlite_defs learn_statements split: if_splits elim!: with_connection_cases)
qed

subsection \<open>PostgreSQL against SQLite\<close>

lemmas postgres_defs = postgres_storage_def postgres_add_outgoing_change_def postgres_complete_outgoing_sync_def
  postgres_get_pending_outgoing_changes_def postgres_get_last_revision_def postgres_insert_incoming_records_def
  postgres_delete_incoming_record_def postgres_get_incoming_records_def postgres_get_latest_outgoing_change_def
  postgres_update_record_from_incoming_def

lemma postgres_same_operations:
  "postgres_storage\<lparr>ss_insert_incoming_records := sqlite_insert_incoming_records\<rparr> = sqlite_storage"
proof -
  have "postgres_complete_outgoing_sync = sqlite_complete_outgoing_sync"
  proof (intro ext)
    fix db r n
    show "postgres_complete_outgoing_sync db r n = sqlite_complete_outgoing_sync db r n"
      by (cases "fits_i64 n"; cases "fits_i64 (rec_revision r)")
        (simp_all add: postgres_complete_outgoing_sync_def sqlite_complete_outgoing_sync_def)
  qed
  moreover have "postgres_add_outgoing_change = sqlite_add_outgoing_change"
    by (intro ext) (simp add: postgres_add_outgoing_change_def sqlite_add_outgoing_change_def Let_def)
  ultimately show ?thesis
    by (simp add: postgres_storage_def sqlite_storage_def fun_eq_iff
        postgres_get_pending_outgoing_changes_def sqlite_get_pending_outgoing_changes_def
        postgres_get_last_revision_def sqlite_get_last_revision_def
        postgres_delete_incoming_record_def sqlite_delete_incoming_record_def
        postgres_get_incoming_records_def sqlite_get_incoming_records_def
        postgres_get_latest_outgoing_change_def sqlite_get_latest_outgoing_change_def
        postgres_update_record_from_incoming_def sqlite_update_record_from_incoming_def)
qed

lemma postgres_insert_rows_view:
  "db_inv db \<Longrightarrow> postgres_insert_rows db rs = (db', z) \<Longrightarrow>
     db_inv db' \<and> (\<exists>k. db_view db' = view_receive (take k rs) (db_view db) \<and> (is_ok z \<longrightarrow> k = length rs))"
proof (induction db rs rule: postgres_insert_rows.induct)
  case (1 db)
  then show ?case by (auto intro: exI [of _ 0])
next
  case (2 db r rs)
  obtain d ok where c: "connect db = (d, ok)" by fastforce
  then have d: "db_inv d" "db_view d = db_view db"
    using 2(2) by (auto simp: connect_def split: list.splits)
  show ?case
  proof (cases "fits_i64 (rec_revision r) \<and> ok")
    case True
    with 2(1) [OF _ c [symmetric]] 2(3) c d(1) obtain k where
      "db_inv db'" "db_view db' = view_receive (take k rs) (view_receive [r] (db_view db))" "is_ok z \<longrightarrow> k = length rs"
      by (auto simp: upsert_incoming_inv statement_views d(2))
    then show ?thesis by (intro conjI exI [of _ "Suc k"]) (simp_all add: view_receive_Cons [of r "take k rs"])
  next
    case False
    with 2(2,3) c d show ?thesis by (auto simp: view_receive_no_row split: if_splits)
  qed
qed

lemma postgres_insert_connection:
  "db_inv db \<Longrightarrow> postgres_insert_rows (db\<lparr>connections := cs\<rparr>) rs = (db', z) \<Longrightarrow>
     db_inv db' \<and> (\<exists>k. db_view db' = view_receive (take k rs) (db_view db) \<and> (is_ok z \<longrightarrow> k = length rs))"
  using postgres_insert_rows_view [of "db\<lparr>connections := cs\<rparr>"] by simp

lemma postgres_insert_rows_connected:
  "connections db = [] \<Longrightarrow> list_all (\<lambda>r. fits_i64 (rec_revision r)) rs \<Longrightarrow>
     postgres_insert_rows db rs = (foldl (\<lambda>d r. upsert_incoming r d) db rs, Ok ())"
  by (induction db rs rule: postgres_insert_rows.induct) (simp_all add: connect_def upsert_incoming_def)

lemma postgres_insert_view:
  assumes "db_inv db" and "postgres_insert_incoming_records db rs = (db', z)"
  shows "db_inv db' \<and> (\<exists>k. db_view db' = view_receive (take k rs) (db_view db) \<and> (is_ok z \<longrightarrow> k = length rs))"
proof (cases "rs = []")
  case True
  with assms show ?thesis by (simp add: postgres_insert_incoming_records_def)
next
  case False
  with assms(2) have "with_connection (\<lambda>db. postgres_insert_rows db rs) db = (db', z)"
    by (simp add: postgres_insert_incoming_records_def)
  then show ?thesis
  proof (cases rule: with_connection_cases)
    case (connected cs)
    with postgres_insert_connection assms(1) show ?thesis by blast
  next
    case (failed cs)
    with assms(1) show ?thesis by (simp add: view_receive_no_row)
  qed
qed

lemma postgres_from_sqlite:
  "postgres_storage = sqlite_storage\<lparr>ss_insert_incoming_records := postgres_insert_incoming_records\<rparr>"
proof -
  have "postgres_storage = postgres_storage\<lparr>ss_insert_incoming_records := sqlite_insert_incoming_records,
      ss_insert_incoming_records := postgres_insert_incoming_records\<rparr>" by (simp add: postgres_storage_def)
  then show ?thesis by (simp only: postgres_same_operations)
qed

interpretation postgres: sync_storage postgres_storage db_view db_inv
  unfolding postgres_from_sqlite
proof (unfold_locales, goal_cases)
  case (1 s)
  then show ?case by (rule sqlite.inv_view)
next
  case (2 s u s' x)
  then show ?case using sqlite.add [OF 2(1), of u] by simp
next
  case (3 s r n s' z)
  then show ?case using sqlite.complete [OF 3(1), of r n] by simp
next
  case (4 s limit s' p)
  then show ?case using sqlite.pending [OF 4(1), of limit] by simp
next
  case (5 s s' x)
  then show ?case using sqlite.last_revision [OF 5(1)] by simp
next
  case (6 s rs s' z)
  then show ?case using postgres_insert_view [OF 6(1), of rs] by simp
next
  case (7 s r s' z)
  then show ?case using sqlite.delete_incoming [OF 7(1), of r] by simp
next
  case (8 s limit s' i)
  then show ?case using sqlite.incoming [OF 8(1), of limit] by simp
next
  case (9 s s' l)
  then show ?case using sqlite.latest [OF 9(1)] by simp
next
  case (10 s r s' z)
  then show ?case using sqlite.update_record [OF 10(1), of r] by simp
qed

section \<open>Properties\<close>

text \<open>C12. The two databases behave alike: every operation of the PostgreSQL storage is the operation of the SQLite
  storage, except that it inserts incoming records without a transaction; that agrees too when no connection is
  lost and the revisions fit, and otherwise it stores a prefix of them.\<close>

theorem sync_backends_agree:
  "postgres_storage\<lparr>ss_insert_incoming_records := sqlite_insert_incoming_records\<rparr> = sqlite_storage
   \<and> (connections db = [] \<longrightarrow> list_all (\<lambda>r. fits_i64 (rec_revision r)) rs \<longrightarrow>
        postgres_insert_incoming_records db rs = sqlite_insert_incoming_records db rs)
   \<and> (db_inv db \<longrightarrow> (\<exists>k. db_view (fst (postgres_insert_incoming_records db rs)) = view_receive (take k rs) (db_view db)))"
proof (intro conjI impI)
  show "postgres_storage\<lparr>ss_insert_incoming_records := sqlite_insert_incoming_records\<rparr> = sqlite_storage"
    by (rule postgres_same_operations)
next
  assume "connections db = []" "list_all (\<lambda>r. fits_i64 (rec_revision r)) rs"
  then show "postgres_insert_incoming_records db rs = sqlite_insert_incoming_records db rs"
    by (simp add: postgres_insert_incoming_records_def sqlite_insert_incoming_records_def with_connection_def
        connect_def postgres_insert_rows_connected)
next
  assume "db_inv db"
  moreover obtain db' z where "postgres_insert_incoming_records db rs = (db', z)" by fastforce
  ultimately show "\<exists>k. db_view (fst (postgres_insert_incoming_records db rs)) = view_receive (take k rs) (db_view db)"
    using postgres_insert_view [of db rs db' z] by auto
qed

definition sample_record :: "string \<Rightarrow> u64 \<Rightarrow> stored_record" where
  "sample_record i n = \<lparr>rec_id = \<lparr>rid_type = ''Contact'', rid_data_id = i\<rparr>, rec_revision = n, rec_schema = ''1.0.0'',
     rec_data = [(''name'', i)]\<rparr>"

theorem sync_backends_agree_witness:
  "postgres_insert_incoming_records (empty_db []) [sample_record ''a'' 6, sample_record ''b'' 7]
   = sqlite_insert_incoming_records (empty_db []) [sample_record ''a'' 6, sample_record ''b'' 7]"
  using sync_backends_agree [of "empty_db []" "[sample_record ''a'' 6, sample_record ''b'' 7]"]
  by (simp add: empty_db_def sample_record_def fits_i64_def)

text \<open>C11. The SQLite storage refines the abstract machine of the sync protocol: from a well-formed database, each
  writing operation either fails and changes nothing that can be observed, or does exactly what the abstract
  operation does, and the database stays well-formed.\<close>

theorem sqlite_refines_machine:
  assumes "db_inv db"
  shows "(case sqlite_add_outgoing_change db u of (d, x) \<Rightarrow> db_inv d \<and>
            (case x of Ok n \<Rightarrow> db_view d = view_enqueue u n (db_view db) | Err e \<Rightarrow> db_view d = db_view db))
       \<and> (case sqlite_complete_outgoing_sync db r m of (d, x) \<Rightarrow> db_inv d \<and>
            (case x of Ok _ \<Rightarrow> db_view d = view_complete r m (db_view db) | Err e \<Rightarrow> db_view d = db_view db))
       \<and> (case sqlite_insert_incoming_records db rs of (d, x) \<Rightarrow> db_inv d \<and>
            (case x of Ok _ \<Rightarrow> db_view d = view_receive rs (db_view db) | Err e \<Rightarrow> db_view d = db_view db))
       \<and> (case sqlite_delete_incoming_record db r of (d, x) \<Rightarrow> db_inv d \<and>
            (case x of Ok _ \<Rightarrow> db_view d = view_discard r (db_view db) | Err e \<Rightarrow> db_view d = db_view db))
       \<and> (case sqlite_update_record_from_incoming db r of (d, x) \<Rightarrow> db_inv d \<and>
            (case x of Ok _ \<Rightarrow> db_view d = view_learn r (db_view db) | Err e \<Rightarrow> db_view d = db_view db))"
proof -
  obtain d x where i: "sqlite_insert_incoming_records db rs = (d, x)" by fastforce
  then have "db_inv d \<and> (case x of Ok _ \<Rightarrow> db_view d = view_receive rs (db_view db) | Err e \<Rightarrow> db_view d = db_view db)"
    using assms by (auto simp: sqlite_insert_incoming_records_def upsert_all_incoming
        split: if_splits elim!: with_connection_cases)
  with i show ?thesis
    using sqlite.add [OF assms, of u] sqlite.complete [OF assms, of r m] sqlite.delete_incoming [OF assms, of r]
      sqlite.update_record [OF assms, of r]
    by (fastforce simp: sqlite_storage_def)
qed

lemma empty_db_inv: "db_inv (empty_db cs)"
  by (simp add: db_inv_def view_ok_def db_view_def empty_db_def)

theorem sqlite_refines_machine_witness:
  "db_inv (fst (sqlite_update_record_from_incoming (empty_db [False]) (sample_record ''a'' 6)))"
  using sqlite_refines_machine [OF empty_db_inv [of "[False]"], where r = "sample_record ''a'' 6"]
  by (simp add: case_prod_beta)

text \<open>The cursor only moves forward, and bounds what is known, in every database that any sequence of storage calls
  can produce, failing calls included: queue numbers are positive and strictly increasing, so completing a push
  removes at most the change that was pushed, and no state is newer than the cursor.\<close>

theorem sync_cursor_forward:
  assumes "(storage_step sqlite_storage)\<^sup>*\<^sup>* (empty_db cs) db" and "(storage_step sqlite_storage)\<^sup>*\<^sup>* db db'"
  shows "sync_revision db \<le> sync_revision db'
       \<and> sorted_wrt (<) (map rc_local_revision (sync_outgoing db'))
       \<and> (\<forall>i r. hm_get (sync_state db') i = Some r \<longrightarrow> rec_id r = i \<and> rec_revision r \<le> sync_revision db')"
proof -
  have "db_inv db" using sqlite.steps_forward [OF assms(1) empty_db_inv] by simp
  with sqlite.steps_forward [OF assms(2)] have "db_inv db'" "vw_cursor (db_view db) \<le> vw_cursor (db_view db')" by simp_all
  then show ?thesis by (auto simp: db_inv_def view_ok_def db_view_def)
qed

theorem sync_cursor_forward_witness:
  "sync_revision (empty_db []) \<le> sync_revision (fst (sqlite_update_record_from_incoming (empty_db []) (sample_record ''a'' 6)))"
proof -
  have "storage_step sqlite_storage (empty_db []) (fst (sqlite_update_record_from_incoming (empty_db []) (sample_record ''a'' 6)))"
    by (rule st_update [of _ _ "sample_record ''a'' 6" _ "snd (sqlite_update_record_from_incoming (empty_db []) (sample_record ''a'' 6))"])
      (simp add: sqlite_storage_def)
  with sync_cursor_forward [of "[]" "empty_db []"] show ?thesis by blast
qed

end
