(* ===== verification/Sync_Processor.thy ===== *)
theory Sync_Processor
  imports Sync_Storage
begin

text \<open>
  The sync processor: \<open>crates/breez-sdk/common/src/sync/background.rs\<close> and \<open>service.rs\<close>. Pulling fetches the records the
  server has changed, stores them, and hands each to the application; pushing sends the queued changes. The
  storage is any \<open>SyncStorage\<close>; the application's record handler, the JSON library and the server are arguments, the
  last as a state with a reply for every call.

  The lemmas on pulling and pushing are proved once, in the locale \<open>sync_storage\<close>, and hold for both databases.
\<close>

section \<open>Arguments and state\<close>

datatype RecordOutcome = RecordCompleted | RecordDeferred
datatype SetRecordStatus = SetRecordSuccess | SetRecordConflict

record SetRecordReply =
  reply_status :: SetRecordStatus
  new_revision :: u64

datatype SyncError = StorageFailed SyncStorageError | SyncMessage string

record ('s, 'v, 'a, 'n) SyncProcessor =
  sp_storage :: "'s SyncStorage"
  sp_json :: "'v json"
  on_incoming_change :: "'a \<Rightarrow> (SchemaVersion, 'v) IncomingChange \<Rightarrow> 'a \<times> (string + RecordOutcome)"
  on_replay_outgoing_change :: "'a \<Rightarrow> (SchemaVersion, 'v) OutgoingChange \<Rightarrow> 'a \<times> (string + unit)"
  set_record :: "'n \<Rightarrow> (SchemaVersion, 'v) Record \<Rightarrow> 'n \<times> (string + SetRecordReply)"
  list_changes :: "'n \<Rightarrow> u64 \<Rightarrow> 'n \<times> (string + (SchemaVersion, 'v) Record list)"

record ('s, 'a, 'n) SyncState =
  sy_storage :: 's
  sy_app :: 'a
  sy_server :: 'n

definition U32_MAX :: u32 where "U32_MAX = 2 ^ 32 - 1"

section \<open>Queueing a change\<close>

definition set_outgoing_record ::
  "'s SyncStorage \<Rightarrow> 'v json \<Rightarrow> 's \<Rightarrow> (SchemaVersion, 'v) UnversionedRecordChange \<Rightarrow> 's \<times> (SyncError + RecordId)" where
  "set_outgoing_record S js s u =
     (case unversioned_to_storage js u of
        Err e \<Rightarrow> (s, Err (StorageFailed e))
      | Ok stored \<Rightarrow>
          (case ss_add_outgoing_change S s stored of
             (s', Err e) \<Rightarrow> (s', Err (StorageFailed e))
           | (s', Ok n) \<Rightarrow> (s', Ok (ur_id u))))"

definition ensure_outgoing_record_committed ::
  "('s, 'v, 'a, 'n) SyncProcessor \<Rightarrow> ('s, 'a, 'n) SyncState \<Rightarrow> ('s, 'a, 'n) SyncState \<times> (SyncError + unit)" where
  "ensure_outgoing_record_committed P st =
     (case ss_get_latest_outgoing_change (sp_storage P) (sy_storage st) of
        (s, Err e) \<Rightarrow> (st\<lparr>sy_storage := s\<rparr>, Err (StorageFailed e))
      | (s, Ok None) \<Rightarrow> (st\<lparr>sy_storage := s\<rparr>, Ok ())
      | (s, Ok (Some stored)) \<Rightarrow>
          (case outgoing_from_storage (sp_json P) stored of
             Err e \<Rightarrow> (st\<lparr>sy_storage := s\<rparr>, Err (StorageFailed e))
           | Ok change \<Rightarrow>
               (case on_replay_outgoing_change P (sy_app st) change of
                  (a, Err e) \<Rightarrow> (st\<lparr>sy_storage := s, sy_app := a\<rparr>, Err (SyncMessage e))
                | (a, Ok _) \<Rightarrow> (st\<lparr>sy_storage := s, sy_app := a\<rparr>, Ok ()))))"

section \<open>Pushing\<close>

definition push_sync_record ::
  "('s, 'v, 'a, 'n) SyncProcessor \<Rightarrow> (SchemaVersion, 'v) OutgoingChange \<Rightarrow> ('s, 'a, 'n) SyncState \<Rightarrow>
   ('s, 'a, 'n) SyncState \<times> (SyncError + unit)" where
  "push_sync_record P change st =
     (let record = merge_change change in
      case set_record P (sy_server st) record of
        (n, Err e) \<Rightarrow> (st\<lparr>sy_server := n\<rparr>, Err (SyncMessage e))
      | (n, Ok reply) \<Rightarrow>
          (case reply_status reply of
             SetRecordConflict \<Rightarrow>
               (st\<lparr>sy_server := n\<rparr>, Err (SyncMessage ''Conflict when trying to push outgoing change''))
           | SetRecordSuccess \<Rightarrow>
               (case record_to_storage (sp_json P) (record\<lparr>rec_revision := new_revision reply\<rparr>) of
                  Err e \<Rightarrow> (st\<lparr>sy_server := n\<rparr>, Err (StorageFailed e))
                | Ok stored \<Rightarrow>
                    (case ss_complete_outgoing_sync (sp_storage P) (sy_storage st) stored
                            (rc_local_revision (oc_change change)) of
                       (s, Err e) \<Rightarrow> (st\<lparr>sy_server := n, sy_storage := s\<rparr>, Err (StorageFailed e))
                     | (s, Ok _) \<Rightarrow> (st\<lparr>sy_server := n, sy_storage := s\<rparr>, Ok ())))))"

fun push_loop ::
  "('s, 'v, 'a, 'n) SyncProcessor \<Rightarrow> RecordId set \<Rightarrow> (string, string) OutgoingChange list \<Rightarrow> u32 \<Rightarrow>
   ('s, 'a, 'n) SyncState \<Rightarrow> ('s, 'a, 'n) SyncState \<times> (SyncError + u32)" where
  "push_loop P pending_ids [] pushed_count st = (st, Ok pushed_count)"
| "push_loop P pending_ids (c # cs) pushed_count st =
     (if rc_id (oc_change c) \<in> pending_ids then push_loop P pending_ids cs pushed_count st
      else case outgoing_from_storage (sp_json P) c of
             Err e \<Rightarrow> (st, Err (StorageFailed e))
           | Ok change \<Rightarrow>
               (case push_sync_record P change st of
                  (st', Err e) \<Rightarrow> (st', Err e)
                | (st', Ok _) \<Rightarrow> push_loop P pending_ids cs (sat_add 32 pushed_count 1) st'))"

definition push_sync_batch ::
  "('s, 'v, 'a, 'n) SyncProcessor \<Rightarrow> (string, string) OutgoingChange list \<Rightarrow> ('s, 'a, 'n) SyncState \<Rightarrow>
   ('s, 'a, 'n) SyncState \<times> (SyncError + u32)" where
  "push_sync_batch P changes st =
     (case ss_get_incoming_records (sp_storage P) (sy_storage st) U32_MAX of
        (s, Err e) \<Rightarrow> (st\<lparr>sy_storage := s\<rparr>, Err (StorageFailed e))
      | (s, Ok incoming) \<Rightarrow>
          push_loop P (set (map (\<lambda>i. rec_id (ic_new_state i)) incoming)) changes 0 (st\<lparr>sy_storage := s\<rparr>))"

definition push_sync_once ::
  "('s, 'v, 'a, 'n) SyncProcessor \<Rightarrow> ('s, 'a, 'n) SyncState \<Rightarrow>
   ('s, 'a, 'n) SyncState \<times> (SyncError + u32 option)" where
  "push_sync_once P st =
     (case ss_get_pending_outgoing_changes (sp_storage P) (sy_storage st) U32_MAX of
        (s, Err e) \<Rightarrow> (st\<lparr>sy_storage := s\<rparr>, Err (StorageFailed e))
      | (s, Ok changes) \<Rightarrow>
          if changes = [] then (st\<lparr>sy_storage := s\<rparr>, Ok None)
          else (case push_sync_batch P changes (st\<lparr>sy_storage := s\<rparr>) of
                  (st', Err e) \<Rightarrow> (st', Err e)
                | (st', Ok n) \<Rightarrow> (st', Ok (if n = 0 then None else Some n))))"

section \<open>Pulling\<close>

definition group_outgoing :: "(string, string) OutgoingChange list \<Rightarrow> (RecordId, stored_change list) hmap" where
  "group_outgoing os =
     map (\<lambda>(i, cs). (i, sort_key rc_local_revision cs))
       (foldl (\<lambda>m c. hm_insert (rc_id (oc_change c))
                       (unwrap_or (hm_get m (rc_id (oc_change c))) [] @ [oc_change c]) m) [] os)"

definition overlay_text :: "'v json \<Rightarrow> (string, string) hmap \<Rightarrow> (string, 'v) hmap \<Rightarrow> (string, 'v) hmap" where
  "overlay_text js fs m =
     foldl (\<lambda>d (k, t). case from_json js t of Ok v \<Rightarrow> hm_insert k v d | Err _ \<Rightarrow> d) m fs"

definition overlay_pending ::
  "'v json \<Rightarrow> stored_change list \<Rightarrow> (SchemaVersion, 'v) IncomingChange \<Rightarrow> (SchemaVersion, 'v) IncomingChange" where
  "overlay_pending js cs change =
     change\<lparr>ic_new_state := (ic_new_state change)\<lparr>rec_data :=
       foldl (\<lambda>d c. overlay_text js (rc_fields c) d) (rec_data (ic_new_state change)) cs\<rparr>\<rparr>"

definition first_time_seen :: "(string, string) IncomingChange \<Rightarrow> bool" where
  "first_time_seen i =
     (case ic_old_state i of None \<Rightarrow> True | Some old \<Rightarrow> rec_revision old < rec_revision (ic_new_state i))"

definition learn_incoming ::
  "'s SyncStorage \<Rightarrow> (string, string) IncomingChange \<Rightarrow> 's \<Rightarrow> 's \<times> (SyncStorageError + unit)" where
  "learn_incoming S i s =
     (if first_time_seen i then ss_update_record_from_incoming S s (ic_new_state i) else (s, Ok ()))"

fun pull_loop ::
  "('s, 'v, 'a, 'n) SyncProcessor \<Rightarrow> (RecordId, stored_change list) hmap \<Rightarrow> (string, string) IncomingChange list \<Rightarrow>
   u32 \<Rightarrow> ('s, 'a, 'n) SyncState \<Rightarrow> ('s, 'a, 'n) SyncState \<times> (SyncError + u32)" where
  "pull_loop P outgoing [] applied st = (st, Ok applied)"
| "pull_loop P outgoing (i # is) applied st =
     (case learn_incoming (sp_storage P) i (sy_storage st) of
        (s1, Err e) \<Rightarrow> (st\<lparr>sy_storage := s1\<rparr>, Err (StorageFailed e))
      | (s1, Ok _) \<Rightarrow>
          (case incoming_from_storage (sp_json P) i of
             Err e \<Rightarrow> (st\<lparr>sy_storage := s1\<rparr>, Err (StorageFailed e))
           | Ok change \<Rightarrow>
               (case on_incoming_change P (sy_app st)
                       (overlay_pending (sp_json P) (unwrap_or (hm_get outgoing (rec_id (ic_new_state i))) []) change) of
                  (a, Ok RecordCompleted) \<Rightarrow>
                    (case ss_delete_incoming_record (sp_storage P) s1 (ic_new_state i) of
                       (s2, Err e) \<Rightarrow> (st\<lparr>sy_storage := s2, sy_app := a\<rparr>, Err (StorageFailed e))
                     | (s2, Ok _) \<Rightarrow>
                         pull_loop P outgoing is (sat_add 32 applied 1) (st\<lparr>sy_storage := s2, sy_app := a\<rparr>))
                | (a, _) \<Rightarrow> pull_loop P outgoing is applied (st\<lparr>sy_storage := s1, sy_app := a\<rparr>))))"

definition pull_sync_once_local ::
  "('s, 'v, 'a, 'n) SyncProcessor \<Rightarrow> ('s, 'a, 'n) SyncState \<Rightarrow>
   ('s, 'a, 'n) SyncState \<times> (SyncError + u32)" where
  "pull_sync_once_local P st =
     (case ss_get_incoming_records (sp_storage P) (sy_storage st) U32_MAX of
        (s, Err e) \<Rightarrow> (st\<lparr>sy_storage := s\<rparr>, Err (StorageFailed e))
      | (s, Ok incoming) \<Rightarrow>
          if incoming = [] then (st\<lparr>sy_storage := s\<rparr>, Ok 0)
          else (case ss_get_pending_outgoing_changes (sp_storage P) s U32_MAX of
                  (s', Err e) \<Rightarrow> (st\<lparr>sy_storage := s'\<rparr>, Err (StorageFailed e))
                | (s', Ok pending) \<Rightarrow>
                    pull_loop P (group_outgoing pending) incoming 0 (st\<lparr>sy_storage := s'\<rparr>)))"

fun records_to_storage :: "'v json \<Rightarrow> (SchemaVersion, 'v) Record list \<Rightarrow> SyncStorageError + stored_record list" where
  "records_to_storage js [] = Ok []"
| "records_to_storage js (r # rs) =
     rbind (record_to_storage js r) (\<lambda>s. rbind (records_to_storage js rs) (\<lambda>ss. Ok (s # ss)))"

definition pull_sync_once ::
  "('s, 'v, 'a, 'n) SyncProcessor \<Rightarrow> ('s, 'a, 'n) SyncState \<Rightarrow>
   ('s, 'a, 'n) SyncState \<times> (SyncError + u32 option)" where
  "pull_sync_once P st =
     (case ss_get_last_revision (sp_storage P) (sy_storage st) of
        (s, Err e) \<Rightarrow> (st\<lparr>sy_storage := s\<rparr>, Err (StorageFailed e))
      | (s, Ok since_revision) \<Rightarrow>
          (case list_changes P (sy_server st) since_revision of
             (n, Err e) \<Rightarrow> (st\<lparr>sy_storage := s, sy_server := n\<rparr>, Err (SyncMessage e))
           | (n, Ok records) \<Rightarrow>
               (case records_to_storage (sp_json P) (sort_key rec_revision records) of
                  Err e \<Rightarrow> (st\<lparr>sy_storage := s, sy_server := n\<rparr>, Err (StorageFailed e))
                | Ok db_records \<Rightarrow>
                    (case (if records \<noteq> [] then ss_insert_incoming_records (sp_storage P) s db_records else (s, Ok ())) of
                       (s', Err e) \<Rightarrow> (st\<lparr>sy_storage := s', sy_server := n\<rparr>, Err (StorageFailed e))
                     | (s', Ok _) \<Rightarrow>
                         (case pull_sync_once_local P (st\<lparr>sy_storage := s', sy_server := n\<rparr>) of
                            (st', Err e) \<Rightarrow> (st', Err e)
                          | (st', Ok applied_count) \<Rightarrow> (st', Ok (Some applied_count)))))))"

section \<open>The loop\<close>

record BackoffHandle =
  bh_started_at :: system_time
  bh_duration :: duration

definition schedule_backoff :: "system_time \<Rightarrow> duration \<Rightarrow> BackoffHandle option \<Rightarrow> BackoffHandle option" where
  "schedule_backoff now d handle =
     (case handle of
        None \<Rightarrow> Some \<lparr>bh_started_at = now, bh_duration = d\<rparr>
      | Some existing \<Rightarrow>
          (let elapsed = sat_sub now (bh_started_at existing); remaining = sat_sub (bh_duration existing) elapsed
           in if remaining \<noteq> 0 \<and> remaining < d then Some existing
              else Some \<lparr>bh_started_at = now, bh_duration = d\<rparr>))"

text \<open>The loop with its timer, the notifications of failure and of completion. \<open>grow\<close> is the multiplication of a
  duration by one and a half, in floating point.\<close>

record ('s, 'a, 'n) SyncLoop =
  lp_state :: "('s, 'a, 'n) SyncState"
  lp_backoff :: "BackoffHandle option"
  lp_failures :: nat
  lp_completions :: "(u32 option \<times> u32 option) list"

definition sync_failed :: "('s, 'a, 'n) SyncLoop \<Rightarrow> ('s, 'a, 'n) SyncLoop" where
  "sync_failed lp = lp\<lparr>lp_failures := Suc (lp_failures lp)\<rparr>"

definition fail_and_schedule ::
  "system_time \<Rightarrow> duration \<Rightarrow> ('s, 'a, 'n) SyncLoop \<Rightarrow> ('s, 'a, 'n) SyncLoop" where
  "fail_and_schedule now d lp = (sync_failed lp)\<lparr>lp_backoff := schedule_backoff now d (lp_backoff lp)\<rparr>"

definition handle_pull ::
  "('s, 'v, 'a, 'n) SyncProcessor \<Rightarrow> ('s, 'a, 'n) SyncLoop \<Rightarrow> ('s, 'a, 'n) SyncLoop \<times> u32 option \<times> u32 option" where
  "handle_pull P lp =
     (case pull_sync_once P (lp_state lp) of
        (st, Ok applied_count) \<Rightarrow> (lp\<lparr>lp_state := st\<rparr>, applied_count, None)
      | (st, Err e) \<Rightarrow> (sync_failed (lp\<lparr>lp_state := st\<rparr>), None, None))"

definition handle_backoff ::
  "('s, 'v, 'a, 'n) SyncProcessor \<Rightarrow> (duration \<Rightarrow> duration) \<Rightarrow> system_time \<Rightarrow> duration \<Rightarrow> duration list \<Rightarrow>
   ('s, 'a, 'n) SyncLoop \<Rightarrow> ('s, 'a, 'n) SyncLoop \<times> u32 option \<times> u32 option" where
  "handle_backoff P grow now last_backoff queued lp =
     (let last = foldl min last_backoff queued in
      case pull_sync_once P (lp_state lp) of
        (st, Err e) \<Rightarrow> (fail_and_schedule now (grow last) (lp\<lparr>lp_state := st\<rparr>), None, None)
      | (st, Ok incoming_count) \<Rightarrow>
          (case push_sync_once P st of
             (st', Err e) \<Rightarrow> (fail_and_schedule now (grow last) (lp\<lparr>lp_state := st'\<rparr>), None, None)
           | (st', Ok outgoing_count) \<Rightarrow> (lp\<lparr>lp_state := st'\<rparr>, incoming_count, outgoing_count)))"

datatype RecvError = RecvClosed | RecvLagged u64

definition one_second :: duration where "one_second = 1000000000"

definition handle_push ::
  "('s, 'v, 'a, 'n) SyncProcessor \<Rightarrow> system_time \<Rightarrow> (RecvError + RecordId) \<Rightarrow> bool \<Rightarrow>
   ('s, 'a, 'n) SyncLoop \<Rightarrow> ('s, 'a, 'n) SyncLoop \<times> u32 option \<times> u32 option" where
  "handle_push P now result has_changed lp =
     (case result of
        Err e \<Rightarrow> (lp, None, None)
      | Ok record_id \<Rightarrow>
          (case (if has_changed then pull_sync_once P (lp_state lp) else (lp_state lp, Ok None)) of
             (st, Err e) \<Rightarrow> (fail_and_schedule now one_second (lp\<lparr>lp_state := st\<rparr>), None, None)
           | (st, Ok incoming_count) \<Rightarrow>
               (case push_sync_once P st of
                  (st', Err e) \<Rightarrow> (fail_and_schedule now one_second (lp\<lparr>lp_state := st'\<rparr>), None, None)
                | (st', Ok outgoing_count) \<Rightarrow> (lp\<lparr>lp_state := st'\<rparr>, incoming_count, outgoing_count))))"

datatype SyncLoopEvent =
    PullTriggered
  | BackoffFired duration "duration list"
  | PushTriggered "RecvError + RecordId" bool

definition sync_loop_turn ::
  "('s, 'v, 'a, 'n) SyncProcessor \<Rightarrow> (duration \<Rightarrow> duration) \<Rightarrow> system_time \<Rightarrow> SyncLoopEvent \<Rightarrow>
   ('s, 'a, 'n) SyncLoop \<Rightarrow> ('s, 'a, 'n) SyncLoop" where
  "sync_loop_turn P grow now event lp =
     (case (case event of
              PullTriggered \<Rightarrow> handle_pull P lp
            | BackoffFired d queued \<Rightarrow> handle_backoff P grow now d queued lp
            | PushTriggered result has_changed \<Rightarrow> handle_push P now result has_changed lp) of
        (lp', incoming_count, outgoing_count) \<Rightarrow>
          if incoming_count \<noteq> None \<or> outgoing_count \<noteq> None
          then lp'\<lparr>lp_completions := lp_completions lp' @ [(incoming_count, outgoing_count)]\<rparr> else lp')"

text \<open>Before the loop: the replay of the latest change, the records already fetched, and the first pull.\<close>

definition start_processor ::
  "('s, 'v, 'a, 'n) SyncProcessor \<Rightarrow> ('s, 'a, 'n) SyncState \<Rightarrow> ('s, 'a, 'n) SyncState \<times> (SyncError + unit)" where
  "start_processor P st =
     (case ensure_outgoing_record_committed P st of
        (st1, Err e) \<Rightarrow> (st1, Err e)
      | (st1, Ok _) \<Rightarrow> (fst (pull_sync_once_local P st1), Ok ()))"

definition sync_loop_init ::
  "('s, 'v, 'a, 'n) SyncProcessor \<Rightarrow> ('s, 'a, 'n) SyncState \<Rightarrow> ('s, 'a, 'n) SyncLoop" where
  "sync_loop_init P st =
     (let lp = \<lparr>lp_state = st, lp_backoff = None, lp_failures = 0, lp_completions = []\<rparr> in
      case pull_sync_once P st of
        (st', Ok applied_count) \<Rightarrow> lp\<lparr>lp_state := st', lp_completions := [(applied_count, None)]\<rparr>
      | (st', Err e) \<Rightarrow> sync_failed (lp\<lparr>lp_state := st'\<rparr>))"

section \<open>Calls that are observed\<close>

text \<open>The handler and the server as they are, with a log of what they were given.\<close>

definition logged_handler ::
  "('a \<Rightarrow> (SchemaVersion, 'v) IncomingChange \<Rightarrow> 'a \<times> (string + RecordOutcome)) \<Rightarrow>
   'a \<times> (record_key \<times> (string + RecordOutcome)) list \<Rightarrow> (SchemaVersion, 'v) IncomingChange \<Rightarrow>
   ('a \<times> (record_key \<times> (string + RecordOutcome)) list) \<times> (string + RecordOutcome)" where
  "logged_handler h al c =
     (case h (fst al) c of (a, out) \<Rightarrow>
        ((a, snd al @ [((rec_id (ic_new_state c), rec_revision (ic_new_state c)), out)]), out))"

definition logged_server ::
  "('n \<Rightarrow> (SchemaVersion, 'v) Record \<Rightarrow> 'n \<times> (string + SetRecordReply)) \<Rightarrow>
   'n \<times> ((SchemaVersion, 'v) Record \<times> (string + SetRecordReply)) list \<Rightarrow> (SchemaVersion, 'v) Record \<Rightarrow>
   ('n \<times> ((SchemaVersion, 'v) Record \<times> (string + SetRecordReply)) list) \<times> (string + SetRecordReply)" where
  "logged_server f nl r = (case f (fst nl) r of (n, reply) \<Rightarrow> ((n, snd nl @ [(r, reply)]), reply))"

text \<open>The records the handler completed.\<close>

definition completed_keys :: "(record_key \<times> (string + RecordOutcome)) list \<Rightarrow> record_key set" where
  "completed_keys log = fst ` {e \<in> set log. snd e = Ok RecordCompleted}"

text \<open>The revision known of a record, plus one; zero when it is unknown.\<close>

definition known_rev :: "SyncView \<Rightarrow> RecordId \<Rightarrow> nat" where
  "known_rev v i = (case vw_known v i of None \<Rightarrow> 0 | Some r \<Rightarrow> Suc (rec_revision r))"

definition newest :: "RecordId \<Rightarrow> stored_record list \<Rightarrow> nat \<Rightarrow> nat" where
  "newest i rs m = foldl (\<lambda>m r. if rec_id r = i then max m (Suc (rec_revision r)) else m) m rs"

lemma completed_keys_simps [simp]:
  "completed_keys [] = {}"
  "completed_keys ((k, out) # log) = (if out = Ok RecordCompleted then insert k (completed_keys log) else completed_keys log)"
  by (force simp: completed_keys_def)+

lemma first_time_seen_known: "first_time_seen (view_incoming v r) \<longleftrightarrow> known_rev v (rec_id r) < Suc (rec_revision r)"
  by (simp add: first_time_seen_def view_incoming_def known_rev_def split: option.split)

lemma view_incoming_new [simp]: "ic_new_state (view_incoming v r) = r"
  by (simp add: view_incoming_def)

lemma known_rev_learn: "known_rev (view_learn r v) i = (if i = rec_id r then Suc (rec_revision r) else known_rev v i)"
  by (simp add: known_rev_def view_learn_def)

lemma newest_simps [simp]:
  "newest i [] m = m"
  "newest i (r # rs) m = newest i rs (if rec_id r = i then max m (Suc (rec_revision r)) else m)"
  by (simp_all add: newest_def)

lemma newest_ge: "m \<le> newest i rs m"
proof (induction rs arbitrary: m)
  case (Cons r rs)
  show ?case using Cons [of m] Cons [of "max m (Suc (rec_revision r))"] by simp
qed simp

lemma newest_mem: "r \<in> set rs \<Longrightarrow> Suc (rec_revision r) \<le> newest (rec_id r) rs m"
proof (induction rs arbitrary: m)
  case (Cons a rs)
  then show ?case
    using newest_ge [of "max m (Suc (rec_revision r))" "rec_id r" rs] by (cases "a = r") auto
qed simp

lemma incoming_from_storage_key:
  assumes "incoming_from_storage js i = Ok c"
  shows "rec_id (ic_new_state c) = rec_id (ic_new_state i) \<and> rec_revision (ic_new_state c) = rec_revision (ic_new_state i)"
  using assms
  by (auto simp: incoming_from_storage_def record_from_storage_def rbind_def split: sum.splits)

lemma overlay_pending_key [simp]:
  "rec_id (ic_new_state (overlay_pending js cs c)) = rec_id (ic_new_state c)"
  "rec_revision (ic_new_state (overlay_pending js cs c)) = rec_revision (ic_new_state c)"
  by (simp_all add: overlay_pending_def)

lemma view_discard_simps [simp]:
  "known_rev (view_discard r v) i = known_rev v i"
  "vw_waiting (view_discard r v) = (vw_waiting v)(record_key r := None)"
  "vw_waiting (view_learn r v) = vw_waiting v"
  "vw_queue (view_discard r v) = vw_queue v"
  "vw_queue (view_learn r v) = vw_queue v"
  by (simp_all add: view_discard_def view_learn_def known_rev_def)

definition completions :: "(record_key \<times> (string + RecordOutcome)) list \<Rightarrow> nat" where
  "completions log = length (filter (\<lambda>e. snd e = Ok RecordCompleted) log)"

lemma lists_waiting_length:
  assumes "lists_waiting v rs" and "lists_waiting v ws"
  shows "length rs = length ws \<and> set rs = set ws"
proof -
  have "r \<in> set qs \<longleftrightarrow> vw_waiting v (record_key r) = Some r" if "lists_waiting v qs" for qs r
    using that by (simp add: lists_waiting_def)
  then have "set rs = set ws" using assms by blast
  moreover have "distinct rs" "distinct ws" using assms by (auto simp: lists_waiting_def distinct_map)
  ultimately show ?thesis by (metis distinct_card)
qed

text \<open>The record that is sent for a queued change, and whether a call was accepted at a revision the cursor covers.\<close>

definition pushed_record :: "'v json \<Rightarrow> SyncView \<Rightarrow> stored_change \<Rightarrow> SyncStorageError + (SchemaVersion, 'v) Record" where
  "pushed_record js v c = rbind (outgoing_from_storage js (view_outgoing v c)) (\<lambda>ch. Ok (merge_change ch))"

definition accepted_below :: "u64 \<Rightarrow> (SchemaVersion, 'v) Record \<times> (string + SetRecordReply) \<Rightarrow> bool" where
  "accepted_below n e =
     (case snd e of Ok reply \<Rightarrow> reply_status reply = SetRecordSuccess \<and> new_revision reply \<le> n | Err _ \<Rightarrow> False)"

abbreviation change_key :: "stored_change \<Rightarrow> RecordId \<times> u64" where
  "change_key c \<equiv> (rc_id c, rc_local_revision c)"

lemma view_outgoing_change [simp]: "oc_change (view_outgoing v c) = c"
  by (simp add: view_outgoing_def)

lemma outgoing_from_storage_key:
  assumes "outgoing_from_storage js d = Ok ch"
  shows "rc_id (oc_change ch) = rc_id (oc_change d) \<and> rc_local_revision (oc_change ch) = rc_local_revision (oc_change d)"
  using assms
  by (auto simp: outgoing_from_storage_def change_from_storage_def rbind_def split: sum.splits)

lemma record_to_storage_key:
  "record_to_storage js r = Ok q \<Longrightarrow> rec_id q = rec_id r \<and> rec_revision q = rec_revision r"
  by (auto simp: record_to_storage_def rbind_def split: sum.splits)

lemma merge_change_id [simp]: "rec_id (merge_change ch) = rc_id (oc_change ch)"
  by (simp add: merge_change_def Let_def)

lemma view_complete_simps [simp]:
  "vw_waiting (view_complete r n v) = vw_waiting v"
  "vw_cursor (view_complete r n v) = max (vw_cursor v) (rec_revision r)"
  "vw_queue (view_complete r n v) = filter (\<lambda>c. change_key c \<noteq> (rec_id r, n)) (vw_queue v)"
  by (simp_all add: view_complete_def view_learn_def)

lemma accepted_below_mono: "accepted_below m e \<Longrightarrow> m \<le> n \<Longrightarrow> accepted_below n e"
  by (auto simp: accepted_below_def split: sum.splits)

text \<open>Records with an incoming change that waits, and the queued changes that a push round may send.\<close>

definition blocked :: "SyncView \<Rightarrow> RecordId set" where
  "blocked v = {i. \<exists>n. vw_waiting v (i, n) \<noteq> None}"

definition sendable :: "SyncView \<Rightarrow> stored_change list" where
  "sendable v = filter (\<lambda>c. rc_id c \<notin> blocked v) (vw_queue v)"

lemma blocked_waiting: "lists_waiting v ws \<Longrightarrow> blocked v = rec_id ` set ws"
  by (force simp: blocked_def lists_waiting_def)

lemma queue_keys_inj:
  assumes "view_ok v"
  shows "inj_on change_key (set (vw_queue v))"
proof -
  have "distinct (map rc_local_revision (vw_queue v))"
    using assms by (simp add: view_ok_def strict_sorted_iff)
  then show ?thesis by (auto simp: distinct_map inj_on_def)
qed

lemma remove_sent:
  assumes "view_ok v"
  shows "filter (\<lambda>c. change_key c \<notin> change_key ` set (take k (sendable v))) (vw_queue v)
       = filter (\<lambda>c. c \<notin> set (take k (sendable v))) (vw_queue v)"
proof (rule filter_cong)
  fix c assume "c \<in> set (vw_queue v)"
  moreover have "set (take k (sendable v)) \<subseteq> set (vw_queue v)"
    using set_take_subset [of k "sendable v"] by (auto simp: sendable_def)
  ultimately show "(change_key c \<notin> change_key ` set (take k (sendable v))) = (c \<notin> set (take k (sendable v)))"
    using queue_keys_inj [OF assms] by (metis (no_types, lifting) inj_on_image_mem_iff)
qed simp

context sync_storage
begin

subsection \<open>Pulling\<close>

text \<open>What a run of the loop leaves behind: the rows offered to the handler in order, up to the one that stopped it,
  and of the waiting rows only completed ones gone.\<close>

lemma pull_loop_effect:
  assumes "pull_loop P og (map (view_incoming v) rs) n st = (st', res)"
    and "sp_storage P = S" and "on_incoming_change P = logged_handler h" and "inv (sy_storage st)"
  shows "inv (sy_storage st') \<and> sy_server st' = sy_server st
    \<and> vw_queue (view (sy_storage st')) = vw_queue (view (sy_storage st))
    \<and> (\<exists>k log D. snd (sy_app st') = snd (sy_app st) @ log \<and> map fst log = map record_key (take k rs)
         \<and> vw_waiting (view (sy_storage st')) = vw_waiting (view (sy_storage st)) |` (- D) \<and> D \<subseteq> completed_keys log
         \<and> (is_ok res \<longrightarrow> k = length rs \<and> D = completed_keys log)
         \<and> (\<forall>m. res = Ok m \<longrightarrow> n + length rs \<le> U32_MAX \<longrightarrow> m = n + completions log))"
  using assms(1,4)
proof (induction rs arbitrary: n st)
  case Nil
  then show ?case by (auto simp: completions_def intro!: exI [of _ 0] exI [of _ "[]"])
next
  case (Cons r rs)
  let ?i = "view_incoming v r"
  obtain s1 z where u: "learn_incoming S ?i (sy_storage st) = (s1, z)" by fastforce
  have s1: "inv s1" "vw_queue (view s1) = vw_queue (view (sy_storage st))"
    "vw_waiting (view s1) = vw_waiting (view (sy_storage st))"
    using update_record [OF Cons.prems(2), of r s1 z] u Cons.prems(2)
    by (auto simp: learn_incoming_def split: if_splits sum.splits)
  note run = Cons.prems(1) [simplified, unfolded assms(2)]
  show ?case
  proof (cases "\<exists>c. z = Ok () \<and> incoming_from_storage (sp_json P) ?i = Ok c")
    case False
    with run u have "st' = st\<lparr>sy_storage := s1\<rparr>" "\<not> is_ok res"
      by (auto simp: is_ok_def split: sum.splits)
    with s1 show ?thesis by (auto simp: is_ok_def intro!: exI [of _ 0] exI [of _ "[]"] exI [of _ "{}"])
  next
    case True
    then obtain c where c: "z = Ok ()" "incoming_from_storage (sp_json P) ?i = Ok c" by blast
    let ?c = "overlay_pending (sp_json P) (unwrap_or (hm_get og (rec_id r)) []) c"
    obtain a out where h: "logged_handler h (sy_app st) ?c = (a, out)" by fastforce
    have a: "snd a = snd (sy_app st) @ [(record_key r, out)]"
      using h incoming_from_storage_key [OF c(2)]
      by (auto simp: logged_handler_def split: prod.splits)
    let ?run = "pull_loop P og (map (view_incoming v) rs)"
    show ?thesis
    proof (cases "out = Ok RecordCompleted")
      case True
      obtain s2 z2 where d: "ss_delete_incoming_record S s1 r = (s2, z2)" by fastforce
      note s2 = delete_incoming [OF s1(1) d]
      show ?thesis
      proof (cases z2)
        case (Inl e)
        with run u c h d True have "st' = st\<lparr>sy_storage := s2, sy_app := a\<rparr>" "res = Err (StorageFailed e)"
          by (auto simp: assms(3))
        with s1 s2 a Inl show ?thesis
          by (auto simp: is_ok_def intro!: exI [of _ 1] exI [of _ "[(record_key r, out)]"] exI [of _ "{}"])
      next
        case (Inr x)
        with run u c h d True have "?run (sat_add 32 n 1) (st\<lparr>sy_storage := s2, sy_app := a\<rparr>) = (st', res)"
          by (auto simp: assms(3))
        from Cons.IH [OF this] s1 s2 a Inr True obtain k log D where
          "snd (sy_app st') = snd (sy_app st) @ (record_key r, out) # log" "map fst log = map record_key (take k rs)"
          "vw_waiting (view (sy_storage st')) = vw_waiting (view s2) |` (- D)" "D \<subseteq> completed_keys log"
          "is_ok res \<longrightarrow> k = length rs \<and> D = completed_keys log"
          "\<forall>m. res = Ok m \<longrightarrow> sat_add 32 n 1 + length rs \<le> U32_MAX \<longrightarrow> m = sat_add 32 n 1 + completions log"
          and keep: "inv (sy_storage st')" "sy_server st' = sy_server st" "vw_queue (view (sy_storage st')) = vw_queue (view s2)"
          by auto
        with s1 s2 Inr True show ?thesis
          by (intro conjI exI [of _ "Suc k"] exI [of _ "(record_key r, out) # log"] exI [of _ "insert (record_key r) D"])
            (auto simp: completions_def restrict_map_def fun_eq_iff sat_add_def U32_MAX_def)
      qed
    next
      case False
      with run u c h have "?run n (st\<lparr>sy_storage := s1, sy_app := a\<rparr>) = (st', res)"
        by (auto simp: assms(3) split: sum.splits RecordOutcome.splits)
      from Cons.IH [OF this] s1 a obtain k log D where
        "snd (sy_app st') = snd (sy_app st) @ (record_key r, out) # log" "map fst log = map record_key (take k rs)"
        "vw_waiting (view (sy_storage st')) = vw_waiting (view (sy_storage st)) |` (- D)" "D \<subseteq> completed_keys log"
        "is_ok res \<longrightarrow> k = length rs \<and> D = completed_keys log"
        "\<forall>m. res = Ok m \<longrightarrow> n + length rs \<le> U32_MAX \<longrightarrow> m = n + completions log"
        and keep: "inv (sy_storage st')" "sy_server st' = sy_server st"
          "vw_queue (view (sy_storage st')) = vw_queue (view (sy_storage st))"
        by auto
      with False show ?thesis
        by (intro conjI exI [of _ "Suc k"] exI [of _ "(record_key r, out) # log"] exI [of _ D])
          (auto simp: completions_def)
    qed
  qed
qed

text \<open>What is known of a record ends up being the newest of what was known and of the rows.\<close>

lemma learn_incoming_known:
  assumes "inv s" and "learn_incoming S (view_incoming v r) s = (s1, Ok x)"
    and "known_rev v (rec_id r) \<le> known_rev (view s) (rec_id r)"
    and "known_rev (view s) (rec_id r) \<le> max (known_rev v (rec_id r)) (Suc (rec_revision r))"
  shows "inv s1 \<and> known_rev (view s1) i = newest i [r] (known_rev (view s) i)"
  using assms update_record [OF assms(1), of r s1 "Ok x"]
  by (auto simp: learn_incoming_def first_time_seen_known known_rev_learn split: if_splits)

lemma pull_loop_known:
  assumes "pull_loop P og (map (view_incoming v) rs) n st = (st', Ok m)" and "sp_storage P = S"
    and "inv (sy_storage st)" and "sorted (map rec_revision rs)"
    and "\<And>i. known_rev v i \<le> known_rev (view (sy_storage st)) i"
    and "\<And>r. r \<in> set rs \<Longrightarrow>
      known_rev (view (sy_storage st)) (rec_id r) \<le> max (known_rev v (rec_id r)) (Suc (rec_revision r))"
  shows "known_rev (view (sy_storage st')) i = newest i rs (known_rev (view (sy_storage st)) i)"
  using assms(1,3-)
proof (induction rs arbitrary: n st)
  case (Cons r rs)
  obtain s1 where u: "learn_incoming S (view_incoming v r) (sy_storage st) = (s1, Ok ())"
    using Cons.prems(1) assms(2)
    by (cases "learn_incoming S (view_incoming v r) (sy_storage st)") (auto split: sum.splits)
  from learn_incoming_known [OF Cons.prems(2) u] Cons.prems(4,5)
  have s1: "inv s1" "known_rev (view s1) j = newest j [r] (known_rev (view (sy_storage st)) j)" for j by auto
  obtain st2 n2 where run: "pull_loop P og (map (view_incoming v) rs) n2 st2 = (st', Ok m)"
    and st2: "inv (sy_storage st2)" "known_rev (view (sy_storage st2)) = known_rev (view s1)"
  proof -
    note run = Cons.prems(1) [simplified, unfolded assms(2) u, simplified]
    obtain c a out where c: "incoming_from_storage (sp_json P) (view_incoming v r) = Ok c"
      and h: "on_incoming_change P (sy_app st)
        (overlay_pending (sp_json P) (unwrap_or (hm_get og (rec_id r)) []) c) = (a, out)"
      using run by (fastforce split: sum.splits prod.splits)
    show thesis
    proof (cases "out = Ok RecordCompleted")
      case True
      with run c h obtain s2 x where d: "ss_delete_incoming_record S s1 r = (s2, Ok x)"
        and "pull_loop P og (map (view_incoming v) rs) (sat_add 32 n 1) (st\<lparr>sy_storage := s2, sy_app := a\<rparr>) = (st', Ok m)"
        by (auto simp: assms(2) split: sum.splits prod.splits)
      with delete_incoming [OF s1(1) d] that show ?thesis by (auto simp: fun_eq_iff)
    next
      case False
      with run c h have "pull_loop P og (map (view_incoming v) rs) n (st\<lparr>sy_storage := s1, sy_app := a\<rparr>) = (st', Ok m)"
        by (auto split: sum.splits RecordOutcome.splits)
      with s1(1) that show ?thesis by simp
    qed
  qed
  have "known_rev (view (sy_storage st')) i = newest i rs (known_rev (view (sy_storage st2)) i)"
  proof (rule Cons.IH [OF run st2(1)])
    show "sorted (map rec_revision rs)" using Cons.prems(3) by simp
    show "known_rev v j \<le> known_rev (view (sy_storage st2)) j" for j
      using Cons.prems(4) [of j] newest_ge [of "known_rev (view (sy_storage st)) j" j "[r]"] by (simp add: st2(2) s1(2))
    show "known_rev (view (sy_storage st2)) (rec_id q) \<le> max (known_rev v (rec_id q)) (Suc (rec_revision q))"
      if "q \<in> set rs" for q
      using Cons.prems(5) [of q] Cons.prems(3) that by (force simp: st2(2) s1(2))
  qed
  then show ?case by (simp add: st2(2) s1(2))
qed simp

lemma pull_local_cases:
  assumes "pull_sync_once_local P st = (st', res)" and "sp_storage P = S" and "inv (sy_storage st)"
    and "lists_waiting (view (sy_storage st)) ws" and "length ws \<le> U32_MAX"
  obtains (idle) s where "inv s" and "view s = view (sy_storage st)" and "st' = st\<lparr>sy_storage := s\<rparr>"
      and "is_ok res \<longrightarrow> ws = [] \<and> res = Ok 0"
  | (offered) s og rs where "inv s" and "view s = view (sy_storage st)" and "lists_waiting (view s) rs"
      and "length rs \<le> U32_MAX"
      and "pull_loop P og (map (view_incoming (view s)) rs) 0 (st\<lparr>sy_storage := s\<rparr>) = (st', res)"
proof -
  obtain s1 i where g: "ss_get_incoming_records S (sy_storage st) U32_MAX = (s1, i)" by fastforce
  note s1 = incoming [OF assms(3) g]
  note run = assms(1) [unfolded pull_sync_once_local_def assms(2) g, simplified]
  have all: "take U32_MAX rs = rs \<and> length rs = length ws" if "lists_waiting (view (sy_storage st)) rs" for rs
    using lists_waiting_length [OF that assms(4)] assms(5) by simp
  show thesis
  proof (cases "\<exists>is s2 os. i = Ok is \<and> is \<noteq> [] \<and> ss_get_pending_outgoing_changes S s1 U32_MAX = (s2, Ok os)")
    case False
    have "\<exists>s. inv s \<and> view s = view (sy_storage st) \<and> st' = st\<lparr>sy_storage := s\<rparr>"
      and empty: "is_ok res \<longrightarrow> i = Ok [] \<and> res = Ok 0"
      using run False s1 pending [of s1 U32_MAX] by (auto simp: is_ok_def split: sum.splits if_splits prod.splits)
    moreover have "is_ok res \<longrightarrow> ws = []" using empty s1 all by force
    ultimately show ?thesis by (auto intro: idle)
  next
    case True
    then obtain "is" s2 os where i: "i = Ok is" "is \<noteq> []"
      and g2: "ss_get_pending_outgoing_changes S s1 U32_MAX = (s2, Ok os)" by blast
    note s2 = pending [OF conjunct1 [OF s1] g2]
    from s1 s2 i obtain rs where "lists_waiting (view s2) rs" "is = map (view_incoming (view s2)) rs"
      using all by force
    with run i g2 s1 s2 all assms(5) show ?thesis by (intro offered [of s2 rs "group_outgoing os"]) auto
  qed
qed

text \<open>Processing the stored records: on success every one of them was offered, in the order of revisions, exactly the
  completed ones are gone, and what is known of a record is the newest of what was known and what was received.\<close>

lemma pull_local_effect:
  assumes "pull_sync_once_local P st = (st', res)" and "sp_storage P = S" and "on_incoming_change P = logged_handler h"
    and "inv (sy_storage st)" and "lists_waiting (view (sy_storage st)) ws" and "length ws \<le> U32_MAX"
  defines "v \<equiv> view (sy_storage st)" and "v' \<equiv> view (sy_storage st')"
  shows "inv (sy_storage st') \<and> sy_server st' = sy_server st \<and> vw_queue v' = vw_queue v
    \<and> (\<exists>log D rs. snd (sy_app st') = snd (sy_app st) @ log \<and> lists_waiting v rs
         \<and> vw_waiting v' = vw_waiting v |` (- D) \<and> D \<subseteq> completed_keys log
         \<and> (is_ok res \<longrightarrow> map fst log = map record_key rs \<and> D = completed_keys log
              \<and> (\<forall>i. known_rev v' i = newest i rs (known_rev v i)))
         \<and> (\<forall>m. res = Ok m \<longrightarrow> m = completions log))"
  using assms(1,2,4-6)
proof (cases rule: pull_local_cases)
  case (idle s)
  with assms(5) show ?thesis unfolding v_def v'_def
    by (intro conjI exI [of _ "[]"] exI [of _ "{}"] exI [of _ ws]) (auto simp: completions_def is_ok_def)
next
  case (offered s og rs)
  note vs = offered(2) [folded v_def]
  from pull_loop_effect [OF offered(5) assms(2,3)] offered(1,4) vs obtain k log D where
    keep: "inv (sy_storage st')" "sy_server st' = sy_server st" "vw_queue v' = vw_queue v" and
    log: "snd (sy_app st') = snd (sy_app st) @ log" "map fst log = map record_key (take k rs)"
      "vw_waiting v' = vw_waiting v |` (- D)" "D \<subseteq> completed_keys log"
      "is_ok res \<longrightarrow> k = length rs \<and> D = completed_keys log" "\<forall>m. res = Ok m \<longrightarrow> m = completions log"
    by (auto simp: v'_def)
  have "known_rev v' j = newest j rs (known_rev v j)" if "is_ok res" for j
  proof -
    from that offered(5) obtain m where
      "pull_loop P og (map (view_incoming (view s)) rs) 0 (st\<lparr>sy_storage := s\<rparr>) = (st', Ok m)"
      by (cases res) (auto simp: is_ok_def)
    from pull_loop_known [OF this assms(2)] offered(1,3) vs show ?thesis by (simp add: lists_waiting_def v'_def)
  qed
  with keep log offered(3) vs show ?thesis
    by (intro conjI exI [of _ log] exI [of _ D] exI [of _ rs]) (auto simp: is_ok_def)
qed

subsection \<open>Pushing\<close>

text \<open>One change: either it is accepted, taken from the queue and covered by the cursor, or the queue is as before.\<close>

lemma push_record_effect:
  assumes "push_sync_record P ch st = (st', res)" and "sp_storage P = S" and "set_record P = logged_server f"
    and "inv (sy_storage st)"
  shows "inv (sy_storage st') \<and> sy_app st' = sy_app st
    \<and> vw_waiting (view (sy_storage st')) = vw_waiting (view (sy_storage st))
    \<and> vw_cursor (view (sy_storage st)) \<le> vw_cursor (view (sy_storage st'))
    \<and> (\<exists>reply. snd (sy_server st') = snd (sy_server st) @ [(merge_change ch, reply)]
         \<and> (case res of
              Ok _ \<Rightarrow> accepted_below (vw_cursor (view (sy_storage st'))) (merge_change ch, reply)
                \<and> vw_queue (view (sy_storage st')) = filter (\<lambda>c. change_key c \<noteq> (rc_id (oc_change ch), rc_local_revision (oc_change ch))) (vw_queue (view (sy_storage st)))
            | Err e \<Rightarrow> vw_queue (view (sy_storage st')) = vw_queue (view (sy_storage st))))"
proof -
  let ?r = "merge_change ch"
  obtain n reply where f: "f (fst (sy_server st)) ?r = (n, reply)" by fastforce
  let ?n = "(n, snd (sy_server st) @ [(?r, reply)])"
  note run = assms(1) [unfolded push_sync_record_def Let_def assms(2,3) logged_server_def f, simplified]
  show ?thesis
  proof (cases "\<exists>p q. reply = Ok p \<and> reply_status p = SetRecordSuccess
      \<and> record_to_storage (sp_json P) (?r\<lparr>rec_revision := new_revision p\<rparr>) = Ok q")
    case False
    with run have "st' = st\<lparr>sy_server := ?n\<rparr>" "\<exists>e. res = Err e"
      by (auto split: sum.splits SetRecordStatus.splits)
    with assms(4) show ?thesis by auto
  next
    case True
    then obtain p q where p: "reply = Ok p" "reply_status p = SetRecordSuccess"
      and q: "record_to_storage (sp_json P) (?r\<lparr>rec_revision := new_revision p\<rparr>) = Ok q" by blast
    obtain s z where c: "ss_complete_outgoing_sync S (sy_storage st) q (rc_local_revision (oc_change ch)) = (s, z)"
      by fastforce
    have "st' = st\<lparr>sy_server := ?n, sy_storage := s\<rparr>" "is_ok res = is_ok z"
      using run p q c by (auto simp: is_ok_def split: sum.splits)
    with complete [OF assms(4) c] record_to_storage_key [OF q] p show ?thesis
      by (cases z; cases res) (auto simp: is_ok_def accepted_below_def)
  qed
qed

lemma push_loop_effect:
  assumes "push_loop P W (map (view_outgoing v) cs) n st = (st', res)"
    and "sp_storage P = S" and "set_record P = logged_server f" and "inv (sy_storage st)"
    and "es = filter (\<lambda>c. rc_id c \<notin> W) cs"
  shows "inv (sy_storage st') \<and> sy_app st' = sy_app st
    \<and> vw_waiting (view (sy_storage st')) = vw_waiting (view (sy_storage st))
    \<and> vw_cursor (view (sy_storage st)) \<le> vw_cursor (view (sy_storage st'))
    \<and> (\<exists>k log. k \<le> length log \<and> length log \<le> Suc k \<and> snd (sy_server st') = snd (sy_server st) @ log
         \<and> map (Ok \<circ> fst) log = map (pushed_record (sp_json P) v) (take (length log) es)
         \<and> list_all (accepted_below (vw_cursor (view (sy_storage st')))) (take k log)
         \<and> vw_queue (view (sy_storage st')) =
             filter (\<lambda>c. change_key c \<notin> change_key ` set (take k es)) (vw_queue (view (sy_storage st)))
         \<and> (is_ok res \<longrightarrow> k = length es)
         \<and> (\<forall>m. res = Ok m \<longrightarrow> n + length es \<le> U32_MAX \<longrightarrow> m = n + length es))"
  using assms(1,4,5)
proof (induction cs arbitrary: n st es)
  case Nil
  then show ?case by (auto intro!: exI [of _ 0])
next
  case (Cons c cs)
  show ?case
  proof (cases "rc_id c \<in> W")
    case True
    with Cons.IH [of n st es] Cons.prems show ?thesis by simp
  next
    case False
    let ?es = "filter (\<lambda>c. rc_id c \<notin> W) cs"
    have es: "es = c # ?es" using False Cons.prems(3) by simp
    show ?thesis
    proof (cases "outgoing_from_storage (sp_json P) (view_outgoing v c)")
      case (Inl e)
      with Cons.prems(1) False have "st' = st" "\<not> is_ok res" by (auto simp: is_ok_def)
      with Cons.prems(2) show ?thesis by (auto simp: is_ok_def intro!: exI [of _ 0])
    next
      case (Inr ch)
      note key = outgoing_from_storage_key [OF Inr, simplified]
      have pr: "pushed_record (sp_json P) v c = Ok (merge_change ch)" by (simp add: pushed_record_def Inr rbind_def)
      obtain st1 z where p: "push_sync_record P ch st = (st1, z)" by fastforce
      note st1 = push_record_effect [OF p assms(2,3) Cons.prems(2)]
      show ?thesis
      proof (cases z)
        case (Inl e)
        with Cons.prems(1) False Inr p have "st' = st1" "\<not> is_ok res" by (auto simp: is_ok_def)
        with st1 Inl obtain reply where "snd (sy_server st') = snd (sy_server st) @ [(merge_change ch, reply)]"
          "vw_queue (view (sy_storage st')) = vw_queue (view (sy_storage st))" by auto
        with st1 \<open>st' = st1\<close> \<open>\<not> is_ok res\<close> pr show ?thesis
          by (intro conjI exI [of _ "0 :: nat"] exI [of _ "[(merge_change ch, reply)]"])
            (simp_all add: es is_ok_def split: sum.splits)
      next
        case (Inr x)
        with Cons.prems(1) False p \<open>outgoing_from_storage _ _ = _\<close>
        have "push_loop P W (map (view_outgoing v) cs) (sat_add 32 n 1) st1 = (st', res)" by auto
        from Cons.IH [OF this conjunct1 [OF st1] refl] obtain k log where
          keep: "inv (sy_storage st')" "sy_app st' = sy_app st1"
            "vw_waiting (view (sy_storage st')) = vw_waiting (view (sy_storage st1))"
          and c1: "vw_cursor (view (sy_storage st1)) \<le> vw_cursor (view (sy_storage st'))"
          and k: "k \<le> length log" "length log \<le> Suc k" "snd (sy_server st') = snd (sy_server st1) @ log"
            "map (Ok \<circ> fst) log = map (pushed_record (sp_json P) v) (take (length log) ?es)"
            "list_all (accepted_below (vw_cursor (view (sy_storage st')))) (take k log)"
          and q: "vw_queue (view (sy_storage st')) =
             filter (\<lambda>c. change_key c \<notin> change_key ` set (take k ?es)) (vw_queue (view (sy_storage st1)))"
          and ok: "is_ok res \<longrightarrow> k = length ?es"
          and m: "\<forall>m. res = Ok m \<longrightarrow> sat_add 32 n 1 + length ?es \<le> U32_MAX \<longrightarrow> m = sat_add 32 n 1 + length ?es"
          by blast
        from st1 Inr key obtain reply where r: "snd (sy_server st1) = snd (sy_server st) @ [(merge_change ch, reply)]"
          "accepted_below (vw_cursor (view (sy_storage st'))) (merge_change ch, reply)"
          and q1: "vw_queue (view (sy_storage st1)) = filter (\<lambda>d. change_key d \<noteq> change_key c) (vw_queue (view (sy_storage st)))"
          using accepted_below_mono [OF _ c1] by auto
        have "filter (\<lambda>c. change_key c \<notin> change_key ` set (take k ?es)) (vw_queue (view (sy_storage st1)))
            = filter (\<lambda>d. change_key d \<notin> change_key ` set (take (Suc k) es)) (vw_queue (view (sy_storage st)))"
          unfolding q1 filter_filter es by (rule filter_cong) auto
        moreover have "n + length es \<le> U32_MAX \<Longrightarrow> res = Ok j \<Longrightarrow> j = n + length es" for j
          using m [rule_format, of j] by (simp add: es sat_add_def U32_MAX_def)
        ultimately show ?thesis using keep c1 k q ok r st1 pr
          by (intro conjI exI [of _ "Suc k"] exI [of _ "(merge_change ch, reply) # log"]) (simp_all add: es comp_def)
      qed
    qed
  qed
qed

lemma push_once_cases:
  assumes "push_sync_once P st = (st', res)" and "sp_storage P = S" and "inv (sy_storage st)"
    and "lists_waiting (view (sy_storage st)) ws" and "length ws \<le> U32_MAX"
    and "length (vw_queue (view (sy_storage st))) \<le> U32_MAX"
  obtains (idle) s where "inv s" and "view s = view (sy_storage st)" and "st' = st\<lparr>sy_storage := s\<rparr>"
      and "is_ok res \<longrightarrow> vw_queue (view (sy_storage st)) = [] \<and> res = Ok None"
  | (sent) s res' where "inv s" and "view s = view (sy_storage st)"
      and "push_loop P (blocked (view s)) (map (view_outgoing (view s)) (vw_queue (view s))) 0 (st\<lparr>sy_storage := s\<rparr>) = (st', res')"
      and "res = (case res' of Ok n \<Rightarrow> Ok (if n = 0 then None else Some n) | Err e \<Rightarrow> Err e)"
proof -
  obtain s1 p where g: "ss_get_pending_outgoing_changes S (sy_storage st) U32_MAX = (s1, p)" by fastforce
  note s1 = pending [OF assms(3) g]
  obtain s2 i where g2: "ss_get_incoming_records S s1 U32_MAX = (s2, i)" by fastforce
  note s2 = incoming [OF conjunct1 [OF s1] g2]
  note run = assms(1) [unfolded push_sync_once_def push_sync_batch_def assms(2) g, simplified]
  show thesis
  proof (cases "\<exists>cs is. p = Ok cs \<and> cs \<noteq> [] \<and> i = Ok is")
    case False
    have "\<exists>s. inv s \<and> view s = view (sy_storage st) \<and> st' = st\<lparr>sy_storage := s\<rparr>"
      and "is_ok res \<longrightarrow> p = Ok [] \<and> res = Ok None"
      using run False s1 s2 g2 by (auto simp: is_ok_def split: sum.splits if_splits)
    with s1 assms(6) show ?thesis by (auto intro: idle)
  next
    case True
    then obtain cs "is" where p: "p = Ok cs" "cs \<noteq> []" and i: "i = Ok is" by blast
    have cs: "cs = map (view_outgoing (view s2)) (vw_queue (view s2))" using s1 s2 p assms(6) by simp
    from s1 s2 i obtain rs where rs: "lists_waiting (view s2) rs" "is = map (view_incoming (view s2)) (take U32_MAX rs)"
      by auto
    have v: "view s2 = view (sy_storage st)" using s1 s2 by simp
    with lists_waiting_length [OF rs(1), of ws] assms(4,5) have "take U32_MAX rs = rs" by simp
    with rs have "(\<lambda>i. rec_id (ic_new_state i)) ` set is = blocked (view s2)" by (simp add: blocked_waiting image_image)
    with run p i g2 obtain res' where
      "push_loop P (blocked (view s2)) cs 0 (st\<lparr>sy_storage := s2\<rparr>) = (st', res')"
      "res = (case res' of Ok n \<Rightarrow> Ok (if n = 0 then None else Some n) | Err e \<Rightarrow> Err e)"
      by (simp split: prod.splits sum.splits)
    with s2 v cs show ?thesis by (intro sent [of s2 res']) simp_all
  qed
qed

text \<open>A push round: the server is given the sendable changes in order, up to the first that fails, each as its fields
  over the last known state; exactly those it accepted leave the queue.\<close>

lemma push_once_effect:
  assumes "push_sync_once P st = (st', res)" and "sp_storage P = S" and "set_record P = logged_server f"
    and "inv (sy_storage st)" and "lists_waiting (view (sy_storage st)) ws" and "length ws \<le> U32_MAX"
    and "length (vw_queue (view (sy_storage st))) \<le> U32_MAX"
  defines "v \<equiv> view (sy_storage st)" and "v' \<equiv> view (sy_storage st')"
  shows "inv (sy_storage st') \<and> sy_app st' = sy_app st \<and> vw_waiting v' = vw_waiting v \<and> vw_cursor v \<le> vw_cursor v'
    \<and> (\<exists>k log. k \<le> length log \<and> length log \<le> Suc k \<and> snd (sy_server st') = snd (sy_server st) @ log
         \<and> map (Ok \<circ> fst) log = map (pushed_record (sp_json P) v) (take (length log) (sendable v))
         \<and> list_all (accepted_below (vw_cursor v')) (take k log)
         \<and> vw_queue v' = filter (\<lambda>c. c \<notin> set (take k (sendable v))) (vw_queue v)
         \<and> (\<forall>x. res = Ok x \<longrightarrow> k = length (sendable v)
              \<and> x = (if sendable v = [] then None else Some (length (sendable v)))))"
  using assms(1,2,4-7)
proof (cases rule: push_once_cases)
  case (idle s)
  then show ?thesis unfolding v_def v'_def
    by (intro conjI exI [of _ "0 :: nat"] exI [of _ "[]"]) (auto simp: is_ok_def sendable_def)
next
  case (sent s res')
  note vs = sent(2) [folded v_def]
  from push_loop_effect [OF sent(3) assms(2,3) _ refl, folded sendable_def] sent(1) vs
  obtain k log where keep: "inv (sy_storage st')" "sy_app st' = sy_app st" "vw_waiting v' = vw_waiting v" "vw_cursor v \<le> vw_cursor v'"
    and log: "k \<le> length log" "length log \<le> Suc k" "snd (sy_server st') = snd (sy_server st) @ log"
      "map (Ok \<circ> fst) log = map (pushed_record (sp_json P) v) (take (length log) (sendable v))"
      "list_all (accepted_below (vw_cursor v')) (take k log)"
      "vw_queue v' = filter (\<lambda>c. change_key c \<notin> change_key ` set (take k (sendable v))) (vw_queue v)"
    and ok: "is_ok res' \<longrightarrow> k = length (sendable v)"
      "\<forall>m. res' = Ok m \<longrightarrow> length (sendable v) \<le> U32_MAX \<longrightarrow> m = length (sendable v)"
    by (auto simp: v'_def)
  have "length (sendable v) \<le> U32_MAX" using assms(7) length_filter_le [of _ "vw_queue v"]
    unfolding sendable_def v_def by (metis order_trans)
  with ok sent(4) have "\<forall>x. res = Ok x \<longrightarrow> k = length (sendable v)
      \<and> x = (if sendable v = [] then None else Some (length (sendable v)))"
    by (auto simp: is_ok_def split: sum.splits if_splits)
  moreover have "vw_queue v' = filter (\<lambda>c. c \<notin> set (take k (sendable v))) (vw_queue v)"
    using log(6) remove_sent inv_view [OF assms(4)] by (simp add: v_def)
  ultimately show ?thesis using keep log(1-5) by blast
qed

end

end
