(* ===== verification/Sync_Progress.thy ===== *)
theory Sync_Progress
  imports Sync_Processor
begin

text \<open>
  Properties of real-time sync that hold for both databases: what a pull and a push round do to the tables, what the
  next pull asks for, what a restart replays and when a failed attempt is tried again.
\<close>

section \<open>Both databases\<close>

definition backend :: "SyncDb SyncStorage \<Rightarrow> bool" where
  "backend S \<longleftrightarrow> S = sqlite_storage \<or> S = postgres_storage"

lemma backend_laws: "backend S \<Longrightarrow> sync_storage S db_view db_inv"
  using sqlite.sync_storage_axioms postgres.sync_storage_axioms by (auto simp: backend_def)

lemma waiting_rows:
  assumes "db_inv db"
  obtains ws where "lists_waiting (db_view db) ws" and "length ws = length (sync_incoming db)"
  using values_listed [OF assms] that [of "sort_key rec_revision (hm_values (sync_incoming db))"]
  by (simp add: hm_values_def)

lemma db_view_simps [simp]:
  "vw_queue (db_view db) = sync_outgoing db" "vw_waiting (db_view db) = hm_get (sync_incoming db)"
  "vw_known (db_view db) = hm_get (sync_state db)" "vw_cursor (db_view db) = sync_revision db"
  by (simp_all add: db_view_def)

lemma known_rev_Suc: "Suc n \<le> known_rev v i \<longleftrightarrow> (\<exists>q. vw_known v i = Some q \<and> n \<le> rec_revision q)"
  by (simp add: known_rev_def split: option.split)

section \<open>A server that detects conflicts\<close>

text \<open>The server accepts a record only under the revision it last gave to that record, and gives it a higher one.\<close>

definition strict_server ::
  "('n \<Rightarrow> RecordId \<Rightarrow> u64) \<Rightarrow> ('n \<Rightarrow> (SchemaVersion, 'v) Record \<Rightarrow> 'n \<times> (string + SetRecordReply)) \<Rightarrow> bool" where
  "strict_server cur f \<longleftrightarrow>
     (\<forall>n r n' reply. f n r = (n', Ok reply) \<longrightarrow> reply_status reply = SetRecordSuccess \<longrightarrow>
        rec_revision r = cur n (rec_id r) \<and> cur n (rec_id r) < new_revision reply
        \<and> cur n' = (cur n)(rec_id r := new_revision reply))"

lemma push_record_strict:
  assumes "push_sync_record P ch st = (st', Ok x)" and "strict_server cur (set_record P)"
  shows "\<exists>m. rec_revision (merge_change ch) = cur (sy_server st) (rc_id (oc_change ch))
    \<and> cur (sy_server st) (rc_id (oc_change ch)) < m
    \<and> cur (sy_server st') = (cur (sy_server st))(rc_id (oc_change ch) := m)"
proof -
  let ?r = "merge_change ch"
  from assms(1) obtain n reply where "set_record P (sy_server st) ?r = (n, Ok reply)"
    "reply_status reply = SetRecordSuccess" "sy_server st' = n"
    by (auto simp: push_sync_record_def Let_def split: prod.splits sum.splits SetRecordStatus.splits)
  with assms(2) have "rec_revision ?r = cur (sy_server st) (rec_id ?r)"
    "cur (sy_server st) (rec_id ?r) < new_revision reply"
    "cur (sy_server st') = (cur (sy_server st))(rec_id ?r := new_revision reply)" unfolding strict_server_def by metis+
  then show ?thesis by auto
qed

text \<open>The revision under which the changes of a round are sent depends on the state before the round only.\<close>

lemma sent_revision:
  assumes "outgoing_from_storage js (view_outgoing v c) = Ok ch"
  shows "rec_revision (merge_change ch) = known_rev v (rc_id c) - 1"
  using assms
  by (auto simp: outgoing_from_storage_def parent_from_storage_def record_from_storage_def view_outgoing_def known_rev_def
      merge_change_def Let_def rbind_def split: sum.splits option.splits)

lemma push_loop_strict:
  assumes "push_loop P W (map (view_outgoing v) cs) n st = (st', Ok m)" and "strict_server cur (set_record P)"
  shows "distinct (map rc_id (filter (\<lambda>c. rc_id c \<notin> W) cs))
    \<and> (\<forall>c \<in> set cs. rc_id c \<notin> W \<longrightarrow> cur (sy_server st) (rc_id c) = known_rev v (rc_id c) - 1)"
  using assms(1)
proof (induction cs arbitrary: n st)
  case (Cons c cs)
  show ?case
  proof (cases "rc_id c \<in> W")
    case True
    with Cons show ?thesis by auto
  next
    case False
    with Cons.prems obtain ch st1 x where ch: "outgoing_from_storage (sp_json P) (view_outgoing v c) = Ok ch"
      and p: "push_sync_record P ch st = (st1, Ok x)"
      and run: "push_loop P W (map (view_outgoing v) cs) (sat_add 32 n 1) st1 = (st', Ok m)"
      by (auto split: sum.splits prod.splits)
    from push_record_strict [OF p assms(2)] sent_revision [OF ch] outgoing_from_storage_key [OF ch] obtain k where
      k: "cur (sy_server st) (rc_id c) = known_rev v (rc_id c) - 1" "known_rev v (rc_id c) - 1 < k"
        "cur (sy_server st1) = (cur (sy_server st))(rc_id c := k)" by auto
    note later = Cons.IH [OF run, THEN conjunct2, rule_format]
    have fresh: "rc_id d \<noteq> rc_id c" if "d \<in> set cs" "rc_id d \<notin> W" for d
      using later [OF that] k by auto
    moreover have "cur (sy_server st) (rc_id d) = known_rev v (rc_id d) - 1" if "d \<in> set cs" "rc_id d \<notin> W" for d
      using later [OF that] fresh [OF that] k(3) by simp
    ultimately show ?thesis using Cons.IH [OF run, THEN conjunct1] k(1) by (auto simp: image_iff) metis
  qed
qed simp

section \<open>What the server is asked\<close>

lemma pull_loop_list_changes [simp]: "pull_loop (P\<lparr>list_changes := g\<rparr>) og is n st = pull_loop P og is n st"
  by (induction P og "is" n st rule: pull_loop.induct)
    (simp_all split: prod.split sum.split RecordOutcome.split)

lemma pull_local_list_changes [simp]: "pull_sync_once_local (P\<lparr>list_changes := g\<rparr>) st = pull_sync_once_local P st"
  by (simp add: pull_sync_once_local_def split: prod.split sum.split)

lemma pull_asks_cursor:
  assumes "backend (sp_storage P)" and "db_inv (sy_storage st)"
    and "\<And>n. g n (sync_revision (sy_storage st)) = list_changes P n (sync_revision (sy_storage st))"
  shows "pull_sync_once (P\<lparr>list_changes := g\<rparr>) st = pull_sync_once P st"
proof -
  obtain s x where r: "ss_get_last_revision (sp_storage P) (sy_storage st) = (s, x)" by fastforce
  note l = sync_storage.last_revision [OF backend_laws [OF assms(1)] assms(2) r]
  show ?thesis
  proof (cases x)
    case (Inr n)
    with l have "n = sync_revision (sy_storage st)" by simp
    with assms(3) r Inr show ?thesis by (simp add: pull_sync_once_def split: prod.split sum.split)
  qed (simp add: pull_sync_once_def r)
qed

section \<open>Pulling\<close>

text \<open>C9. Processing the stored incoming records loses none of them: whatever fails, only records that the application
  reported as completed leave the table, and the outgoing queue is untouched. On success every stored record was
  offered to the application exactly once, in the order of revisions, exactly the completed ones are gone, their
  number is the result, and what is known of every offered record is at least as new as that record.\<close>

theorem pull_keeps_unfinished:
  assumes "backend (sp_storage P)" and "on_incoming_change P = logged_handler h"
    and "db_inv (sy_storage st)" and "length (sync_incoming (sy_storage st)) \<le> U32_MAX"
    and "snd (sy_app st) = []" and "pull_sync_once_local P st = (st', res)"
  defines "db \<equiv> sy_storage st" and "db' \<equiv> sy_storage st'" and "log \<equiv> snd (sy_app st')"
  shows "db_inv db' \<and> sync_outgoing db' = sync_outgoing db
    \<and> (\<forall>k. hm_get (sync_incoming db') k = hm_get (sync_incoming db) k
         \<or> hm_get (sync_incoming db') k = None \<and> k \<in> completed_keys log)
    \<and> (case res of
         Ok n \<Rightarrow> n = completions log
           \<and> (\<forall>k. hm_get (sync_incoming db') k = (if k \<in> completed_keys log then None else hm_get (sync_incoming db) k))
           \<and> (\<exists>rs. lists_waiting (db_view db) rs \<and> map fst log = map record_key rs
                \<and> (\<forall>r \<in> set rs. \<exists>q. hm_get (sync_state db') (rec_id r) = Some q \<and> rec_revision r \<le> rec_revision q))
       | Err e \<Rightarrow> True)"
proof -
  obtain ws where ws: "lists_waiting (db_view db) ws" "length ws \<le> U32_MAX"
    using waiting_rows [OF assms(3)] assms(4) by (metis db_def)
  from sync_storage.pull_local_effect [OF backend_laws [OF assms(1)] assms(6) refl assms(2,3) ws [unfolded db_def]]
  obtain D rs where e: "db_inv db'" "sync_outgoing db' = sync_outgoing db" "lists_waiting (db_view db) rs"
    "hm_get (sync_incoming db') = hm_get (sync_incoming db) |` (- D)" "D \<subseteq> completed_keys log"
    "is_ok res \<longrightarrow> map fst log = map record_key rs \<and> D = completed_keys log
       \<and> (\<forall>i. known_rev (db_view db') i = newest i rs (known_rev (db_view db) i))"
    "\<forall>m. res = Ok m \<longrightarrow> m = completions log"
    by (auto simp: db_def db'_def log_def assms(5))
  have "\<exists>q. hm_get (sync_state db') (rec_id r) = Some q \<and> rec_revision r \<le> rec_revision q"
    if "is_ok res" "r \<in> set rs" for r
    using e(6) that newest_mem [OF that(2)] known_rev_Suc [of "rec_revision r" "db_view db'" "rec_id r"] by simp
  with e show ?thesis by (auto simp: is_ok_def restrict_map_def split: sum.split)
qed

section \<open>Pushing\<close>

text \<open>C10. A push round loses no change and sends none too early: the server is given the queued changes in order,
  except those of records with an incoming change still waiting, each merged into the last known state of its
  record; the round stops at the first failure; exactly those the server accepted leave the queue, save for at most
  one whose completion could not be stored. On success all of them were accepted.\<close>

theorem push_loses_nothing:
  assumes "backend (sp_storage P)" and "set_record P = logged_server f"
    and "db_inv (sy_storage st)" and "length (sync_incoming (sy_storage st)) \<le> U32_MAX"
    and "length (sync_outgoing (sy_storage st)) \<le> U32_MAX"
    and "snd (sy_server st) = []" and "push_sync_once P st = (st', res)"
  defines "db \<equiv> sy_storage st" and "db' \<equiv> sy_storage st'" and "log \<equiv> snd (sy_server st')"
  shows "db_inv db' \<and> sync_revision db \<le> sync_revision db'
    \<and> map (Ok \<circ> fst) log = map (pushed_record (sp_json P) (db_view db)) (take (length log) (sendable (db_view db)))
    \<and> (\<exists>k. k \<le> length log \<and> length log \<le> Suc k
         \<and> list_all (accepted_below (sync_revision db')) (take k log)
         \<and> sync_outgoing db' = filter (\<lambda>c. c \<notin> set (take k (sendable (db_view db)))) (sync_outgoing db)
         \<and> (is_ok res \<longrightarrow> k = length (sendable (db_view db)) \<and> k = length log))"
proof -
  obtain ws where ws: "lists_waiting (db_view db) ws" "length ws \<le> U32_MAX"
    using waiting_rows [OF assms(3)] assms(4) by (metis db_def)
  from sync_storage.push_once_effect [OF backend_laws [OF assms(1)] assms(7) refl assms(2,3) ws [unfolded db_def]] assms(5)
  obtain k where e: "db_inv db'" "sync_revision db \<le> sync_revision db'"
    "k \<le> length log" "length log \<le> Suc k"
    and l: "map (Ok \<circ> fst) log = map (pushed_record (sp_json P) (db_view db)) (take (length log) (sendable (db_view db)))"
    and q: "list_all (accepted_below (sync_revision db')) (take k log)"
    "sync_outgoing db' = filter (\<lambda>c. c \<notin> set (take k (sendable (db_view db)))) (sync_outgoing db)"
    "is_ok res \<longrightarrow> k = length (sendable (db_view db))"
    by (auto simp: db_def db'_def log_def assms(6) is_ok_def split: sum.splits)
  have "length log \<le> length (sendable (db_view db))" using arg_cong [OF l, of length] by simp
  with e l q show ?thesis by (intro conjI exI [of _ k]) auto
qed

text \<open>One push round sends at most one change per record: against a server that detects conflicts, a round that
  succeeds had no two sendable changes of the same record. All changes of a round carry the revisions read before
  it, so the second change of a record is refused as a conflict, and the round fails.\<close>

theorem push_round_one_change_per_record:
  assumes "backend (sp_storage P)" and "strict_server cur (set_record P)"
    and "db_inv (sy_storage st)" and "length (sync_incoming (sy_storage st)) \<le> U32_MAX"
    and "length (sync_outgoing (sy_storage st)) \<le> U32_MAX" and "push_sync_once P st = (st', Ok x)"
  shows "distinct (map rc_id (sendable (db_view (sy_storage st))))"
proof -
  obtain ws where ws: "lists_waiting (db_view (sy_storage st)) ws" "length ws \<le> U32_MAX"
    using waiting_rows [OF assms(3)] assms(4) by metis
  have q: "length (vw_queue (db_view (sy_storage st))) \<le> U32_MAX" using assms(5) by simp
  show ?thesis
  proof (rule sync_storage.push_once_cases [OF backend_laws [OF assms(1)] assms(6) refl assms(3) ws q], goal_cases)
    case (1 s)
    then show ?thesis by (simp add: is_ok_def sendable_def)
  next
    case (2 s res')
    then obtain m where "push_loop P (blocked (db_view s)) (map (view_outgoing (db_view s)) (vw_queue (db_view s))) 0
        (st\<lparr>sy_storage := s\<rparr>) = (st', Ok m)" by (cases res') auto
    from push_loop_strict [OF this assms(2)] 2(2) show ?thesis by (simp add: sendable_def)
  qed
qed

text \<open>After a successful push the client never asks for older revisions again: every pull from then on gives the
  same result whatever the server would list below the revision of the pushed record. A record another client
  wrote under a lower revision and that was not pulled before the push is therefore skipped, if the server numbers
  revisions across records.\<close>

theorem pull_after_push_skips:
  assumes "backend (sp_storage P)" and "set_record P = logged_server f"
    and "db_inv (sy_storage st)" and "length (sync_incoming (sy_storage st)) \<le> U32_MAX"
    and "length (sync_outgoing (sy_storage st)) \<le> U32_MAX" and "snd (sy_server st) = []"
    and "push_sync_once P st = (st', Ok x)" and "(r, Ok reply) \<in> set (snd (sy_server st'))"
    and "(storage_step (sp_storage P))\<^sup>*\<^sup>* (sy_storage st') (sy_storage later)"
    and "\<And>n since. new_revision reply \<le> since \<Longrightarrow> g n since = list_changes P n since"
  shows "pull_sync_once (P\<lparr>list_changes := g\<rparr>) later = pull_sync_once P later"
proof -
  obtain ws where ws: "lists_waiting (db_view (sy_storage st)) ws" "length ws \<le> U32_MAX"
    using waiting_rows [OF assms(3)] assms(4) by metis
  from sync_storage.push_once_effect [OF backend_laws [OF assms(1)] assms(7) refl assms(2,3) ws] assms(5,6)
  obtain k where k: "db_inv (sy_storage st')" "k \<le> length (snd (sy_server st'))"
    "map (Ok \<circ> fst) (snd (sy_server st')) = map (pushed_record (sp_json P) (db_view (sy_storage st)))
       (take (length (snd (sy_server st'))) (sendable (db_view (sy_storage st))))"
    "list_all (accepted_below (sync_revision (sy_storage st'))) (take k (snd (sy_server st')))"
    "k = length (sendable (db_view (sy_storage st)))" by auto
  have "length (snd (sy_server st')) \<le> k" using arg_cong [OF k(3), of length] k(5) by simp
  then have "take k (snd (sy_server st')) = snd (sy_server st')" by simp
  with k(4) assms(8) have "new_revision reply \<le> sync_revision (sy_storage st')"
    by (auto simp: list_all_iff accepted_below_def)
  moreover have "db_inv (sy_storage later) \<and> sync_revision (sy_storage st') \<le> sync_revision (sy_storage later)"
    using sync_storage.steps_forward [OF backend_laws [OF assms(1)] assms(9) k(1)] by simp
  ultimately show ?thesis using assms(10) by (intro pull_asks_cursor [OF assms(1)]) auto
qed

section \<open>Restart\<close>

text \<open>A change that was queued is replayed after a crash: the first thing a restarted processor gives to the
  application is the change queued last, with its record, schema version and fields as they were requested, unless
  the storage fails to read it.\<close>

theorem restart_replays_last_change:
  assumes "backend (sp_storage P)" and "db_inv s" and "json_roundtrip (sp_json P)" and "version_fits (ur_schema u)"
    and "set_outgoing_record (sp_storage P) (sp_json P) s u = (sy_storage st, Ok i)"
    and "ensure_outgoing_record_committed P st = (st', res)"
  shows "i = ur_id u \<and>
    ((\<exists>e. res = Err (StorageFailed e)) \<or>
     (\<exists>c. rc_id (oc_change c) = ur_id u \<and> rc_schema (oc_change c) = ur_schema u \<and> rc_fields (oc_change c) = ur_fields u
        \<and> (sy_app st', res) = (case on_replay_outgoing_change P (sy_app st) c of (a, x) \<Rightarrow> (a, map_err SyncMessage x))))"
proof -
  note laws = backend_laws [OF assms(1)]
  from fields_roundtrip [OF assms(3)] obtain ts where
    ts: "print_fields (sp_json P) (ur_fields u) = Ok ts" "parse_fields (sp_json P) ts = Ok (ur_fields u)" by blast
  let ?u = "\<lparr>ur_id = ur_id u, ur_schema = schema_to_string (ur_schema u), ur_fields = ts\<rparr>"
  from assms(5) ts obtain n where a: "ss_add_outgoing_change (sp_storage P) s ?u = (sy_storage st, Ok n)" and i: "i = ur_id u"
    by (auto simp: set_outgoing_record_def unversioned_to_storage_def split: sum.splits prod.splits)
  obtain s2 l where g: "ss_get_latest_outgoing_change (sp_storage P) (sy_storage st) = (s2, l)" by fastforce
  note run = assms(6) [unfolded ensure_outgoing_record_committed_def g, simplified]
  show ?thesis
  proof (cases l)
    case (Inl e)
    with run i show ?thesis by auto
  next
    case (Inr o')
    with sync_storage.add [OF laws assms(2) a] sync_storage.latest [OF laws _ g]
    obtain d where d: "o' = Some d" "oc_change d = \<lparr>rc_id = ur_id u, rc_schema = schema_to_string (ur_schema u),
        rc_fields = ts, rc_local_revision = n\<rparr>" by (auto simp: view_enqueue_def view_outgoing_def)
    show ?thesis
    proof (cases "outgoing_from_storage (sp_json P) d")
      case (Inl e)
      with run i Inr d show ?thesis by auto
    next
      case (Inr c)
      then have "rc_id (oc_change c) = ur_id u \<and> rc_schema (oc_change c) = ur_schema u \<and> rc_fields (oc_change c) = ur_fields u"
        using d ts schema_roundtrip [OF assms(4)]
        by (auto simp: outgoing_from_storage_def change_from_storage_def parse_schema_def map_err_def rbind_def split: sum.splits)
      moreover have "(sy_app st', res) = (case on_replay_outgoing_change P (sy_app st) c of (a, x) \<Rightarrow> (a, map_err SyncMessage x))"
        using run Inr d \<open>l = Ok o'\<close> by (auto simp: map_err_def split: prod.splits sum.splits)
      ultimately show ?thesis using i by blast
    qed
  qed
qed

section \<open>Retries\<close>

definition wake_time :: "BackoffHandle \<Rightarrow> system_time" where
  "wake_time h = bh_started_at h + bh_duration h"

text \<open>The delay after which a failing turn of the loop asks to be repeated.\<close>

definition retry_delay :: "(duration \<Rightarrow> duration) \<Rightarrow> SyncLoopEvent \<Rightarrow> duration" where
  "retry_delay grow event =
     (case event of BackoffFired d queued \<Rightarrow> grow (foldl min d queued) | _ \<Rightarrow> one_second)"

lemma schedule_backoff_wakes:
  assumes "0 < d" and "\<forall>h. handle = Some h \<longrightarrow> bh_started_at h \<le> now"
  shows "\<exists>h. schedule_backoff now d handle = Some h \<and> now < wake_time h \<and> wake_time h \<le> now + d"
  using assms by (cases handle) (auto simp: schedule_backoff_def wake_time_def Let_def)

lemma fail_and_schedule_failures [simp]:
  "lp_failures (fail_and_schedule now d lp) = Suc (lp_failures lp)"
  "lp_backoff (fail_and_schedule now d lp) = schedule_backoff now d (lp_backoff lp)"
  "lp_failures (sync_failed lp) = Suc (lp_failures lp)" "lp_backoff (sync_failed lp) = lp_backoff lp"
  by (simp_all add: fail_and_schedule_def sync_failed_def)


section \<open>Examples\<close>

text \<open>A server that counts the revisions of each record, and a processor on SQLite that uses it.\<close>

definition counting_server ::
  "(RecordId \<Rightarrow> u64) \<Rightarrow> (SchemaVersion, string) Record \<Rightarrow> (RecordId \<Rightarrow> u64) \<times> (string + SetRecordReply)" where
  "counting_server n r =
     (if rec_revision r = n (rec_id r)
      then (n(rec_id r := n (rec_id r) + 1), Ok \<lparr>reply_status = SetRecordSuccess, new_revision = n (rec_id r) + 1\<rparr>)
      else (n, Ok \<lparr>reply_status = SetRecordConflict, new_revision = 0\<rparr>))"

definition sample_processor ::
  "(SyncDb, string, unit \<times> (record_key \<times> (string + RecordOutcome)) list,
    (RecordId \<Rightarrow> u64) \<times> ((SchemaVersion, string) Record \<times> (string + SetRecordReply)) list) SyncProcessor" where
  "sample_processor =
     \<lparr>sp_storage = sqlite_storage, sp_json = \<lparr>from_json = Ok, to_json = Ok\<rparr>,
      on_incoming_change = logged_handler (\<lambda>a c. (a, Ok RecordCompleted)),
      on_replay_outgoing_change = (\<lambda>a c. (a, Ok ())),
      set_record = logged_server counting_server, list_changes = (\<lambda>n since. (n, Ok []))\<rparr>"

definition sample_state ::
  "SyncDb \<Rightarrow> (SyncDb, unit \<times> (record_key \<times> (string + RecordOutcome)) list,
    (RecordId \<Rightarrow> u64) \<times> ((SchemaVersion, string) Record \<times> (string + SetRecordReply)) list) SyncState" where
  "sample_state db = \<lparr>sy_storage = db, sy_app = ((), []), sy_server = ((\<lambda>_. 0), [])\<rparr>"

text \<open>A database with one queued change, and one record that waits.\<close>

definition sample_db :: SyncDb where
  "sample_db = \<lparr>connections = [], sync_revision = 0,
     sync_outgoing = [\<lparr>rc_id = \<lparr>rid_type = ''Contact'', rid_data_id = ''a''\<rparr>, rc_schema = ''1.0.0'',
        rc_fields = [(''name'', ''a'')], rc_local_revision = 1\<rparr>],
     sync_state = [], sync_incoming = [((\<lparr>rid_type = ''Contact'', rid_data_id = ''b''\<rparr>, 6), sample_record ''b'' 6)]\<rparr>"

lemma sample_db_facts [simp]:
  "db_inv sample_db" "length (sync_incoming sample_db) \<le> U32_MAX" "length (sync_outgoing sample_db) \<le> U32_MAX"
  by (auto simp: sample_db_def db_inv_def view_ok_def db_view_def hm_ok_def hm_get_def sample_record_def U32_MAX_def
      split: if_splits)

lemma sample_schema: "schema_from_str ''1.0.0'' = Ok \<lparr>major = 1, minor = 0, patch = 0\<rparr>"
proof -
  have "schema_to_string \<lparr>major = 1, minor = 0, patch = 0\<rparr> = ''1.0.0''" by code_simp
  with schema_roundtrip [of "\<lparr>major = 1, minor = 0, patch = 0\<rparr>"] show ?thesis by (simp add: version_fits_def)
qed

lemma sample_processor_simps [simp]:
  "backend (sp_storage sample_processor)"
  "on_incoming_change sample_processor = logged_handler (\<lambda>a c. (a, Ok RecordCompleted))"
  "set_record sample_processor = logged_server counting_server"
  "json_roundtrip (sp_json sample_processor)"
  by (simp_all add: sample_processor_def backend_def json_roundtrip_def)

lemma sample_state_simps [simp]:
  "sy_storage (sample_state db) = db" "snd (sy_app (sample_state db)) = []" "snd (sy_server (sample_state db)) = []"
  by (simp_all add: sample_state_def)

lemma sample_push:
  "\<exists>st' reply r. push_sync_once sample_processor (sample_state sample_db) = (st', Ok (Some 1))
     \<and> (r, Ok reply) \<in> set (snd (sy_server st')) \<and> new_revision reply = 1"
  by (simp add: push_sync_once_def push_sync_batch_def sample_processor_def sample_state_def sqlite_defs with_connection_def
      connect_def sample_db_def select_outgoing_def select_incoming_def with_parent_row_def with_old_row_def U32_MAX_def hm_values_def
      hm_get_def sample_record_def outgoing_from_storage_def change_from_storage_def parse_schema_def sample_schema
      parse_fields_def parent_from_storage_def push_sync_record_def merge_change_def logged_server_def counting_server_def
      record_to_storage_def print_fields_def map_err_def fits_i64_def sat_add_def Let_def
      hm_insert_all_def parent_fields_def hm_insert_def)

lemma counting_server_strict: "strict_server (\<lambda>n. fst n) (logged_server counting_server)"
  by (auto simp: strict_server_def logged_server_def counting_server_def split: if_splits)

theorem pull_keeps_unfinished_witness:
  "sync_outgoing (sy_storage (fst (pull_sync_once_local sample_processor (sample_state sample_db)))) = sync_outgoing sample_db"
proof -
  obtain st' res where "pull_sync_once_local sample_processor (sample_state sample_db) = (st', res)" by fastforce
  from pull_keeps_unfinished [of sample_processor _ "sample_state sample_db", OF _ _ _ _ _ this] show ?thesis
    using \<open>pull_sync_once_local _ _ = _\<close> by simp
qed

theorem push_loses_nothing_witness:
  "\<exists>k. sync_outgoing (sy_storage (fst (push_sync_once sample_processor (sample_state sample_db)))) =
     filter (\<lambda>c. c \<notin> set (take k (sendable (db_view sample_db)))) (sync_outgoing sample_db)"
proof -
  obtain st' res where "push_sync_once sample_processor (sample_state sample_db) = (st', res)" by fastforce
  from push_loses_nothing [of sample_processor _ "sample_state sample_db", OF _ _ _ _ _ _ this] show ?thesis
    using \<open>push_sync_once _ _ = _\<close> by auto
qed

theorem push_round_one_change_per_record_witness:
  "distinct (map rc_id (sendable (db_view sample_db)))"
proof -
  from sample_push obtain st' where "push_sync_once sample_processor (sample_state sample_db) = (st', Ok (Some 1))" by blast
  from push_round_one_change_per_record [of sample_processor "\<lambda>n. fst n" "sample_state sample_db", OF _ _ _ _ _ this]
  show ?thesis by (simp add: counting_server_strict)
qed

theorem pull_after_push_skips_witness:
  "let st = fst (push_sync_once sample_processor (sample_state sample_db)) in
   pull_sync_once (sample_processor\<lparr>list_changes := \<lambda>n since. if 1 \<le> since then (n, Ok []) else (n, Err ''old'')\<rparr>) st
   = pull_sync_once sample_processor st"
proof -
  let ?g = "\<lambda>(n :: (RecordId \<Rightarrow> u64) \<times> ((SchemaVersion, string) Record \<times> (string + SetRecordReply)) list) (since :: u64).
    if 1 \<le> since then (n, Ok [] :: string + (SchemaVersion, string) Record list) else (n, Err ''old'')"
  from sample_push obtain st' reply r where p: "push_sync_once sample_processor (sample_state sample_db) = (st', Ok (Some 1))"
    and r: "(r, Ok reply) \<in> set (snd (sy_server st'))" "new_revision reply = 1" by blast
  have "pull_sync_once (sample_processor\<lparr>list_changes := ?g\<rparr>) st' = pull_sync_once sample_processor st'"
  proof (rule pull_after_push_skips [OF _ _ _ _ _ _ p r(1), of counting_server])
    show "?g n since = list_changes sample_processor n since" if "new_revision reply \<le> since" for n since
      using that r(2) by (simp add: sample_processor_def)
  qed simp_all
  with p show ?thesis by simp
qed

theorem restart_replays_last_change_witness:
  "let u = \<lparr>ur_id = \<lparr>rid_type = ''Contact'', rid_data_id = ''a''\<rparr>, ur_schema = \<lparr>major = 1, minor = 0, patch = 0\<rparr>,
             ur_fields = [(''name'', ''a'')]\<rparr>
   in snd (set_outgoing_record sqlite_storage (sp_json sample_processor) (empty_db []) u) = Ok (ur_id u)"
proof -
  let ?u = "\<lparr>ur_id = \<lparr>rid_type = ''Contact'', rid_data_id = ''a''\<rparr>, ur_schema = \<lparr>major = 1, minor = 0, patch = 0\<rparr>,
             ur_fields = [(''name'', ''a'')]\<rparr>"
  have S: "sp_storage sample_processor = sqlite_storage" by (simp add: sample_processor_def)
  obtain s i where s: "set_outgoing_record (sp_storage sample_processor) (sp_json sample_processor) (empty_db []) ?u = (s, Ok i)"
    by (simp add: set_outgoing_record_def sample_processor_def unversioned_to_storage_def print_fields_def map_err_def
        sqlite_defs with_connection_def connect_def empty_db_def next_queue_id_def fits_i64_def Let_def)
  then have s': "set_outgoing_record (sp_storage sample_processor) (sp_json sample_processor) (empty_db []) ?u
      = (sy_storage (sample_state s), Ok i)" by simp
  obtain st' res where e: "ensure_outgoing_record_committed sample_processor (sample_state s) = (st', res)" by fastforce
  have "i = ur_id ?u"
    using restart_replays_last_change [OF _ empty_db_inv _ _ s' e] by (simp add: version_fits_def)
  with s show ?thesis by (simp add: S)
qed


end
