(* ===== verification/Float64.thy ===== *)
theory Float64
  imports Prelude Complex_Main
begin

text \<open>
  Double-precision numbers as far as the program uses them: sign and magnitude with a rational magnitude, infinities
  and NaN; multiplication and division rounded to nearest, ties to even, with 53 bits and the exponent range of
  IEEE 754; comparison; the cast to an unsigned integer, which truncates and saturates.
\<close>

datatype f64 = F64_NaN | F64_Inf bool | F64 bool rat

section \<open>Rounding\<close>

fun bit_length :: "nat \<Rightarrow> nat" where
  "bit_length n = (if n = 0 then 0 else Suc (bit_length (n div 2)))"

declare bit_length.simps [simp del]

text \<open>The binary logarithm of a positive rational, rounded down.\<close>

definition floor_log2 :: "rat \<Rightarrow> int" where
  "floor_log2 r =
     (case quotient_of r of (p, q) \<Rightarrow>
        let k = int (bit_length (nat p)) - int (bit_length (nat q)) in if 2 powi k \<le> r then k else k - 1)"

definition round_half_even :: "rat \<Rightarrow> int" where
  "round_half_even x =
     (let n = \<lfloor>x\<rfloor>; d = x - of_int n
      in if d < 1 / 2 then n else if 1 / 2 < d then n + 1 else if even n then n else n + 1)"

definition f64_exponent :: "rat \<Rightarrow> int" where
  "f64_exponent m = max (floor_log2 m - 52) (- 1074)"

definition f64_round :: "bool \<Rightarrow> rat \<Rightarrow> f64" where
  "f64_round negative m =
     (if m = 0 then F64 negative 0
      else
        let e = f64_exponent m; v = of_int (round_half_even (m * 2 powi (- e))) * 2 powi e
        in if 2 ^ 1024 \<le> v then F64_Inf negative else F64 negative v)"

section \<open>Operations\<close>

fun f64_mul :: "f64 \<Rightarrow> f64 \<Rightarrow> f64" where
  "f64_mul F64_NaN y = F64_NaN"
| "f64_mul x F64_NaN = F64_NaN"
| "f64_mul (F64_Inf a) (F64_Inf b) = F64_Inf (a \<noteq> b)"
| "f64_mul (F64_Inf a) (F64 b n) = (if n = 0 then F64_NaN else F64_Inf (a \<noteq> b))"
| "f64_mul (F64 a m) (F64_Inf b) = (if m = 0 then F64_NaN else F64_Inf (a \<noteq> b))"
| "f64_mul (F64 a m) (F64 b n) = f64_round (a \<noteq> b) (m * n)"

fun f64_div :: "f64 \<Rightarrow> f64 \<Rightarrow> f64" where
  "f64_div F64_NaN y = F64_NaN"
| "f64_div x F64_NaN = F64_NaN"
| "f64_div (F64_Inf a) (F64_Inf b) = F64_NaN"
| "f64_div (F64_Inf a) (F64 b n) = F64_Inf (a \<noteq> b)"
| "f64_div (F64 a m) (F64_Inf b) = F64 (a \<noteq> b) 0"
| "f64_div (F64 a m) (F64 b n) =
     (if n = 0 then (if m = 0 then F64_NaN else F64_Inf (a \<noteq> b)) else f64_round (a \<noteq> b) (m / n))"

fun f64_abs :: "f64 \<Rightarrow> f64" where
  "f64_abs F64_NaN = F64_NaN"
| "f64_abs (F64_Inf a) = F64_Inf False"
| "f64_abs (F64 a m) = F64 False m"

definition signed_value :: "bool \<Rightarrow> rat \<Rightarrow> rat" where
  "signed_value negative m = (if negative then - m else m)"

fun f64_gt :: "f64 \<Rightarrow> f64 \<Rightarrow> bool" where
  "f64_gt F64_NaN y = False"
| "f64_gt x F64_NaN = False"
| "f64_gt (F64_Inf a) y = (\<not> a \<and> y \<noteq> F64_Inf False)"
| "f64_gt (F64 a m) (F64_Inf b) = b"
| "f64_gt (F64 a m) (F64 b n) = (signed_value a m > signed_value b n)"

fun f64_as_uint :: "nat \<Rightarrow> f64 \<Rightarrow> nat" where
  "f64_as_uint w F64_NaN = 0"
| "f64_as_uint w (F64_Inf a) = (if a then 0 else 2 ^ w - 1)"
| "f64_as_uint w (F64 a m) = (if a then 0 else min (nat \<lfloor>m\<rfloor>) (2 ^ w - 1))"

section \<open>What rounding keeps\<close>

lemma bit_length_bounds: "0 < n \<Longrightarrow> 2 ^ (bit_length n - 1) \<le> n \<and> n < 2 ^ bit_length n"
proof (induction n rule: bit_length.induct)
  case (1 n)
  show ?case
  proof (cases "n div 2 = 0")
    case True
    with 1(2) have "n = 1" by simp
    then show ?thesis by (simp add: bit_length.simps)
  next
    case False
    with 1 have IH: "2 ^ (bit_length (n div 2) - 1) \<le> n div 2" "n div 2 < 2 ^ bit_length (n div 2)" by simp_all
    from False have "bit_length (n div 2) \<noteq> 0" by (simp add: bit_length.simps [of "n div 2"])
    then obtain k where k: "bit_length (n div 2) = Suc k" by (cases "bit_length (n div 2)") simp_all
    from 1(2) have "bit_length n = Suc (Suc k)" by (simp add: bit_length.simps [of n] k)
    with IH k show ?thesis by (simp add: less_mult_imp_div_less mult.commute) linarith
  qed
qed

lemma bit_length_pos: "0 < n \<Longrightarrow> 0 < bit_length n"
  by (simp add: bit_length.simps)

lemma floor_log2_bounds:
  assumes "0 < r"
  shows "2 powi floor_log2 r \<le> r" and "r < 2 powi (floor_log2 r + 1)"
proof -
  obtain p q where pq: "quotient_of r = (p, q)" by fastforce
  have q: "0 < q" using pq by (rule quotient_of_denom_pos)
  have r: "r = of_int p / of_int q" using pq by (rule quotient_of_div)
  with assms q have p: "0 < p" by (simp add: zero_less_divide_iff)
  let ?a = "bit_length (nat p)" and ?b = "bit_length (nat q)"
  let ?k = "int ?a - int ?b"
  have A: "2 ^ (?a - 1) \<le> nat p" "nat p < 2 ^ ?a" and B: "2 ^ (?b - 1) \<le> nat q" "nat q < 2 ^ ?b"
    using bit_length_bounds [of "nat p"] bit_length_bounds [of "nat q"] p q by simp_all
  have ab: "0 < ?a" "0 < ?b" using bit_length_pos p q by simp_all
  have P: "(2 :: rat) powi (int ?a - 1) \<le> of_int p" "of_int p < (2 :: rat) powi int ?a"
    and Q: "(2 :: rat) powi (int ?b - 1) \<le> of_int q" "of_int q < (2 :: rat) powi int ?b"
  proof -
    have e: "(2 :: rat) powi (int n - 1) = of_nat (2 ^ (n - 1))" "(2 :: rat) powi int n = of_nat (2 ^ n)" if "0 < n" for n
      using that by (cases n) simp_all
    have c: "(of_int p :: rat) = of_nat (nat p)" "(of_int q :: rat) = of_nat (nat q)" using p q by simp_all
    show "(2 :: rat) powi (int ?a - 1) \<le> of_int p" "of_int p < (2 :: rat) powi int ?a"
      "(2 :: rat) powi (int ?b - 1) \<le> of_int q" "of_int q < (2 :: rat) powi int ?b"
      unfolding e [OF ab(1)] e [OF ab(2)] c of_nat_le_iff of_nat_less_iff by (rule A B)+
  qed
  have up: "r < 2 powi (?k + 1)"
  proof -
    have "r < 2 powi int ?a / 2 powi (int ?b - 1)" unfolding r
      by (rule frac_less) (use P Q p q in simp_all)
    also have "\<dots> = 2 powi (?k + 1)" using power_int_diff [of "2 :: rat" "int ?a" "int ?b - 1"] by (simp add: algebra_simps)
    finally show ?thesis .
  qed
  have low: "2 powi (?k - 1) \<le> r"
  proof -
    have "2 powi (?k - 1) = 2 powi (int ?a - 1) / (2 powi int ?b :: rat)"
      using power_int_diff [of "2 :: rat" "int ?a - 1" "int ?b"] by (simp add: algebra_simps)
    also have "\<dots> \<le> r" unfolding r by (rule frac_le) (use P Q p q in simp_all)
    finally show ?thesis .
  qed
  show "2 powi floor_log2 r \<le> r" using low by (simp add: floor_log2_def pq Let_def)
  show "r < 2 powi (floor_log2 r + 1)" using up by (simp add: floor_log2_def pq Let_def)
qed

lemma floor_log2_unique:
  assumes "2 powi k \<le> r" and "r < 2 powi (k + 1)"
  shows "floor_log2 r = k"
proof -
  have r: "0 < r" using assms(1) by (meson less_le_trans zero_less_numeral zero_less_power_int)
  have "(2 :: rat) powi k < 2 powi (floor_log2 r + 1)" "(2 :: rat) powi floor_log2 r < 2 powi (k + 1)"
    using floor_log2_bounds [OF r] assms by linarith+
  then have "k < floor_log2 r + 1" "floor_log2 r < k + 1"
    using power_int_increasing [of "floor_log2 r + 1" k "2 :: rat"] power_int_increasing [of "k + 1" "floor_log2 r" "2 :: rat"]
    by (auto simp flip: not_le)
  then show ?thesis by simp
qed

lemma round_half_even_ge: "of_int k \<le> x \<Longrightarrow> k \<le> round_half_even x"
  using le_floor_iff [of k x] by (auto simp: round_half_even_def Let_def)

lemma round_half_even_le: "x \<le> of_int k \<Longrightarrow> round_half_even x \<le> k"
proof -
  assume x: "x \<le> of_int k"
  then have f: "\<lfloor>x\<rfloor> \<le> k" by (simp add: floor_le_iff)
  show ?thesis
  proof (cases "\<lfloor>x\<rfloor> = k")
    case True
    with x have "x = of_int k" by (metis floor_correct order_antisym)
    then show ?thesis by (simp add: round_half_even_def)
  next
    case False
    with f show ?thesis by (auto simp: round_half_even_def Let_def)
  qed
qed

text \<open>A magnitude of at least one stays at least one, and large magnitudes have no low bits.\<close>

lemma f64_round_ge_one:
  assumes "1 \<le> m"
  shows "f64_round s m = F64_Inf s \<or> (\<exists>v. f64_round s m = F64 s v \<and> 1 \<le> v)"
proof -
  let ?l = "floor_log2 m" and ?e = "f64_exponent m"
  have m: "0 < m" using assms by simp
  have "0 \<le> ?l"
  proof (rule ccontr)
    assume "\<not> 0 \<le> ?l"
    then have "(2 :: rat) powi (?l + 1) \<le> 2 powi 0" by (intro power_int_increasing) simp_all
    with floor_log2_bounds(2) [OF m] assms show False by simp
  qed
  then have e: "?e = ?l - 52" by (simp add: f64_exponent_def)
  have "(2 :: rat) powi 52 = 2 powi ?l * 2 powi (- ?e)" by (simp add: e flip: power_int_add)
  also have "\<dots> \<le> m * 2 powi (- ?e)" using floor_log2_bounds(1) [OF m] by (intro mult_right_mono) simp_all
  finally have "of_int (2 ^ 52) \<le> m * 2 powi (- ?e)" by simp
  then have "2 ^ 52 \<le> round_half_even (m * 2 powi (- ?e))" by (rule round_half_even_ge)
  then have "(of_int (2 ^ 52) :: rat) \<le> of_int (round_half_even (m * 2 powi (- ?e)))" by (simp only: of_int_le_iff)
  then have "of_int (2 ^ 52) * 2 powi ?e \<le> of_int (round_half_even (m * 2 powi (- ?e))) * (2 powi ?e :: rat)"
    by (intro mult_right_mono) simp_all
  moreover have "of_int (2 ^ 52) * (2 powi ?e :: rat) = 2 powi ?l"
    using power_int_add [of "2 :: rat" 52 ?e] by (simp add: e)
  moreover have "(2 :: rat) powi 0 \<le> 2 powi ?l" using \<open>0 \<le> ?l\<close> by (intro power_int_increasing) simp_all
  ultimately have "1 \<le> of_int (round_half_even (m * 2 powi (- ?e))) * (2 powi ?e :: rat)" by (simp only: power_int_0_right)
  then show ?thesis using m unfolding f64_round_def Let_def by auto
qed

lemma f64_round_gap:
  assumes "f64_round s m = F64 s' v" and "2 ^ 63 \<le> v" and "0 \<le> m"
  shows "\<exists>k :: int. v = of_int (2048 * k)"
proof -
  let ?l = "floor_log2 m" and ?e = "f64_exponent m"
  let ?n = "round_half_even (m * 2 powi (- ?e))"
  from assms have m: "0 < m" and v: "v = of_int ?n * 2 powi ?e" by (auto simp: f64_round_def Let_def split: if_splits)
  show ?thesis
  proof (cases "11 \<le> ?e")
    case True
    then have "(2 :: rat) powi ?e = 2 powi 11 * 2 powi (?e - 11)" using power_int_add [of "2 :: rat" 11 "?e - 11"] by simp
    also have "\<dots> = of_int (2048 * 2 ^ nat (?e - 11))" using True by (simp add: power_int_def)
    finally have "v = of_int (2048 * (?n * 2 ^ nat (?e - 11)))" unfolding v by simp
    then show ?thesis by blast
  next
    case False
    have "m * 2 powi (- ?e) \<le> 2 powi (?l + 1) * 2 powi (- ?e)"
      using floor_log2_bounds(2) [OF m] by (intro mult_right_mono) simp_all
    also have "\<dots> = 2 powi (?l + 1 - ?e)" by (simp flip: power_int_add)
    also have "\<dots> \<le> 2 powi 53" by (intro power_int_increasing) (simp_all add: f64_exponent_def)
    finally have "m * 2 powi (- ?e) \<le> of_int (2 ^ 53)" by simp
    then have "?n \<le> 2 ^ 53" by (rule round_half_even_le)
    then have "(of_int ?n :: rat) \<le> of_int (2 ^ 53)" by (simp only: of_int_le_iff)
    then have "v \<le> of_int (2 ^ 53) * 2 powi ?e" unfolding v by (intro mult_right_mono) simp_all
    also have "\<dots> \<le> of_int (2 ^ 53) * 2 powi 10" using False by (intro mult_left_mono power_int_increasing) simp_all
    finally have "v = 2 ^ 63" using assms(2) by simp
    then show ?thesis by (intro exI [of _ "2 ^ 52"]) simp
  qed
qed

lemma f64_as_uint_bound: "f64_as_uint w x < 2 ^ w"
proof -
  have "n \<le> 2 ^ w - 1 \<Longrightarrow> n < 2 ^ w" for n :: nat using zero_less_power [of "2 :: nat" w] by linarith
  then show ?thesis by (cases x) simp_all
qed

end
