(* ===== verification/Conversion_Pools.thy ===== *)
theory Conversion_Pools
  imports Tree_Model Float64
begin

text \<open>
  Liquidity pools for token conversion: \<open>crates/flashnet/src/models.rs\<close> (\<open>Pool\<close> and \<open>calculate_amount_in\<close>), \<open>pool_selection.rs\<close>, and
  \<open>decode_token_identifier\<close> of \<open>utils.rs\<close>. An operation that would panic, a division by zero, is the outer \<open>None\<close>; the
  decoder of token identifiers (Bech32m) is an argument.

  The required input is shown to be the least one with which a constant-product pool gives the output, the
  computation and the selection never panic, and the selected pool is the best one under the scores.
\<close>

section \<open>Data\<close>

datatype FlashnetError =
    FlashnetNetwork string "nat option"
  | FlashnetExecution FlashnetError "string option"
  | FlashnetSession string
  | FlashnetSigner string
  | FlashnetWallet string
  | FlashnetGeneric string

datatype CurveType = ConstantProduct | SingleSided | V3Concentrated | UnknownCurve

record Pool =
  lp_public_key :: string
  host_name :: string
  host_fee_bps :: u32
  lp_fee_bps :: u32
  asset_a_address :: string
  asset_b_address :: string
  asset_a_reserve :: "u128 option"
  asset_b_reserve :: "u128 option"
  virtual_reserve_a :: "u128 option"
  virtual_reserve_b :: "u128 option"
  threshold_pct :: "nat option"
  current_price_a_in_b :: "f64 option"
  tvl_asset_b :: "u64 option"
  volume_24h_asset_b :: "u64 option"
  price_change_percent_24h :: "f64 option"
  curve_type :: "CurveType option"
  initial_reserve_a :: "u128 option"
  bonding_progress_percent :: "f64 option"
  graduation_threshold_amount :: "u64 option"
  pool_created_at :: string
  pool_updated_at :: string

definition BTC_ASSET_ADDRESS :: string where
  "BTC_ASSET_ADDRESS = ''020202020202020202020202020202020202020202020202020202020202020202''"

type_synonym token_decoder = "string \<Rightarrow> Network option \<Rightarrow> string + string"

definition decode_token_identifier :: "token_decoder \<Rightarrow> string \<Rightarrow> Network \<Rightarrow> FlashnetError + string" where
  "decode_token_identifier bech token_id network =
     (if take 4 token_id = ''btkn''
      then map_err (\<lambda>e. FlashnetGeneric (''Invalid token identifier: '' @ e)) (bech token_id (Some network))
      else Ok token_id)"

section \<open>The required input\<close>

definition checked_mul :: "nat \<Rightarrow> nat \<Rightarrow> nat \<Rightarrow> nat option" where
  "checked_mul w a b = (if a * b < 2 ^ w then Some (a * b) else None)"

definition overflow_err :: FlashnetError where
  "overflow_err = FlashnetGeneric ''Amount overflow calculating amount in''"

text \<open>An amount with a number of basis points added.\<close>

definition add_bps :: "u128 \<Rightarrow> u32 \<Rightarrow> u128 option" where
  "add_bps amount bps = map_option (\<lambda>x. x div 10000) (checked_mul 128 amount (sat_add 128 bps 10000))"

definition round_up_64 :: "u128 \<Rightarrow> u128" where
  "round_up_64 amount = sat_add 128 amount 63 div 64 * 64"

text \<open>The output with the slippage buffer and the fees that are taken from it.\<close>

definition amount_out_before_output_fees :: "Pool \<Rightarrow> bool \<Rightarrow> u128 \<Rightarrow> u32 \<Rightarrow> u32 \<Rightarrow> FlashnetError + u128" where
  "amount_out_before_output_fees pool is_a_to_b amount_out0 max_slippage_bps integrator_fee_bps =
     (let asset_out_address = (if is_a_to_b then asset_b_address pool else asset_a_address pool);
          is_v3 = (curve_type pool = Some V3Concentrated);
          amount_out = (if asset_out_address = BTC_ASSET_ADDRESS \<and> \<not> is_v3 then round_up_64 amount_out0 else amount_out0)
      in if 10000 < max_slippage_bps then Err (FlashnetGeneric ''Max slippage basis points cannot exceed 10000'')
         else rbind (ok_or (add_bps amount_out max_slippage_bps) overflow_err) (\<lambda>amount_out_with_slippage.
           if is_a_to_b
           then ok_or (add_bps amount_out_with_slippage (sat_add 32 (host_fee_bps pool) integrator_fee_bps)) overflow_err
           else Ok amount_out_with_slippage))"

definition div_ceil :: "u128 \<Rightarrow> u128 \<Rightarrow> u128 option" where
  "div_ceil numerator denominator =
     (if denominator = 0 then None else Some (sat_add 128 numerator (sat_sub denominator 1) div denominator))"

definition PRICE_SCALE :: u128 where
  "PRICE_SCALE = 1000000000"

definition LARGE_PRICE_SCALE :: u128 where
  "LARGE_PRICE_SCALE = 1000000"

definition LARGE_PRICE_THRESHOLD :: f64 where
  "LARGE_PRICE_THRESHOLD = F64 False 100"

definition as_f64 :: "nat \<Rightarrow> f64" where
  "as_f64 n = f64_round False (of_nat n)"

text \<open>Numerator and denominator of the input at the current price.\<close>

definition price_fraction :: "f64 \<Rightarrow> bool \<Rightarrow> u128 \<Rightarrow> (u128 \<times> u128) option" where
  "price_fraction price is_a_to_b amount_out =
     (if is_a_to_b
      then if f64_gt price LARGE_PRICE_THRESHOLD
           then let price_scaled = f64_as_uint 128 (f64_mul price (as_f64 LARGE_PRICE_SCALE))
                in map_option (\<lambda>n. (n, price_scaled)) (checked_mul 128 amount_out LARGE_PRICE_SCALE)
           else let price_scaled = f64_as_uint 128 (f64_div (as_f64 PRICE_SCALE) price)
                in map_option (\<lambda>n. (n, PRICE_SCALE)) (checked_mul 128 amount_out price_scaled)
      else let price_scaled = f64_as_uint 128 (f64_mul price (as_f64 PRICE_SCALE))
           in map_option (\<lambda>n. (n, PRICE_SCALE)) (checked_mul 128 amount_out price_scaled))"

definition amount_in_before_input_fees :: "Pool \<Rightarrow> bool \<Rightarrow> u128 \<Rightarrow> (FlashnetError + u128) option" where
  "amount_in_before_input_fees pool is_a_to_b amount_out =
     (case (curve_type pool = Some V3Concentrated, asset_a_reserve pool, asset_b_reserve pool) of
        (False, Some reserve_a, Some reserve_b) \<Rightarrow>
          (let (reserve_in, reserve_out) = (if is_a_to_b then (reserve_a, reserve_b) else (reserve_b, reserve_a))
           in if reserve_out \<le> amount_out then Some (Err (FlashnetGeneric ''Amount out exceeds reserve out''))
              else case checked_mul 128 reserve_in amount_out of
                     None \<Rightarrow> Some (Err overflow_err)
                   | Some numerator \<Rightarrow> map_option Ok (div_ceil numerator (sat_sub reserve_out amount_out)))
      | _ \<Rightarrow>
          (case current_price_a_in_b pool of
             Some price \<Rightarrow>
               (case price_fraction price is_a_to_b amount_out of
                  None \<Rightarrow> Some (Err overflow_err)
                | Some (numerator, denominator) \<Rightarrow> map_option Ok (div_ceil numerator denominator))
           | None \<Rightarrow> Some (Err (FlashnetGeneric ''Insufficient pool data to calculate amount_in''))))"

definition input_fee_bps :: "Pool \<Rightarrow> bool \<Rightarrow> u32 \<Rightarrow> u32" where
  "input_fee_bps pool is_a_to_b integrator_fee_bps =
     (if is_a_to_b then lp_fee_bps pool
      else sat_add 32 (sat_add 32 (host_fee_bps pool) (lp_fee_bps pool)) integrator_fee_bps)"

definition calculate_amount_in ::
  "token_decoder \<Rightarrow> Pool \<Rightarrow> string \<Rightarrow> u128 \<Rightarrow> u32 \<Rightarrow> u32 \<Rightarrow> Network \<Rightarrow> (FlashnetError + u128) option" where
  "calculate_amount_in bech pool asset_in_address0 amount_out max_slippage_bps integrator_fee_bps network =
     (case decode_token_identifier bech asset_in_address0 network of
        Err e \<Rightarrow> Some (Err e)
      | Ok asset_in_address \<Rightarrow>
          (let is_a_to_b = (asset_in_address = asset_a_address pool)
           in case amount_out_before_output_fees pool is_a_to_b amount_out max_slippage_bps integrator_fee_bps of
                Err e \<Rightarrow> Some (Err e)
              | Ok out \<Rightarrow>
                  (case amount_in_before_input_fees pool is_a_to_b out of
                     None \<Rightarrow> None
                   | Some (Err e) \<Rightarrow> Some (Err e)
                   | Some (Ok n) \<Rightarrow>
                       Some (ok_or (add_bps n (input_fee_bps pool is_a_to_b integrator_fee_bps)) overflow_err))))"

section \<open>Selection\<close>

record PoolScore =
  ps_pool :: Pool
  amount_in_required :: u128
  total_score_bps :: u64
  fee_efficiency_score_bps :: u64
  liquidity_score_bps :: u64
  stability_score_bps :: u64

definition FEE_WEIGHT_BPS :: u64 where "FEE_WEIGHT_BPS = 5000"
definition LIQUIDITY_WEIGHT_BPS :: u64 where "LIQUIDITY_WEIGHT_BPS = 3000"
definition STABILITY_WEIGHT_BPS :: u64 where "STABILITY_WEIGHT_BPS = 2000"

definition checked_div :: "nat \<Rightarrow> nat \<Rightarrow> nat option" where
  "checked_div a b = (if b = 0 then None else Some (a div b))"

definition pool_liquidity :: "Pool \<Rightarrow> u128 option" where
  "pool_liquidity pool = (case tvl_asset_b pool of None \<Rightarrow> asset_b_reserve pool | Some v \<Rightarrow> Some v)"

definition fee_efficiency_score :: "u128 \<Rightarrow> u128 \<Rightarrow> u128 \<Rightarrow> u64 option" where
  "fee_efficiency_score amount_in min_amount_in max_amount_in =
     (if min_amount_in < max_amount_in
      then map_option (\<lambda>x. x mod 2 ^ 64)
             (checked_div (sat_mul 128 (sat_sub max_amount_in amount_in) 10000) (sat_sub max_amount_in min_amount_in))
      else Some 10000)"

definition liquidity_score :: "Pool \<Rightarrow> u128 option \<Rightarrow> u64 option" where
  "liquidity_score pool max_tvl =
     (case max_tvl of
        Some m \<Rightarrow>
          (let l = unwrap_or (pool_liquidity pool) 0
           in if l = 0 then Some 1000 else map_option (\<lambda>x. x mod 2 ^ 64) (checked_div (sat_mul 128 l 10000) m))
      | None \<Rightarrow> Some 5000)"

definition stability_score :: "Pool \<Rightarrow> u64 option" where
  "stability_score pool =
     (case price_change_percent_24h pool of
        None \<Rightarrow> Some 5000
      | Some pct \<Rightarrow>
          (let pct_bps = f64_as_uint 64 (f64_mul (f64_abs pct) (F64 False 100))
           in checked_div (sat_mul 64 10000 10000) (wadd 64 10000 pct_bps)))"

definition weighted_score :: "u64 \<Rightarrow> u64 \<Rightarrow> u64 \<Rightarrow> u64" where
  "weighted_score fee liquidity stability =
     sat_add 64 (sat_add 64 (sat_mul 64 fee FEE_WEIGHT_BPS) (sat_mul 64 liquidity LIQUIDITY_WEIGHT_BPS))
       (sat_mul 64 stability STABILITY_WEIGHT_BPS) div 10000"

definition score_pool :: "Pool \<Rightarrow> u128 \<Rightarrow> u128 \<Rightarrow> u128 \<Rightarrow> u128 option \<Rightarrow> PoolScore option" where
  "score_pool pool amount_in min_amount_in max_amount_in max_tvl =
     Option.bind (fee_efficiency_score amount_in min_amount_in max_amount_in) (\<lambda>fee.
     Option.bind (liquidity_score pool max_tvl) (\<lambda>liquidity.
     Option.bind (stability_score pool) (\<lambda>stability.
       Some \<lparr>ps_pool = pool, amount_in_required = amount_in, total_score_bps = weighted_score fee liquidity stability,
             fee_efficiency_score_bps = fee, liquidity_score_bps = liquidity, stability_score_bps = stability\<rparr>)))"

text \<open>\<open>max_by\<close> with the comparison of the selection; of several greatest elements it returns the last.\<close>

definition score_greater :: "PoolScore \<Rightarrow> PoolScore \<Rightarrow> bool" where
  "score_greater a b \<longleftrightarrow>
     total_score_bps b < total_score_bps a
     \<or> total_score_bps a = total_score_bps b
       \<and> unwrap_or (volume_24h_asset_b (ps_pool b)) 0 < unwrap_or (volume_24h_asset_b (ps_pool a)) 0"

fun best_of :: "PoolScore list \<Rightarrow> PoolScore option" where
  "best_of [] = None"
| "best_of (s # ss) = Some (foldl (\<lambda>a b. if score_greater a b then a else b) s ss)"

fun collect_some :: "'a option list \<Rightarrow> 'a list option" where
  "collect_some [] = Some []"
| "collect_some (x # xs) = Option.bind x (\<lambda>y. map_option ((#) y) (collect_some xs))"

text \<open>The pools that can serve the request, each with its input; only concentrated ones if there is one.\<close>

fun viable_pools ::
  "token_decoder \<Rightarrow> Pool list \<Rightarrow> string \<Rightarrow> u128 \<Rightarrow> u32 \<Rightarrow> u32 \<Rightarrow> Network \<Rightarrow> (Pool \<times> u128) list option" where
  "viable_pools bech [] asset_in out slip fee network = Some []"
| "viable_pools bech (p # ps) asset_in out slip fee network =
     Option.bind (calculate_amount_in bech p asset_in out slip fee network) (\<lambda>r.
     map_option (\<lambda>vs. case r of Ok amount_in \<Rightarrow> (p, amount_in) # vs | Err _ \<Rightarrow> vs)
       (viable_pools bech ps asset_in out slip fee network))"

definition prefer_v3 :: "(Pool \<times> u128) list \<Rightarrow> (Pool \<times> u128) list" where
  "prefer_v3 vs =
     (if list_ex (\<lambda>(p, _). curve_type p = Some V3Concentrated) vs
      then filter (\<lambda>(p, _). curve_type p = Some V3Concentrated) vs else vs)"

definition max_tvl_of :: "(Pool \<times> u128) list \<Rightarrow> u128 option" where
  "max_tvl_of vs =
     (case List.map_filter (\<lambda>(p, _). pool_liquidity p) vs of [] \<Rightarrow> None | x # xs \<Rightarrow> Some (fold max xs x))"

definition no_pool_err :: FlashnetError where
  "no_pool_err = FlashnetGeneric ''No pool can provide the requested output amount''"

definition score_all :: "(Pool \<times> u128) list \<Rightarrow> PoolScore list option" where
  "score_all vs =
     (let amounts = map snd vs;
          min_amount_in = (case amounts of [] \<Rightarrow> 0 | x # xs \<Rightarrow> fold min xs x);
          max_amount_in = (case amounts of [] \<Rightarrow> 0 | x # xs \<Rightarrow> fold max xs x)
      in collect_some (map (\<lambda>(p, amount_in). score_pool p amount_in min_amount_in max_amount_in (max_tvl_of vs)) vs))"

definition select_best_pool ::
  "token_decoder \<Rightarrow> Pool list \<Rightarrow> string \<Rightarrow> u128 \<Rightarrow> u32 \<Rightarrow> u32 \<Rightarrow> Network \<Rightarrow> (FlashnetError + Pool) option" where
  "select_best_pool bech pools asset_in out slip fee network =
     Option.bind (viable_pools bech pools asset_in out slip fee network) (\<lambda>vs0.
       if vs0 = [] then Some (Err no_pool_err)
       else let vs = prefer_v3 vs0 in
         case vs of
           [(p, _)] \<Rightarrow> Some (Ok p)
         | _ \<Rightarrow> map_option (\<lambda>ss. ok_or (map_option ps_pool (best_of ss)) no_pool_err) (score_all vs))"

section \<open>Amounts\<close>

lemma add_bps_ge: "add_bps a bps = Some r \<Longrightarrow> a \<le> r \<and> a * 10000 < 2 ^ 128"
proof -
  assume r: "add_bps a bps = Some r"
  let ?f = "sat_add 128 bps 10000"
  have f: "10000 \<le> ?f" by (simp add: sat_add_def)
  from r have "r = a * ?f div 10000" "a * ?f < 2 ^ 128" by (auto simp: add_bps_def checked_mul_def split: if_splits)
  moreover have "a * 10000 \<le> a * ?f" using f by (rule mult_left_mono) simp
  moreover from this have "a * 10000 div 10000 \<le> a * ?f div 10000" by (rule div_le_mono)
  ultimately show ?thesis by simp
qed

lemma add_bps_exact: "add_bps a bps = Some r \<Longrightarrow> bps < 2 ^ 32 \<Longrightarrow> r = a * (10000 + bps) div 10000"
  by (auto simp: add_bps_def checked_mul_def sat_add_def min_def add.commute split: if_splits)

lemma round_up_64_props:
  assumes "a + 63 < 2 ^ 128"
  shows "a \<le> round_up_64 a" and "round_up_64 a < a + 64" and "64 dvd round_up_64 a"
  using assms by (simp_all add: round_up_64_def sat_add_exact)

lemma round_up_64_fits: "round_up_64 a * 10000 < 2 ^ 128 \<Longrightarrow> a + 63 < 2 ^ 128"
  by (rule ccontr) (simp add: round_up_64_def sat_add_def)

lemma output_target_ge:
  assumes "amount_out_before_output_fees pool is_a_to_b out slip fee = Ok target"
  shows "out \<le> target"
proof -
  from assms obtain a b where a: "a = out \<or> a = round_up_64 out" and b: "add_bps a slip = Some b"
    and t: "target = b \<or> (\<exists>f. add_bps b f = Some target)"
    by (auto simp: amount_out_before_output_fees_def Let_def split: if_splits)
  have "out \<le> a" using a round_up_64_props(1) round_up_64_fits add_bps_ge [OF b] by blast
  moreover have "a \<le> b" "b \<le> target" using add_bps_ge b t by blast+
  ultimately show ?thesis by linarith
qed

text \<open>Division rounded up is the least factor that reaches the numerator.\<close>

lemma div_ceil_least:
  assumes "div_ceil a d = Some n" and "a + d \<le> 2 ^ 128"
  shows "a \<le> n * d" and "a \<le> m * d \<Longrightarrow> n \<le> m"
proof -
  from assms(1) have d: "0 < d" by (auto simp: div_ceil_def split: if_splits)
  with assms have n: "n = (a + (d - 1)) div d" by (simp add: div_ceil_def sat_add_def)
  have "a + (d - 1) = n * d + (a + (d - 1)) mod d" unfolding n by (simp add: div_mult_mod_eq)
  moreover have "(a + (d - 1)) mod d \<le> d - 1" using d mod_less_divisor [of d "a + (d - 1)"] by linarith
  ultimately show "a \<le> n * d" by linarith
  assume "a \<le> m * d"
  then have "a + (d - 1) < (m + 1) * d" using d by simp
  then have "n < m + 1" unfolding n by (simp add: less_mult_imp_div_less)
  then show "n \<le> m" by simp
qed

lemma constant_product_iff:
  fixes ri ro x m :: nat
  assumes "x < ro"
  shows "ri * ro \<le> (ri + m) * (ro - x) \<longleftrightarrow> ri * x \<le> m * (ro - x)"
proof -
  obtain d where "ro = x + d" using assms less_imp_add_positive by blast
  then show ?thesis by (simp add: algebra_simps)
qed

lemma product_fits:
  fixes ri ro x :: nat
  assumes "ri * ro < 2 ^ 128" and "ro < 2 ^ 128" and "x < ro"
  shows "ri * x + (ro - x) \<le> 2 ^ 128"
proof (cases ri)
  case (Suc r)
  have "ri * x + (ro - x) = r * x + ro" using assms(3) by (simp add: Suc)
  also have "\<dots> \<le> r * ro + ro" using assms(3) by simp
  finally show ?thesis using assms(1) by (simp add: Suc)
qed (use assms in simp)

lemma reserve_input:
  assumes "amount_in_before_input_fees pool is_a_to_b out = Some (Ok n)" and "curve_type pool \<noteq> Some V3Concentrated"
    and "asset_a_reserve pool = Some ra" and "asset_b_reserve pool = Some rb"
    and "(ri, ro) = (if is_a_to_b then (ra, rb) else (rb, ra))"
  shows "out < ro" and "div_ceil (ri * out) (ro - out) = Some n"
  using assms
  by (auto simp: amount_in_before_input_fees_def checked_mul_def Let_def split: if_splits option.splits prod.splits)

lemma calculate_amount_in_Ok:
  assumes "calculate_amount_in bech pool asset out slip fee network = Some (Ok a)"
  obtains asset_in target n where "decode_token_identifier bech asset network = Ok asset_in"
    and "amount_out_before_output_fees pool (asset_in = asset_a_address pool) out slip fee = Ok target"
    and "amount_in_before_input_fees pool (asset_in = asset_a_address pool) target = Some (Ok n)"
    and "add_bps n (input_fee_bps pool (asset_in = asset_a_address pool) fee) = Some a"
  using assms by (auto simp: calculate_amount_in_def Let_def split: sum.splits option.splits)

section \<open>No panics\<close>

definition f64_ok :: "f64 \<Rightarrow> bool" where
  "f64_ok x = (case x of F64 _ m \<Rightarrow> 0 \<le> m | _ \<Rightarrow> True)"

definition pool_ok :: "Pool \<Rightarrow> bool" where
  "pool_ok p \<longleftrightarrow>
     (case current_price_a_in_b p of None \<Rightarrow> True | Some x \<Rightarrow> f64_ok x)
     \<and> (case price_change_percent_24h p of None \<Rightarrow> True | Some x \<Rightarrow> f64_ok x)"

lemma as_f64_large: "as_f64 LARGE_PRICE_SCALE = F64_Inf False \<or> (\<exists>v. as_f64 LARGE_PRICE_SCALE = F64 False v \<and> 1 \<le> v)"
  using f64_round_ge_one [of "of_nat LARGE_PRICE_SCALE" False] by (simp add: as_f64_def LARGE_PRICE_SCALE_def)

lemma as_uint_round_pos: "1 \<le> m \<Longrightarrow> 0 < w \<Longrightarrow> 0 < f64_as_uint w (f64_round False m)"
  using f64_round_ge_one [of m False] one_less_power [of "2 :: nat" w] by (auto simp: le_floor_iff zero_less_nat_eq)

lemma large_price_pos:
  assumes "f64_gt price LARGE_PRICE_THRESHOLD" and "f64_ok price"
  shows "0 < f64_as_uint 128 (f64_mul price (as_f64 LARGE_PRICE_SCALE))"
proof (cases price)
  case (F64 s m)
  with assms have m: "\<not> s" "100 < m" by (auto simp: LARGE_PRICE_THRESHOLD_def f64_ok_def signed_value_def split: if_splits)
  from as_f64_large show ?thesis
  proof (elim disjE exE conjE)
    fix v :: rat assume v: "as_f64 LARGE_PRICE_SCALE = F64 False v" "1 \<le> v"
    have "1 * 1 \<le> m * v" using m v by (intro mult_mono) simp_all
    with v m F64 show ?thesis by (simp add: as_uint_round_pos)
  qed (use m F64 in simp)
next
  case (F64_Inf s)
  with assms as_f64_large show ?thesis by (auto simp: LARGE_PRICE_THRESHOLD_def)
qed (use assms in simp)

lemma price_denominator:
  assumes "price_fraction price is_a_to_b out = Some (num, d)" and "f64_ok price"
  shows "d \<noteq> 0"
  using assms large_price_pos [of price]
  by (auto simp: price_fraction_def PRICE_SCALE_def Let_def split: if_splits)

lemma amount_in_before_total:
  assumes "pool_ok pool"
  shows "amount_in_before_input_fees pool is_a_to_b out \<noteq> None"
proof -
  have "div_ceil num d \<noteq> None" if "current_price_a_in_b pool = Some price" "price_fraction price is_a_to_b out = Some (num, d)" for price num d
    using price_denominator [OF that(2)] that(1) assms by (simp add: pool_ok_def div_ceil_def)
  moreover have "div_ceil num (ro - out) \<noteq> None" if "\<not> ro \<le> out" for num ro using that by (simp add: div_ceil_def)
  ultimately show ?thesis
    by (auto simp: amount_in_before_input_fees_def Let_def split: option.splits prod.splits bool.splits if_splits)
qed

lemma calculate_amount_in_total:
  assumes "pool_ok pool"
  shows "calculate_amount_in bech pool asset out slip fee network \<noteq> None"
proof
  assume "calculate_amount_in bech pool asset out slip fee network = None"
  then obtain d t where "amount_in_before_input_fees pool d t = None"
    by (auto simp: calculate_amount_in_def Let_def split: sum.splits option.splits)
  with amount_in_before_total [OF assms] show False by blast
qed

text \<open>The change of the price in basis points never makes the divisor wrap to zero: numbers of that size are
  multiples of 2048.\<close>

lemma stability_score_total:
  assumes "pool_ok p"
  shows "stability_score p \<noteq> None"
proof (cases "price_change_percent_24h p")
  case (Some pct)
  let ?x = "f64_mul (f64_abs pct) (F64 False 100)"
  have "wadd 64 10000 (f64_as_uint 64 ?x) \<noteq> 0"
  proof
    assume "wadd 64 10000 (f64_as_uint 64 ?x) = 0"
    then obtain k where k: "10000 + f64_as_uint 64 ?x = 2 ^ 64 * k" by (auto simp: wadd_def elim!: dvdE)
    have "f64_as_uint 64 ?x < 2 ^ 64" by (rule f64_as_uint_bound)
    with k have "k = 1" by (cases k) auto
    with k have e: "f64_as_uint 64 ?x = 18446744073709541616" by simp
    show False
    proof (cases pct)
      case (F64 s m)
      then have m: "0 \<le> m" using assms Some by (simp add: pool_ok_def f64_ok_def)
      obtain v where v: "f64_round False (m * 100) = F64 False v"
        using e F64 by (cases "f64_round False (m * 100)") (auto simp: f64_round_def Let_def split: if_splits)
      with e F64 have f: "nat \<lfloor>v\<rfloor> = 18446744073709541616" by (auto simp: min_def split: if_splits)
      then have "18446744073709541616 \<le> \<lfloor>v\<rfloor>" by linarith
      then have "18446744073709541616 \<le> v" unfolding le_floor_iff by simp
      with f64_round_gap [OF v] m obtain j :: int where "v = of_int (2048 * j)" by auto
      then have "\<lfloor>v\<rfloor> = 2048 * j" by (simp only: floor_of_int)
      with f have "2048 * j = 18446744073709541616" by linarith
      then have "(18446744073709541616 :: int) mod 2048 = 0" by (metis mod_mult_self1_is_0)
      then show False by simp
    qed (use e in simp_all)
  qed
  with Some show ?thesis by (simp add: stability_score_def checked_div_def Let_def)
qed (simp add: stability_score_def)

section \<open>The selected pool\<close>

lemma viable_pools_total:
  "list_all pool_ok ps \<Longrightarrow> \<exists>vs. viable_pools bech ps asset out slip fee network = Some vs"
proof (induction ps)
  case (Cons p ps)
  with calculate_amount_in_total [of p bech asset out slip fee network] show ?case by auto
qed simp

lemma viable_pools_mem:
  "viable_pools bech ps asset out slip fee network = Some vs \<Longrightarrow>
     (p, a) \<in> set vs \<longleftrightarrow> p \<in> set ps \<and> calculate_amount_in bech p asset out slip fee network = Some (Ok a)"
proof (induction ps arbitrary: vs)
  case (Cons q ps)
  then obtain r ws where "calculate_amount_in bech q asset out slip fee network = Some r"
    "viable_pools bech ps asset out slip fee network = Some ws" "vs = (case r of Ok a \<Rightarrow> (q, a) # ws | Err _ \<Rightarrow> ws)"
    by (auto simp: bind_eq_Some_conv)
  with Cons.IH show ?case by (auto split: sum.splits)
qed simp

lemma prefer_v3_mem:
  "(p, a) \<in> set (prefer_v3 vs) \<longleftrightarrow> (p, a) \<in> set vs
     \<and> (curve_type p = Some V3Concentrated \<or> \<not> (\<exists>q b. (q, b) \<in> set vs \<and> curve_type q = Some V3Concentrated))"
  by (auto simp: prefer_v3_def list_ex_iff)

lemma prefer_v3_Nil: "prefer_v3 vs = [] \<longleftrightarrow> vs = []"
  by (auto simp: prefer_v3_def list_ex_iff filter_empty_conv)

lemma fold_max_ge:
  fixes x :: "'a :: linorder"
  shows "y \<in> set (x # xs) \<Longrightarrow> y \<le> fold max xs x"
  using Max.set_eq_fold [of x xs] Max_ge [of "set (x # xs)" y] by simp

lemma fold_min_le:
  fixes x :: "'a :: linorder"
  shows "y \<in> set (x # xs) \<Longrightarrow> fold min xs x \<le> y"
  using Min.set_eq_fold [of x xs] Min_le [of "set (x # xs)" y] by simp

lemma max_tvl_ge:
  assumes "(p, a) \<in> set vs" and "pool_liquidity p = Some l"
  shows "\<exists>m. max_tvl_of vs = Some m \<and> l \<le> m"
proof -
  have "l \<in> set (List.map_filter (\<lambda>(p, _). pool_liquidity p) vs)"
    using assms by (force simp: List.map_filter_def image_iff)
  then show ?thesis by (cases "List.map_filter (\<lambda>(p, _). pool_liquidity p) vs") (auto simp: max_tvl_of_def intro: fold_max_ge)
qed

lemma liquidity_score_total: "(p, a) \<in> set vs \<Longrightarrow> liquidity_score p (max_tvl_of vs) \<noteq> None"
  using max_tvl_ge [of p a vs]
  by (cases "pool_liquidity p") (auto simp: liquidity_score_def checked_div_def Let_def split: option.split)

lemma score_pool_total:
  assumes "(p, a) \<in> set vs" and "pool_ok p"
  shows "\<exists>s. score_pool p a lo hi (max_tvl_of vs) = Some s"
  using stability_score_total [OF assms(2)] liquidity_score_total [OF assms(1)]
  by (auto simp: score_pool_def fee_efficiency_score_def checked_div_def)

lemma collect_some_eq: "collect_some xs = Some ys \<longleftrightarrow> xs = map Some ys"
proof (induction xs arbitrary: ys)
  case (Cons x xs)
  show ?case by (cases ys) (auto simp: Cons.IH bind_eq_Some_conv)
qed auto

lemma collect_some_total: "(\<And>x. x \<in> set xs \<Longrightarrow> x \<noteq> None) \<Longrightarrow> \<exists>ys. collect_some xs = Some ys"
proof (induction xs)
  case (Cons x xs)
  from Cons.prems obtain y where "x = Some y" by fastforce
  with Cons show ?case by fastforce
qed simp

lemma score_all_total: "(\<And>p a. (p, a) \<in> set vs \<Longrightarrow> pool_ok p) \<Longrightarrow> \<exists>ss. score_all vs = Some ss"
  unfolding score_all_def Let_def using score_pool_total by (intro collect_some_total) fastforce

lemma score_pool_simps:
  "score_pool p a lo hi tvl = Some s \<Longrightarrow> ps_pool s = p \<and> amount_in_required s = a"
  by (auto simp: score_pool_def bind_eq_Some_conv)

lemma score_all_pools:
  assumes "score_all vs = Some ss"
  shows "map (\<lambda>s. (ps_pool s, amount_in_required s)) ss = vs"
proof -
  obtain lo hi tvl where "map (\<lambda>(p, a). score_pool p a lo hi tvl) vs = map Some ss"
    using assms unfolding score_all_def Let_def collect_some_eq by blast
  then show ?thesis
  proof (induction vs ss rule: list_induct2')
    case (4 v vs s ss)
    then show ?case by (cases v) (auto dest: score_pool_simps)
  qed simp_all
qed

text \<open>The comparison is a total order up to equal scores, so the fold finds a greatest element.\<close>

lemma score_greater_negtrans: "\<not> score_greater a b \<Longrightarrow> \<not> score_greater b c \<Longrightarrow> \<not> score_greater a c"
  by (auto simp: score_greater_def)

lemma score_greater_asym: "score_greater a b \<Longrightarrow> \<not> score_greater b a"
  by (auto simp: score_greater_def)

lemma score_greater_irrefl: "\<not> score_greater a a"
  by (simp add: score_greater_def)

lemma best_fold:
  "let m = foldl (\<lambda>a b. if score_greater a b then a else b) s ss
   in m \<in> set (s # ss) \<and> (\<forall>t \<in> set (s # ss). \<not> score_greater t m)"
proof (induction ss arbitrary: s)
  case Nil
  then show ?case by (simp add: score_greater_irrefl)
next
  case (Cons t ss)
  let ?a = "if score_greater s t then s else t"
  let ?m = "foldl (\<lambda>a b. if score_greater a b then a else b) ?a ss"
  from Cons [of ?a] have IH: "?m \<in> set (?a # ss)" "\<not> score_greater ?a ?m" "\<forall>t \<in> set ss. \<not> score_greater t ?m"
    by (simp_all add: Let_def)
  have a: "\<not> score_greater s ?a" "\<not> score_greater t ?a"
    using score_greater_irrefl score_greater_asym by auto
  have "\<not> score_greater s ?m" "\<not> score_greater t ?m" using a [THEN score_greater_negtrans, OF IH(2)] by simp_all
  moreover have "?m \<in> set (s # t # ss)" using IH(1) by (simp split: if_splits) blast+
  ultimately show ?case using IH(3) by (simp only: Let_def foldl.simps list.set ball_simps) simp
qed

lemma best_of_spec:
  "best_of ss = Some m \<Longrightarrow> m \<in> set ss \<and> (\<forall>t \<in> set ss. \<not> score_greater t m)"
  using best_fold by (cases ss) (auto simp: Let_def)

section \<open>Bounds of the scores\<close>

lemma sat_mul_div_le: "x \<le> d \<Longrightarrow> 0 < d \<Longrightarrow> sat_mul w x 10000 div d \<le> 10000"
proof -
  assume a: "x \<le> d" "0 < d"
  have "sat_mul w x 10000 div d \<le> d * 10000 div d" using a by (intro div_le_mono) (simp add: sat_mul_def min.coboundedI1)
  with a(2) show ?thesis by simp
qed

lemma mod_le_bound: "x \<le> 10000 \<Longrightarrow> x mod 2 ^ 64 \<le> (10000 :: nat)"
  by simp

lemma fee_score_le: "lo \<le> a \<Longrightarrow> lo < hi \<Longrightarrow> sat_mul 128 (hi - a) 10000 div (hi - lo) \<le> 10000"
  by (rule sat_mul_div_le) simp_all

lemma fee_score_bound: "lo \<le> a \<Longrightarrow> fee_efficiency_score a lo hi = Some x \<Longrightarrow> x \<le> 10000"
  using mod_le_bound [OF fee_score_le] by (auto simp: fee_efficiency_score_def checked_div_def split: if_splits)

text \<open>A cheaper pool has at least the fee score of a dearer one.\<close>

lemma fee_score_antimono:
  assumes "a \<le> b" and "lo \<le> a" and "fee_efficiency_score a lo hi = Some x" and "fee_efficiency_score b lo hi = Some y"
  shows "y \<le> x"
proof (cases "lo < hi")
  case True
  let ?f = "\<lambda>a. sat_mul 128 (hi - a) 10000 div (hi - lo)"
  have "?f c < 2 ^ 64" if "lo \<le> c" for c using fee_score_le [OF that True] by simp
  then have "x = ?f a" "y = ?f b" using assms True by (auto simp: fee_efficiency_score_def checked_div_def)
  moreover have "sat_mul 128 (hi - b) 10000 \<le> sat_mul 128 (hi - a) 10000"
    unfolding sat_mul_def using assms(1) by (intro min.mono mult_le_mono1) simp_all
  ultimately show ?thesis using div_le_mono by simp
qed (use assms in \<open>simp add: fee_efficiency_score_def\<close>)

lemma liquidity_score_bound:
  assumes "(p, a) \<in> set vs" and "liquidity_score p (max_tvl_of vs) = Some x"
  shows "x \<le> 10000"
proof (cases "pool_liquidity p")
  case None
  with assms show ?thesis by (auto simp: liquidity_score_def split: option.splits)
next
  case (Some l)
  with max_tvl_ge [OF assms(1)] obtain m where "max_tvl_of vs = Some m" "l \<le> m" by blast
  with assms(2) Some sat_mul_div_le [of l m 128] mod_le_bound show ?thesis
    by (auto simp: liquidity_score_def checked_div_def split: if_splits)
qed

text \<open>The stability score stays in its range as long as the change of the price does not overflow.\<close>

definition small_change :: "Pool \<Rightarrow> bool" where
  "small_change p =
     (case price_change_percent_24h p of
        None \<Rightarrow> True | Some pct \<Rightarrow> 10000 + f64_as_uint 64 (f64_mul (f64_abs pct) (F64 False 100)) < 2 ^ 64)"

lemma stability_score_bound:
  assumes "small_change p" and "stability_score p = Some x"
  shows "x \<le> 10000"
proof (cases "price_change_percent_24h p")
  case (Some pct)
  let ?b = "f64_as_uint 64 (f64_mul (f64_abs pct) (F64 False 100))"
  from assms Some have "x = sat_mul 64 10000 10000 div (10000 + ?b)"
    by (simp add: small_change_def stability_score_def checked_div_def Let_def)
  also have "\<dots> \<le> sat_mul 64 10000 10000 div 10000" by (rule div_le_mono2) simp_all
  also have "\<dots> \<le> 10000" by (simp add: sat_mul_def)
  finally show ?thesis .
qed (use assms in \<open>simp add: stability_score_def\<close>)

lemma sat_add_le: "sat_add w a b \<le> a + b"
  by (simp add: sat_add_def)

lemma weighted_score_bound:
  assumes "f \<le> 10000" and "l \<le> 10000" and "s \<le> 10000"
  shows "weighted_score f l s \<le> 10000"
proof -
  have "sat_mul 64 x k \<le> 10000 * k" if "x \<le> 10000" for x k
    using that mult_le_mono1 [OF that, of k] by (simp add: sat_mul_def min.coboundedI1)
  then have "sat_add 64 (sat_add 64 (sat_mul 64 f FEE_WEIGHT_BPS) (sat_mul 64 l LIQUIDITY_WEIGHT_BPS)) (sat_mul 64 s STABILITY_WEIGHT_BPS)
      \<le> 10000 * FEE_WEIGHT_BPS + 10000 * LIQUIDITY_WEIGHT_BPS + 10000 * STABILITY_WEIGHT_BPS"
    using assms by (intro order_trans [OF sat_add_le] add_mono) simp_all
  also have "\<dots> = 100000000" by (simp add: FEE_WEIGHT_BPS_def LIQUIDITY_WEIGHT_BPS_def STABILITY_WEIGHT_BPS_def)
  finally show ?thesis unfolding weighted_score_def using div_le_mono [of _ 100000000 10000] by fastforce
qed

lemma weighted_score_mono: "f \<le> f' \<Longrightarrow> weighted_score f l s \<le> weighted_score f' l s"
  unfolding weighted_score_def sat_add_def sat_mul_def
  by (intro div_le_mono min.mono add_mono mult_le_mono1) simp_all

section \<open>Properties\<close>

text \<open>C32. The amount that a constant-product pool asks for is right: the output is at least the requested one and below the
  reserve, the input before fees is the least that keeps the product of the reserves from falling, and the
  fees are added on top.\<close>

theorem amount_in_least:
  assumes "calculate_amount_in bech pool asset out slip fee network = Some (Ok a)"
    and "decode_token_identifier bech asset network = Ok asset_in" and "is_a_to_b = (asset_in = asset_a_address pool)"
    and "curve_type pool \<noteq> Some V3Concentrated"
    and "asset_a_reserve pool = Some ra" and "asset_b_reserve pool = Some rb" and "ra < 2 ^ 128" and "rb < 2 ^ 128"
    and "(ri, ro) = (if is_a_to_b then (ra, rb) else (rb, ra))" and "ra * rb < 2 ^ 128" and "lp_fee_bps pool < 2 ^ 32"
  shows "\<exists>target n. out \<le> target \<and> target < ro
    \<and> amount_out_before_output_fees pool is_a_to_b out slip fee = Ok target
    \<and> ri * ro \<le> (ri + n) * (ro - target) \<and> (\<forall>m. ri * ro \<le> (ri + m) * (ro - target) \<longrightarrow> n \<le> m)
    \<and> a = n * (10000 + input_fee_bps pool is_a_to_b fee) div 10000"
proof -
  from assms(1) obtain target n where t: "amount_out_before_output_fees pool is_a_to_b out slip fee = Ok target"
    and n: "amount_in_before_input_fees pool is_a_to_b target = Some (Ok n)" and a: "add_bps n (input_fee_bps pool is_a_to_b fee) = Some a"
    using assms(2,3) by (auto elim!: calculate_amount_in_Ok)
  note r = reserve_input [OF n assms(4-6,9)]
  have "ri * ro < 2 ^ 128" "ro < 2 ^ 128" using assms(7-10) by (auto simp: mult.commute split: if_splits)
  note least = div_ceil_least [OF r(2) product_fits [OF this r(1)]]
  have "input_fee_bps pool is_a_to_b fee < 2 ^ 32" using assms(11) by (simp add: input_fee_bps_def sat_add_def min_def not_le)
  note exact = add_bps_exact [OF a this]
  show ?thesis
    by (intro exI [of _ target] exI [of _ n])
      (use least exact t r(1) output_target_ge [OF t] in \<open>auto simp: constant_product_iff\<close>)
qed

definition sample_pool_data :: "u128 option \<Rightarrow> u128 option \<Rightarrow> f64 option \<Rightarrow> Pool" where
  "sample_pool_data ra rb change =
     \<lparr>lp_public_key = ''02aa'', host_name = ''test'', host_fee_bps = 100, lp_fee_bps = 20, asset_a_address = ''aa'',
      asset_b_address = ''bb'', asset_a_reserve = ra, asset_b_reserve = rb, virtual_reserve_a = None, virtual_reserve_b = None,
      threshold_pct = None, current_price_a_in_b = None, tvl_asset_b = None, volume_24h_asset_b = None,
      price_change_percent_24h = change, curve_type = Some ConstantProduct, initial_reserve_a = None,
      bonding_progress_percent = None, graduation_threshold_amount = None, pool_created_at = '''', pool_updated_at = ''''\<rparr>"

lemma sample_amount_in:
  "calculate_amount_in bech (sample_pool_data (Some 1000000) (Some 10000000) change) ''aa'' 10000 100 0 Mainnet = Some (Ok 1024)"
  by (simp add: calculate_amount_in_def decode_token_identifier_def sample_pool_data_def amount_out_before_output_fees_def
      BTC_ASSET_ADDRESS_def add_bps_def checked_mul_def sat_add_def amount_in_before_input_fees_def div_ceil_def
      input_fee_bps_def ok_or_def Let_def)

theorem amount_in_least_witness:
  "\<exists>(target :: u128) n. 10000 \<le> target \<and> target < 10000000
    \<and> 1000000 * 10000000 \<le> (1000000 + n) * (10000000 - target) \<and> 1024 = n * (10000 + 20) div 10000"
proof -
  let ?p = "sample_pool_data (Some 1000000) (Some 10000000) None"
  from amount_in_least [OF sample_amount_in [of "\<lambda>_ _. Err ''''" None], of "''aa''" True 1000000 10000000 1000000 10000000]
  have "\<exists>target n. 10000 \<le> target \<and> target < 10000000
    \<and> 1000000 * 10000000 \<le> (1000000 + n) * (10000000 - target) \<and> 1024 = n * (10000 + input_fee_bps ?p True 0) div 10000"
    by (fastforce simp: decode_token_identifier_def sample_pool_data_def)
  then show ?thesis by (simp add: input_fee_bps_def sample_pool_data_def)
qed

text \<open>The selection never panics, and it succeeds exactly when some pool can serve the request. The selected pool is one
  of those given and can serve the request, it is a concentrated one if any such pool can, and no pool that remains
  has a higher score or the same score with more volume.\<close>

theorem select_best_pool_spec:
  assumes "list_all pool_ok pools"
  shows "\<exists>r vs. select_best_pool bech pools asset out slip fee network = Some r
    \<and> viable_pools bech pools asset out slip fee network = Some vs
    \<and> (is_ok r \<longleftrightarrow> (\<exists>p \<in> set pools. \<exists>a. calculate_amount_in bech p asset out slip fee network = Some (Ok a)))
    \<and> (\<forall>p. r = Ok p \<longrightarrow> p \<in> set pools \<and> (\<exists>a. calculate_amount_in bech p asset out slip fee network = Some (Ok a))
        \<and> (curve_type p = Some V3Concentrated \<or> (\<forall>(q, b) \<in> set vs. curve_type q \<noteq> Some V3Concentrated))
        \<and> (length (prefer_v3 vs) = 1
           \<or> (\<exists>ss. score_all (prefer_v3 vs) = Some ss \<and> (\<exists>s \<in> set ss. ps_pool s = p \<and> (\<forall>t \<in> set ss. \<not> score_greater t s)))))"
proof -
  from viable_pools_total [OF assms] obtain vs where vs: "viable_pools bech pools asset out slip fee network = Some vs" by blast
  note mem = viable_pools_mem [OF vs]
  have ok: "pool_ok p" if "(p, a) \<in> set (prefer_v3 vs)" for p a
    using that assms by (auto simp: prefer_v3_mem mem list_all_iff)
  obtain ss where ss: "score_all (prefer_v3 vs) = Some ss" using score_all_total ok by blast
  show ?thesis
  proof (cases "vs = []")
    case True
    then have "\<not> (\<exists>p \<in> set pools. \<exists>a. calculate_amount_in bech p asset out slip fee network = Some (Ok a))" using mem by auto
    with True vs show ?thesis by (simp add: select_best_pool_def no_pool_err_def)
  next
    case False
    then have viable: "\<exists>p \<in> set pools. \<exists>a. calculate_amount_in bech p asset out slip fee network = Some (Ok a)"
      using mem by (cases vs) fastforce+
    have "\<exists>p. select_best_pool bech pools asset out slip fee network = Some (Ok p) \<and> (\<exists>a. (p, a) \<in> set (prefer_v3 vs))
      \<and> (length (prefer_v3 vs) = 1 \<or> (\<exists>s \<in> set ss. ps_pool s = p \<and> (\<forall>t \<in> set ss. \<not> score_greater t s)))"
    proof (cases "length (prefer_v3 vs) = 1")
      case True
      then obtain p a where "prefer_v3 vs = [(p, a)]" by (cases "prefer_v3 vs") auto
      with vs False show ?thesis by (auto simp: select_best_pool_def)
    next
      case long: False
      have "ss \<noteq> []" using score_all_pools [OF ss] False prefer_v3_Nil by fastforce
      then obtain s where s: "best_of ss = Some s" by (cases ss) simp_all
      have run: "select_best_pool bech pools asset out slip fee network = Some (Ok (ps_pool s))"
        using vs False ss s long by (auto simp: select_best_pool_def ok_or_def Let_def split: list.split prod.split)
      have "s \<in> set ss" using best_of_spec [OF s] by blast
      then have "(ps_pool s, amount_in_required s) \<in> set (prefer_v3 vs)"
        unfolding score_all_pools [OF ss, symmetric] by (auto intro!: image_eqI [of _ _ s])
      with run best_of_spec [OF s] show ?thesis by blast
    qed
    then obtain p a where p: "select_best_pool bech pools asset out slip fee network = Some (Ok p)" "(p, a) \<in> set (prefer_v3 vs)"
      "length (prefer_v3 vs) = 1 \<or> (\<exists>s \<in> set ss. ps_pool s = p \<and> (\<forall>t \<in> set ss. \<not> score_greater t s))" by blast
    with vs viable ss show ?thesis by (auto simp: prefer_v3_mem mem)
  qed
qed

theorem select_best_pool_spec_witness:
  "\<exists>p. select_best_pool (\<lambda>_ _. Err '''') [sample_pool_data (Some 1000000) (Some 10000000) None, sample_pool_data None None None]
      ''aa'' 10000 100 0 Mainnet = Some (Ok p)"
proof -
  let ?ps = "[sample_pool_data (Some 1000000) (Some 10000000) None, sample_pool_data None None None]"
  have "list_all pool_ok ?ps" by (simp add: pool_ok_def sample_pool_data_def)
  from select_best_pool_spec [OF this, of "\<lambda>_ _. Err ''''" "''aa''" 10000 100 0 Mainnet] sample_amount_in [of "\<lambda>_ _. Err ''''" None]
  show ?thesis by (auto simp: is_ok_iff)
qed

text \<open>C38. The scores stay on their scale: among the pools compared, every total is at most 10000 basis points, provided
  that the change of the price does not overflow, and of two pools that differ only in the amount they ask for,
  the cheaper one scores at least as high.\<close>

theorem pool_score_scale:
  assumes "score_pool p a lo hi (max_tvl_of vs) = Some s" and "(p, a) \<in> set vs" and "lo \<le> a" and "small_change p"
    and "score_pool p b lo hi (max_tvl_of vs) = Some t" and "a \<le> b"
  shows "total_score_bps t \<le> total_score_bps s \<and> total_score_bps s \<le> 10000"
proof -
  from assms(1) obtain f l x where s: "fee_efficiency_score a lo hi = Some f" "liquidity_score p (max_tvl_of vs) = Some l"
    "stability_score p = Some x" "total_score_bps s = weighted_score f l x" by (auto simp: score_pool_def bind_eq_Some_conv)
  with assms(5) obtain g where t: "fee_efficiency_score b lo hi = Some g" "total_score_bps t = weighted_score g l x"
    by (auto simp: score_pool_def bind_eq_Some_conv)
  have "g \<le> f" by (rule fee_score_antimono [OF assms(6,3) s(1) t(1)])
  moreover have "f \<le> 10000" "l \<le> 10000" "x \<le> 10000"
    using fee_score_bound [OF assms(3) s(1)] liquidity_score_bound [OF assms(2) s(2)] stability_score_bound [OF assms(4) s(3)] .
  ultimately show ?thesis unfolding s(4) t(2) by (simp add: weighted_score_mono weighted_score_bound)
qed

theorem pool_score_scale_witness:
  "let p = sample_pool_data (Some 1000000) (Some 10000000) None; vs = [(p, 5), (p, 7)] in
   \<exists>s t. score_pool p 5 5 9 (max_tvl_of vs) = Some s \<and> score_pool p 7 5 9 (max_tvl_of vs) = Some t
     \<and> total_score_bps t \<le> total_score_bps s \<and> total_score_bps s \<le> 10000"
proof -
  let ?p = "sample_pool_data (Some 1000000) (Some 10000000) None"
  let ?vs = "[(?p, 5), (?p, 7)]"
  have ok: "pool_ok ?p" by (simp add: pool_ok_def sample_pool_data_def)
  from score_pool_total [of ?p 5 ?vs 5 9] ok obtain s where s: "score_pool ?p 5 5 9 (max_tvl_of ?vs) = Some s" by auto
  from score_pool_total [of ?p 7 ?vs 5 9] ok obtain t where t: "score_pool ?p 7 5 9 (max_tvl_of ?vs) = Some t" by auto
  have "small_change ?p" by (simp add: small_change_def sample_pool_data_def)
  then have "total_score_bps t \<le> total_score_bps s \<and> total_score_bps s \<le> 10000"
    by (intro pool_score_scale [OF s _ _ _ t]) simp_all
  with s t show ?thesis unfolding Let_def by blast
qed

text \<open>The stability score can overflow: the sum of 10000 and the change of the price in basis points wraps, so a pool that
  reports a change of about 184467440737095424 percent is scored five times higher than one whose price did not move.\<close>

theorem stability_score_overflow:
  "stability_score (sample_pool_data ra rb (Some (F64 False 184467440737095424))) = Some 55309
   \<and> stability_score (sample_pool_data ra rb (Some (F64 False 0))) = Some 10000"
proof -
  have l: "floor_log2 18446744073709542400 = 63" by (rule floor_log2_unique) simp_all
  have "f64_exponent 18446744073709542400 = 11" by (simp add: f64_exponent_def l)
  moreover have "\<lfloor>18014398509481975 / 2 :: rat\<rfloor> = 9007199254740987" by (rule floor_unique) simp_all
  ultimately have "f64_round False 18446744073709542400 = F64 False 18446744073709543424"
    by (simp add: f64_round_def round_half_even_def Let_def power_int_minus)
  then show ?thesis by (simp add: stability_score_def sample_pool_data_def f64_round_def [of False 0] checked_div_def sat_mul_def wadd_def Let_def)
qed

section \<open>Conversions of an exact input\<close>

lemma amount_in_zero: "calculate_amount_in bech pool asset 0 slip fee network = Some (Ok a) \<Longrightarrow> a = 0"
proof (elim calculate_amount_in_Ok)
  fix asset_in target n
  let ?ab = "asset_in = asset_a_address pool"
  assume t: "amount_out_before_output_fees pool ?ab 0 slip fee = Ok target" and n: "amount_in_before_input_fees pool ?ab target = Some (Ok n)"
    and a: "add_bps n (input_fee_bps pool ?ab fee) = Some a"
  have "add_bps 0 x = Some 0" for x by (simp add: add_bps_def checked_mul_def)
  moreover have "round_up_64 0 = 0" by (simp add: round_up_64_def sat_add_def)
  ultimately have "target = 0" using t by (auto simp: amount_out_before_output_fees_def Let_def ok_or_def split: if_splits)
  moreover have "div_ceil 0 d = Some m \<Longrightarrow> m = 0" for d m by (auto simp: div_ceil_def sat_add_def min_def split: if_splits)
  ultimately have "n = 0" using n
    by (auto simp: amount_in_before_input_fees_def price_fraction_def checked_mul_def Let_def split: if_splits option.splits bool.splits)
  with a show "a = 0" by (simp add: add_bps_def checked_mul_def)
qed

lemma mem_map_Some: "map f xs = map Some ys \<Longrightarrow> y \<in> set ys \<Longrightarrow> \<exists>x \<in> set xs. f x = Some y"
  by (metis (no_types, lifting) image_iff list.set_map)

text \<open>A conversion of an exact input selects its pool with a requested output of zero, for which every pool asks for
  nothing: all fee scores are equal and neither the price nor the fees of a pool count.\<close>

theorem exact_input_ignores_price:
  assumes "viable_pools bech pools asset 0 slip fee network = Some vs" and "score_all (prefer_v3 vs) = Some ss" and "s \<in> set ss"
  shows "amount_in_required s = 0 \<and> fee_efficiency_score_bps s = 10000"
proof -
  have zero: "a = 0" if "(p, a) \<in> set (prefer_v3 vs)" for p a
    using that viable_pools_mem [OF assms(1)] amount_in_zero by (auto simp: prefer_v3_mem)
  have all_zero: "\<forall>v \<in> set (prefer_v3 vs). snd v = 0" using zero by force
  have fold_zero: "fold f xs 0 = 0" if "f 0 0 = 0" and "\<And>x. x \<in> set xs \<Longrightarrow> x = 0" for f :: "u128 \<Rightarrow> u128 \<Rightarrow> u128" and xs
    using that by (induction xs) fastforce+
  have "(case map snd (prefer_v3 vs) of [] \<Rightarrow> 0 | x # xs \<Rightarrow> fold g xs x) = 0" if "g 0 0 = 0" for g :: "u128 \<Rightarrow> u128 \<Rightarrow> u128"
  proof (cases "prefer_v3 vs")
    case (Cons v ws)
    obtain q b where v: "v = (q, b)" by (cases v)
    have "b = 0" using zero [of q b] Cons v by simp
    moreover have "fold g (map snd ws) 0 = 0" by (rule fold_zero) (use that all_zero Cons in auto)
    ultimately show ?thesis using Cons v by simp
  qed simp
  then obtain p a where "(p, a) \<in> set (prefer_v3 vs)" "score_pool p a 0 0 (max_tvl_of (prefer_v3 vs)) = Some s"
    using assms(2,3) by (auto simp: score_all_def collect_some_eq Let_def dest!: mem_map_Some)
  with zero show ?thesis by (auto simp: score_pool_def bind_eq_Some_conv fee_efficiency_score_def)
qed

theorem exact_input_ignores_price_witness:
  "\<exists>s t. score_all [(sample_pool_data (Some 5) (Some 5) None, 0), (sample_pool_data (Some 1) (Some 9) None, 0)] = Some [s, t]
     \<and> fee_efficiency_score_bps s = 10000 \<and> fee_efficiency_score_bps t = 10000"
proof -
  let ?p = "sample_pool_data (Some 5) (Some 5) None" and ?q = "sample_pool_data (Some 1) (Some 9) None"
  let ?vs = "[(?p, 0), (?q, 0)]"
  have "calculate_amount_in (\<lambda>_ _. Err []) (sample_pool_data (Some ra) (Some rb) None) ''aa'' 0 0 0 Mainnet = Some (Ok 0)" if "0 < rb" for ra rb
    using that by (simp add: calculate_amount_in_def decode_token_identifier_def sample_pool_data_def amount_out_before_output_fees_def
      BTC_ASSET_ADDRESS_def add_bps_def checked_mul_def sat_add_def amount_in_before_input_fees_def div_ceil_def
      input_fee_bps_def ok_or_def Let_def)
  then have v: "viable_pools (\<lambda>_ _. Err []) [?p, ?q] ''aa'' 0 0 0 Mainnet = Some ?vs" by simp
  have pref: "prefer_v3 ?vs = ?vs" by (simp add: prefer_v3_def sample_pool_data_def)
  have "\<exists>ss. score_all ?vs = Some ss" by (rule score_all_total) (auto simp: pool_ok_def sample_pool_data_def)
  then obtain ss where ss: "score_all ?vs = Some ss" by blast
  then have "length ss = 2" using arg_cong [OF score_all_pools [OF ss], of length] by simp
  then obtain s t where st: "ss = [s, t]" by (auto simp: length_Suc_conv numeral_2_eq_2)
  from exact_input_ignores_price [OF v] ss st pref show ?thesis by simp
qed

end
