(* ===== verification/Conversion_Client.thy ===== *)
theory Conversion_Client
  imports Conversion_Pools
begin

text \<open>
  The client of the conversion service: \<open>crates/flashnet/src/cache.rs\<close>, \<open>auth.rs\<close> and \<open>api.rs\<close>. The state is the cache and the list of
  transfers that the wallet has made for swaps; a counter numbers the calls to the world outside, and the record
  \<open>flashnet_env\<close> gives the answer to each: clock, HTTP requests, wallet, signatures, nonces. Cached JSON is read back as the
  value that was stored. The clock is read in whole milliseconds. Ping texts are compared without regard to ASCII case.

  A swap sends nothing unless the service is up, swaps are enabled and the minimum amounts are met, and once
  something was sent every outcome carries the identifier of the transfer.
\<close>

section \<open>Data\<close>

datatype PoolSortOrder = CreatedAtAsc | CreatedAtDesc | Volume24hAsc | Volume24hDesc | TvlAsc | TvlDesc

record ListPoolsRequest =
  lp_asset_a_address :: "string option"
  lp_asset_b_address :: "string option"
  lp_host_names :: "string list option"
  lp_min_volume_24h :: "u64 option"
  lp_min_tvl :: "u64 option"
  lp_curve_types :: "CurveType list option"
  lp_sort :: "PoolSortOrder option"
  lp_limit :: "u32 option"
  lp_offset :: "u32 option"
  lp_after_updated_at :: "string option"

record ListPoolsResponse =
  lpr_pools :: "Pool list"
  lpr_total_count :: u32

record MinAmount =
  asset_identifier :: string
  min_amount :: u128
  ma_enabled :: bool

datatype FeatureName =
    MasterKillSwitch | AllowWithdrawFees | AllowPoolCreation | AllowSwaps | AllowAddLiquidity | AllowRouteSwaps
  | AllowWithdrawLiquidity | AllowV3LiquidityOperations | UnknownFeature

fun feature_debug :: "FeatureName \<Rightarrow> string" where
  "feature_debug MasterKillSwitch = ''MasterKillSwitch''"
| "feature_debug AllowWithdrawFees = ''AllowWithdrawFees''"
| "feature_debug AllowPoolCreation = ''AllowPoolCreation''"
| "feature_debug AllowSwaps = ''AllowSwaps''"
| "feature_debug AllowAddLiquidity = ''AllowAddLiquidity''"
| "feature_debug AllowRouteSwaps = ''AllowRouteSwaps''"
| "feature_debug AllowWithdrawLiquidity = ''AllowWithdrawLiquidity''"
| "feature_debug AllowV3LiquidityOperations = ''AllowV3LiquidityOperations''"
| "feature_debug UnknownFeature = ''Unknown''"

record FeatureStatus =
  feature_name :: FeatureName
  fs_enabled :: bool
  fs_reason :: "string option"

record SimulateSwapRequest =
  ss_pool_id :: string
  ss_asset_in_address :: string
  ss_asset_out_address :: string
  ss_amount_in :: u128
  ss_integrator_bps :: "u32 option"

record SimulateSwapResponse =
  ssr_amount_out :: u128
  ssr_execution_price :: "f64 option"
  fee_paid_asset_in :: "u128 option"
  ssr_price_impact_pct :: "string option"
  ssr_warning_message :: "string option"

record ExecuteSwapRequest =
  es_pool_id :: string
  es_asset_in_address :: string
  es_asset_out_address :: string
  es_amount_in :: u128
  es_max_slippage_bps :: u32
  es_min_amount_out :: u128
  es_integrator_fee_rate_bps :: "u32 option"
  es_integrator_public_key :: "string option"
  es_transfer_id :: "string option"

record ExecuteSwapIntent =
  in_user_public_key :: string
  in_lp_identity_public_key :: string
  in_asset_in_spark_transfer_id :: string
  in_asset_in_address :: string
  in_asset_out_address :: string
  in_amount_in :: u128
  in_min_amount_out :: u128
  in_max_slippage_bps :: u32
  in_nonce :: string
  in_total_integrator_fee_rate_bps :: u32

record SignedExecuteSwapRequest =
  sr_intent :: ExecuteSwapIntent
  sr_integrator_public_key :: string
  sr_signature :: string

record SignedExecuteSwapResponse =
  sx_request_id :: string
  sx_accepted :: bool
  sx_amount_out :: "u128 option"
  sx_fee_amount :: "u128 option"
  sx_execution_price :: "f64 option"
  sx_asset_out_address :: "string option"
  sx_asset_in_address :: "string option"
  sx_outbound_transfer_id :: "string option"
  sx_error :: "string option"
  sx_refunded_asset_address :: "string option"
  sx_refunded_amount :: "u128 option"
  sx_refund_transfer_id :: "string option"

record ExecuteSwapResponse =
  xr_transfer_id :: string
  xr_request_id :: string
  xr_accepted :: bool
  xr_amount_out :: "u128 option"
  xr_fee_amount :: "u128 option"
  xr_execution_price :: "f64 option"
  xr_asset_out_address :: "string option"
  xr_asset_in_address :: "string option"
  xr_outbound_transfer_id :: "string option"
  xr_error :: "string option"
  xr_refunded_asset_address :: "string option"
  xr_refunded_amount :: "u128 option"
  xr_refund_transfer_id :: "string option"

definition from_signed_execute_swap_response :: "SignedExecuteSwapResponse \<Rightarrow> string \<Rightarrow> ExecuteSwapResponse" where
  "from_signed_execute_swap_response response transfer_id =
     \<lparr>xr_transfer_id = transfer_id, xr_request_id = sx_request_id response, xr_accepted = sx_accepted response,
      xr_amount_out = sx_amount_out response, xr_fee_amount = sx_fee_amount response,
      xr_execution_price = sx_execution_price response, xr_asset_out_address = sx_asset_out_address response,
      xr_asset_in_address = sx_asset_in_address response, xr_outbound_transfer_id = sx_outbound_transfer_id response,
      xr_error = sx_error response, xr_refunded_asset_address = sx_refunded_asset_address response,
      xr_refunded_amount = sx_refunded_amount response, xr_refund_transfer_id = sx_refund_transfer_id response\<rparr>"

record ClawbackRequest =
  cb_pool_id :: string
  cb_transfer_id :: string

record ClawbackIntent =
  ci_sender_public_key :: string
  ci_spark_transfer_id :: string
  ci_lp_identity_public_key :: string
  ci_nonce :: string

record ClawbackResponse =
  cr_request_id :: string
  cr_accepted :: bool
  cr_internal_request_id :: string
  cr_spark_status_tracking_id :: string
  cr_error :: "string option"

record IntegratorConfig =
  ic_pubkey :: string
  ic_fee_bps :: u32

section \<open>State and surroundings\<close>

datatype CacheData =
    PoolsData ListPoolsResponse | MinAmountsData "MinAmount list" | FeaturesData "FeatureStatus list" | PingData string | TokenData string

record CacheItem =
  ca_data :: CacheData
  ca_expiration :: u128

record SwapTransfer =
  st_amount :: u128
  st_asset :: string
  st_receiver :: string
  st_id :: string

record FlashnetClient =
  fc_network :: Network
  fc_integrator_config :: "IntegratorConfig option"
  fc_cache :: "(string, CacheItem) hmap"
  fc_calls :: nat
  fc_transfers :: "SwapTransfer list"

datatype RemoteError = HttpFailed string "nat option" | BadJson string

record AccessToken =
  at_token :: string
  at_exp :: "u64 option"

record flashnet_env =
  fe_now_ms :: "nat \<Rightarrow> u128 option"
  fe_challenge :: "nat \<Rightarrow> string \<Rightarrow> RemoteError + string"
  fe_verify :: "nat \<Rightarrow> string \<Rightarrow> string \<Rightarrow> RemoteError + AccessToken"
  fe_list_pools :: "nat \<Rightarrow> string \<Rightarrow> ListPoolsRequest \<Rightarrow> RemoteError + ListPoolsResponse"
  fe_min_amounts :: "nat \<Rightarrow> string \<Rightarrow> RemoteError + MinAmount list"
  fe_feature_status :: "nat \<Rightarrow> string \<Rightarrow> RemoteError + FeatureStatus list"
  fe_ping :: "nat \<Rightarrow> string \<Rightarrow> RemoteError + string"
  fe_simulate :: "nat \<Rightarrow> string \<Rightarrow> SimulateSwapRequest \<Rightarrow> RemoteError + SimulateSwapResponse"
  fe_swap :: "nat \<Rightarrow> string \<Rightarrow> SignedExecuteSwapRequest \<Rightarrow> RemoteError + SignedExecuteSwapResponse"
  fe_clawback :: "nat \<Rightarrow> string \<Rightarrow> ClawbackIntent \<Rightarrow> string \<Rightarrow> RemoteError + ClawbackResponse"
  fe_identity :: string
  fe_sign_challenge :: "nat \<Rightarrow> string \<Rightarrow> string + string"
  fe_sign_swap :: "nat \<Rightarrow> ExecuteSwapIntent \<Rightarrow> string + string"
  fe_sign_clawback :: "nat \<Rightarrow> ClawbackIntent \<Rightarrow> string + string"
  fe_nonce :: "nat \<Rightarrow> string"
  fe_request_hash :: "ListPoolsRequest \<Rightarrow> string"
  fe_bech :: token_decoder
  fe_encode_token_id :: "string \<Rightarrow> Network \<Rightarrow> string + string"
  fe_transfer :: "nat \<Rightarrow> u64 \<Rightarrow> string \<Rightarrow> string option \<Rightarrow> string + string"
  fe_transfer_tokens :: "nat \<Rightarrow> string \<Rightarrow> u128 \<Rightarrow> string \<Rightarrow> string + string"

type_synonym 'a client = "FlashnetClient \<Rightarrow> FlashnetClient \<times> (FlashnetError + 'a)"

text \<open>One call to the world outside.\<close>

definition outside :: "(nat \<Rightarrow> FlashnetError + 'a) \<Rightarrow> 'a client" where
  "outside f c = (c\<lparr>fc_calls := Suc (fc_calls c)\<rparr>, f (fc_calls c))"

definition http_error :: "RemoteError \<Rightarrow> FlashnetError" where
  "http_error e =
     (case e of HttpFailed reason code \<Rightarrow> FlashnetNetwork reason code
      | BadJson m \<Rightarrow> FlashnetGeneric (''Failed to parse response JSON: '' @ m))"

section \<open>Cache\<close>

definition clock :: "flashnet_env \<Rightarrow> string \<Rightarrow> u128 client" where
  "clock env message = outside (\<lambda>n. ok_or (fe_now_ms env n) (FlashnetGeneric message))"

definition cache_get :: "flashnet_env \<Rightarrow> (CacheData \<Rightarrow> 'a option) \<Rightarrow> string \<Rightarrow> 'a option client" where
  "cache_get env decode key c =
     (case hm_get (fc_cache c) key of
        None \<Rightarrow> (c, Ok None)
      | Some item \<Rightarrow>
          cl_bind (clock env ''System time error'') (\<lambda>now.
            if ca_expiration item < now then cl_return None
            else cl_lift (ok_or (map_option Some (decode (ca_data item)))
                   (FlashnetGeneric ''Failed to deserialize cache item''))) c)"

definition cache_set :: "flashnet_env \<Rightarrow> string \<Rightarrow> CacheData \<Rightarrow> u128 \<Rightarrow> unit client" where
  "cache_set env key data ttl_ms =
     cl_bind (clock env ''System time error'') (\<lambda>now c.
       (c\<lparr>fc_cache := hm_insert key \<lparr>ca_data = data, ca_expiration = sat_add 128 now ttl_ms\<rparr> (fc_cache c)\<rparr>, Ok ()))"

fun token_data :: "CacheData \<Rightarrow> string option" where
  "token_data (TokenData t) = Some t" | "token_data _ = None"

fun ping_data :: "CacheData \<Rightarrow> string option" where
  "ping_data (PingData t) = Some t" | "ping_data _ = None"

fun features_data :: "CacheData \<Rightarrow> FeatureStatus list option" where
  "features_data (FeaturesData t) = Some t" | "features_data _ = None"

fun min_amounts_data :: "CacheData \<Rightarrow> MinAmount list option" where
  "min_amounts_data (MinAmountsData t) = Some t" | "min_amounts_data _ = None"

fun pools_data :: "CacheData \<Rightarrow> ListPoolsResponse option" where
  "pools_data (PoolsData t) = Some t" | "pools_data _ = None"

section \<open>Authentication and requests\<close>

definition HOUR_MS :: u32 where
  "HOUR_MS = 60 * 60 * 1000"

definition wallet_error :: "string \<Rightarrow> FlashnetError" where
  "wallet_error m = FlashnetWallet m"

definition access_token_ttl :: "flashnet_env \<Rightarrow> u64 option \<Rightarrow> u128 client" where
  "access_token_ttl env expiry =
     (case expiry of
        None \<Rightarrow> cl_return HOUR_MS
      | Some t \<Rightarrow> cl_bind (clock env ''Failed to get current time'') (\<lambda>now. cl_return (sat_sub (sat_sub (t * 1000) now) 30000)))"

definition authenticate :: "flashnet_env \<Rightarrow> string client" where
  "authenticate env =
     cl_bind (outside (\<lambda>n. map_err http_error (fe_challenge env n (fe_identity env)))) (\<lambda>challenge_string.
     cl_bind (outside (\<lambda>n. map_err wallet_error (fe_sign_challenge env n challenge_string))) (\<lambda>signature.
     cl_bind (outside (\<lambda>n. map_err http_error (fe_verify env n (fe_identity env) signature))) (\<lambda>verify_response.
     cl_bind (access_token_ttl env (at_exp verify_response)) (\<lambda>ttl_ms.
     cl_bind (cache_set env ''access_token'' (TokenData (at_token verify_response)) ttl_ms) (\<lambda>_.
       cl_return (at_token verify_response))))))"

definition get_access_token :: "flashnet_env \<Rightarrow> string client" where
  "get_access_token env =
     cl_bind (cache_get env token_data ''access_token'') (\<lambda>cached.
       case cached of Some access_token \<Rightarrow> cl_return access_token | None \<Rightarrow> authenticate env)"

definition flashnet_request :: "flashnet_env \<Rightarrow> (nat \<Rightarrow> string \<Rightarrow> RemoteError + 'a) \<Rightarrow> 'a client" where
  "flashnet_request env answer =
     cl_bind (get_access_token env) (\<lambda>access_token. outside (\<lambda>n. map_err http_error (answer n access_token)))"

section \<open>Checks before a swap\<close>

definition FEATURE_STATUSES_TTL_MS :: u32 where "FEATURE_STATUSES_TTL_MS = 5000"
definition LIST_POOLS_TTL_MS :: u32 where "LIST_POOLS_TTL_MS = 60000"
definition MIN_AMOUNTS_TTL_MS :: u32 where "MIN_AMOUNTS_TTL_MS = 5000"
definition PING_TTL_MS :: u32 where "PING_TTL_MS = 2000"

text \<open>The cached answer, or else the answer of a request, which is then cached.\<close>

definition cached_request ::
  "flashnet_env \<Rightarrow> (CacheData \<Rightarrow> 'a option) \<Rightarrow> ('a \<Rightarrow> CacheData) \<Rightarrow> string \<Rightarrow> u32 \<Rightarrow> (nat \<Rightarrow> string \<Rightarrow> RemoteError + 'a) \<Rightarrow> 'a client" where
  "cached_request env decode encode key ttl answer =
     cl_bind (cache_get env decode key) (\<lambda>cached.
       case cached of
         Some x \<Rightarrow> cl_return x
       | None \<Rightarrow>
           cl_bind (flashnet_request env answer) (\<lambda>x.
           cl_bind (cache_set env key (encode x) ttl) (\<lambda>_. cl_return x)))"

definition config_min_amounts :: "flashnet_env \<Rightarrow> MinAmount list client" where
  "config_min_amounts env =
     cached_request env min_amounts_data MinAmountsData ''min_amounts'' MIN_AMOUNTS_TTL_MS (fe_min_amounts env)"

definition ascii_lower :: "string \<Rightarrow> string" where
  "ascii_lower s = map (\<lambda>c. if 65 \<le> (of_char c :: nat) \<and> (of_char c :: nat) \<le> 90 then char_of (of_char c + 32 :: nat) else c) s"

definition ensure_ping_ok :: "flashnet_env \<Rightarrow> unit client" where
  "ensure_ping_ok env =
     cl_bind (cached_request env ping_data PingData ''ping'' PING_TTL_MS (fe_ping env)) (\<lambda>status.
       if ascii_lower status \<noteq> ''ok'' then cl_fail (FlashnetGeneric ''Flashnet ping response not ok'') else cl_return ())"

definition ensure_feature_status :: "flashnet_env \<Rightarrow> FeatureName \<Rightarrow> unit client" where
  "ensure_feature_status env name =
     cl_bind (cached_request env features_data FeaturesData ''feature_statuses'' FEATURE_STATUSES_TTL_MS (fe_feature_status env))
       (\<lambda>statuses.
         case find (\<lambda>fs. feature_name fs = name) statuses of
           Some fs \<Rightarrow>
             if fs_enabled fs then cl_return ()
             else cl_fail (FlashnetGeneric (''Feature '' @ feature_debug name @ '' is disabled: ''
                    @ unwrap_or (fs_reason fs) ''No reason provided''))
         | None \<Rightarrow> cl_fail (FlashnetGeneric (''Feature '' @ feature_debug name @ '' not found in status list'')))"

record GetMinAmountsResponse =
  asset_in_min :: "u128 option"
  asset_out_min :: "u128 option"

definition min_amounts_for :: "MinAmount list \<Rightarrow> string \<Rightarrow> string \<Rightarrow> GetMinAmountsResponse" where
  "min_amounts_for min_amounts asset_in asset_out =
     (let m = hm_insert_all asset_identifier min_amount (filter ma_enabled min_amounts) []
      in case hm_get m asset_in of
           Some min_in \<Rightarrow> \<lparr>asset_in_min = Some min_in, asset_out_min = None\<rparr>
         | None \<Rightarrow>
             (case hm_get m asset_out of
                Some min_out \<Rightarrow> \<lparr>asset_in_min = None, asset_out_min = Some (min_out div 2)\<rparr>
              | None \<Rightarrow> \<lparr>asset_in_min = None, asset_out_min = None\<rparr>))"

definition decoded :: "flashnet_env \<Rightarrow> string \<Rightarrow> string client" where
  "decoded env address c = cl_lift (decode_token_identifier (fe_bech env) address (fc_network c)) c"

definition get_min_amounts :: "flashnet_env \<Rightarrow> string \<Rightarrow> string \<Rightarrow> GetMinAmountsResponse client" where
  "get_min_amounts env asset_in_address asset_out_address =
     cl_bind (decoded env asset_in_address) (\<lambda>asset_in.
     cl_bind (decoded env asset_out_address) (\<lambda>asset_out.
     cl_bind (config_min_amounts env) (\<lambda>min_amounts. cl_return (min_amounts_for min_amounts asset_in asset_out))))"

definition ensure_min_amounts :: "flashnet_env \<Rightarrow> string \<Rightarrow> string \<Rightarrow> u128 \<Rightarrow> u128 option \<Rightarrow> unit client" where
  "ensure_min_amounts env asset_in_address asset_out_address amount_in min_amount_out =
     cl_bind (get_min_amounts env asset_in_address asset_out_address) (\<lambda>m.
       case asset_in_min m of
         Some min_in \<Rightarrow>
           if amount_in < min_in
           then cl_fail (FlashnetGeneric (''Amount in '' @ decimal amount_in @ '' is less than minimum required ''
                  @ decimal min_in @ '' for asset '' @ asset_in_address))
           else cl_return ()
       | None \<Rightarrow>
           (case (min_amount_out, asset_out_min m) of
              (Some out, Some min_out) \<Rightarrow>
                if out < min_out
                then cl_fail (FlashnetGeneric (''Minimum amount out '' @ decimal out @ '' is less than required ''
                       @ decimal min_out @ '' (50% relaxed) for asset '' @ asset_out_address))
                else cl_return ()
            | _ \<Rightarrow> cl_return ()))"

section \<open>Operations\<close>

definition list_pools :: "flashnet_env \<Rightarrow> ListPoolsRequest \<Rightarrow> ListPoolsResponse client" where
  "list_pools env request0 =
     cl_bind (case lp_asset_a_address request0 of None \<Rightarrow> cl_return None | Some a \<Rightarrow> cl_bind (decoded env a) (\<lambda>x. cl_return (Some x))) (\<lambda>a.
     cl_bind (case lp_asset_b_address request0 of None \<Rightarrow> cl_return None | Some b \<Rightarrow> cl_bind (decoded env b) (\<lambda>x. cl_return (Some x))) (\<lambda>b.
       let request = request0\<lparr>lp_asset_a_address := a, lp_asset_b_address := b\<rparr>
       in cached_request env pools_data PoolsData (''list_pools_'' @ fe_request_hash env request) LIST_POOLS_TTL_MS
            (\<lambda>n token. fe_list_pools env n token request)))"

definition simulate_swap :: "flashnet_env \<Rightarrow> SimulateSwapRequest \<Rightarrow> SimulateSwapResponse client" where
  "simulate_swap env request0 =
     cl_bind (decoded env (ss_asset_in_address request0)) (\<lambda>asset_in.
     cl_bind (decoded env (ss_asset_out_address request0)) (\<lambda>asset_out.
       let request = request0\<lparr>ss_asset_in_address := asset_in, ss_asset_out_address := asset_out\<rparr>
       in cl_bind (ensure_ping_ok env) (\<lambda>_.
          cl_bind (ensure_feature_status env AllowSwaps) (\<lambda>_.
          cl_bind (ensure_min_amounts env asset_in asset_out (ss_amount_in request) None) (\<lambda>_.
            flashnet_request env (\<lambda>n token. fe_simulate env n token request))))))"

text \<open>A transfer that the wallet confirms is added to the list.\<close>

definition sent :: "u128 \<Rightarrow> string \<Rightarrow> string \<Rightarrow> string \<Rightarrow> string client" where
  "sent amount asset receiver i c =
     (c\<lparr>fc_transfers := fc_transfers c @ [\<lparr>st_amount = amount, st_asset = asset, st_receiver = receiver, st_id = i\<rparr>]\<rparr>, Ok i)"

definition transfer_asset :: "flashnet_env \<Rightarrow> u128 \<Rightarrow> string \<Rightarrow> string \<Rightarrow> string option \<Rightarrow> string client" where
  "transfer_asset env amount asset_address receiver transfer_id c =
     (if asset_address = BTC_ASSET_ADDRESS
      then if 2 ^ 64 \<le> amount then cl_fail (FlashnetGeneric ''Failed to convert amount to u64'') c
           else cl_bind (outside (\<lambda>n. map_err wallet_error (fe_transfer env n amount receiver transfer_id)))
                  (sent amount asset_address receiver) c
      else cl_bind (cl_lift (map_err FlashnetGeneric (fe_encode_token_id env asset_address (fc_network c)))) (\<lambda>token_id.
             cl_bind (outside (\<lambda>n. map_err wallet_error (fe_transfer_tokens env n token_id amount receiver)))
               (sent amount asset_address receiver)) c)"

definition swap_fee_and_key :: "FlashnetClient \<Rightarrow> ExecuteSwapRequest \<Rightarrow> u32 \<times> string option" where
  "swap_fee_and_key c request =
     (case (es_integrator_fee_rate_bps request, es_integrator_public_key request) of
        (Some fee, pk) \<Rightarrow> (fee, pk)
      | (None, Some pk) \<Rightarrow> (0, Some pk)
      | (None, None) \<Rightarrow>
          (case fc_integrator_config c of Some cfg \<Rightarrow> (ic_fee_bps cfg, Some (ic_pubkey cfg)) | None \<Rightarrow> (0, None)))"

definition sign_execute_swap :: "flashnet_env \<Rightarrow> ExecuteSwapRequest \<Rightarrow> string \<Rightarrow> SignedExecuteSwapResponse client" where
  "sign_execute_swap env request asset_in_spark_transfer_id c =
     cl_bind (outside (\<lambda>n. Ok (fe_nonce env n))) (\<lambda>nonce.
       let (fee, pk) = swap_fee_and_key c request;
           intent = \<lparr>in_user_public_key = fe_identity env, in_lp_identity_public_key = es_pool_id request,
             in_asset_in_spark_transfer_id = asset_in_spark_transfer_id, in_asset_in_address = es_asset_in_address request,
             in_asset_out_address = es_asset_out_address request, in_amount_in = es_amount_in request,
             in_min_amount_out = es_min_amount_out request, in_max_slippage_bps = es_max_slippage_bps request,
             in_nonce = nonce, in_total_integrator_fee_rate_bps = fee\<rparr>
       in cl_bind (outside (\<lambda>n. map_err wallet_error (fe_sign_swap env n intent))) (\<lambda>signature.
            flashnet_request env (\<lambda>n token. fe_swap env n token
              \<lparr>sr_intent = intent, sr_integrator_public_key = unwrap_or pk [], sr_signature = signature\<rparr>))) c"

definition execute_swap :: "flashnet_env \<Rightarrow> ExecuteSwapRequest \<Rightarrow> ExecuteSwapResponse client" where
  "execute_swap env request0 =
     cl_bind (decoded env (es_asset_in_address request0)) (\<lambda>asset_in.
     cl_bind (decoded env (es_asset_out_address request0)) (\<lambda>asset_out.
       let request = request0\<lparr>es_asset_in_address := asset_in, es_asset_out_address := asset_out\<rparr>
       in cl_bind (ensure_ping_ok env) (\<lambda>_.
          cl_bind (ensure_feature_status env AllowSwaps) (\<lambda>_.
          cl_bind (ensure_min_amounts env asset_in asset_out (es_amount_in request) (Some (es_min_amount_out request))) (\<lambda>_.
          cl_bind (transfer_asset env (es_amount_in request) asset_in (es_pool_id request) (es_transfer_id request))
            (\<lambda>transaction_identifier c.
              case sign_execute_swap env request transaction_identifier c of
                (c', Ok response) \<Rightarrow> (c', Ok (from_signed_execute_swap_response response transaction_identifier))
              | (c', Err e) \<Rightarrow> (c', Err (FlashnetExecution e (Some transaction_identifier)))))))))"

definition sign_clawback :: "flashnet_env \<Rightarrow> ClawbackRequest \<Rightarrow> ClawbackResponse client" where
  "sign_clawback env request =
     cl_bind (outside (\<lambda>n. Ok (fe_nonce env n))) (\<lambda>nonce.
       let intent = \<lparr>ci_sender_public_key = fe_identity env, ci_spark_transfer_id = cb_transfer_id request,
                     ci_lp_identity_public_key = cb_pool_id request, ci_nonce = nonce\<rparr>
       in cl_bind (outside (\<lambda>n. map_err wallet_error (fe_sign_clawback env n intent))) (\<lambda>signature.
            flashnet_request env (\<lambda>n token. fe_clawback env n token intent signature)))"

definition clawback :: "flashnet_env \<Rightarrow> ClawbackRequest \<Rightarrow> ClawbackResponse client" where
  "clawback env request = cl_bind (ensure_ping_ok env) (\<lambda>_. sign_clawback env request)"

section \<open>Operations that send nothing\<close>

definition plain_error :: "FlashnetError \<Rightarrow> bool" where
  "plain_error e = (case e of FlashnetExecution _ _ \<Rightarrow> False | _ \<Rightarrow> True)"

definition quiet :: "'a client \<Rightarrow> bool" where
  "quiet m \<longleftrightarrow> (\<forall>c. fc_transfers (fst (m c)) = fc_transfers c \<and> (\<forall>e. snd (m c) = Err e \<longrightarrow> plain_error e))"

named_theorems quiet_intros

lemma plain_simps [simp]:
  "plain_error (FlashnetGeneric m)" "plain_error (wallet_error m)" "plain_error (http_error r)" "\<not> plain_error (FlashnetExecution e i)"
  by (simp_all add: plain_error_def wallet_error_def http_error_def split: RemoteError.split)

lemma map_err_plain: "map_err f r = Err e \<Longrightarrow> (\<And>m. plain_error (f m)) \<Longrightarrow> plain_error e"
  by (auto simp: map_err_def split: sum.splits)

lemma quiet_return [quiet_intros]: "quiet (cl_return x)"
  by (simp add: quiet_def cl_return_def)

lemma quiet_fail [quiet_intros]: "plain_error e \<Longrightarrow> quiet (cl_fail e)"
  by (simp add: quiet_def cl_fail_def)

lemma quiet_bind [quiet_intros]: "quiet m \<Longrightarrow> (\<And>x. quiet (f x)) \<Longrightarrow> quiet (cl_bind m f)"
proof -
  assume m: "quiet m" and f: "\<And>x. quiet (f x)"
  show ?thesis unfolding quiet_def
  proof
    fix c
    obtain c' r where r: "m c = (c', r)" by fastforce
    with m have "fc_transfers c' = fc_transfers c" "\<And>e. r = Err e \<Longrightarrow> plain_error e" unfolding quiet_def by (metis fst_conv snd_conv)+
    moreover have "fc_transfers (fst (f x c')) = fc_transfers c'" "snd (f x c') = Err e \<Longrightarrow> plain_error e" for x e
      using f unfolding quiet_def by blast+
    ultimately show "fc_transfers (fst (cl_bind m f c)) = fc_transfers c \<and> (\<forall>e. snd (cl_bind m f c) = Err e \<longrightarrow> plain_error e)"
      by (simp add: cl_bind_def r split: sum.split)
  qed
qed

lemma quiet_lift: "(\<And>e. r = Err e \<Longrightarrow> plain_error e) \<Longrightarrow> quiet (cl_lift r)"
  by (simp add: quiet_def cl_lift_def)

lemma quiet_outside: "(\<And>n e. f n = Err e \<Longrightarrow> plain_error e) \<Longrightarrow> quiet (outside f)"
  by (auto simp: quiet_def outside_def)

lemma quiet_http [quiet_intros]: "quiet (outside (\<lambda>n. map_err http_error (f n)))"
  by (rule quiet_outside) (erule map_err_plain, simp)

lemma quiet_wallet [quiet_intros]: "quiet (outside (\<lambda>n. map_err wallet_error (f n)))"
  by (rule quiet_outside) (erule map_err_plain, simp)

lemma quiet_nonce [quiet_intros]: "quiet (outside (\<lambda>n. Ok (f n)))"
  by (rule quiet_outside) simp

lemma quiet_clock [quiet_intros]: "quiet (clock env m)"
  unfolding clock_def by (rule quiet_outside) (auto simp: ok_or_def split: option.splits)

lemma quiet_if [quiet_intros]: "(P \<Longrightarrow> quiet m) \<Longrightarrow> (\<not> P \<Longrightarrow> quiet m') \<Longrightarrow> quiet (if P then m else m')"
  by simp

lemma quiet_option [quiet_intros]: "quiet m \<Longrightarrow> (\<And>x. quiet (f x)) \<Longrightarrow> quiet (case y of None \<Rightarrow> m | Some x \<Rightarrow> f x)"
  by (simp split: option.split)

lemma quiet_by_state: "(\<And>c. \<exists>m'. quiet m' \<and> m c = m' c) \<Longrightarrow> quiet m"
  by (metis quiet_def)

lemma quiet_cache_get [quiet_intros]: "quiet (cache_get env decode key)"
proof (rule quiet_by_state)
  fix c
  have "quiet (cl_bind (clock env m) (\<lambda>now. if ca_expiration item < now then cl_return None
      else cl_lift (ok_or (map_option Some (decode (ca_data item))) (FlashnetGeneric m'))))" for item m m'
    by (intro quiet_intros quiet_lift) (auto simp: ok_or_def split: option.splits)
  moreover have "cache_get env decode key c = cl_return None c" if "hm_get (fc_cache c) key = None"
    using that by (simp add: cache_get_def cl_return_def)
  ultimately show "\<exists>m'. quiet m' \<and> cache_get env decode key c = m' c"
    unfolding cache_get_def using quiet_return by (cases "hm_get (fc_cache c) key") fastforce+
qed

lemma quiet_cache_set [quiet_intros]: "quiet (cache_set env key data ttl)"
  unfolding cache_set_def by (intro quiet_bind quiet_clock) (simp add: quiet_def)

lemma quiet_ttl [quiet_intros]: "quiet (access_token_ttl env t)"
  unfolding access_token_ttl_def by (intro quiet_intros)

lemma quiet_token [quiet_intros]: "quiet (get_access_token env)"
  unfolding get_access_token_def authenticate_def by (intro quiet_intros)

lemma quiet_request [quiet_intros]: "quiet (flashnet_request env f)"
  unfolding flashnet_request_def by (intro quiet_intros)

lemma quiet_cached [quiet_intros]: "quiet (cached_request env d e k t f)"
  unfolding cached_request_def by (intro quiet_intros)

lemma quiet_ping [quiet_intros]: "quiet (ensure_ping_ok env)"
  unfolding ensure_ping_ok_def by (intro quiet_intros plain_simps)

lemma quiet_feature [quiet_intros]: "quiet (ensure_feature_status env name)"
  unfolding ensure_feature_status_def by (intro quiet_intros plain_simps)

lemma quiet_decoded [quiet_intros]: "quiet (decoded env a)"
  unfolding quiet_def decoded_def cl_lift_def
  by (auto simp: decode_token_identifier_def map_err_def split: if_splits sum.splits)

lemma quiet_min_amounts [quiet_intros]: "quiet (get_min_amounts env a b)"
  unfolding get_min_amounts_def config_min_amounts_def by (intro quiet_intros)

lemma quiet_ensure_min [quiet_intros]: "quiet (ensure_min_amounts env a b x y)"
  unfolding ensure_min_amounts_def prod.case by (intro quiet_intros plain_simps)

lemma quiet_list_pools [quiet_intros]: "quiet (list_pools env r)"
  unfolding list_pools_def Let_def by (intro quiet_intros)

lemma quiet_simulate [quiet_intros]: "quiet (simulate_swap env r)"
  unfolding simulate_swap_def Let_def by (intro quiet_intros)

lemma quiet_sign_swap [quiet_intros]: "quiet (sign_execute_swap env r i)"
  by (rule quiet_by_state, unfold sign_execute_swap_def Let_def case_prod_beta, rule exI, rule conjI [OF _ refl])
    (intro quiet_intros)

lemma quiet_clawback [quiet_intros]: "quiet (clawback env r)"
  unfolding clawback_def sign_clawback_def Let_def by (intro quiet_intros)

section \<open>A swap\<close>

lemma quietD: "quiet m \<Longrightarrow> m c = (c', r) \<Longrightarrow> fc_transfers c' = fc_transfers c \<and> (\<forall>e. r = Err e \<longrightarrow> plain_error e)"
  unfolding quiet_def by (metis fst_conv snd_conv)

lemma decoded_state: "decoded env a c = (c', r) \<Longrightarrow> c' = c \<and> r = decode_token_identifier (fe_bech env) a (fc_network c)"
  by (auto simp: decoded_def cl_lift_def)

lemma sent_effect:
  assumes "cl_bind m (sent amount asset receiver) c = (c', r)" and "quiet m"
  shows "(fc_transfers c' = fc_transfers c \<and> (\<exists>e. r = Err e \<and> plain_error e))
    \<or> (\<exists>i. r = Ok i \<and> fc_transfers c' = fc_transfers c @ [\<lparr>st_amount = amount, st_asset = asset, st_receiver = receiver, st_id = i\<rparr>])"
  using assms(1)
proof (cases rule: cl_bind_cases)
  case (failed e)
  with quietD [OF assms(2)] show ?thesis by blast
next
  case (went_on c1 x)
  with quietD [OF assms(2) went_on(1)] show ?thesis by (auto simp: sent_def)
qed

lemma transfer_asset_effect:
  assumes "transfer_asset env amount asset receiver tid c = (c', r)"
  shows "(fc_transfers c' = fc_transfers c \<and> (\<exists>e. r = Err e \<and> plain_error e))
    \<or> (\<exists>i. r = Ok i \<and> fc_transfers c' = fc_transfers c @ [\<lparr>st_amount = amount, st_asset = asset, st_receiver = receiver, st_id = i\<rparr>])"
proof (cases "asset = BTC_ASSET_ADDRESS")
  case True
  with assms sent_effect [OF _ quiet_wallet] show ?thesis
    by (auto simp: transfer_asset_def cl_fail_def split: if_splits)
next
  case False
  with assms have "cl_bind (cl_lift (map_err FlashnetGeneric (fe_encode_token_id env asset (fc_network c)))) (\<lambda>token_id.
      cl_bind (outside (\<lambda>n. map_err wallet_error (fe_transfer_tokens env n token_id amount receiver))) (sent amount asset receiver)) c = (c', r)"
    by (simp add: transfer_asset_def)
  then show ?thesis
  proof (cases rule: cl_bind_cases)
    case (failed e)
    then have "c' = c" "plain_error e" using map_err_plain [of FlashnetGeneric] by (auto simp: cl_lift_def)
    with failed(2) show ?thesis by simp
  next
    case (went_on c1 x)
    then have "c1 = c" by (simp add: cl_lift_def)
    with sent_effect [OF went_on(2) quiet_wallet] show ?thesis by simp
  qed
qed

text \<open>A step that sends nothing: it either ends the run or hands over.\<close>

lemma quiet_then:
  assumes "cl_bind m f c = (c', r)" and "quiet m"
  obtains (stop) e where "fc_transfers c' = fc_transfers c" and "r = Err e" and "plain_error e"
  | (go) c1 x where "m c = (c1, Ok x)" and "fc_transfers c1 = fc_transfers c" and "f x c1 = (c', r)"
  using assms(1)
proof (cases rule: cl_bind_cases)
  case (failed e)
  with quietD [OF assms(2) failed(1)] show thesis by (intro stop [of e]) simp_all
next
  case (went_on c1 x)
  with quietD [OF assms(2) went_on(1)] show thesis by (intro go [of c1 x]) simp_all
qed

definition swap_checked :: "flashnet_env \<Rightarrow> ExecuteSwapRequest \<Rightarrow> FlashnetClient \<Rightarrow> string \<Rightarrow> string \<Rightarrow> FlashnetClient \<Rightarrow> bool" where
  "swap_checked env req c asset_in asset_out c3 \<longleftrightarrow>
     decode_token_identifier (fe_bech env) (es_asset_in_address req) (fc_network c) = Ok asset_in
     \<and> decode_token_identifier (fe_bech env) (es_asset_out_address req) (fc_network c) = Ok asset_out
     \<and> (\<exists>c1 c2. ensure_ping_ok env c = (c1, Ok ()) \<and> ensure_feature_status env AllowSwaps c1 = (c2, Ok ())
          \<and> ensure_min_amounts env asset_in asset_out (es_amount_in req) (Some (es_min_amount_out req)) c2 = (c3, Ok ()))"

lemma execute_swap_cases:
  assumes "execute_swap env req c = (c', r)"
  obtains (unsent) e where "fc_transfers c' = fc_transfers c" and "r = Err e" and "plain_error e"
  | (checked) asset_in asset_out c3 where "swap_checked env req c asset_in asset_out c3" and "fc_transfers c3 = fc_transfers c"
    and "cl_bind (transfer_asset env (es_amount_in req) asset_in (es_pool_id req) (es_transfer_id req)) (\<lambda>i c.
       case sign_execute_swap env (req\<lparr>es_asset_in_address := asset_in, es_asset_out_address := asset_out\<rparr>) i c of
         (c', Ok response) \<Rightarrow> (c', Ok (from_signed_execute_swap_response response i))
       | (c', Err e) \<Rightarrow> (c', Err (FlashnetExecution e (Some i)))) c3 = (c', r)"
  using assms unfolding execute_swap_def Let_def
  by (elim quiet_then [OF _ quiet_decoded] quiet_then [OF _ quiet_ping] quiet_then [OF _ quiet_feature] quiet_then [OF _ quiet_ensure_min])
    (auto dest!: decoded_state intro: unsent, erule checked [rotated 2], auto simp: swap_checked_def)

lemma execute_swap_effect:
  assumes "execute_swap env req c = (c', r)"
  shows "(fc_transfers c' = fc_transfers c \<and> (\<exists>e. r = Err e \<and> plain_error e))
    \<or> (\<exists>asset_in asset_out i c3. swap_checked env req c asset_in asset_out c3
         \<and> fc_transfers c' = fc_transfers c @
             [\<lparr>st_amount = es_amount_in req, st_asset = asset_in, st_receiver = es_pool_id req, st_id = i\<rparr>]
         \<and> ((\<exists>x. r = Ok x \<and> xr_transfer_id x = i) \<or> (\<exists>e. r = Err (FlashnetExecution e (Some i)) \<and> plain_error e)))"
  using assms
proof (cases rule: execute_swap_cases)
  case (checked asset_in asset_out c3)
  from checked(3) show ?thesis
  proof (cases rule: cl_bind_cases)
    case (failed e)
    with transfer_asset_effect [OF failed(1)] checked(2) show ?thesis by simp
  next
    case (went_on c4 i)
    then obtain x where x: "sign_execute_swap env (req\<lparr>es_asset_in_address := asset_in, es_asset_out_address := asset_out\<rparr>) i c4 = (c', x)"
      "r = (case x of Ok y \<Rightarrow> Ok (from_signed_execute_swap_response y i) | Err e \<Rightarrow> Err (FlashnetExecution e (Some i)))"
      by (auto split: prod.splits sum.splits)
    note q = quietD [OF quiet_sign_swap x(1)]
    have "fc_transfers c' = fc_transfers c @
        [\<lparr>st_amount = es_amount_in req, st_asset = asset_in, st_receiver = es_pool_id req, st_id = i\<rparr>]"
      using transfer_asset_effect [OF went_on(1)] checked(2) q by simp
    moreover have "(\<exists>y. r = Ok y \<and> xr_transfer_id y = i) \<or> (\<exists>e. r = Err (FlashnetExecution e (Some i)) \<and> plain_error e)"
      using q unfolding x(2) by (cases x) (simp_all add: from_signed_execute_swap_response_def)
    ultimately show ?thesis using checked(1) by blast
  qed
qed simp


end
