(* ===== verification/Token_Converter.thy ===== *)
theory Token_Converter
  imports Conversion_Client
begin

text \<open>
  Token conversion: \<open>crates/breez-sdk/core/src/token_conversion/models.rs\<close>, \<open>error.rs\<close> and \<open>flashnet.rs\<close>. The state holds the client of the
  conversion service and the conversion data of payments, stored under the payment or, while the payment is not
  known yet, under the identifier of the transfer. The answers of storage and wallet are arguments, numbered by a
  counter of the calls. The three writes after a swap run concurrently and the first failure cancels the rest;
  \<open>ce_join\<close> gives the order in which they complete. The two requests for pools, which also run concurrently, are taken in
  order. The request and error texts that a refused clawback prints in debug format are left out. A panic of the pool selection is the value \<open>ConversionPanic\<close>, which does
  not occur.
\<close>

section \<open>Data\<close>

datatype ConversionError =
    NoPoolsAvailable
  | ConversionFailed string
  | DuplicateTransfer
  | ValidationFailed string
  | RefundFailed string
  | ConversionSdk string
  | ConversionStorage string
  | ConversionWallet string
  | ConversionPanic

definition is_duplicate_transfer :: "ConversionError \<Rightarrow> bool" where
  "is_duplicate_transfer e \<longleftrightarrow> e = DuplicateTransfer"

definition option_debug :: "nat option \<Rightarrow> string" where
  "option_debug x = (case x of None \<Rightarrow> ''None'' | Some n \<Rightarrow> ''Some('' @ decimal n @ '')'')"

fun flashnet_to_string :: "FlashnetError \<Rightarrow> string" where
  "flashnet_to_string (FlashnetNetwork reason code) = ''Network error: '' @ reason @ '' (code: '' @ option_debug code @ '')''"
| "flashnet_to_string (FlashnetExecution source i) = ''Execution error: '' @ flashnet_to_string source"
| "flashnet_to_string (FlashnetSession m) = ''Session: '' @ m"
| "flashnet_to_string (FlashnetSigner m) = ''Signer: '' @ m"
| "flashnet_to_string (FlashnetWallet m) = ''Wallet: '' @ m"
| "flashnet_to_string (FlashnetGeneric m) = ''Generic: '' @ m"

definition conversion_error_from :: "FlashnetError \<Rightarrow> ConversionError" where
  "conversion_error_from e =
     (case e of
        FlashnetNetwork _ (Some code) \<Rightarrow> if code = 409 then DuplicateTransfer else ConversionFailed (flashnet_to_string e)
      | _ \<Rightarrow> ConversionFailed (flashnet_to_string e))"

datatype FeeSplit = SentFee u128 | ReceivedFee u128

datatype ConversionPurpose = OngoingPayment string | SelfTransfer | AutoConversion

datatype ConversionAmount = MinAmountOut u128 | AmountIn u128

datatype AmountAdjustmentReason = FlooredToMinLimit | IncreasedToAvoidDust

datatype ConversionStatus = ConvPending | Completed | Failed | RefundNeeded | Refunded

fun conversion_status_to_string :: "ConversionStatus \<Rightarrow> string" where
  "conversion_status_to_string ConvPending = ''pending''"
| "conversion_status_to_string Completed = ''completed''"
| "conversion_status_to_string Failed = ''failed''"
| "conversion_status_to_string RefundNeeded = ''refund_needed''"
| "conversion_status_to_string Refunded = ''refunded''"

definition conversion_status_from_str :: "string \<Rightarrow> string + ConversionStatus" where
  "conversion_status_from_str s =
     (if s = ''pending'' then Ok ConvPending else if s = ''completed'' then Ok Completed
      else if s = ''failed'' then Ok Failed else if s = ''refund_needed'' then Ok RefundNeeded
      else if s = ''refunded'' then Ok Refunded
      else Err (''Invalid conversion status '' @ [char_of (39 :: nat)] @ s @ [char_of (39 :: nat)]))"

record ConversionInfo =
  cv_pool_id :: string
  cv_conversion_id :: string
  cv_status :: ConversionStatus
  cv_fee :: "u128 option"
  cv_purpose :: "ConversionPurpose option"
  cv_amount_adjustment :: "AmountAdjustmentReason option"

datatype ConversionType = FromBitcoin | ToBitcoin string

record ConversionOptions =
  co_conversion_type :: ConversionType
  co_max_slippage_bps :: "u32 option"
  co_completion_timeout_secs :: "u32 option"

record ConversionEstimate =
  est_options :: ConversionOptions
  est_amount_in :: u128
  est_amount_out :: u128
  est_fee :: u128
  est_amount_adjustment :: "AmountAdjustmentReason option"

record TokenConversionPool =
  cp_asset_in_address :: string
  cp_asset_out_address :: string
  cp_pool :: Pool

record TokenConversionResponse =
  sent_payment_id :: string
  received_payment_id :: string

definition DEFAULT_CONVERSION_MAX_SLIPPAGE_BPS :: u32 where
  "DEFAULT_CONVERSION_MAX_SLIPPAGE_BPS = 10"

definition max_slippage :: "ConversionOptions \<Rightarrow> u32" where
  "max_slippage options = unwrap_or (co_max_slippage_bps options) DEFAULT_CONVERSION_MAX_SLIPPAGE_BPS"

definition as_asset_addresses :: "ConversionType \<Rightarrow> string option \<Rightarrow> ConversionError + (string \<times> string)" where
  "as_asset_addresses ct token_identifier =
     (case ct of
        FromBitcoin \<Rightarrow>
          (case token_identifier of
             None \<Rightarrow> Err (ConversionSdk ''Invalid input: Token identifier is required for from Bitcoin conversion'')
           | Some t \<Rightarrow> Ok (BTC_ASSET_ADDRESS, t))
      | ToBitcoin from_token \<Rightarrow> Ok (from_token, BTC_ASSET_ADDRESS))"

section \<open>State\<close>

datatype join_step = JoinSent | JoinReceived | JoinRefund

datatype ConversionPaymentDetails =
    SparkPayment "ConversionInfo option" | TokenPayment string "ConversionInfo option" | OtherPayment

record ConversionPayment =
  pay_id :: string
  pay_details :: "ConversionPaymentDetails option"

record Converter =
  tc_client :: FlashnetClient
  tc_metadata :: "(string, ConversionInfo) hmap"
  tc_pending_metadata :: "(string, ConversionInfo) hmap"
  tc_refund_triggers :: nat
  tc_calls :: nat

record conversion_env =
  ce_flashnet :: flashnet_env
  ce_integrator_fee_bps :: u32
  ce_parse_transfer_id :: "string \<Rightarrow> string option"
  ce_token_payment_id :: "nat \<Rightarrow> string \<Rightarrow> bool \<Rightarrow> ConversionError + string"
  ce_store :: "nat \<Rightarrow> string option"
  ce_list_refunds :: "nat \<Rightarrow> string + ConversionPayment list"
  ce_token_balance :: "nat \<Rightarrow> string \<Rightarrow> string + u128"
  ce_uuid :: "nat \<Rightarrow> string"
  ce_join :: "nat \<Rightarrow> join_step list"
  ce_parse_key :: "string \<Rightarrow> string option"

type_synonym 'a conv = "Converter \<Rightarrow> Converter \<times> (ConversionError + 'a)"

definition conv_outside :: "(nat \<Rightarrow> ConversionError + 'a) \<Rightarrow> 'a conv" where
  "conv_outside f s = (s\<lparr>tc_calls := Suc (tc_calls s)\<rparr>, f (tc_calls s))"

definition on_client :: "'a client \<Rightarrow> Converter \<Rightarrow> Converter \<times> (FlashnetError + 'a)" where
  "on_client m s = (case m (tc_client s) of (c, r) \<Rightarrow> (s\<lparr>tc_client := c\<rparr>, r))"

definition client_call :: "'a client \<Rightarrow> 'a conv" where
  "client_call m s = (case on_client m s of (s', r) \<Rightarrow> (s', map_err conversion_error_from r))"

definition insert_payment_metadata :: "conversion_env \<Rightarrow> string \<Rightarrow> ConversionInfo \<Rightarrow> unit conv" where
  "insert_payment_metadata env payment_id info =
     cl_bind (conv_outside (\<lambda>n. case ce_store env n of None \<Rightarrow> Ok () | Some e \<Rightarrow> Err (ConversionStorage e))) (\<lambda>_ s.
       (s\<lparr>tc_metadata := hm_insert payment_id info (tc_metadata s)\<rparr>, Ok ()))"

definition save_payment_metadata :: "conversion_env \<Rightarrow> string \<Rightarrow> ConversionInfo \<Rightarrow> unit conv" where
  "save_payment_metadata env identifier info =
     cl_bind (conv_outside (\<lambda>n. case ce_store env n of None \<Rightarrow> Ok () | Some e \<Rightarrow> Err (ConversionStorage e))) (\<lambda>_ s.
       (s\<lparr>tc_pending_metadata := hm_insert identifier info (tc_pending_metadata s)\<rparr>, Ok ()))"

section \<open>Amounts and pools\<close>

definition default_pools_request :: "string \<Rightarrow> string \<Rightarrow> ListPoolsRequest" where
  "default_pools_request a b =
     \<lparr>lp_asset_a_address = Some a, lp_asset_b_address = Some b, lp_host_names = None, lp_min_volume_24h = None, lp_min_tvl = None,
      lp_curve_types = None, lp_sort = Some Volume24hDesc, lp_limit = None, lp_offset = None, lp_after_updated_at = None\<rparr>"

definition merge_pools :: "(FlashnetError + ListPoolsResponse) \<Rightarrow> (FlashnetError + ListPoolsResponse) \<Rightarrow> Pool list" where
  "merge_pools a b =
     (let pools = (case a of Err _ \<Rightarrow> [] | Ok r \<Rightarrow> hm_insert_all lp_public_key (\<lambda>p. p) (lpr_pools r) [])
      in hm_values (case b of Err _ \<Rightarrow> pools | Ok r \<Rightarrow> hm_insert_all lp_public_key (\<lambda>p. p) (lpr_pools r) pools))"

definition get_conversion_pool :: "conversion_env \<Rightarrow> ConversionOptions \<Rightarrow> string option \<Rightarrow> u128 \<Rightarrow> TokenConversionPool conv" where
  "get_conversion_pool env options token_identifier amount_out =
     cl_bind (cl_lift (as_asset_addresses (co_conversion_type options) token_identifier)) (\<lambda>(asset_in, asset_out) s.
       case on_client (list_pools (ce_flashnet env) (default_pools_request asset_in asset_out)) s of (s1, a) \<Rightarrow>
       case on_client (list_pools (ce_flashnet env) (default_pools_request asset_out asset_in)) s1 of (s2, b) \<Rightarrow>
         let pools = merge_pools a b in
         if pools = [] then (s2, Err NoPoolsAvailable)
         else case select_best_pool (fe_bech (ce_flashnet env)) pools asset_in amount_out (max_slippage options)
                     (ce_integrator_fee_bps env) (fc_network (tc_client s2)) of
                None \<Rightarrow> (s2, Err ConversionPanic)
              | Some (Err e) \<Rightarrow> (s2, Err (conversion_error_from e))
              | Some (Ok p) \<Rightarrow> (s2, Ok \<lparr>cp_asset_in_address = asset_in, cp_asset_out_address = asset_out, cp_pool = p\<rparr>))"

definition fetch_limits :: "conversion_env \<Rightarrow> ConversionType \<Rightarrow> string option \<Rightarrow> GetMinAmountsResponse conv" where
  "fetch_limits env conversion_type token_identifier =
     cl_bind (cl_lift (as_asset_addresses conversion_type token_identifier)) (\<lambda>(asset_in, asset_out).
       client_call (get_min_amounts (ce_flashnet env) asset_in asset_out))"

text \<open>The decision on the amount, once the limit and the balance are known.\<close>

definition adjust_amount :: "u128 \<Rightarrow> u128 \<Rightarrow> u128 \<Rightarrow> u128 \<times> AmountAdjustmentReason option" where
  "adjust_amount min_from_amount token_balance amount_in =
     (let adjusted = max amount_in min_from_amount; remaining = sat_sub token_balance adjusted
      in if 0 < remaining \<and> remaining < min_from_amount then (token_balance, Some IncreasedToAvoidDust)
         else (adjusted, if adjusted = amount_in then None else Some FlooredToMinLimit))"

definition maybe_adjust_to_min_limit ::
  "conversion_env \<Rightarrow> ConversionOptions \<Rightarrow> string option \<Rightarrow> u128 \<Rightarrow> (u128 \<times> AmountAdjustmentReason option) conv" where
  "maybe_adjust_to_min_limit env options token_identifier amount_in =
     (case co_conversion_type options of
        FromBitcoin \<Rightarrow> cl_return (amount_in, None)
      | ToBitcoin from_token \<Rightarrow>
          cl_bind (fetch_limits env (co_conversion_type options) token_identifier) (\<lambda>limits.
            case asset_in_min limits of
              None \<Rightarrow> cl_return (amount_in, None)
            | Some min_from_amount \<Rightarrow>
                cl_bind (conv_outside (\<lambda>n. map_err ConversionWallet (ce_token_balance env n from_token))) (\<lambda>token_balance.
                  cl_return (adjust_amount min_from_amount token_balance amount_in))))"

definition simulate_request :: "conversion_env \<Rightarrow> TokenConversionPool \<Rightarrow> u128 \<Rightarrow> SimulateSwapRequest" where
  "simulate_request env p amount_in =
     \<lparr>ss_pool_id = lp_public_key (cp_pool p), ss_asset_in_address = cp_asset_in_address p, ss_asset_out_address = cp_asset_out_address p,
      ss_amount_in = amount_in, ss_integrator_bps = (if 0 < ce_integrator_fee_bps env then Some (ce_integrator_fee_bps env) else None)\<rparr>"

definition estimate_internal ::
  "conversion_env \<Rightarrow> TokenConversionPool \<Rightarrow> ConversionOptions \<Rightarrow> string option \<Rightarrow> u128 \<Rightarrow> ConversionEstimate conv" where
  "estimate_internal env p options token_identifier amount_out =
     cl_bind (\<lambda>s. case calculate_amount_in (fe_bech (ce_flashnet env)) (cp_pool p) (cp_asset_in_address p) amount_out
                    (max_slippage options) (ce_integrator_fee_bps env) (fc_network (tc_client s)) of
                None \<Rightarrow> (s, Err ConversionPanic) | Some r \<Rightarrow> (s, map_err conversion_error_from r)) (\<lambda>calculated.
     cl_bind (maybe_adjust_to_min_limit env options token_identifier calculated) (\<lambda>(amount_in, adjustment).
     cl_bind (client_call (simulate_swap (ce_flashnet env) (simulate_request env p amount_in))) (\<lambda>response.
       if ssr_amount_out response < amount_out
       then cl_fail (ValidationFailed (''Validation returned '' @ decimal (ssr_amount_out response)
              @ '' but expected at least '' @ decimal amount_out))
       else cl_return \<lparr>est_options = options, est_amount_in = amount_in, est_amount_out = ssr_amount_out response,
              est_fee = unwrap_or (fee_paid_asset_in response) 0, est_amount_adjustment = adjustment\<rparr>)))"

definition validate_conversion :: "conversion_env \<Rightarrow> ConversionOptions option \<Rightarrow> string option \<Rightarrow> ConversionAmount \<Rightarrow> ConversionEstimate option conv" where
  "validate_conversion env options0 token_identifier amount =
     (case options0 of
        None \<Rightarrow> cl_return None
      | Some options \<Rightarrow>
          (case amount of
             MinAmountOut amount_out \<Rightarrow>
               cl_bind (get_conversion_pool env options token_identifier amount_out) (\<lambda>p.
               cl_bind (estimate_internal env p options token_identifier amount_out) (\<lambda>e. cl_return (Some e)))
           | AmountIn amount_in \<Rightarrow>
               cl_bind (get_conversion_pool env options token_identifier 0) (\<lambda>p.
               cl_bind (client_call (simulate_swap (ce_flashnet env) (simulate_request env p amount_in))) (\<lambda>response.
                 let estimated_out = sat_mul 128 (ssr_amount_out response) (sat_sub 10000 (max_slippage options)) div 10000
                 in cl_return (Some \<lparr>est_options = options, est_amount_in = amount_in, est_amount_out = estimated_out,
                      est_fee = unwrap_or (fee_paid_asset_in response) 0, est_amount_adjustment = None\<rparr>)))))"

definition resolve_amount ::
  "conversion_env \<Rightarrow> ConversionOptions \<Rightarrow> string option \<Rightarrow> ConversionAmount \<Rightarrow> (u128 \<times> u128 \<times> AmountAdjustmentReason option) conv" where
  "resolve_amount env options token_identifier amount =
     cl_bind (validate_conversion env (Some options) token_identifier amount) (\<lambda>estimate.
       case estimate of
         None \<Rightarrow> cl_fail (ConversionFailed ''No conversion estimate available'')
       | Some e \<Rightarrow>
           cl_return (est_amount_in e, (case amount of MinAmountOut m \<Rightarrow> m | AmountIn _ \<Rightarrow> est_amount_out e), est_amount_adjustment e))"

section \<open>Recording a conversion\<close>

definition fetch_payment_id_by_identifier :: "conversion_env \<Rightarrow> string \<Rightarrow> bool \<Rightarrow> string conv" where
  "fetch_payment_id_by_identifier env identifier inputs_are_ours =
     (case ce_parse_transfer_id env identifier of
        Some transfer_id \<Rightarrow> cl_return transfer_id
      | None \<Rightarrow> conv_outside (\<lambda>n. ce_token_payment_id env n identifier inputs_are_ours))"

definition record_sent :: "conversion_env \<Rightarrow> string \<Rightarrow> ConversionInfo \<Rightarrow> string conv" where
  "record_sent env outbound info =
     cl_bind (fetch_payment_id_by_identifier env outbound True) (\<lambda>i.
     cl_bind (insert_payment_metadata env i info) (\<lambda>_. cl_return i))"

text \<open>Data for a payment that arrives: stored with the payment if it is known, else kept under its identifier.\<close>

definition record_incoming :: "conversion_env \<Rightarrow> string \<Rightarrow> ConversionInfo \<Rightarrow> string conv" where
  "record_incoming env identifier info s =
     (case fetch_payment_id_by_identifier env identifier False s of
        (s', Ok i) \<Rightarrow> cl_bind (insert_payment_metadata env i info) (\<lambda>_. cl_return i) s'
      | (s', Err _) \<Rightarrow> cl_bind (save_payment_metadata env identifier info) (\<lambda>_. cl_return identifier) s')"

definition join_order :: "conversion_env \<Rightarrow> nat \<Rightarrow> join_step list" where
  "join_order env n = (let order = remdups (ce_join env n) in order @ filter (\<lambda>x. x \<notin> set order) [JoinSent, JoinReceived, JoinRefund])"

fun run_join ::
  "string conv \<Rightarrow> string option conv \<Rightarrow> unit conv \<Rightarrow> join_step list \<Rightarrow> string \<Rightarrow> string option \<Rightarrow> (string \<times> string option) conv" where
  "run_join a b c [] x y = cl_return (x, y)"
| "run_join a b c (JoinSent # js) x y = cl_bind a (\<lambda>x'. run_join a b c js x' y)"
| "run_join a b c (JoinReceived # js) x y = cl_bind b (\<lambda>y'. run_join a b c js x y')"
| "run_join a b c (JoinRefund # js) x y = cl_bind c (\<lambda>_. run_join a b c js x y)"

definition update_payment_conversion_info ::
  "conversion_env \<Rightarrow> string \<Rightarrow> string \<Rightarrow> string option \<Rightarrow> string option \<Rightarrow> FeeSplit option \<Rightarrow> ConversionPurpose \<Rightarrow>
   AmountAdjustmentReason option \<Rightarrow> (string \<times> string option) conv" where
  "update_payment_conversion_info env pool_id outbound inbound refund fee_split purpose adjustment =
     (let sent_fee = (case fee_split of Some (SentFee f) \<Rightarrow> Some f | _ \<Rightarrow> None);
          received_fee = (case fee_split of Some (ReceivedFee f) \<Rightarrow> Some f | _ \<Rightarrow> None);
          status = (case (inbound, refund) of (Some _, _) \<Rightarrow> Completed | (None, Some _) \<Rightarrow> Refunded | _ \<Rightarrow> RefundNeeded)
      in cl_bind (conv_outside (\<lambda>n. Ok (ce_uuid env n, join_order env n))) (\<lambda>(conversion_id, order).
         run_join
           (record_sent env outbound \<lparr>cv_pool_id = pool_id, cv_conversion_id = conversion_id, cv_status = status, cv_fee = sent_fee,
              cv_purpose = Some purpose, cv_amount_adjustment = adjustment\<rparr>)
           (case inbound of
              Some i \<Rightarrow> cl_bind (record_incoming env i \<lparr>cv_pool_id = pool_id, cv_conversion_id = conversion_id, cv_status = status,
                 cv_fee = received_fee, cv_purpose = Some purpose, cv_amount_adjustment = None\<rparr>) (\<lambda>x. cl_return (Some x))
            | None \<Rightarrow> cl_return None)
           (case refund of
              Some i \<Rightarrow> cl_bind (record_incoming env i \<lparr>cv_pool_id = pool_id, cv_conversion_id = conversion_id, cv_status = status,
                 cv_fee = None, cv_purpose = None, cv_amount_adjustment = None\<rparr>) (\<lambda>_. cl_return ())
            | None \<Rightarrow> cl_return ())
           order [] None))"

definition swap_request :: "TokenConversionPool \<Rightarrow> ConversionOptions \<Rightarrow> u128 \<Rightarrow> u128 \<Rightarrow> string option \<Rightarrow> ExecuteSwapRequest" where
  "swap_request p options amount_in min_amount_out transfer_id =
     \<lparr>es_pool_id = lp_public_key (cp_pool p), es_asset_in_address = cp_asset_in_address p, es_asset_out_address = cp_asset_out_address p,
      es_amount_in = amount_in, es_max_slippage_bps = max_slippage options, es_min_amount_out = min_amount_out,
      es_integrator_fee_rate_bps = None, es_integrator_public_key = None, es_transfer_id = transfer_id\<rparr>"

definition settle_swap ::
  "conversion_env \<Rightarrow> TokenConversionPool \<Rightarrow> ConversionPurpose \<Rightarrow> AmountAdjustmentReason option \<Rightarrow> ExecuteSwapResponse \<Rightarrow> TokenConversionResponse conv" where
  "settle_swap env p purpose adjustment response =
     (let fee_split = map_option (\<lambda>fee. if cp_asset_in_address p = BTC_ASSET_ADDRESS then ReceivedFee fee else SentFee fee) (xr_fee_amount response)
      in cl_bind (update_payment_conversion_info env (lp_public_key (cp_pool p)) (xr_transfer_id response)
           (xr_outbound_transfer_id response) (xr_refund_transfer_id response) fee_split purpose adjustment) (\<lambda>(sent_id, received_id).
           case received_id of
             Some r \<Rightarrow>
               if xr_accepted response then cl_return \<lparr>sent_payment_id = sent_id, received_payment_id = r\<rparr>
               else cl_fail (ConversionFailed (''Convert token failed, refund in progress: '' @ unwrap_or (xr_error response) ''Conversion not accepted''))
           | None \<Rightarrow>
               cl_fail (ConversionFailed (''Convert token failed, refund in progress: '' @ unwrap_or (xr_error response) ''Conversion not accepted''))))"

definition send_refund_trigger :: "Converter \<Rightarrow> Converter" where
  "send_refund_trigger s = s\<lparr>tc_refund_triggers := Suc (tc_refund_triggers s)\<rparr>"

definition convert ::
  "conversion_env \<Rightarrow> ConversionOptions \<Rightarrow> ConversionPurpose \<Rightarrow> string option \<Rightarrow> ConversionAmount \<Rightarrow> string option \<Rightarrow> TokenConversionResponse conv" where
  "convert env options purpose token_identifier amount transfer_id =
     cl_bind (resolve_amount env options token_identifier amount) (\<lambda>(amount_in, min_amount_out, adjustment).
     cl_bind (get_conversion_pool env options token_identifier min_amount_out) (\<lambda>p s.
       case on_client (execute_swap (ce_flashnet env) (swap_request p options amount_in min_amount_out transfer_id)) s of
         (s1, Ok response) \<Rightarrow> settle_swap env p purpose adjustment response s1
       | (s1, Err e) \<Rightarrow>
           (case e of
              FlashnetExecution source (Some transaction_identifier) \<Rightarrow>
                (let s2 = fst (update_payment_conversion_info env (lp_public_key (cp_pool p)) transaction_identifier None None None
                               purpose adjustment s1)
                 in (send_refund_trigger s2, Err (ConversionFailed (''Convert token failed, refund pending: '' @ flashnet_to_string source))))
            | _ \<Rightarrow> (s1, Err (conversion_error_from e)))))"

section \<open>Refunds\<close>

definition refund_payment :: "conversion_env \<Rightarrow> ConversionPayment \<Rightarrow> unit conv" where
  "refund_payment env payment =
     (case (case pay_details payment of
              Some (SparkPayment info) \<Rightarrow> Some (pay_id payment, info)
            | Some (TokenPayment tx_hash info) \<Rightarrow> Some (tx_hash, info)
            | _ \<Rightarrow> None) of
        None \<Rightarrow> cl_fail (RefundFailed ''Payment is not a Spark or Conversion'')
      | Some (clawback_id, info0) \<Rightarrow>
          (case info0 of
             None \<Rightarrow> cl_fail (RefundFailed ''Conversion does not have a refund pending status'')
           | Some info \<Rightarrow>
               if cv_status info \<noteq> RefundNeeded
               then cl_fail (RefundFailed ''Conversion does not have a refund pending status'')
               else case ce_parse_key env (cv_pool_id info) of
                      None \<Rightarrow> cl_fail (RefundFailed (''Invalid pool_id: '' @ cv_pool_id info))
                    | Some pool_id \<Rightarrow>
                        (\<lambda>s. case on_client (clawback (ce_flashnet env) \<lparr>cb_pool_id = pool_id, cb_transfer_id = clawback_id\<rparr>) s of
                               (s1, Ok response) \<Rightarrow>
                                 if cr_accepted response
                                 then insert_payment_metadata env (pay_id payment)
                                        (info\<lparr>cv_pool_id := pool_id, cv_status := Refunded\<rparr>) s1
                                 else (s1, Err (RefundFailed ''Clawback not accepted''))
                             | (s1, Err e) \<Rightarrow> (s1, Err (RefundFailed (''Failed to initiate clawback: '' @ flashnet_to_string e))))))"

fun refund_all :: "conversion_env \<Rightarrow> ConversionPayment list \<Rightarrow> Converter \<Rightarrow> Converter" where
  "refund_all env [] s = s"
| "refund_all env (p # ps) s = refund_all env ps (fst (refund_payment env p s))"

definition refund_failed_conversions :: "conversion_env \<Rightarrow> unit conv" where
  "refund_failed_conversions env =
     cl_bind (conv_outside (\<lambda>n. map_err ConversionStorage (ce_list_refunds env n))) (\<lambda>payments s. (refund_all env payments s, Ok ()))"

section \<open>The amount that is converted\<close>

text \<open>The amount taken from a token balance is the least one that covers the request, reaches the minimum of the
  service and leaves either nothing or at least that minimum; a reason is given exactly when it differs from the
  request.\<close>

theorem adjusted_amount_least:
  "let (a, why) = adjust_amount floor_limit bal x in
     x \<le> a \<and> floor_limit \<le> a \<and> (bal \<le> a \<or> floor_limit \<le> bal - a) \<and> (why = None \<longleftrightarrow> a = x)
     \<and> (\<forall>b. x \<le> b \<and> floor_limit \<le> b \<and> (bal \<le> b \<or> floor_limit \<le> bal - b) \<longrightarrow> a \<le> b)"
  unfolding adjust_amount_def Let_def by (auto simp: max_def)

theorem adjusted_amount_least_witness:
  "let (a, why) = adjust_amount 100 150 30 in a = 150 \<and> 100 \<le> a \<and> why = Some IncreasedToAvoidDust"
  using adjusted_amount_least [of 100 150 30] by (simp add: adjust_amount_def Let_def)

section \<open>What the recording does\<close>

text \<open>Storage works, and the payment of a transfer that the wallet made is found.\<close>

definition payment_of :: "conversion_env \<Rightarrow> string \<Rightarrow> string \<Rightarrow> bool" where
  "payment_of env i p \<longleftrightarrow>
     ce_parse_transfer_id env i = Some p
     \<or> ce_parse_transfer_id env i = None \<and> (\<exists>n. ce_token_payment_id env n i True = Ok p)"

definition reliable :: "conversion_env \<Rightarrow> bool" where
  "reliable env \<longleftrightarrow> (\<forall>n. ce_store env n = None) \<and> (\<forall>n i. is_ok (ce_token_payment_id env n i True))"

definition marked :: "ConversionStatus \<Rightarrow> string \<Rightarrow> Converter \<Rightarrow> bool" where
  "marked st p s \<longleftrightarrow> (\<exists>info. hm_get (tc_metadata s) p = Some info \<and> cv_status info = st)"

text \<open>A step that succeeds, leaves the client alone and keeps the marks of a status.\<close>

definition keeps_marks :: "ConversionStatus \<Rightarrow> 'a conv \<Rightarrow> bool" where
  "keeps_marks st m \<longleftrightarrow>
     (\<forall>s. \<exists>s' x. m s = (s', Ok x) \<and> tc_client s' = tc_client s \<and> tc_refund_triggers s' = tc_refund_triggers s
        \<and> (\<forall>p. marked st p s \<longrightarrow> marked st p s'))"

lemma keeps_marksE:
  assumes "keeps_marks st m"
  obtains s' x where "m s = (s', Ok x)" and "tc_client s' = tc_client s" and "tc_refund_triggers s' = tc_refund_triggers s"
    and "\<And>p. marked st p s \<Longrightarrow> marked st p s'"
  using assms unfolding keeps_marks_def by metis

lemma keeps_return: "keeps_marks st (cl_return x)"
  by (simp add: keeps_marks_def cl_return_def)

lemma keeps_bind:
  assumes "keeps_marks st m" and "\<And>x. keeps_marks st (f x)"
  shows "keeps_marks st (cl_bind m f)"
  unfolding keeps_marks_def
proof
  fix s
  obtain s1 x where 1: "m s = (s1, Ok x)" "tc_client s1 = tc_client s" "tc_refund_triggers s1 = tc_refund_triggers s"
    "\<And>p. marked st p s \<Longrightarrow> marked st p s1" using keeps_marksE [OF assms(1), of s] by blast
  obtain s2 y where "f x s1 = (s2, Ok y)" "tc_client s2 = tc_client s1" "tc_refund_triggers s2 = tc_refund_triggers s1"
    "\<And>p. marked st p s1 \<Longrightarrow> marked st p s2" using keeps_marksE [OF assms(2), of x s1] by blast
  with 1 show "\<exists>s' x. cl_bind m f s = (s', Ok x) \<and> tc_client s' = tc_client s \<and> tc_refund_triggers s' = tc_refund_triggers s
      \<and> (\<forall>p. marked st p s \<longrightarrow> marked st p s')"
    by (auto simp: cl_bind_def)
qed

lemma insert_metadata_ok:
  assumes "reliable env"
  shows "insert_payment_metadata env i info s =
    (s\<lparr>tc_calls := Suc (tc_calls s), tc_metadata := hm_insert i info (tc_metadata s)\<rparr>, Ok ())"
  using assms by (simp add: insert_payment_metadata_def cl_bind_def conv_outside_def reliable_def)

lemma save_metadata_ok:
  assumes "reliable env"
  shows "save_payment_metadata env i info s =
    (s\<lparr>tc_calls := Suc (tc_calls s), tc_pending_metadata := hm_insert i info (tc_pending_metadata s)\<rparr>, Ok ())"
  using assms by (simp add: save_payment_metadata_def cl_bind_def conv_outside_def reliable_def)

lemma fetch_effect:
  "fetch_payment_id_by_identifier env i ours s = (s', r) \<Longrightarrow>
     tc_client s' = tc_client s \<and> tc_refund_triggers s' = tc_refund_triggers s \<and> tc_metadata s' = tc_metadata s"
  by (auto simp: fetch_payment_id_by_identifier_def cl_return_def conv_outside_def split: option.splits)

lemma marked_insert: "cv_status info = st \<Longrightarrow> marked st p s \<Longrightarrow> marked st p (s\<lparr>tc_calls := n, tc_metadata := hm_insert i info (tc_metadata s)\<rparr>)"
  by (auto simp: marked_def)

lemma keeps_incoming:
  assumes "reliable env" and "cv_status info = st"
  shows "keeps_marks st (record_incoming env i info)"
  unfolding keeps_marks_def
proof
  fix s
  obtain s1 r where f: "fetch_payment_id_by_identifier env i False s = (s1, r)" by fastforce
  note e = fetch_effect [OF f]
  have "marked st p s \<Longrightarrow> marked st p s1" for p using e by (simp add: marked_def)
  then show "\<exists>s' x. record_incoming env i info s = (s', Ok x) \<and> tc_client s' = tc_client s \<and> tc_refund_triggers s' = tc_refund_triggers s
      \<and> (\<forall>p. marked st p s \<longrightarrow> marked st p s')"
    using e marked_insert [OF assms(2)]
    by (cases r) (simp_all add: record_incoming_def f cl_bind_def cl_return_def insert_metadata_ok [OF assms(1)] save_metadata_ok [OF assms(1)]
        marked_def)
qed

lemma record_sent_marks:
  assumes "reliable env" and "cv_status info = st"
  shows "\<exists>s' x. record_sent env i info s = (s', Ok x) \<and> payment_of env i x \<and> marked st x s' \<and> tc_client s' = tc_client s
    \<and> tc_refund_triggers s' = tc_refund_triggers s \<and> (\<forall>p. marked st p s \<longrightarrow> marked st p s')"
proof -
  obtain s1 r where f: "fetch_payment_id_by_identifier env i True s = (s1, r)" by fastforce
  note e = fetch_effect [OF f]
  from f assms(1) obtain x where x: "r = Ok x" "payment_of env i x"
    by (auto simp: fetch_payment_id_by_identifier_def cl_return_def conv_outside_def reliable_def is_ok_iff payment_of_def
        split: option.splits) metis
  have m: "marked st p s \<Longrightarrow> marked st p s1" for p using e by (simp add: marked_def)
  let ?s = "s1\<lparr>tc_calls := Suc (tc_calls s1), tc_metadata := hm_insert x info (tc_metadata s1)\<rparr>"
  have "record_sent env i info s = (?s, Ok x)"
    by (simp add: record_sent_def cl_bind_def f x(1) insert_metadata_ok [OF assms(1)] cl_return_def)
  moreover have "marked st x ?s" using assms(2) by (simp add: marked_def)
  moreover have "marked st p ?s" if "marked st p s" for p using marked_insert [OF assms(2) m [OF that]] .
  ultimately show ?thesis using x(2) e by (intro exI [of _ ?s] exI [of _ x]) simp
qed

lemma run_join_marks:
  assumes a: "\<And>s. \<exists>s' x. a s = (s', Ok x) \<and> payment_of env i x \<and> marked st x s' \<and> tc_client s' = tc_client s
      \<and> tc_refund_triggers s' = tc_refund_triggers s \<and> (\<forall>p. marked st p s \<longrightarrow> marked st p s')"
    and b: "keeps_marks st b" and c: "keeps_marks st c"
    and "JoinSent \<in> set js \<or> payment_of env i x \<and> marked st x s"
  shows "\<exists>s' x' y'. run_join a b c js x y s = (s', Ok (x', y')) \<and> payment_of env i x' \<and> marked st x' s'
    \<and> tc_client s' = tc_client s \<and> tc_refund_triggers s' = tc_refund_triggers s"
  using assms(4)
proof (induction js arbitrary: x y s)
  case Nil
  then show ?case by (simp add: cl_return_def)
next
  case (Cons j js)
  show ?case
  proof (cases j)
    case JoinSent
    from a obtain s1 x1 where 1: "a s = (s1, Ok x1)" "payment_of env i x1" "marked st x1 s1" "tc_client s1 = tc_client s"
      "tc_refund_triggers s1 = tc_refund_triggers s" by blast
    with Cons.IH [of x1 s1 y] JoinSent show ?thesis by (simp add: cl_bind_def)
  next
    case JoinReceived
    obtain s1 y1 where 1: "b s = (s1, Ok y1)" "tc_client s1 = tc_client s" "tc_refund_triggers s1 = tc_refund_triggers s"
      "\<And>p. marked st p s \<Longrightarrow> marked st p s1" using keeps_marksE [OF b, of s] by blast
    with Cons.prems Cons.IH [of x s1 y1] JoinReceived show ?thesis by (auto simp: cl_bind_def)
  next
    case JoinRefund
    obtain s1 u where 1: "c s = (s1, Ok u)" "tc_client s1 = tc_client s" "tc_refund_triggers s1 = tc_refund_triggers s"
      "\<And>p. marked st p s \<Longrightarrow> marked st p s1" using keeps_marksE [OF c, of s] by blast
    with Cons.prems Cons.IH [of x s1 y] JoinRefund show ?thesis by (auto simp: cl_bind_def)
  qed
qed

lemma join_order_sent: "JoinSent \<in> set (join_order env n)"
  by (auto simp: join_order_def Let_def)

definition conversion_status :: "string option \<Rightarrow> string option \<Rightarrow> ConversionStatus" where
  "conversion_status inbound refund = (if inbound \<noteq> None then Completed else if refund \<noteq> None then Refunded else RefundNeeded)"

lemma update_info_marks:
  assumes "reliable env"
  shows "\<exists>s' x y. update_payment_conversion_info env pool outbound inbound refund fees purpose adj s = (s', Ok (x, y))
    \<and> payment_of env outbound x \<and> marked (conversion_status inbound refund) x s'
    \<and> tc_client s' = tc_client s \<and> tc_refund_triggers s' = tc_refund_triggers s"
proof -
  have st: "(case (inbound, refund) of (Some _, _) \<Rightarrow> Completed | (None, Some _) \<Rightarrow> Refunded | _ \<Rightarrow> RefundNeeded) = conversion_status inbound refund"
    by (auto simp: conversion_status_def split: option.split)
  let ?st = "conversion_status inbound refund" and ?s = "s\<lparr>tc_calls := Suc (tc_calls s)\<rparr>"
  let ?sent = "record_sent env outbound \<lparr>cv_pool_id = pool, cv_conversion_id = ce_uuid env (tc_calls s), cv_status = ?st,
      cv_fee = (case fees of Some (SentFee f) \<Rightarrow> Some f | _ \<Rightarrow> None), cv_purpose = Some purpose, cv_amount_adjustment = adj\<rparr>"
  let ?rec = "case inbound of Some i \<Rightarrow> cl_bind (record_incoming env i \<lparr>cv_pool_id = pool, cv_conversion_id = ce_uuid env (tc_calls s),
      cv_status = ?st, cv_fee = (case fees of Some (ReceivedFee f) \<Rightarrow> Some f | _ \<Rightarrow> None), cv_purpose = Some purpose,
      cv_amount_adjustment = None\<rparr>) (\<lambda>x. cl_return (Some x)) | None \<Rightarrow> cl_return None"
  let ?ref = "case refund of Some i \<Rightarrow> cl_bind (record_incoming env i \<lparr>cv_pool_id = pool, cv_conversion_id = ce_uuid env (tc_calls s),
      cv_status = ?st, cv_fee = None, cv_purpose = None, cv_amount_adjustment = None\<rparr>) (\<lambda>_. cl_return ()) | None \<Rightarrow> cl_return ()"
  have run: "update_payment_conversion_info env pool outbound inbound refund fees purpose adj s =
      run_join ?sent ?rec ?ref (join_order env (tc_calls s)) [] None ?s"
    unfolding update_payment_conversion_info_def Let_def st by (simp add: cl_bind_def conv_outside_def)
  have "keeps_marks ?st ?rec" "keeps_marks ?st ?ref"
    by (cases inbound; cases refund; auto intro!: keeps_bind keeps_incoming [OF assms] keeps_return)+
  note marks = run_join_marks [where a = ?sent and i = outbound and b = ?rec and c = ?ref and js = "join_order env (tc_calls s)"
      and x = "[]" and y = None and s = ?s and st = ?st and env = env, OF _ this]
  show ?thesis unfolding run using marks [OF record_sent_marks [OF assms]] join_order_sent by fastforce
qed

section \<open>A conversion\<close>

text \<open>The steps before the swap send nothing.\<close>

definition conv_quiet :: "'a conv \<Rightarrow> bool" where
  "conv_quiet m \<longleftrightarrow> (\<forall>s. fc_transfers (tc_client (fst (m s))) = fc_transfers (tc_client s))"

lemma conv_quietD: "conv_quiet m \<Longrightarrow> m s = (s', r) \<Longrightarrow> fc_transfers (tc_client s') = fc_transfers (tc_client s)"
  unfolding conv_quiet_def by (metis fst_conv)

lemma cq_simple [quiet_intros]: "conv_quiet (cl_return x)" "conv_quiet (cl_fail e)" "conv_quiet (cl_lift r)" "conv_quiet (conv_outside f)"
  by (simp_all add: conv_quiet_def cl_return_def cl_fail_def cl_lift_def conv_outside_def)

lemma cq_bind [quiet_intros]: "conv_quiet m \<Longrightarrow> (\<And>x. conv_quiet (f x)) \<Longrightarrow> conv_quiet (cl_bind m f)"
  unfolding conv_quiet_def cl_bind_def by (simp split: prod.split sum.split) (metis fst_conv)

lemma on_client_quiet: "quiet m \<Longrightarrow> on_client m s = (s', r) \<Longrightarrow> fc_transfers (tc_client s') = fc_transfers (tc_client s)"
  by (auto simp: on_client_def split: prod.splits dest: quietD)

lemma cq_client [quiet_intros]: "quiet m \<Longrightarrow> conv_quiet (client_call m)"
  unfolding conv_quiet_def client_call_def by (auto split: prod.split dest: on_client_quiet)

lemma cq_option [quiet_intros]: "conv_quiet m \<Longrightarrow> (\<And>x. conv_quiet (f x)) \<Longrightarrow> conv_quiet (case y of None \<Rightarrow> m | Some x \<Rightarrow> f x)"
  by (simp split: option.split)

lemma cq_pool [quiet_intros]: "conv_quiet (get_conversion_pool env options token out)"
proof -
  have "fc_transfers (tc_client (fst (get_conversion_pool env options token out s))) = fc_transfers (tc_client s)" for s
  proof (cases "as_asset_addresses (co_conversion_type options) token")
    case (Inr p)
    obtain asset_in asset_out where p: "p = (asset_in, asset_out)" by fastforce
    obtain s1 a where 1: "on_client (list_pools (ce_flashnet env) (default_pools_request asset_in asset_out)) s = (s1, a)" by fastforce
    obtain s2 b where 2: "on_client (list_pools (ce_flashnet env) (default_pools_request asset_out asset_in)) s1 = (s2, b)" by fastforce
    have "fc_transfers (tc_client s2) = fc_transfers (tc_client s)"
      using on_client_quiet [OF quiet_list_pools 1] on_client_quiet [OF quiet_list_pools 2] by simp
    then show ?thesis
      by (simp add: get_conversion_pool_def cl_bind_def cl_lift_def Inr p 1 2 Let_def split: option.split sum.split)
  qed (simp add: get_conversion_pool_def cl_bind_def cl_lift_def)
  then show ?thesis by (simp add: conv_quiet_def)
qed

lemma cq_adjust [quiet_intros]: "conv_quiet (maybe_adjust_to_min_limit env options token x)"
  unfolding maybe_adjust_to_min_limit_def fetch_limits_def case_prod_beta
  by (cases "co_conversion_type options") (simp_all, (intro quiet_intros)+)

lemma cq_estimate [quiet_intros]: "conv_quiet (estimate_internal env p options token out)"
proof -
  have "conv_quiet (\<lambda>s. case f s of None \<Rightarrow> (s, Err ConversionPanic) | Some r \<Rightarrow> (s, map_err conversion_error_from r))" for f :: "_ \<Rightarrow> (_ + u128) option"
    by (simp add: conv_quiet_def split: option.split)
  then show ?thesis unfolding estimate_internal_def case_prod_beta by (intro cq_bind) (simp_all add: quiet_intros)
qed

lemma cq_resolve [quiet_intros]: "conv_quiet (resolve_amount env options token amount)"
  unfolding resolve_amount_def validate_conversion_def Let_def
  by (cases amount) (simp_all, (intro quiet_intros)+)

lemma run_join_none:
  assumes "\<And>s s' y. b s = (s', Ok y) \<Longrightarrow> y = None" and "run_join a b c js x None s = (s', Ok (x', y'))"
  shows "y' = None"
  using assms(2)
proof (induction js arbitrary: x s)
  case (Cons j js)
  show ?case
  proof (cases j)
    case JoinReceived
    with Cons.prems obtain s1 y where "b s = (s1, Ok y)" "run_join a b c js x y s1 = (s', Ok (x', y'))" by (auto elim!: cl_bind_cases)
    with assms(1) Cons.IH show ?thesis by blast
  qed (use Cons in \<open>auto elim!: cl_bind_cases\<close>)
qed (simp add: cl_return_def)

lemma update_info_received:
  assumes "update_payment_conversion_info env pool outbound None refund fees purpose adj s = (s', Ok (x, y))"
  shows "y = None"
proof -
  from assms obtain a c js s1 where "run_join a (cl_return None) c js [] None s1 = (s', Ok (x, y))"
    by (auto simp: update_payment_conversion_info_def cl_bind_def conv_outside_def Let_def)
  then show ?thesis using run_join_none [of "cl_return None"] by (simp add: cl_return_def)
qed

lemma settle_swap_effect:
  assumes "reliable env" and "settle_swap env p purpose adj response s = (s', r)"
  shows "tc_client s' = tc_client s \<and> (\<exists>x. payment_of env (xr_transfer_id response) x
    \<and> marked (conversion_status (xr_outbound_transfer_id response) (xr_refund_transfer_id response)) x s')
    \<and> (is_ok r \<longrightarrow> xr_outbound_transfer_id response \<noteq> None \<and> xr_accepted response)"
proof -
  let ?fees = "map_option (\<lambda>fee. if cp_asset_in_address p = BTC_ASSET_ADDRESS then ReceivedFee fee else SentFee fee) (xr_fee_amount response)"
  from update_info_marks [OF assms(1)] obtain s1 x y where u: "update_payment_conversion_info env (lp_public_key (cp_pool p)) (xr_transfer_id response)
      (xr_outbound_transfer_id response) (xr_refund_transfer_id response) ?fees purpose adj s = (s1, Ok (x, y))"
    and m: "payment_of env (xr_transfer_id response) x"
      "marked (conversion_status (xr_outbound_transfer_id response) (xr_refund_transfer_id response)) x s1" "tc_client s1 = tc_client s" by blast
  have y: "y = None" if "xr_outbound_transfer_id response = None" using u that update_info_received by metis
  have "s' = s1" "is_ok r \<Longrightarrow> y \<noteq> None \<and> xr_accepted response"
    using assms(2) by (auto simp: settle_swap_def cl_bind_def u Let_def cl_return_def cl_fail_def split: option.splits if_splits)
  with m y show ?thesis by blast
qed


text \<open>A run on sample data: the transfer is made, the swap is not answered.\<close>

definition sample_pool :: Pool where
  "sample_pool = sample_pool_data (Some 1000000) (Some 10000000) None"

definition sample_flashnet_env :: flashnet_env where
  "sample_flashnet_env =
     \<lparr>fe_now_ms = (\<lambda>_. Some 0), fe_challenge = (\<lambda>_ _. Err (BadJson [])), fe_verify = (\<lambda>_ _ _. Err (BadJson [])),
      fe_list_pools = (\<lambda>_ _ _. Err (BadJson [])), fe_min_amounts = (\<lambda>_ _. Ok []), fe_feature_status = (\<lambda>_ _. Ok []),
      fe_ping = (\<lambda>_ _. Ok ''ok''),
      fe_simulate = (\<lambda>_ _ _. Ok \<lparr>ssr_amount_out = 20000, ssr_execution_price = None, fee_paid_asset_in = None,
        ssr_price_impact_pct = None, ssr_warning_message = None\<rparr>),
      fe_swap = (\<lambda>_ _ _. Err (BadJson [])), fe_clawback = (\<lambda>_ _ _ _. Err (BadJson [])), fe_identity = [],
      fe_sign_challenge = (\<lambda>_ _. Ok []), fe_sign_swap = (\<lambda>_ _. Ok []), fe_sign_clawback = (\<lambda>_ _. Ok []),
      fe_nonce = (\<lambda>_. []), fe_request_hash = (\<lambda>_. []), fe_bech = (\<lambda>_ _. Err []), fe_encode_token_id = (\<lambda>i _. Ok i),
      fe_transfer = (\<lambda>_ _ _ _. Ok ''t''), fe_transfer_tokens = (\<lambda>_ _ _ _. Ok ''t'')\<rparr>"

definition sample_cache :: "(string, CacheItem) hmap" where
  "sample_cache = map (\<lambda>(k, d). (k, \<lparr>ca_data = d, ca_expiration = 1\<rparr>))
     [(''list_pools_'', PoolsData \<lparr>lpr_pools = [sample_pool], lpr_total_count = 1\<rparr>), (''access_token'', TokenData ''x''),
      (''ping'', PingData ''ok''), (''feature_statuses'', FeaturesData [\<lparr>feature_name = AllowSwaps, fs_enabled = True, fs_reason = None\<rparr>]),
      (''min_amounts'', MinAmountsData [])]"

definition sample_converter :: Converter where
  "sample_converter =
     \<lparr>tc_client = \<lparr>fc_network = Mainnet, fc_integrator_config = None, fc_cache = sample_cache, fc_calls = 0, fc_transfers = []\<rparr>,
      tc_metadata = [], tc_pending_metadata = [], tc_refund_triggers = 0, tc_calls = 0\<rparr>"

definition sample_conversion_env :: conversion_env where
  "sample_conversion_env =
     \<lparr>ce_flashnet = sample_flashnet_env, ce_integrator_fee_bps = 0, ce_parse_transfer_id = (\<lambda>_. None),
      ce_token_payment_id = (\<lambda>_ i _. Ok (i @ ''-payment'')), ce_store = (\<lambda>_. None), ce_list_refunds = (\<lambda>_. Ok []),
      ce_token_balance = (\<lambda>_ _. Ok 5000), ce_uuid = (\<lambda>_. []), ce_join = (\<lambda>_. []), ce_parse_key = Some\<rparr>"

definition sample_options :: ConversionOptions where
  "sample_options = \<lparr>co_conversion_type = ToBitcoin ''aa'', co_max_slippage_bps = Some 100, co_completion_timeout_secs = None\<rparr>"

lemmas sample_defs = sample_flashnet_env_def sample_conversion_env_def sample_converter_def sample_options_def

lemma sample_cached:
  "hm_get sample_cache ''list_pools_'' = Some \<lparr>ca_data = PoolsData \<lparr>lpr_pools = [sample_pool], lpr_total_count = 1\<rparr>, ca_expiration = 1\<rparr>"
  "hm_get sample_cache ''access_token'' = Some \<lparr>ca_data = TokenData ''x'', ca_expiration = 1\<rparr>"
  "hm_get sample_cache ''ping'' = Some \<lparr>ca_data = PingData ''ok'', ca_expiration = 1\<rparr>"
  "hm_get sample_cache ''feature_statuses'' = Some \<lparr>ca_data = FeaturesData [\<lparr>feature_name = AllowSwaps, fs_enabled = True, fs_reason = None\<rparr>], ca_expiration = 1\<rparr>"
  "hm_get sample_cache ''min_amounts'' = Some \<lparr>ca_data = MinAmountsData [], ca_expiration = 1\<rparr>"
  by (simp_all add: sample_cache_def hm_get_def)

lemma sample_cache_get:
  "fc_cache c = sample_cache \<Longrightarrow> hm_get sample_cache k = Some \<lparr>ca_data = d, ca_expiration = 1\<rparr> \<Longrightarrow> decode d = Some x \<Longrightarrow>
     cache_get sample_flashnet_env decode k c = (c\<lparr>fc_calls := Suc (fc_calls c)\<rparr>, Ok (Some x))"
  by (simp add: cache_get_def clock_def cl_bind_def outside_def cl_lift_def ok_or_def sample_flashnet_env_def)

lemma sample_cached_request:
  "fc_cache c = sample_cache \<Longrightarrow> hm_get sample_cache k = Some \<lparr>ca_data = d, ca_expiration = 1\<rparr> \<Longrightarrow> decode d = Some x \<Longrightarrow>
     cached_request sample_flashnet_env decode encode k ttl answer c = (c\<lparr>fc_calls := Suc (fc_calls c)\<rparr>, Ok x)"
  by (simp add: cached_request_def cl_bind_def sample_cache_get cl_return_def)

lemma sample_decoded [simp]: "decode_token_identifier bech ''aa'' network = Ok ''aa''"
  "decode_token_identifier bech BTC_ASSET_ADDRESS network = Ok BTC_ASSET_ADDRESS"
  by (simp_all add: decode_token_identifier_def BTC_ASSET_ADDRESS_def)

definition after :: "nat \<Rightarrow> FlashnetClient \<Rightarrow> FlashnetClient" where
  "after n c = c\<lparr>fc_calls := n + fc_calls c\<rparr>"

lemma after_simps [simp]: "fc_cache (after n c) = fc_cache c" "fc_network (after n c) = fc_network c" "fc_transfers (after n c) = fc_transfers c"
  "fc_integrator_config (after n c) = fc_integrator_config c" "after n (after m c) = after (n + m) c"
  "(after n c)\<lparr>fc_calls := Suc (fc_calls (after n c))\<rparr> = after (Suc n) c" "c\<lparr>fc_calls := Suc (fc_calls c)\<rparr> = after 1 c"
  by (simp_all add: after_def)

lemma sample_ping: "fc_cache c = sample_cache \<Longrightarrow> ensure_ping_ok sample_flashnet_env c = (after 1 c, Ok ())"
  by (simp add: ensure_ping_ok_def cl_bind_def sample_cached_request [OF _ sample_cached(3)] ascii_lower_def cl_return_def)

lemma sample_feature: "fc_cache c = sample_cache \<Longrightarrow> ensure_feature_status sample_flashnet_env AllowSwaps c = (after 1 c, Ok ())"
  by (simp add: ensure_feature_status_def cl_bind_def sample_cached_request [OF _ sample_cached(4)] cl_return_def)

lemma sample_min: "fc_cache c = sample_cache \<Longrightarrow>
    get_min_amounts sample_flashnet_env ''aa'' BTC_ASSET_ADDRESS c = (after 1 c, Ok \<lparr>asset_in_min = None, asset_out_min = None\<rparr>)"
  by (simp add: get_min_amounts_def cl_bind_def decoded_def cl_lift_def config_min_amounts_def sample_cached_request [OF _ sample_cached(5)]
      min_amounts_for_def hm_insert_all_def hm_get_def cl_return_def)

lemma sample_request: "fc_cache c = sample_cache \<Longrightarrow>
    flashnet_request sample_flashnet_env answer c = (after 2 c, map_err http_error (answer (Suc (fc_calls c)) ''x''))"
  by (simp add: flashnet_request_def get_access_token_def cl_bind_def sample_cache_get [OF _ sample_cached(2)] cl_return_def outside_def)
    (simp add: after_def del: after_simps)

lemma sample_hash: "fe_request_hash sample_flashnet_env r = []"
  by (simp add: sample_flashnet_env_def)

lemma sample_list: "fc_cache c = sample_cache \<Longrightarrow> x \<in> {''aa'', BTC_ASSET_ADDRESS} \<Longrightarrow> y \<in> {''aa'', BTC_ASSET_ADDRESS} \<Longrightarrow>
   list_pools sample_flashnet_env (default_pools_request x y) c = (after 1 c, Ok \<lparr>lpr_pools = [sample_pool], lpr_total_count = 1\<rparr>)"
  by (auto simp: list_pools_def default_pools_request_def cl_bind_def cl_return_def decoded_def cl_lift_def Let_def
     sample_hash sample_cached_request [OF _ sample_cached(1)])

lemma sample_selected: "select_best_pool bech [sample_pool] ''aa'' 10000 100 0 Mainnet = Some (Ok sample_pool)"
  using sample_amount_in [of bech None] by (simp add: select_best_pool_def sample_pool_def prefer_v3_def)

lemma sample_env_simps: "ce_flashnet sample_conversion_env = sample_flashnet_env" "ce_integrator_fee_bps sample_conversion_env = 0"
  "co_conversion_type sample_options = ToBitcoin ''aa''" "max_slippage sample_options = 100"
  by (simp_all add: sample_conversion_env_def sample_options_def max_slippage_def)

lemma sample_pool_step:
  assumes "fc_cache (tc_client s) = sample_cache" and "fc_network (tc_client s) = Mainnet"
  shows "get_conversion_pool sample_conversion_env sample_options token 10000 s =
    (s\<lparr>tc_client := after 2 (tc_client s)\<rparr>, Ok \<lparr>cp_asset_in_address = ''aa'', cp_asset_out_address = BTC_ASSET_ADDRESS, cp_pool = sample_pool\<rparr>)"
  using assms by (simp add: get_conversion_pool_def as_asset_addresses_def sample_env_simps cl_bind_def cl_lift_def on_client_def sample_list
     merge_pools_def hm_insert_all_def hm_insert_def hm_values_def sample_selected Let_def numeral_2_eq_2)

lemma sample_simulate: "fc_cache c = sample_cache \<Longrightarrow> ss_asset_in_address r = ''aa'' \<Longrightarrow> ss_asset_out_address r = BTC_ASSET_ADDRESS \<Longrightarrow>
   \<exists>x. simulate_swap sample_flashnet_env r c = (after 5 c, Ok x) \<and> ssr_amount_out x = 20000"
  by (simp add: simulate_swap_def ensure_min_amounts_def cl_bind_def decoded_def cl_lift_def Let_def sample_ping sample_feature sample_min
    cl_return_def sample_request) (simp add: sample_flashnet_env_def map_err_def)

abbreviation sample_found :: TokenConversionPool where
  "sample_found \<equiv> \<lparr>cp_asset_in_address = ''aa'', cp_asset_out_address = BTC_ASSET_ADDRESS, cp_pool = sample_pool\<rparr>"

lemma sample_estimated:
  assumes "fc_cache (tc_client s) = sample_cache" and "fc_network (tc_client s) = Mainnet"
  shows "\<exists>e. estimate_internal sample_conversion_env sample_found sample_options token 10000 s =
     (s\<lparr>tc_client := after 6 (tc_client s)\<rparr>, Ok e) \<and> est_amount_in e = 1024 \<and> est_amount_adjustment e = None"
proof -
  have adjusted: "maybe_adjust_to_min_limit sample_conversion_env sample_options token 1024 s =
      (s\<lparr>tc_client := after 1 (tc_client s)\<rparr>, Ok (1024, None))"
    using assms by (simp add: maybe_adjust_to_min_limit_def fetch_limits_def as_asset_addresses_def sample_env_simps cl_bind_def cl_lift_def
        client_call_def on_client_def sample_min map_err_def cl_return_def)
  obtain x where x: "simulate_swap sample_flashnet_env (simulate_request sample_conversion_env sample_found 1024) (after 1 (tc_client s)) =
      (after 6 (tc_client s), Ok x)" "ssr_amount_out x = 20000"
    using sample_simulate [of "after 1 (tc_client s)" "simulate_request sample_conversion_env sample_found 1024"] assms
    by (auto simp: simulate_request_def)
  show ?thesis using assms sample_amount_in [of _ None]
    by (simp add: estimate_internal_def sample_env_simps cl_bind_def adjusted client_call_def on_client_def x map_err_def cl_return_def
        del: One_nat_def flip: sample_pool_def)
qed

lemma sample_resolved:
  "resolve_amount sample_conversion_env sample_options token (MinAmountOut 10000) sample_converter =
     (sample_converter\<lparr>tc_client := after 8 (tc_client sample_converter)\<rparr>, Ok (1024, 10000, None))"
proof -
  let ?c = "tc_client sample_converter"
  have c: "fc_cache ?c = sample_cache" "fc_network ?c = Mainnet" by (simp_all add: sample_converter_def)
  obtain e where e: "estimate_internal sample_conversion_env sample_found sample_options token 10000
      (sample_converter\<lparr>tc_client := after 2 ?c\<rparr>) = (sample_converter\<lparr>tc_client := after 8 ?c\<rparr>, Ok e)"
      "est_amount_in e = 1024" "est_amount_adjustment e = None"
    using sample_estimated [of "sample_converter\<lparr>tc_client := after 2 ?c\<rparr>" token] c by auto
  then show ?thesis using c by (simp add: resolve_amount_def validate_conversion_def cl_bind_def sample_pool_step cl_return_def)
qed

lemma sample_transfer:
  "transfer_asset sample_flashnet_env amount ''aa'' receiver i c =
     ((after 1 c)\<lparr>fc_transfers := fc_transfers c @ [\<lparr>st_amount = amount, st_asset = ''aa'', st_receiver = receiver, st_id = ''t''\<rparr>]\<rparr>, Ok ''t'')"
  by (simp add: transfer_asset_def BTC_ASSET_ADDRESS_def cl_bind_def cl_lift_def outside_def sent_def map_err_def)
    (simp add: sample_flashnet_env_def)

lemma sample_sign:
  assumes "fc_cache c = sample_cache"
  shows "\<exists>c' e. sign_execute_swap sample_flashnet_env r i c = (c', Err e) \<and> fc_transfers c' = fc_transfers c"
proof -
  have "sign_execute_swap sample_flashnet_env r i c = (after 4 c, Err (http_error (BadJson [])))"
    using assms by (simp add: sign_execute_swap_def cl_bind_def outside_def case_prod_beta Let_def sample_request)
      (simp add: sample_flashnet_env_def map_err_def)
  then show ?thesis by simp
qed

lemma sample_execute:
  assumes "fc_cache c = sample_cache" and "es_asset_in_address r = ''aa''" and "es_asset_out_address r = BTC_ASSET_ADDRESS"
  shows "\<exists>c' e t. execute_swap sample_flashnet_env r c = (c', Err (FlashnetExecution e (Some ''t'')))
    \<and> fc_transfers c' = fc_transfers c @ [t] \<and> st_id t = ''t''"
proof -
  let ?r = "r\<lparr>es_asset_in_address := ''aa'', es_asset_out_address := BTC_ASSET_ADDRESS\<rparr>"
  obtain t where t: "transfer_asset sample_flashnet_env (es_amount_in r) ''aa'' (es_pool_id r) (es_transfer_id r) (after 3 c) =
      ((after 4 c)\<lparr>fc_transfers := fc_transfers c @ [t]\<rparr>, Ok ''t'')" "st_id t = ''t''"
    using sample_transfer [of "es_amount_in r" "es_pool_id r" "es_transfer_id r" "after 3 c"] by auto
  obtain c' e where "sign_execute_swap sample_flashnet_env ?r ''t'' ((after 4 c)\<lparr>fc_transfers := fc_transfers c @ [t]\<rparr>) = (c', Err e)"
      "fc_transfers c' = fc_transfers c @ [t]"
    using sample_sign [of "(after 4 c)\<lparr>fc_transfers := fc_transfers c @ [t]\<rparr>" ?r "''t''"] assms by auto
  with assms t show ?thesis
    by (simp add: execute_swap_def ensure_min_amounts_def cl_bind_def decoded_def cl_lift_def Let_def sample_ping sample_feature sample_min cl_return_def
        del: One_nat_def)
qed


end
