(* ===== verification/Postgres_Token_Store.thy ===== *)
theory Postgres_Token_Store
  imports Token_Store
begin

text \<open>
  The token output store on PostgreSQL: \<open>crates/spark-postgres/src/token_store.rs\<close>, the second implementation of
  \<open>TokenOutputStore\<close>. A table is a map from its primary key to the row; every operation is one transaction, so a failure changes
  nothing. The time of the transaction and the identifier of a new reservation are arguments, \<open>db_connections\<close> lists the
  outcomes of the next transactions, and those after its end succeed. The order of a table stands for the order in which the
  database returns rows. Numbers and keys are read back as they were stored; the token of an output is the column
  \<open>token_identifier\<close>.

  The operations keep the invariant of the tables; a reservation is answered as by the in-memory store; the last section shows
  where the stores differ.
\<close>

section \<open>Tables\<close>

record TokenOutputRow =
  tor_token_identifier :: string
  tor_output :: TokenOutputWithPrevOut
  tor_reservation_id :: "TokenOutputsReservationId option"
  tor_added_at :: system_time

record TokenDb =
  db_connections :: "bool list"
  db_token_metadata :: "(string, TokenMetadata) hmap"
  db_token_outputs :: "(string, TokenOutputRow) hmap"
  db_token_reservations :: "(TokenOutputsReservationId, string) hmap"
  db_token_spent_outputs :: "(string, system_time) hmap"
  db_swap_completed_at :: "system_time option"

definition empty_token_db :: "bool list \<Rightarrow> TokenDb" where
  "empty_token_db cs = \<lparr>db_connections = cs, db_token_metadata = [], db_token_outputs = [], db_token_reservations = [],
     db_token_spent_outputs = [], db_swap_completed_at = None\<rparr>"

definition TOKEN_SPENT_MARKER_CLEANUP_THRESHOLD :: duration where
  "TOKEN_SPENT_MARKER_CLEANUP_THRESHOLD = 5 * 60 * 1000 * 1000"

definition token_db_error :: TokenOutputServiceError where
  "token_db_error = TkGeneric ''database''"

definition token_transaction_on ::
  "(TokenDb \<Rightarrow> TokenOutputServiceError + (TokenDb \<times> 'a)) \<Rightarrow> TokenDb \<Rightarrow> TokenDb \<times> (TokenOutputServiceError + 'a)" where
  "token_transaction_on f db =
     (let db1 = db\<lparr>db_connections := tl (db_connections db)\<rparr> in
      if db_connections db \<noteq> [] \<and> \<not> hd (db_connections db) then (db1, Err token_db_error)
      else case f db1 of Err e \<Rightarrow> (db1, Err e) | Ok (db2, x) \<Rightarrow> (db2, Ok x))"

section \<open>Statements\<close>

definition purpose_str :: "TokenReservationPurpose \<Rightarrow> string" where
  "purpose_str p = (case p of TokenPayment \<Rightarrow> ''Payment'' | TokenSwap \<Rightarrow> ''Swap'')"

definition output_from_row :: "TokenOutputRow \<Rightarrow> TokenOutputWithPrevOut" where
  "output_from_row r = (tor_output r)\<lparr>tw_output := (tw_output (tor_output r))\<lparr>token_identifier := tor_token_identifier r\<rparr>\<rparr>"

definition insert_single_output :: "system_time \<Rightarrow> string \<Rightarrow> TokenDb \<Rightarrow> TokenOutputWithPrevOut \<Rightarrow> TokenDb" where
  "insert_single_output now tid db w =
     (if hm_contains (db_token_outputs db) (output_id w) then db
      else db\<lparr>db_token_outputs := hm_insert (output_id w)
             \<lparr>tor_token_identifier = tid, tor_output = w, tor_reservation_id = None, tor_added_at = now\<rparr> (db_token_outputs db)\<rparr>)"

definition upsert_metadata :: "TokenMetadata \<Rightarrow> TokenDb \<Rightarrow> TokenDb" where
  "upsert_metadata md db = db\<lparr>db_token_metadata := hm_insert (tm_identifier md) md (db_token_metadata db)\<rparr>"

definition cleanup_token_spent_markers :: "system_time \<Rightarrow> TokenDb \<Rightarrow> TokenDb" where
  "cleanup_token_spent_markers refresh_timestamp db =
     db\<lparr>db_token_spent_outputs :=
       hm_retain (\<lambda>_ t. \<not> t < refresh_timestamp - TOKEN_SPENT_MARKER_CLEANUP_THRESHOLD) (db_token_spent_outputs db)\<rparr>"

definition delete_token_outputs :: "(string \<Rightarrow> TokenOutputRow \<Rightarrow> bool) \<Rightarrow> TokenDb \<Rightarrow> TokenDb" where
  "delete_token_outputs gone db = db\<lparr>db_token_outputs := hm_retain (\<lambda>i r. \<not> gone i r) (db_token_outputs db)\<rparr>"

text \<open>Deleting reservations clears the column of their outputs (\<open>ON DELETE SET NULL\<close>).\<close>

definition clear_reservation :: "(TokenOutputsReservationId \<Rightarrow> bool) \<Rightarrow> TokenOutputRow \<Rightarrow> TokenOutputRow" where
  "clear_reservation gone r =
     (case tor_reservation_id r of
        None \<Rightarrow> r
      | Some rid \<Rightarrow> if gone rid then r\<lparr>tor_reservation_id := None\<rparr> else r)"

definition delete_token_reservations :: "(TokenOutputsReservationId \<Rightarrow> bool) \<Rightarrow> TokenDb \<Rightarrow> TokenDb" where
  "delete_token_reservations gone db =
     db\<lparr>db_token_reservations := hm_retain (\<lambda>i _. \<not> gone i) (db_token_reservations db),
        db_token_outputs := update_rows (\<lambda>_. clear_reservation gone) (db_token_outputs db)\<rparr>"

definition delete_orphaned_metadata :: "TokenDb \<Rightarrow> TokenDb" where
  "delete_orphaned_metadata db =
     db\<lparr>db_token_metadata :=
       hm_retain (\<lambda>i _. list_ex (\<lambda>r. tor_token_identifier r = i) (hm_values (db_token_outputs db))) (db_token_metadata db)\<rparr>"

definition outputs_of_reservation :: "TokenDb \<Rightarrow> TokenOutputsReservationId \<Rightarrow> string list" where
  "outputs_of_reservation db rid = map fst (filter (\<lambda>(i, r). tor_reservation_id r = Some rid) (db_token_outputs db))"

section \<open>Operations\<close>

text \<open>The reservations that are left without outputs by a refresh, and the outputs that other reservations lose.\<close>

definition stale_reservation :: "string set \<Rightarrow> TokenDb \<Rightarrow> TokenOutputsReservationId \<Rightarrow> bool" where
  "stale_reservation incoming db rid \<longleftrightarrow>
     hm_contains (db_token_reservations db) rid \<and> outputs_of_reservation db rid \<noteq> []
     \<and> list_all (\<lambda>i. i \<notin> incoming) (outputs_of_reservation db rid)"

definition lost_outputs :: "string set \<Rightarrow> TokenDb \<Rightarrow> string list" where
  "lost_outputs incoming db =
     concat (map (\<lambda>rid. if stale_reservation incoming db rid then []
                        else filter (\<lambda>i. i \<notin> incoming) (outputs_of_reservation db rid)) (hm_keys (db_token_reservations db)))"

definition reconcile_reservations :: "string set \<Rightarrow> TokenDb \<Rightarrow> TokenDb" where
  "reconcile_reservations incoming db =
     (let stale = stale_reservation incoming db; lost = lost_outputs incoming db;
          db1 = delete_token_reservations stale
                  (delete_token_outputs (\<lambda>_ r. case tor_reservation_id r of None \<Rightarrow> False | Some rid \<Rightarrow> stale rid) db)
      in if lost = [] then db1
         else let db2 = delete_token_outputs (\<lambda>i _. i \<in> set lost) db1
              in delete_token_reservations (\<lambda>rid. outputs_of_reservation db2 rid = []) db2)"

definition insert_refreshed :: "system_time \<Rightarrow> string set \<Rightarrow> TokenDb \<Rightarrow> TokenOutputs \<Rightarrow> TokenDb" where
  "insert_refreshed now skip db t =
     foldl (insert_single_output now (tm_identifier (tos_metadata t))) (upsert_metadata (tos_metadata t) db)
       (filter (\<lambda>w. output_id w \<notin> skip) (tos_outputs t))"

definition pg_set_tokens_outputs ::
  "system_time \<Rightarrow> TokenOutputs list \<Rightarrow> system_time \<Rightarrow> TokenDb \<Rightarrow> TokenDb \<times> (TokenOutputServiceError + unit)" where
  "pg_set_tokens_outputs now token_outputs refresh_timestamp =
     token_transaction_on (\<lambda>db.
       let active_swap = list_ex (\<lambda>p. p = ''Swap'') (hm_values (db_token_reservations db));
           completed = (case db_swap_completed_at db of None \<Rightarrow> False | Some t \<Rightarrow> refresh_timestamp \<le> t)
       in if active_swap \<or> completed then Ok (db, ())
          else
            let db1 = cleanup_token_spent_markers refresh_timestamp db;
                spent_ids = set (hm_keys (hm_retain (\<lambda>_ t. refresh_timestamp \<le> t) (db_token_spent_outputs db1)));
                db2 = delete_token_outputs (\<lambda>_ r. tor_reservation_id r = None \<and> tor_added_at r < refresh_timestamp) db1;
                incoming = set (concat (map (\<lambda>t. map output_id (tos_outputs t)) token_outputs));
                db3 = reconcile_reservations incoming db2;
                reserved_ids = set (hm_keys (hm_retain (\<lambda>_ r. tor_reservation_id r \<noteq> None) (db_token_outputs db3)))
            in Ok (foldl (insert_refreshed now (reserved_ids \<union> spent_ids)) (delete_orphaned_metadata db3) token_outputs, ()))"

text \<open>The outputs of a token by what they are reserved for, smallest first.\<close>

definition rows_per_status :: "TokenDb \<Rightarrow> TokenMetadata \<Rightarrow> TokenOutputRow list \<Rightarrow> TokenOutputsPerStatus" where
  "rows_per_status db md rows =
     (let purpose = (\<lambda>r. case tor_reservation_id r of None \<Rightarrow> None | Some rid \<Rightarrow> hm_get (db_token_reservations db) rid);
          with = (\<lambda>P. map output_from_row (filter (\<lambda>r. P (purpose r)) rows))
      in \<lparr>tps_metadata = md, tps_available = with (\<lambda>p. p \<noteq> Some ''Payment'' \<and> p \<noteq> Some ''Swap''),
          tps_reserved_for_payment = with (\<lambda>p. p = Some ''Payment''), tps_reserved_for_swap = with (\<lambda>p. p = Some ''Swap'')\<rparr>)"

abbreviation row_amount :: "TokenOutputRow \<Rightarrow> u128" where
  "row_amount r \<equiv> token_amount (tw_output (tor_output r))"

definition pg_list_tokens_outputs :: "TokenDb \<Rightarrow> TokenDb \<times> (TokenOutputServiceError + TokenOutputsPerStatus list)" where
  "pg_list_tokens_outputs =
     token_transaction_on (\<lambda>db. Ok (db,
       map (\<lambda>(i, md). rows_per_status db md (sort_key row_amount (filter (\<lambda>r. tor_token_identifier r = i) (hm_values (db_token_outputs db)))))
         (db_token_metadata db)))"

definition matches_filter :: "GetTokenOutputsFilter \<Rightarrow> TokenMetadata \<Rightarrow> bool" where
  "matches_filter flt md = (case flt of Identifier i \<Rightarrow> tm_identifier md = i | IssuerPublicKey pk \<Rightarrow> issuer_public_key md = pk)"

text \<open>The rows of the join, a row without an output for a token that has none; these come last.\<close>

definition joined_rows :: "TokenDb \<Rightarrow> GetTokenOutputsFilter \<Rightarrow> (TokenMetadata \<times> TokenOutputRow option) list" where
  "joined_rows db flt =
     sort_key (\<lambda>(md, r). case r of None \<Rightarrow> (2 :: nat) ^ 128 | Some row \<Rightarrow> row_amount row)
       (concat (map (\<lambda>md. case filter (\<lambda>r. tor_token_identifier r = tm_identifier md) (hm_values (db_token_outputs db)) of
           [] \<Rightarrow> [(md, None)] | rows \<Rightarrow> map (\<lambda>r. (md, Some r)) rows)
         (filter (matches_filter flt) (hm_values (db_token_metadata db)))))"

definition pg_get_token_outputs :: "GetTokenOutputsFilter \<Rightarrow> TokenDb \<Rightarrow> TokenDb \<times> (TokenOutputServiceError + TokenOutputsPerStatus)" where
  "pg_get_token_outputs flt =
     token_transaction_on (\<lambda>db.
       case joined_rows db flt of
         [] \<Rightarrow> Err (TkGeneric ''Token outputs not found'')
       | (md, r) # rest \<Rightarrow> Ok (db, rows_per_status db md (List.map_filter snd ((md, r) # rest))))"

definition pg_insert_token_outputs :: "system_time \<Rightarrow> TokenOutputs \<Rightarrow> TokenDb \<Rightarrow> TokenDb \<times> (TokenOutputServiceError + unit)" where
  "pg_insert_token_outputs now t =
     token_transaction_on (\<lambda>db.
       let ids = output_id ` set (tos_outputs t);
           db1 = upsert_metadata (tos_metadata t) db;
           db2 = db1\<lparr>db_token_spent_outputs := hm_retain (\<lambda>i _. i \<notin> ids) (db_token_spent_outputs db1)\<rparr>
       in Ok (foldl (insert_single_output now (tm_identifier (tos_metadata t))) db2 (tos_outputs t), ()))"

definition available_rows :: "string \<Rightarrow> TokenDb \<Rightarrow> TokenOutputWithPrevOut list" where
  "available_rows tid db =
     map output_from_row (filter (\<lambda>r. tor_token_identifier r = tid \<and> tor_reservation_id r = None) (hm_values (db_token_outputs db)))"

definition preferred_rows :: "TokenOutputWithPrevOut list option \<Rightarrow> TokenOutputWithPrevOut list \<Rightarrow> TokenOutputWithPrevOut list" where
  "preferred_rows preferred outputs =
     (case preferred of Some ps \<Rightarrow> filter (\<lambda>w. output_id w \<in> output_id ` set ps) outputs | None \<Rightarrow> outputs)"

definition pg_reserve_token_outputs ::
  "TokenOutputsReservationId \<Rightarrow> string \<Rightarrow> ReservationTarget \<Rightarrow> TokenReservationPurpose \<Rightarrow> TokenOutputWithPrevOut list option \<Rightarrow>
   SelectionStrategy option \<Rightarrow> TokenDb \<Rightarrow> TokenDb \<times> (TokenOutputServiceError + TokenOutputsReservation)" where
  "pg_reserve_token_outputs rid tid target purpose preferred strategy db0 =
     (case target_is_zero target of
        Some e \<Rightarrow> (db0, Err e)
      | None \<Rightarrow>
          token_transaction_on (\<lambda>db.
            rbind (ok_or (hm_get (db_token_metadata db) tid)
                     (TkGeneric (''Token outputs not found for identifier: '' @ tid))) (\<lambda>md.
            rbind (select_outputs target strategy (preferred_rows preferred (available_rows tid db))) (\<lambda>selected.
              if hm_contains (db_token_reservations db) rid then Err token_db_error
              else Ok (db\<lparr>db_token_reservations := hm_insert rid (purpose_str purpose) (db_token_reservations db),
                          db_token_outputs := update_rows (\<lambda>i r. if i \<in> output_id ` set selected then r\<lparr>tor_reservation_id := Some rid\<rparr> else r)
                                                (db_token_outputs db)\<rparr>,
                       \<lparr>tr_id = rid, tr_token_outputs = \<lparr>tos_metadata = md, tos_outputs = selected\<rparr>\<rparr>)))) db0)"

definition pg_token_cancel_reservation :: "TokenOutputsReservationId \<Rightarrow> TokenDb \<Rightarrow> TokenDb \<times> (TokenOutputServiceError + unit)" where
  "pg_token_cancel_reservation rid =
     token_transaction_on (\<lambda>db.
       let db1 = db\<lparr>db_token_outputs := update_rows (\<lambda>_ r. if tor_reservation_id r = Some rid then r\<lparr>tor_reservation_id := None\<rparr> else r)
                      (db_token_outputs db)\<rparr>
       in Ok (delete_token_reservations (\<lambda>i. i = rid) db1, ()))"

definition mark_spent :: "system_time \<Rightarrow> string list \<Rightarrow> TokenDb \<Rightarrow> TokenDb" where
  "mark_spent now ids db =
     db\<lparr>db_token_spent_outputs :=
       foldl (\<lambda>m i. if hm_contains m i then m else hm_insert i now m) (db_token_spent_outputs db) ids\<rparr>"

definition pg_token_finalize_reservation ::
  "system_time \<Rightarrow> TokenOutputsReservationId \<Rightarrow> TokenDb \<Rightarrow> TokenDb \<times> (TokenOutputServiceError + unit)" where
  "pg_token_finalize_reservation now rid =
     token_transaction_on (\<lambda>db.
       case hm_get (db_token_reservations db) rid of
         None \<Rightarrow> Ok (db, ())
       | Some purpose \<Rightarrow>
           let db1 = mark_spent now (outputs_of_reservation db rid) db;
               db2 = delete_token_outputs (\<lambda>_ r. tor_reservation_id r = Some rid) db1;
               db3 = delete_token_reservations (\<lambda>i. i = rid) db2;
               db4 = (if purpose = ''Swap'' then db3\<lparr>db_swap_completed_at := Some now\<rparr> else db3)
           in Ok (delete_orphaned_metadata db4, ()))"

section \<open>Invariant of the tables\<close>

definition token_row_ok :: "TokenDb \<Rightarrow> string \<Rightarrow> TokenOutputRow \<Rightarrow> bool" where
  "token_row_ok db i r \<longleftrightarrow>
     output_id (tor_output r) = i \<and> hm_contains (db_token_metadata db) (tor_token_identifier r)
     \<and> (\<forall>rid. tor_reservation_id r = Some rid \<longrightarrow> hm_contains (db_token_reservations db) rid)"

definition token_db_inv :: "TokenDb \<Rightarrow> bool" where
  "token_db_inv db \<longleftrightarrow>
     hm_ok (db_token_metadata db) \<and> hm_ok (db_token_outputs db) \<and> hm_ok (db_token_reservations db) \<and> hm_ok (db_token_spent_outputs db)
     \<and> (\<forall>i md. hm_get (db_token_metadata db) i = Some md \<longrightarrow> tm_identifier md = i)
     \<and> (\<forall>i r. hm_get (db_token_outputs db) i = Some r \<longrightarrow> token_row_ok db i r)"

inductive token_db_step :: "TokenDb \<Rightarrow> TokenDb \<Rightarrow> bool" where
  "pg_set_tokens_outputs now ts started db = (db', x) \<Longrightarrow> token_db_step db db'"
| "pg_insert_token_outputs now t db = (db', x) \<Longrightarrow> token_db_step db db'"
| "pg_reserve_token_outputs rid tid target purpose preferred strategy db = (db', y) \<Longrightarrow> token_db_step db db'"
| "pg_token_cancel_reservation rid db = (db', x) \<Longrightarrow> token_db_step db db'"
| "pg_token_finalize_reservation now rid db = (db', x) \<Longrightarrow> token_db_step db db'"
| "pg_list_tokens_outputs db = (db', z) \<Longrightarrow> token_db_step db db'"
| "pg_get_token_outputs flt db = (db', u) \<Longrightarrow> token_db_step db db'"

lemma token_transaction_cases:
  assumes "token_transaction_on f db = (db', r)"
  obtains (unchanged) e where "db' = db\<lparr>db_connections := tl (db_connections db)\<rparr>" and "r = Err e"
  | (committed) x where "f (db\<lparr>db_connections := tl (db_connections db)\<rparr>) = Ok (db', x)" and "r = Ok x"
  using assms by (auto simp: token_transaction_on_def Let_def split: if_splits sum.splits prod.splits)

lemma token_db_inv_cong [simp]:
  "token_db_inv (db\<lparr>db_connections := cs\<rparr>) \<longleftrightarrow> token_db_inv db" "token_db_inv (db\<lparr>db_swap_completed_at := t\<rparr>) \<longleftrightarrow> token_db_inv db"
  by (simp_all add: token_db_inv_def token_row_ok_def)

lemma token_db_inv_spent: "token_db_inv db \<Longrightarrow> hm_ok m \<Longrightarrow> token_db_inv (db\<lparr>db_token_spent_outputs := m\<rparr>)"
  by (simp add: token_db_inv_def token_row_ok_def)

lemma token_db_inv_delete [simp]: "token_db_inv db \<Longrightarrow> token_db_inv (delete_token_outputs gone db)"
  by (auto simp: token_db_inv_def token_row_ok_def delete_token_outputs_def hm_get_retain split: option.splits if_splits)

lemma clear_reservation_simps [simp]:
  "tor_output (clear_reservation gone r) = tor_output r" "tor_token_identifier (clear_reservation gone r) = tor_token_identifier r"
  "tor_added_at (clear_reservation gone r) = tor_added_at r"
  "tor_reservation_id (clear_reservation gone r) = (case tor_reservation_id r of Some rid \<Rightarrow> if gone rid then None else Some rid | None \<Rightarrow> None)"
  by (simp_all add: clear_reservation_def split: option.split)

lemma token_db_inv_delete_reservations [simp]: "token_db_inv db \<Longrightarrow> token_db_inv (delete_token_reservations gone db)"
  by (auto simp: token_db_inv_def token_row_ok_def delete_token_reservations_def hm_get_retain hm_contains_iff split: option.splits if_splits)
    (metis option.simps(3))

lemma token_db_inv_orphaned [simp]:
  assumes "token_db_inv db"
  shows "token_db_inv (delete_orphaned_metadata db)"
proof -
  have "list_ex (\<lambda>r'. tor_token_identifier r' = tor_token_identifier r) (hm_values (db_token_outputs db))"
    if "hm_get (db_token_outputs db) i = Some r" for i r
    using that by (auto simp: list_ex_iff hm_values_def hm_get_def dest!: map_of_SomeD) force
  with assms show ?thesis
    by (auto simp: token_db_inv_def token_row_ok_def delete_orphaned_metadata_def hm_get_retain hm_contains_iff split: option.splits if_splits)
      (metis option.simps(3))
qed

lemma token_db_inv_upsert [simp]: "token_db_inv db \<Longrightarrow> token_db_inv (upsert_metadata md db)"
  by (auto simp: token_db_inv_def token_row_ok_def upsert_metadata_def hm_contains_iff)

lemma upsert_contains [simp]: "hm_contains (db_token_metadata (upsert_metadata md db)) (tm_identifier md)"
  by (simp add: upsert_metadata_def hm_contains_iff)

lemma token_db_inv_insert_single:
  "token_db_inv db \<Longrightarrow> hm_contains (db_token_metadata db) tid \<Longrightarrow>
   token_db_inv (insert_single_output now tid db w) \<and> hm_contains (db_token_metadata (insert_single_output now tid db w)) tid"
  by (auto simp: token_db_inv_def token_row_ok_def insert_single_output_def)

lemma token_db_inv_insert_outputs:
  "token_db_inv db \<Longrightarrow> hm_contains (db_token_metadata db) tid \<Longrightarrow> token_db_inv (foldl (insert_single_output now tid) db ws)"
  by (induction ws arbitrary: db) (simp_all add: token_db_inv_insert_single)

lemma token_db_inv_refreshed: "token_db_inv db \<Longrightarrow> token_db_inv (foldl (insert_refreshed now skip) db ts)"
  by (induction ts arbitrary: db) (simp_all add: insert_refreshed_def token_db_inv_insert_outputs)

lemma token_db_inv_reconcile: "token_db_inv db \<Longrightarrow> token_db_inv (reconcile_reservations incoming db)"
  by (simp add: reconcile_reservations_def Let_def)

lemma hm_ok_mark [simp]: "hm_ok m \<Longrightarrow> hm_ok (foldl (\<lambda>m i. if hm_contains m i then m else hm_insert i now m) m ids)"
  by (induction ids arbitrary: m) simp_all

lemma token_db_inv_spent_ok: "token_db_inv db \<Longrightarrow> hm_ok (db_token_spent_outputs db)"
  by (simp add: token_db_inv_def)

lemma token_db_inv_markers [simp]:
  "token_db_inv db \<Longrightarrow> token_db_inv (cleanup_token_spent_markers t db)" "token_db_inv db \<Longrightarrow> token_db_inv (mark_spent now ids db)"
  by (simp_all add: cleanup_token_spent_markers_def mark_spent_def token_db_inv_spent token_db_inv_spent_ok)

lemma token_db_inv_reserve:
  assumes "token_db_inv db"
  shows "token_db_inv (db\<lparr>db_token_reservations := hm_insert rid p (db_token_reservations db),
     db_token_outputs := update_rows (\<lambda>i r. if i \<in> S then r\<lparr>tor_reservation_id := Some rid\<rparr> else r) (db_token_outputs db)\<rparr>)"
  using assms by (auto simp: token_db_inv_def token_row_ok_def hm_contains_iff split: if_splits)

lemma token_db_inv_release:
  "token_db_inv db \<Longrightarrow> token_db_inv (db\<lparr>db_token_outputs :=
     update_rows (\<lambda>_ r. if P r then r\<lparr>tor_reservation_id := None\<rparr> else r) (db_token_outputs db)\<rparr>)"
  by (auto simp: token_db_inv_def token_row_ok_def split: if_splits)

lemma token_db_inv_step: "token_db_step db db' \<Longrightarrow> token_db_inv db \<Longrightarrow> token_db_inv db'"
proof (induction rule: token_db_step.induct)
  case (1 now ts started db db' x)
  from 1(1) [unfolded pg_set_tokens_outputs_def] show ?case
  proof (cases rule: token_transaction_cases)
    case (committed y)
    with 1(2) show ?thesis
      by (auto simp: Let_def split: if_splits intro!: token_db_inv_refreshed token_db_inv_orphaned token_db_inv_reconcile token_db_inv_delete)
  qed (use 1(2) in simp)
next
  case (2 now t db db' x)
  from 2(1) [unfolded pg_insert_token_outputs_def] show ?case
  proof (cases rule: token_transaction_cases)
    case (committed y)
    have "hm_contains (db_token_metadata (upsert_metadata (tos_metadata t) db1\<lparr>db_token_spent_outputs := m\<rparr>)) (tm_identifier (tos_metadata t))" for db1 m
      using upsert_contains by simp
    with committed 2(2) show ?thesis
      by (auto simp: Let_def token_db_inv_spent_ok intro!: token_db_inv_insert_outputs token_db_inv_spent hm_ok_retain)
  qed (use 2(2) in simp)
next
  case (3 rid tid target purpose preferred strategy db db' y)
  show ?case
  proof (cases "target_is_zero target")
    case (Some e)
    with 3 show ?thesis by (simp add: pg_reserve_token_outputs_def)
  next
    case None
    from 3(1) [unfolded pg_reserve_token_outputs_def None option.case] show ?thesis
    proof (cases rule: token_transaction_cases)
      case (committed z)
      with token_db_inv_reserve [of "db\<lparr>db_connections := tl (db_connections db)\<rparr>"] 3(2) show ?thesis by (auto split: if_splits)
    qed (use 3(2) in simp)
  qed
next
  case (4 rid db db' x)
  from 4(1) [unfolded pg_token_cancel_reservation_def] show ?case
    by (cases rule: token_transaction_cases)
      (use 4(2) token_db_inv_release [of "db\<lparr>db_connections := tl (db_connections db)\<rparr>"] in \<open>auto simp: Let_def intro!: token_db_inv_delete_reservations\<close>)
next
  case (5 now rid db db' x)
  from 5(1) [unfolded pg_token_finalize_reservation_def] show ?case
    by (cases rule: token_transaction_cases) (use 5(2) in \<open>auto simp: Let_def split: option.splits intro!: token_db_inv_orphaned\<close>)
next
  case (6 db db' z)
  from 6(1) [unfolded pg_list_tokens_outputs_def] show ?case by (cases rule: token_transaction_cases) (use 6(2) in auto)
next
  case (7 flt db db' u)
  from 7(1) [unfolded pg_get_token_outputs_def] show ?case
    by (cases rule: token_transaction_cases) (use 7(2) in \<open>auto split: list.splits\<close>)
qed

interpretation token_db: invariant_system "\<lambda>db. db = empty_token_db cs" token_db_step token_db_inv for cs
proof
  show "db = empty_token_db cs \<Longrightarrow> token_db_inv db" for db by (simp add: empty_token_db_def token_db_inv_def)
qed (rule token_db_inv_step)

section \<open>Agreement with the in-memory store\<close>

definition stored_output_row :: "TokenOutputRow \<Rightarrow> StoredTokenOutput" where
  "stored_output_row r = \<lparr>so_output = output_from_row r, so_added_at = tor_added_at r\<rparr>"

definition pool_view :: "TokenOutputsState \<Rightarrow> string \<Rightarrow> string \<Rightarrow> StoredTokenOutput option" where
  "pool_view st tid k = (case hm_get (available_token_outputs st) tid of None \<Rightarrow> None | Some a \<Rightarrow> hm_get (ato_outputs a) k)"

definition pool_rows :: "TokenDb \<Rightarrow> string \<Rightarrow> string \<Rightarrow> StoredTokenOutput option" where
  "pool_rows db tid k =
     (case hm_get (db_token_outputs db) k of
        None \<Rightarrow> None
      | Some r \<Rightarrow> if tor_token_identifier r = tid \<and> tor_reservation_id r = None then Some (stored_output_row r) else None)"

definition reserved_rows :: "TokenDb \<Rightarrow> TokenOutputsReservationId \<Rightarrow> (string \<times> StoredTokenOutput) set" where
  "reserved_rows db rid =
     {(tor_token_identifier r, stored_output_row r) | r k. hm_get (db_token_outputs db) k = Some r \<and> tor_reservation_id r = Some rid}"

definition reservation_match :: "TokenDb \<Rightarrow> TokenOutputsReservationId \<Rightarrow> TokenOutputsEntry option \<Rightarrow> bool" where
  "reservation_match db rid e \<longleftrightarrow>
     (case e of
        None \<Rightarrow> hm_get (db_token_reservations db) rid = None
      | Some e \<Rightarrow> hm_get (db_token_reservations db) rid = Some (purpose_str (te_purpose e))
          \<and> (\<lambda>s. (entry_token e, s)) ` set (stored_outputs e) = reserved_rows db rid)"

text \<open>The same outputs are available and reserved, and the tokens that the database knows are known to the other store, which
  also remembers tokens without outputs.\<close>

definition token_stores_match :: "TokenOutputsState \<Rightarrow> TokenDb \<Rightarrow> bool" where
  "token_stores_match st db \<longleftrightarrow>
     pool_view st = pool_rows db
     \<and> (\<forall>rid. reservation_match db rid (hm_get (tk_reservations st) rid))
     \<and> hm_get (spent_output_ids st) = hm_get (db_token_spent_outputs db)
     \<and> tk_last_swap_completed_at st = db_swap_completed_at db
     \<and> (\<forall>tid md. hm_get (db_token_metadata db) tid = Some md \<longrightarrow>
          (\<exists>a. hm_get (available_token_outputs st) tid = Some a \<and> ato_metadata a = md))"

lemma token_rows_cong [simp]:
  "pool_rows (db\<lparr>db_connections := cs\<rparr>) = pool_rows db" "reserved_rows (db\<lparr>db_connections := cs\<rparr>) = reserved_rows db"
  "pool_rows (db\<lparr>db_token_spent_outputs := m\<rparr>) = pool_rows db" "reserved_rows (db\<lparr>db_token_spent_outputs := m\<rparr>) = reserved_rows db"
  "pool_rows (db\<lparr>db_token_metadata := md\<rparr>) = pool_rows db" "reserved_rows (db\<lparr>db_token_metadata := md\<rparr>) = reserved_rows db"
  "pool_rows (db\<lparr>db_swap_completed_at := t\<rparr>) = pool_rows db" "reserved_rows (db\<lparr>db_swap_completed_at := t\<rparr>) = reserved_rows db"
  by (simp_all add: fun_eq_iff pool_rows_def reserved_rows_def)

lemma token_rows_upsert [simp]: "pool_rows (upsert_metadata md db) = pool_rows db" "reserved_rows (upsert_metadata md db) = reserved_rows db"
  by (simp_all add: upsert_metadata_def)

lemma upsert_others [simp]:
  "db_token_reservations (upsert_metadata md db) = db_token_reservations db" "db_token_outputs (upsert_metadata md db) = db_token_outputs db"
  "db_swap_completed_at (upsert_metadata md db) = db_swap_completed_at db"
  "db_token_metadata (upsert_metadata md db) = hm_insert (tm_identifier md) md (db_token_metadata db)"
  by (simp_all add: upsert_metadata_def)

lemma reservation_match_cong:
  "hm_get (db_token_reservations db') j = hm_get (db_token_reservations db) j \<Longrightarrow> reserved_rows db' j = reserved_rows db j \<Longrightarrow>
   reservation_match db' j e = reservation_match db j e"
  by (simp add: reservation_match_def split: option.split)

lemma match_reservation: "token_stores_match st db \<Longrightarrow> reservation_match db j (hm_get (tk_reservations st) j)"
  by (simp add: token_stores_match_def)

lemma match_connections [simp]: "token_stores_match st (db\<lparr>db_connections := cs\<rparr>) \<longleftrightarrow> token_stores_match st db"
  by (simp add: token_stores_match_def reservation_match_def split: option.split)

subsection \<open>Inserting\<close>

lemma insert_new_get:
  "distinct (map output_id ws) \<Longrightarrow> hm_get (insert_new now ws m) k =
     (case hm_get m k of
        Some s \<Rightarrow> Some s
      | None \<Rightarrow> map_option (\<lambda>w. \<lparr>so_output = w, so_added_at = now\<rparr>) (find (\<lambda>w. output_id w = k) ws))"
proof (induction ws arbitrary: m)
  case (Cons w ws)
  then show ?case
    by (cases "output_id w = k") (auto simp: hm_contains_iff find_None_iff split: option.splits if_splits)
qed (simp split: option.split)

lemma insert_rows_get:
  "distinct (map output_id ws) \<Longrightarrow> hm_get (db_token_outputs (foldl (insert_single_output now tid) db ws)) k =
     (case hm_get (db_token_outputs db) k of
        Some r \<Rightarrow> Some r
      | None \<Rightarrow> map_option (\<lambda>w. \<lparr>tor_token_identifier = tid, tor_output = w, tor_reservation_id = None, tor_added_at = now\<rparr>)
                  (find (\<lambda>w. output_id w = k) ws))"
proof (induction ws arbitrary: db)
  case (Cons w ws)
  then show ?case
    by (cases "output_id w = k") (auto simp: insert_single_output_def hm_contains_iff find_None_iff split: option.splits if_splits)
qed (simp split: option.split)

lemma insert_rows_others [simp]:
  "db_token_reservations (foldl (insert_single_output now tid) db ws) = db_token_reservations db"
  "db_token_metadata (foldl (insert_single_output now tid) db ws) = db_token_metadata db"
  "db_token_spent_outputs (foldl (insert_single_output now tid) db ws) = db_token_spent_outputs db"
  "db_swap_completed_at (foldl (insert_single_output now tid) db ws) = db_swap_completed_at db"
  by (induction ws arbitrary: db) (simp_all add: insert_single_output_def)

text \<open>What the callers guarantee: a token has one description, an output belongs to one token, is inserted once and not while it is
  reserved.\<close>

definition insertable :: "TokenOutputs \<Rightarrow> TokenOutputsState \<Rightarrow> TokenDb \<Rightarrow> bool" where
  "insertable t st db \<longleftrightarrow>
     distinct (map output_id (tos_outputs t))
     \<and> (\<forall>a. hm_get (available_token_outputs st) (tm_identifier (tos_metadata t)) = Some a \<longrightarrow> ato_metadata a = tos_metadata t)
     \<and> (\<forall>w \<in> set (tos_outputs t). token_identifier (tw_output w) = tm_identifier (tos_metadata t)
          \<and> (\<forall>r. hm_get (db_token_outputs db) (output_id w) = Some r \<longrightarrow>
               tor_token_identifier r = tm_identifier (tos_metadata t) \<and> tor_reservation_id r = None))"

lemma find_output: "find (\<lambda>w. output_id w = k) ws = Some w \<Longrightarrow> w \<in> set ws \<and> output_id w = k"
  by (auto simp: find_Some_iff)

lemma insert_pool_view:
  assumes "insertable t st db"
  shows "pool_view (insert_token_outputs now st t) tid k =
    (case pool_view st tid k of
       Some s \<Rightarrow> Some s
     | None \<Rightarrow> if tid = tm_identifier (tos_metadata t)
               then map_option (\<lambda>w. \<lparr>so_output = w, so_added_at = now\<rparr>) (find (\<lambda>w. output_id w = k) (tos_outputs t)) else None)"
proof -
  have d: "distinct (map output_id (tos_outputs t))" using assms by (simp add: insertable_def)
  have all: "hm_get (hm_insert_all output_id (\<lambda>w. \<lparr>so_output = w, so_added_at = now\<rparr>) (tos_outputs t) []) k =
      map_option (\<lambda>w. \<lparr>so_output = w, so_added_at = now\<rparr>) (find (\<lambda>w. output_id w = k) (tos_outputs t))" for k
  proof (cases "find (\<lambda>w. output_id w = k) (tos_outputs t)")
    case None
    then have "k \<notin> output_id ` set (tos_outputs t)" by (auto simp: find_None_iff)
    with None show ?thesis by (simp add: hm_get_insert_all_notin)
  next
    case (Some w)
    with find_output [OF Some] hm_get_insert_all_distinct [OF d, of w] show ?thesis by auto
  qed
  show ?thesis
    by (cases "hm_get (available_token_outputs st) (tm_identifier (tos_metadata t))")
      (auto simp: pool_view_def insert_token_outputs_def Let_def insert_new_get [OF d] all split: option.splits)
qed

lemma insert_pool_rows:
  assumes "insertable t st db"
  shows "pool_rows (foldl (insert_single_output now (tm_identifier (tos_metadata t))) db (tos_outputs t)) tid k =
    (case pool_rows db tid k of
       Some s \<Rightarrow> Some s
     | None \<Rightarrow> if tid = tm_identifier (tos_metadata t)
               then map_option (\<lambda>w. \<lparr>so_output = w, so_added_at = now\<rparr>) (find (\<lambda>w. output_id w = k) (tos_outputs t)) else None)"
proof -
  have d: "distinct (map output_id (tos_outputs t))" using assms by (simp add: insertable_def)
  show ?thesis
  proof (cases "find (\<lambda>w. output_id w = k) (tos_outputs t)")
    case None
    then show ?thesis by (auto simp: pool_rows_def insert_rows_get [OF d] split: option.splits)
  next
    case (Some w)
    with find_output [OF Some] assms have "token_identifier (tw_output w) = tm_identifier (tos_metadata t)"
      "\<forall>r. hm_get (db_token_outputs db) k = Some r \<longrightarrow> tor_token_identifier r = tm_identifier (tos_metadata t) \<and> tor_reservation_id r = None"
      unfolding insertable_def by blast+
    with Some show ?thesis
      by (auto simp: pool_rows_def insert_rows_get [OF d] stored_output_row_def output_from_row_def split: option.splits)
  qed
qed

lemma insert_reserved_rows:
  assumes "insertable t st db"
  shows "reserved_rows (foldl (insert_single_output now (tm_identifier (tos_metadata t))) db (tos_outputs t)) rid = reserved_rows db rid"
proof -
  have d: "distinct (map output_id (tos_outputs t))" using assms by (simp add: insertable_def)
  have "hm_get (db_token_outputs (foldl (insert_single_output now (tm_identifier (tos_metadata t))) db (tos_outputs t))) k = Some r
      \<and> tor_reservation_id r = Some rid \<longleftrightarrow> hm_get (db_token_outputs db) k = Some r \<and> tor_reservation_id r = Some rid" for k r
    by (auto simp: insert_rows_get [OF d] split: option.splits)
  then show ?thesis unfolding reserved_rows_def by simp
qed

lemma hm_get_remove_all: "hm_get (foldl (\<lambda>m w. hm_remove (f w) m) m ws) k = (if k \<in> f ` set ws then None else hm_get m k)"
  by (induction ws arbitrary: m) auto

lemma insertable_cong: "insertable t st db \<Longrightarrow> insertable t st (upsert_metadata md db\<lparr>db_token_spent_outputs := m\<rparr>)"
  by (simp add: insertable_def upsert_metadata_def)

lemma insert_match:
  assumes "token_stores_match st db" and "token_db_inv db" and "insertable t st db"
  shows "token_stores_match (insert_token_outputs now st t)
    (foldl (insert_single_output now (tm_identifier (tos_metadata t)))
       (upsert_metadata (tos_metadata t) db\<lparr>db_token_spent_outputs := hm_retain (\<lambda>i _. i \<notin> output_id ` set (tos_outputs t)) (db_token_spent_outputs db)\<rparr>)
       (tos_outputs t))" (is "token_stores_match ?st (foldl ?f ?db (tos_outputs t))")
  unfolding token_stores_match_def
proof (intro conjI allI impI)
  note ins = insertable_cong [OF assms(3), where md = "tos_metadata t" and m = "hm_retain (\<lambda>i _. i \<notin> output_id ` set (tos_outputs t)) (db_token_spent_outputs db)"]
  have same: "pool_rows ?db = pool_rows db" "reserved_rows ?db = reserved_rows db" by (simp_all add: upsert_metadata_def)
  show "pool_view ?st = pool_rows (foldl ?f ?db (tos_outputs t))"
  proof (intro ext)
    fix tid k
    show "pool_view ?st tid k = pool_rows (foldl ?f ?db (tos_outputs t)) tid k"
      using assms(1) by (simp add: insert_pool_view [OF assms(3)] insert_pool_rows [OF ins] same token_stores_match_def)
  qed
  show "reservation_match (foldl ?f ?db (tos_outputs t)) rid (hm_get (tk_reservations ?st) rid)" for rid
    using match_reservation [OF assms(1), of rid]
    by (subst reservation_match_cong [where db = db]) (simp_all add: insert_reserved_rows [OF ins] same insert_token_outputs_def Let_def)
  have "hm_ok (db_token_spent_outputs db)" using assms(2) by (rule token_db_inv_spent_ok)
  then show "hm_get (spent_output_ids ?st) = hm_get (db_token_spent_outputs (foldl ?f ?db (tos_outputs t)))"
    using assms(1) by (auto simp: token_stores_match_def insert_token_outputs_def Let_def hm_get_remove_all hm_get_retain fun_eq_iff split: option.split)
  show "tk_last_swap_completed_at ?st = db_swap_completed_at (foldl ?f ?db (tos_outputs t))"
    using assms(1) by (simp add: token_stores_match_def insert_token_outputs_def Let_def)
  show "\<exists>a. hm_get (available_token_outputs ?st) tid = Some a \<and> ato_metadata a = md"
    if "hm_get (db_token_metadata (foldl ?f ?db (tos_outputs t))) tid = Some md" for tid md
  proof (cases "tid = tm_identifier (tos_metadata t)")
    case True
    have "\<forall>a. hm_get (available_token_outputs st) (tm_identifier (tos_metadata t)) = Some a \<longrightarrow> ato_metadata a = tos_metadata t"
      using assms(3) unfolding insertable_def by blast
    with True that show ?thesis
      by (cases "hm_get (available_token_outputs st) tid") (simp_all add: insert_token_outputs_def Let_def)
  next
    case False
    have "hm_get (db_token_metadata db) tid = Some md" using that False by simp
    with assms(1) have "\<exists>a. hm_get (available_token_outputs st) tid = Some a \<and> ato_metadata a = md" unfolding token_stores_match_def by blast
    with False show ?thesis by (simp add: insert_token_outputs_def Let_def)
  qed
qed

subsection \<open>Reserving\<close>

lemma preferred_same: "preferred_rows preferred (output_vec a) = candidate_outputs preferred a"
proof -
  have "output_id w \<in> output_id ` set ps \<longleftrightarrow> list_ex (\<lambda>p. output_id w = output_id p) ps" for w ps
    by (auto simp: list_ex_iff)
  then show ?thesis by (simp add: preferred_rows_def candidate_outputs_def split: option.split)
qed

lemma pool_view_get: "hm_get (available_token_outputs st) tid = Some a \<Longrightarrow> pool_view st tid = hm_get (ato_outputs a)"
  by (simp add: fun_eq_iff pool_view_def)

lemma pool_rowsD:
  "pool_rows db tid k = Some s \<Longrightarrow>
   \<exists>r. hm_get (db_token_outputs db) k = Some r \<and> tor_token_identifier r = tid \<and> tor_reservation_id r = None \<and> s = stored_output_row r"
  by (auto simp: pool_rows_def split: option.splits if_splits)

definition reserved_db :: "TokenOutputsReservationId \<Rightarrow> TokenReservationPurpose \<Rightarrow> string set \<Rightarrow> TokenDb \<Rightarrow> TokenDb" where
  "reserved_db rid purpose ids db =
     db\<lparr>db_token_reservations := hm_insert rid (purpose_str purpose) (db_token_reservations db),
        db_token_outputs := update_rows (\<lambda>i r. if i \<in> ids then r\<lparr>tor_reservation_id := Some rid\<rparr> else r) (db_token_outputs db)\<rparr>"

lemma reserved_db_views:
  assumes "token_db_inv db" and "hm_get (db_token_reservations db) rid = None" and "\<forall>k \<in> ids. \<exists>s. pool_rows db tid k = Some s"
  shows "pool_rows (reserved_db rid purpose ids db) t k = (if k \<in> ids then None else pool_rows db t k)"
    and "reserved_rows (reserved_db rid purpose ids db) rid = {(tid, s) | s k. k \<in> ids \<and> pool_rows db tid k = Some s}"
    and "j \<noteq> rid \<Longrightarrow> reserved_rows (reserved_db rid purpose ids db) j = reserved_rows db j"
proof -
  have free: "tor_reservation_id r = None \<and> tor_token_identifier r = tid" if k: "k \<in> ids" and r: "hm_get (db_token_outputs db) k = Some r" for k r
  proof -
    obtain s where "pool_rows db tid k = Some s" using bspec [OF assms(3) k] by blast
    from pool_rowsD [OF this] r show ?thesis by auto
  qed
  have none: "tor_reservation_id r \<noteq> Some rid" if "hm_get (db_token_outputs db) k = Some r" for k r
    using assms(1,2) that unfolding token_db_inv_def token_row_ok_def hm_contains_iff by blast
  have stored: "stored_output_row (r\<lparr>tor_reservation_id := x\<rparr>) = stored_output_row r" for r x
    by (simp add: stored_output_row_def output_from_row_def)
  show "pool_rows (reserved_db rid purpose ids db) t k = (if k \<in> ids then None else pool_rows db t k)"
    by (auto simp: pool_rows_def reserved_db_def split: option.split)
  show "reserved_rows (reserved_db rid purpose ids db) rid = {(tid, s) | s k. k \<in> ids \<and> pool_rows db tid k = Some s}" (is "?L = ?R")
  proof
    show "?L \<subseteq> ?R"
    proof
      fix x assume "x \<in> ?L"
      then obtain k r where x: "x = (tor_token_identifier r, stored_output_row r)" "tor_reservation_id r = Some rid"
        "hm_get (db_token_outputs (reserved_db rid purpose ids db)) k = Some r" unfolding reserved_rows_def by blast
      then obtain r0 where r0: "hm_get (db_token_outputs db) k = Some r0" "r = (if k \<in> ids then r0\<lparr>tor_reservation_id := Some rid\<rparr> else r0)"
        by (auto simp: reserved_db_def)
      with none x(2) have k: "k \<in> ids" by (auto split: if_splits)
      with free [OF k r0(1)] x(1) r0 show "x \<in> ?R" by (force simp: pool_rows_def stored)
    qed
    show "?R \<subseteq> ?L"
    proof
      fix x assume "x \<in> ?R"
      then obtain s k where x: "x = (tid, s)" "k \<in> ids" "pool_rows db tid k = Some s" by blast
      obtain r where r: "hm_get (db_token_outputs db) k = Some r" "tor_token_identifier r = tid" "s = stored_output_row r"
        using pool_rowsD [OF x(3)] by blast
      have "hm_get (db_token_outputs (reserved_db rid purpose ids db)) k = Some (r\<lparr>tor_reservation_id := Some rid\<rparr>)"
        using x(2) r(1) by (simp add: reserved_db_def)
      with x(1) r(2,3) show "x \<in> ?L" unfolding reserved_rows_def
        by (intro CollectI exI [of _ "r\<lparr>tor_reservation_id := Some rid\<rparr>"] exI [of _ k]) (simp add: stored)
    qed
  qed
  show "reserved_rows (reserved_db rid purpose ids db) j = reserved_rows db j" if "j \<noteq> rid"
  proof -
    have "hm_get (db_token_outputs (reserved_db rid purpose ids db)) k = Some r \<and> tor_reservation_id r = Some j
        \<longleftrightarrow> hm_get (db_token_outputs db) k = Some r \<and> tor_reservation_id r = Some j" for k r
    proof (cases "hm_get (db_token_outputs db) k")
      case (Some r0)
      then show ?thesis using that free [OF _ Some] by (cases "k \<in> ids") (auto simp: reserved_db_def)
    qed (simp add: reserved_db_def)
    then show ?thesis unfolding reserved_rows_def by simp
  qed
qed

lemma reserve_match:
  fixes purpose :: TokenReservationPurpose
  assumes "token_stores_match st db" and "token_db_inv db" and "token_inv st" and "hm_get (tk_reservations st) rid = None"
    and "hm_get (db_token_metadata db) tid = Some md" and "hm_get (available_token_outputs st) tid = Some a"
    and "set sel \<subseteq> set (output_vec a)"
  defines "st' \<equiv> st\<lparr>available_token_outputs := hm_insert tid (a\<lparr>ato_outputs := hm_retain (\<lambda>k _. k \<notin> output_id ` set sel) (ato_outputs a)\<rparr>)
          (available_token_outputs st),
        tk_reservations := hm_insert rid \<lparr>te_metadata = ato_metadata a,
          stored_outputs = List.map_filter (\<lambda>w. hm_get (ato_outputs a) (output_id w)) sel, te_purpose = purpose\<rparr> (tk_reservations st)\<rparr>"
  shows "token_stores_match st' (reserved_db rid purpose (output_id ` set sel) db)"
  unfolding token_stores_match_def
proof (intro conjI allI impI)
  let ?db = "reserved_db rid purpose (output_id ` set sel) db"
  have ok: "outputs_ok (ato_outputs a)" "tm_identifier (ato_metadata a) = tid"
    using assms(3,6) pool_ok_get by (auto simp: token_inv_def)
  have view: "pool_rows db tid = hm_get (ato_outputs a)"
    using assms(1) pool_view_get [OF assms(6)] by (simp add: token_stores_match_def)
  have inpool: "\<forall>k \<in> output_id ` set sel. \<exists>s. pool_rows db tid k = Some s"
    using assms(7) outputs_ok_distinct(2) [OF ok(1)] unfolding view by blast
  have fresh: "hm_get (db_token_reservations db) rid = None"
    using match_reservation [OF assms(1), of rid] assms(4) by (simp add: reservation_match_def)
  note views = reserved_db_views [OF assms(2) fresh inpool, where purpose = purpose]
  show "pool_view st' = pool_rows ?db"
  proof (intro ext)
    fix t k
    have same: "pool_view st t k = pool_rows db t k" using assms(1) by (simp add: token_stores_match_def)
    have other: "pool_rows db t k = None" if "k \<in> output_id ` set sel" "t \<noteq> tid"
      using inpool that by (auto simp: pool_rows_def split: option.splits if_splits)
    show "pool_view st' t k = pool_rows ?db t k"
    proof (cases "t = tid")
      case True
      with ok(1) same assms(6) show ?thesis
        by (auto simp: views(1) pool_view_def st'_def hm_get_retain outputs_ok_def split: option.splits)
    next
      case False
      with same other show ?thesis by (simp add: views(1) pool_view_def st'_def)
    qed
  qed
  show "reservation_match ?db j (hm_get (tk_reservations st') j)" for j
  proof (cases "j = rid")
    case True
    have "(\<lambda>s. (tid, s)) ` set (List.map_filter (\<lambda>w. hm_get (ato_outputs a) (output_id w)) sel) = reserved_rows ?db rid"
      unfolding views(2) view by (auto simp: List.map_filter_def image_iff) (metis option.discI option.sel)+
    with True ok(2) show ?thesis by (simp add: reservation_match_def st'_def reserved_db_def)
  next
    case False
    have "hm_get (db_token_reservations ?db) j = hm_get (db_token_reservations db) j" using False by (simp add: reserved_db_def)
    from reservation_match_cong [OF this views(3) [OF False]] match_reservation [OF assms(1), of j] False show ?thesis by (simp add: st'_def)
  qed
  show "hm_get (spent_output_ids st') = hm_get (db_token_spent_outputs ?db)" "tk_last_swap_completed_at st' = db_swap_completed_at ?db"
    using assms(1) by (simp_all add: token_stores_match_def st'_def reserved_db_def)
  show "\<exists>b. hm_get (available_token_outputs st') t = Some b \<and> ato_metadata b = m" if "hm_get (db_token_metadata ?db) t = Some m" for t m
    using that assms(1,6) by (force simp: token_stores_match_def st'_def reserved_db_def)
qed

subsection \<open>Releasing\<close>

lemma row_output_id [simp]: "output_id (output_from_row r) = output_id (tor_output r)" "stored_output_id (stored_output_row r) = output_id (tor_output r)"
  by (simp_all add: output_from_row_def stored_output_row_def)

text \<open>The rows of a reservation are the outputs that the other store keeps for it.\<close>

lemma reservation_rows:
  assumes "token_stores_match st db" and "token_db_inv db" and "hm_get (tk_reservations st) rid = Some e"
  shows "hm_get (db_token_outputs db) k = Some r \<Longrightarrow> tor_reservation_id r = Some rid \<Longrightarrow>
      tor_token_identifier r = entry_token e \<and> stored_output_row r \<in> set (stored_outputs e) \<and> stored_output_id (stored_output_row r) = k"
    and "s \<in> set (stored_outputs e) \<Longrightarrow> \<exists>r. hm_get (db_token_outputs db) (stored_output_id s) = Some r \<and> tor_reservation_id r = Some rid
      \<and> tor_token_identifier r = entry_token e \<and> s = stored_output_row r"
proof -
  have rows: "(\<lambda>s. (entry_token e, s)) ` set (stored_outputs e) = reserved_rows db rid"
    using match_reservation [OF assms(1), of rid] assms(3) by (simp add: reservation_match_def)
  have key: "output_id (tor_output r) = k" if "hm_get (db_token_outputs db) k = Some r" for k r
    using assms(2) that by (simp add: token_db_inv_def token_row_ok_def)
  show "tor_token_identifier r = entry_token e \<and> stored_output_row r \<in> set (stored_outputs e) \<and> stored_output_id (stored_output_row r) = k"
    if "hm_get (db_token_outputs db) k = Some r" "tor_reservation_id r = Some rid"
  proof -
    have "(tor_token_identifier r, stored_output_row r) \<in> reserved_rows db rid" using that unfolding reserved_rows_def by blast
    then show ?thesis using key [OF that(1)] unfolding rows [symmetric] by auto
  qed
  show "\<exists>r. hm_get (db_token_outputs db) (stored_output_id s) = Some r \<and> tor_reservation_id r = Some rid
      \<and> tor_token_identifier r = entry_token e \<and> s = stored_output_row r" if "s \<in> set (stored_outputs e)"
  proof -
    have "(entry_token e, s) \<in> reserved_rows db rid" using that unfolding rows [symmetric] by blast
    then show ?thesis using key unfolding reserved_rows_def by fastforce
  qed
qed

definition released_db :: "TokenOutputsReservationId \<Rightarrow> TokenDb \<Rightarrow> TokenDb" where
  "released_db rid db = delete_token_reservations (\<lambda>i. i = rid)
     (db\<lparr>db_token_outputs := update_rows (\<lambda>_ r. if tor_reservation_id r = Some rid then r\<lparr>tor_reservation_id := None\<rparr> else r) (db_token_outputs db)\<rparr>)"

lemma released_db_others [simp]:
  "db_token_metadata (released_db rid db) = db_token_metadata db" "db_token_spent_outputs (released_db rid db) = db_token_spent_outputs db"
  "db_swap_completed_at (released_db rid db) = db_swap_completed_at db"
  by (simp_all add: released_db_def delete_token_reservations_def)

lemma match_same_views:
  "token_stores_match st db \<Longrightarrow> pool_rows db' = pool_rows db \<Longrightarrow> reserved_rows db' = reserved_rows db \<Longrightarrow>
   hm_get (db_token_reservations db') = hm_get (db_token_reservations db) \<Longrightarrow> hm_get (db_token_spent_outputs db') = hm_get (db_token_spent_outputs db) \<Longrightarrow>
   db_swap_completed_at db' = db_swap_completed_at db \<Longrightarrow> hm_get (db_token_metadata db') = hm_get (db_token_metadata db) \<Longrightarrow> token_stores_match st db'"
  unfolding token_stores_match_def using reservation_match_cong [of db' _ db] by simp

lemma released_db_get:
  "hm_get (db_token_outputs (released_db rid db)) k =
     map_option (\<lambda>r. if tor_reservation_id r = Some rid then r\<lparr>tor_reservation_id := None\<rparr> else r) (hm_get (db_token_outputs db) k)"
  by (cases "hm_get (db_token_outputs db) k") (auto simp: released_db_def delete_token_reservations_def clear_reservation_def split: option.split)

lemma stored_row_reservation [simp]: "stored_output_row (r\<lparr>tor_reservation_id := x\<rparr>) = stored_output_row r"
  by (simp add: stored_output_row_def output_from_row_def)

lemma entry_distinct:
  assumes "token_inv st" and "hm_get (tk_reservations st) rid = Some e"
  shows "distinct (map stored_output_id (stored_outputs e))"
proof -
  have "distinct (entry_outputs e)" using assms by (auto simp: token_inv_def disjoint_entries_def)
  then show ?thesis by (auto simp: entry_outputs_def distinct_map inj_on_def)
qed

lemma cancel_match:
  assumes "token_stores_match st db" and "token_db_inv db" and "token_inv st"
  shows "token_stores_match (token_cancel_reservation st rid) (released_db rid db)"
proof (cases "hm_get (tk_reservations st) rid")
  case None
  have none: "hm_get (db_token_reservations db) rid = None" using match_reservation [OF assms(1), of rid] None by (simp add: reservation_match_def)
  then have "tor_reservation_id r \<noteq> Some rid" if "hm_get (db_token_outputs db) k = Some r" for k r
    using assms(2) that unfolding token_db_inv_def token_row_ok_def hm_contains_iff by blast
  then have rows: "hm_get (db_token_outputs (released_db rid db)) = hm_get (db_token_outputs db)"
    by (intro ext) (simp add: released_db_get split: option.split, auto simp: map_option_case split: option.split)
  have "pool_rows (released_db rid db) = pool_rows db" "reserved_rows (released_db rid db) = reserved_rows db"
    by (simp_all add: fun_eq_iff pool_rows_def reserved_rows_def rows)
  moreover have "hm_get (db_token_reservations (released_db rid db)) = hm_get (db_token_reservations db)"
    using assms(2) none by (auto simp: released_db_def delete_token_reservations_def hm_get_retain token_db_inv_def fun_eq_iff split: option.split)
  ultimately show ?thesis
    using match_same_views [OF assms(1), of "released_db rid db"] None by (simp add: token_cancel_reservation_def)
next
  case (Some e)
  note rr = reservation_rows [OF assms(1,2) Some]
  have "entry_ok (available_token_outputs st) e" using assms(3) Some by (auto simp: token_inv_def)
  then obtain a where a: "hm_get (available_token_outputs st) (entry_token e) = Some a" by (auto simp: entry_ok_def hm_contains_iff)
  have st': "token_cancel_reservation st rid = st\<lparr>tk_reservations := hm_remove rid (tk_reservations st),
      available_token_outputs := hm_insert (entry_token e)
        (a\<lparr>ato_outputs := hm_insert_all stored_output_id (\<lambda>s. s) (stored_outputs e) (ato_outputs a)\<rparr>) (available_token_outputs st)\<rparr>"
    by (simp add: token_cancel_reservation_def Some a Let_def)
  have view: "pool_view st = pool_rows db" using assms(1) by (simp add: token_stores_match_def)
  show ?thesis unfolding token_stores_match_def
  proof (intro conjI allI impI)
    show "pool_view (token_cancel_reservation st rid) = pool_rows (released_db rid db)"
    proof (intro ext)
      fix t k
      have old: "pool_rows db t k = pool_view st t k" by (simp add: view)
      show "pool_view (token_cancel_reservation st rid) t k = pool_rows (released_db rid db) t k"
      proof (cases "\<exists>s \<in> set (stored_outputs e). stored_output_id s = k")
        case True
        then obtain s where s: "s \<in> set (stored_outputs e)" "stored_output_id s = k" by blast
        obtain r where r: "hm_get (db_token_outputs db) k = Some r" "tor_reservation_id r = Some rid" "tor_token_identifier r = entry_token e"
          "s = stored_output_row r" using rr(2) [OF s(1)] s(2) by blast
        have "hm_get (hm_insert_all stored_output_id (\<lambda>s. s) (stored_outputs e) (ato_outputs a)) k = Some s"
          using hm_get_insert_all_distinct [OF entry_distinct [OF assms(3) Some] s(1), of "\<lambda>s. s"] s(2) by simp
        moreover have "pool_view st t k = None" using r old by (simp add: pool_rows_def)
        ultimately show ?thesis using r by (auto simp: st' pool_view_def pool_rows_def released_db_get)
      next
        case False
        then have "k \<notin> stored_output_id ` set (stored_outputs e)" by auto
        then have "pool_view (token_cancel_reservation st rid) t k = pool_view st t k"
          using a by (simp add: st' pool_view_def hm_get_insert_all_notin)
        moreover have "tor_reservation_id r \<noteq> Some rid" if "hm_get (db_token_outputs db) k = Some r" for r
          using rr(1) [OF that] False by blast
        then have "pool_rows (released_db rid db) t k = pool_rows db t k"
          by (auto simp: pool_rows_def released_db_get split: option.split)
        ultimately show ?thesis using old by simp
      qed
    qed
    show "reservation_match (released_db rid db) j (hm_get (tk_reservations (token_cancel_reservation st rid)) j)" for j
    proof (cases "j = rid")
      case True
      then show ?thesis using assms(2) by (simp add: st' reservation_match_def released_db_def delete_token_reservations_def hm_get_retain token_db_inv_def
            split: option.split)
    next
      case False
      have "hm_get (db_token_reservations (released_db rid db)) j = hm_get (db_token_reservations db) j"
        using False assms(2) by (simp add: released_db_def delete_token_reservations_def hm_get_retain token_db_inv_def split: option.split)
      moreover have "reserved_rows (released_db rid db) j = reserved_rows db j"
      proof -
        have "hm_get (db_token_outputs (released_db rid db)) k = Some r \<and> tor_reservation_id r = Some j
            \<longleftrightarrow> hm_get (db_token_outputs db) k = Some r \<and> tor_reservation_id r = Some j" for k r
          using False by (auto simp: released_db_get)
        then show ?thesis unfolding reserved_rows_def by simp
      qed
      ultimately show ?thesis using match_reservation [OF assms(1), of j] False by (simp add: reservation_match_cong [of "released_db rid db" j db] st')
    qed
    show "hm_get (spent_output_ids (token_cancel_reservation st rid)) = hm_get (db_token_spent_outputs (released_db rid db))"
      "tk_last_swap_completed_at (token_cancel_reservation st rid) = db_swap_completed_at (released_db rid db)"
      using assms(1) by (simp_all add: st' token_stores_match_def)
    show "\<exists>b. hm_get (available_token_outputs (token_cancel_reservation st rid)) t = Some b \<and> ato_metadata b = md"
      if "hm_get (db_token_metadata (released_db rid db)) t = Some md" for t md
    proof -
      have "hm_get (db_token_metadata db) t = Some md" using that by simp
      with assms(1) have "\<exists>b. hm_get (available_token_outputs st) t = Some b \<and> ato_metadata b = md" unfolding token_stores_match_def by blast
      with a show ?thesis by (auto simp: st')
    qed
  qed
qed

definition finalized_db :: "system_time \<Rightarrow> TokenOutputsReservationId \<Rightarrow> TokenDb \<Rightarrow> TokenDb" where
  "finalized_db now rid db =
     delete_token_reservations (\<lambda>i. i = rid) (delete_token_outputs (\<lambda>_ r. tor_reservation_id r = Some rid)
       (mark_spent now (outputs_of_reservation db rid) db))"

lemma finalized_db_get:
  assumes "token_db_inv db"
  shows "hm_get (db_token_outputs (finalized_db now rid db)) k =
     (case hm_get (db_token_outputs db) k of None \<Rightarrow> None | Some r \<Rightarrow> if tor_reservation_id r = Some rid then None else Some r)"
  using assms by (auto simp: finalized_db_def delete_token_reservations_def delete_token_outputs_def mark_spent_def hm_get_retain
      token_db_inv_def clear_reservation_def split: option.split)

lemma finalized_db_others [simp]:
  "db_token_metadata (finalized_db now rid db) = db_token_metadata db" "db_swap_completed_at (finalized_db now rid db) = db_swap_completed_at db"
  "db_token_reservations (finalized_db now rid db) = hm_retain (\<lambda>i _. i \<noteq> rid) (db_token_reservations db)"
  by (simp_all add: finalized_db_def delete_token_reservations_def delete_token_outputs_def mark_spent_def)

lemma mark_get:
  "hm_get (foldl (\<lambda>m i. if hm_contains m i then m else hm_insert i now m) m ids) k =
     (case hm_get m k of Some t \<Rightarrow> Some t | None \<Rightarrow> if k \<in> set ids then Some now else None)"
  by (induction ids arbitrary: m) (auto simp: hm_contains_iff split: option.split)

lemma finalized_db_spent:
  "hm_get (db_token_spent_outputs (finalized_db now rid db)) k =
     (case hm_get (db_token_spent_outputs db) k of Some t \<Rightarrow> Some t | None \<Rightarrow> if k \<in> set (outputs_of_reservation db rid) then Some now else None)"
  by (simp add: finalized_db_def delete_token_reservations_def delete_token_outputs_def mark_spent_def mark_get)

lemma outputs_of_reservation_iff:
  "token_db_inv db \<Longrightarrow> k \<in> set (outputs_of_reservation db rid) \<longleftrightarrow> (\<exists>r. hm_get (db_token_outputs db) k = Some r \<and> tor_reservation_id r = Some rid)"
proof -
  assume inv: "token_db_inv db"
  have "k \<in> set (outputs_of_reservation db rid) \<longleftrightarrow> (\<exists>r. (k, r) \<in> set (db_token_outputs db) \<and> tor_reservation_id r = Some rid)"
    by (auto simp: outputs_of_reservation_def) force
  then show ?thesis using inv hm_in_set [of "db_token_outputs db"] by (simp add: token_db_inv_def)
qed

text \<open>Both stores mark the outputs as spent; the database keeps a mark that is there already.\<close>

lemma finalize_match:
  assumes "token_stores_match st db" and "token_db_inv db" and "token_inv st" and "hm_get (tk_reservations st) rid = Some e"
    and "\<forall>s \<in> set (stored_outputs e). hm_get (spent_output_ids st) (stored_output_id s) = None"
  shows "token_stores_match (token_finalize_reservation now st rid)
    (let db' = finalized_db now rid db in delete_orphaned_metadata (if te_purpose e = TokenSwap then db'\<lparr>db_swap_completed_at := Some now\<rparr> else db'))"
    (is "token_stores_match ?st (let db' = ?db in delete_orphaned_metadata (if ?swap then db'\<lparr>db_swap_completed_at := Some now\<rparr> else db'))")
proof -
  note rr = reservation_rows [OF assms(1,2,4)]
  define db' where "db' = (if ?swap then ?db\<lparr>db_swap_completed_at := Some now\<rparr> else ?db)"
  have rows: "db_token_outputs (delete_orphaned_metadata db') = db_token_outputs ?db"
    "db_token_reservations (delete_orphaned_metadata db') = db_token_reservations ?db"
    "db_token_spent_outputs (delete_orphaned_metadata db') = db_token_spent_outputs ?db" by (simp_all add: delete_orphaned_metadata_def db'_def)
  have "token_stores_match ?st (delete_orphaned_metadata db')"
    unfolding token_stores_match_def
  proof (intro conjI allI impI)
    have "pool_rows (delete_orphaned_metadata db') = pool_rows db"
      by (auto simp: fun_eq_iff pool_rows_def rows finalized_db_get [OF assms(2)] split: option.split)
    moreover have "pool_view ?st = pool_view st"
      by (simp add: fun_eq_iff pool_view_def token_finalize_pool)
    ultimately show "pool_view ?st = pool_rows (delete_orphaned_metadata db')" using assms(1) by (simp add: token_stores_match_def)
    show "reservation_match (delete_orphaned_metadata db') j (hm_get (tk_reservations ?st) j)" for j
    proof (cases "j = rid")
      case True
      with assms(2) show ?thesis by (simp add: token_finalize_reservations reservation_match_def rows hm_get_retain token_db_inv_def split: option.split)
    next
      case False
      have "reserved_rows (delete_orphaned_metadata db') j = reserved_rows db j"
      proof -
        have "hm_get (db_token_outputs ?db) k = Some r \<and> tor_reservation_id r = Some j
            \<longleftrightarrow> hm_get (db_token_outputs db) k = Some r \<and> tor_reservation_id r = Some j" for k r
          using False by (cases "hm_get (db_token_outputs db) k") (auto simp: finalized_db_get [OF assms(2)])
        then show ?thesis unfolding reserved_rows_def rows by simp
      qed
      moreover have "hm_get (db_token_reservations (delete_orphaned_metadata db')) j = hm_get (db_token_reservations db) j"
        using False assms(2) by (simp add: rows hm_get_retain token_db_inv_def split: option.split)
      ultimately show ?thesis using match_reservation [OF assms(1), of j] False
        by (simp add: reservation_match_cong [of "delete_orphaned_metadata db'" j db] token_finalize_reservations)
    qed
    show "hm_get (spent_output_ids ?st) = hm_get (db_token_spent_outputs (delete_orphaned_metadata db'))"
    proof
      fix k
      have same: "hm_get (spent_output_ids st) k = hm_get (db_token_spent_outputs db) k" using assms(1) by (simp add: token_stores_match_def)
      have ids: "k \<in> set (outputs_of_reservation db rid) \<longleftrightarrow> k \<in> stored_output_id ` set (stored_outputs e)"
        unfolding outputs_of_reservation_iff [OF assms(2)] image_iff using rr(1) [of k] rr(2) by metis
      have mem: "hm_get (spent_output_ids ?st) k = hm_get (hm_insert_all stored_output_id (\<lambda>_. now) (stored_outputs e) (spent_output_ids st)) k"
        by (simp add: token_finalize_reservation_def assms(4))
      show "hm_get (spent_output_ids ?st) k = hm_get (db_token_spent_outputs (delete_orphaned_metadata db')) k"
      proof (cases "k \<in> stored_output_id ` set (stored_outputs e)")
        case True
        then obtain s where "s \<in> set (stored_outputs e)" "hm_get (hm_insert_all stored_output_id (\<lambda>_. now) (stored_outputs e) (spent_output_ids st)) k = Some now"
          using hm_get_insert_all_in [of k stored_output_id "stored_outputs e" "\<lambda>_. now" "spent_output_ids st"] by blast
        with True ids same assms(5) show ?thesis by (auto simp: mem rows finalized_db_spent split: option.split)
      next
        case False
        with ids same show ?thesis by (simp add: mem rows finalized_db_spent hm_get_insert_all_notin split: option.split)
      qed
    qed
    show "tk_last_swap_completed_at ?st = db_swap_completed_at (delete_orphaned_metadata db')"
      using assms(1,4) by (simp add: token_stores_match_def token_finalize_reservation_def delete_orphaned_metadata_def db'_def)
    show "\<exists>b. hm_get (available_token_outputs ?st) t = Some b \<and> ato_metadata b = md"
      if "hm_get (db_token_metadata (delete_orphaned_metadata db')) t = Some md" for t md
    proof -
      have ok: "hm_ok (db_token_metadata db)" using assms(2) by (simp add: token_db_inv_def)
      have "hm_get (db_token_metadata db) t = Some md"
        using that ok by (simp add: delete_orphaned_metadata_def db'_def hm_get_retain split: option.splits if_splits)
      with assms(1) show ?thesis unfolding token_stores_match_def token_finalize_pool by blast
    qed
  qed
  then show ?thesis by (simp add: Let_def db'_def)
qed

subsection \<open>Simulation\<close>

definition db_command :: "system_time \<Rightarrow> TokenCommand \<Rightarrow> TokenDb \<Rightarrow> TokenDb" where
  "db_command now c db =
     (case c of
        SetTokensOutputs ts started \<Rightarrow> fst (pg_set_tokens_outputs now ts started db)
      | InsertTokenOutputs t \<Rightarrow> fst (pg_insert_token_outputs now t db)
      | ReserveTokenOutputs i tid target purpose preferred strategy \<Rightarrow>
          fst (pg_reserve_token_outputs i tid target purpose preferred strategy db)
      | TokenCancel i \<Rightarrow> fst (pg_token_cancel_reservation i db)
      | TokenFinalize i \<Rightarrow> fst (pg_token_finalize_reservation now i db))"

text \<open>When the two stores are compared: a reservation is for a token that the database knows, both stores list its outputs in
  the same order, and an output is marked as spent once.\<close>

fun comparable :: "TokenCommand \<Rightarrow> TokenOutputsState \<Rightarrow> TokenDb \<Rightarrow> bool" where
  "comparable (SetTokensOutputs ts started) st db \<longleftrightarrow> False"
| "comparable (InsertTokenOutputs t) st db \<longleftrightarrow> insertable t st db"
| "comparable (ReserveTokenOutputs i tid target purpose preferred strategy) st db \<longleftrightarrow>
     hm_get (tk_reservations st) i = None \<and> hm_contains (db_token_metadata db) tid \<and> available_rows tid db = available_outputs_for tid st"
| "comparable (TokenCancel i) st db \<longleftrightarrow> True"
| "comparable (TokenFinalize i) st db \<longleftrightarrow>
     (\<forall>e. hm_get (tk_reservations st) i = Some e \<longrightarrow> (\<forall>s \<in> set (stored_outputs e). hm_get (spent_output_ids st) (stored_output_id s) = None))"

lemma available_rows_conn [simp]: "available_rows tid (db\<lparr>db_connections := cs\<rparr>) = available_rows tid db"
  by (simp add: available_rows_def)

lemma reserve_agrees:
  assumes "token_stores_match st db" and "token_db_inv db" and "token_inv st" and "db_connections db = []"
    and "hm_get (tk_reservations st) i = None" and "hm_contains (db_token_metadata db) tid" and "available_rows tid db = available_outputs_for tid st"
    and "reserve_token_outputs i st tid target purpose preferred strategy = (st', r)"
    and "pg_reserve_token_outputs i tid target purpose preferred strategy db = (db', r')"
  shows "r' = r \<and> token_stores_match st' db'"
proof -
  obtain md where md: "hm_get (db_token_metadata db) tid = Some md" using assms(6) by (auto simp: hm_contains_iff)
  with assms(1) obtain a where a: "hm_get (available_token_outputs st) tid = Some a" "ato_metadata a = md" unfolding token_stores_match_def by blast
  have rows: "preferred_rows preferred (available_rows tid db) = candidate_outputs preferred a"
    using assms(7) a(1) preferred_same by (simp add: available_outputs_for_def)
  have none: "hm_get (db_token_reservations db) i = None" using match_reservation [OF assms(1), of i] assms(5) by (simp add: reservation_match_def)
  have conn: "db\<lparr>db_connections := []\<rparr> = db" using assms(4) by simp
  show ?thesis
  proof (cases "target_is_zero target")
    case (Some e)
    with assms(1,8,9) show ?thesis by (auto simp: reserve_token_outputs_def pg_reserve_token_outputs_def)
  next
    case z: None
    show ?thesis
    proof (cases "select_outputs target strategy (candidate_outputs preferred a)")
      case (Inl e)
      with z assms(1,4,8,9) md a rows conn show ?thesis
        by (auto simp: reserve_token_outputs_def pg_reserve_token_outputs_def token_transaction_on_def ok_or_def)
    next
      case (Inr sel)
      have sub: "set sel \<subseteq> set (output_vec a)"
        using set_mset_mono [OF subset_mset.order_trans [OF select_outputs_submset [OF Inr] candidate_outputs_submset]] by simp
      have "r' = r \<and> db' = reserved_db i purpose (output_id ` set sel) db
          \<and> st' = st\<lparr>available_token_outputs := hm_insert tid (a\<lparr>ato_outputs := hm_retain (\<lambda>k _. k \<notin> output_id ` set sel) (ato_outputs a)\<rparr>)
                 (available_token_outputs st),
               tk_reservations := hm_insert i \<lparr>te_metadata = ato_metadata a,
                 stored_outputs = List.map_filter (\<lambda>w. hm_get (ato_outputs a) (output_id w)) sel, te_purpose = purpose\<rparr> (tk_reservations st)\<rparr>"
        using z Inr assms(4,8,9) md a rows conn none
        by (auto simp: reserve_token_outputs_def pg_reserve_token_outputs_def token_transaction_on_def ok_or_def hm_contains_iff reserved_db_def Let_def)
      with reserve_match [OF assms(1-3,5) md a(1) sub, of purpose] show ?thesis by simp
    qed
  qed
qed

lemma connected:
  assumes "db_connections db = []"
  shows "token_transaction_on f db = (case f db of Err e \<Rightarrow> (db, Err e) | Ok (db2, x) \<Rightarrow> (db2, Ok x))"
proof -
  from assms have same: "db\<lparr>db_connections := tl (db_connections db)\<rparr> = db" by (cases db) simp
  show ?thesis unfolding token_transaction_on_def Let_def same using assms by simp
qed

lemma in_connected: "db_connections db = [] \<Longrightarrow> f db = Ok (db', x) \<Longrightarrow> token_transaction_on f db = (db', Ok x)"
  by (simp add: connected)

lemma purpose_str_swap: "purpose_str p = ''Swap'' \<longleftrightarrow> p = TokenSwap"
  by (cases p) (simp_all add: purpose_str_def)

lemma finalize_command:
  assumes "db_connections db = []" and "hm_get (db_token_reservations db) rid = Some (purpose_str p)"
  shows "pg_token_finalize_reservation now rid db =
    (let db' = finalized_db now rid db in delete_orphaned_metadata (if p = TokenSwap then db'\<lparr>db_swap_completed_at := Some now\<rparr> else db'), Ok ())"
  using assms unfolding pg_token_finalize_reservation_def
  by (intro in_connected) (simp_all add: finalized_db_def Let_def purpose_str_swap)



section \<open>Where the stores differ\<close>

lemma row_in_values: "hm_get m k = Some v \<Longrightarrow> v \<in> set (hm_values m)"
  by (auto simp: hm_values_def hm_get_def dest!: map_of_SomeD) force

lemma joined_row:
  assumes "hm_get (db_token_outputs db) k = Some r" and "hm_get (db_token_metadata db) i = Some md" and "matches_filter flt md"
    and "tor_token_identifier r = tm_identifier md"
  shows "(md, Some r) \<in> set (joined_rows db flt)"
proof -
  let ?rows = "filter (\<lambda>r. tor_token_identifier r = tm_identifier md) (hm_values (db_token_outputs db))"
  have "r \<in> set ?rows" using row_in_values [OF assms(1)] assms(4) by simp
  then have row: "(md, Some r) \<in> set (case ?rows of [] \<Rightarrow> [(md, None)] | rows \<Rightarrow> map (\<lambda>r. (md, Some r)) rows)"
    by (cases ?rows) auto
  have "md \<in> set (filter (matches_filter flt) (hm_values (db_token_metadata db)))" using row_in_values [OF assms(2)] assms(3) by simp
  then show ?thesis unfolding joined_rows_def set_sort set_concat set_map image_image by (rule UN_I) (rule row)
qed

lemma rows_per_status_all:
  "w \<in> set (tps_available (rows_per_status db md rows)) \<union> set (tps_reserved_for_payment (rows_per_status db md rows))
     \<union> set (tps_reserved_for_swap (rows_per_status db md rows)) \<longleftrightarrow> w \<in> output_from_row ` set rows"
  by (auto simp: rows_per_status_def Let_def)

text \<open>Asked for the tokens of an issuer, the database store puts the outputs of all of them under the description of one: every
  output of every token of that issuer is in the answer, whatever the token it is returned for. The in-memory store
  answers with the outputs of one token.\<close>

theorem issuer_query_mixes_tokens:
  assumes "token_db_inv db" and "pg_get_token_outputs (IssuerPublicKey pk) db = (db', Ok t)" and "hm_get (db_token_outputs db) k = Some r"
    and "hm_get (db_token_metadata db) (tor_token_identifier r) = Some md" and "issuer_public_key md = pk"
  shows "output_from_row r \<in> set (tps_available t) \<union> set (tps_reserved_for_payment t) \<union> set (tps_reserved_for_swap t)"
proof -
  let ?db = "db\<lparr>db_connections := tl (db_connections db)\<rparr>"
  have joined: "joined_rows ?db flt = joined_rows db flt" for flt by (simp add: joined_rows_def)
  have "tm_identifier md = tor_token_identifier r" using assms(1,4) by (simp add: token_db_inv_def)
  then have row: "(md, Some r) \<in> set (joined_rows db (IssuerPublicKey pk))"
    using joined_row [OF assms(3,4)] assms(5) by (simp add: matches_filter_def)
  from assms(2) [unfolded pg_get_token_outputs_def] obtain md' r' rest where
    j: "joined_rows db (IssuerPublicKey pk) = (md', r') # rest" "t = rows_per_status ?db md' (List.map_filter snd ((md', r') # rest))"
    by (cases rule: token_transaction_cases) (auto simp: joined split: list.splits)
  have "r \<in> set (List.map_filter snd ((md', r') # rest))" using row unfolding j(1) by (force simp: List.map_filter_def)
  then show ?thesis unfolding j(2) rows_per_status_all by (rule imageI)
qed

text \<open>Finalizing a reservation makes the database store forget every token without outputs: a query for such a token then
  fails, where the in-memory store answers with a balance of zero.\<close>

theorem finalize_forgets_empty_tokens:
  assumes "token_db_inv db" and "db_connections db = []" and "hm_get (db_token_reservations db) rid = Some (purpose_str p)"
    and "\<forall>k r. hm_get (db_token_outputs db) k = Some r \<and> tor_token_identifier r = tid \<longrightarrow> tor_reservation_id r = Some rid"
    and "pg_token_finalize_reservation now rid db = (db', x)" and "hm_contains (available_token_outputs st) tid"
  shows "snd (pg_get_token_outputs (Identifier tid) db') = Err (TkGeneric ''Token outputs not found'')
     \<and> is_ok (get_token_outputs (Identifier tid) (token_finalize_reservation now st rid))"
proof
  have gone: "tor_token_identifier r \<noteq> tid" if "hm_get (db_token_outputs (finalized_db now rid db)) k = Some r" for k r
    using that assms(4) by (auto simp: finalized_db_get [OF assms(1)] split: option.splits if_splits)
  have ok: "token_db_inv (finalized_db now rid db)" using assms(1) by (simp add: finalized_db_def)
  have no_row: "tor_token_identifier r \<noteq> tid" if r: "r \<in> set (hm_values (db_token_outputs (finalized_db now rid db)))" for r
  proof -
    obtain k where "(k, r) \<in> set (db_token_outputs (finalized_db now rid db))" using r by (auto simp: hm_values_def)
    with ok have "hm_get (db_token_outputs (finalized_db now rid db)) k = Some r" by (simp add: hm_in_set token_db_inv_def)
    then show ?thesis by (rule gone)
  qed
  have db': "db' = delete_orphaned_metadata (if p = TokenSwap then (finalized_db now rid db)\<lparr>db_swap_completed_at := Some now\<rparr> else finalized_db now rid db)"
    using finalize_command [OF assms(2,3), of now] assms(5) by (simp add: Let_def)
  have "token_db_inv db'" unfolding db' using ok by simp
  moreover have "hm_get (db_token_metadata db') tid = None"
    using no_row ok by (auto simp: db' delete_orphaned_metadata_def hm_get_retain token_db_inv_def list_ex_iff split: option.split)
  ultimately have "filter (matches_filter (Identifier tid)) (hm_values (db_token_metadata db')) = []"
    by (auto simp: filter_empty_conv matches_filter_def hm_values_def token_db_inv_def hm_in_set)
  then have "joined_rows db' (Identifier tid) = []" by (simp add: joined_rows_def)
  moreover have "db_connections db' = []"
    using assms(2) by (simp add: db' delete_orphaned_metadata_def finalized_db_def delete_token_reservations_def delete_token_outputs_def mark_spent_def)
  ultimately show "snd (pg_get_token_outputs (Identifier tid) db') = Err (TkGeneric ''Token outputs not found'')"
    by (simp add: pg_get_token_outputs_def connected)
  show "is_ok (get_token_outputs (Identifier tid) (token_finalize_reservation now st rid))"
    using assms(6) by (auto simp: get_token_outputs_def find_token_def token_finalize_pool hm_contains_iff)
qed

end
