(* ===== verification/Byte_Codecs.thy ===== *)
theory Byte_Codecs
  imports Prelude "HOL-Library.List_Lexorder"
begin

text \<open>
  Byte encodings: \<open>crates/spark/src/utils/byte_padding.rs\<close>, \<open>crates/spark/src/utils/tagged_hasher.rs\<close> and
  \<open>crates/breez-sdk/common/src/utils/zbase32.rs\<close>. A byte is an 8-bit word, a string is the list of its UTF-8 bytes as
  characters, SHA-256 is an argument.

  Numbers without padding are read back as they were and have no superfluous byte; the z-base-32 encoder, which shifts
  bytes through a 16-bit buffer, agrees with the division of the bit string into groups of five and loses nothing; the
  values that go into a tagged hash can be read back from the message, so different values give different messages.
\<close>

unbundle bit_operations_syntax

type_synonym u8 = "8 word"

section \<open>Integers as bytes\<close>

definition to_le_bytes :: "nat \<Rightarrow> nat \<Rightarrow> u8 list" where
  "to_le_bytes k n = map (\<lambda>i. word_of_nat (n div 256 ^ i)) [0..<k]"

definition to_be_bytes :: "nat \<Rightarrow> nat \<Rightarrow> u8 list" where
  "to_be_bytes k n = rev (to_le_bytes k n)"

fun from_le_bytes :: "u8 list \<Rightarrow> nat" where
  "from_le_bytes [] = 0"
| "from_le_bytes (b # bs) = unat b + 256 * from_le_bytes bs"

definition from_be_bytes :: "u8 list \<Rightarrow> nat" where
  "from_be_bytes bs = from_le_bytes (rev bs)"

definition as_bytes :: "string \<Rightarrow> u8 list" where
  "as_bytes s = map of_char s"

fun position :: "('a \<Rightarrow> bool) \<Rightarrow> 'a list \<Rightarrow> nat option" where
  "position P [] = None"
| "position P (x # xs) = (if P x then Some 0 else map_option Suc (position P xs))"

definition rposition :: "('a \<Rightarrow> bool) \<Rightarrow> 'a list \<Rightarrow> nat option" where
  "rposition P xs = map_option (\<lambda>i. length xs - 1 - i) (position P (rev xs))"

definition to_unpadded_be_bytes :: "u128 \<Rightarrow> u8 list" where
  "to_unpadded_be_bytes n =
     (if n = 0 then [0]
      else let bytes = to_be_bytes 16 n; first_non_zero = unwrap_or (position (\<lambda>b. b \<noteq> 0) bytes) (length bytes)
           in drop first_non_zero bytes)"

definition to_unpadded_le_bytes :: "u128 \<Rightarrow> u8 list" where
  "to_unpadded_le_bytes n =
     (if n = 0 then [0]
      else let bytes = to_le_bytes 16 n; last_non_zero = unwrap_or (map_option Suc (rposition (\<lambda>b. b \<noteq> 0) bytes)) 0
           in take last_non_zero bytes)"

definition from_unpadded_be_bytes :: "u8 list \<Rightarrow> string + u128" where
  "from_unpadded_be_bytes bytes =
     (if 16 < length bytes then Err ''Input bytes exceed u128 size''
      else let len = min (length bytes) 16 in Ok (from_be_bytes (replicate (16 - len) 0 @ take len bytes)))"

definition from_unpadded_le_bytes :: "u8 list \<Rightarrow> string + u128" where
  "from_unpadded_le_bytes bytes =
     (if 16 < length bytes then Err ''Input bytes exceed u128 size''
      else let len = min (length bytes) 16 in Ok (from_le_bytes (take len bytes @ replicate (16 - len) 0)))"

section \<open>z-base-32\<close>

definition ZBASE32_ALPHABET :: string where
  "ZBASE32_ALPHABET = ''ybndrfg8ejkmcpqxot1uwisza345h769''"

text \<open>The inner loop, which takes groups of five bits from the buffer, and the loop over the bytes.\<close>

fun zbase32_groups :: "16 word \<Rightarrow> nat \<Rightarrow> string \<Rightarrow> nat \<times> string" where
  "zbase32_groups buffer bits_in_buffer result =
     (if 5 \<le> bits_in_buffer
      then let bits = bits_in_buffer - 5
           in zbase32_groups buffer bits (result @ [ZBASE32_ALPHABET ! unat (drop_bit bits buffer AND 0x1F)])
      else (bits_in_buffer, result))"

declare zbase32_groups.simps [simp del]

fun zbase32_bytes :: "u8 list \<Rightarrow> 16 word \<Rightarrow> nat \<Rightarrow> string \<Rightarrow> 16 word \<times> nat \<times> string" where
  "zbase32_bytes [] buffer bits result = (buffer, bits, result)"
| "zbase32_bytes (byte # data) buffer bits result =
     (let buffer' = push_bit 8 buffer OR ucast byte
      in case zbase32_groups buffer' (bits + 8) result of (bits', result') \<Rightarrow> zbase32_bytes data buffer' bits' result')"

definition encode_zbase32 :: "u8 list \<Rightarrow> string" where
  "encode_zbase32 data =
     (if data = [] then []
      else case zbase32_bytes data 0 0 [] of (buffer, bits, result) \<Rightarrow>
        if 0 < bits then result @ [ZBASE32_ALPHABET ! unat (push_bit (5 - bits) buffer AND 0x1F)] else result)"

section \<open>Tagged hashes\<close>

record TaggedHasher =
  tag_hash :: "u8 list"
  th_values :: "u8 list"

definition length_prefixed :: "u8 list \<Rightarrow> u8 list" where
  "length_prefixed bytes = to_be_bytes 8 (length bytes mod 2 ^ 64) @ bytes"

definition compute_tag_hash :: "(u8 list \<Rightarrow> u8 list) \<Rightarrow> string list \<Rightarrow> u8 list" where
  "compute_tag_hash sha256 tag = sha256 (concat (map (\<lambda>component. length_prefixed (as_bytes component)) tag))"

definition new_tagged_hasher :: "(u8 list \<Rightarrow> u8 list) \<Rightarrow> string list \<Rightarrow> TaggedHasher" where
  "new_tagged_hasher sha256 tag = \<lparr>tag_hash = compute_tag_hash sha256 tag, th_values = []\<rparr>"

definition write_length_prefixed :: "u8 list \<Rightarrow> TaggedHasher \<Rightarrow> TaggedHasher" where
  "write_length_prefixed bytes h = h\<lparr>th_values := th_values h @ length_prefixed bytes\<rparr>"

definition add_bytes :: "TaggedHasher \<Rightarrow> u8 list \<Rightarrow> TaggedHasher" where
  "add_bytes h bytes = write_length_prefixed bytes h"

definition add_string :: "TaggedHasher \<Rightarrow> string \<Rightarrow> TaggedHasher" where
  "add_string h s = write_length_prefixed (as_bytes s) h"

definition add_u64 :: "TaggedHasher \<Rightarrow> u64 \<Rightarrow> TaggedHasher" where
  "add_u64 h n = write_length_prefixed (to_be_bytes 8 n) h"

definition add_map_string_to_bytes :: "TaggedHasher \<Rightarrow> (string \<times> u8 list) list \<Rightarrow> TaggedHasher" where
  "add_map_string_to_bytes h m =
     foldl (\<lambda>h (key, bytes). add_bytes (add_string h key) bytes) (add_u64 h (length m mod 2 ^ 64))
       (sort_key (\<lambda>(key, _). map unat (as_bytes key)) m)"

definition signable_message :: "TaggedHasher \<Rightarrow> u8 list" where
  "signable_message h = tag_hash h @ tag_hash h @ th_values h"

definition hash_tagged :: "(u8 list \<Rightarrow> u8 list) \<Rightarrow> TaggedHasher \<Rightarrow> u8 list" where
  "hash_tagged sha256 h = sha256 (signable_message h)"

section \<open>Integers are read back\<close>

lemma length_le_bytes [simp]: "length (to_le_bytes k n) = k" "length (to_be_bytes k n) = k"
  by (simp_all add: to_le_bytes_def to_be_bytes_def)

lemma to_le_bytes_Suc: "to_le_bytes (Suc k) n = word_of_nat n # to_le_bytes k (n div 256)"
proof -
  have "[0..<Suc k] = 0 # map Suc [0..<k]" by (simp add: upt_conv_Cons map_Suc_upt)
  then show ?thesis by (simp add: to_le_bytes_def div_mult2_eq)
qed

lemma le_bytes_inverse [simp]: "from_le_bytes (to_le_bytes k n) = n mod 256 ^ k"
proof (induction k arbitrary: n)
  case (Suc k)
  have "unat (word_of_nat n :: u8) = n mod 256" by (simp add: unat_of_nat take_bit_eq_mod)
  then show ?case by (simp add: to_le_bytes_Suc Suc mod_mult2_eq)
qed (simp add: to_le_bytes_def)

lemma be_bytes_inverse [simp]: "from_be_bytes (to_be_bytes k n) = n mod 256 ^ k"
  by (simp add: from_be_bytes_def to_be_bytes_def)

lemma to_be_bytes_inj: "m < 256 ^ k \<Longrightarrow> n < 256 ^ k \<Longrightarrow> to_be_bytes k m = to_be_bytes k n \<longleftrightarrow> m = n"
  by (metis be_bytes_inverse mod_less)

lemma from_le_bytes_append: "from_le_bytes (xs @ ys) = from_le_bytes xs + 256 ^ length xs * from_le_bytes ys"
  by (induction xs) (simp_all add: algebra_simps)

lemma from_le_zeros [simp]: "from_le_bytes (replicate k 0) = 0"
  by (induction k) simp_all

lemma drop_position: "drop (unwrap_or (position P xs) (length xs)) xs = dropWhile (\<lambda>x. \<not> P x) xs"
proof (induction xs)
  case (Cons x xs)
  then show ?case by (cases "position P xs") simp_all
qed simp

lemma position_less: "position P xs = Some i \<Longrightarrow> i < length xs"
  by (induction xs arbitrary: i) (auto split: if_splits)

lemma take_rposition:
  "take (unwrap_or (map_option Suc (rposition P xs)) 0) xs = rev (dropWhile (\<lambda>x. \<not> P x) (rev xs))"
proof (cases "position P (rev xs)")
  case None
  then show ?thesis using drop_position [of P "rev xs"] by (simp add: rposition_def)
next
  case (Some i)
  with position_less [OF Some] drop_position [of P "rev xs"] show ?thesis
    by (simp add: rposition_def drop_rev flip: rev_swap) (simp add: Suc_diff_Suc rev_swap)
qed

lemma from_le_dropWhile: "from_le_bytes (rev (dropWhile (\<lambda>b. b = 0) bs)) = from_le_bytes (rev bs)"
  by (induction bs) (simp_all add: from_le_bytes_append)

lemma unpadded_be: "0 < n \<Longrightarrow> to_unpadded_be_bytes n = dropWhile (\<lambda>b. b = 0) (to_be_bytes 16 n)"
  using drop_position [of "\<lambda>b. b \<noteq> 0" "to_be_bytes 16 n"] by (simp add: to_unpadded_be_bytes_def Let_def)

lemma unpadded_le: "to_unpadded_le_bytes n = rev (to_unpadded_be_bytes n)"
  using take_rposition [of "\<lambda>b. b \<noteq> 0" "to_le_bytes 16 n"] unpadded_be [of n]
  by (cases "n = 0") (simp_all add: to_unpadded_le_bytes_def to_unpadded_be_bytes_def Let_def to_be_bytes_def)

lemma unpadded_value:
  assumes "n < 2 ^ 128"
  shows "from_be_bytes (to_unpadded_be_bytes n) = n" and "length (to_unpadded_be_bytes n) \<le> 16"
proof -
  have "(256 :: nat) ^ 16 = 2 ^ 128" by simp
  then have "n mod 256 ^ 16 = n" using assms by simp
  then show "from_be_bytes (to_unpadded_be_bytes n) = n"
    by (cases "n = 0") (simp add: to_unpadded_be_bytes_def from_be_bytes_def,
      simp add: unpadded_be from_be_bytes_def from_le_dropWhile to_be_bytes_def)
  show "length (to_unpadded_be_bytes n) \<le> 16"
    using length_dropWhile_le [of "\<lambda>b. b = 0" "to_be_bytes 16 n"]
    by (cases "n = 0") (simp_all add: unpadded_be, simp add: to_unpadded_be_bytes_def)
qed

lemma from_le_bytes_less: "from_le_bytes bs < 256 ^ length bs"
proof (induction bs)
  case (Cons b bs)
  have "unat b < 256" using unsigned_less [of b] by simp
  with Cons show ?case by simp
qed simp

lemma from_unpadded_be: "length bs \<le> 16 \<Longrightarrow> from_unpadded_be_bytes bs = Ok (from_be_bytes bs)"
  by (simp add: from_unpadded_be_bytes_def Let_def from_be_bytes_def from_le_bytes_append)

lemma from_unpadded_le: "length bs \<le> 16 \<Longrightarrow> from_unpadded_le_bytes bs = Ok (from_le_bytes bs)"
  by (simp add: from_unpadded_le_bytes_def Let_def from_le_bytes_append)

lemma unpadded_ge:
  assumes "0 < n" and "n < 2 ^ 128"
  shows "256 ^ (length (to_unpadded_be_bytes n) - 1) \<le> n"
proof -
  let ?bs = "to_unpadded_be_bytes n"
  have "?bs \<noteq> []" using unpadded_value(1) [OF assms(2)] assms(1) by (auto simp: from_be_bytes_def)
  then have "hd ?bs \<noteq> 0" using hd_dropWhile unfolding unpadded_be [OF assms(1)] by blast
  with \<open>?bs \<noteq> []\<close> obtain b cs where b: "?bs = b # cs" "b \<noteq> 0" by (cases ?bs) auto
  have "256 ^ length cs * 1 \<le> 256 ^ length cs * unat b" using b(2) by (intro mult_le_mono2) (simp add: Suc_le_eq unat_gt_0)
  also have "\<dots> \<le> from_be_bytes ?bs" unfolding b by (simp add: from_be_bytes_def from_le_bytes_append)
  finally show ?thesis using unpadded_value(1) [OF assms(2)] b by simp
qed

text \<open>Numbers written without padding are read back, in either byte order, and no shorter list of bytes stands for
  the number.\<close>

theorem unpadded_bytes_round_trip:
  assumes "n < 2 ^ 128"
  shows "from_unpadded_be_bytes (to_unpadded_be_bytes n) = Ok n \<and> from_unpadded_le_bytes (to_unpadded_le_bytes n) = Ok n
    \<and> (\<forall>bs. bs \<noteq> [] \<and> from_unpadded_be_bytes bs = Ok n \<longrightarrow> length (to_unpadded_be_bytes n) \<le> length bs)"
proof (intro conjI allI impI)
  show "from_unpadded_be_bytes (to_unpadded_be_bytes n) = Ok n" "from_unpadded_le_bytes (to_unpadded_le_bytes n) = Ok n"
    using unpadded_value [OF assms] by (simp_all add: from_unpadded_be from_unpadded_le unpadded_le from_be_bytes_def)
next
  fix bs assume bs: "bs \<noteq> [] \<and> from_unpadded_be_bytes bs = Ok n"
  show "length (to_unpadded_be_bytes n) \<le> length bs"
  proof (cases "n = 0")
    case True
    with bs show ?thesis by (cases bs) (simp_all add: to_unpadded_be_bytes_def)
  next
    case False
    have "length bs \<le> 16" using bs by (auto simp: from_unpadded_be_bytes_def split: if_splits)
    then have "n < 256 ^ length bs"
      using bs from_le_bytes_less [of "rev bs"] by (simp add: from_unpadded_be from_be_bytes_def)
    with unpadded_ge [OF _ assms] False have "(256 :: nat) ^ (length (to_unpadded_be_bytes n) - 1) < 256 ^ length bs" by linarith
    then have "length (to_unpadded_be_bytes n) - 1 < length bs" by (rule power_less_imp_less_exp [rotated]) simp
    then show ?thesis by simp
  qed
qed

theorem unpadded_bytes_round_trip_witness:
  "from_unpadded_be_bytes (to_unpadded_be_bytes 16909060) = Ok 16909060 \<and> length (to_unpadded_be_bytes 256) \<le> length [1 :: u8, 0]"
proof -
  have "from_unpadded_be_bytes [1, 0] = Ok 256" by (simp add: from_unpadded_be from_be_bytes_def)
  then show ?thesis
    using unpadded_bytes_round_trip [of 16909060] unpadded_bytes_round_trip [of 256, THEN conjunct2, THEN conjunct2, rule_format, of "[1, 0]"]
    by simp
qed

section \<open>z-base-32 by groups of bits\<close>

text \<open>The specification: the bits of the bytes, most significant first, in groups of five, the last one filled up with zeros.\<close>

definition low_bits :: "nat \<Rightarrow> 'a::len word \<Rightarrow> bool list" where
  "low_bits n x = map (bit x) (rev [0..<n])"

definition bits_of :: "u8 list \<Rightarrow> bool list" where
  "bits_of data = concat (map (low_bits 8) data)"

definition bits_value :: "bool list \<Rightarrow> nat" where
  "bits_value bs = foldl (\<lambda>a b. 2 * a + of_bool b) 0 bs"

definition group_char :: "bool list \<Rightarrow> char" where
  "group_char g = ZBASE32_ALPHABET ! bits_value g"

fun group_bits :: "bool list \<Rightarrow> string" where
  "group_bits bs =
     (if bs = [] then []
      else if length bs \<le> 5 then [group_char (bs @ replicate (5 - length bs) False)]
      else group_char (take 5 bs) # group_bits (drop 5 bs))"

declare group_bits.simps [simp del]

lemma length_low_bits [simp]: "length (low_bits n x) = n"
  by (simp add: low_bits_def)

lemma bits_value_snoc: "bits_value (bs @ [b]) = 2 * bits_value bs + of_bool b"
  by (simp add: bits_value_def)

lemma bits_value_Cons: "bits_value (b # bs) = of_bool b * 2 ^ length bs + bits_value bs"
proof (induction bs rule: rev_induct)
  case (snoc x xs)
  then show ?case using bits_value_snoc [of "b # xs" x] by (simp add: bits_value_snoc)
qed (simp add: bits_value_def)

lemma low_bits_Suc: "low_bits (Suc n) x = bit x n # low_bits n x"
  by (simp add: low_bits_def)

lemma bits_value_low: "bits_value (low_bits n x) = unat (take_bit n x)"
proof (induction n)
  case (Suc n)
  have "unat (take_bit (Suc n) x) = take_bit (Suc n) (unat x)" by (simp add: unsigned_take_bit_eq)
  also have "\<dots> = 2 ^ n * of_bool (bit (unat x) n) + take_bit n (unat x)" by (simp add: take_bit_Suc_from_most)
  also have "bit (unat x) n = bit x n" by (auto simp: bit_unsigned_iff bit_imp_le_length)
  finally show ?case using Suc by (simp add: low_bits_Suc bits_value_Cons unsigned_take_bit_eq)
qed (simp add: low_bits_def bits_value_def)

text \<open>The five bits that a step of the inner loop takes.\<close>

lemma group_index: "unat (drop_bit k x AND 0x1F) = bits_value (take 5 (low_bits (k + 5) x))" for x :: "'a::len word"
proof -
  have "take 5 (low_bits (k + 5) x) = low_bits 5 (drop_bit k x)"
    by (rule nth_equalityI) (simp_all add: low_bits_def rev_nth bit_drop_bit_eq add.commute)
  moreover have "x AND 0x1F = take_bit 5 x" for x :: "'a word"
    by (simp add: take_bit_eq_mask mask_eq_exp_minus_1)
  ultimately show ?thesis by (simp add: bits_value_low)
qed

lemma drop_low_bits: "drop k (low_bits (m + k) x) = low_bits m x"
  by (rule nth_equalityI) (simp_all add: low_bits_def rev_nth add.commute)

fun full_groups :: "bool list \<Rightarrow> string" where
  "full_groups bs = (if 5 \<le> length bs then group_char (take 5 bs) # full_groups (drop 5 bs) else [])"

declare full_groups.simps [simp del]

definition rest_bits :: "bool list \<Rightarrow> bool list" where
  "rest_bits bs = drop (length bs div 5 * 5) bs"

lemma length_rest_bits [simp]: "length (rest_bits bs) = length bs mod 5"
  by (simp add: rest_bits_def minus_div_mult_eq_mod)

lemma rest_bits_step: "5 \<le> length bs \<Longrightarrow> rest_bits (drop 5 bs) = rest_bits bs"
  by (simp add: rest_bits_def) (metis (no_types, lifting) add.commute add_diff_inverse_nat div_add_self2 linorder_not_less
      mult_Suc numeral_eq_Suc plus_1_eq_Suc zero_neq_numeral)

lemma rest_bits_short: "length bs < 5 \<Longrightarrow> rest_bits bs = bs"
  by (simp add: rest_bits_def)

lemma group_bits_split:
  "group_bits bs = full_groups bs @ (if rest_bits bs = [] then [] else [group_char (rest_bits bs @ replicate (5 - length (rest_bits bs)) False)])"
proof (induction bs rule: group_bits.induct)
  case (1 bs)
  show ?case
  proof (cases "length bs < 5")
    case True
    then show ?thesis by (subst group_bits.simps) (simp add: full_groups.simps [of bs] rest_bits_short)
  next
    case False
    then have b: "bs \<noteq> []" "full_groups bs = group_char (take 5 bs) # full_groups (drop 5 bs)" "rest_bits (drop 5 bs) = rest_bits bs"
      by (auto simp: full_groups.simps [of bs] rest_bits_step)
    show ?thesis
    proof (cases "length bs = 5")
      case True
      then show ?thesis using b(1) by (subst group_bits.simps) (simp add: full_groups.simps rest_bits_def)
    next
      case longer: False
      with False 1 b show ?thesis by (subst group_bits.simps) simp
    qed
  qed
qed

lemma full_groups_append: "full_groups (xs @ ys) = full_groups xs @ full_groups (rest_bits xs @ ys)"
proof (induction xs rule: full_groups.induct)
  case (1 xs)
  show ?case
  proof (cases "5 \<le> length xs")
    case True
    then have "full_groups (xs @ ys) = group_char (take 5 xs) # full_groups (drop 5 xs @ ys)"
      by (subst full_groups.simps) simp
    with 1 [OF True] True show ?thesis by (simp add: full_groups.simps [of xs] rest_bits_step)
  qed (simp add: full_groups.simps [of xs] rest_bits_short)
qed

lemma rest_bits_append: "rest_bits (xs @ ys) = rest_bits (rest_bits xs @ ys)"
proof (induction xs rule: full_groups.induct)
  case (1 xs)
  show ?case
  proof (cases "5 \<le> length xs")
    case True
    then have "rest_bits (xs @ ys) = rest_bits (drop 5 xs @ ys)" using rest_bits_step [of "xs @ ys"] by simp
    with 1 [OF True] True show ?thesis by (simp add: rest_bits_step)
  qed (simp add: rest_bits_short)
qed

lemma zbase32_groups_spec:
  "zbase32_groups buffer bits result = (bits mod 5, result @ full_groups (low_bits bits buffer))"
proof (induction buffer bits result rule: zbase32_groups.induct)
  case (1 buffer bits result)
  show ?case
  proof (cases "5 \<le> bits")
    case True
    then obtain k where k: "bits = k + 5" using le_Suc_ex by (metis add.commute)
    have "full_groups (low_bits (k + 5) buffer) = group_char (take 5 (low_bits (k + 5) buffer)) # full_groups (low_bits k buffer)"
      by (subst full_groups.simps) (simp add: drop_low_bits)
    then show ?thesis using 1 [OF True refl] unfolding k
      by (subst zbase32_groups.simps) (simp add: group_char_def group_index)
  qed (simp add: zbase32_groups.simps [of buffer bits] full_groups.simps)
qed

lemma rest_low_bits: "rest_bits (low_bits n x) = low_bits (n mod 5) x"
  using drop_low_bits [of "n div 5 * 5" "n mod 5" x] by (simp add: rest_bits_def)

lemma low_bits_shift_in:
  assumes "n \<le> 8"
  shows "low_bits (n + 8) (push_bit 8 buffer OR ucast byte :: 16 word) = low_bits n buffer @ low_bits 8 (byte :: u8)"
proof (rule nth_equalityI)
  fix i assume "i < length (low_bits (n + 8) (push_bit 8 buffer OR ucast byte :: 16 word))"
  then have i: "i < n + 8" by simp
  show "low_bits (n + 8) (push_bit 8 buffer OR ucast byte :: 16 word) ! i = (low_bits n buffer @ low_bits 8 byte) ! i"
    using i assms by (cases "i < n") (auto simp: low_bits_def rev_nth nth_append bit_or_iff bit_push_bit_iff bit_ucast_iff
        dest: bit_imp_le_length)
qed simp

lemma zbase32_bytes_spec:
  assumes "bits < 5"
  shows "\<exists>buffer'. zbase32_bytes data buffer bits result =
      (buffer', length (rest_bits (low_bits bits buffer @ bits_of data)), result @ full_groups (low_bits bits buffer @ bits_of data))
    \<and> low_bits (length (rest_bits (low_bits bits buffer @ bits_of data))) buffer' = rest_bits (low_bits bits buffer @ bits_of data)"
  using assms
proof (induction data arbitrary: buffer bits result)
  case Nil
  then show ?case by (simp add: bits_of_def rest_bits_short full_groups.simps)
next
  case (Cons byte data)
  let ?b = "push_bit 8 buffer OR ucast byte :: 16 word"
  have low: "low_bits (bits + 8) ?b = low_bits bits buffer @ low_bits 8 byte" using Cons.prems by (intro low_bits_shift_in) simp
  have bo: "bits_of (byte # data) = low_bits 8 byte @ bits_of data" by (simp add: bits_of_def)
  from Cons.IH [of "(bits + 8) mod 5" ?b "result @ full_groups (low_bits (bits + 8) ?b)"] show ?case
    by (simp add: zbase32_groups_spec Let_def bo flip: append_assoc low)
      (simp add: full_groups_append [of "low_bits (bits + 8) ?b"] rest_bits_append [of "low_bits (bits + 8) ?b"] rest_low_bits
        mod_add_left_eq)
qed

lemma low_bits_fill:
  assumes "n \<le> 5"
  shows "low_bits 5 (push_bit (5 - n) x :: 16 word) = low_bits n x @ replicate (5 - n) False"
  using assms by (intro nth_equalityI) (auto simp: low_bits_def rev_nth nth_append bit_push_bit_iff)

lemma encode_zbase32_groups: "encode_zbase32 data = group_bits (bits_of data)"
proof (cases "data = []")
  case True
  then show ?thesis by (simp add: encode_zbase32_def bits_of_def group_bits.simps)
next
  case False
  let ?r = "rest_bits (bits_of data)"
  obtain buffer where run: "zbase32_bytes data 0 0 [] = (buffer, length ?r, full_groups (bits_of data))"
    and low: "low_bits (length ?r) buffer = ?r"
    using zbase32_bytes_spec [of 0 data 0 "[]"] by (auto simp: low_bits_def)
  have "length ?r < 5" by simp
  then have "unat (push_bit (5 - length ?r) buffer AND 0x1F) = bits_value (?r @ replicate (5 - length ?r) False)"
    using group_index [of 0 "push_bit (5 - length ?r) buffer"] low_bits_fill [of "length ?r" buffer] low by simp
  with False run show ?thesis
    by (simp add: encode_zbase32_def group_bits_split group_char_def del: length_rest_bits)
qed

lemma bits_value_less: "bits_value bs < 2 ^ length bs"
  by (induction bs) (auto simp: bits_value_Cons bits_value_def [of "[]"])

lemma bits_value_inj: "length bs = length cs \<Longrightarrow> bits_value bs = bits_value cs \<Longrightarrow> bs = cs"
proof (induction bs cs rule: list_induct2)
  case (Cons b bs c cs)
  have "bits_value bs < 2 ^ length bs" "bits_value cs < 2 ^ length bs" using bits_value_less [of bs] bits_value_less [of cs] Cons.hyps by simp_all
  with Cons show ?case by (cases b; cases c) (auto simp: bits_value_Cons)
qed simp

lemma alphabet_distinct: "distinct ZBASE32_ALPHABET" and length_alphabet: "length ZBASE32_ALPHABET = 32"
  by (simp_all add: ZBASE32_ALPHABET_def)

lemma group_char_inj: "length g = 5 \<Longrightarrow> length h = 5 \<Longrightarrow> group_char g = group_char h \<Longrightarrow> g = h"
  using bits_value_less [of g] bits_value_less [of h]
  by (intro bits_value_inj) (simp_all add: group_char_def nth_eq_iff_index_eq [OF alphabet_distinct] length_alphabet)

lemma length_group_bits: "length (group_bits bs) = (length bs + 4) div 5"
proof (induction bs rule: group_bits.induct)
  case (1 bs)
  show ?case
  proof (cases "length bs \<le> 5")
    case True
    then have "bs \<noteq> [] \<Longrightarrow> (length bs + 4) div 5 = 1" by (cases bs) (auto intro: div_nat_eqI)
    with True show ?thesis by (subst group_bits.simps) auto
  next
    case False
    then have "(length bs + 4) div 5 = Suc ((length bs - 5 + 4) div 5)" by (subst div_if) auto
    with False 1 show ?thesis by (subst group_bits.simps) auto
  qed
qed

lemma group_bits_inj: "length bs = length cs \<Longrightarrow> group_bits bs = group_bits cs \<Longrightarrow> bs = cs"
proof (induction bs arbitrary: cs rule: group_bits.induct)
  case (1 bs)
  show ?case
  proof (cases "length bs \<le> 5")
    case True
    show ?thesis
    proof (cases "bs = []")
      case False
      with True 1(2,3) have "group_char (bs @ replicate (5 - length bs) False) = group_char (cs @ replicate (5 - length cs) False)"
        by (auto simp: group_bits.simps [of bs] group_bits.simps [of cs] split: if_splits)
      from group_char_inj [OF _ _ this] True 1(2) show ?thesis by simp
    qed (use 1 in simp)
  next
    case False
    with 1(2,3) have g: "group_char (take 5 bs) = group_char (take 5 cs)" "group_bits (drop 5 bs) = group_bits (drop 5 cs)"
      by (auto simp: group_bits.simps [of bs] group_bits.simps [of cs] split: if_splits)
    have "take 5 bs = take 5 cs" using group_char_inj [OF _ _ g(1)] False 1(2) by simp
    moreover have "drop 5 bs = drop 5 cs" using 1(1) [OF _ _ _ g(2)] False 1(2) by fastforce
    ultimately show ?thesis by (metis append_take_drop_id)
  qed
qed

lemma low_bits_inj: "low_bits 8 (x :: u8) = low_bits 8 y \<Longrightarrow> x = y"
  by (rule bit_word_eqI) (auto simp: low_bits_def)

lemma length_bits_of: "length (bits_of data) = 8 * length data"
  by (induction data) (simp_all add: bits_of_def)

lemma bits_of_inj: "length xs = length ys \<Longrightarrow> bits_of xs = bits_of ys \<Longrightarrow> xs = ys"
  by (induction xs ys rule: list_induct2) (auto simp: bits_of_def dest: low_bits_inj)

text \<open>The z-base-32 encoder divides the bits of the data into groups of five and writes one character of the alphabet per
  group; the length of the result is the number of groups, and different data have different encodings.\<close>

theorem encode_zbase32_spec:
  "encode_zbase32 xs = group_bits (bits_of xs) \<and> length (encode_zbase32 xs) = (8 * length xs + 4) div 5
   \<and> (encode_zbase32 xs = encode_zbase32 ys \<longleftrightarrow> xs = ys)"
proof -
  have len: "length (encode_zbase32 xs) = (8 * length xs + 4) div 5" for xs
    by (simp add: encode_zbase32_groups length_group_bits length_bits_of)
  have "xs = ys" if "encode_zbase32 xs = encode_zbase32 ys"
  proof -
    have "(8 * length xs + 4) div 5 = (8 * length ys + 4) div 5" using that len by metis
    moreover have "(8 * a + 4) div 5 < (8 * b + 4) div 5" if "a < b" for a b :: nat
      using that div_le_mono [of "8 * a + 4 + 5" "8 * b + 4" 5] by simp
    ultimately have "length xs = length ys" by (metis linorder_neqE_nat nat_neq_iff)
    with that show ?thesis by (intro bits_of_inj group_bits_inj) (simp_all add: encode_zbase32_groups length_bits_of)
  qed
  with len show ?thesis by (auto simp: encode_zbase32_groups)
qed

section \<open>Tagged hashes are unambiguous\<close>

text \<open>Reading back what was written with a length in front.\<close>

function read_values :: "u8 list \<Rightarrow> u8 list list option" where
  "read_values bytes =
     (if bytes = [] then Some []
      else if length bytes < 8 then None
      else let n = from_be_bytes (take 8 bytes); body = drop 8 bytes
           in if length body < n then None else map_option ((#) (take n body)) (read_values (drop n body)))"
  by pat_completeness auto
termination by (relation "measure length") auto

declare read_values.simps [simp del]

lemma read_values_prefixed:
  assumes "list_all (\<lambda>v. length v < 2 ^ 64) vs"
  shows "read_values (concat (map length_prefixed vs)) = Some vs"
  using assms
proof (induction vs)
  case (Cons v vs)
  have v: "length v mod 2 ^ 64 = length v" using Cons.prems by simp
  obtain len where len: "to_be_bytes 8 (length v) = len" "length len = 8" "from_be_bytes len = length v"
    using be_bytes_inverse [of 8 "length v"] v by (simp del: be_bytes_inverse)
  have "read_values (len @ v @ rest) = map_option ((#) v) (read_values rest)" for rest
    using len(2,3) by (subst read_values.simps) (auto simp: Let_def)
  with Cons len(1) v show ?case by (simp add: length_prefixed_def [of v])
qed (simp add: read_values.simps)

datatype hash_input = HashBytes "u8 list" | HashString string | HashU64 u64 | HashMap "(string \<times> u8 list) list"

fun add_input :: "TaggedHasher \<Rightarrow> hash_input \<Rightarrow> TaggedHasher" where
  "add_input h (HashBytes b) = add_bytes h b"
| "add_input h (HashString s) = add_string h s"
| "add_input h (HashU64 n) = add_u64 h n"
| "add_input h (HashMap m) = add_map_string_to_bytes h m"

fun input_values :: "hash_input \<Rightarrow> u8 list list" where
  "input_values (HashBytes b) = [b]"
| "input_values (HashString s) = [as_bytes s]"
| "input_values (HashU64 n) = [to_be_bytes 8 n]"
| "input_values (HashMap m) =
     to_be_bytes 8 (length m mod 2 ^ 64)
       # concat (map (\<lambda>(key, b). [as_bytes key, b]) (sort_key (\<lambda>(key, _). map unat (as_bytes key)) m))"

definition tagged_message :: "(u8 list \<Rightarrow> u8 list) \<Rightarrow> string list \<Rightarrow> hash_input list \<Rightarrow> u8 list" where
  "tagged_message sha256 tag inputs = signable_message (foldl add_input (new_tagged_hasher sha256 tag) inputs)"

lemma add_input_values:
  "tag_hash (add_input h x) = tag_hash h"
  "th_values (add_input h x) = th_values h @ concat (map length_prefixed (input_values x))"
proof -
  have fold: "tag_hash (foldl (\<lambda>h (key, bytes). add_bytes (add_string h key) bytes) h m) = tag_hash h
    \<and> th_values (foldl (\<lambda>h (key, bytes). add_bytes (add_string h key) bytes) h m)
      = th_values h @ concat (map length_prefixed (concat (map (\<lambda>(key, b). [as_bytes key, b]) m)))" for m h
    by (induction m arbitrary: h) (auto simp: add_bytes_def add_string_def write_length_prefixed_def)
  show "tag_hash (add_input h x) = tag_hash h"
    by (cases x) (simp_all add: add_map_string_to_bytes_def fold, simp_all add: add_bytes_def add_string_def add_u64_def write_length_prefixed_def)
  show "th_values (add_input h x) = th_values h @ concat (map length_prefixed (input_values x))"
    by (cases x) (simp_all add: add_map_string_to_bytes_def fold, simp_all add: add_bytes_def add_string_def add_u64_def write_length_prefixed_def)
qed

lemma tagged_message_values:
  "tagged_message sha256 tag inputs =
     compute_tag_hash sha256 tag @ compute_tag_hash sha256 tag @ concat (map length_prefixed (concat (map input_values inputs)))"
proof -
  have "tag_hash (foldl add_input h inputs) = tag_hash h
    \<and> th_values (foldl add_input h inputs) = th_values h @ concat (map length_prefixed (concat (map input_values inputs)))" for h
    by (induction inputs arbitrary: h) (simp_all add: add_input_values)
  then show ?thesis by (simp add: tagged_message_def signable_message_def new_tagged_hasher_def)
qed

text \<open>The message that a tagged hash signs is unambiguous: two messages are equal only if the tags have the same hash and
  the same values were added, in the same order.\<close>

theorem tagged_message_injective:
  assumes "\<And>x. length (sha256 x) = 32" and "tagged_message sha256 tag inputs = tagged_message sha256 tag' inputs'"
    and "list_all (\<lambda>v. length v < 2 ^ 64) (concat (map input_values (inputs @ inputs')))"
  shows "compute_tag_hash sha256 tag = compute_tag_hash sha256 tag' \<and> concat (map input_values inputs) = concat (map input_values inputs')"
proof -
  have "length (compute_tag_hash sha256 tag) = length (compute_tag_hash sha256 tag')" by (simp add: compute_tag_hash_def assms(1))
  with assms(2) have same: "compute_tag_hash sha256 tag = compute_tag_hash sha256 tag'"
    "concat (map length_prefixed (concat (map input_values inputs))) = concat (map length_prefixed (concat (map input_values inputs')))"
    by (simp_all add: tagged_message_values)
  have "read_values (concat (map length_prefixed (concat (map input_values inputs)))) = Some (concat (map input_values inputs))"
    "read_values (concat (map length_prefixed (concat (map input_values inputs')))) = Some (concat (map input_values inputs'))"
    using assms(3) by (auto intro!: read_values_prefixed simp: list_all_append)
  with same show ?thesis by (metis option.inject)
qed

theorem tagged_message_injective_witness:
  "tagged_message (\<lambda>_. replicate 32 7) [''spark''] [HashBytes [1], HashBytes [2, 3]] \<noteq>
   tagged_message (\<lambda>_. replicate 32 7) [''spark''] [HashBytes [1, 2], HashBytes [3]]"
proof
  assume eq: "tagged_message (\<lambda>_. replicate 32 7) [''spark''] [HashBytes [1], HashBytes [2, 3]] =
    tagged_message (\<lambda>_. replicate 32 7) [''spark''] [HashBytes [1, 2], HashBytes [3]]"
  have "list_all (\<lambda>v. length v < 2 ^ 64) (concat (map input_values ([HashBytes [1], HashBytes [2, 3]] @ [HashBytes [1, 2], HashBytes [3]])))"
    by simp
  from tagged_message_injective [OF length_replicate eq this] show False by simp
qed

end
