(* ===== verification/Token_Transactions.thy ===== *)
theory Token_Transactions
  imports Token_Store Byte_Codecs
begin

text \<open>
  Token transactions: the construction, validation and hashing in \<open>crates/spark/src/services/tokens.rs\<close> and the conversions of
  \<open>crates/spark/src/services/models.rs\<close>. The messages of the operators (\<open>protos/spark/spark_token.proto\<close>) are records; SHA-256, hex,
  Bech32m, public keys and the parser of Spark invoices are the fields of \<open>token_codecs\<close>. Time stamps and the network are
  signed numbers, as in the messages, and the time of creation is kept as it is there.

  A hash is computed over the hashes of the fields, so the model lists the byte strings that are hashed and applies SHA-256 to
  each of them.
\<close>

section \<open>Messages\<close>

record RpcTokenOutput =
  ro_id :: "string option"
  ro_owner_public_key :: "u8 list"
  ro_revocation_commitment :: "u8 list option"
  ro_withdraw_bond_sats :: "u64 option"
  ro_withdraw_relative_block_locktime :: "u64 option"
  ro_token_public_key :: "u8 list option"
  ro_token_identifier :: "u8 list option"
  ro_token_amount :: "u8 list"

record RpcTokenOutputToSpend =
  prev_token_transaction_hash :: "u8 list"
  prev_token_transaction_vout :: u32

record RpcTokenCreateInput =
  ci_issuer_public_key :: "u8 list"
  ci_token_name :: string
  ci_token_ticker :: string
  ci_decimals :: u32
  ci_max_supply :: "u8 list"
  ci_is_freezable :: bool
  ci_creation_entity_public_key :: "u8 list option"

record RpcTokenMintInput =
  mi_issuer_public_key :: "u8 list"
  mi_token_identifier :: "u8 list option"

datatype RpcTokenInputs =
    CreateInput RpcTokenCreateInput | MintInput RpcTokenMintInput | TransferInput "RpcTokenOutputToSpend list"

record Timestamp =
  ts_seconds :: int
  ts_nanos :: int

record RpcTokenTransaction =
  tx_version :: u32
  tx_token_inputs :: "RpcTokenInputs option"
  tx_token_outputs :: "RpcTokenOutput list"
  spark_operator_identity_public_keys :: "u8 list list"
  tx_expiry_time :: "Timestamp option"
  tx_network :: int
  client_created_timestamp :: "Timestamp option"
  invoice_attachments :: "string list"

record RpcSigningKeyshare =
  owner_identifiers :: "string list"
  ks_threshold :: u32

text \<open>Of the invoice in an address only the identifier matters here.\<close>

record SparkAddress =
  identity_public_key :: public_key
  address_network :: Network
  spark_invoice_id :: "u8 list option"

record token_codecs =
  sha256 :: "u8 list \<Rightarrow> u8 list"
  hex_encode :: "u8 list \<Rightarrow> string"
  hex_decode :: "string \<Rightarrow> u8 list option"
  serialize_key :: "public_key \<Rightarrow> u8 list"
  parse_key :: "u8 list \<Rightarrow> public_key option"
  bech32m_encode :: "string \<Rightarrow> u8 list \<Rightarrow> string + string"
  bech32m_decode :: "string \<Rightarrow> string + (string \<times> u8 list)"
  parse_spark_address :: "string \<Rightarrow> string + SparkAddress"
  is_nfc :: "string \<Rightarrow> bool"

section \<open>Token identifiers\<close>

fun hrp_of :: "Network \<Rightarrow> string" where
  "hrp_of Mainnet = ''btkn''"
| "hrp_of Testnet = ''btknt''"
| "hrp_of Regtest = ''btknrt''"
| "hrp_of Signet = ''btkns''"

definition bech32m_encode_token_id :: "token_codecs \<Rightarrow> u8 list \<Rightarrow> Network \<Rightarrow> ServiceError + string" where
  "bech32m_encode_token_id codecs raw_token_id network =
     map_err (\<lambda>e. SvGeneric (''Failed to encode token id: '' @ e)) (bech32m_encode codecs (hrp_of network) raw_token_id)"

definition bech32m_decode_token_id :: "token_codecs \<Rightarrow> string \<Rightarrow> Network option \<Rightarrow> ServiceError + u8 list" where
  "bech32m_decode_token_id codecs token_id network =
     rbind (map_err (\<lambda>e. SvGeneric (''Failed to decode token id: '' @ e)) (bech32m_decode codecs token_id)) (\<lambda>(hrp, data).
     rbind (if hrp = ''btkn'' then Ok Mainnet else if hrp = ''btknt'' then Ok Testnet else if hrp = ''btknrt'' then Ok Regtest
            else if hrp = ''btkns'' then Ok Signet else Err (SvGeneric (''Invalid network: '' @ hrp))) (\<lambda>bech32_network.
       case network of
         Some n \<Rightarrow> if bech32_network \<noteq> n then Err (SvGeneric (''Invalid network: '' @ network_to_string bech32_network)) else Ok data
       | None \<Rightarrow> Ok data))"

fun to_proto_network :: "Network \<Rightarrow> int" where
  "to_proto_network Mainnet = 1"
| "to_proto_network Regtest = 2"
| "to_proto_network Testnet = 3"
| "to_proto_network Signet = 4"

section \<open>Hashing\<close>

text \<open>A signed number as the unsigned one of the same bits.\<close>

definition as_unsigned :: "nat \<Rightarrow> int \<Rightarrow> nat" where
  "as_unsigned w i = nat (i mod 2 ^ w)"

definition u32_bytes :: "nat \<Rightarrow> u8 list" where
  "u32_bytes n = to_be_bytes 4 (n mod 2 ^ 32)"

definition inputs_preimages :: "bool \<Rightarrow> RpcTokenInputs option \<Rightarrow> ServiceError + u8 list list" where
  "inputs_preimages partial inputs =
     (case inputs of
        Some (CreateInput input) \<Rightarrow>
          Ok [u32_bytes 1, ci_issuer_public_key input, as_bytes (ci_token_name input), as_bytes (ci_token_ticker input),
              u32_bytes (ci_decimals input), ci_max_supply input, [if ci_is_freezable input then 1 else 0],
              (if \<not> partial then unwrap_or (ci_creation_entity_public_key input) [] else [])]
      | Some (MintInput input) \<Rightarrow>
          Ok [u32_bytes 2, mi_issuer_public_key input, unwrap_or (mi_token_identifier input) (replicate 32 0)]
      | Some (TransferInput outputs) \<Rightarrow>
          Ok (u32_bytes 3 # u32_bytes (length outputs) #
              map (\<lambda>o'. prev_token_transaction_hash o' @ u32_bytes (prev_token_transaction_vout o')) outputs)
      | None \<Rightarrow> Err (SvGeneric ''Token inputs are required''))"

definition output_preimage :: "bool \<Rightarrow> RpcTokenOutput \<Rightarrow> ServiceError + u8 list" where
  "output_preimage partial output =
     rbind (if partial then Ok []
            else rbind (ok_or (ro_revocation_commitment output) (SvGeneric ''Revocation commitment is required'')) (\<lambda>rc.
                 rbind (ok_or (ro_withdraw_bond_sats output) (SvGeneric ''Withdraw bond sats is required'')) (\<lambda>bond.
                 rbind (ok_or (ro_withdraw_relative_block_locktime output)
                          (SvGeneric ''Withdraw relative block locktime is required'')) (\<lambda>locktime.
                   Ok (rc @ to_be_bytes 8 bond @ to_be_bytes 8 locktime))))) (\<lambda>terms.
     rbind (ok_or (ro_token_identifier output) (SvGeneric ''Token identifier is required'')) (\<lambda>tid.
       Ok ((case ro_id output of Some i \<Rightarrow> if partial then [] else as_bytes i | None \<Rightarrow> [])
           @ ro_owner_public_key output @ terms @ unwrap_or (ro_token_public_key output) (replicate 33 0) @ tid
           @ ro_token_amount output)))"

fun collect_ok :: "('e + 'a) list \<Rightarrow> 'e + 'a list" where
  "collect_ok [] = Ok []"
| "collect_ok (r # rs) = rbind r (\<lambda>x. rbind (collect_ok rs) (\<lambda>xs. Ok (x # xs)))"

definition timestamp_ms :: "Timestamp \<Rightarrow> u64" where
  "timestamp_ms t = wadd 64 (as_unsigned 64 (ts_seconds t) * 1000 mod 2 ^ 64) (as_unsigned 64 (ts_nanos t) div 1000000)"

definition common_preimages :: "RpcTokenTransaction \<Rightarrow> bool \<Rightarrow> ServiceError + u8 list list" where
  "common_preimages tx partial =
     rbind (inputs_preimages partial (tx_token_inputs tx)) (\<lambda>inputs.
     rbind (collect_ok (map (output_preimage partial) (tx_token_outputs tx))) (\<lambda>outputs.
     rbind (ok_or (client_created_timestamp tx) (SvGeneric ''Client created timestamp is required'')) (\<lambda>created.
       let keys = sort_key (map unat) (spark_operator_identity_public_keys tx)
       in Ok (u32_bytes (tx_version tx) # inputs @ u32_bytes (length (tx_token_outputs tx)) # outputs
              @ u32_bytes (length keys) # keys
              @ u32_bytes (as_unsigned 32 (tx_network tx)) # to_be_bytes 8 (timestamp_ms created)
              # (if partial then []
                 else [to_be_bytes 8 (case tx_expiry_time tx of Some t \<Rightarrow> as_unsigned 64 (ts_seconds t) | None \<Rightarrow> 0)])))))"

definition compute_common_hash_components ::
  "token_codecs \<Rightarrow> RpcTokenTransaction \<Rightarrow> bool \<Rightarrow> ServiceError + u8 list list" where
  "compute_common_hash_components codecs tx partial =
     rbind (common_preimages tx partial) (\<lambda>ps. Ok (map (sha256 codecs) ps))"

definition final_hash :: "token_codecs \<Rightarrow> u8 list list \<Rightarrow> u8 list" where
  "final_hash codecs all_hashes = sha256 codecs (concat all_hashes)"

definition compute_hash_v1 :: "token_codecs \<Rightarrow> RpcTokenTransaction \<Rightarrow> bool \<Rightarrow> ServiceError + u8 list" where
  "compute_hash_v1 codecs tx partial =
     rbind (compute_common_hash_components codecs tx partial) (\<lambda>hs. Ok (final_hash codecs hs))"

text \<open>The identifiers of the attached invoices, or the first error.\<close>

fun invoice_ids :: "token_codecs \<Rightarrow> nat \<Rightarrow> string list \<Rightarrow> ServiceError + (u8 list \<times> string) list" where
  "invoice_ids codecs i [] = Ok []"
| "invoice_ids codecs i (invoice # rest) =
     rbind (map_err (\<lambda>e. SvGeneric (''Invalid invoice at index '' @ decimal i @ '': '' @ e)) (parse_spark_address codecs invoice)) (\<lambda>address.
     rbind (ok_or (spark_invoice_id address) (SvGeneric (''Missing invoice fields at index '' @ decimal i))) (\<lambda>id_bytes.
       if length id_bytes \<noteq> 16
       then Err (SvGeneric (''Invalid invoice ID length at index '' @ decimal i @ '': expected 16 bytes, got ''
              @ decimal (length id_bytes)))
       else rbind (invoice_ids codecs (Suc i) rest) (\<lambda>xs. Ok ((id_bytes, invoice) # xs))))"

definition invoice_preimages :: "token_codecs \<Rightarrow> RpcTokenTransaction \<Rightarrow> ServiceError + u8 list list" where
  "invoice_preimages codecs tx =
     rbind (invoice_ids codecs 0 (invoice_attachments tx)) (\<lambda>ids.
       Ok (u32_bytes (length (invoice_attachments tx))
           # map (\<lambda>(_, invoice). as_bytes invoice) (sort_key (\<lambda>(i, _). map unat i) ids)))"

definition compute_hash_v2 :: "token_codecs \<Rightarrow> RpcTokenTransaction \<Rightarrow> bool \<Rightarrow> ServiceError + u8 list" where
  "compute_hash_v2 codecs tx partial =
     rbind (compute_common_hash_components codecs tx partial) (\<lambda>hs.
     rbind (invoice_preimages codecs tx) (\<lambda>ps. Ok (final_hash codecs (hs @ map (sha256 codecs) ps))))"

definition compute_hash :: "token_codecs \<Rightarrow> RpcTokenTransaction \<Rightarrow> bool \<Rightarrow> ServiceError + u8 list" where
  "compute_hash codecs tx partial =
     (if tx_version tx = 1 then compute_hash_v1 codecs tx partial
      else if tx_version tx = 2 then compute_hash_v2 codecs tx partial
      else Err (SvGeneric ''Unsupported token transaction version''))"

record FreezeIssuerTokenPayload =
  fr_version :: u32
  fr_owner_public_key :: "u8 list"
  fr_token_identifier :: "u8 list option"
  fr_should_unfreeze :: bool
  fr_issuer_provided_timestamp :: u64
  fr_operator_identity_public_key :: "u8 list"

definition freeze_preimages :: "FreezeIssuerTokenPayload \<Rightarrow> u8 list list" where
  "freeze_preimages p =
     [u32_bytes (fr_version p), fr_owner_public_key p, unwrap_or (fr_token_identifier p) [],
      [if fr_should_unfreeze p then 1 else 0], to_le_bytes 8 (fr_issuer_provided_timestamp p), fr_operator_identity_public_key p]"

definition hash_freeze_tokens_payload :: "token_codecs \<Rightarrow> FreezeIssuerTokenPayload \<Rightarrow> u8 list" where
  "hash_freeze_tokens_payload codecs p = final_hash codecs (map (sha256 codecs) (freeze_preimages p))"

section \<open>Validation\<close>

definition validate_create_token_params :: "token_codecs \<Rightarrow> string \<Rightarrow> string \<Rightarrow> u32 \<Rightarrow> ServiceError + unit" where
  "validate_create_token_params codecs name ticker' decimals' =
     (if \<not> is_nfc codecs name then Err (SvGeneric ''Token name must be NFC-normalised UTF-8'')
      else if \<not> is_nfc codecs ticker' then Err (SvGeneric ''Token ticker must be NFC-normalised UTF-8'')
      else if length name < 3 \<or> 20 < length name then Err (SvGeneric ''Token name must be between 3 and 20 bytes'')
      else if length ticker' < 3 \<or> 6 < length ticker' then Err (SvGeneric ''Token ticker must be between 3 and 6 bytes'')
      else if 255 < decimals' then Err (SvGeneric ''Decimals must be an between 0 and 255'')
      else Ok ())"

record TokensConfig =
  expected_withdraw_bond_sats :: u64
  expected_withdraw_relative_block_locktime :: u64
  transaction_validity_duration_seconds :: u64

text \<open>What the validation knows of the wallet: the configuration, the threshold and the identifiers of the operators.\<close>

record validation_env =
  ve_config :: TokensConfig
  ve_split_secret_threshold :: u32
  ve_operator_identifiers :: "string list"

fun validate_spent :: "(RpcTokenOutputToSpend \<times> RpcTokenOutputToSpend) list \<Rightarrow> ServiceError + unit" where
  "validate_spent [] = Ok ()"
| "validate_spent ((p, f) # rest) =
     (if prev_token_transaction_hash p \<noteq> prev_token_transaction_hash f
      then Err (SvGeneric ''Prev token transaction hash mismatch in transfer input'')
      else if prev_token_transaction_vout p \<noteq> prev_token_transaction_vout f
      then Err (SvGeneric ''Prev token transaction vout mismatch in transfer input'')
      else validate_spent rest)"

definition validate_inputs :: "RpcTokenInputs \<Rightarrow> RpcTokenInputs \<Rightarrow> ServiceError + unit" where
  "validate_inputs partial_inputs final_inputs =
     (case (partial_inputs, final_inputs) of
        (CreateInput p, CreateInput f) \<Rightarrow>
          if ci_issuer_public_key p \<noteq> ci_issuer_public_key f
          then Err (SvGeneric ''Issuer public key mismatch in create input'') else Ok ()
      | (MintInput p, MintInput f) \<Rightarrow>
          if mi_issuer_public_key p \<noteq> mi_issuer_public_key f
          then Err (SvGeneric ''Issuer public key mismatch in mint input'')
          else if mi_token_identifier p \<noteq> mi_token_identifier f
          then Err (SvGeneric ''Token identifier mismatch in mint input'') else Ok ()
      | (TransferInput p, TransferInput f) \<Rightarrow>
          if length p \<noteq> length f then Err (SvGeneric ''Outputs to spend mismatch in transfer input'')
          else validate_spent (zip p f)
      | _ \<Rightarrow> Err (SvGeneric ''Unexpected token inputs type''))"

fun validate_outputs :: "TokensConfig \<Rightarrow> (RpcTokenOutput \<times> RpcTokenOutput) list \<Rightarrow> ServiceError + unit" where
  "validate_outputs config [] = Ok ()"
| "validate_outputs config ((p, f) # rest) =
     (if ro_owner_public_key p \<noteq> ro_owner_public_key f
      then Err (SvGeneric ''Owner public key mismatch between partial and final tx'')
      else if ro_token_amount p \<noteq> ro_token_amount f
      then Err (SvGeneric ''Token amount mismatch between partial and final tx'')
      else if (case ro_withdraw_bond_sats f of Some b \<Rightarrow> b \<noteq> expected_withdraw_bond_sats config | None \<Rightarrow> False)
      then Err (SvGeneric ''Unexpected withdraw bond sats in final tx'')
      else if (case ro_withdraw_relative_block_locktime f of
                 Some l \<Rightarrow> l \<noteq> expected_withdraw_relative_block_locktime config | None \<Rightarrow> False)
      then Err (SvGeneric ''Unexpected withdraw relative block locktime in final tx'')
      else validate_outputs config rest)"

definition validate_keyshare :: "validation_env \<Rightarrow> RpcSigningKeyshare \<Rightarrow> ServiceError + unit" where
  "validate_keyshare env ks =
     (if ks_threshold ks \<noteq> ve_split_secret_threshold env then Err (SvGeneric ''Unexpected threshold in keyshare info'')
      else if length (owner_identifiers ks) \<noteq> length (ve_operator_identifiers env)
      then Err (SvGeneric ''Keyshare info owner identifiers amount differs from operators amount'')
      else if list_ex (\<lambda>i. i \<notin> set (ve_operator_identifiers env)) (owner_identifiers ks)
      then Err (SvGeneric ''Keyshare info owner identifier not found in operators'')
      else Ok ())"

definition validate_token_transaction ::
  "validation_env \<Rightarrow> RpcTokenTransaction \<Rightarrow> RpcTokenTransaction \<Rightarrow> RpcSigningKeyshare \<Rightarrow> ServiceError + unit" where
  "validate_token_transaction env partial_tx final_tx keyshare_info =
     (if tx_network final_tx \<noteq> tx_network partial_tx
      then Err (SvGeneric ''Network mismatch between partial and final transaction'')
      else
        rbind (ok_or (tx_token_inputs partial_tx) (SvGeneric ''Token inputs missing from partial tx'')) (\<lambda>partial_inputs.
        rbind (ok_or (tx_token_inputs final_tx) (SvGeneric ''Token inputs missing from final tx'')) (\<lambda>final_inputs.
        rbind (validate_inputs partial_inputs final_inputs) (\<lambda>_.
          if length (spark_operator_identity_public_keys partial_tx) \<noteq> length (spark_operator_identity_public_keys final_tx)
          then Err (SvGeneric ''Spark operator identity public keys mismatch between partial and final tx'')
          else if length (tx_token_outputs partial_tx) \<noteq> length (tx_token_outputs final_tx)
          then Err (SvGeneric ''Token outputs mismatch between partial and final tx'')
          else
            rbind (validate_outputs (ve_config env) (zip (tx_token_outputs partial_tx) (tx_token_outputs final_tx))) (\<lambda>_.
            rbind (validate_keyshare env keyshare_info) (\<lambda>_.
            rbind (ok_or (client_created_timestamp final_tx) (SvGeneric ''Client created timestamp is required'')) (\<lambda>f.
            rbind (ok_or (client_created_timestamp partial_tx) (SvGeneric ''Client created timestamp is required'')) (\<lambda>p.
              if f \<noteq> p then Err (SvGeneric ''Client created timestamp mismatch between partial and final tx'') else Ok ()))))))))"

section \<open>Construction\<close>

record TransferTokenOutput =
  tto_token_id :: string
  tto_amount :: u128
  receiver_address :: SparkAddress
  tto_spark_invoice :: "string option"

text \<open>What construction needs of the wallet: its key, the keys of the operators and the network, and the clock.\<close>

record builder_env =
  be_codecs :: token_codecs
  be_identity :: public_key
  be_operator_keys :: "public_key list"
  be_network :: Network

definition build_token_transaction ::
  "builder_env \<Rightarrow> Timestamp option \<Rightarrow> RpcTokenInputs \<Rightarrow> RpcTokenOutput list \<Rightarrow> string list \<Rightarrow> ServiceError + RpcTokenTransaction" where
  "build_token_transaction env now token_inputs token_outputs attachments =
     rbind (ok_or now (SvGeneric ''client_created_timestamp is before UNIX_EPOCH'')) (\<lambda>created.
       Ok \<lparr>tx_version = 2, tx_token_inputs = Some token_inputs, tx_token_outputs = token_outputs,
           spark_operator_identity_public_keys = map (serialize_key (be_codecs env)) (be_operator_keys env),
           tx_expiry_time = None, tx_network = to_proto_network (be_network env), client_created_timestamp = Some created,
           invoice_attachments = attachments\<rparr>)"

definition build_create_token_transaction ::
  "builder_env \<Rightarrow> Timestamp option \<Rightarrow> string \<Rightarrow> string \<Rightarrow> u32 \<Rightarrow> bool \<Rightarrow> u128 \<Rightarrow> ServiceError + RpcTokenTransaction" where
  "build_create_token_transaction env now name ticker' decimals' freezable supply =
     build_token_transaction env now
       (CreateInput \<lparr>ci_issuer_public_key = serialize_key (be_codecs env) (be_identity env), ci_token_name = name,
          ci_token_ticker = ticker', ci_decimals = decimals', ci_max_supply = to_be_bytes 16 supply,
          ci_is_freezable = freezable, ci_creation_entity_public_key = None\<rparr>) [] []"

definition plain_output :: "u8 list \<Rightarrow> u8 list \<Rightarrow> u128 \<Rightarrow> RpcTokenOutput" where
  "plain_output owner tid amount =
     \<lparr>ro_id = None, ro_owner_public_key = owner, ro_revocation_commitment = None, ro_withdraw_bond_sats = None,
      ro_withdraw_relative_block_locktime = None, ro_token_public_key = None, ro_token_identifier = Some tid,
      ro_token_amount = to_be_bytes 16 amount\<rparr>"

definition invalid_token_id :: "ServiceError + 'a \<Rightarrow> ServiceError + 'a" where
  "invalid_token_id r = map_err (\<lambda>_. SvGeneric ''Invalid token id'') r"

definition build_mint_token_transaction ::
  "builder_env \<Rightarrow> Timestamp option \<Rightarrow> string \<Rightarrow> u128 \<Rightarrow> ServiceError + RpcTokenTransaction" where
  "build_mint_token_transaction env now token_id amount =
     rbind (invalid_token_id (bech32m_decode_token_id (be_codecs env) token_id (Some (be_network env)))) (\<lambda>tid.
       let issuer = serialize_key (be_codecs env) (be_identity env)
       in build_token_transaction env now (MintInput \<lparr>mi_issuer_public_key = issuer, mi_token_identifier = Some tid\<rparr>)
            [plain_output issuer tid amount] [])"

definition own_address :: "builder_env \<Rightarrow> SparkAddress" where
  "own_address env = \<lparr>identity_public_key = be_identity env, address_network = be_network env, spark_invoice_id = None\<rparr>"

text \<open>The receivers together with the change; \<open>None\<close> if there is no receiver, where the code would index out of range.\<close>

definition with_change ::
  "builder_env \<Rightarrow> TokenOutputWithPrevOut list \<Rightarrow> TransferTokenOutput list \<Rightarrow> TransferTokenOutput list option" where
  "with_change env inputs receivers =
     (let inputs_amount = wsum 128 (amounts_of inputs); outputs_amount = wsum 128 (map tto_amount receivers)
      in if outputs_amount < inputs_amount
         then case receivers of
                [] \<Rightarrow> None
              | r # _ \<Rightarrow> Some (receivers @ [\<lparr>tto_token_id = tto_token_id r, tto_amount = inputs_amount - outputs_amount,
                                 receiver_address = own_address env, tto_spark_invoice = None\<rparr>])
         else Some receivers)"

definition output_to_spend :: "token_codecs \<Rightarrow> TokenOutputWithPrevOut \<Rightarrow> ServiceError + RpcTokenOutputToSpend" where
  "output_to_spend codecs w =
     rbind (ok_or (hex_decode codecs (prev_tx_hash w)) (SvGeneric ''Invalid prev tx hash'')) (\<lambda>h.
       Ok \<lparr>prev_token_transaction_hash = h, prev_token_transaction_vout = prev_tx_vout w\<rparr>)"

definition receiver_output :: "builder_env \<Rightarrow> TransferTokenOutput \<Rightarrow> ServiceError + RpcTokenOutput" where
  "receiver_output env r =
     rbind (invalid_token_id (bech32m_decode_token_id (be_codecs env) (tto_token_id r) (Some (be_network env)))) (\<lambda>tid.
       Ok (plain_output (serialize_key (be_codecs env) (identity_public_key (receiver_address r))) tid (tto_amount r)))"

definition build_transfer_token_transaction ::
  "builder_env \<Rightarrow> Timestamp option \<Rightarrow> TokenOutputWithPrevOut list \<Rightarrow> TransferTokenOutput list \<Rightarrow>
   (ServiceError + RpcTokenTransaction) option" where
  "build_transfer_token_transaction env now inputs0 receiver_outputs0 =
     (let inputs = sort_key prev_tx_vout inputs0 in
      map_option (\<lambda>receiver_outputs.
        rbind (collect_ok (map (output_to_spend (be_codecs env)) inputs)) (\<lambda>outputs_to_spend.
        rbind (collect_ok (map (receiver_output env) receiver_outputs)) (\<lambda>token_outputs.
          build_token_transaction env now (TransferInput outputs_to_spend) token_outputs
            (List.map_filter tto_spark_invoice receiver_outputs))))
        (with_change env inputs receiver_outputs0))"

section \<open>Conversion of the answers\<close>

datatype TokenTransactionStatus =
    TtStarted | TtSigned | TtRevealed | TtFinalized | TtStartedCancelled | TtSignedCancelled | TtUnknown

record TokenCreateInput =
  tci_issuer_public_key :: public_key
  tci_name :: string
  tci_ticker :: string
  tci_decimals :: u32
  tci_max_supply :: u128
  tci_is_freezable :: bool
  tci_creation_entity_public_key :: "public_key option"

datatype TokenInputs =
    MintInputs public_key "u8 list option" | TransferInputs "(string \<times> u32) list" | CreateInputs TokenCreateInput

record TokenTransaction =
  tt_hash :: string
  tt_inputs :: TokenInputs
  tt_outputs :: "TokenOutput list"
  tt_status :: TokenTransactionStatus
  tt_created_timestamp :: Timestamp
  fulfilled_invoices :: "string list"

definition parsed :: "token_codecs \<Rightarrow> string \<Rightarrow> u8 list \<Rightarrow> ServiceError + public_key" where
  "parsed codecs message bytes = ok_or (parse_key codecs bytes) (SvGeneric message)"

definition parsed_opt :: "token_codecs \<Rightarrow> string \<Rightarrow> u8 list option \<Rightarrow> ServiceError + public_key option" where
  "parsed_opt codecs message b =
     (case b of None \<Rightarrow> Ok None | Some bytes \<Rightarrow> rbind (parsed codecs message bytes) (\<lambda>k. Ok (Some k)))"

definition be_u128 :: "string \<Rightarrow> u8 list \<Rightarrow> ServiceError + u128" where
  "be_u128 message bytes = (if length bytes = 16 then Ok (from_be_bytes bytes) else Err (SvGeneric message))"

definition token_output_try_from :: "token_codecs \<Rightarrow> Network \<Rightarrow> RpcTokenOutput \<Rightarrow> ServiceError + TokenOutput" where
  "token_output_try_from codecs network output =
     rbind (ok_or (ro_id output) (SvGeneric ''Missing token output id'')) (\<lambda>i.
     rbind (parsed codecs ''Invalid owner public key'' (ro_owner_public_key output)) (\<lambda>owner.
     rbind (ok_or (ro_revocation_commitment output) (SvGeneric ''Missing revocation commitment'')) (\<lambda>rc.
     rbind (ok_or (ro_withdraw_bond_sats output) (SvGeneric ''Missing withdraw bond sats'')) (\<lambda>bond.
     rbind (ok_or (ro_withdraw_relative_block_locktime output)
              (SvGeneric ''Missing withdraw relative block locktime'')) (\<lambda>locktime.
     rbind (parsed_opt codecs ''Invalid token public key'' (ro_token_public_key output)) (\<lambda>tpk.
     rbind (ok_or (ro_token_identifier output) (SvGeneric ''Missing token identifier'')) (\<lambda>raw.
     rbind (bech32m_encode_token_id codecs raw network) (\<lambda>tid.
     rbind (be_u128 ''Invalid token amount'' (ro_token_amount output)) (\<lambda>amount.
       Ok \<lparr>to_id = i, owner_public_key = owner, revocation_commitment = hex_encode codecs rc, withdraw_bond_sats = bond,
           withdraw_relative_block_locktime = locktime, token_public_key = tpk, token_identifier = tid,
           token_amount = amount\<rparr>)))))))))"

definition token_inputs_try_from :: "token_codecs \<Rightarrow> RpcTokenInputs \<Rightarrow> ServiceError + TokenInputs" where
  "token_inputs_try_from codecs inputs =
     (case inputs of
        MintInput i \<Rightarrow>
          rbind (parsed codecs ''Invalid issuer public key'' (mi_issuer_public_key i)) (\<lambda>pk. Ok (MintInputs pk (mi_token_identifier i)))
      | TransferInput outs \<Rightarrow>
          Ok (TransferInputs (map (\<lambda>x. (hex_encode codecs (prev_token_transaction_hash x), prev_token_transaction_vout x)) outs))
      | CreateInput i \<Rightarrow>
          rbind (parsed codecs ''Invalid issuer public key'' (ci_issuer_public_key i)) (\<lambda>pk.
          rbind (be_u128 ''Invalid max supply'' (ci_max_supply i)) (\<lambda>supply.
          rbind (parsed_opt codecs ''Invalid creation entity public key'' (ci_creation_entity_public_key i)) (\<lambda>entity.
            Ok (CreateInputs \<lparr>tci_issuer_public_key = pk, tci_name = ci_token_name i, tci_ticker = ci_token_ticker i,
                 tci_decimals = ci_decimals i, tci_max_supply = supply, tci_is_freezable = ci_is_freezable i,
                 tci_creation_entity_public_key = entity\<rparr>)))))"

definition token_transaction_try_from ::
  "token_codecs \<Rightarrow> Network \<Rightarrow> RpcTokenTransaction \<Rightarrow> ServiceError + TokenTransaction" where
  "token_transaction_try_from codecs network tx =
     rbind (compute_hash codecs tx False) (\<lambda>h.
     rbind (ok_or (tx_token_inputs tx) (SvGeneric ''Missing token inputs'')) (\<lambda>inputs.
     rbind (token_inputs_try_from codecs inputs) (\<lambda>inputs.
     rbind (collect_ok (map (token_output_try_from codecs network) (tx_token_outputs tx))) (\<lambda>outputs.
     rbind (ok_or (client_created_timestamp tx)
              (SvGeneric ''Missing client created timestamp. Could this be a V1 transaction?'')) (\<lambda>created.
       Ok \<lparr>tt_hash = hex_encode codecs h, tt_inputs = inputs, tt_outputs = outputs, tt_status = TtUnknown,
           tt_created_timestamp = created, fulfilled_invoices = invoice_attachments tx\<rparr>)))))"

section \<open>What validation accepts\<close>

lemma validate_spent_iff: "length p = length f \<Longrightarrow> validate_spent (zip p f) = Ok () \<longleftrightarrow> p = f"
  by (induction p f rule: list_induct2) auto

lemma validate_inputs_iff:
  "validate_inputs p f = Ok () \<longleftrightarrow>
     (case (p, f) of
        (CreateInput a, CreateInput b) \<Rightarrow> ci_issuer_public_key a = ci_issuer_public_key b
      | (MintInput a, MintInput b) \<Rightarrow> a = b
      | (TransferInput a, TransferInput b) \<Rightarrow> a = b
      | _ \<Rightarrow> False)"
  by (cases p; cases f) (auto simp: validate_inputs_def validate_spent_iff)

lemma validate_outputs_iff:
  "length p = length f \<Longrightarrow> validate_outputs config (zip p f) = Ok () \<longleftrightarrow>
     map ro_owner_public_key p = map ro_owner_public_key f \<and> map ro_token_amount p = map ro_token_amount f
     \<and> list_all (\<lambda>x. ro_withdraw_bond_sats x \<in> {None, Some (expected_withdraw_bond_sats config)}
          \<and> ro_withdraw_relative_block_locktime x \<in> {None, Some (expected_withdraw_relative_block_locktime config)}) f"
  by (induction p f rule: list_induct2) (auto split: option.splits)

lemma validate_keyshare_iff:
  "validate_keyshare env ks = Ok () \<longleftrightarrow>
     ks_threshold ks = ve_split_secret_threshold env \<and> length (owner_identifiers ks) = length (ve_operator_identifiers env)
     \<and> set (owner_identifiers ks) \<subseteq> set (ve_operator_identifiers env)"
  by (auto simp: validate_keyshare_def list_ex_iff)


section \<open>What a hash commits to\<close>

lemma collect_ok_eq: "collect_ok rs = Ok xs \<longleftrightarrow> rs = map Ok xs"
proof (induction rs arbitrary: xs)
  case (Cons r rs)
  show ?case by (cases r; cases xs) (auto simp: Cons.IH)
qed auto

lemma concat_equal_lengths:
  assumes "concat xs = concat ys" and "\<forall>x \<in> set xs. length x = n" and "\<forall>y \<in> set ys. length y = n" and "0 < n"
  shows "xs = ys"
  using assms(1-3)
proof (induction xs arbitrary: ys)
  case Nil
  with assms(4) show ?case by (cases ys) auto
next
  case (Cons x xs)
  with assms(4) show ?case by (cases ys) auto
qed

text \<open>The byte strings that are hashed one by one, with the attached invoices in version 2.\<close>

definition all_preimages :: "token_codecs \<Rightarrow> RpcTokenTransaction \<Rightarrow> bool \<Rightarrow> ServiceError + u8 list list" where
  "all_preimages codecs tx partial =
     rbind (common_preimages tx partial) (\<lambda>ps.
       if tx_version tx = 1 then Ok ps else rbind (invoice_preimages codecs tx) (\<lambda>qs. Ok (ps @ qs)))"

lemma compute_hash_preimages:
  "compute_hash codecs tx partial = Ok h \<longleftrightarrow>
     tx_version tx \<in> {1, 2} \<and> (\<exists>ps. all_preimages codecs tx partial = Ok ps \<and> h = final_hash codecs (map (sha256 codecs) ps))"
  by (auto simp: compute_hash_def compute_hash_v1_def compute_hash_v2_def compute_common_hash_components_def all_preimages_def)

definition hashed :: "token_codecs \<Rightarrow> RpcTokenTransaction \<Rightarrow> bool \<Rightarrow> u8 list set" where
  "hashed codecs tx partial =
     (case all_preimages codecs tx partial of
        Ok ps \<Rightarrow> insert (concat (map (sha256 codecs) ps)) (set ps)
      | Err _ \<Rightarrow> {})"

lemma same_hash_same_preimages:
  assumes "\<And>x. length (sha256 codecs x) = 32" and "inj_on (sha256 codecs) (hashed codecs tx partial \<union> hashed codecs tx' partial)"
    and "compute_hash codecs tx partial = Ok h" and "compute_hash codecs tx' partial = Ok h"
  obtains ps where "all_preimages codecs tx partial = Ok ps" and "all_preimages codecs tx' partial = Ok ps"
proof -
  from assms(3,4) obtain ps qs where p: "all_preimages codecs tx partial = Ok ps" "all_preimages codecs tx' partial = Ok qs"
    and h: "sha256 codecs (concat (map (sha256 codecs) ps)) = sha256 codecs (concat (map (sha256 codecs) qs))"
    by (auto simp: compute_hash_preimages final_hash_def)
  note inj = assms(2) [unfolded hashed_def p sum.case]
  have "concat (map (sha256 codecs) ps) = concat (map (sha256 codecs) qs)" by (rule inj_onD [OF inj h]) simp_all
  then have "map (sha256 codecs) ps = map (sha256 codecs) qs" by (rule concat_equal_lengths [where n = 32]) (auto simp: assms(1))
  then have "ps = qs" by (rule map_inj_on) (auto intro: inj_on_subset [OF inj])
  with p show thesis by (intro that) simp_all
qed

text \<open>The lengths that the protocol prescribes for the fields of an output.\<close>

definition wf_output :: "RpcTokenOutput \<Rightarrow> bool" where
  "wf_output x \<longleftrightarrow>
     length (ro_owner_public_key x) = 33 \<and> length (ro_token_amount x) = 16
     \<and> pred_option (\<lambda>i. length i = 36) (ro_id x) \<and> pred_option (\<lambda>b. length b = 33) (ro_revocation_commitment x)
     \<and> pred_option (\<lambda>n. n < 2 ^ 64) (ro_withdraw_bond_sats x) \<and> pred_option (\<lambda>n. n < 2 ^ 64) (ro_withdraw_relative_block_locktime x)
     \<and> pred_option (\<lambda>b. length b = 33) (ro_token_public_key x) \<and> pred_option (\<lambda>b. length b = 32) (ro_token_identifier x)"

fun wf_inputs :: "RpcTokenInputs \<Rightarrow> bool" where
  "wf_inputs (CreateInput i) \<longleftrightarrow> ci_decimals i < 2 ^ 32"
| "wf_inputs (MintInput i) \<longleftrightarrow> True"
| "wf_inputs (TransferInput outs) \<longleftrightarrow>
     length outs < 2 ^ 32 \<and> list_all (\<lambda>x. length (prev_token_transaction_hash x) = 32 \<and> prev_token_transaction_vout x < 2 ^ 32) outs"

definition wf_tx :: "RpcTokenTransaction \<Rightarrow> bool" where
  "wf_tx tx \<longleftrightarrow>
     pred_option wf_inputs (tx_token_inputs tx) \<and> list_all wf_output (tx_token_outputs tx) \<and> length (tx_token_outputs tx) < 2 ^ 32
     \<and> length (spark_operator_identity_public_keys tx) < 2 ^ 32 \<and> length (invoice_attachments tx) < 2 ^ 32"

text \<open>The part of a transaction that its hash commits to: defaults filled in, keys and invoices in order, times in milliseconds
  and seconds, and without what a partial transaction leaves open.\<close>

fun committed_inputs :: "bool \<Rightarrow> RpcTokenInputs \<Rightarrow> RpcTokenInputs" where
  "committed_inputs partial (CreateInput i) =
     CreateInput (i\<lparr>ci_creation_entity_public_key := Some (if partial then [] else unwrap_or (ci_creation_entity_public_key i) [])\<rparr>)"
| "committed_inputs partial (MintInput i) = MintInput (i\<lparr>mi_token_identifier := Some (unwrap_or (mi_token_identifier i) (replicate 32 0))\<rparr>)"
| "committed_inputs partial (TransferInput outs) = TransferInput outs"

definition committed_output :: "bool \<Rightarrow> RpcTokenOutput \<Rightarrow> RpcTokenOutput" where
  "committed_output partial x =
     (let y = x\<lparr>ro_token_public_key := Some (unwrap_or (ro_token_public_key x) (replicate 33 0))\<rparr>
      in if partial
         then y\<lparr>ro_id := None, ro_revocation_commitment := None, ro_withdraw_bond_sats := None, ro_withdraw_relative_block_locktime := None\<rparr>
         else y)"

definition sorted_invoices :: "token_codecs \<Rightarrow> string list \<Rightarrow> string list" where
  "sorted_invoices codecs invoices =
     (case invoice_ids codecs 0 invoices of Ok ids \<Rightarrow> map snd (sort_key (\<lambda>(i, _). map unat i) ids) | Err _ \<Rightarrow> [])"

definition committed :: "token_codecs \<Rightarrow> bool \<Rightarrow> RpcTokenTransaction \<Rightarrow> RpcTokenTransaction" where
  "committed codecs partial tx =
     \<lparr>tx_version = tx_version tx, tx_token_inputs = map_option (committed_inputs partial) (tx_token_inputs tx),
      tx_token_outputs = map (committed_output partial) (tx_token_outputs tx),
      spark_operator_identity_public_keys = sort_key (map unat) (spark_operator_identity_public_keys tx),
      tx_expiry_time = (if partial then None
        else Some \<lparr>ts_seconds = (case tx_expiry_time tx of Some t \<Rightarrow> int (as_unsigned 64 (ts_seconds t)) | None \<Rightarrow> 0), ts_nanos = 0\<rparr>),
      tx_network = int (as_unsigned 32 (tx_network tx)),
      client_created_timestamp = map_option (\<lambda>t. \<lparr>ts_seconds = int (timestamp_ms t), ts_nanos = 0\<rparr>) (client_created_timestamp tx),
      invoice_attachments = (if tx_version tx = 1 then [] else sorted_invoices codecs (invoice_attachments tx))\<rparr>"

lemma as_unsigned_less: "as_unsigned w i < 2 ^ w"
  by (simp add: as_unsigned_def nat_less_iff)

lemma u32_bytes_inj: "m < 2 ^ 32 \<Longrightarrow> n < 2 ^ 32 \<Longrightarrow> u32_bytes m = u32_bytes n \<longleftrightarrow> m = n"
  by (simp add: u32_bytes_def to_be_bytes_inj)

lemma be_bytes8_inj: "m < 2 ^ 64 \<Longrightarrow> n < 2 ^ 64 \<Longrightarrow> to_be_bytes 8 m = to_be_bytes 8 n \<longleftrightarrow> m = n"
  by (simp add: to_be_bytes_inj)

lemma length_u32_bytes [simp]: "length (u32_bytes n) = 4"
  by (simp add: u32_bytes_def)

lemma as_bytes_inj [simp]: "as_bytes s = as_bytes t \<longleftrightarrow> s = t"
proof -
  have "inj (of_char :: char \<Rightarrow> u8)"
  proof
    fix c d assume "(of_char c :: u8) = of_char d"
    moreover have "unat (of_char c :: u8) = of_char c" for c
    proof -
      have "unat (word_of_nat (of_char c) :: u8) = of_char c mod 256" by (simp add: unat_of_nat take_bit_eq_mod)
      moreover have "(of_char c :: nat) < 256" by simp
      ultimately show ?thesis by (simp only: of_nat_of_char mod_less)
    qed
    ultimately have "(of_char c :: nat) = of_char d" by metis
    then show "c = d" by simp
  qed
  then show ?thesis by (simp add: as_bytes_def inj_map_eq_map)
qed

lemma length_as_bytes [simp]: "length (as_bytes s) = length s"
  by (simp add: as_bytes_def)

lemma counted_append:
  assumes "u32_bytes (length xs) # xs @ as = u32_bytes (length ys) # ys @ bs" and "length xs < 2 ^ 32" and "length ys < 2 ^ 32"
  shows "xs = ys \<and> as = bs"
proof -
  have "length xs = length ys" using assms u32_bytes_inj [OF assms(2,3)] by simp
  with assms(1) show ?thesis by simp
qed

lemma inputs_preimages_prefix:
  assumes "inputs_preimages partial i = Ok as" and "inputs_preimages partial i' = Ok bs" and "as @ xs = bs @ ys"
    and "pred_option wf_inputs i" and "pred_option wf_inputs i'"
  shows "map_option (committed_inputs partial) i = map_option (committed_inputs partial) i' \<and> xs = ys"
proof -
  obtain t u where i: "i = Some t" "i' = Some u" using assms(1,2) by (cases i; cases i') (simp_all add: inputs_preimages_def)
  have kinds: "u32_bytes 1 \<noteq> u32_bytes 2" "u32_bytes 1 \<noteq> u32_bytes 3" "u32_bytes 2 \<noteq> u32_bytes 3"
    by (simp_all add: u32_bytes_inj)
  show ?thesis
  proof (cases t)
    case (CreateInput a)
    with assms kinds i obtain b where "u = CreateInput b" by (cases u) (auto simp: inputs_preimages_def)
    with assms i CreateInput show ?thesis by (auto simp: inputs_preimages_def u32_bytes_inj split: if_splits)
  next
    case (MintInput a)
    with assms kinds i obtain b where "u = MintInput b" by (cases u) (auto simp: inputs_preimages_def)
    with assms i MintInput show ?thesis by (auto simp: inputs_preimages_def)
  next
    case (TransferInput a)
    with assms kinds i obtain b where u: "u = TransferInput b" by (cases u) (auto simp: inputs_preimages_def)
    let ?f = "\<lambda>x. prev_token_transaction_hash x @ u32_bytes (prev_token_transaction_vout x)"
    have eq: "u32_bytes (length (map ?f a)) # map ?f a @ xs = u32_bytes (length (map ?f b)) # map ?f b @ ys"
      using assms(1-3) unfolding i TransferInput u by (auto simp: inputs_preimages_def)
    have c: "map ?f a = map ?f b" "xs = ys" using counted_append [OF eq] assms(4,5) by (simp_all add: i TransferInput u)
    have wf: "\<forall>x \<in> set a \<union> set b. length (prev_token_transaction_hash x) = 32 \<and> prev_token_transaction_vout x < 2 ^ 32"
      using assms(4,5) by (auto simp: i TransferInput u list_all_iff)
    have "inj_on ?f (set a \<union> set b)" by (rule inj_onI) (use wf in \<open>auto simp: u32_bytes_inj\<close>)
    then have "a = b" using c(1) by (metis inj_on_map_eq_map)
    with c(2) i TransferInput u show ?thesis by simp
  qed
qed

lemma output_preimage_inj:
  assumes "output_preimage partial x = Ok b" and "output_preimage partial y = Ok b" and "wf_output x" and "wf_output y"
  shows "committed_output partial x = committed_output partial y"
proof (cases partial)
  case True
  with assms show ?thesis
    by (auto simp: output_preimage_def ok_or_def wf_output_def committed_output_def Let_def split: option.splits)
next
  case False
  let ?id = "\<lambda>x. case ro_id x of Some i \<Rightarrow> as_bytes i | None \<Rightarrow> []"
  have parts: "\<exists>r bond lock tid. ro_revocation_commitment x = Some r \<and> ro_withdraw_bond_sats x = Some bond
      \<and> ro_withdraw_relative_block_locktime x = Some lock \<and> ro_token_identifier x = Some tid
      \<and> b = ?id x @ ro_owner_public_key x @ r @ to_be_bytes 8 bond @ to_be_bytes 8 lock
          @ unwrap_or (ro_token_public_key x) (replicate 33 0) @ tid @ ro_token_amount x"
    if "output_preimage partial x = Ok b" for x
    using that False by (auto simp: output_preimage_def ok_or_def split: option.splits)
  from parts [OF assms(1)] obtain r bond lock tid where x: "ro_revocation_commitment x = Some r" "ro_withdraw_bond_sats x = Some bond"
    "ro_withdraw_relative_block_locktime x = Some lock" "ro_token_identifier x = Some tid"
    "b = ?id x @ ro_owner_public_key x @ r @ to_be_bytes 8 bond @ to_be_bytes 8 lock
          @ unwrap_or (ro_token_public_key x) (replicate 33 0) @ tid @ ro_token_amount x" by blast
  from parts [OF assms(2)] obtain r' bond' lock' tid' where y: "ro_revocation_commitment y = Some r'" "ro_withdraw_bond_sats y = Some bond'"
    "ro_withdraw_relative_block_locktime y = Some lock'" "ro_token_identifier y = Some tid'"
    "b = ?id y @ ro_owner_public_key y @ r' @ to_be_bytes 8 bond' @ to_be_bytes 8 lock'
          @ unwrap_or (ro_token_public_key y) (replicate 33 0) @ tid' @ ro_token_amount y" by blast
  note wf = assms(3,4) [unfolded wf_output_def x(1-4) y(1-4) option.pred_inject]
  have pk: "length (unwrap_or (ro_token_public_key x) (replicate 33 0)) = 33" "length (unwrap_or (ro_token_public_key y) (replicate 33 0)) = 33"
    using wf by (cases "ro_token_public_key x"; cases "ro_token_public_key y"; simp)+
  have "length (?id x) = length (?id y)" using arg_cong [OF x(5) [unfolded y(5)], of length] wf pk by simp
  with x(5) y(5) have ids: "?id x = ?id y" and rest: "ro_owner_public_key x @ r @ to_be_bytes 8 bond @ to_be_bytes 8 lock
          @ unwrap_or (ro_token_public_key x) (replicate 33 0) @ tid @ ro_token_amount x
      = ro_owner_public_key y @ r' @ to_be_bytes 8 bond' @ to_be_bytes 8 lock'
          @ unwrap_or (ro_token_public_key y) (replicate 33 0) @ tid' @ ro_token_amount y"
    by (metis append_eq_append_conv)+
  have "ro_id x = ro_id y" using ids wf by (cases "ro_id x"; cases "ro_id y") (auto dest: arg_cong [of _ _ length])
  moreover have "ro_owner_public_key x = ro_owner_public_key y" "r = r'" "bond = bond'" "lock = lock'" "tid = tid'"
      "ro_token_amount x = ro_token_amount y"
      "unwrap_or (ro_token_public_key x) (replicate 33 0) = unwrap_or (ro_token_public_key y) (replicate 33 0)"
    using rest wf pk by (simp_all add: be_bytes8_inj)
  ultimately show ?thesis using x(1-4) y(1-4) False by (simp add: committed_output_def Let_def)
qed

text \<open>The list of byte strings, part by part.\<close>

definition trailer :: "token_codecs \<Rightarrow> RpcTokenTransaction \<Rightarrow> bool \<Rightarrow> Timestamp \<Rightarrow> u8 list list \<Rightarrow> u8 list list" where
  "trailer codecs tx partial created invoices =
     u32_bytes (as_unsigned 32 (tx_network tx)) # to_be_bytes 8 (timestamp_ms created)
     # (if partial then []
        else [to_be_bytes 8 (case tx_expiry_time tx of Some t \<Rightarrow> as_unsigned 64 (ts_seconds t) | None \<Rightarrow> 0)])
     @ (if tx_version tx = 1 then [] else u32_bytes (length invoices) # invoices)"

lemma invoice_ids_length: "invoice_ids codecs i xs = Ok ids \<Longrightarrow> length ids = length xs"
  by (induction xs arbitrary: i ids) (auto split: if_splits)

lemma all_preimages_parts:
  assumes "all_preimages codecs tx partial = Ok ps"
  obtains ins outs created where "inputs_preimages partial (tx_token_inputs tx) = Ok ins"
    and "map (output_preimage partial) (tx_token_outputs tx) = map Ok outs"
    and "client_created_timestamp tx = Some created"
    and "ps = u32_bytes (tx_version tx) # ins @ u32_bytes (length outs) # outs
          @ u32_bytes (length (sort_key (map unat) (spark_operator_identity_public_keys tx)))
          # sort_key (map unat) (spark_operator_identity_public_keys tx)
          @ trailer codecs tx partial created (map as_bytes (sorted_invoices codecs (invoice_attachments tx)))"
    and "tx_version tx \<noteq> 1 \<Longrightarrow> length (sorted_invoices codecs (invoice_attachments tx)) = length (invoice_attachments tx)"
proof -
  from assms obtain cs where c: "common_preimages tx partial = Ok cs"
    and inv: "if tx_version tx = 1 then ps = cs else \<exists>qs. invoice_preimages codecs tx = Ok qs \<and> ps = cs @ qs"
    by (auto simp: all_preimages_def split: if_splits)
  from c obtain ins outs created where i: "inputs_preimages partial (tx_token_inputs tx) = Ok ins"
    and o': "map (output_preimage partial) (tx_token_outputs tx) = map Ok outs" and t: "client_created_timestamp tx = Some created"
    and cs: "cs = u32_bytes (tx_version tx) # ins @ u32_bytes (length (tx_token_outputs tx)) # outs
          @ u32_bytes (length (sort_key (map unat) (spark_operator_identity_public_keys tx)))
          # sort_key (map unat) (spark_operator_identity_public_keys tx)
          @ u32_bytes (as_unsigned 32 (tx_network tx)) # to_be_bytes 8 (timestamp_ms created)
              # (if partial then []
                 else [to_be_bytes 8 (case tx_expiry_time tx of Some t \<Rightarrow> as_unsigned 64 (ts_seconds t) | None \<Rightarrow> 0)])"
    by (cases "client_created_timestamp tx") (auto simp: common_preimages_def collect_ok_eq ok_or_def Let_def)
  have len: "length outs = length (tx_token_outputs tx)" using o' by (metis length_map)
  have q: "\<exists>ids. invoice_ids codecs 0 (invoice_attachments tx) = Ok ids
      \<and> qs = u32_bytes (length (invoice_attachments tx)) # map as_bytes (sorted_invoices codecs (invoice_attachments tx))"
    if "invoice_preimages codecs tx = Ok qs" for qs
    using that by (auto simp: invoice_preimages_def sorted_invoices_def case_prod_beta)
  have sl: "length (sorted_invoices codecs (invoice_attachments tx)) = length (invoice_attachments tx)" if "tx_version tx \<noteq> 1"
    using inv that q invoice_ids_length by (fastforce simp: sorted_invoices_def)
  show thesis
  proof (rule that [OF i o' t _ sl])
    show "ps = u32_bytes (tx_version tx) # ins @ u32_bytes (length outs) # outs
          @ u32_bytes (length (sort_key (map unat) (spark_operator_identity_public_keys tx)))
          # sort_key (map unat) (spark_operator_identity_public_keys tx)
          @ trailer codecs tx partial created (map as_bytes (sorted_invoices codecs (invoice_attachments tx)))"
      using inv q sl by (auto simp: cs len trailer_def split: if_splits)
  qed
qed

lemma trailer_inj:
  assumes "trailer codecs tx partial created (map as_bytes xs) = trailer codecs tx' partial created' (map as_bytes ys)"
    and "tx_version tx = tx_version tx'"
  shows "as_unsigned 32 (tx_network tx) = as_unsigned 32 (tx_network tx') \<and> timestamp_ms created = timestamp_ms created'
    \<and> (partial \<or> (case tx_expiry_time tx of Some t \<Rightarrow> as_unsigned 64 (ts_seconds t) | None \<Rightarrow> 0)
          = (case tx_expiry_time tx' of Some t \<Rightarrow> as_unsigned 64 (ts_seconds t) | None \<Rightarrow> 0))
    \<and> (tx_version tx = 1 \<or> xs = ys)"
proof -
  have ms: "timestamp_ms t < 2 ^ 64" for t by (simp add: timestamp_ms_def wadd_def)
  have ex: "(case e of Some t \<Rightarrow> as_unsigned 64 (ts_seconds t) | None \<Rightarrow> 0) < 2 ^ 64" for e
    using as_unsigned_less [of 64] by (simp split: option.split)
  have "inj (map as_bytes)" by (rule inj_mapI) (simp add: inj_def)
  with assms show ?thesis
    by (auto simp: trailer_def u32_bytes_inj [OF as_unsigned_less as_unsigned_less] be_bytes8_inj [OF ms ms] be_bytes8_inj [OF ex ex]
        inj_eq split: if_splits)
qed


text \<open>Sample data: a stand-in for the hash that tells the sample strings apart by their length and sum.\<close>

definition sample_codecs :: token_codecs where
  "sample_codecs =
     \<lparr>sha256 = (\<lambda>x. word_of_nat (length x) # sum_list x # replicate 30 0), hex_encode = (\<lambda>_. []), hex_decode = (\<lambda>_. Some []),
      serialize_key = (\<lambda>_. []), parse_key = (\<lambda>_. Some []), bech32m_encode = (\<lambda>_ _. Ok []), bech32m_decode = (\<lambda>_. Ok (''btkn'', [])),
      parse_spark_address = (\<lambda>_. Err []), is_nfc = (\<lambda>_. True)\<rparr>"

definition sample_mint :: "u8 list list \<Rightarrow> RpcTokenTransaction" where
  "sample_mint keys =
     \<lparr>tx_version = 1, tx_token_inputs = Some (MintInput \<lparr>mi_issuer_public_key = [9], mi_token_identifier = None\<rparr>),
      tx_token_outputs = [], spark_operator_identity_public_keys = keys, tx_expiry_time = None, tx_network = 1,
      client_created_timestamp = Some \<lparr>ts_seconds = 0, ts_nanos = 0\<rparr>, invoice_attachments = []\<rparr>"

abbreviation sample_strings :: "u8 list list" where
  "sample_strings \<equiv> [[0, 0, 0, 1], [0, 0, 0, 2], [9], replicate 32 0, [0, 0, 0, 0], [0, 0, 0, 2], [1], [2], [0, 0, 0, 1], [0, 0, 0, 0, 0, 0, 0, 0]]"

lemma sample_u32: "u32_bytes 0 = [0, 0, 0, 0]" "u32_bytes (Suc 0) = [0, 0, 0, 1]" "u32_bytes (Suc (Suc 0)) = [0, 0, 0, 2]" "u32_bytes 2 = [0, 0, 0, 2]"
  by (simp_all add: u32_bytes_def to_be_bytes_def to_le_bytes_def upt_rec)

lemma sample_preimages:
  assumes "sort_key (map unat) keys = [[1], [2]]"
  shows "all_preimages sample_codecs (sample_mint keys) True = Ok sample_strings"
proof -
  have "length keys = 2" using arg_cong [OF assms, of length] by simp
  then show ?thesis
    by (simp add: all_preimages_def common_preimages_def sample_mint_def inputs_preimages_def ok_or_def assms as_unsigned_def
        timestamp_ms_def wadd_def sample_u32)
      (simp add: to_be_bytes_def to_le_bytes_def upt_rec)
qed

lemma sample_sha_inj:
  "inj_on (sha256 sample_codecs) (insert (concat (map (sha256 sample_codecs) sample_strings)) (set sample_strings))"
proof -
  let ?big = "concat (map (sha256 sample_codecs) sample_strings)"
  have "length ?big = 320" by (simp add: sample_codecs_def)
  then have big: "hd (sha256 sample_codecs ?big) = 64" by (simp add: sample_codecs_def)
  have "inj_on (sha256 sample_codecs) (set sample_strings)" by (simp add: sample_codecs_def inj_on_def)
  moreover have small: "hd (sha256 sample_codecs x) \<noteq> 64" if "x \<in> set sample_strings" for x using that by (auto simp: sample_codecs_def)
  have "sha256 sample_codecs ?big \<notin> sha256 sample_codecs ` (set sample_strings - {?big})"
  proof
    assume "sha256 sample_codecs ?big \<in> sha256 sample_codecs ` (set sample_strings - {?big})"
    then obtain x where x: "x \<in> set sample_strings - {?big}" "sha256 sample_codecs ?big = sha256 sample_codecs x" by (rule imageE) (rule that)
    from small [OF DiffD1 [OF x(1)]] big show False unfolding x(2) by (rule notE)
  qed
  ultimately show ?thesis unfolding inj_on_insert by (rule conjI)
qed


section \<open>What validation leaves open\<close>

text \<open>The final transaction with another token in its outputs, other terms of a token that it creates, and other invoices.\<close>

fun with_terms :: "string \<Rightarrow> string \<Rightarrow> u32 \<Rightarrow> u8 list \<Rightarrow> RpcTokenInputs \<Rightarrow> RpcTokenInputs" where
  "with_terms name ticker' decimals' supply (CreateInput i) =
     CreateInput (i\<lparr>ci_token_name := name, ci_token_ticker := ticker', ci_decimals := decimals', ci_max_supply := supply\<rparr>)"
| "with_terms name ticker' decimals' supply i = i"

definition altered_tx :: "u8 list \<Rightarrow> (RpcTokenInputs \<Rightarrow> RpcTokenInputs) \<Rightarrow> string list \<Rightarrow> RpcTokenTransaction \<Rightarrow> RpcTokenTransaction" where
  "altered_tx tid g invoices f =
     f\<lparr>tx_token_inputs := map_option g (tx_token_inputs f),
       tx_token_outputs := map (\<lambda>x. x\<lparr>ro_token_identifier := Some tid\<rparr>) (tx_token_outputs f), invoice_attachments := invoices\<rparr>"

lemma validate_outputs_altered:
  "validate_outputs config (zip ps (map (\<lambda>x. x\<lparr>ro_token_identifier := t\<rparr>) fs)) = validate_outputs config (zip ps fs)"
proof (induction ps arbitrary: fs)
  case (Cons p ps)
  then show ?case by (cases fs) simp_all
qed simp

lemma validate_inputs_altered: "validate_inputs pi (with_terms a b c d fi) = validate_inputs pi fi"
  by (cases pi; cases fi) (simp_all add: validate_inputs_def)

text \<open>Validation does not look at the token of an output, at the attached invoices or, when a token is created, at its name,
  ticker, decimals and maximal supply: the coordinator may change them and the wallet signs the result.\<close>

theorem validation_leaves_open:
  "validate_token_transaction env p (altered_tx tid (with_terms name ticker' decimals' supply) invoices f) ks =
   validate_token_transaction env p f ks"
  by (cases "tx_token_inputs f")
    (simp_all add: validate_token_transaction_def altered_tx_def validate_outputs_altered validate_inputs_altered ok_or_def)

section \<open>What is built\<close>

lemma collect_ok_map: "collect_ok (map f xs) = Ok ys \<longleftrightarrow> length ys = length xs \<and> (\<forall>i < length xs. f (xs ! i) = Ok (ys ! i))"
  unfolding collect_ok_eq by (auto simp: list_eq_iff_nth_eq)

lemma collect_ok_map2: "collect_ok (map f xs) = Ok ys \<Longrightarrow> list_all2 (\<lambda>x y. f x = Ok y) xs ys"
  by (simp add: collect_ok_map list_all2_conv_all_nth)

definition paid_by :: "builder_env \<Rightarrow> TransferTokenOutput \<Rightarrow> RpcTokenOutput \<Rightarrow> bool" where
  "paid_by env r x \<longleftrightarrow>
     ro_owner_public_key x = serialize_key (be_codecs env) (identity_public_key (receiver_address r))
     \<and> from_be_bytes (ro_token_amount x) = tto_amount r
     \<and> (\<exists>tid. ro_token_identifier x = Some tid \<and> bech32m_decode_token_id (be_codecs env) (tto_token_id r) (Some (be_network env)) = Ok tid)"

lemma receiver_output_paid: "receiver_output env r = Ok x \<Longrightarrow> tto_amount r < 2 ^ 128 \<Longrightarrow> paid_by env r x"
  by (cases "bech32m_decode_token_id (be_codecs env) (tto_token_id r) (Some (be_network env))")
    (auto simp: receiver_output_def invalid_token_id_def map_err_def paid_by_def plain_output_def)

lemma outputs_paid:
  assumes "collect_ok (map (receiver_output env) rs) = Ok xs" and "sum_list (map tto_amount rs) < 2 ^ 128"
  shows "list_all2 (paid_by env) rs xs"
proof -
  have "tto_amount r < 2 ^ 128" if "r \<in> set rs" for r
    using member_le_sum_list [of "tto_amount r" "map tto_amount rs"] that assms(2) by simp
  then show ?thesis
    using collect_ok_map2 [OF assms(1)] by (auto elim!: list.rel_mono_strong intro: receiver_output_paid)
qed

lemma paid_total:
  "list_all2 (paid_by env) rs xs \<Longrightarrow> sum_list (map (\<lambda>x. from_be_bytes (ro_token_amount x)) xs) = sum_list (map tto_amount rs)"
  by (induction rule: list_all2_induct) (simp_all add: paid_by_def)

lemma with_change_total:
  assumes "with_change env inputs rs = Some rs'"
    and "sum_list (amounts_of inputs) < 2 ^ 128" and "sum_list (map tto_amount rs) \<le> sum_list (amounts_of inputs)"
  obtains change where "rs' = rs @ change" and "sum_list (map tto_amount rs') = sum_list (amounts_of inputs)"
    and "\<forall>c \<in> set change. receiver_address c = own_address env" and "length change \<le> 1"
  using assms by (cases rs) (auto simp: with_change_def Let_def split: if_splits)

lemma spent_in_order:
  assumes "collect_ok (map (output_to_spend codecs) ws) = Ok spent"
  shows "map (\<lambda>x. (Some (prev_token_transaction_hash x), prev_token_transaction_vout x)) spent
       = map (\<lambda>w. (hex_decode codecs (prev_tx_hash w), prev_tx_vout w)) ws"
  using collect_ok_map2 [OF assms] by (induction rule: list_all2_induct) (auto simp: output_to_spend_def ok_or_def split: option.splits)

lemma sum_sorted_amounts: "sum_list (amounts_of (sort_key f ws)) = sum_list (amounts_of ws)"
proof -
  have "mset (amounts_of (sort_key f ws)) = mset (amounts_of ws)" by simp
  then show ?thesis by (metis sum_mset_sum_list)
qed

text \<open>C23. A transfer is built from exactly the given inputs, ordered by output number, pays every receiver the amount asked for and
  the rest, in one output, to the wallet itself: no token amount is created or lost.\<close>

theorem build_transfer_conserves:
  assumes "build_transfer_token_transaction env now inputs receivers = Some (Ok tx)"
    and "sum_list (amounts_of inputs) < 2 ^ 128" and "sum_list (map tto_amount receivers) \<le> sum_list (amounts_of inputs)"
  shows "\<exists>spent paid change.
     tx_token_inputs tx = Some (TransferInput spent) \<and> tx_token_outputs tx = paid @ change
     \<and> map (\<lambda>x. (Some (prev_token_transaction_hash x), prev_token_transaction_vout x)) spent
       = map (\<lambda>w. (hex_decode (be_codecs env) (prev_tx_hash w), prev_tx_vout w)) (sort_key prev_tx_vout inputs)
     \<and> list_all2 (paid_by env) receivers paid
     \<and> list_all (\<lambda>x. ro_owner_public_key x = serialize_key (be_codecs env) (be_identity env)) change \<and> length change \<le> 1
     \<and> sum_list (map (\<lambda>x. from_be_bytes (ro_token_amount x)) (paid @ change)) = sum_list (amounts_of inputs)"
proof -
  obtain rs spent xs where rs: "with_change env (sort_key prev_tx_vout inputs) receivers = Some rs"
    and spent: "collect_ok (map (output_to_spend (be_codecs env)) (sort_key prev_tx_vout inputs)) = Ok spent"
    and xs: "collect_ok (map (receiver_output env) rs) = Ok xs"
    and tx: "tx_token_inputs tx = Some (TransferInput spent)" "tx_token_outputs tx = xs"
    using assms(1) by (auto simp: build_transfer_token_transaction_def Let_def build_token_transaction_def)
  obtain change where rs': "rs = receivers @ change" and total: "sum_list (map tto_amount rs) = sum_list (amounts_of inputs)"
    and own: "\<forall>c \<in> set change. receiver_address c = own_address env" and one: "length change \<le> 1"
    using with_change_total [OF rs] assms(2,3) by (metis sum_sorted_amounts)
  have all: "list_all2 (paid_by env) rs xs" using outputs_paid [OF xs] total assms(2) by simp
  then obtain paid rest where split: "xs = paid @ rest" "list_all2 (paid_by env) receivers paid" "list_all2 (paid_by env) change rest"
    unfolding rs' list_all2_append1 by blast
  have "list_all (\<lambda>x. ro_owner_public_key x = serialize_key (be_codecs env) (be_identity env)) rest"
    using split(3) own by (induction rule: list_all2_induct) (simp_all add: paid_by_def own_address_def)
  moreover have "length rest \<le> 1" using one list_all2_lengthD [OF split(3)] by simp
  moreover have "sum_list (map (\<lambda>x. from_be_bytes (ro_token_amount x)) (paid @ rest)) = sum_list (amounts_of inputs)"
    using paid_total [OF all] total unfolding split(1) by simp
  ultimately show ?thesis using tx spent_in_order [OF spent] split(1,2) by blast
qed

definition sample_coin :: "u128 \<Rightarrow> u32 \<Rightarrow> TokenOutputWithPrevOut" where
  "sample_coin amount vout =
     \<lparr>tw_output = \<lparr>to_id = ''o'', owner_public_key = ''me'', revocation_commitment = '''', withdraw_bond_sats = 0,
        withdraw_relative_block_locktime = 0, token_public_key = None, token_identifier = ''t'', token_amount = amount\<rparr>,
      prev_tx_hash = ''aa'', prev_tx_vout = vout\<rparr>"

definition sample_builder :: builder_env where
  "sample_builder = \<lparr>be_codecs = sample_codecs\<lparr>bech32m_decode := \<lambda>s. Ok (''btkn'', [7]), hex_decode := \<lambda>s. Some [5],
     serialize_key := map (\<lambda>c. of_char c)\<rparr>, be_identity = ''A'', be_operator_keys = [''D''], be_network = Mainnet\<rparr>"

definition sample_receiver :: TransferTokenOutput where
  "sample_receiver = \<lparr>tto_token_id = ''t'', tto_amount = 5,
     receiver_address = \<lparr>identity_public_key = ''B'', address_network = Mainnet, spark_invoice_id = None\<rparr>, tto_spark_invoice = None\<rparr>"

definition sample_transfer :: RpcTokenTransaction where
  "sample_transfer =
     \<lparr>tx_version = 2,
      tx_token_inputs = Some (TransferInput [\<lparr>prev_token_transaction_hash = [5], prev_token_transaction_vout = 0\<rparr>,
                                             \<lparr>prev_token_transaction_hash = [5], prev_token_transaction_vout = 1\<rparr>]),
      tx_token_outputs = [plain_output [66] [7] 5, plain_output [65] [7] 2], spark_operator_identity_public_keys = [[68]],
      tx_expiry_time = None, tx_network = 1, client_created_timestamp = Some \<lparr>ts_seconds = 9, ts_nanos = 0\<rparr>,
      invoice_attachments = []\<rparr>"

theorem build_transfer_conserves_witness:
  "sum_list (map (\<lambda>x. from_be_bytes (ro_token_amount x)) (tx_token_outputs sample_transfer)) = 7
   \<and> build_transfer_token_transaction sample_builder (Some \<lparr>ts_seconds = 9, ts_nanos = 0\<rparr>) [sample_coin 4 1, sample_coin 3 0]
       [sample_receiver] = Some (Ok sample_transfer)"
proof -
  have built: "build_transfer_token_transaction sample_builder (Some \<lparr>ts_seconds = 9, ts_nanos = 0\<rparr>)
      [sample_coin 4 1, sample_coin 3 0] [sample_receiver] = Some (Ok sample_transfer)"
    by (simp add: build_transfer_token_transaction_def sample_coin_def sample_builder_def sample_receiver_def sample_transfer_def
        with_change_def output_to_spend_def receiver_output_def invalid_token_id_def map_err_def bech32m_decode_token_id_def
        build_token_transaction_def own_address_def ok_or_def List.map_filter_def Let_def)
  have "sum_list (map (\<lambda>x. from_be_bytes (ro_token_amount x)) (tx_token_outputs sample_transfer)) = 7"
    using build_transfer_conserves [OF built] by (auto simp: sample_coin_def sample_receiver_def)
  with built show ?thesis by simp
qed

end
