(* ===== verification/Token_Service.thy ===== *)
theory Token_Service
  imports Token_Transactions
begin

text \<open>
  Token payments: \<open>SynchronousTokenOutputService\<close> of \<open>crates/spark/src/token/service.rs\<close> and \<open>TokenService\<close> of
  \<open>crates/spark/src/services/tokens.rs\<close>, over the in-memory token output store. The state is the store, the list of the transactions
  sent to the coordinator for commitment with its answers, and a counter that numbers the calls to the world outside; the record
  \<open>token_service_env\<close> gives the answer to each: clocks, signer, coordinator, observer, new identifiers. An operation runs alone on the
  store. Waiting between retries and logging have no effect in the model.

  A loop of retries is a recursion on the retries that are left, so every operation returns. Whatever is answered, no
  reservation stays behind as long as the signer tells the key of the wallet, and the receivers are paid at most once.
\<close>

section \<open>State and environment\<close>

record token_world =
  tw_store :: TokenOutputsState
  tw_calls :: nat
  tw_commits :: "(RpcTokenTransaction \<times> bool) list"

record RpcOutputWithPreviousTransactionData =
  op_output :: "RpcTokenOutput option"
  op_previous_transaction_hash :: "u8 list"
  op_previous_transaction_vout :: u32

record RpcTokenMetadata =
  rm_issuer_public_key :: "u8 list"
  rm_token_name :: string
  rm_token_ticker :: string
  rm_decimals :: u32
  rm_max_supply :: "u8 list"
  rm_is_freezable :: bool
  rm_creation_entity_public_key :: "u8 list option"
  rm_token_identifier :: "u8 list"

type_synonym SignatureWithIndex = "u8 list \<times> u32"

record StartTransactionRequest =
  st_identity_public_key :: "u8 list"
  st_partial_token_transaction :: RpcTokenTransaction
  st_owner_signatures :: "SignatureWithIndex list"
  st_validity_duration_seconds :: u64

record StartTransactionResponse =
  final_token_transaction :: "RpcTokenTransaction option"
  keyshare_info :: "RpcSigningKeyshare option"

record CommitTransactionRequest =
  ct_final_token_transaction :: RpcTokenTransaction
  ct_final_token_transaction_hash :: "u8 list"
  ct_signatures_per_operator :: "(SignatureWithIndex list \<times> u8 list) list"
  ct_owner_identity_public_key :: "u8 list"

record RpcFreezeResponse =
  fz_impacted_output_ids :: "string list"
  fz_impacted_token_amount :: "u8 list"

record token_service_env =
  se_builder :: builder_env
  se_validation :: validation_env
  se_preempted :: "string \<Rightarrow> bool"
  se_identity :: "nat \<Rightarrow> SignerError + public_key"
  se_sign :: "nat \<Rightarrow> u8 list \<Rightarrow> SignerError + u8 list"
  se_clock :: "nat \<Rightarrow> system_time"
  se_created_at :: "nat \<Rightarrow> Timestamp option"
  se_new_id :: "nat \<Rightarrow> TokenOutputsReservationId"
  se_query_outputs :: "nat \<Rightarrow> u8 list \<Rightarrow> int \<Rightarrow> string + RpcOutputWithPreviousTransactionData list"
  se_query_metadata :: "nat \<Rightarrow> u8 list list \<Rightarrow> u8 list list \<Rightarrow> string + RpcTokenMetadata list"
  se_start :: "nat \<Rightarrow> StartTransactionRequest \<Rightarrow> string + StartTransactionResponse"
  se_commit :: "nat \<Rightarrow> CommitTransactionRequest \<Rightarrow> string + unit"
  se_observer :: "(nat \<Rightarrow> string \<Rightarrow> string \<Rightarrow> (string \<times> u128) list \<Rightarrow> string + unit) option"
  se_address_string :: "SparkAddress \<Rightarrow> string option"
  se_freeze :: "nat \<Rightarrow> FreezeIssuerTokenPayload \<Rightarrow> u8 list \<Rightarrow> string + RpcFreezeResponse"

abbreviation se_codecs :: "token_service_env \<Rightarrow> token_codecs" where
  "se_codecs env \<equiv> be_codecs (se_builder env)"

abbreviation se_network :: "token_service_env \<Rightarrow> Network" where
  "se_network env \<equiv> be_network (se_builder env)"

type_synonym 'a service = "token_world \<Rightarrow> token_world \<times> (ServiceError + 'a)"
type_synonym 'a output_service = "token_world \<Rightarrow> token_world \<times> (TokenOutputServiceError + 'a)"

text \<open>One call to the world outside.\<close>

definition ask :: "(nat \<Rightarrow> 'e + 'a) \<Rightarrow> token_world \<Rightarrow> token_world \<times> ('e + 'a)" where
  "ask f w = (w\<lparr>tw_calls := Suc (tw_calls w)\<rparr>, f (tw_calls w))"

definition on_store :: "(TokenOutputsState \<Rightarrow> TokenOutputsState) \<Rightarrow> token_world \<Rightarrow> token_world \<times> ('e + unit)" where
  "on_store f w = (w\<lparr>tw_store := f (tw_store w)\<rparr>, Ok ())"

definition get_identity_public_key :: "token_service_env \<Rightarrow> public_key service" where
  "get_identity_public_key env = ask (\<lambda>n. map_err SvSignerError (se_identity env n))"

definition sign_hash :: "token_service_env \<Rightarrow> u8 list \<Rightarrow> u8 list service" where
  "sign_hash env h = ask (\<lambda>n. map_err SvSignerError (se_sign env n h))"

section \<open>Conversions\<close>

definition token_metadata_try_from :: "token_codecs \<Rightarrow> Network \<Rightarrow> RpcTokenMetadata \<Rightarrow> ServiceError + TokenMetadata" where
  "token_metadata_try_from codecs network md =
     rbind (bech32m_encode_token_id codecs (rm_token_identifier md) network) (\<lambda>identifier.
     rbind (parsed codecs ''Invalid issuer public key'' (rm_issuer_public_key md)) (\<lambda>issuer.
     rbind (be_u128 ''Invalid max supply'' (rm_max_supply md)) (\<lambda>supply.
     rbind (parsed_opt codecs ''Invalid creation entity public key'' (rm_creation_entity_public_key md)) (\<lambda>entity.
       Ok \<lparr>tm_identifier = identifier, issuer_public_key = issuer, tm_name = rm_token_name md, ticker = rm_token_ticker md,
           decimals = rm_decimals md, max_supply = supply, is_freezable = rm_is_freezable md,
           creation_entity_public_key = entity\<rparr>))))"

definition token_output_with_prev_out_try_from ::
  "token_codecs \<Rightarrow> Network \<Rightarrow> RpcOutputWithPreviousTransactionData \<Rightarrow> ServiceError + TokenOutputWithPrevOut" where
  "token_output_with_prev_out_try_from codecs network x =
     rbind (ok_or (op_output x) (SvGeneric ''Missing token output'')) (\<lambda>out.
     rbind (token_output_try_from codecs network out) (\<lambda>output.
       Ok \<lparr>tw_output = output, prev_tx_hash = hex_encode codecs (op_previous_transaction_hash x),
           prev_tx_vout = op_previous_transaction_vout x\<rparr>))"

record FreezeIssuerTokenResponse =
  impacted_output_ids :: "string list"
  impacted_token_amount :: u128

definition freeze_response_try_from :: "RpcFreezeResponse \<Rightarrow> ServiceError + FreezeIssuerTokenResponse" where
  "freeze_response_try_from r =
     rbind (map_err (\<lambda>_. SvGeneric ''Invalid impacted token amount'') (from_unpadded_be_bytes (fz_impacted_token_amount r)))
       (\<lambda>amount. Ok \<lparr>impacted_output_ids = fz_impacted_output_ids r, impacted_token_amount = amount\<rparr>)"

section \<open>The token output service\<close>

fun group_outputs ::
  "token_codecs \<Rightarrow> Network \<Rightarrow> RpcOutputWithPreviousTransactionData list \<Rightarrow> (u8 list, TokenOutputWithPrevOut list) hmap \<Rightarrow>
   ServiceError + (u8 list, TokenOutputWithPrevOut list) hmap" where
  "group_outputs codecs network [] m = Ok m"
| "group_outputs codecs network (x # xs) m =
     (case op_output x of
        None \<Rightarrow> group_outputs codecs network xs m
      | Some output \<Rightarrow>
          let token_id = unwrap_or (ro_token_identifier output) [] in
          rbind (token_output_with_prev_out_try_from codecs network x) (\<lambda>token_output.
            group_outputs codecs network xs (hm_insert token_id (unwrap_or (hm_get m token_id) [] @ [token_output]) m)))"

definition with_metadata ::
  "token_codecs \<Rightarrow> Network \<Rightarrow> RpcTokenMetadata list \<Rightarrow> u8 list \<times> TokenOutputWithPrevOut list \<Rightarrow> TokenOutputServiceError + TokenOutputs" where
  "with_metadata codecs network md entry =
     rbind (ok_or (find (\<lambda>m. rm_token_identifier m = fst entry) md) (TkGeneric ''Metadata not found'')) (\<lambda>m.
     rbind (map_err TkServiceError (token_metadata_try_from codecs network m)) (\<lambda>metadata.
       Ok \<lparr>tos_metadata = metadata, tos_outputs = snd entry\<rparr>))"

definition store_refreshed :: "token_service_env \<Rightarrow> TokenOutputs list \<Rightarrow> system_time \<Rightarrow> unit output_service" where
  "store_refreshed env ts started =
     cl_bind (ask (\<lambda>n. Ok (se_clock env n))) (\<lambda>now. on_store (\<lambda>st. set_tokens_outputs now st ts started))"

definition service_refresh_tokens_outputs :: "token_service_env \<Rightarrow> unit output_service" where
  "service_refresh_tokens_outputs env =
     cl_bind (ask (\<lambda>n. Ok (se_clock env n))) (\<lambda>refresh_started_at.
     cl_bind (ask (\<lambda>n. map_err TkSignerError (se_identity env n))) (\<lambda>key.
     cl_bind (ask (\<lambda>n. map_err TkRpcError (se_query_outputs env n (serialize_key (se_codecs env) key)
                          (to_proto_network (se_network env))))) (\<lambda>outputs.
       if outputs = [] then store_refreshed env [] refresh_started_at
       else
         cl_bind (cl_lift (map_err TkServiceError (group_outputs (se_codecs env) (se_network env) outputs []))) (\<lambda>outputs_map.
         cl_bind (ask (\<lambda>n. map_err TkRpcError (se_query_metadata env n (hm_keys outputs_map) []))) (\<lambda>metadata.
           if length metadata \<noteq> length (hm_keys outputs_map) then cl_fail (TkGeneric ''Metadata not found for all tokens'')
           else
             cl_bind (cl_lift (collect_ok (map (with_metadata (se_codecs env) (se_network env) metadata) outputs_map)))
               (\<lambda>token_outputs. store_refreshed env token_outputs refresh_started_at))))))"

definition store_reserve ::
  "token_service_env \<Rightarrow> string \<Rightarrow> ReservationTarget \<Rightarrow> TokenReservationPurpose \<Rightarrow> TokenOutputWithPrevOut list option \<Rightarrow>
   SelectionStrategy option \<Rightarrow> TokenOutputsReservation output_service" where
  "store_reserve env tid target purpose preferred strategy w =
     (case reserve_token_outputs (se_new_id env (tw_calls w)) (tw_store w) tid target purpose preferred strategy of
        (st, r) \<Rightarrow> (w\<lparr>tw_store := st, tw_calls := Suc (tw_calls w)\<rparr>, r))"

fun exceeds :: "ReservationTarget \<Rightarrow> u128 \<Rightarrow> bool" where
  "exceeds (MinTotalValue amount) balance = (balance < amount)"
| "exceeds (MaxOutputCount cnt) balance = False"

fun reserve_rounds ::
  "token_service_env \<Rightarrow> nat \<Rightarrow> string \<Rightarrow> ReservationTarget \<Rightarrow> TokenReservationPurpose \<Rightarrow> TokenOutputWithPrevOut list option \<Rightarrow>
   SelectionStrategy option \<Rightarrow> TokenOutputsReservation output_service" where
  "reserve_rounds env 0 tid target purpose preferred strategy w = (w, Err TkInsufficientFunds)"
| "reserve_rounds env (Suc k) tid target purpose preferred strategy w =
     (case store_reserve env tid target purpose preferred strategy w of
        (w', Ok reservation) \<Rightarrow> (w', Ok reservation)
      | (w', Err e) \<Rightarrow>
          cl_bind (service_refresh_tokens_outputs env) (\<lambda>_ w2.
          cl_bind (cl_lift (get_token_outputs (Identifier tid) (tw_store w2))) (\<lambda>t.
            if exceeds target (token_balance t) then cl_fail TkInsufficientFunds
            else reserve_rounds env k tid target purpose preferred strategy) w2) w')"

definition SELECT_TOKEN_OUTPUTS_MAX_RETRIES :: nat where
  "SELECT_TOKEN_OUTPUTS_MAX_RETRIES = 3"

definition service_reserve_token_outputs ::
  "token_service_env \<Rightarrow> string \<Rightarrow> ReservationTarget \<Rightarrow> TokenReservationPurpose \<Rightarrow> TokenOutputWithPrevOut list option \<Rightarrow>
   SelectionStrategy option \<Rightarrow> TokenOutputsReservation output_service" where
  "service_reserve_token_outputs env = reserve_rounds env SELECT_TOKEN_OUTPUTS_MAX_RETRIES"

definition service_insert_token_outputs :: "token_service_env \<Rightarrow> TokenOutputs \<Rightarrow> unit output_service" where
  "service_insert_token_outputs env t =
     cl_bind (ask (\<lambda>n. Ok (se_clock env n))) (\<lambda>now. on_store (\<lambda>st. insert_token_outputs now st t))"

definition service_get_token_metadata :: "GetTokenOutputsFilter \<Rightarrow> TokenMetadata output_service" where
  "service_get_token_metadata flt w = (w, rbind (get_token_outputs flt (tw_store w)) (\<lambda>t. Ok (tps_metadata t)))"

definition finalize_in :: "token_service_env \<Rightarrow> token_world \<Rightarrow> TokenOutputsReservationId \<Rightarrow> token_world" where
  "finalize_in env w i =
     w\<lparr>tw_store := token_finalize_reservation (se_clock env (tw_calls w)) (tw_store w) i, tw_calls := Suc (tw_calls w)\<rparr>"

definition cancel_in :: "token_world \<Rightarrow> TokenOutputsReservationId \<Rightarrow> token_world" where
  "cancel_in w i = w\<lparr>tw_store := token_cancel_reservation (tw_store w) i\<rparr>"

definition under_reservation :: "token_service_env \<Rightarrow> TokenOutputsReservation \<Rightarrow> 'a service \<Rightarrow> 'a service" where
  "under_reservation env reservation f = with_reserved (finalize_in env) cancel_in f (tr_id reservation)"

section \<open>Metadata\<close>

abbreviation output_errors :: "'a output_service \<Rightarrow> 'a service" where
  "output_errors m \<equiv> cl_map_err SvTokenOutputServiceError m"

text \<open>The filters whose metadata is known locally, and those whose metadata is not.\<close>

fun cached_metadata :: "TokenOutputsState \<Rightarrow> ('k \<Rightarrow> GetTokenOutputsFilter) \<Rightarrow> 'k list \<Rightarrow> TokenMetadata list \<times> 'k list" where
  "cached_metadata st flt [] = ([], [])"
| "cached_metadata st flt (k # ks) =
     (case (get_token_outputs (flt k) st, cached_metadata st flt ks) of
        (Ok t, (hits, misses)) \<Rightarrow> (tps_metadata t # hits, misses)
      | (Err e, (hits, misses)) \<Rightarrow> (hits, k # misses))"

definition query_tokens_metadata :: "token_service_env \<Rightarrow> string list \<Rightarrow> public_key list \<Rightarrow> TokenMetadata list service" where
  "query_tokens_metadata env token_identifiers issuer_public_keys =
     cl_bind (cl_lift (collect_ok (map (\<lambda>i. invalid_token_id (bech32m_decode_token_id (se_codecs env) i (Some (se_network env))))
                token_identifiers))) (\<lambda>ids.
     cl_bind (ask (\<lambda>n. map_err ServiceConnectionError
                (se_query_metadata env n ids (map (serialize_key (se_codecs env)) issuer_public_keys)))) (\<lambda>md.
       cl_lift (collect_ok (map (token_metadata_try_from (se_codecs env) (se_network env)) md))))"

definition get_tokens_metadata :: "token_service_env \<Rightarrow> string list \<Rightarrow> public_key list \<Rightarrow> TokenMetadata list service" where
  "get_tokens_metadata env token_identifiers issuer_public_keys w =
     (case (cached_metadata (tw_store w) Identifier token_identifiers,
            cached_metadata (tw_store w) IssuerPublicKey issuer_public_keys) of
        ((hits, misses), (hits', misses')) \<Rightarrow>
          cl_bind (if misses = [] \<and> misses' = [] then cl_return [] else query_tokens_metadata env misses misses') (\<lambda>queried.
            cl_return (hits @ hits' @ queried)) w)"

definition get_issuer_token_metadata :: "token_service_env \<Rightarrow> TokenMetadata service" where
  "get_issuer_token_metadata env =
     cl_bind (get_identity_public_key env) (\<lambda>key.
     cl_bind (get_tokens_metadata env [] [key]) (\<lambda>mds.
       cl_lift (ok_or (case mds of [] \<Rightarrow> None | md # _ \<Rightarrow> Some md) (SvGeneric ''No issuer token found''))))"

section \<open>Starting and committing a transaction\<close>

definition signatures_for :: "RpcTokenInputs option \<Rightarrow> u8 list \<Rightarrow> ServiceError + SignatureWithIndex list" where
  "signatures_for inputs signature =
     (case inputs of
        Some (CreateInput _) \<Rightarrow> Ok [(signature, 0)]
      | Some (MintInput _) \<Rightarrow> Ok [(signature, 0)]
      | Some (TransferInput outputs_to_spend) \<Rightarrow> Ok (map (\<lambda>i. (signature, i mod 2 ^ 32)) [0..<length outputs_to_spend])
      | None \<Rightarrow> Err (SvGeneric ''Token inputs are required''))"

definition start_transaction :: "token_service_env \<Rightarrow> RpcTokenTransaction \<Rightarrow> RpcTokenTransaction service" where
  "start_transaction env partial_tx =
     cl_bind (cl_lift (compute_hash (se_codecs env) partial_tx True)) (\<lambda>partial_tx_hash.
     cl_bind (sign_hash env partial_tx_hash) (\<lambda>signature.
     cl_bind (cl_lift (signatures_for (tx_token_inputs partial_tx) signature)) (\<lambda>owner_signatures.
     cl_bind (get_identity_public_key env) (\<lambda>key.
     cl_bind (ask (\<lambda>n. map_err ServiceConnectionError (se_start env n
                \<lparr>st_identity_public_key = serialize_key (se_codecs env) key, st_partial_token_transaction = partial_tx,
                 st_owner_signatures = owner_signatures,
                 st_validity_duration_seconds = transaction_validity_duration_seconds (ve_config (se_validation env))\<rparr>))) (\<lambda>response.
     cl_bind (cl_lift (ok_or (final_token_transaction response)
                (SvGeneric ''No final transaction returned from start_transaction''))) (\<lambda>final_tx.
     cl_bind (cl_lift (ok_or (keyshare_info response)
                (SvGeneric ''No keyshare info returned from start_transaction''))) (\<lambda>keyshare.
     cl_bind (cl_lift (validate_token_transaction (se_validation env) partial_tx final_tx keyshare)) (\<lambda>_.
       cl_return final_tx))))))))"

definition operator_hash :: "token_codecs \<Rightarrow> u8 list \<Rightarrow> u8 list \<Rightarrow> u8 list" where
  "operator_hash codecs tx_hash key = sha256 codecs (sha256 codecs tx_hash @ sha256 codecs key)"

definition create_per_operator_signatures ::
  "token_service_env \<Rightarrow> RpcTokenTransaction \<Rightarrow> u8 list \<Rightarrow> (SignatureWithIndex list \<times> u8 list) list service" where
  "create_per_operator_signatures env tx tx_hash =
     cl_list (\<lambda>operator.
       let key = serialize_key (se_codecs env) operator in
       cl_bind (sign_hash env (operator_hash (se_codecs env) tx_hash key)) (\<lambda>signature.
       cl_bind (cl_lift (signatures_for (tx_token_inputs tx) signature)) (\<lambda>signatures. cl_return (signatures, key))))
       (be_operator_keys (se_builder env))"

text \<open>The request to commit, which is kept with its answer.\<close>

definition send_commit :: "token_service_env \<Rightarrow> CommitTransactionRequest \<Rightarrow> unit service" where
  "send_commit env request w =
     (let r = se_commit env (tw_calls w) request
      in (w\<lparr>tw_calls := Suc (tw_calls w), tw_commits := tw_commits w @ [(ct_final_token_transaction request, is_ok r)]\<rparr>,
          map_err ServiceConnectionError r))"

definition commit_transaction :: "token_service_env \<Rightarrow> RpcTokenTransaction \<Rightarrow> unit service" where
  "commit_transaction env final_tx =
     cl_bind (cl_lift (compute_hash (se_codecs env) final_tx False)) (\<lambda>final_tx_hash.
     cl_bind (create_per_operator_signatures env final_tx final_tx_hash) (\<lambda>per_operator_signatures.
     cl_bind (get_identity_public_key env) (\<lambda>key.
       send_commit env \<lparr>ct_final_token_transaction = final_tx, ct_final_token_transaction_hash = final_tx_hash,
         ct_signatures_per_operator = per_operator_signatures,
         ct_owner_identity_public_key = serialize_key (se_codecs env) key\<rparr>)))"

definition committed_transaction :: "token_service_env \<Rightarrow> RpcTokenTransaction \<Rightarrow> TokenTransaction service" where
  "committed_transaction env final_tx =
     cl_bind (commit_transaction env final_tx) (\<lambda>_. cl_lift (token_transaction_try_from (se_codecs env) (se_network env) final_tx))"

section \<open>Transferring\<close>

definition MAX_TOKEN_TX_INPUTS :: nat where
  "MAX_TOKEN_TX_INPUTS = 500"

definition MAX_TRANSFER_TOKEN_TOO_MANY_OUTPUTS_RETRY_ATTEMPTS :: nat where
  "MAX_TRANSFER_TOKEN_TOO_MANY_OUTPUTS_RETRY_ATTEMPTS = 3"

definition MAX_TOKEN_PREEMPTED_RETRY_ATTEMPTS :: nat where
  "MAX_TOKEN_PREEMPTED_RETRY_ATTEMPTS = 3"

text \<open>The key of the wallet is only read when there is change. Every caller names a receiver, so the transaction is there.\<close>

definition with_identity :: "token_service_env \<Rightarrow> public_key \<Rightarrow> builder_env" where
  "with_identity env key = (se_builder env)\<lparr>be_identity := key\<rparr>"

definition build_transfer :: "token_service_env \<Rightarrow> TokenOutputWithPrevOut list \<Rightarrow> TransferTokenOutput list \<Rightarrow> RpcTokenTransaction service" where
  "build_transfer env inputs receivers =
     cl_bind (if wsum 128 (map tto_amount receivers) < wsum 128 (amounts_of (sort_key prev_tx_vout inputs))
              then get_identity_public_key env else cl_return (be_identity (se_builder env))) (\<lambda>key.
     cl_bind (ask (\<lambda>n. Ok (se_created_at env n))) (\<lambda>created.
       cl_lift (the (build_transfer_token_transaction (with_identity env key) created inputs receivers))))"

definition pay_request :: "token_service_env \<Rightarrow> TransferTokenOutput \<Rightarrow> ServiceError + (string \<times> u128)" where
  "pay_request env r =
     rbind (ok_or (case tto_spark_invoice r of Some i \<Rightarrow> Some i | None \<Rightarrow> se_address_string env (receiver_address r))
              (SvGeneric ''No pay request available'')) (\<lambda>p. Ok (p, tto_amount r))"

definition before_send_token :: "token_service_env \<Rightarrow> string \<Rightarrow> string \<Rightarrow> TransferTokenOutput list \<Rightarrow> unit service" where
  "before_send_token env txid token_id receivers =
     (case se_observer env of
        None \<Rightarrow> cl_return ()
      | Some observer \<Rightarrow>
          cl_bind (cl_lift (collect_ok (map (pay_request env) receivers))) (\<lambda>requests.
            ask (\<lambda>n. map_err TransferObserverError (observer n txid token_id requests))))"

definition transfer_tokens_inner ::
  "token_service_env \<Rightarrow> string \<Rightarrow> TokenOutputWithPrevOut list \<Rightarrow> TransferTokenOutput list \<Rightarrow> TokenTransaction service" where
  "transfer_tokens_inner env token_id inputs receivers =
     (if MAX_TOKEN_TX_INPUTS < length inputs then cl_fail NeededTooManyOutputs
      else
        cl_bind (build_transfer env inputs receivers) (\<lambda>partial_tx.
        cl_bind (start_transaction env partial_tx) (\<lambda>final_tx.
        cl_bind (cl_lift (compute_hash (se_codecs env) final_tx False)) (\<lambda>h.
        cl_bind (before_send_token env (hex_encode (se_codecs env) h) token_id receivers) (\<lambda>_.
          committed_transaction env final_tx)))))"

definition as_spendable :: "TokenTransaction \<Rightarrow> (nat \<times> TokenOutput) list \<Rightarrow> TokenOutputWithPrevOut list" where
  "as_spendable tt outputs =
     map (\<lambda>(vout, output). \<lparr>tw_output = output, prev_tx_hash = tt_hash tt, prev_tx_vout = vout mod 2 ^ 32\<rparr>) outputs"

definition to_wallet :: "token_service_env \<Rightarrow> string \<Rightarrow> u128 \<Rightarrow> public_key \<Rightarrow> TransferTokenOutput" where
  "to_wallet env token_id amount key =
     \<lparr>tto_token_id = token_id, tto_amount = amount, receiver_address = own_address (with_identity env key), tto_spark_invoice = None\<rparr>"

definition optimize_token :: "token_service_env \<Rightarrow> string \<Rightarrow> unit service" where
  "optimize_token env token_id =
     cl_bind (output_errors (service_reserve_token_outputs env token_id (MaxOutputCount MAX_TOKEN_TX_INPUTS) TokenSwap None
                (Some SmallestFirst))) (\<lambda>reservation.
       let inputs = tos_outputs (tr_token_outputs reservation); amount = wsum 128 (amounts_of inputs) in
     cl_bind (get_identity_public_key env) (\<lambda>key.
     cl_bind (under_reservation env reservation
                (transfer_tokens_inner env token_id inputs [to_wallet env token_id amount key])) (\<lambda>tt.
       output_errors (service_insert_token_outputs env
         \<lparr>tos_metadata = tos_metadata (tr_token_outputs reservation),
          tos_outputs = as_spendable tt (enumerate 0 (tt_outputs tt))\<rparr>))))"

fun optimize_each :: "token_service_env \<Rightarrow> u32 \<Rightarrow> TokenOutputsPerStatus list \<Rightarrow> unit service" where
  "optimize_each env min_outputs [] = cl_return ()"
| "optimize_each env min_outputs (t # ts) =
     (if length (tps_available t) \<le> min_outputs then optimize_each env min_outputs ts
      else cl_bind (optimize_token env (tm_identifier (tps_metadata t))) (\<lambda>_. optimize_each env min_outputs ts))"

definition optimize_token_outputs :: "token_service_env \<Rightarrow> string option \<Rightarrow> u32 \<Rightarrow> unit service" where
  "optimize_token_outputs env wanted min_outputs_threshold w =
     (if min_outputs_threshold \<le> 1 then (w, Err (ValidationError ''min_outputs_threshold must be greater than 1''))
      else
        let outputs = list_tokens_outputs (tw_store w);
            chosen = (case wanted of None \<Rightarrow> outputs | Some i \<Rightarrow> filter (\<lambda>t. tm_identifier (tps_metadata t) = i) outputs)
        in optimize_each env min_outputs_threshold chosen w)"

definition is_transaction_preempted_error :: "token_service_env \<Rightarrow> ServiceError \<Rightarrow> bool" where
  "is_transaction_preempted_error env e = (case e of ServiceConnectionError m \<Rightarrow> se_preempted env m | _ \<Rightarrow> False)"

function transfer_rounds ::
  "token_service_env \<Rightarrow> string \<Rightarrow> u128 \<Rightarrow> TransferTokenOutput list \<Rightarrow> TokenOutputWithPrevOut list option \<Rightarrow> SelectionStrategy option \<Rightarrow>
   nat \<Rightarrow> nat \<Rightarrow> (TokenTransaction \<times> TokenOutputsReservation) service" where
  "transfer_rounds env token_id total_amount receivers preferred strategy attempt preempted_attempt w =
     (if MAX_TRANSFER_TOKEN_TOO_MANY_OUTPUTS_RETRY_ATTEMPTS \<le> attempt then (w, Err NeededTooManyOutputs)
      else
        (case output_errors (service_reserve_token_outputs env token_id (MinTotalValue total_amount) TokenPayment preferred strategy) w of
          (w1, Err e) \<Rightarrow> (w1, Err e)
        | (w1, Ok reservation) \<Rightarrow>
            (case under_reservation env reservation
                   (transfer_tokens_inner env token_id (tos_outputs (tr_token_outputs reservation)) receivers) w1 of
              (w2, Ok tt) \<Rightarrow> (w2, Ok (tt, reservation))
            | (w2, Err e) \<Rightarrow>
                if e = NeededTooManyOutputs \<and> attempt < MAX_TRANSFER_TOKEN_TOO_MANY_OUTPUTS_RETRY_ATTEMPTS - 1
                then (case optimize_token_outputs env (Some token_id) 2 w2 of
                       (w3, Err e') \<Rightarrow> (w3, Err e')
                     | (w3, Ok _) \<Rightarrow>
                         transfer_rounds env token_id total_amount receivers preferred strategy (attempt + 1) preempted_attempt w3)
                else if is_transaction_preempted_error env e \<and> preempted_attempt < MAX_TOKEN_PREEMPTED_RETRY_ATTEMPTS - 1
                then (case output_errors (service_refresh_tokens_outputs env) w2 of
                       (w3, Err e') \<Rightarrow> (w3, Err e')
                     | (w3, Ok _) \<Rightarrow>
                         transfer_rounds env token_id total_amount receivers preferred strategy attempt (preempted_attempt + 1) w3)
                else (w2, Err e))))"
  by pat_completeness auto

termination
  by (relation "measure (\<lambda>(env, token_id, total_amount, receivers, preferred, strategy, attempt, preempted_attempt, w).
        (3 - attempt) + (3 - preempted_attempt))")
    (auto simp: MAX_TRANSFER_TOKEN_TOO_MANY_OUTPUTS_RETRY_ATTEMPTS_def MAX_TOKEN_PREEMPTED_RETRY_ATTEMPTS_def)

declare transfer_rounds.simps [simp del]

definition store_change :: "token_service_env \<Rightarrow> TokenTransaction \<Rightarrow> TokenOutputsReservation \<Rightarrow> TokenTransaction service" where
  "store_change env tt reservation =
     cl_bind (get_identity_public_key env) (\<lambda>key.
     cl_bind (output_errors (service_insert_token_outputs env
                \<lparr>tos_metadata = tos_metadata (tr_token_outputs reservation),
                 tos_outputs = as_spendable tt (filter (\<lambda>(_, output). owner_public_key output = key) (enumerate 0 (tt_outputs tt)))\<rparr>)) (\<lambda>_.
       cl_return tt))"

definition transfer_tokens ::
  "token_service_env \<Rightarrow> TransferTokenOutput list \<Rightarrow> TokenOutputWithPrevOut list option \<Rightarrow> SelectionStrategy option \<Rightarrow> TokenTransaction service" where
  "transfer_tokens env receivers preferred strategy =
     (case receivers of
        [] \<Rightarrow> cl_fail (SvGeneric ''No receiver outputs provided'')
      | r # _ \<Rightarrow>
          if list_ex (\<lambda>x. tto_token_id x \<noteq> tto_token_id r) receivers
          then cl_fail (SvGeneric ''All receiver outputs must have the same token id'')
          else
            cl_bind (transfer_rounds env (tto_token_id r) (wsum 128 (map tto_amount receivers)) receivers preferred strategy 0 0)
              (\<lambda>(tt, reservation). store_change env tt reservation))"

section \<open>Issuing\<close>

definition create_issuer_token ::
  "token_service_env \<Rightarrow> string \<Rightarrow> string \<Rightarrow> u32 \<Rightarrow> bool \<Rightarrow> u128 \<Rightarrow> TokenTransaction service" where
  "create_issuer_token env name ticker' decimals' freezable supply w =
     (case get_issuer_token_metadata env w of
        (w1, Ok _) \<Rightarrow> (w1, Err (SvGeneric ''Issuer token already exists''))
      | (w1, Err _) \<Rightarrow>
          cl_bind (cl_lift (validate_create_token_params (se_codecs env) name ticker' decimals')) (\<lambda>_.
          cl_bind (get_identity_public_key env) (\<lambda>key.
          cl_bind (ask (\<lambda>n. Ok (se_created_at env n))) (\<lambda>created.
          cl_bind (cl_lift (build_create_token_transaction (with_identity env key) created name ticker' decimals' freezable supply)) (\<lambda>partial_tx.
          cl_bind (start_transaction env partial_tx) (\<lambda>final_tx. committed_transaction env final_tx))))) w1)"

definition mint_issuer_token :: "token_service_env \<Rightarrow> u128 \<Rightarrow> TokenTransaction service" where
  "mint_issuer_token env amount =
     cl_bind (get_issuer_token_metadata env) (\<lambda>md.
     cl_bind (get_identity_public_key env) (\<lambda>key.
     cl_bind (ask (\<lambda>n. Ok (se_created_at env n))) (\<lambda>created.
     cl_bind (cl_lift (build_mint_token_transaction (with_identity env key) created (tm_identifier md) amount)) (\<lambda>partial_tx.
     cl_bind (start_transaction env partial_tx) (\<lambda>final_tx. committed_transaction env final_tx)))))"

definition BURN_PUBLIC_KEY :: "u8 list" where
  "BURN_PUBLIC_KEY = replicate 33 2"

definition burn_issuer_token ::
  "token_service_env \<Rightarrow> u128 \<Rightarrow> TokenOutputWithPrevOut list option \<Rightarrow> SelectionStrategy option \<Rightarrow> TokenTransaction service" where
  "burn_issuer_token env amount preferred strategy =
     cl_bind (cl_lift (ok_or (parse_key (se_codecs env) BURN_PUBLIC_KEY) InvalidPublicKey)) (\<lambda>burn_key.
     cl_bind (get_issuer_token_metadata env) (\<lambda>md.
       transfer_tokens env [to_wallet env (tm_identifier md) amount burn_key] preferred strategy))"

definition freeze_payload :: "token_service_env \<Rightarrow> u8 list \<Rightarrow> u8 list \<Rightarrow> bool \<Rightarrow> u64 \<Rightarrow> public_key \<Rightarrow> FreezeIssuerTokenPayload" where
  "freeze_payload env owner tid unfreeze timestamp operator =
     \<lparr>fr_version = 1, fr_owner_public_key = owner, fr_token_identifier = Some tid, fr_should_unfreeze = unfreeze,
      fr_issuer_provided_timestamp = timestamp, fr_operator_identity_public_key = serialize_key (se_codecs env) operator\<rparr>"

text \<open>All requests are signed before the first is sent; their answers are awaited together.\<close>

definition freeze_issuer_token :: "token_service_env \<Rightarrow> SparkAddress \<Rightarrow> bool \<Rightarrow> FreezeIssuerTokenResponse service" where
  "freeze_issuer_token env address should_unfreeze =
     cl_bind (get_issuer_token_metadata env) (\<lambda>md.
       if \<not> is_freezable md then cl_fail (SvGeneric ''Issuer token is not freezable'')
       else
         cl_bind (cl_lift (bech32m_decode_token_id (se_codecs env) (tm_identifier md) (Some (se_network env)))) (\<lambda>tid.
         cl_bind (ask (\<lambda>n. ok_or (se_created_at env n) (SvGeneric ''issuer_provided_timestamp is before UNIX_EPOCH''))) (\<lambda>now.
         cl_bind (cl_list (\<lambda>operator.
                    let payload = freeze_payload env (serialize_key (se_codecs env) (identity_public_key address)) tid should_unfreeze
                                    (timestamp_ms now) operator in
                    cl_bind (sign_hash env (hash_freeze_tokens_payload (se_codecs env) payload)) (\<lambda>signature.
                      cl_return (payload, signature))) (be_operator_keys (se_builder env))) (\<lambda>requests.
         cl_bind (cl_list (\<lambda>(payload, signature). ask (\<lambda>n. map_err ServiceConnectionError (se_freeze env n payload signature))) requests) (\<lambda>responses.
         cl_bind (cl_lift (ok_or (case responses of [] \<Rightarrow> None | r # _ \<Rightarrow> Some r)
                    (SvGeneric ''No response from freeze tokens request''))) (\<lambda>response.
           cl_lift (freeze_response_try_from response)))))))"

section \<open>Reservations\<close>

text \<open>No reservation is added.\<close>

definition no_more_reservations :: "token_world \<Rightarrow> token_world \<Rightarrow> bool" where
  "no_more_reservations w w' \<longleftrightarrow>
     set (hm_keys (tk_reservations (tw_store w'))) \<subseteq> set (hm_keys (tk_reservations (tw_store w)))"

text \<open>Neither the store nor the commits change.\<close>

definition only_asks :: "token_world \<Rightarrow> token_world \<Rightarrow> bool" where
  "only_asks w w' \<longleftrightarrow> tw_store w' = tw_store w \<and> tw_commits w' = tw_commits w"

text \<open>The store does not change.\<close>

definition keeps_store :: "token_world \<Rightarrow> token_world \<Rightarrow> bool" where
  "keeps_store w w' \<longleftrightarrow> tw_store w' = tw_store w"

interpretation kept: step_preorder keeps_store
  by unfold_locales (auto simp: keeps_store_def)

interpretation nmr: step_preorder no_more_reservations
  by unfold_locales (auto simp: no_more_reservations_def)

interpretation asks: step_preorder only_asks
  by unfold_locales (auto simp: only_asks_def)

lemma only_asks_nmr: "only_asks w w' \<Longrightarrow> no_more_reservations w w'"
  by (simp add: only_asks_def no_more_reservations_def)

lemma within_nmr: "within only_asks m \<Longrightarrow> within no_more_reservations m"
  unfolding within_def using only_asks_nmr by blast

lemma ask_only [intro]: "within only_asks (ask f)"
  by (simp add: within_def ask_def only_asks_def)

lemma ask_nmr [intro]: "within no_more_reservations (ask f)"
  by (rule within_nmr) (rule ask_only)

lemma identity_only [intro]: "within only_asks (get_identity_public_key env)"
  unfolding get_identity_public_key_def by (rule ask_only)

lemma sign_only [intro]: "within only_asks (sign_hash env h)"
  unfolding sign_hash_def by (rule ask_only)

lemma reconcile_keys: "set (hm_keys (snd (reconcile es pool res))) \<subseteq> set (hm_keys res) \<union> fst ` set es"
proof (induction es pool res rule: reconcile.induct)
  case (2 i e es pool res)
  show ?case
  proof (cases "hm_get pool (entry_token e)")
    case None
    with 2(1) show ?thesis by auto
  next
    case (Some a)
    show ?thesis
    proof (cases "filter (\<lambda>s. hm_contains (ato_outputs a) (stored_output_id s)) (stored_outputs e) = []")
      case True
      with 2(2) [OF Some refl True] Some show ?thesis by auto
    next
      case False
      from 2(3) [OF Some refl this] show ?thesis by (simp add: Some False Let_def)
    qed
  qed
qed simp

lemma set_tokens_outputs_keys:
  "set (hm_keys (tk_reservations (set_tokens_outputs now st ts started))) \<subseteq> set (hm_keys (tk_reservations st))"
proof -
  have "set (hm_keys (snd (reconcile (tk_reservations st) pool (tk_reservations st)))) \<subseteq> set (hm_keys (tk_reservations st))" for pool
    using reconcile_keys [of "tk_reservations st" pool "tk_reservations st"] by (simp add: hm_keys_def)
  then show ?thesis by (simp add: set_tokens_outputs_def Let_def case_prod_beta)
qed

lemma store_refreshed_nmr: "within no_more_reservations (store_refreshed env ts started)"
  unfolding store_refreshed_def
  by (intro nmr.within_bind ask_nmr) (simp add: within_def on_store_def no_more_reservations_def set_tokens_outputs_keys)

lemma refresh_nmr: "within no_more_reservations (service_refresh_tokens_outputs env)"
  unfolding service_refresh_tokens_outputs_def
  by (intro nmr.within_bind nmr.within_simple ask_nmr within_if store_refreshed_nmr)

lemma insert_nmr: "within no_more_reservations (service_insert_token_outputs env t)"
  unfolding service_insert_token_outputs_def
  by (intro nmr.within_bind ask_nmr) (simp add: within_def on_store_def no_more_reservations_def insert_token_outputs_def Let_def)

text \<open>A reservation that is made is the only one that is added.\<close>

definition adds_reservation :: "TokenOutputsReservation \<Rightarrow> token_world \<Rightarrow> token_world \<Rightarrow> bool" where
  "adds_reservation reservation w w' \<longleftrightarrow>
     set (hm_keys (tk_reservations (tw_store w'))) \<subseteq> insert (tr_id reservation) (set (hm_keys (tk_reservations (tw_store w))))"

lemma store_reserve_keys:
  assumes "store_reserve env tid target purpose preferred strategy w = (w', r)"
  shows "case r of Ok reservation \<Rightarrow> adds_reservation reservation w w' | Err e \<Rightarrow> no_more_reservations w w'"
  using assms
  by (auto simp: store_reserve_def reserve_token_outputs_def adds_reservation_def no_more_reservations_def Let_def
      split: option.splits sum.splits prod.splits)

lemma adds_after: "no_more_reservations w1 w2 \<Longrightarrow> adds_reservation r w2 w3 \<Longrightarrow> adds_reservation r w1 w3"
  by (auto simp: no_more_reservations_def adds_reservation_def)

lemma reserve_rounds_keys:
  "reserve_rounds env k tid target purpose preferred strategy w = (w', r) \<Longrightarrow>
   case r of Ok reservation \<Rightarrow> adds_reservation reservation w w' | Err e \<Rightarrow> no_more_reservations w w'"
proof (induction k arbitrary: w)
  case 0
  then show ?case by (auto simp: nmr.refl)
next
  case (Suc k)
  obtain w1 r1 where 1: "store_reserve env tid target purpose preferred strategy w = (w1, r1)" by fastforce
  note k1 = store_reserve_keys [OF 1]
  show ?case
  proof (cases r1)
    case (Inr reservation)
    with 1 k1 Suc.prems show ?thesis by auto
  next
    case (Inl e)
    with k1 have w1: "no_more_reservations w w1" by simp
    obtain w2 r2 where 2: "service_refresh_tokens_outputs env w1 = (w2, r2)" by fastforce
    have w2: "no_more_reservations w w2" using nmr.trans [OF w1 withinD [OF refresh_nmr 2]] .
    show ?thesis
    proof (cases "\<exists>t. r2 = Ok () \<and> get_token_outputs (Identifier tid) (tw_store w2) = Ok t \<and> \<not> exceeds target (token_balance t)")
      case True
      with Suc.prems 1 2 Inl have "reserve_rounds env k tid target purpose preferred strategy w2 = (w', r)"
        by (auto simp: cl_bind_def cl_lift_def)
      from Suc.IH [OF this] w2 show ?thesis by (auto split: sum.splits intro: adds_after nmr.trans)
    next
      case False
      with Suc.prems 1 2 Inl have "w' = w2 \<and> (\<exists>e. r = Err e)"
        by (cases r2) (auto simp: cl_bind_def cl_lift_def cl_fail_def split: sum.splits if_splits)
      with w2 show ?thesis by auto
    qed
  qed
qed

lemma under_reservation_keys:
  assumes "under_reservation env reservation f w = (w', r)" and "within keeps_store f"
    and "adds_reservation reservation w0 w"
  shows "no_more_reservations w0 w'"
proof -
  obtain w1 r1 where f: "f w = (w1, r1)" by fastforce
  have s: "tw_store w1 = tw_store w" using withinD [OF assms(2) f] by (simp add: keeps_store_def)
  show ?thesis using assms(1,3) s
    by (auto simp: under_reservation_def with_reserved_def f no_more_reservations_def adds_reservation_def finalize_in_def cancel_in_def
        token_finalize_reservations token_cancel_reservations split: sum.splits)
qed

lemma only_asks_kept: "within only_asks m \<Longrightarrow> within keeps_store m"
  by (auto simp: within_def only_asks_def keeps_store_def)

lemma build_transfer_only [intro]: "within only_asks (build_transfer env inputs receivers)"
  unfolding build_transfer_def by (intro asks.within_steps within_if ask_only identity_only)

lemma start_transaction_only [intro]: "within only_asks (start_transaction env tx)"
  unfolding start_transaction_def by (intro asks.within_steps ask_only identity_only sign_only)

lemma per_operator_only [intro]: "within only_asks (create_per_operator_signatures env tx h)"
  unfolding create_per_operator_signatures_def Let_def by (intro asks.within_steps sign_only)

lemma before_send_only [intro]: "within only_asks (before_send_token env txid tid rs)"
  unfolding before_send_token_def by (cases "se_observer env") (auto intro!: asks.within_steps)

lemma send_commit_kept: "within keeps_store (send_commit env request)"
  by (simp add: within_def send_commit_def Let_def keeps_store_def)

lemma committed_transaction_kept: "within keeps_store (committed_transaction env tx)"
  unfolding committed_transaction_def commit_transaction_def
  by (intro kept.within_steps send_commit_kept only_asks_kept [OF identity_only] only_asks_kept [OF per_operator_only])

lemma inner_kept: "within keeps_store (transfer_tokens_inner env tid inputs rs)"
  unfolding transfer_tokens_inner_def
  by (intro kept.within_steps within_if committed_transaction_kept only_asks_kept [OF build_transfer_only]
      only_asks_kept [OF start_transaction_only] only_asks_kept [OF before_send_only])

definition signer_answers :: "token_service_env \<Rightarrow> bool" where
  "signer_answers env \<longleftrightarrow> (\<forall>n. is_ok (se_identity env n))"

lemma identity_answered:
  assumes "signer_answers env"
  obtains key where "get_identity_public_key env w = (w\<lparr>tw_calls := Suc (tw_calls w)\<rparr>, Ok key)" and "se_identity env (tw_calls w) = Ok key"
proof -
  obtain key where "se_identity env (tw_calls w) = Ok key" 
    using assms [unfolded signer_answers_def, rule_format, of "tw_calls w"] by (cases "se_identity env (tw_calls w)") (simp_all add: is_ok_def)
  then show ?thesis using that by (simp add: get_identity_public_key_def ask_def map_err_def)
qed

lemma reserve_keys:
  assumes "output_errors (service_reserve_token_outputs env tid target purpose preferred strategy) w = (w', r)"
  shows "case r of Ok reservation \<Rightarrow> adds_reservation reservation w w' | Err e \<Rightarrow> no_more_reservations w w'"
proof -
  obtain r1 where "reserve_rounds env SELECT_TOKEN_OUTPUTS_MAX_RETRIES tid target purpose preferred strategy w = (w', r1)"
    and "r = map_err SvTokenOutputServiceError r1"
    using assms by (auto simp: cl_map_err_def service_reserve_token_outputs_def split: prod.splits)
  then show ?thesis using reserve_rounds_keys [of env SELECT_TOKEN_OUTPUTS_MAX_RETRIES tid target purpose preferred strategy w w' r1]
    by (cases r1) (simp_all add: map_err_def)
qed

lemma adds_ask: "adds_reservation r w w' \<Longrightarrow> adds_reservation r w (w'\<lparr>tw_calls := n\<rparr>)"
  by (simp add: adds_reservation_def)

lemma optimize_token_nmr:
  assumes "signer_answers env"
  shows "within no_more_reservations (optimize_token env tid)"
  unfolding within_def
proof
  fix w
  obtain w' r where o': "optimize_token env tid w = (w', r)" by fastforce
  from o' [unfolded optimize_token_def] show "no_more_reservations w (fst (optimize_token env tid w))"
  proof (cases rule: cl_bind_cases)
    case (failed e)
    with reserve_keys [OF failed(1)] o' show ?thesis by simp
  next
    case (went_on w1 reservation)
    have adds: "adds_reservation reservation w w1" using reserve_keys [OF went_on(1)] by simp
    obtain key where key: "get_identity_public_key env w1 = (w1\<lparr>tw_calls := Suc (tw_calls w1)\<rparr>, Ok key)"
      using identity_answered [OF assms, of w1] by blast
    from went_on(2) [unfolded Let_def] show ?thesis
    proof (cases rule: cl_bind_cases)
      case (failed e)
      with key show ?thesis by simp
    next
      case (went_on w2 k)
      with key have w2: "w2 = w1\<lparr>tw_calls := Suc (tw_calls w1)\<rparr>" by simp
      from went_on(2) show ?thesis
      proof (cases rule: cl_bind_cases)
        case (failed e)
        from under_reservation_keys [OF failed(1) inner_kept adds_ask [OF adds, of "Suc (tw_calls w1)", folded w2]] o' show ?thesis by simp
      next
        case (went_on w3 tt)
        from under_reservation_keys [OF went_on(1) inner_kept adds_ask [OF adds, of "Suc (tw_calls w1)", folded w2]]
          withinD [OF nmr.within_map_err [OF insert_nmr] went_on(2)] o'
        show ?thesis by (simp add: nmr.trans)
      qed
    qed
  qed
qed

lemma optimize_nmr:
  assumes "signer_answers env"
  shows "within no_more_reservations (optimize_token_outputs env wanted k)"
proof -
  have "within no_more_reservations (optimize_each env k ts)" for ts
    by (induction ts) (auto intro!: nmr.within_steps optimize_token_nmr [OF assms])
  then show ?thesis by (simp add: within_def optimize_token_outputs_def Let_def nmr.refl)
qed

section \<open>The rounds of a transfer\<close>

abbreviation reserve_for_payment ::
  "token_service_env \<Rightarrow> string \<Rightarrow> u128 \<Rightarrow> TokenOutputWithPrevOut list option \<Rightarrow> SelectionStrategy option \<Rightarrow> TokenOutputsReservation service" where
  "reserve_for_payment env tid total_amount preferred strategy \<equiv>
     output_errors (service_reserve_token_outputs env tid (MinTotalValue total_amount) TokenPayment preferred strategy)"

abbreviation attempt_payment ::
  "token_service_env \<Rightarrow> string \<Rightarrow> TransferTokenOutput list \<Rightarrow> TokenOutputsReservation \<Rightarrow> TokenTransaction service" where
  "attempt_payment env tid rs reservation \<equiv>
     under_reservation env reservation (transfer_tokens_inner env tid (tos_outputs (tr_token_outputs reservation)) rs)"

text \<open>The loop of \<open>transfer_tokens\<close> as steps: a round that fails and is retried, and the last round.\<close>

inductive payment_retry ::
  "token_service_env \<Rightarrow> string \<Rightarrow> u128 \<Rightarrow> TransferTokenOutput list \<Rightarrow> TokenOutputWithPrevOut list option \<Rightarrow> SelectionStrategy option \<Rightarrow>
   token_world \<Rightarrow> token_world \<Rightarrow> bool" for env tid total_amount rs preferred strategy where
  optimised: "reserve_for_payment env tid total_amount preferred strategy w = (w1, Ok res) \<Longrightarrow>
    attempt_payment env tid rs res w1 = (w2, Err NeededTooManyOutputs) \<Longrightarrow> optimize_token_outputs env (Some tid) 2 w2 = (w3, Ok u) \<Longrightarrow>
    payment_retry env tid total_amount rs preferred strategy w w3"
| refreshed: "reserve_for_payment env tid total_amount preferred strategy w = (w1, Ok res) \<Longrightarrow>
    attempt_payment env tid rs res w1 = (w2, Err e) \<Longrightarrow> is_transaction_preempted_error env e \<Longrightarrow>
    output_errors (service_refresh_tokens_outputs env) w2 = (w3, Ok u) \<Longrightarrow>
    payment_retry env tid total_amount rs preferred strategy w w3"

inductive payment_end ::
  "token_service_env \<Rightarrow> string \<Rightarrow> u128 \<Rightarrow> TransferTokenOutput list \<Rightarrow> TokenOutputWithPrevOut list option \<Rightarrow> SelectionStrategy option \<Rightarrow>
   token_world \<Rightarrow> token_world \<Rightarrow> ServiceError + (TokenTransaction \<times> TokenOutputsReservation) \<Rightarrow> bool"
  for env tid total_amount rs preferred strategy where
  exhausted: "payment_end env tid total_amount rs preferred strategy w w (Err NeededTooManyOutputs)"
| not_reserved: "reserve_for_payment env tid total_amount preferred strategy w = (w1, Err e) \<Longrightarrow>
    payment_end env tid total_amount rs preferred strategy w w1 (Err e)"
| paid: "reserve_for_payment env tid total_amount preferred strategy w = (w1, Ok res) \<Longrightarrow>
    attempt_payment env tid rs res w1 = (w2, Ok tt) \<Longrightarrow> payment_end env tid total_amount rs preferred strategy w w2 (Ok (tt, res))"
| refused: "reserve_for_payment env tid total_amount preferred strategy w = (w1, Ok res) \<Longrightarrow>
    attempt_payment env tid rs res w1 = (w2, Err e) \<Longrightarrow> payment_end env tid total_amount rs preferred strategy w w2 (Err e)"
| not_optimised: "reserve_for_payment env tid total_amount preferred strategy w = (w1, Ok res) \<Longrightarrow>
    attempt_payment env tid rs res w1 = (w2, Err NeededTooManyOutputs) \<Longrightarrow> optimize_token_outputs env (Some tid) 2 w2 = (w3, Err e) \<Longrightarrow>
    payment_end env tid total_amount rs preferred strategy w w3 (Err e)"
| not_refreshed: "reserve_for_payment env tid total_amount preferred strategy w = (w1, Ok res) \<Longrightarrow>
    attempt_payment env tid rs res w1 = (w2, Err e) \<Longrightarrow> is_transaction_preempted_error env e \<Longrightarrow>
    output_errors (service_refresh_tokens_outputs env) w2 = (w3, Err e') \<Longrightarrow>
    payment_end env tid total_amount rs preferred strategy w w3 (Err e')"

definition rounds_left :: "nat \<Rightarrow> nat \<Rightarrow> nat" where
  "rounds_left attempt preempted_attempt = (3 - attempt) + (3 - preempted_attempt)"

lemma rounds_left_less: "a < 2 \<Longrightarrow> rounds_left (Suc a) p < rounds_left a p" "p < 2 \<Longrightarrow> rounds_left a (Suc p) < rounds_left a p"
  by (simp_all add: rounds_left_def)

lemma transfer_round:
  assumes "transfer_rounds env tid total_amount rs preferred strategy a p w = (w', r)"
  shows "payment_end env tid total_amount rs preferred strategy w w' r
    \<or> (\<exists>w3 a' p'. payment_retry env tid total_amount rs preferred strategy w w3
         \<and> transfer_rounds env tid total_amount rs preferred strategy a' p' w3 = (w', r) \<and> rounds_left a' p' < rounds_left a p)"
  using assms [unfolded transfer_rounds.simps [of env tid total_amount rs preferred strategy a p w]
      MAX_TRANSFER_TOKEN_TOO_MANY_OUTPUTS_RETRY_ATTEMPTS_def MAX_TOKEN_PREEMPTED_RETRY_ATTEMPTS_def]
  by (auto split: if_splits prod.splits sum.splits intro: payment_end.intros)
    (blast dest: payment_retry.intros rounds_left_less)+

lemma transfer_rounds_steps:
  "transfer_rounds env tid total_amount rs preferred strategy a p w = (w', r) \<Longrightarrow>
   \<exists>v. (payment_retry env tid total_amount rs preferred strategy)\<^sup>*\<^sup>* w v \<and> payment_end env tid total_amount rs preferred strategy v w' r"
proof (induction "rounds_left a p" arbitrary: a p w rule: less_induct)
  case less
  from transfer_round [OF less.prems] show ?case
    using less.hyps by (meson converse_rtranclp_into_rtranclp rtranclp.rtrancl_refl)
qed

lemma attempt_nmr:
  assumes "reserve_for_payment env tid total_amount preferred strategy w = (w1, Ok res)" and "attempt_payment env tid rs res w1 = (w2, r)"
  shows "no_more_reservations w w2"
  using under_reservation_keys [OF assms(2) inner_kept] reserve_keys [OF assms(1)] by simp

lemma payment_retry_nmr:
  assumes "payment_retry env tid total_amount rs preferred strategy w w'" and "signer_answers env"
  shows "no_more_reservations w w'"
  using assms(1)
proof cases
  case (optimised w1 res w2 u)
  from nmr.trans [OF attempt_nmr [OF optimised(1,2)] withinD [OF optimize_nmr [OF assms(2)] optimised(3)]] show ?thesis .
next
  case (refreshed w1 res w2 e u)
  from nmr.trans [OF attempt_nmr [OF refreshed(1,2)] withinD [OF nmr.within_map_err [OF refresh_nmr] refreshed(4)]] show ?thesis .
qed

lemma payment_end_nmr:
  assumes "payment_end env tid total_amount rs preferred strategy w w' r" and "signer_answers env"
  shows "no_more_reservations w w'"
  using assms(1)
proof cases
  case (not_reserved e)
  then show ?thesis using reserve_keys by fastforce
next
  case (not_optimised w1 res w2 e)
  from nmr.trans [OF attempt_nmr [OF not_optimised(2,3)] withinD [OF optimize_nmr [OF assms(2)] not_optimised(4)]] show ?thesis .
next
  case (not_refreshed w1 res w2 e e')
  from nmr.trans [OF attempt_nmr [OF not_refreshed(2,3)] withinD [OF nmr.within_map_err [OF refresh_nmr] not_refreshed(5)]] show ?thesis .
qed (auto simp: nmr.refl intro: attempt_nmr)

lemma transfer_rounds_nmr:
  assumes "signer_answers env"
  shows "within no_more_reservations (transfer_rounds env tid total_amount rs preferred strategy a p)"
  unfolding within_def
proof
  fix w
  obtain w' r where run: "transfer_rounds env tid total_amount rs preferred strategy a p w = (w', r)" by fastforce
  obtain v where v: "(payment_retry env tid total_amount rs preferred strategy)\<^sup>*\<^sup>* w v"
    "payment_end env tid total_amount rs preferred strategy v w' r" using transfer_rounds_steps [OF run] by blast
  have "no_more_reservations w v" using v(1)
    by (induction rule: rtranclp_induct) (auto simp: nmr.refl intro: nmr.trans payment_retry_nmr [OF _ assms])
  with payment_end_nmr [OF v(2) assms] run show "no_more_reservations w (fst (transfer_rounds env tid total_amount rs preferred strategy a p w))"
    by (simp add: nmr.trans)
qed

section \<open>Commits\<close>

definition to_wallet_key :: "token_service_env \<Rightarrow> RpcTokenOutput \<Rightarrow> bool" where
  "to_wallet_key env x \<longleftrightarrow> (\<exists>n key. se_identity env n = Ok key \<and> ro_owner_public_key x = serialize_key (se_codecs env) key)"

definition pays :: "token_service_env \<Rightarrow> TransferTokenOutput list \<Rightarrow> RpcTokenTransaction \<Rightarrow> bool" where
  "pays env receivers tx \<longleftrightarrow>
     (\<exists>paid change. tx_token_outputs tx = paid @ change \<and> length change \<le> 1 \<and> list_all (to_wallet_key env) change
        \<and> list_all2 (\<lambda>r x. ro_owner_public_key x = serialize_key (se_codecs env) (identity_public_key (receiver_address r))
             \<and> from_be_bytes (ro_token_amount x) = tto_amount r) receivers paid)"

lemma with_change_cases:
  assumes "with_change env inputs rs = Some rs'"
  shows "rs' = rs \<or> (\<exists>c. rs' = rs @ [c] \<and> receiver_address c = own_address env \<and> wsum 128 (map tto_amount rs) < wsum 128 (amounts_of inputs))"
  using assms by (auto simp: with_change_def Let_def split: if_splits list.splits)

lemma receiver_output_owner:
  assumes "receiver_output env r = Ok x"
  shows "ro_owner_public_key x = serialize_key (be_codecs env) (identity_public_key (receiver_address r))"
    and "ro_token_amount x = to_be_bytes 16 (tto_amount r)"
  using assms by (auto simp: receiver_output_def plain_output_def)

lemma with_identity_simps [simp]:
  "be_codecs (with_identity env key) = se_codecs env" "be_identity (with_identity env key) = key"
  by (simp_all add: with_identity_def)

lemma built_pays:
  assumes "build_transfer env inputs rs w = (w', Ok tx)" and "rs \<noteq> []" and "\<forall>x \<in> set rs. tto_amount x < 2 ^ 128"
  shows "pays env rs tx"
proof -
  obtain key created where built: "build_transfer_token_transaction (with_identity env key) created inputs rs = Some (Ok tx)"
    and key: "wsum 128 (map tto_amount rs) < wsum 128 (amounts_of (sort_key prev_tx_vout inputs)) \<longrightarrow> (\<exists>n. se_identity env n = Ok key)"
  proof -
    have some: "\<exists>x. build_transfer_token_transaction e c inputs rs = Some x" for e c
      using assms(2) by (cases rs) (simp_all add: build_transfer_token_transaction_def with_change_def Let_def)
    show thesis
      using assms(1) that some unfolding build_transfer_def
      by (auto simp: cl_bind_def ask_def cl_lift_def cl_return_def get_identity_public_key_def map_err_def
          split: prod.splits sum.splits if_splits) (metis option.sel)+
  qed
  then obtain rs' xs where rs': "with_change (with_identity env key) (sort_key prev_tx_vout inputs) rs = Some rs'"
    and xs: "collect_ok (map (receiver_output (with_identity env key)) rs') = Ok xs" and tx: "tx_token_outputs tx = xs"
    by (auto simp: build_transfer_token_transaction_def Let_def build_token_transaction_def)
  note all = collect_ok_map2 [OF xs]
  have paid: "list_all2 (\<lambda>r x. ro_owner_public_key x = serialize_key (se_codecs env) (identity_public_key (receiver_address r))
             \<and> from_be_bytes (ro_token_amount x) = tto_amount r) rs ys"
    if "list_all2 (\<lambda>r x. receiver_output (with_identity env key) r = Ok x) rs ys" for ys
    using that assms(3) by (auto elim!: list.rel_mono_strong simp: receiver_output_owner)
  from with_change_cases [OF rs'] show ?thesis
  proof (elim disjE exE conjE)
    assume "rs' = rs"
    with all paid tx show ?thesis unfolding pays_def by (intro exI [of _ xs] exI [of _ "[]"]) simp
  next
    fix c
    assume c: "rs' = rs @ [c]" "receiver_address c = own_address (with_identity env key)"
      "wsum 128 (map tto_amount rs) < wsum 128 (amounts_of (sort_key prev_tx_vout inputs))"
    with all obtain ys x where "xs = ys @ [x]" "list_all2 (\<lambda>r x. receiver_output (with_identity env key) r = Ok x) rs ys"
      "receiver_output (with_identity env key) c = Ok x"
      by (auto simp: list_all2_append1 list_all2_Cons1)
    with c key tx paid show ?thesis unfolding pays_def
      by (intro exI [of _ ys] exI [of _ "[x]"]) (auto simp: to_wallet_key_def receiver_output_owner own_address_def)
  qed
qed

lemma validated_outputs:
  assumes "validate_token_transaction venv p f ks = Ok ()"
  shows "map ro_owner_public_key (tx_token_outputs f) = map ro_owner_public_key (tx_token_outputs p)"
    and "map ro_token_amount (tx_token_outputs f) = map ro_token_amount (tx_token_outputs p)"
  using assms by (auto simp: validate_token_transaction_def validate_outputs_iff split: if_splits)

lemma map_eq_nth: "map f xs = map f ys \<Longrightarrow> i < length ys \<Longrightarrow> f (xs ! i) = f (ys ! i)"
  by (metis length_map nth_map)

lemma pays_cong:
  assumes "pays env rs p" and "map ro_owner_public_key (tx_token_outputs f) = map ro_owner_public_key (tx_token_outputs p)"
    and "map ro_token_amount (tx_token_outputs f) = map ro_token_amount (tx_token_outputs p)"
  shows "pays env rs f"
proof -
  obtain paid change where p: "tx_token_outputs p = paid @ change" "length change \<le> 1" "list_all (to_wallet_key env) change"
    "list_all2 (\<lambda>r x. ro_owner_public_key x = serialize_key (se_codecs env) (identity_public_key (receiver_address r))
       \<and> from_be_bytes (ro_token_amount x) = tto_amount r) rs paid" using assms(1) by (auto simp: pays_def)
  obtain paid' change' where f: "tx_token_outputs f = paid' @ change'"
    "map ro_owner_public_key paid' = map ro_owner_public_key paid" "map ro_owner_public_key change' = map ro_owner_public_key change"
    using assms(2) unfolding p(1) map_append map_eq_append_conv by auto
  note lengths = map_eq_imp_length_eq [OF f(2)] map_eq_imp_length_eq [OF f(3)]
  have amounts: "map ro_token_amount paid' = map ro_token_amount paid"
    using assms(3) f(2) map_eq_imp_length_eq [OF f(2)] unfolding p(1) f(1) map_append by simp
  have "list_all2 (\<lambda>r x. ro_owner_public_key x = serialize_key (se_codecs env) (identity_public_key (receiver_address r))
       \<and> from_be_bytes (ro_token_amount x) = tto_amount r) rs paid'"
    using p(4) lengths map_eq_nth [OF f(2)] map_eq_nth [OF amounts] by (auto simp: list_all2_conv_all_nth)
  moreover have "list_all (to_wallet_key env) change'"
    using p(3) lengths map_eq_nth [OF f(3)] by (simp add: list_all_length to_wallet_key_def)
  moreover have "length change' \<le> 1" using p(2) lengths by simp
  ultimately show ?thesis using f(1) unfolding pays_def by blast
qed

lemma started_pays:
  assumes "start_transaction env p w = (w', Ok f)" and "pays env rs p"
  shows "pays env rs f"
proof -
  obtain ks where "validate_token_transaction (se_validation env) p f ks = Ok ()"
    using assms(1) unfolding start_transaction_def cl_lift_def cl_return_def
    by (elim cl_bind_cases) (auto elim!: cl_bind_cases simp: Let_def)
  with pays_cong [OF assms(2)] validated_outputs show ?thesis by blast
qed

lemma committed_outcomes:
  assumes "committed_transaction env tx w = (w', r)"
  shows "(tw_commits w' = tw_commits w \<and> \<not> is_ok r)
    \<or> (\<exists>m. tw_commits w' = tw_commits w @ [(tx, False)] \<and> r = Err (ServiceConnectionError m))
    \<or> (tw_commits w' = tw_commits w @ [(tx, True)] \<and> r = token_transaction_try_from (se_codecs env) (se_network env) tx)"
proof -
  have sent: "(\<exists>m. tw_commits w' = tw_commits w1 @ [(tx, False)] \<and> r1 = Err (ServiceConnectionError m))
      \<or> (tw_commits w' = tw_commits w1 @ [(tx, True)] \<and> r1 = Ok ())"
    if "send_commit env \<lparr>ct_final_token_transaction = tx, ct_final_token_transaction_hash = h, ct_signatures_per_operator = sigs,
          ct_owner_identity_public_key = k\<rparr> w1 = (w', r1)" for w1 w' h sigs k and r1 :: "ServiceError + unit"
    using that by (auto simp: send_commit_def Let_def map_err_def split: sum.splits)
  have commit: "(tw_commits w1 = tw_commits w \<and> \<not> is_ok r1)
      \<or> (\<exists>m. tw_commits w1 = tw_commits w @ [(tx, False)] \<and> r1 = Err (ServiceConnectionError m))
      \<or> (tw_commits w1 = tw_commits w @ [(tx, True)] \<and> r1 = Ok ())"
    if "commit_transaction env tx w = (w1, r1)" for w1 r1
    using that [unfolded commit_transaction_def cl_lift_def]
    by (elim cl_bind_cases)
      (auto dest!: withinD [OF per_operator_only] withinD [OF identity_only] sent simp: only_asks_def)
  from assms [unfolded committed_transaction_def] show ?thesis
    by (cases rule: cl_bind_cases) (auto dest!: commit simp: cl_lift_def)
qed

lemma inner_outcomes:
  assumes "transfer_tokens_inner env tid inputs rs w = (w', r)" and "rs \<noteq> []" and "\<forall>x \<in> set rs. tto_amount x < 2 ^ 128"
  shows "(tw_commits w' = tw_commits w \<and> \<not> is_ok r)
    \<or> (\<exists>tx m. tw_commits w' = tw_commits w @ [(tx, False)] \<and> r = Err (ServiceConnectionError m))
    \<or> (\<exists>tx. tw_commits w' = tw_commits w @ [(tx, True)] \<and> pays env rs tx
         \<and> r = token_transaction_try_from (se_codecs env) (se_network env) tx)"
proof (cases "MAX_TOKEN_TX_INPUTS < length inputs")
  case True
  with assms(1) show ?thesis by (auto simp: transfer_tokens_inner_def cl_fail_def)
next
  case False
  with assms(1) have "cl_bind (build_transfer env inputs rs) (\<lambda>partial_tx.
        cl_bind (start_transaction env partial_tx) (\<lambda>final_tx.
        cl_bind (cl_lift (compute_hash (se_codecs env) final_tx False)) (\<lambda>h.
        cl_bind (before_send_token env (hex_encode (se_codecs env) h) tid rs) (\<lambda>_.
          committed_transaction env final_tx)))) w = (w', r)" by (simp add: transfer_tokens_inner_def)
  then show ?thesis
  proof (elim cl_bind_cases, goal_cases)
    case (5 w1 p w2 f w3 h w4 u)
    have "tw_commits w4 = tw_commits w"
      using 5 withinD [OF build_transfer_only 5(1)] withinD [OF start_transaction_only 5(2)] withinD [OF before_send_only 5(4)]
      by (auto simp: only_asks_def cl_lift_def)
    moreover have "pays env rs f" using started_pays [OF 5(2) built_pays [OF 5(1) assms(2,3)]] .
    ultimately show ?thesis using committed_outcomes [OF 5(5)] by auto
  qed (auto dest!: withinD [OF build_transfer_only] withinD [OF start_transaction_only] withinD [OF before_send_only]
      simp: only_asks_def cl_lift_def)
qed

text \<open>Hashing and conversion fail with plain messages only, so a transaction that was committed is never retried.\<close>

definition only_generic :: "ServiceError + 'a \<Rightarrow> bool" where
  "only_generic r \<longleftrightarrow> (\<forall>e. r = Err e \<longrightarrow> (\<exists>m. e = SvGeneric m))"

lemma og_simple: "only_generic (Ok x)" "only_generic (Err (SvGeneric m))" "only_generic (ok_or v (SvGeneric m))"
    "only_generic (map_err (\<lambda>e. SvGeneric (g e)) q)"
  by (auto simp: only_generic_def ok_or_def map_err_def split: option.splits sum.splits)

lemma og_bind: "only_generic r \<Longrightarrow> (\<And>x. only_generic (f x)) \<Longrightarrow> only_generic (rbind r f)"
  by (cases r) (simp_all add: only_generic_def)

lemma og_if: "only_generic a \<Longrightarrow> only_generic b \<Longrightarrow> only_generic (if c then a else b)"
  by simp

lemma og_collect: "(\<And>x. only_generic (f x)) \<Longrightarrow> only_generic (collect_ok (map f xs))"
  by (induction xs) (simp_all add: og_simple og_bind)

lemmas og_intros = og_bind og_if og_collect og_simple

lemma og_inputs: "only_generic (inputs_preimages partial i)"
  by (auto simp: inputs_preimages_def og_simple split: option.split RpcTokenInputs.split)

lemma og_output: "only_generic (output_preimage partial x)"
  unfolding output_preimage_def by (intro og_intros)

lemma og_invoices: "only_generic (invoice_ids codecs i xs)"
  by (induction xs arbitrary: i) (auto intro!: og_intros)

lemma og_hash: "only_generic (compute_hash codecs tx partial)"
  unfolding compute_hash_def compute_hash_v1_def compute_hash_v2_def compute_common_hash_components_def common_preimages_def
    invoice_preimages_def Let_def by (intro og_intros og_inputs og_output og_invoices)

lemma og_parsed: "only_generic (parsed codecs m b)" "only_generic (parsed_opt codecs m b')" "only_generic (be_u128 m b)"
  by (auto simp: parsed_def parsed_opt_def be_u128_def split: option.split intro!: og_intros)

lemma og_output_from: "only_generic (token_output_try_from codecs network x)"
  unfolding token_output_try_from_def bech32m_encode_token_id_def by (intro og_intros og_parsed)

lemma og_inputs_from: "only_generic (token_inputs_try_from codecs i)"
  by (cases i) (auto simp: token_inputs_try_from_def intro!: og_intros og_parsed)

lemma og_transaction: "only_generic (token_transaction_try_from codecs network tx)"
  unfolding token_transaction_try_from_def by (intro og_intros og_hash og_inputs_from og_output_from)

text \<open>Transactions that were accepted pay the wallet only.\<close>

definition consolidates :: "token_service_env \<Rightarrow> RpcTokenTransaction \<times> bool \<Rightarrow> bool" where
  "consolidates env c \<longleftrightarrow> (snd c \<longrightarrow> list_all (to_wallet_key env) (tx_token_outputs (fst c)))"

definition only_consolidates :: "token_service_env \<Rightarrow> token_world \<Rightarrow> token_world \<Rightarrow> bool" where
  "only_consolidates env w w' \<longleftrightarrow> (\<exists>ext. tw_commits w' = tw_commits w @ ext \<and> list_all (consolidates env) ext)"

interpretation consolidated: step_preorder "only_consolidates env" for env
proof
  show "only_consolidates env s s" for s by (auto simp: only_consolidates_def)
  show "only_consolidates env s t \<Longrightarrow> only_consolidates env t u \<Longrightarrow> only_consolidates env s u" for s t u
    unfolding only_consolidates_def by (metis append.assoc list_all_append)
qed

lemma same_commits_consolidate: "tw_commits w' = tw_commits w \<Longrightarrow> only_consolidates env w w'"
  by (auto simp: only_consolidates_def)

lemma asks_consolidate: "within only_asks m \<Longrightarrow> within (only_consolidates env) m"
  by (auto simp: within_def only_asks_def intro!: same_commits_consolidate)

lemma on_store_consolidate: "within (only_consolidates env) (on_store f)"
  by (auto simp: within_def on_store_def intro!: same_commits_consolidate)

lemma refresh_consolidate: "within (only_consolidates env') (service_refresh_tokens_outputs env)"
  unfolding service_refresh_tokens_outputs_def store_refreshed_def
  by (intro consolidated.within_steps within_if on_store_consolidate asks_consolidate [OF ask_only])

lemma insert_consolidate: "within (only_consolidates env') (service_insert_token_outputs env t)"
  unfolding service_insert_token_outputs_def by (intro consolidated.within_steps on_store_consolidate asks_consolidate [OF ask_only])

lemma store_reserve_commits: "store_reserve env tid target purpose preferred strategy w = (w', r) \<Longrightarrow> tw_commits w' = tw_commits w"
  by (auto simp: store_reserve_def split: prod.splits)

lemma reserve_rounds_consolidate: "within (only_consolidates env') (reserve_rounds env k tid target purpose preferred strategy)"
proof (induction k)
  case 0
  then show ?case by (simp add: within_def consolidated.refl)
next
  case (Suc k)
  show ?case unfolding within_def
  proof
    fix w
    obtain w1 r1 where 1: "store_reserve env tid target purpose preferred strategy w = (w1, r1)" by fastforce
    have step: "only_consolidates env' w1 (fst (cl_bind (service_refresh_tokens_outputs env) (\<lambda>_ w2.
          cl_bind (cl_lift (get_token_outputs (Identifier tid) (tw_store w2))) (\<lambda>t.
            if exceeds target (token_balance t) then cl_fail TkInsufficientFunds
            else reserve_rounds env k tid target purpose preferred strategy) w2) w1))"
    proof -
      have inner: "within (only_consolidates env') (\<lambda>w2. cl_bind (cl_lift (get_token_outputs (Identifier tid) (tw_store w2))) (\<lambda>t.
            if exceeds target (token_balance t) then cl_fail TkInsufficientFunds
            else reserve_rounds env k tid target purpose preferred strategy) w2)"
        using Suc by (auto simp: within_def cl_bind_def cl_lift_def cl_fail_def consolidated.refl split: sum.split)
      show ?thesis using consolidated.within_bind [OF refresh_consolidate inner] by (simp add: within_def)
    qed
    from 1 step show "only_consolidates env' w (fst (reserve_rounds env (Suc k) tid target purpose preferred strategy w))"
      using consolidated.trans [OF same_commits_consolidate [OF store_reserve_commits [OF 1]] step]
        same_commits_consolidate [OF store_reserve_commits [OF 1]] by (cases r1) simp_all
  qed
qed

lemma reserve_consolidate: "within (only_consolidates env') (output_errors (service_reserve_token_outputs env tid target purpose preferred strategy))"
  unfolding service_reserve_token_outputs_def by (rule consolidated.within_map_err) (rule reserve_rounds_consolidate)

lemma under_reservation_result:
  assumes "under_reservation env res f w = (w', r)"
  obtains w1 where "f w = (w1, r)" and "tw_commits w' = tw_commits w1"
  using assms by (auto simp: under_reservation_def with_reserved_def finalize_in_def cancel_in_def split: prod.splits sum.splits)

lemma pays_wallet: "pays env [to_wallet env tid amount key] tx \<Longrightarrow> se_identity env n = Ok key \<Longrightarrow> list_all (to_wallet_key env) (tx_token_outputs tx)"
  by (auto simp: pays_def list_all2_Cons1 to_wallet_def own_address_def to_wallet_key_def with_identity_def) blast

lemma optimize_token_consolidate: "within (only_consolidates env) (optimize_token env tid)"
  unfolding within_def
proof
  fix w
  obtain w' r where run: "optimize_token env tid w = (w', r)" by fastforce
  have "only_consolidates env w w'" using run [unfolded optimize_token_def]
  proof (cases rule: cl_bind_cases)
    case (failed e)
    then show ?thesis using withinD [OF reserve_consolidate] by blast
  next
    case (went_on w1 res)
    define amount where "amount = wsum 128 (amounts_of (tos_outputs (tr_token_outputs res)))"
    have 1: "only_consolidates env w w1" using withinD [OF reserve_consolidate went_on(1)] .
    from went_on(2) [unfolded Let_def, folded amount_def] show ?thesis
    proof (cases rule: cl_bind_cases)
      case (failed e)
      with 1 withinD [OF asks_consolidate [OF identity_only] failed(1)] show ?thesis by (blast intro: consolidated.trans)
    next
      case (went_on w2 key)
      have 2: "only_consolidates env w w2" using 1 withinD [OF asks_consolidate [OF identity_only] went_on(1)] by (rule consolidated.trans)
      have key: "se_identity env (tw_calls w1) = Ok key"
        using went_on(1) by (auto simp: get_identity_public_key_def ask_def map_err_def split: sum.splits)
      have amount: "\<forall>x \<in> set [to_wallet env tid amount key]. tto_amount x < 2 ^ 128"
        using wsum_bound [of 128] by (simp add: to_wallet_def amount_def)
      have 3: "only_consolidates env w2 w3"
        if run3: "under_reservation env res (transfer_tokens_inner env tid (tos_outputs (tr_token_outputs res)) [to_wallet env tid amount key]) w2 = (w3, r3)"
        for w3 r3
      proof -
        obtain v where v: "transfer_tokens_inner env tid (tos_outputs (tr_token_outputs res)) [to_wallet env tid amount key] w2 = (v, r3)"
          "tw_commits w3 = tw_commits v" using under_reservation_result [OF run3] by blast
        from inner_outcomes [OF v(1) _ amount] v(2) pays_wallet [OF _ key] show ?thesis
          by (auto simp: only_consolidates_def consolidates_def)
      qed
      from went_on(2) show ?thesis
      proof (cases rule: cl_bind_cases)
        case (failed e)
        with 2 3 show ?thesis by (blast intro: consolidated.trans)
      next
        case (went_on w3 tt)
        from 3 [OF went_on(1)] withinD [OF consolidated.within_map_err [OF insert_consolidate] went_on(2)] 2
        show ?thesis by (blast intro: consolidated.trans)
      qed
    qed
  qed
  with run show "only_consolidates env w (fst (optimize_token env tid w))" by simp
qed

lemma optimize_consolidate: "within (only_consolidates env) (optimize_token_outputs env wanted k)"
proof -
  have "within (only_consolidates env) (optimize_each env k ts)" for ts
    by (induction ts) (auto intro!: consolidated.within_steps optimize_token_consolidate)
  then show ?thesis by (simp add: within_def optimize_token_outputs_def Let_def consolidated.refl)
qed

text \<open>An attempt either commits a payment to the receivers, and is then not retried, or no transaction was accepted.\<close>

lemma attempt_outcomes:
  assumes "reserve_for_payment env tid total_amount preferred strategy w = (w1, Ok res)" and "attempt_payment env tid rs res w1 = (w2, r)"
    and "rs \<noteq> []" and "\<forall>x \<in> set rs. tto_amount x < 2 ^ 128"
  shows "(only_consolidates env w w2 \<and> \<not> is_ok r)
    \<or> (\<exists>v tx. only_consolidates env w v \<and> tw_commits w2 = tw_commits v @ [(tx, True)] \<and> pays env rs tx \<and> only_generic r)"
proof -
  obtain v where v: "transfer_tokens_inner env tid (tos_outputs (tr_token_outputs res)) rs w1 = (v, r)" "tw_commits w2 = tw_commits v"
    using under_reservation_result [OF assms(2)] by blast
  have 1: "only_consolidates env w w1" using withinD [OF reserve_consolidate assms(1)] .
  have keep: "only_consolidates env w w2" if "tw_commits w2 = tw_commits w1 @ ext" "list_all (consolidates env) ext" for ext
    using consolidated.trans [OF 1, of w2] that by (auto simp: only_consolidates_def)
  from inner_outcomes [OF v(1) assms(3,4)] show ?thesis
  proof (elim disjE exE conjE)
    assume "tw_commits v = tw_commits w1" "\<not> is_ok r"
    with v(2) keep [of "[]"] show ?thesis by simp
  next
    fix tx m
    assume "tw_commits v = tw_commits w1 @ [(tx, False)]" "r = Err (ServiceConnectionError m)"
    with v(2) keep [of "[(tx, False)]"] show ?thesis by (simp add: consolidates_def)
  next
    fix tx
    assume "tw_commits v = tw_commits w1 @ [(tx, True)]" "pays env rs tx" "r = token_transaction_try_from (se_codecs env) (se_network env) tx"
    with v(2) 1 og_transaction show ?thesis by metis
  qed
qed

lemma payment_retry_consolidate:
  assumes "payment_retry env tid total_amount rs preferred strategy w w'" and "rs \<noteq> []" and "\<forall>x \<in> set rs. tto_amount x < 2 ^ 128"
  shows "only_consolidates env w w'"
  using assms(1)
proof cases
  case (optimised w1 res w2 u)
  have "only_consolidates env w w2" using attempt_outcomes [OF optimised(1,2) assms(2,3)] by (auto simp: only_generic_def)
  with withinD [OF optimize_consolidate optimised(3)] show ?thesis by (blast intro: consolidated.trans)
next
  case (refreshed w1 res w2 e u)
  have "only_consolidates env w w2" using attempt_outcomes [OF refreshed(1,2) assms(2,3)] refreshed(3)
    by (auto simp: only_generic_def is_transaction_preempted_error_def)
  with withinD [OF consolidated.within_map_err [OF refresh_consolidate] refreshed(4)] show ?thesis by (blast intro: consolidated.trans)
qed

lemma payment_end_commits:
  assumes "payment_end env tid total_amount rs preferred strategy w w' r" and "rs \<noteq> []" and "\<forall>x \<in> set rs. tto_amount x < 2 ^ 128"
  shows "(only_consolidates env w w' \<and> \<not> is_ok r)
    \<or> (\<exists>v tx. only_consolidates env w v \<and> tw_commits w' = tw_commits v @ [(tx, True)] \<and> pays env rs tx)"
  using assms(1)
proof cases
  case (not_reserved e)
  then show ?thesis using withinD [OF reserve_consolidate] by fastforce
next
  case (paid w1 res tt)
  with attempt_outcomes [OF paid(2,3) assms(2,3)] show ?thesis by auto
next
  case (refused w1 res e)
  with attempt_outcomes [OF refused(2,3) assms(2,3)] show ?thesis by auto
next
  case (not_optimised w1 res w2 e)
  have "only_consolidates env w w2" using attempt_outcomes [OF not_optimised(2,3) assms(2,3)] by (auto simp: only_generic_def)
  with not_optimised(1) withinD [OF optimize_consolidate not_optimised(4)] show ?thesis by (auto intro: consolidated.trans)
next
  case (not_refreshed w1 res w2 e e')
  have "only_consolidates env w w2" using attempt_outcomes [OF not_refreshed(2,3) assms(2,3)] not_refreshed(4)
    by (auto simp: only_generic_def is_transaction_preempted_error_def)
  with not_refreshed(1) withinD [OF consolidated.within_map_err [OF refresh_consolidate] not_refreshed(5)] show ?thesis
    by (auto intro: consolidated.trans)
qed (simp add: consolidated.refl)

lemma transfer_rounds_commits:
  assumes "transfer_rounds env tid total_amount rs preferred strategy a p w = (w', r)" and "rs \<noteq> []" and "\<forall>x \<in> set rs. tto_amount x < 2 ^ 128"
  shows "(only_consolidates env w w' \<and> \<not> is_ok r)
    \<or> (\<exists>v tx. only_consolidates env w v \<and> tw_commits w' = tw_commits v @ [(tx, True)] \<and> pays env rs tx)"
proof -
  obtain v where v: "(payment_retry env tid total_amount rs preferred strategy)\<^sup>*\<^sup>* w v"
    "payment_end env tid total_amount rs preferred strategy v w' r" using transfer_rounds_steps [OF assms(1)] by blast
  have "only_consolidates env w v" using v(1)
    by (induction rule: rtranclp_induct) (auto simp: consolidated.refl intro: consolidated.trans payment_retry_consolidate [OF _ assms(2,3)])
  with payment_end_commits [OF v(2) assms(2,3)] show ?thesis by (blast intro: consolidated.trans)
qed

definition keeps_commits :: "token_world \<Rightarrow> token_world \<Rightarrow> bool" where
  "keeps_commits w w' \<longleftrightarrow> tw_commits w' = tw_commits w"

interpretation same_commits: step_preorder keeps_commits
  by unfold_locales (auto simp: keeps_commits_def)

lemma asks_same_commits: "within only_asks m \<Longrightarrow> within keeps_commits m"
  by (auto simp: within_def only_asks_def keeps_commits_def)

lemma store_change_commits: "within keeps_commits (store_change env tt res)"
proof -
  have "within keeps_commits (on_store f)" for f by (simp add: within_def on_store_def keeps_commits_def)
  then show ?thesis unfolding store_change_def service_insert_token_outputs_def
    by (intro same_commits.within_steps asks_same_commits [OF identity_only] asks_same_commits [OF ask_only])
qed

lemma payment_commits_form:
  assumes "(only_consolidates env w w' \<and> \<not> ok)
    \<or> (\<exists>v tx. only_consolidates env w v \<and> tw_commits w' = tw_commits v @ [(tx, True)] \<and> pays env rs tx)"
  shows "\<exists>ext last. tw_commits w' = tw_commits w @ ext @ last \<and> list_all (consolidates env) ext
     \<and> (last = [] \<and> \<not> ok \<or> (\<exists>tx. last = [(tx, True)] \<and> pays env rs tx))"
  using assms
proof (elim disjE exE conjE)
  assume "only_consolidates env w w'" "\<not> ok"
  then show ?thesis unfolding only_consolidates_def by (metis append_Nil2)
next
  fix v tx
  assume "only_consolidates env w v" "tw_commits w' = tw_commits v @ [(tx, True)]" "pays env rs tx"
  then show ?thesis unfolding only_consolidates_def by (metis append.assoc)
qed

text \<open>C20. A transfer pays the receivers at most once: of the transactions that the coordinator accepts during the call, whatever is
  answered and retried, all but the last only move tokens to the wallet itself, and the last one pays every receiver the amount
  asked for, with the change, if any, to the wallet. The call succeeds only after it.\<close>

theorem transfer_pays_once:
  assumes "transfer_tokens env receivers preferred strategy w = (w', r)" and "\<forall>x \<in> set receivers. tto_amount x < 2 ^ 128"
  shows "\<exists>ext last. tw_commits w' = tw_commits w @ ext @ last \<and> list_all (consolidates env) ext
     \<and> (last = [] \<and> \<not> is_ok r \<or> (\<exists>tx. last = [(tx, True)] \<and> pays env receivers tx))"
proof (cases receivers)
  case Nil
  with assms(1) show ?thesis by (auto simp: transfer_tokens_def cl_fail_def)
next
  case (Cons x xs)
  show ?thesis
  proof (cases "list_ex (\<lambda>y. tto_token_id y \<noteq> tto_token_id x) receivers")
    case True
    with assms(1) Cons show ?thesis by (auto simp: transfer_tokens_def cl_fail_def)
  next
    case False
    with assms(1) Cons have run: "cl_bind (transfer_rounds env (tto_token_id x) (wsum 128 (map tto_amount receivers)) receivers preferred strategy 0 0)
        (\<lambda>(tt, reservation). store_change env tt reservation) w = (w', r)" by (simp add: transfer_tokens_def)
    have ne: "receivers \<noteq> []" using Cons by simp
    from run show ?thesis
    proof (cases rule: cl_bind_cases)
      case (failed e)
      from payment_commits_form [OF transfer_rounds_commits [OF failed(1) ne assms(2)]] failed(2) show ?thesis by simp
    next
      case (went_on w1 p)
      have same: "tw_commits w' = tw_commits w1" using withinD [OF store_change_commits] went_on(2) by (cases p) (auto simp: keeps_commits_def)
      from payment_commits_form [OF transfer_rounds_commits [OF went_on(1) ne assms(2)]] show ?thesis unfolding same by auto
    qed
  qed
qed

text \<open>C21. Whatever the operators, the observer and the signatures answer, a transfer leaves no reservation behind, as long as the
  signer tells the key of the wallet.\<close>

theorem transfer_releases_reservations:
  assumes "signer_answers env" and "transfer_tokens env receivers preferred strategy w = (w', r)"
  shows "set (hm_keys (tk_reservations (tw_store w'))) \<subseteq> set (hm_keys (tk_reservations (tw_store w)))"
proof -
  have change: "within no_more_reservations (store_change env tt res)" for tt res
    unfolding store_change_def by (intro nmr.within_steps insert_nmr within_nmr [OF identity_only])
  have "within no_more_reservations (transfer_tokens env receivers preferred strategy)"
    unfolding transfer_tokens_def
    by (cases receivers) (auto intro!: nmr.within_steps transfer_rounds_nmr [OF assms(1)] change split: prod.split)
  from withinD [OF this assms(2)] show ?thesis by (simp add: no_more_reservations_def)
qed

section \<open>What goes wrong\<close>

lemma store_reserve_purpose:
  "store_reserve env tid target purpose preferred strategy w = (w', Ok res) \<Longrightarrow>
   \<exists>entry. hm_get (tk_reservations (tw_store w')) (tr_id res) = Some entry \<and> te_purpose entry = purpose"
  by (auto simp: store_reserve_def reserve_token_outputs_def Let_def split: option.splits sum.splits prod.splits)

lemma reserve_rounds_purpose:
  "reserve_rounds env k tid target purpose preferred strategy w = (w', Ok res) \<Longrightarrow>
   \<exists>entry. hm_get (tk_reservations (tw_store w')) (tr_id res) = Some entry \<and> te_purpose entry = purpose"
proof (induction k arbitrary: w)
  case (Suc k)
  obtain w1 r1 where 1: "store_reserve env tid target purpose preferred strategy w = (w1, r1)" by fastforce
  show ?case
  proof (cases r1)
    case (Inr reservation)
    with 1 Suc.prems store_reserve_purpose show ?thesis by auto
  next
    case (Inl e)
    with Suc.prems 1 obtain w2 where "reserve_rounds env k tid target purpose preferred strategy w2 = (w', Ok res)"
      by (auto simp: cl_bind_def cl_lift_def cl_fail_def split: prod.splits sum.splits if_splits)
    with Suc.IH show ?thesis by blast
  qed
qed simp

lemma swap_blocks_refresh:
  assumes "hm_get (tk_reservations st) i = Some entry" and "te_purpose entry = TokenSwap"
  shows "set_tokens_outputs now st ts started = st"
proof -
  have "entry \<in> set (hm_values (tk_reservations st))"
    using assms(1) by (auto simp: hm_get_def hm_values_def dest!: map_of_SomeD) force
  with assms(2) show ?thesis by (auto simp: set_tokens_outputs_def Let_def list_ex_iff)
qed

text \<open>When the outputs of a token are consolidated and the signer fails to tell the key of the wallet after they were reserved,
  the error leaves the reservation open. It is one for a swap, so from then on every refresh of the token outputs is ignored.\<close>

theorem optimize_leaks_reservation:
  assumes "service_reserve_token_outputs env tid (MaxOutputCount MAX_TOKEN_TX_INPUTS) TokenSwap None (Some SmallestFirst) w = (w1, Ok res)"
    and "se_identity env (tw_calls w1) = Err e" and "optimize_token env tid w = (w', r)"
  shows "r = Err (SvSignerError e) \<and> tr_id res \<in> set (hm_keys (tk_reservations (tw_store w')))
    \<and> set_tokens_outputs now (tw_store w') ts started = tw_store w'"
proof -
  obtain entry where entry: "hm_get (tk_reservations (tw_store w1)) (tr_id res) = Some entry" "te_purpose entry = TokenSwap"
    using reserve_rounds_purpose assms(1) unfolding service_reserve_token_outputs_def by blast
  have "tw_store w' = tw_store w1 \<and> r = Err (SvSignerError e)"
    using assms by (auto simp: optimize_token_def cl_bind_def cl_map_err_def map_err_def Let_def get_identity_public_key_def ask_def)
  with entry swap_blocks_refresh [OF entry] show ?thesis by (auto simp: hm_keys_get)
qed

text \<open>C40. If the coordinator accepts a payment with an output that has no identifier, which validation and hashing allow, the call
  fails and the outputs just spent return to the pool.\<close>

theorem accepted_payment_reported_failed:
  assumes "token_inv (tw_store w)" and "token_reserved_in (tw_store w) (tr_id res) = Some xs"
    and "attempt_payment env tid rs res w = (w', r)" and "tw_commits w' = tw_commits w @ [(tx, True)]"
    and "list_ex (\<lambda>x. ro_id x = None) (tx_token_outputs tx)" and "rs \<noteq> []" and "\<forall>x \<in> set rs. tto_amount x < 2 ^ 128"
  shows "\<not> is_ok r \<and> (\<forall>x \<in> set xs. token_pooled_in (tw_store w') x)"
proof -
  obtain v where v: "transfer_tokens_inner env tid (tos_outputs (tr_token_outputs res)) rs w = (v, r)" "tw_commits w' = tw_commits v"
    using under_reservation_result [OF assms(3)] by blast
  have store: "tw_store v = tw_store w" using withinD [OF inner_kept v(1)] by (simp add: keeps_store_def)
  have r: "r = token_transaction_try_from (se_codecs env) (se_network env) tx"
    using inner_outcomes [OF v(1) assms(6,7)] v(2) assms(4) by auto
  have bad: "\<not> is_ok r"
  proof
    assume "is_ok r"
    then obtain outs where "collect_ok (map (token_output_try_from (se_codecs env) (se_network env)) (tx_token_outputs tx)) = Ok outs"
      unfolding r by (auto simp: is_ok_iff token_transaction_try_from_def)
    then have "\<forall>x \<in> set (tx_token_outputs tx). \<exists>y. token_output_try_from (se_codecs env) (se_network env) x = Ok y"
      by (auto simp: collect_ok_map in_set_conv_nth)
    with assms(5) show False by (auto simp: list_ex_iff token_output_try_from_def ok_or_def)
  qed
  then have "tw_store w' = token_cancel_reservation (tw_store w) (tr_id res)"
    using assms(3) v(1) store by (auto simp: under_reservation_def with_reserved_def cancel_in_def is_ok_def split: sum.splits)
  with bad token_scope.cancel_pooled [OF assms(1,2)] show ?thesis by simp
qed

section \<open>Sample runs\<close>

definition demo_codecs :: token_codecs where
  "demo_codecs =
     \<lparr>sha256 = (\<lambda>_. []), hex_encode = (\<lambda>_. ''h''), hex_decode = (\<lambda>_. Some []),
      serialize_key = map of_char, parse_key = (\<lambda>_. Some ''me''), bech32m_encode = (\<lambda>_ _. Ok ''tok''),
      bech32m_decode = (\<lambda>_. Ok (''btkn'', [7])), parse_spark_address = (\<lambda>_. Err []), is_nfc = (\<lambda>_. True)\<rparr>"

text \<open>What the sample coordinator adds to the outputs.\<close>

definition demo_complete :: "string option \<Rightarrow> RpcTokenTransaction \<Rightarrow> RpcTokenTransaction" where
  "demo_complete i tx = tx\<lparr>tx_token_outputs := map (\<lambda>x. x\<lparr>ro_id := i, ro_revocation_commitment := Some [], ro_withdraw_bond_sats := Some 0,
     ro_withdraw_relative_block_locktime := Some 0\<rparr>) (tx_token_outputs tx)\<rparr>"

definition demo_env :: "string option \<Rightarrow> (SignerError + public_key) \<Rightarrow> token_service_env" where
  "demo_env i key =
     \<lparr>se_builder = \<lparr>be_codecs = demo_codecs, be_identity = ''me'', be_operator_keys = [], be_network = Mainnet\<rparr>,
      se_validation = \<lparr>ve_config = \<lparr>expected_withdraw_bond_sats = 0, expected_withdraw_relative_block_locktime = 0,
                         transaction_validity_duration_seconds = 60\<rparr>, ve_split_secret_threshold = 1, ve_operator_identifiers = []\<rparr>,
      se_preempted = (\<lambda>_. False), se_identity = (\<lambda>_. key), se_sign = (\<lambda>_ _. Ok []), se_clock = (\<lambda>n. n),
      se_created_at = (\<lambda>_. Some \<lparr>ts_seconds = 0, ts_nanos = 0\<rparr>), se_new_id = (\<lambda>_. ''r1''),
      se_query_outputs = (\<lambda>_ _ _. Ok []), se_query_metadata = (\<lambda>_ _ _. Ok []),
      se_start = (\<lambda>_ q. Ok \<lparr>final_token_transaction = Some (demo_complete i (st_partial_token_transaction q)),
                            keyshare_info = Some \<lparr>owner_identifiers = [], ks_threshold = 1\<rparr>\<rparr>),
      se_commit = (\<lambda>_ _. Ok ()), se_observer = None, se_address_string = (\<lambda>_. None), se_freeze = (\<lambda>_ _ _. Err [])\<rparr>"

definition demo_world :: token_world where
  "demo_world = \<lparr>tw_store = sample_tokens, tw_calls = 0, tw_commits = []\<rparr>"

definition demo_receiver :: TransferTokenOutput where
  "demo_receiver = \<lparr>tto_token_id = ''tok'', tto_amount = 3,
     receiver_address = \<lparr>identity_public_key = ''you'', address_network = Mainnet, spark_invoice_id = None\<rparr>, tto_spark_invoice = None\<rparr>"

definition demo_reservation :: TokenOutputsReservation where
  "demo_reservation = \<lparr>tr_id = ''r1'', tr_token_outputs = \<lparr>tos_metadata = sample_metadata, tos_outputs = [sample_output ''a'' 3]\<rparr>\<rparr>"

definition demo_partial :: RpcTokenTransaction where
  "demo_partial =
     \<lparr>tx_version = 2, tx_token_inputs = Some (TransferInput [\<lparr>prev_token_transaction_hash = [], prev_token_transaction_vout = 0\<rparr>]),
      tx_token_outputs = [plain_output (map of_char ''you'') [7] 3], spark_operator_identity_public_keys = [],
      tx_expiry_time = None, tx_network = 1, client_created_timestamp = Some \<lparr>ts_seconds = 0, ts_nanos = 0\<rparr>, invoice_attachments = []\<rparr>"

lemmas demo_defs = demo_env_def demo_codecs_def demo_receiver_def sample_output_def

lemma demo_reserve:
  "store_reserve (demo_env i key) ''tok'' (MinTotalValue 3) purpose None strategy demo_world =
     (\<lparr>tw_store = fst (reserve_token_outputs ''r1'' sample_tokens ''tok'' (MinTotalValue 3) purpose None strategy), tw_calls = 1, tw_commits = []\<rparr>,
      Ok demo_reservation)"
  by (simp add: store_reserve_def demo_world_def demo_env_def sample_tokens_eval reserve_token_outputs_def default_token_state_def
      hm_get_Cons candidate_outputs_def output_vec_def hm_values_def select_outputs_def sample_output_def demo_reservation_def Let_def)

lemma demo_build:
  "build_transfer (demo_env i key) [sample_output ''a'' 3] [demo_receiver] w = (w\<lparr>tw_calls := Suc (tw_calls w)\<rparr>, Ok demo_partial)"
  by (simp add: build_transfer_def cl_bind_def cl_return_def ask_def cl_lift_def demo_defs build_transfer_token_transaction_def with_change_def
      output_to_spend_def receiver_output_def invalid_token_id_def map_err_def bech32m_decode_token_id_def
      build_token_transaction_def with_identity_def ok_or_def List.map_filter_def Let_def demo_partial_def)

lemma demo_hash:
  "compute_hash demo_codecs demo_partial True = Ok []" "compute_hash demo_codecs (demo_complete i demo_partial) False = Ok []"
  by (simp_all add: compute_hash_def compute_hash_v2_def compute_common_hash_components_def common_preimages_def invoice_preimages_def
      inputs_preimages_def output_preimage_def demo_partial_def demo_complete_def ok_or_def final_hash_def demo_codecs_def plain_output_def Let_def)

lemma demo_validated:
  "validate_token_transaction (se_validation (demo_env i key)) demo_partial (demo_complete i demo_partial)
     \<lparr>owner_identifiers = [], ks_threshold = 1\<rparr> = Ok ()"
  by (simp add: validate_token_transaction_def demo_partial_def demo_complete_def demo_env_def validate_inputs_def validate_keyshare_def ok_or_def)

lemma demo_codecs_of [simp]: "se_codecs (demo_env i key) = demo_codecs" "be_operator_keys (se_builder (demo_env i key)) = []"
    "se_observer (demo_env i key) = None"
  by (simp_all add: demo_env_def)

lemma demo_start:
  "start_transaction (demo_env i (Ok k)) demo_partial w = (w\<lparr>tw_calls := tw_calls w + 3\<rparr>, Ok (demo_complete i demo_partial))"
  using demo_validated [of i "Ok k"]
  by (simp add: start_transaction_def demo_hash cl_bind_def cl_lift_def cl_return_def sign_hash_def get_identity_public_key_def ask_def
      map_err_def signatures_for_def ok_or_def demo_env_def) (simp add: demo_partial_def)

lemma demo_inner:
  "\<exists>w'. transfer_tokens_inner (demo_env i (Ok k)) tid [sample_output ''a'' 3] [demo_receiver] w =
     (w', token_transaction_try_from demo_codecs Mainnet (demo_complete i demo_partial))
   \<and> tw_commits w' = tw_commits w @ [(demo_complete i demo_partial, True)]"
  by (simp add: transfer_tokens_inner_def MAX_TOKEN_TX_INPUTS_def cl_bind_def demo_build demo_start demo_hash cl_lift_def cl_return_def
      before_send_token_def committed_transaction_def commit_transaction_def create_per_operator_signatures_def get_identity_public_key_def
      ask_def map_err_def send_commit_def Let_def) (simp add: demo_env_def map_err_def)

lemma demo_attempt:
  obtains w' where "attempt_payment (demo_env i (Ok k)) tid [demo_receiver] demo_reservation w =
      (w', token_transaction_try_from demo_codecs Mainnet (demo_complete i demo_partial))"
    and "tw_commits w' = tw_commits w @ [(demo_complete i demo_partial, True)]"
proof -
  obtain v where v: "transfer_tokens_inner (demo_env i (Ok k)) tid [sample_output ''a'' 3] [demo_receiver] w =
      (v, token_transaction_try_from demo_codecs Mainnet (demo_complete i demo_partial))"
    "tw_commits v = tw_commits w @ [(demo_complete i demo_partial, True)]" using demo_inner by blast
  show ?thesis
    by (rule that [of "case token_transaction_try_from demo_codecs Mainnet (demo_complete i demo_partial) of
          Ok _ \<Rightarrow> finalize_in (demo_env i (Ok k)) v ''r1'' | Err _ \<Rightarrow> cancel_in v ''r1''"])
      (simp_all add: under_reservation_def with_reserved_def demo_reservation_def v finalize_in_def cancel_in_def split: sum.split)
qed

lemma demo_converts: "\<exists>tt. token_transaction_try_from demo_codecs Mainnet (demo_complete (Some i) demo_partial) = Ok tt"
proof -
  have "\<exists>tt. token_output_try_from demo_codecs Mainnet (x\<lparr>ro_id := Some i, ro_revocation_commitment := Some [], ro_withdraw_bond_sats := Some 0,
     ro_withdraw_relative_block_locktime := Some 0\<rparr>) = Ok tt" if "x = plain_output owner [7] 3" for x owner
    using that by (simp add: token_output_try_from_def plain_output_def demo_codecs_def parsed_def parsed_opt_def
        bech32m_encode_token_id_def map_err_def ok_or_def be_u128_def)
  then show ?thesis
    by (auto simp: token_transaction_try_from_def demo_hash)
      (auto simp: demo_complete_def demo_partial_def ok_or_def token_inputs_try_from_def)
qed

lemma demo_run:
  obtains w' tt where "transfer_tokens (demo_env (Some i) (Ok k)) [demo_receiver] None None demo_world = (w', Ok tt)"
proof -
  let ?env = "demo_env (Some i) (Ok k)"
  define w1 where "w1 = fst (store_reserve ?env ''tok'' (MinTotalValue 3) TokenPayment None None demo_world)"
  have 1: "reserve_for_payment ?env ''tok'' 3 None None demo_world = (w1, Ok demo_reservation)"
    by (simp add: cl_map_err_def service_reserve_token_outputs_def SELECT_TOKEN_OUTPUTS_MAX_RETRIES_def numeral_3_eq_3 map_err_def w1_def
        demo_reserve [of "Some i" "Ok k" TokenPayment None, unfolded numeral_3_eq_3])
  obtain tt where tt: "token_transaction_try_from demo_codecs Mainnet (demo_complete (Some i) demo_partial) = Ok tt"
    using demo_converts by blast
  obtain w2 where 2: "attempt_payment ?env ''tok'' [demo_receiver] demo_reservation w1 = (w2, Ok tt)"
    using demo_attempt [of "Some i" k "''tok''" w1] tt by metis
  have rounds: "transfer_rounds ?env ''tok'' 3 [demo_receiver] None None 0 0 demo_world = (w2, Ok (tt, demo_reservation))"
    unfolding transfer_rounds.simps [of ?env "''tok''" 3 "[demo_receiver]" None None 0 0 demo_world] 1 prod.case sum.case 2
    by (simp add: MAX_TRANSFER_TOKEN_TOO_MANY_OUTPUTS_RETRY_ATTEMPTS_def)
  obtain w3 where "store_change ?env tt demo_reservation w2 = (w3, Ok tt)"
    by (simp add: store_change_def cl_bind_def get_identity_public_key_def ask_def map_err_def cl_map_err_def service_insert_token_outputs_def
        on_store_def cl_return_def) (simp add: demo_env_def)
  with rounds show ?thesis using that
    by (simp add: transfer_tokens_def cl_bind_def demo_receiver_def)
qed

theorem transfer_pays_once_witness:
  "\<exists>w' r ext last. transfer_tokens (demo_env (Some ''n'') (Ok ''me'')) [demo_receiver] None None demo_world = (w', r) \<and> is_ok r
     \<and> tw_commits w' = ext @ last \<and> list_all (consolidates (demo_env (Some ''n'') (Ok ''me''))) ext
     \<and> (\<exists>tx. last = [(tx, True)] \<and> pays (demo_env (Some ''n'') (Ok ''me'')) [demo_receiver] tx)"
proof -
  obtain w' tt where run: "transfer_tokens (demo_env (Some ''n'') (Ok ''me'')) [demo_receiver] None None demo_world = (w', Ok tt)"
    using demo_run .
  have "\<forall>x \<in> set [demo_receiver]. tto_amount x < 2 ^ 128" by (simp add: demo_receiver_def)
  from transfer_pays_once [OF run this] run show ?thesis by (fastforce simp: demo_world_def)
qed

theorem transfer_releases_reservations_witness:
  "\<exists>w' r. transfer_tokens (demo_env (Some ''n'') (Ok ''me'')) [demo_receiver] None None demo_world = (w', r)
     \<and> is_ok r \<and> tk_reservations (tw_store w') = []"
proof -
  obtain w' tt where run: "transfer_tokens (demo_env (Some ''n'') (Ok ''me'')) [demo_receiver] None None demo_world = (w', Ok tt)"
    using demo_run .
  have "signer_answers (demo_env (Some ''n'') (Ok ''me''))" by (simp add: signer_answers_def demo_env_def)
  from transfer_releases_reservations [OF this run] run show ?thesis
    by (auto simp: demo_world_def sample_tokens_eval default_token_state_def hm_keys_def)
qed

theorem accepted_payment_reported_failed_witness:
  "\<exists>w' r. attempt_payment (demo_env None (Ok ''me'')) ''tok'' [demo_receiver] demo_reservation
       \<lparr>tw_store = sample_reserved, tw_calls = 0, tw_commits = []\<rparr> = (w', r)
     \<and> length (tw_commits w') = 1 \<and> \<not> is_ok r \<and> token_pooled_in (tw_store w') (''tok'', ''a'')"
proof -
  let ?w = "\<lparr>tw_store = sample_reserved, tw_calls = 0, tw_commits = []\<rparr>"
  obtain w' where run: "attempt_payment (demo_env None (Ok ''me'')) ''tok'' [demo_receiver] demo_reservation ?w =
      (w', token_transaction_try_from demo_codecs Mainnet (demo_complete None demo_partial))"
    and commits: "tw_commits w' = tw_commits ?w @ [(demo_complete None demo_partial, True)]"
    using demo_attempt .
  have reserved: "token_reserved_in (tw_store ?w) (tr_id demo_reservation) = Some [(''tok'', ''a'')]"
    by (simp add: token_reserved_in_def demo_reservation_def sample_reserved_eval entry_outputs_def sample_output_def sample_metadata_def hm_get_Cons)
  have "list_ex (\<lambda>x. ro_id x = None) (tx_token_outputs (demo_complete None demo_partial))"
    by (simp add: demo_complete_def demo_partial_def)
  from accepted_payment_reported_failed [OF _ reserved run commits this] commits run sample_reserved_inv
  show ?thesis by (auto simp: demo_receiver_def)
qed

definition demo_both :: TokenOutputsReservation where
  "demo_both = \<lparr>tr_id = ''r1'', tr_token_outputs = \<lparr>tos_metadata = sample_metadata, tos_outputs = [sample_output ''a'' 3, sample_output ''b'' 4]\<rparr>\<rparr>"

lemma demo_reserve_both:
  "\<exists>w1. service_reserve_token_outputs (demo_env i key) ''tok'' (MaxOutputCount MAX_TOKEN_TX_INPUTS) TokenSwap None (Some SmallestFirst) demo_world =
     (w1, Ok demo_both)"
  by (simp add: service_reserve_token_outputs_def SELECT_TOKEN_OUTPUTS_MAX_RETRIES_def numeral_3_eq_3 store_reserve_def)
    (simp add: demo_world_def demo_env_def sample_tokens_eval reserve_token_outputs_def default_token_state_def MAX_TOKEN_TX_INPUTS_def
      hm_get_Cons candidate_outputs_def output_vec_def hm_values_def select_outputs_def sample_output_def demo_both_def Let_def sort_outputs_def)

theorem optimize_leaks_reservation_witness:
  "\<exists>w' r. optimize_token (demo_env None (Err SgUnknownKey)) ''tok'' demo_world = (w', r) \<and> r = Err (SvSignerError SgUnknownKey)
     \<and> ''r1'' \<in> set (hm_keys (tk_reservations (tw_store w'))) \<and> set_tokens_outputs 9 (tw_store w') [] 9 = tw_store w'"
proof -
  let ?env = "demo_env None (Err SgUnknownKey)"
  obtain w1 where 1: "service_reserve_token_outputs ?env ''tok'' (MaxOutputCount MAX_TOKEN_TX_INPUTS) TokenSwap None (Some SmallestFirst) demo_world =
     (w1, Ok demo_both)" using demo_reserve_both by blast
  obtain w' r where run: "optimize_token ?env ''tok'' demo_world = (w', r)" by fastforce
  have "se_identity ?env (tw_calls w1) = Err SgUnknownKey" by (simp add: demo_env_def)
  from optimize_leaks_reservation [OF 1 this run, of 9 "[]" 9] run show ?thesis by (simp add: demo_both_def)
qed

end
