(* ===== verification/Payment_Model.thy ===== *)
theory Payment_Model
  imports Token_Converter
begin

text \<open>
  The data that the SDK keeps about payments: \<open>crates/breez-sdk/core/src/models/mod.rs\<close> and
  \<open>crates/breez-sdk/core/src/common/models.rs\<close>, with the requests of \<open>crates/breez-sdk/core/src/persist/mod.rs\<close>. Enumerations are
  printed into text columns and parsed back; parsing ignores the case of ASCII letters.
\<close>

section \<open>Enumerations and their texts\<close>

definition to_lower :: "char \<Rightarrow> char" where
  "to_lower c = (let n = of_char c :: nat in if 65 \<le> n \<and> n \<le> 90 then char_of (n + 32) else c)"

definition to_lowercase :: "string \<Rightarrow> string" where
  "to_lowercase s = map to_lower s"

definition quoted :: "string \<Rightarrow> string \<Rightarrow> string" where
  "quoted msg s = msg @ [char_of (39 :: nat)] @ s @ [char_of (39 :: nat)]"

datatype PaymentType = Send | Receive

fun payment_type_to_string :: "PaymentType \<Rightarrow> string" where
  "payment_type_to_string Send = ''send''"
| "payment_type_to_string Receive = ''receive''"

definition payment_type_from_str :: "string \<Rightarrow> string + PaymentType" where
  "payment_type_from_str s =
     (let l = to_lowercase s in
      if l = ''receive'' then Ok Receive else if l = ''send'' then Ok Send else Err (quoted ''invalid payment type '' s))"

datatype PaymentStatus = PayCompleted | PayPending | PayFailed

definition is_final :: "PaymentStatus \<Rightarrow> bool" where
  "is_final s = (case s of PayCompleted \<Rightarrow> True | PayFailed \<Rightarrow> True | PayPending \<Rightarrow> False)"

fun payment_status_to_string :: "PaymentStatus \<Rightarrow> string" where
  "payment_status_to_string PayCompleted = ''completed''"
| "payment_status_to_string PayPending = ''pending''"
| "payment_status_to_string PayFailed = ''failed''"

definition payment_status_from_str :: "string \<Rightarrow> string + PaymentStatus" where
  "payment_status_from_str s =
     (let l = to_lowercase s in
      if l = ''completed'' then Ok PayCompleted else if l = ''pending'' then Ok PayPending
      else if l = ''failed'' then Ok PayFailed else Err (quoted ''Invalid payment status '' s))"

datatype PaymentMethod = MethodLightning | MethodSpark | MethodToken | MethodDeposit | MethodWithdraw | MethodUnknown

fun payment_method_to_string :: "PaymentMethod \<Rightarrow> string" where
  "payment_method_to_string MethodLightning = ''lightning''"
| "payment_method_to_string MethodSpark = ''spark''"
| "payment_method_to_string MethodToken = ''token''"
| "payment_method_to_string MethodDeposit = ''deposit''"
| "payment_method_to_string MethodWithdraw = ''withdraw''"
| "payment_method_to_string MethodUnknown = ''unknown''"

definition payment_method_from_str :: "string \<Rightarrow> unit + PaymentMethod" where
  "payment_method_from_str s =
     (if s = ''lightning'' then Ok MethodLightning else if s = ''spark'' then Ok MethodSpark
      else if s = ''token'' then Ok MethodToken else if s = ''deposit'' then Ok MethodDeposit
      else if s = ''withdraw'' then Ok MethodWithdraw else if s = ''unknown'' then Ok MethodUnknown else Err ())"

datatype TokenTransactionType = TxTransfer | TxMint | TxBurn

fun token_transaction_type_to_string :: "TokenTransactionType \<Rightarrow> string" where
  "token_transaction_type_to_string TxTransfer = ''transfer''"
| "token_transaction_type_to_string TxMint = ''mint''"
| "token_transaction_type_to_string TxBurn = ''burn''"

definition token_transaction_type_from_str :: "string \<Rightarrow> string + TokenTransactionType" where
  "token_transaction_type_from_str s =
     (let l = to_lowercase s in
      if l = ''transfer'' then Ok TxTransfer else if l = ''mint'' then Ok TxMint
      else if l = ''burn'' then Ok TxBurn else Err (quoted ''Invalid token transaction type '' s))"

datatype SparkHtlcStatus = WaitingForPreimage | PreimageShared | Returned

fun htlc_status_to_string :: "SparkHtlcStatus \<Rightarrow> string" where
  "htlc_status_to_string WaitingForPreimage = ''WaitingForPreimage''"
| "htlc_status_to_string PreimageShared = ''PreimageShared''"
| "htlc_status_to_string Returned = ''Returned''"

definition htlc_status_from_str :: "string \<Rightarrow> string + SparkHtlcStatus" where
  "htlc_status_from_str s =
     (if s = ''WaitingForPreimage'' then Ok WaitingForPreimage else if s = ''PreimageShared'' then Ok PreimageShared
      else if s = ''Returned'' then Ok Returned else Err ''Invalid Spark HTLC status'')"

text \<open>Amounts are 128 bits wide and kept as decimal text.\<close>

definition parse_u128 :: "string \<Rightarrow> nat option" where
  "parse_u128 s =
     (let ds = strip_plus s in
      if ds = [] then None
      else case digits_value 0 ds of None \<Rightarrow> None | Some n \<Rightarrow> if n < 2 ^ 128 then Some n else None)"

section \<open>Payments\<close>

record SdkTokenMetadata =
  stm_identifier :: string
  stm_issuer_public_key :: string
  stm_name :: string
  stm_ticker :: string
  stm_decimals :: u32
  stm_max_supply :: u128
  stm_is_freezable :: bool

record SparkInvoicePaymentDetails =
  sip_description :: "string option"
  sip_invoice :: string

record SparkHtlcDetails =
  htlc_payment_hash :: string
  htlc_preimage :: "string option"
  htlc_expiry_time :: u64
  htlc_status :: SparkHtlcStatus

record AesSuccessActionData =
  aes_description :: string
  aes_ciphertext :: string
  aes_iv :: string

record UrlSuccessActionData =
  url_description :: string
  url_url :: string
  matches_callback_domain :: bool

datatype SuccessAction = ActionAes AesSuccessActionData | ActionMessage string | ActionUrl UrlSuccessActionData

datatype AesSuccessActionDataResult = Decrypted string string | ErrorStatus string

datatype SuccessActionProcessed =
  ProcessedAes AesSuccessActionDataResult | ProcessedMessage string | ProcessedUrl UrlSuccessActionData

record LnurlPayInfo =
  lpi_ln_address :: "string option"
  lpi_comment :: "string option"
  lpi_domain :: "string option"
  lpi_metadata :: "string option"
  lpi_processed_success_action :: "SuccessActionProcessed option"
  lpi_raw_success_action :: "SuccessAction option"

record LnurlWithdrawInfo =
  withdraw_url :: string

record LnurlReceiveMetadata =
  lrm_nostr_zap_request :: "string option"
  lrm_nostr_zap_receipt :: "string option"
  lrm_sender_comment :: "string option"

datatype PaymentDetails =
    SparkDetails "SparkInvoicePaymentDetails option" "SparkHtlcDetails option" "ConversionInfo option"
  | TokenDetails SdkTokenMetadata string TokenTransactionType "SparkInvoicePaymentDetails option" "ConversionInfo option"
  | LightningDetails "string option" string string SparkHtlcDetails "LnurlPayInfo option" "LnurlWithdrawInfo option"
      "LnurlReceiveMetadata option"
  | WithdrawDetails string
  | DepositDetails string

record ConversionStep =
  cs_payment_id :: string
  cs_amount :: u128
  cs_fee :: u128
  cs_method :: PaymentMethod
  cs_token_metadata :: "SdkTokenMetadata option"
  cs_amount_adjustment :: "AmountAdjustmentReason option"

record ConversionDetails =
  cd_status :: ConversionStatus
  cd_from :: "ConversionStep option"
  cd_to :: "ConversionStep option"

record Payment =
  p_id :: string
  p_payment_type :: PaymentType
  p_status :: PaymentStatus
  p_amount :: u128
  p_fees :: u128
  p_timestamp :: u64
  p_method :: PaymentMethod
  p_details :: "PaymentDetails option"
  p_conversion_details :: "ConversionDetails option"

definition is_conversion_child :: "Payment \<Rightarrow> bool" where
  "is_conversion_child p =
     (case p_details p of
        Some (SparkDetails _ _ (Some _)) \<Rightarrow> True
      | Some (TokenDetails _ _ _ _ (Some _)) \<Rightarrow> True
      | _ \<Rightarrow> False)"

text \<open>The steps of a conversion are read off its child payments.\<close>

definition conversion_step :: "Payment \<Rightarrow> string + ConversionStep" where
  "conversion_step p =
     (let with = (\<lambda>info md. Ok \<lparr>cs_payment_id = p_id p, cs_amount = p_amount p,
            cs_fee = sat_add 128 (p_fees p) (unwrap_or (cv_fee info) 0), cs_method = p_method p, cs_token_metadata = md,
            cs_amount_adjustment = cv_amount_adjustment info\<rparr>)
      in case p_details p of
           Some (SparkDetails _ _ (Some info)) \<Rightarrow> with info None
         | Some (TokenDetails md _ _ _ (Some info)) \<Rightarrow> with info (Some md)
         | _ \<Rightarrow> Err (''No conversion info available for payment '' @ p_id p))"

definition step_of_type :: "PaymentType \<Rightarrow> Payment list \<Rightarrow> string + ConversionStep option" where
  "step_of_type t ps =
     (case find (\<lambda>p. p_payment_type p = t) ps of None \<Rightarrow> Ok None | Some p \<Rightarrow> rbind (conversion_step p) (\<lambda>s. Ok (Some s)))"

definition conversion_steps_from_payments ::
  "Payment list \<Rightarrow> string + (ConversionStep option \<times> ConversionStep option)" where
  "conversion_steps_from_payments ps =
     rbind (step_of_type Send ps) (\<lambda>from. rbind (step_of_type Receive ps) (\<lambda>to. Ok (from, to)))"

section \<open>Deposits and contacts\<close>

datatype Fee = FeeFixed u64 | FeeRate u64

definition fee_to_sats :: "Fee \<Rightarrow> u64 \<Rightarrow> u64" where
  "fee_to_sats f vbytes = (case f of FeeFixed amount \<Rightarrow> amount | FeeRate rate \<Rightarrow> sat_mul 64 rate vbytes)"

datatype DepositClaimError =
    MaxDepositClaimFeeExceeded string u32 "Fee option" u64 u64
  | MissingUtxo string u32
  | DepositGeneric string

record DepositInfo =
  di_txid :: string
  di_vout :: u32
  di_amount_sats :: u64
  di_is_mature :: bool
  di_refund_tx :: "string option"
  di_refund_tx_id :: "string option"
  di_claim_error :: "DepositClaimError option"

datatype UpdateDepositPayload = ClaimError DepositClaimError | Refund string string

record Contact =
  ct_id :: string
  ct_name :: string
  ct_payment_identifier :: string
  ct_created_at :: u64
  ct_updated_at :: u64

record ListContactsRequest =
  lc_offset :: "u32 option"
  lc_limit :: "u32 option"

record SetLnurlMetadataItem =
  sl_payment_hash :: string
  sl_sender_comment :: "string option"
  sl_nostr_zap_request :: "string option"
  sl_nostr_zap_receipt :: "string option"

section \<open>Requests\<close>

datatype AssetFilter = AssetBitcoin | AssetToken "string option"

definition asset_filter_from_str :: "string \<Rightarrow> string + AssetFilter" where
  "asset_filter_from_str s =
     (let l = to_lowercase s in
      if l = ''bitcoin'' then Ok AssetBitcoin
      else if l = ''token'' then Ok (AssetToken None)
      else if prefix ''token:'' l then Ok (AssetToken (Some (drop 6 l)))
      else Err (quoted ''Invalid asset filter '' s))"

datatype StoragePaymentDetailsFilter =
    FilterSpark "SparkHtlcStatus list option" "bool option"
  | FilterToken "bool option" "string option" "TokenTransactionType option"
  | FilterLightning "SparkHtlcStatus list option"

record StorageListPaymentsRequest =
  lp_type_filter :: "PaymentType list option"
  lp_status_filter :: "PaymentStatus list option"
  lp_asset_filter :: "AssetFilter option"
  lp_payment_details_filter :: "StoragePaymentDetailsFilter list option"
  lp_from_timestamp :: "u64 option"
  lp_to_timestamp :: "u64 option"
  lp_offset :: "u32 option"
  lp_limit :: "u32 option"
  lp_sort_ascending :: "bool option"

definition default_list_request :: StorageListPaymentsRequest where
  "default_list_request = \<lparr>lp_type_filter = None, lp_status_filter = None, lp_asset_filter = None,
     lp_payment_details_filter = None, lp_from_timestamp = None, lp_to_timestamp = None, lp_offset = None, lp_limit = None,
     lp_sort_ascending = None\<rparr>"

record PaymentMetadata =
  pm_parent_payment_id :: "string option"
  pm_lnurl_pay_info :: "LnurlPayInfo option"
  pm_lnurl_withdraw_info :: "LnurlWithdrawInfo option"
  pm_lnurl_description :: "string option"
  pm_conversion_info :: "ConversionInfo option"
  pm_conversion_status :: "ConversionStatus option"

definition default_payment_metadata :: PaymentMetadata where
  "default_payment_metadata = \<lparr>pm_parent_payment_id = None, pm_lnurl_pay_info = None, pm_lnurl_withdraw_info = None,
     pm_lnurl_description = None, pm_conversion_info = None, pm_conversion_status = None\<rparr>"

datatype StorageError =
    StConnection string | StImplementation string | StInitialization string | StSerialization string | StNotFound

section \<open>Round trips\<close>

lemma payment_type_round_trip [simp]: "payment_type_from_str (payment_type_to_string x) = Ok x"
  by (cases x) (simp_all add: payment_type_from_str_def to_lowercase_def to_lower_def of_char_Char)

lemma payment_status_round_trip [simp]: "payment_status_from_str (payment_status_to_string x) = Ok x"
  by (cases x) (simp_all add: payment_status_from_str_def to_lowercase_def to_lower_def of_char_Char)

lemma payment_method_round_trip [simp]: "payment_method_from_str (payment_method_to_string x) = Ok x"
  by (cases x) (simp_all add: payment_method_from_str_def)

lemma token_transaction_type_round_trip [simp]: "token_transaction_type_from_str (token_transaction_type_to_string x) = Ok x"
  by (cases x) (simp_all add: token_transaction_type_from_str_def to_lowercase_def to_lower_def of_char_Char)

lemma htlc_status_round_trip [simp]: "htlc_status_from_str (htlc_status_to_string x) = Ok x"
  by (cases x) (simp_all add: htlc_status_from_str_def)

lemma conversion_status_round_trip [simp]: "conversion_status_from_str (conversion_status_to_string x) = Ok x"
  by (cases x) (simp_all add: conversion_status_from_str_def)

lemma parse_u128_decimal [simp]: "n < 2 ^ 128 \<Longrightarrow> parse_u128 (decimal n) = Some n"
proof -
  assume n: "n < 2 ^ 128"
  have "strip_plus (decimal n) = decimal n"
  proof (cases "decimal n")
    case (Cons c cs)
    then have "is_digit c" using decimal_digits [of c n] by simp
    then have "c \<noteq> CHR ''+''" by (auto simp: is_digit_def)
    with Cons show ?thesis by (simp add: strip_plus_def)
  qed (simp add: strip_plus_def)
  with n show ?thesis by (simp add: parse_u128_def digits_value_decimal)
qed

end
