(* ===== verification/Payment_Storage.thy ===== *)
theory Payment_Storage
  imports Payment_Model "HOL-Library.List_Lexorder"
begin

text \<open>
  Persistence of payments, their metadata, deposits, contacts and settings: \<open>crates/breez-sdk/core/src/persist/sqlite.rs\<close> and
  \<open>crates/breez-sdk/core/src/persist/postgres/storage.rs\<close>, the two databases behind the trait \<open>Storage\<close> of
  \<open>crates/breez-sdk/core/src/persist/mod.rs\<close> (its sync operations are in \<open>Sync_Storage\<close>).

  A table is a map from its primary key to the row, and its order stands for the order in which the database returns rows.
  Enumerations and amounts are kept as text and parsed when a row is read; values kept as JSON are read back by the same
  library and stored as they are. Integers are stored with 64 bits and a sign, output indexes in PostgreSQL with 32.
  \<open>pdb_connections\<close> lists the outcomes of the next attempts to reach the database, and those after its end succeed. Texts of driver
  errors are left out.
\<close>

section \<open>Tables\<close>

record PaymentRow =
  pr_payment_type :: string
  pr_status :: string
  pr_amount :: string
  pr_fees :: string
  pr_timestamp :: u64
  pr_method :: "string option"
  pr_withdraw_tx_id :: "string option"
  pr_deposit_tx_id :: "string option"
  pr_spark :: "bool option"

record LightningRow =
  lr_invoice :: string
  lr_payment_hash :: string
  lr_destination_pubkey :: string
  lr_description :: "string option"
  lr_preimage :: "string option"
  lr_htlc_status :: string
  lr_htlc_expiry_time :: u64

record TokenRow =
  tkr_metadata :: SdkTokenMetadata
  tkr_tx_hash :: string
  tkr_tx_type :: string
  tkr_invoice_details :: "SparkInvoicePaymentDetails option"

record SparkRow =
  spr_invoice_details :: "SparkInvoicePaymentDetails option"
  spr_htlc_details :: "SparkHtlcDetails option"

record MetadataRow =
  mr_parent_payment_id :: "string option"
  mr_lnurl_pay_info :: "LnurlPayInfo option"
  mr_lnurl_withdraw_info :: "LnurlWithdrawInfo option"
  mr_lnurl_description :: "string option"
  mr_conversion_info :: "ConversionInfo option"
  mr_conversion_status :: "string option"

record DepositRow =
  dr_amount_sats :: u64
  dr_is_mature :: bool
  dr_claim_error :: "DepositClaimError option"
  dr_refund_tx :: "string option"
  dr_refund_tx_id :: "string option"

record PaymentDb =
  pdb_connections :: "bool list"
  payments :: "(string, PaymentRow) hmap"
  payment_details_lightning :: "(string, LightningRow) hmap"
  payment_details_token :: "(string, TokenRow) hmap"
  payment_details_spark :: "(string, SparkRow) hmap"
  payment_metadata :: "(string, MetadataRow) hmap"
  lnurl_receive_metadata :: "(string, LnurlReceiveMetadata) hmap"
  unclaimed_deposits :: "(string \<times> u32, DepositRow) hmap"
  contacts :: "(string, Contact) hmap"
  settings :: "(string, string) hmap"

definition empty_payment_db :: "bool list \<Rightarrow> PaymentDb" where
  "empty_payment_db cs = \<lparr>pdb_connections = cs, payments = [], payment_details_lightning = [], payment_details_token = [],
     payment_details_spark = [], payment_metadata = [], lnurl_receive_metadata = [], unclaimed_deposits = [], contacts = [],
     settings = []\<rparr>"

definition pdb_connect :: "PaymentDb \<Rightarrow> PaymentDb \<times> bool" where
  "pdb_connect db = (case pdb_connections db of [] \<Rightarrow> (db, True) | c # cs \<Rightarrow> (db\<lparr>pdb_connections := cs\<rparr>, c))"

definition connection_error :: StorageError where
  "connection_error = StConnection ''connection''"

definition integer_overflow :: StorageError where
  "integer_overflow = StImplementation ''integer overflow''"

definition on_database ::
  "(PaymentDb \<Rightarrow> PaymentDb \<times> (StorageError + 'a)) \<Rightarrow> PaymentDb \<Rightarrow> PaymentDb \<times> (StorageError + 'a)" where
  "on_database f db = (case pdb_connect db of (db', ok) \<Rightarrow> if ok then f db' else (db', Err connection_error))"

definition to_i64 :: "u64 \<Rightarrow> StorageError + u64" where
  "to_i64 n = (if n < 2 ^ 63 then Ok n else Err integer_overflow)"

definition to_i32 :: "u32 \<Rightarrow> StorageError + u32" where
  "to_i32 n = (if n < 2 ^ 31 then Ok n else Err integer_overflow)"

definition coalesce :: "'a option \<Rightarrow> 'a option \<Rightarrow> 'a option" where
  "coalesce x y = (case x of None \<Rightarrow> y | Some a \<Rightarrow> Some a)"

fun map_rows :: "('a \<Rightarrow> 'e + 'b) \<Rightarrow> 'a list \<Rightarrow> 'e + 'b list" where
  "map_rows f [] = Ok []"
| "map_rows f (x # xs) = rbind (f x) (\<lambda>y. rbind (map_rows f xs) (\<lambda>ys. Ok (y # ys)))"

section \<open>Reading payments\<close>

text \<open>A row of the query for payments: the payment with the rows that its details, metadata and received LNURL data join.\<close>

record PaymentJoin =
  j_id :: string
  j_payment :: PaymentRow
  j_lightning :: "LightningRow option"
  j_token :: "TokenRow option"
  j_spark :: "SparkRow option"
  j_metadata :: "MetadataRow option"
  j_lnurl :: "LnurlReceiveMetadata option"

definition join_payment :: "PaymentDb \<Rightarrow> string \<times> PaymentRow \<Rightarrow> PaymentJoin" where
  "join_payment db x =
     (let i = fst x; l = hm_get (payment_details_lightning db) i
      in \<lparr>j_id = i, j_payment = snd x, j_lightning = l, j_token = hm_get (payment_details_token db) i,
          j_spark = hm_get (payment_details_spark db) i, j_metadata = hm_get (payment_metadata db) i,
          j_lnurl = (case l of None \<Rightarrow> None | Some r \<Rightarrow> hm_get (lnurl_receive_metadata db) (lr_payment_hash r))\<rparr>)"

definition select_payments :: "PaymentDb \<Rightarrow> PaymentJoin list" where
  "select_payments db = map (join_payment db) (payments db)"

definition meta :: "(MetadataRow \<Rightarrow> 'a option) \<Rightarrow> PaymentJoin \<Rightarrow> 'a option" where
  "meta f j = (case j_metadata j of None \<Rightarrow> None | Some m \<Rightarrow> f m)"

definition lightning_description :: "PaymentJoin \<Rightarrow> LightningRow \<Rightarrow> string option" where
  "lightning_description j l = coalesce (lr_description l) (meta mr_lnurl_description j)"

text \<open>The details of a payment, with the parsers of the database at hand for the two text columns among them.\<close>

definition map_details ::
  "(string \<Rightarrow> StorageError + SparkHtlcStatus) \<Rightarrow> (string \<Rightarrow> StorageError + TokenTransactionType) \<Rightarrow> PaymentJoin \<Rightarrow>
   StorageError + PaymentDetails option" where
  "map_details htlc_of tx_type_of j =
     (case (j_lightning j, pr_withdraw_tx_id (j_payment j), pr_deposit_tx_id (j_payment j), pr_spark (j_payment j), j_token j) of
        (Some l, _, _, _, _) \<Rightarrow>
          rbind (htlc_of (lr_htlc_status l)) (\<lambda>status.
            Ok (Some (LightningDetails (lightning_description j l) (lr_invoice l) (lr_destination_pubkey l)
              \<lparr>htlc_payment_hash = lr_payment_hash l, htlc_preimage = lr_preimage l, htlc_expiry_time = lr_htlc_expiry_time l,
               htlc_status = status\<rparr> (meta mr_lnurl_pay_info j) (meta mr_lnurl_withdraw_info j) (j_lnurl j))))
      | (_, Some tx_id, _, _, _) \<Rightarrow> Ok (Some (WithdrawDetails tx_id))
      | (_, _, Some tx_id, _, _) \<Rightarrow> Ok (Some (DepositDetails tx_id))
      | (_, _, _, Some _, _) \<Rightarrow>
          Ok (Some (SparkDetails (case j_spark j of None \<Rightarrow> None | Some s \<Rightarrow> spr_invoice_details s)
            (case j_spark j of None \<Rightarrow> None | Some s \<Rightarrow> spr_htlc_details s) (meta mr_conversion_info j)))
      | (_, _, _, _, Some t) \<Rightarrow>
          rbind (tx_type_of (tkr_tx_type t)) (\<lambda>tx_type.
            Ok (Some (TokenDetails (tkr_metadata t) (tkr_tx_hash t) tx_type (tkr_invoice_details t) (meta mr_conversion_info j))))
      | _ \<Rightarrow> Ok None)"

definition conversion_details_of ::
  "(string \<Rightarrow> StorageError + ConversionStatus) \<Rightarrow> PaymentJoin \<Rightarrow> StorageError + ConversionDetails option" where
  "conversion_details_of status_of j =
     (case meta mr_conversion_status j of
        None \<Rightarrow> Ok None
      | Some s \<Rightarrow> rbind (status_of s) (\<lambda>status. Ok (Some \<lparr>cd_status = status, cd_from = None, cd_to = None\<rparr>)))"

definition trim_quotes :: "string \<Rightarrow> string" where
  "trim_quotes s = (let q = (\<lambda>c. of_char c = (34 :: nat)) in rev (dropWhile q (rev (dropWhile q s))))"

definition conversion_failure :: "'e \<Rightarrow> StorageError" where
  "conversion_failure _ = StImplementation ''conversion''"

definition sqlite_method :: "string option \<Rightarrow> StorageError + PaymentMethod" where
  "sqlite_method m =
     (case m of None \<Rightarrow> Err (conversion_failure ())
      | Some s \<Rightarrow> map_err conversion_failure (payment_method_from_str (to_lowercase (trim_quotes s))))"

definition sqlite_map_payment :: "PaymentJoin \<Rightarrow> StorageError + Payment" where
  "sqlite_map_payment j =
     (let r = j_payment j in
      rbind (map_details (\<lambda>s. map_err conversion_failure (htlc_status_from_str s))
               (\<lambda>s. map_err conversion_failure (token_transaction_type_from_str s)) j) (\<lambda>details.
      rbind (conversion_details_of (\<lambda>s. map_err conversion_failure (conversion_status_from_str s)) j) (\<lambda>conversion.
      rbind (map_err conversion_failure (payment_type_from_str (pr_payment_type r))) (\<lambda>payment_type.
      rbind (map_err conversion_failure (payment_status_from_str (pr_status r))) (\<lambda>status.
      rbind (ok_or (parse_u128 (pr_amount r)) (conversion_failure ())) (\<lambda>amount.
      rbind (ok_or (parse_u128 (pr_fees r)) (conversion_failure ())) (\<lambda>fees.
      rbind (sqlite_method (pr_method r)) (\<lambda>method.
        Ok \<lparr>p_id = j_id j, p_payment_type = payment_type, p_status = status, p_amount = amount, p_fees = fees,
            p_timestamp = pr_timestamp r, p_method = method, p_details = details, p_conversion_details = conversion\<rparr>))))))))"

definition postgres_method :: "string option \<Rightarrow> PaymentMethod" where
  "postgres_method m =
     (case m of None \<Rightarrow> MethodLightning
      | Some s \<Rightarrow> (case payment_method_from_str (to_lowercase (trim_quotes s)) of Ok x \<Rightarrow> x | Err _ \<Rightarrow> MethodLightning))"

definition postgres_map_payment :: "PaymentJoin \<Rightarrow> StorageError + Payment" where
  "postgres_map_payment j =
     (let r = j_payment j in
      rbind (map_details (\<lambda>s. map_err StSerialization (htlc_status_from_str s))
               (\<lambda>s. map_err StSerialization (token_transaction_type_from_str s)) j) (\<lambda>details.
      rbind (map_err StSerialization (payment_type_from_str (pr_payment_type r))) (\<lambda>payment_type.
      rbind (map_err StSerialization (payment_status_from_str (pr_status r))) (\<lambda>status.
      rbind (ok_or (parse_u128 (pr_amount r)) (StSerialization ''invalid amount'')) (\<lambda>amount.
      rbind (ok_or (parse_u128 (pr_fees r)) (StSerialization ''invalid fees'')) (\<lambda>fees.
      rbind (conversion_details_of (\<lambda>s. map_err StSerialization (conversion_status_from_str s)) j) (\<lambda>conversion.
        Ok \<lparr>p_id = j_id j, p_payment_type = payment_type, p_status = status, p_amount = amount, p_fees = fees,
            p_timestamp = pr_timestamp r, p_method = postgres_method (pr_method r), p_details = details,
            p_conversion_details = conversion\<rparr>)))))))"

section \<open>Listing\<close>

text \<open>The clauses of the query; a clause on a missing row is not true.\<close>

definition in_list_clause :: "('a \<Rightarrow> string) \<Rightarrow> 'a list option \<Rightarrow> (PaymentJoin \<Rightarrow> string) \<Rightarrow> (PaymentJoin \<Rightarrow> bool) list" where
  "in_list_clause print xs column =
     (case xs of Some ys \<Rightarrow> if ys = [] then [] else [\<lambda>j. column j \<in> print ` set ys] | None \<Rightarrow> [])"

definition asset_clauses :: "AssetFilter option \<Rightarrow> (PaymentJoin \<Rightarrow> bool) list" where
  "asset_clauses a =
     (case a of
        None \<Rightarrow> []
      | Some AssetBitcoin \<Rightarrow> [\<lambda>j. j_token j = None]
      | Some (AssetToken i) \<Rightarrow>
          (\<lambda>j. j_token j \<noteq> None)
          # (case i of None \<Rightarrow> [] | Some identifier \<Rightarrow>
              [\<lambda>j. case j_token j of None \<Rightarrow> False | Some t \<Rightarrow> stm_identifier (tkr_metadata t) = identifier]))"

definition spark_htlc_text :: "PaymentJoin \<Rightarrow> string option" where
  "spark_htlc_text j =
     (case j_spark j of None \<Rightarrow> None
      | Some s \<Rightarrow> (case spr_htlc_details s of None \<Rightarrow> None | Some h \<Rightarrow> Some (htlc_status_to_string (htlc_status h))))"

definition htlc_clauses :: "StoragePaymentDetailsFilter \<Rightarrow> (PaymentJoin \<Rightarrow> bool) list" where
  "htlc_clauses f =
     (case f of
        FilterSpark (Some s) _ \<Rightarrow>
          if s = [] then []
          else [\<lambda>j. case spark_htlc_text j of None \<Rightarrow> False | Some x \<Rightarrow> x \<in> htlc_status_to_string ` set s]
      | FilterLightning (Some s) \<Rightarrow>
          if s = [] then []
          else [\<lambda>j. case j_lightning j of None \<Rightarrow> False | Some l \<Rightarrow> lr_htlc_status l \<in> htlc_status_to_string ` set s]
      | _ \<Rightarrow> [])"

definition refund_clause :: "(PaymentJoin \<Rightarrow> bool) \<Rightarrow> bool \<Rightarrow> PaymentJoin \<Rightarrow> bool" where
  "refund_clause type_check needed j \<longleftrightarrow>
     type_check j \<and> (case meta mr_conversion_info j of None \<Rightarrow> False | Some info \<Rightarrow> (cv_status info = RefundNeeded) = needed)"

definition conversion_clauses :: "StoragePaymentDetailsFilter \<Rightarrow> (PaymentJoin \<Rightarrow> bool) list" where
  "conversion_clauses f =
     (case f of
        FilterSpark _ (Some v) \<Rightarrow> [refund_clause (\<lambda>j. pr_spark (j_payment j) = Some True) v]
      | FilterToken (Some v) _ _ \<Rightarrow> [refund_clause (\<lambda>j. pr_spark (j_payment j) = None) v]
      | _ \<Rightarrow> [])"

definition token_clauses :: "StoragePaymentDetailsFilter \<Rightarrow> (PaymentJoin \<Rightarrow> bool) list" where
  "token_clauses f =
     (case f of
        FilterToken _ h t \<Rightarrow>
          (case h of None \<Rightarrow> [] | Some tx_hash \<Rightarrow>
             [\<lambda>j. case j_token j of None \<Rightarrow> False | Some r \<Rightarrow> tkr_tx_hash r = tx_hash])
          @ (case t of None \<Rightarrow> [] | Some tx_type \<Rightarrow>
             [\<lambda>j. case j_token j of None \<Rightarrow> False | Some r \<Rightarrow> tkr_tx_type r = token_transaction_type_to_string tx_type])
      | _ \<Rightarrow> [])"

definition details_filter_clauses :: "StoragePaymentDetailsFilter \<Rightarrow> (PaymentJoin \<Rightarrow> bool) list" where
  "details_filter_clauses f = htlc_clauses f @ conversion_clauses f @ token_clauses f"

definition details_clauses :: "StoragePaymentDetailsFilter list option \<Rightarrow> (PaymentJoin \<Rightarrow> bool) list" where
  "details_clauses fs =
     (case fs of None \<Rightarrow> []
      | Some fs \<Rightarrow>
          (let all = filter (\<lambda>cs. cs \<noteq> []) (map details_filter_clauses fs)
           in if all = [] then [] else [\<lambda>j. list_ex (\<lambda>cs. list_all (\<lambda>c. c j) cs) all]))"

definition where_clauses :: "StorageListPaymentsRequest \<Rightarrow> (PaymentJoin \<Rightarrow> bool) list" where
  "where_clauses req =
     in_list_clause payment_type_to_string (lp_type_filter req) (\<lambda>j. pr_payment_type (j_payment j))
     @ in_list_clause payment_status_to_string (lp_status_filter req) (\<lambda>j. pr_status (j_payment j))
     @ (case lp_from_timestamp req of None \<Rightarrow> [] | Some t \<Rightarrow> [\<lambda>j. t \<le> pr_timestamp (j_payment j)])
     @ (case lp_to_timestamp req of None \<Rightarrow> [] | Some t \<Rightarrow> [\<lambda>j. pr_timestamp (j_payment j) < t])
     @ asset_clauses (lp_asset_filter req)
     @ details_clauses (lp_payment_details_filter req)
     @ [\<lambda>j. meta mr_parent_payment_id j = None]"

definition selected_payments :: "StorageListPaymentsRequest \<Rightarrow> PaymentDb \<Rightarrow> PaymentJoin list" where
  "selected_payments req db =
     (let rows = filter (\<lambda>j. list_all (\<lambda>c. c j) (where_clauses req)) (select_payments db);
          sorted = (if unwrap_or (lp_sort_ascending req) False then sort_key (\<lambda>j. int (pr_timestamp (j_payment j))) rows
                    else sort_key (\<lambda>j. - int (pr_timestamp (j_payment j))) rows)
      in take (unwrap_or (lp_limit req) (2 ^ 32 - 1)) (drop (unwrap_or (lp_offset req) 0) sorted))"

definition timestamp_params :: "StorageListPaymentsRequest \<Rightarrow> StorageError + unit" where
  "timestamp_params req =
     rbind (case lp_from_timestamp req of None \<Rightarrow> Ok () | Some t \<Rightarrow> rbind (to_i64 t) (\<lambda>_. Ok ())) (\<lambda>_.
       case lp_to_timestamp req of None \<Rightarrow> Ok () | Some t \<Rightarrow> rbind (to_i64 t) (\<lambda>_. Ok ()))"

definition sqlite_list_payments ::
  "StorageListPaymentsRequest \<Rightarrow> PaymentDb \<Rightarrow> PaymentDb \<times> (StorageError + Payment list)" where
  "sqlite_list_payments req =
     on_database (\<lambda>db. (db, rbind (timestamp_params req) (\<lambda>_. map_rows sqlite_map_payment (selected_payments req db))))"

definition postgres_list_payments ::
  "StorageListPaymentsRequest \<Rightarrow> PaymentDb \<Rightarrow> PaymentDb \<times> (StorageError + Payment list)" where
  "postgres_list_payments req =
     on_database (\<lambda>db. (db, rbind (timestamp_params req) (\<lambda>_. map_rows postgres_map_payment (selected_payments req db))))"

definition no_rows :: StorageError where
  "no_rows = StImplementation ''query returned no rows''"

definition sqlite_get_payment_by_id :: "string \<Rightarrow> PaymentDb \<Rightarrow> PaymentDb \<times> (StorageError + Payment)" where
  "sqlite_get_payment_by_id i =
     on_database (\<lambda>db. (db, case filter (\<lambda>j. j_id j = i) (select_payments db) of
        [] \<Rightarrow> Err no_rows | j # _ \<Rightarrow> sqlite_map_payment j))"

definition postgres_get_payment_by_id :: "string \<Rightarrow> PaymentDb \<Rightarrow> PaymentDb \<times> (StorageError + Payment)" where
  "postgres_get_payment_by_id i =
     on_database (\<lambda>db. (db, case filter (\<lambda>j. j_id j = i) (select_payments db) of
        [j] \<Rightarrow> postgres_map_payment j | _ \<Rightarrow> Err no_rows))"

definition has_invoice :: "string \<Rightarrow> PaymentJoin \<Rightarrow> bool" where
  "has_invoice invoice j = (case j_lightning j of None \<Rightarrow> False | Some l \<Rightarrow> lr_invoice l = invoice)"

definition sqlite_get_payment_by_invoice :: "string \<Rightarrow> PaymentDb \<Rightarrow> PaymentDb \<times> (StorageError + Payment option)" where
  "sqlite_get_payment_by_invoice invoice =
     on_database (\<lambda>db. (db, case filter (has_invoice invoice) (select_payments db) of
        [] \<Rightarrow> Ok None | j # _ \<Rightarrow> rbind (sqlite_map_payment j) (\<lambda>p. Ok (Some p))))"

text \<open>\<open>query_opt\<close> of the driver fails when there is more than one row.\<close>

definition postgres_get_payment_by_invoice :: "string \<Rightarrow> PaymentDb \<Rightarrow> PaymentDb \<times> (StorageError + Payment option)" where
  "postgres_get_payment_by_invoice invoice =
     on_database (\<lambda>db. (db, case filter (has_invoice invoice) (select_payments db) of
        [] \<Rightarrow> Ok None
      | [j] \<Rightarrow> rbind (postgres_map_payment j) (\<lambda>p. Ok (Some p))
      | _ \<Rightarrow> Err (StImplementation ''query returned an unexpected number of rows'')))"

definition children_of :: "string list \<Rightarrow> PaymentDb \<Rightarrow> PaymentJoin list" where
  "children_of ids db =
     sort_key (\<lambda>j. pr_timestamp (j_payment j))
       (filter (\<lambda>j. case meta mr_parent_payment_id j of None \<Rightarrow> False | Some i \<Rightarrow> i \<in> set ids) (select_payments db))"

definition group_children ::
  "(PaymentJoin \<Rightarrow> StorageError + Payment) \<Rightarrow> PaymentJoin list \<Rightarrow> StorageError + (string, Payment list) hmap" where
  "group_children map_payment js =
     rbind (map_rows map_payment js) (\<lambda>ps.
       Ok (foldl (\<lambda>m (j, p). case meta mr_parent_payment_id j of
             None \<Rightarrow> m
           | Some i \<Rightarrow> hm_insert i (unwrap_or (hm_get m i) [] @ [p]) m) [] (zip js ps)))"

definition has_related :: "PaymentDb \<Rightarrow> bool" where
  "has_related db = list_ex (\<lambda>m. mr_parent_payment_id m \<noteq> None) (hm_values (payment_metadata db))"

definition sqlite_get_payments_by_parent_ids ::
  "string list \<Rightarrow> PaymentDb \<Rightarrow> PaymentDb \<times> (StorageError + (string, Payment list) hmap)" where
  "sqlite_get_payments_by_parent_ids ids db0 =
     (if ids = [] then (db0, Ok [])
      else on_database (\<lambda>db. (db,
        if \<not> has_related db then Ok [] else group_children sqlite_map_payment (children_of ids db))) db0)"

text \<open>A failure of the first statement counts as the absence of related payments.\<close>

definition postgres_get_payments_by_parent_ids ::
  "string list \<Rightarrow> PaymentDb \<Rightarrow> PaymentDb \<times> (StorageError + (string, Payment list) hmap)" where
  "postgres_get_payments_by_parent_ids ids db0 =
     (if ids = [] then (db0, Ok [])
      else on_database (\<lambda>db.
        case pdb_connect db of (db1, answered) \<Rightarrow>
          if \<not> (answered \<and> has_related db1) then (db1, Ok [])
          else on_database (\<lambda>db2. (db2, group_children postgres_map_payment (children_of ids db2))) db1) db0)"

section \<open>Writing payments\<close>

definition payment_row :: "Payment \<Rightarrow> PaymentRow" where
  "payment_row p =
     (let (withdraw, deposit, spark) =
        (case p_details p of
           Some (WithdrawDetails tx_id) \<Rightarrow> (Some tx_id, None, None)
         | Some (DepositDetails tx_id) \<Rightarrow> (None, Some tx_id, None)
         | Some (SparkDetails _ _ _) \<Rightarrow> (None, None, Some True)
         | _ \<Rightarrow> (None, None, None))
      in \<lparr>pr_payment_type = payment_type_to_string (p_payment_type p), pr_status = payment_status_to_string (p_status p),
          pr_amount = decimal (p_amount p), pr_fees = decimal (p_fees p), pr_timestamp = p_timestamp p,
          pr_method = Some (payment_method_to_string (p_method p)), pr_withdraw_tx_id = withdraw, pr_deposit_tx_id = deposit,
          pr_spark = spark\<rparr>)"

text \<open>Upserts that keep what is stored where the new value is missing.\<close>

definition upsert_row :: "('r \<Rightarrow> 'r \<Rightarrow> 'r) \<Rightarrow> 'k \<Rightarrow> 'r \<Rightarrow> ('k, 'r) hmap \<Rightarrow> ('k, 'r) hmap" where
  "upsert_row merge k r m = hm_insert k (case hm_get m k of None \<Rightarrow> r | Some old \<Rightarrow> merge r old) m"

definition merge_spark_row :: "SparkRow \<Rightarrow> SparkRow \<Rightarrow> SparkRow" where
  "merge_spark_row new old =
     \<lparr>spr_invoice_details = coalesce (spr_invoice_details new) (spr_invoice_details old),
      spr_htlc_details = coalesce (spr_htlc_details new) (spr_htlc_details old)\<rparr>"

definition merge_token_row :: "TokenRow \<Rightarrow> TokenRow \<Rightarrow> TokenRow" where
  "merge_token_row new old = new\<lparr>tkr_invoice_details := coalesce (tkr_invoice_details new) (tkr_invoice_details old)\<rparr>"

definition merge_lightning_row :: "LightningRow \<Rightarrow> LightningRow \<Rightarrow> LightningRow" where
  "merge_lightning_row new old = new\<lparr>lr_preimage := coalesce (lr_preimage new) (lr_preimage old)\<rparr>"

definition lightning_row :: "string option \<Rightarrow> string \<Rightarrow> string \<Rightarrow> SparkHtlcDetails \<Rightarrow> LightningRow" where
  "lightning_row description invoice pubkey htlc =
     \<lparr>lr_invoice = invoice, lr_payment_hash = htlc_payment_hash htlc, lr_destination_pubkey = pubkey,
      lr_description = description, lr_preimage = htlc_preimage htlc, lr_htlc_status = htlc_status_to_string (htlc_status htlc),
      lr_htlc_expiry_time = htlc_expiry_time htlc\<rparr>"

definition insert_details :: "string \<Rightarrow> PaymentDetails option \<Rightarrow> PaymentDb \<Rightarrow> StorageError + PaymentDb" where
  "insert_details i details db =
     (case details of
        Some (SparkDetails invd htlc _) \<Rightarrow>
          Ok (if invd \<noteq> None \<or> htlc \<noteq> None
              then db\<lparr>payment_details_spark :=
                 upsert_row merge_spark_row i \<lparr>spr_invoice_details = invd, spr_htlc_details = htlc\<rparr> (payment_details_spark db)\<rparr>
              else db)
      | Some (TokenDetails md tx_hash tx_type invd _) \<Rightarrow>
          Ok (db\<lparr>payment_details_token :=
            upsert_row merge_token_row i \<lparr>tkr_metadata = md, tkr_tx_hash = tx_hash,
              tkr_tx_type = token_transaction_type_to_string tx_type, tkr_invoice_details = invd\<rparr> (payment_details_token db)\<rparr>)
      | Some (LightningDetails description invoice pubkey htlc _ _ _) \<Rightarrow>
          rbind (to_i64 (htlc_expiry_time htlc)) (\<lambda>_.
            Ok (db\<lparr>payment_details_lightning :=
              upsert_row merge_lightning_row i (lightning_row description invoice pubkey htlc) (payment_details_lightning db)\<rparr>))
      | _ \<Rightarrow> Ok db)"

text \<open>One transaction in either database.\<close>

definition transacted :: "(PaymentDb \<Rightarrow> StorageError + PaymentDb) \<Rightarrow> PaymentDb \<Rightarrow> PaymentDb \<times> (StorageError + unit)" where
  "transacted f = on_database (\<lambda>db. case f db of Err e \<Rightarrow> (db, Err e) | Ok db' \<Rightarrow> (db', Ok ()))"

definition sqlite_insert_payment :: "Payment \<Rightarrow> PaymentDb \<Rightarrow> PaymentDb \<times> (StorageError + unit)" where
  "sqlite_insert_payment p =
     transacted (\<lambda>db.
       rbind (to_i64 (p_timestamp p)) (\<lambda>_.
         insert_details (p_id p) (p_details p) (db\<lparr>payments := hm_insert (p_id p) (payment_row p) (payments db)\<rparr>)))"

definition postgres_insert_payment :: "Payment \<Rightarrow> PaymentDb \<Rightarrow> PaymentDb \<times> (StorageError + unit)" where
  "postgres_insert_payment p =
     transacted (\<lambda>db.
       rbind (to_i64 (p_timestamp p)) (\<lambda>_.
         insert_details (p_id p) (p_details p) (db\<lparr>payments := hm_insert (p_id p) (payment_row p) (payments db)\<rparr>)))"

definition metadata_row :: "PaymentMetadata \<Rightarrow> MetadataRow" where
  "metadata_row m =
     \<lparr>mr_parent_payment_id = pm_parent_payment_id m, mr_lnurl_pay_info = pm_lnurl_pay_info m,
      mr_lnurl_withdraw_info = pm_lnurl_withdraw_info m, mr_lnurl_description = pm_lnurl_description m,
      mr_conversion_info = pm_conversion_info m,
      mr_conversion_status = map_option conversion_status_to_string (pm_conversion_status m)\<rparr>"

definition merge_metadata_row :: "MetadataRow \<Rightarrow> MetadataRow \<Rightarrow> MetadataRow" where
  "merge_metadata_row new old =
     \<lparr>mr_parent_payment_id = coalesce (mr_parent_payment_id new) (mr_parent_payment_id old),
      mr_lnurl_pay_info = coalesce (mr_lnurl_pay_info new) (mr_lnurl_pay_info old),
      mr_lnurl_withdraw_info = coalesce (mr_lnurl_withdraw_info new) (mr_lnurl_withdraw_info old),
      mr_lnurl_description = coalesce (mr_lnurl_description new) (mr_lnurl_description old),
      mr_conversion_info = coalesce (mr_conversion_info new) (mr_conversion_info old),
      mr_conversion_status = coalesce (mr_conversion_status new) (mr_conversion_status old)\<rparr>"

definition sqlite_insert_payment_metadata :: "string \<Rightarrow> PaymentMetadata \<Rightarrow> PaymentDb \<Rightarrow> PaymentDb \<times> (StorageError + unit)" where
  "sqlite_insert_payment_metadata i m =
     on_database (\<lambda>db. (db\<lparr>payment_metadata := upsert_row merge_metadata_row i (metadata_row m) (payment_metadata db)\<rparr>, Ok ()))"

definition postgres_insert_payment_metadata :: "string \<Rightarrow> PaymentMetadata \<Rightarrow> PaymentDb \<Rightarrow> PaymentDb \<times> (StorageError + unit)" where
  "postgres_insert_payment_metadata i m =
     on_database (\<lambda>db. (db\<lparr>payment_metadata := upsert_row merge_metadata_row i (metadata_row m) (payment_metadata db)\<rparr>, Ok ()))"

section \<open>Settings, deposits, LNURL metadata and contacts\<close>

definition set_cached_item :: "string \<Rightarrow> string \<Rightarrow> PaymentDb \<Rightarrow> PaymentDb \<times> (StorageError + unit)" where
  "set_cached_item k v = on_database (\<lambda>db. (db\<lparr>settings := hm_insert k v (settings db)\<rparr>, Ok ()))"

definition get_cached_item :: "string \<Rightarrow> PaymentDb \<Rightarrow> PaymentDb \<times> (StorageError + string option)" where
  "get_cached_item k = on_database (\<lambda>db. (db, Ok (hm_get (settings db) k)))"

definition delete_cached_item :: "string \<Rightarrow> PaymentDb \<Rightarrow> PaymentDb \<times> (StorageError + unit)" where
  "delete_cached_item k = on_database (\<lambda>db. (db\<lparr>settings := hm_remove k (settings db)\<rparr>, Ok ()))"

definition upsert_deposit :: "string \<times> u32 \<Rightarrow> u64 \<Rightarrow> bool \<Rightarrow> PaymentDb \<Rightarrow> PaymentDb" where
  "upsert_deposit k amount mature db =
     db\<lparr>unclaimed_deposits := upsert_row (\<lambda>new old. old\<lparr>dr_is_mature := dr_is_mature new, dr_amount_sats := dr_amount_sats new\<rparr>) k
          \<lparr>dr_amount_sats = amount, dr_is_mature = mature, dr_claim_error = None, dr_refund_tx = None, dr_refund_tx_id = None\<rparr>
          (unclaimed_deposits db)\<rparr>"

definition sqlite_add_deposit :: "string \<Rightarrow> u32 \<Rightarrow> u64 \<Rightarrow> bool \<Rightarrow> PaymentDb \<Rightarrow> PaymentDb \<times> (StorageError + unit)" where
  "sqlite_add_deposit txid vout amount mature =
     transacted (\<lambda>db. rbind (to_i64 amount) (\<lambda>_. Ok (upsert_deposit (txid, vout) amount mature db)))"

definition postgres_add_deposit :: "string \<Rightarrow> u32 \<Rightarrow> u64 \<Rightarrow> bool \<Rightarrow> PaymentDb \<Rightarrow> PaymentDb \<times> (StorageError + unit)" where
  "postgres_add_deposit txid vout amount mature =
     transacted (\<lambda>db.
       rbind (to_i32 vout) (\<lambda>_. rbind (to_i64 amount) (\<lambda>_. Ok (upsert_deposit (txid, vout) amount mature db))))"

definition sqlite_delete_deposit :: "string \<Rightarrow> u32 \<Rightarrow> PaymentDb \<Rightarrow> PaymentDb \<times> (StorageError + unit)" where
  "sqlite_delete_deposit txid vout =
     on_database (\<lambda>db. (db\<lparr>unclaimed_deposits := hm_remove (txid, vout) (unclaimed_deposits db)\<rparr>, Ok ()))"

definition postgres_delete_deposit :: "string \<Rightarrow> u32 \<Rightarrow> PaymentDb \<Rightarrow> PaymentDb \<times> (StorageError + unit)" where
  "postgres_delete_deposit txid vout =
     transacted (\<lambda>db.
       rbind (to_i32 vout) (\<lambda>_. Ok (db\<lparr>unclaimed_deposits := hm_remove (txid, vout) (unclaimed_deposits db)\<rparr>)))"

definition deposit_info :: "(string \<times> u32) \<times> DepositRow \<Rightarrow> DepositInfo" where
  "deposit_info x =
     (case x of ((txid, vout), r) \<Rightarrow>
       \<lparr>di_txid = txid, di_vout = vout, di_amount_sats = dr_amount_sats r, di_is_mature = dr_is_mature r,
        di_refund_tx = dr_refund_tx r, di_refund_tx_id = dr_refund_tx_id r, di_claim_error = dr_claim_error r\<rparr>)"

definition list_deposits :: "PaymentDb \<Rightarrow> PaymentDb \<times> (StorageError + DepositInfo list)" where
  "list_deposits = on_database (\<lambda>db. (db, Ok (map deposit_info (unclaimed_deposits db))))"

definition deposit_update :: "UpdateDepositPayload \<Rightarrow> DepositRow \<Rightarrow> DepositRow" where
  "deposit_update payload r =
     (case payload of
        ClaimError e \<Rightarrow> r\<lparr>dr_claim_error := Some e, dr_refund_tx := None, dr_refund_tx_id := None\<rparr>
      | Refund txid tx \<Rightarrow>
          r\<lparr>dr_refund_tx := Some tx, dr_refund_tx_id := Some txid, dr_claim_error := None\<rparr>)"

definition update_deposit_row :: "string \<times> u32 \<Rightarrow> UpdateDepositPayload \<Rightarrow> PaymentDb \<Rightarrow> PaymentDb" where
  "update_deposit_row k payload db =
     db\<lparr>unclaimed_deposits := update_rows (\<lambda>k' r. if k' = k then deposit_update payload r else r) (unclaimed_deposits db)\<rparr>"

definition sqlite_update_deposit ::
  "string \<Rightarrow> u32 \<Rightarrow> UpdateDepositPayload \<Rightarrow> PaymentDb \<Rightarrow> PaymentDb \<times> (StorageError + unit)" where
  "sqlite_update_deposit txid vout payload = on_database (\<lambda>db. (update_deposit_row (txid, vout) payload db, Ok ()))"

definition postgres_update_deposit ::
  "string \<Rightarrow> u32 \<Rightarrow> UpdateDepositPayload \<Rightarrow> PaymentDb \<Rightarrow> PaymentDb \<times> (StorageError + unit)" where
  "postgres_update_deposit txid vout payload =
     transacted (\<lambda>db. rbind (to_i32 vout) (\<lambda>_. Ok (update_deposit_row (txid, vout) payload db)))"

text \<open>One statement per item, each of which can fail; those before it stay.\<close>

fun set_lnurl_rows :: "SetLnurlMetadataItem list \<Rightarrow> PaymentDb \<Rightarrow> PaymentDb \<times> (StorageError + unit)" where
  "set_lnurl_rows [] db = (db, Ok ())"
| "set_lnurl_rows (m # ms) db =
     (case pdb_connect db of (db', ok) \<Rightarrow>
        if ok then set_lnurl_rows ms (db'\<lparr>lnurl_receive_metadata :=
            hm_insert (sl_payment_hash m) \<lparr>lrm_nostr_zap_request = sl_nostr_zap_request m,
              lrm_nostr_zap_receipt = sl_nostr_zap_receipt m, lrm_sender_comment = sl_sender_comment m\<rparr> (lnurl_receive_metadata db')\<rparr>)
        else (db', Err connection_error))"

definition set_lnurl_metadata :: "SetLnurlMetadataItem list \<Rightarrow> PaymentDb \<Rightarrow> PaymentDb \<times> (StorageError + unit)" where
  "set_lnurl_metadata ms = on_database (set_lnurl_rows ms)"

text \<open>SQLite compares names byte by byte; PostgreSQL by the collation of the database, given by its sort keys.\<close>

definition byte_order :: "string \<Rightarrow> nat list" where
  "byte_order = map of_char"

definition list_contacts_by :: "(string \<Rightarrow> nat list) \<Rightarrow> ListContactsRequest \<Rightarrow> PaymentDb \<Rightarrow> PaymentDb \<times> (StorageError + Contact list)" where
  "list_contacts_by collation req =
     on_database (\<lambda>db. (db, Ok (take (unwrap_or (lc_limit req) (2 ^ 32 - 1)) (drop (unwrap_or (lc_offset req) 0)
       (sort_key (\<lambda>c. collation (ct_name c)) (hm_values (contacts db)))))))"

definition sqlite_list_contacts :: "ListContactsRequest \<Rightarrow> PaymentDb \<Rightarrow> PaymentDb \<times> (StorageError + Contact list)" where
  "sqlite_list_contacts = list_contacts_by byte_order"

definition get_contact :: "string \<Rightarrow> PaymentDb \<Rightarrow> PaymentDb \<times> (StorageError + Contact)" where
  "get_contact i = on_database (\<lambda>db. (db, ok_or (hm_get (contacts db) i) StNotFound))"

definition insert_contact :: "Contact \<Rightarrow> PaymentDb \<Rightarrow> PaymentDb \<times> (StorageError + unit)" where
  "insert_contact c =
     transacted (\<lambda>db.
       rbind (to_i64 (ct_created_at c)) (\<lambda>_. rbind (to_i64 (ct_updated_at c)) (\<lambda>_.
         Ok (db\<lparr>contacts := upsert_row (\<lambda>new old. old\<lparr>ct_name := ct_name new, ct_payment_identifier := ct_payment_identifier new,
                ct_updated_at := ct_updated_at new\<rparr>) (ct_id c) c (contacts db)\<rparr>))))"

definition delete_contact :: "string \<Rightarrow> PaymentDb \<Rightarrow> PaymentDb \<times> (StorageError + unit)" where
  "delete_contact i = on_database (\<lambda>db. (db\<lparr>contacts := hm_remove i (contacts db)\<rparr>, Ok ()))"

section \<open>The trait\<close>

record 's Storage =
  s_delete_cached_item :: "string \<Rightarrow> 's \<Rightarrow> 's \<times> (StorageError + unit)"
  s_get_cached_item :: "string \<Rightarrow> 's \<Rightarrow> 's \<times> (StorageError + string option)"
  s_set_cached_item :: "string \<Rightarrow> string \<Rightarrow> 's \<Rightarrow> 's \<times> (StorageError + unit)"
  s_list_payments :: "StorageListPaymentsRequest \<Rightarrow> 's \<Rightarrow> 's \<times> (StorageError + Payment list)"
  s_insert_payment :: "Payment \<Rightarrow> 's \<Rightarrow> 's \<times> (StorageError + unit)"
  s_insert_payment_metadata :: "string \<Rightarrow> PaymentMetadata \<Rightarrow> 's \<Rightarrow> 's \<times> (StorageError + unit)"
  s_get_payment_by_id :: "string \<Rightarrow> 's \<Rightarrow> 's \<times> (StorageError + Payment)"
  s_get_payment_by_invoice :: "string \<Rightarrow> 's \<Rightarrow> 's \<times> (StorageError + Payment option)"
  s_get_payments_by_parent_ids :: "string list \<Rightarrow> 's \<Rightarrow> 's \<times> (StorageError + (string, Payment list) hmap)"
  s_add_deposit :: "string \<Rightarrow> u32 \<Rightarrow> u64 \<Rightarrow> bool \<Rightarrow> 's \<Rightarrow> 's \<times> (StorageError + unit)"
  s_delete_deposit :: "string \<Rightarrow> u32 \<Rightarrow> 's \<Rightarrow> 's \<times> (StorageError + unit)"
  s_list_deposits :: "'s \<Rightarrow> 's \<times> (StorageError + DepositInfo list)"
  s_update_deposit :: "string \<Rightarrow> u32 \<Rightarrow> UpdateDepositPayload \<Rightarrow> 's \<Rightarrow> 's \<times> (StorageError + unit)"
  s_set_lnurl_metadata :: "SetLnurlMetadataItem list \<Rightarrow> 's \<Rightarrow> 's \<times> (StorageError + unit)"
  s_list_contacts :: "ListContactsRequest \<Rightarrow> 's \<Rightarrow> 's \<times> (StorageError + Contact list)"
  s_get_contact :: "string \<Rightarrow> 's \<Rightarrow> 's \<times> (StorageError + Contact)"
  s_insert_contact :: "Contact \<Rightarrow> 's \<Rightarrow> 's \<times> (StorageError + unit)"
  s_delete_contact :: "string \<Rightarrow> 's \<Rightarrow> 's \<times> (StorageError + unit)"

definition SqliteStorage :: "PaymentDb Storage" where
  "SqliteStorage =
     \<lparr>s_delete_cached_item = delete_cached_item, s_get_cached_item = get_cached_item, s_set_cached_item = set_cached_item,
      s_list_payments = sqlite_list_payments, s_insert_payment = sqlite_insert_payment,
      s_insert_payment_metadata = sqlite_insert_payment_metadata, s_get_payment_by_id = sqlite_get_payment_by_id,
      s_get_payment_by_invoice = sqlite_get_payment_by_invoice, s_get_payments_by_parent_ids = sqlite_get_payments_by_parent_ids,
      s_add_deposit = sqlite_add_deposit, s_delete_deposit = sqlite_delete_deposit, s_list_deposits = list_deposits,
      s_update_deposit = sqlite_update_deposit, s_set_lnurl_metadata = set_lnurl_metadata, s_list_contacts = sqlite_list_contacts,
      s_get_contact = get_contact, s_insert_contact = insert_contact, s_delete_contact = delete_contact\<rparr>"

definition PostgresStorage :: "(string \<Rightarrow> nat list) \<Rightarrow> PaymentDb Storage" where
  "PostgresStorage collation =
     \<lparr>s_delete_cached_item = delete_cached_item, s_get_cached_item = get_cached_item, s_set_cached_item = set_cached_item,
      s_list_payments = postgres_list_payments, s_insert_payment = postgres_insert_payment,
      s_insert_payment_metadata = postgres_insert_payment_metadata, s_get_payment_by_id = postgres_get_payment_by_id,
      s_get_payment_by_invoice = postgres_get_payment_by_invoice,
      s_get_payments_by_parent_ids = postgres_get_payments_by_parent_ids, s_add_deposit = postgres_add_deposit,
      s_delete_deposit = postgres_delete_deposit, s_list_deposits = list_deposits, s_update_deposit = postgres_update_deposit,
      s_set_lnurl_metadata = set_lnurl_metadata, s_list_contacts = list_contacts_by collation, s_get_contact = get_contact,
      s_insert_contact = insert_contact, s_delete_contact = delete_contact\<rparr>"

lemmas storage_simps = SqliteStorage_def PostgresStorage_def

text \<open>One call that changes the tables. An amount is 128 bits wide by its type.\<close>

inductive storage_write :: "'s Storage \<Rightarrow> 's \<Rightarrow> 's \<Rightarrow> bool" for S :: "'s Storage" where
  "s_set_cached_item S k v s = (s', x) \<Longrightarrow> storage_write S s s'"
| "s_delete_cached_item S k s = (s', x) \<Longrightarrow> storage_write S s s'"
| "p_amount p < 2 ^ 128 \<Longrightarrow> p_fees p < 2 ^ 128 \<Longrightarrow> s_insert_payment S p s = (s', x) \<Longrightarrow> storage_write S s s'"
| "s_insert_payment_metadata S i m s = (s', x) \<Longrightarrow> storage_write S s s'"
| "s_add_deposit S txid vout amount mature s = (s', x) \<Longrightarrow> storage_write S s s'"
| "s_delete_deposit S txid vout s = (s', x) \<Longrightarrow> storage_write S s s'"
| "s_update_deposit S txid vout payload s = (s', x) \<Longrightarrow> storage_write S s s'"
| "s_set_lnurl_metadata S ms s = (s', x) \<Longrightarrow> storage_write S s s'"
| "s_insert_contact S c s = (s', x) \<Longrightarrow> storage_write S s s'"
| "s_delete_contact S i s = (s', x) \<Longrightarrow> storage_write S s s'"

section \<open>What the tables hold\<close>

definition rows_ok :: "('v \<Rightarrow> bool) \<Rightarrow> ('k, 'v) hmap \<Rightarrow> bool" where
  "rows_ok P m \<longleftrightarrow> (\<forall>v\<in>snd ` set m. P v)"

lemma rows_ok_Nil [simp]: "rows_ok P []"
  by (simp add: rows_ok_def)

lemma rows_ok_get: "rows_ok P m \<Longrightarrow> hm_get m k = Some v \<Longrightarrow> P v"
  by (force simp: rows_ok_def hm_get_def dest: map_of_SomeD)

lemma rows_ok_insert: "rows_ok P m \<Longrightarrow> P v \<Longrightarrow> rows_ok P (hm_insert k v m)"
  unfolding rows_ok_def hm_insert_def by (induction m) (auto split: if_splits)

lemma rows_ok_upsert:
  "rows_ok P m \<Longrightarrow> P r \<Longrightarrow> (\<And>old. P old \<Longrightarrow> P (merge r old)) \<Longrightarrow> rows_ok P (upsert_row merge k r m)"
  by (auto simp: upsert_row_def intro!: rows_ok_insert dest: rows_ok_get split: option.split)

lemma hm_ok_upsert [simp]: "hm_ok m \<Longrightarrow> hm_ok (upsert_row merge k r m)"
  by (simp add: upsert_row_def)

lemma hm_get_upsert:
  "hm_get (upsert_row merge k r m) k' =
     (if k' = k then Some (case hm_get m k of None \<Rightarrow> r | Some old \<Rightarrow> merge r old) else hm_get m k')"
  by (simp add: upsert_row_def)

text \<open>Every text can be read back and every integer was in range.\<close>

definition payment_row_ok :: "PaymentRow \<Rightarrow> bool" where
  "payment_row_ok r \<longleftrightarrow>
     pr_payment_type r \<in> range payment_type_to_string \<and> pr_status r \<in> range payment_status_to_string
     \<and> pr_amount r \<in> decimal ` {..<2 ^ 128} \<and> pr_fees r \<in> decimal ` {..<2 ^ 128}
     \<and> pr_method r \<in> range (Some \<circ> payment_method_to_string) \<and> pr_timestamp r < 2 ^ 63"

definition lightning_row_ok :: "LightningRow \<Rightarrow> bool" where
  "lightning_row_ok r \<longleftrightarrow> lr_htlc_status r \<in> range htlc_status_to_string \<and> lr_htlc_expiry_time r < 2 ^ 63"

definition token_details_row_ok :: "TokenRow \<Rightarrow> bool" where
  "token_details_row_ok r \<longleftrightarrow> tkr_tx_type r \<in> range token_transaction_type_to_string"

definition metadata_row_ok :: "MetadataRow \<Rightarrow> bool" where
  "metadata_row_ok r \<longleftrightarrow> mr_conversion_status r \<in> range (map_option conversion_status_to_string)"

definition payment_db_ok :: "PaymentDb \<Rightarrow> bool" where
  "payment_db_ok db \<longleftrightarrow>
     hm_ok (payments db) \<and> rows_ok payment_row_ok (payments db) \<and> rows_ok lightning_row_ok (payment_details_lightning db)
     \<and> rows_ok token_details_row_ok (payment_details_token db) \<and> rows_ok metadata_row_ok (payment_metadata db)"

lemma payment_row_row_ok [simp]:
  "p_amount p < 2 ^ 128 \<Longrightarrow> p_fees p < 2 ^ 128 \<Longrightarrow> p_timestamp p < 2 ^ 63 \<Longrightarrow> payment_row_ok (payment_row p)"
  by (auto simp: payment_row_ok_def payment_row_def split: prod.split)

lemma coalesce_simps [simp]: "coalesce None y = y" "coalesce (Some a) y = Some a" "coalesce x None = x"
  by (simp_all add: coalesce_def split: option.split)

lemma to_i64_Ok [simp]: "to_i64 n = Ok m \<longleftrightarrow> m = n \<and> n < 2 ^ 63"
  by (auto simp: to_i64_def)

lemma on_database_cases:
  assumes "on_database f db = (db', r)"
  obtains (lost) cs where "db' = db\<lparr>pdb_connections := cs\<rparr>" and "r = Err connection_error"
  | (reached) cs where "f (db\<lparr>pdb_connections := cs\<rparr>) = (db', r)"
proof (cases "pdb_connections db")
  case Nil
  then have "f db = (db', r)" using assms by (simp add: on_database_def pdb_connect_def)
  moreover have "db = db\<lparr>pdb_connections := pdb_connections db\<rparr>" by (cases db) simp
  ultimately show ?thesis by (intro reached [of "pdb_connections db"]) argo
next
  case (Cons c cs)
  with assms show ?thesis
    by (cases c) (auto simp: on_database_def pdb_connect_def intro: lost reached)
qed

lemma transacted_cases:
  assumes "transacted f db = (db', r)"
  obtains (unchanged) cs e where "db' = db\<lparr>pdb_connections := cs\<rparr>" and "r = Err e"
  | (committed) cs where "f (db\<lparr>pdb_connections := cs\<rparr>) = Ok db'" and "r = Ok ()"
  using assms unfolding transacted_def
  by (cases rule: on_database_cases) (auto split: sum.splits)

lemma payment_db_ok_connections [simp]: "payment_db_ok (db\<lparr>pdb_connections := cs\<rparr>) = payment_db_ok db"
  by (simp add: payment_db_ok_def)

lemma payment_db_ok_other [simp]:
  "payment_db_ok (db\<lparr>settings := a\<rparr>) = payment_db_ok db" "payment_db_ok (db\<lparr>unclaimed_deposits := b\<rparr>) = payment_db_ok db"
  "payment_db_ok (db\<lparr>lnurl_receive_metadata := c\<rparr>) = payment_db_ok db" "payment_db_ok (db\<lparr>contacts := d\<rparr>) = payment_db_ok db"
  by (simp_all add: payment_db_ok_def)

lemma metadata_row_ok_row [simp]: "metadata_row_ok (metadata_row m)"
  by (simp add: metadata_row_ok_def metadata_row_def)

lemma metadata_row_ok_merge: "metadata_row_ok new \<Longrightarrow> metadata_row_ok old \<Longrightarrow> metadata_row_ok (merge_metadata_row new old)"
  by (auto simp: metadata_row_ok_def merge_metadata_row_def coalesce_def split: option.splits)

lemma insert_details_ok:
  assumes "payment_db_ok db" and "insert_details i details db = Ok db'"
  shows "payment_db_ok db'"
proof (cases details)
  case None
  with assms show ?thesis by (simp add: insert_details_def)
next
  case (Some d)
  show ?thesis
  proof (cases d)
    case (SparkDetails a b c)
    with assms Some show ?thesis by (auto simp: insert_details_def payment_db_ok_def)
  next
    case (TokenDetails a b c d e)
    with assms Some show ?thesis
      by (auto simp: insert_details_def payment_db_ok_def token_details_row_ok_def merge_token_row_def intro!: rows_ok_upsert)
  next
    case (LightningDetails a b c htlc e f g)
    with assms Some show ?thesis
      by (auto simp: insert_details_def payment_db_ok_def lightning_row_ok_def merge_lightning_row_def lightning_row_def
          intro!: rows_ok_upsert)
  qed (use assms Some in \<open>simp_all add: insert_details_def\<close>)
qed

lemma insert_payment_ok:
  assumes "payment_db_ok db" and "p_amount p < 2 ^ 128" and "p_fees p < 2 ^ 128" and "p_timestamp p < 2 ^ 63"
  shows "payment_db_ok (db\<lparr>payments := hm_insert (p_id p) (payment_row p) (payments db)\<rparr>)"
  using assms payment_row_row_ok [OF assms(2-4)] by (simp add: payment_db_ok_def rows_ok_insert)

lemma set_lnurl_rows_ok: "set_lnurl_rows ms db = (db', x) \<Longrightarrow> payment_db_ok db \<Longrightarrow> payment_db_ok db'"
proof (induction ms db rule: set_lnurl_rows.induct)
  case (2 m ms db)
  then show ?case by (auto simp: pdb_connect_def split: list.splits if_splits)
qed simp

lemma insert_payment_kept:
  assumes "payment_db_ok db" and "p_amount p < 2 ^ 128" and "p_fees p < 2 ^ 128"
    and "transacted (\<lambda>db. rbind (to_i64 (p_timestamp p)) (\<lambda>_.
         insert_details (p_id p) (p_details p) (db\<lparr>payments := hm_insert (p_id p) (payment_row p) (payments db)\<rparr>))) db = (db', x)"
  shows "payment_db_ok db'"
  using assms(4)
proof (cases rule: transacted_cases)
  case (unchanged cs e)
  with assms(1) show ?thesis by simp
next
  case (committed cs)
  then have "p_timestamp p < 2 ^ 63"
    and i: "insert_details (p_id p) (p_details p)
          (db\<lparr>pdb_connections := cs, payments := hm_insert (p_id p) (payment_row p) (payments db)\<rparr>) = Ok db'" by auto
  then show ?thesis
    using insert_payment_ok [of "db\<lparr>pdb_connections := cs\<rparr>" p] assms(1-3) insert_details_ok [OF _ i] by simp
qed

lemma transaction_kept: "transacted f db = (db', x) \<Longrightarrow> payment_db_ok db \<Longrightarrow>
   (\<And>d d'. f d = Ok d' \<Longrightarrow> payment_db_ok d \<Longrightarrow> payment_db_ok d') \<Longrightarrow> payment_db_ok db'"
  by (erule transacted_cases) auto

lemma database_kept: "on_database f db = (db', x) \<Longrightarrow> payment_db_ok db \<Longrightarrow>
   (\<And>d d' r. f d = (d', r) \<Longrightarrow> payment_db_ok d \<Longrightarrow> payment_db_ok d') \<Longrightarrow> payment_db_ok db'"
  by (erule on_database_cases) (simp, metis payment_db_ok_connections)

lemma payment_db_write_ok:
  assumes "storage_write S db db'" and "S = SqliteStorage \<or> S = PostgresStorage collation" and "payment_db_ok db"
  shows "payment_db_ok db'"
  using assms(1)
proof cases
  case (1 k v x)
  with assms(2,3) show ?thesis by (auto simp: storage_simps set_cached_item_def elim!: database_kept)
next
  case (2 k x)
  with assms(2,3) show ?thesis by (auto simp: storage_simps delete_cached_item_def elim!: database_kept)
next
  case (3 p x)
  with assms(2,3) show ?thesis
    by (auto simp: storage_simps sqlite_insert_payment_def postgres_insert_payment_def elim!: insert_payment_kept)
next
  case (4 i m x)
  have "payment_db_ok (d\<lparr>payment_metadata := upsert_row merge_metadata_row i (metadata_row m) (payment_metadata d)\<rparr>)"
    if "payment_db_ok d" for d
    using that by (auto simp: payment_db_ok_def intro!: rows_ok_upsert metadata_row_ok_merge)
  with 4 assms(2,3) show ?thesis
    by (auto simp: storage_simps sqlite_insert_payment_metadata_def postgres_insert_payment_metadata_def elim!: database_kept)
next
  case (5 txid vout amount mature x)
  with assms(2,3) show ?thesis
    by (auto simp: storage_simps sqlite_add_deposit_def postgres_add_deposit_def upsert_deposit_def elim!: transaction_kept)
next
  case (6 txid vout x)
  with assms(2,3) show ?thesis
    by (auto simp: storage_simps sqlite_delete_deposit_def postgres_delete_deposit_def elim!: transaction_kept database_kept)
next
  case (7 txid vout payload x)
  with assms(2,3) show ?thesis
    by (auto simp: storage_simps sqlite_update_deposit_def postgres_update_deposit_def update_deposit_row_def
        elim!: transaction_kept database_kept)
next
  case (8 ms x)
  with assms(2,3) show ?thesis
    by (auto simp: storage_simps set_lnurl_metadata_def elim!: database_kept intro: set_lnurl_rows_ok)
next
  case (9 c x)
  with assms(2,3) show ?thesis by (auto simp: storage_simps insert_contact_def elim!: transaction_kept)
next
  case (10 i x)
  with assms(2,3) show ?thesis by (auto simp: storage_simps delete_contact_def elim!: database_kept)
qed

interpretation sqlite_payments: invariant_system "\<lambda>db. db = empty_payment_db cs" "storage_write SqliteStorage" payment_db_ok for cs
  by unfold_locales
    (simp add: payment_db_ok_def empty_payment_db_def hm_ok_def, rule payment_db_write_ok [where collation = byte_order], auto)

interpretation postgres_payments: invariant_system "\<lambda>db. db = empty_payment_db cs" "storage_write (PostgresStorage collation)"
  payment_db_ok for cs collation
  by unfold_locales
    (simp add: payment_db_ok_def empty_payment_db_def hm_ok_def, rule payment_db_write_ok [where collation = collation], auto)

section \<open>Both databases read the same payments\<close>

lemma method_round_trip [simp]:
  "sqlite_method (Some (payment_method_to_string m)) = Ok m" "postgres_method (Some (payment_method_to_string m)) = m"
proof -
  have "to_lowercase (trim_quotes (payment_method_to_string m)) = payment_method_to_string m"
    by (cases m) (simp_all add: to_lowercase_def to_lower_def trim_quotes_def of_char_Char Let_def)
  then show "sqlite_method (Some (payment_method_to_string m)) = Ok m" "postgres_method (Some (payment_method_to_string m)) = m"
    by (simp_all add: sqlite_method_def postgres_method_def map_err_def)
qed

lemma map_err_Ok [simp]: "map_err g (Ok x) = Ok x"
  by (simp add: map_err_def)

definition join_ok :: "PaymentJoin \<Rightarrow> bool" where
  "join_ok j \<longleftrightarrow> payment_row_ok (j_payment j) \<and> (\<forall>l. j_lightning j = Some l \<longrightarrow> lightning_row_ok l)
     \<and> (\<forall>t. j_token j = Some t \<longrightarrow> token_details_row_ok t) \<and> (\<forall>m. j_metadata j = Some m \<longrightarrow> metadata_row_ok m)"

lemma select_payments_ok: "payment_db_ok db \<Longrightarrow> j \<in> set (select_payments db) \<Longrightarrow> join_ok j"
  by (auto simp: select_payments_def join_payment_def join_ok_def payment_db_ok_def Let_def rows_ok_def [of payment_row_ok]
      dest: rows_ok_get)

lemma map_details_agree:
  assumes "join_ok j"
  obtains d where "map_details (\<lambda>s. map_err e1 (htlc_status_from_str s)) (\<lambda>s. map_err e2 (token_transaction_type_from_str s)) j = Ok d"
    and "map_details (\<lambda>s. map_err e3 (htlc_status_from_str s)) (\<lambda>s. map_err e4 (token_transaction_type_from_str s)) j = Ok d"
proof -
  have "lr_htlc_status l \<in> range htlc_status_to_string" if "j_lightning j = Some l" for l
    using assms that by (simp add: join_ok_def lightning_row_ok_def)
  then have l: "\<exists>h. lr_htlc_status l = htlc_status_to_string h" if "j_lightning j = Some l" for l using that by blast
  have "tkr_tx_type t \<in> range token_transaction_type_to_string" if "j_token j = Some t" for t
    using assms that by (simp add: join_ok_def token_details_row_ok_def)
  then have t: "\<exists>x. tkr_tx_type t = token_transaction_type_to_string x" if "j_token j = Some t" for t using that by blast
  have "\<exists>d. map_details (\<lambda>s. map_err e1 (htlc_status_from_str s)) (\<lambda>s. map_err e2 (token_transaction_type_from_str s)) j = Ok d
     \<and> map_details (\<lambda>s. map_err e3 (htlc_status_from_str s)) (\<lambda>s. map_err e4 (token_transaction_type_from_str s)) j = Ok d"
    by (cases "j_lightning j"; cases "j_token j")
      (auto simp: map_details_def dest!: l t split: option.split)
  with that show ?thesis by blast
qed

lemma conversion_details_agree:
  assumes "join_ok j"
  obtains d where "conversion_details_of (\<lambda>s. map_err e1 (conversion_status_from_str s)) j = Ok d"
    and "conversion_details_of (\<lambda>s. map_err e2 (conversion_status_from_str s)) j = Ok d"
proof (cases "meta mr_conversion_status j")
  case None
  then show ?thesis by (intro that) (simp_all add: conversion_details_of_def)
next
  case (Some s)
  then obtain m where "j_metadata j = Some m" "mr_conversion_status m = Some s" by (auto simp: meta_def split: option.splits)
  with assms have "Some s \<in> range (map_option conversion_status_to_string)" by (auto simp: join_ok_def metadata_row_ok_def)
  then obtain x where "Some s = map_option conversion_status_to_string x" by (rule rangeE)
  then obtain c where "s = conversion_status_to_string c" by (cases x) auto
  with Some show ?thesis by (intro that) (simp_all add: conversion_details_of_def)
qed

lemma map_payment_agree:
  assumes "join_ok j"
  obtains p where "sqlite_map_payment j = Ok p" and "postgres_map_payment j = Ok p"
proof -
  obtain d where d: "map_details (\<lambda>s. map_err conversion_failure (htlc_status_from_str s))
        (\<lambda>s. map_err conversion_failure (token_transaction_type_from_str s)) j = Ok d"
    "map_details (\<lambda>s. map_err StSerialization (htlc_status_from_str s))
        (\<lambda>s. map_err StSerialization (token_transaction_type_from_str s)) j = Ok d"
    using map_details_agree [OF assms] by blast
  obtain c where c: "conversion_details_of (\<lambda>s. map_err conversion_failure (conversion_status_from_str s)) j = Ok c"
    "conversion_details_of (\<lambda>s. map_err StSerialization (conversion_status_from_str s)) j = Ok c"
    using conversion_details_agree [OF assms] by blast
  from assms obtain t s a f m where r: "pr_payment_type (j_payment j) = payment_type_to_string t"
    "pr_status (j_payment j) = payment_status_to_string s" "pr_amount (j_payment j) = decimal a" "a < 2 ^ 128"
    "pr_fees (j_payment j) = decimal f" "f < 2 ^ 128" "pr_method (j_payment j) = Some (payment_method_to_string m)"
    by (auto simp: join_ok_def payment_row_ok_def)
  have n: "parse_u128 (decimal a) = Some a" "parse_u128 (decimal f) = Some f" using r(4,6) by (simp_all only: parse_u128_decimal)
  show ?thesis
    by (rule that [of "\<lparr>p_id = j_id j, p_payment_type = t, p_status = s, p_amount = a, p_fees = f,
        p_timestamp = pr_timestamp (j_payment j), p_method = m, p_details = d, p_conversion_details = c\<rparr>"])
      (simp_all add: sqlite_map_payment_def postgres_map_payment_def Let_def d c r(1-3,5,7) n ok_or_def)
qed

lemma map_rows_Ok: "(\<And>x. x \<in> set xs \<Longrightarrow> f x = Ok (g x)) \<Longrightarrow> map_rows f xs = Ok (map g xs)"
  by (induction xs) simp_all

lemma map_rows_agree:
  "(\<And>x. x \<in> set xs \<Longrightarrow> \<exists>y. f x = Ok y \<and> g x = Ok y) \<Longrightarrow> \<exists>ys. map_rows f xs = Ok ys \<and> map_rows g xs = Ok ys"
proof (induction xs)
  case (Cons x xs)
  obtain y where "f x = Ok y \<and> g x = Ok y" using Cons(2) by auto
  moreover obtain ys where "map_rows f xs = Ok ys \<and> map_rows g xs = Ok ys" using Cons by auto
  ultimately show ?case by simp
qed simp

lemma map_payments_agree:
  assumes "payment_db_ok db" and "set js \<subseteq> set (select_payments db)"
  obtains ps where "map_rows sqlite_map_payment js = Ok ps" and "map_rows postgres_map_payment js = Ok ps"
proof -
  have "\<exists>y. sqlite_map_payment j = Ok y \<and> postgres_map_payment j = Ok y" if "j \<in> set js" for j
    using map_payment_agree select_payments_ok [OF assms(1)] that assms(2) by blast
  then show ?thesis using map_rows_agree that by blast
qed

lemma selected_payments_subset: "set (selected_payments req db) \<subseteq> set (select_payments db)"
  by (auto simp: selected_payments_def Let_def dest!: in_set_takeD in_set_dropD split: if_splits)

lemma children_of_subset: "set (children_of ids db) \<subseteq> set (select_payments db)"
  by (auto simp: children_of_def)

lemma listing_answers:
  assumes "payment_db_ok db"
  shows "snd (sqlite_list_payments req db) \<in> {Err connection_error, Err integer_overflow} \<union> range Ok
    \<and> snd (postgres_list_payments req db) \<in> {Err connection_error, Err integer_overflow} \<union> range Ok"
proof -
  have params: "timestamp_params req \<in> {Err integer_overflow, Ok ()}"
    by (auto simp: timestamp_params_def to_i64_def split: option.split)
  have "snd (on_database (\<lambda>d. (d, rbind (timestamp_params req) (\<lambda>_. map_rows f (selected_payments req d)))) db)
      \<in> {Err connection_error, Err integer_overflow} \<union> range Ok"
    if f: "f = sqlite_map_payment \<or> f = postgres_map_payment" for f
  proof (cases "on_database (\<lambda>d. (d, rbind (timestamp_params req) (\<lambda>_. map_rows f (selected_payments req d)))) db")
    case (Pair db' r)
    then show ?thesis
    proof (cases rule: on_database_cases)
      case (reached cs)
      let ?d = "db\<lparr>pdb_connections := cs\<rparr>"
      obtain ps where "map_rows sqlite_map_payment (selected_payments req ?d) = Ok ps"
        "map_rows postgres_map_payment (selected_payments req ?d) = Ok ps"
        using map_payments_agree [OF _ selected_payments_subset, of ?d] assms by auto
      with f have "map_rows f (selected_payments req ?d) = Ok ps" by blast
      with reached params Pair show ?thesis by (auto simp: rbind_def)
    qed (simp add: Pair)
  qed
  then show ?thesis by (simp add: sqlite_list_payments_def postgres_list_payments_def)
qed

text \<open>C17. Whatever has been stored can be read back, by either database: a listing fails only when the database cannot be reached or
  a bound of the request does not fit into 64 bits, never because a stored text does not parse.\<close>

theorem stored_payments_readable:
  assumes "reachable (\<lambda>db. db = empty_payment_db cs) (storage_write S) db" and "S = SqliteStorage \<or> S = PostgresStorage collation"
  shows "snd (s_list_payments S req db) \<in> {Err connection_error, Err integer_overflow} \<union> range Ok"
proof -
  have "payment_db_ok db" using assms sqlite_payments.reachable_inv postgres_payments.reachable_inv by blast
  from listing_answers [OF this, of req] have "snd (s_list_payments SqliteStorage req db) \<in> {Err connection_error, Err integer_overflow} \<union> range Ok"
    and "snd (s_list_payments (PostgresStorage collation) req db) \<in> {Err connection_error, Err integer_overflow} \<union> range Ok"
    by (simp_all only: storage_simps Storage.simps)
  with assms(2) show ?thesis by blast
qed

theorem stored_payments_readable_witness:
  "snd (s_list_payments SqliteStorage default_list_request (empty_payment_db [])) \<in> {Err connection_error, Err integer_overflow} \<union> range Ok"
  using stored_payments_readable [of "[]" SqliteStorage "empty_payment_db []" byte_order default_list_request]
  by (simp add: reach_init)

lemma on_database_connected: "pdb_connections db = [] \<Longrightarrow> on_database f db = f db"
  by (simp add: on_database_def pdb_connect_def)

lemma distinct_filter_fst: "distinct (map fst xs) \<Longrightarrow>
   filter (\<lambda>x. fst x = i) xs = (case map_of xs i of None \<Rightarrow> [] | Some r \<Rightarrow> [(i, r)])"
  by (induction xs) (auto simp: map_of_eq_None_iff filter_empty_conv split: option.split, force)

lemma payments_with_id:
  "hm_ok (payments db) \<Longrightarrow> filter (\<lambda>j. j_id j = i) (select_payments db) =
     (case hm_get (payments db) i of None \<Rightarrow> [] | Some r \<Rightarrow> [join_payment db (i, r)])"
  by (simp add: select_payments_def filter_map o_def join_payment_def Let_def hm_ok_def hm_get_def distinct_filter_fst
      split: option.split)


section \<open>What is read back\<close>

text \<open>A payment as it is shown: what only the metadata of the payment knows is taken from there.\<close>

definition shown_payment :: "PaymentDb \<Rightarrow> Payment \<Rightarrow> Payment" where
  "shown_payment db p =
     (let m = hm_get (payment_metadata db) (p_id p);
          known = (case m of None \<Rightarrow> None | Some r \<Rightarrow> mr_conversion_info r)
      in p\<lparr>p_details :=
            (case p_details p of
               Some (SparkDetails invd htlc _) \<Rightarrow> Some (SparkDetails invd htlc known)
             | Some (TokenDetails md h t invd _) \<Rightarrow> Some (TokenDetails md h t invd known)
             | Some (LightningDetails d invoice key htlc _ _ _) \<Rightarrow>
                 Some (LightningDetails (coalesce d (case m of None \<Rightarrow> None | Some r \<Rightarrow> mr_lnurl_description r)) invoice key htlc
                   (case m of None \<Rightarrow> None | Some r \<Rightarrow> mr_lnurl_pay_info r)
                   (case m of None \<Rightarrow> None | Some r \<Rightarrow> mr_lnurl_withdraw_info r)
                   (hm_get (lnurl_receive_metadata db) (htlc_payment_hash htlc)))
             | other \<Rightarrow> other),
          p_conversion_details :=
            (case m of None \<Rightarrow> None
             | Some r \<Rightarrow> (case mr_conversion_status r of None \<Rightarrow> None
                | Some s \<Rightarrow> (case conversion_status_from_str s of
                     Ok status \<Rightarrow> Some \<lparr>cd_status = status, cd_from = None, cd_to = None\<rparr> | Err _ \<Rightarrow> None)))\<rparr>)"

definition without_details :: "PaymentDb \<Rightarrow> string \<Rightarrow> bool" where
  "without_details db i \<longleftrightarrow> hm_get (payment_details_lightning db) i = None \<and> hm_get (payment_details_token db) i = None
     \<and> hm_get (payment_details_spark db) i = None"

lemma conversion_details_shown:
  assumes "payment_db_ok db" and "hm_get (payment_metadata db) i = j_metadata j"
  shows "conversion_details_of (\<lambda>s. map_err e (conversion_status_from_str s)) j =
    Ok (case hm_get (payment_metadata db) i of None \<Rightarrow> None
        | Some r \<Rightarrow> (case mr_conversion_status r of None \<Rightarrow> None
           | Some s \<Rightarrow> (case conversion_status_from_str s of
                Ok status \<Rightarrow> Some \<lparr>cd_status = status, cd_from = None, cd_to = None\<rparr> | Err _ \<Rightarrow> None)))"
proof (cases "j_metadata j")
  case (Some r)
  with assms have "metadata_row_ok r" by (auto simp: payment_db_ok_def dest: rows_ok_get)
  then obtain x where "mr_conversion_status r = map_option conversion_status_to_string x" by (auto simp: metadata_row_ok_def)
  with Some assms(2) show ?thesis by (cases x) (simp_all add: conversion_details_of_def meta_def)
qed (simp add: conversion_details_of_def meta_def assms(2))

text \<open>The row that the query then returns for the payment.\<close>

lemma insert_details_join:
  assumes "insert_details (p_id p) (p_details p) (db\<lparr>payments := hm_insert (p_id p) (payment_row p) (payments db)\<rparr>) = Ok db'"
    and "without_details db (p_id p)" and "j = join_payment db' (p_id p, payment_row p)"
  shows "map_details (\<lambda>s. map_err e (htlc_status_from_str s)) (\<lambda>s. map_err e' (token_transaction_type_from_str s)) j =
      Ok (p_details (shown_payment db p)) \<and> j_metadata j = hm_get (payment_metadata db) (p_id p)
    \<and> hm_get (payments db') (p_id p) = Some (payment_row p) \<and> pdb_connections db' = pdb_connections db"
proof (cases "p_details p")
  case None
  with assms show ?thesis
    by (auto simp: insert_details_def join_payment_def without_details_def map_details_def shown_payment_def payment_row_def Let_def)
next
  case (Some d)
  show ?thesis
  proof (cases d)
    case (SparkDetails a b c)
    with assms Some show ?thesis
      by (auto simp: insert_details_def join_payment_def without_details_def map_details_def shown_payment_def payment_row_def Let_def
          meta_def hm_get_upsert split: if_splits)
  next
    case (TokenDetails a b c d e)
    with assms Some show ?thesis
      by (auto simp: insert_details_def join_payment_def without_details_def map_details_def shown_payment_def payment_row_def Let_def
          meta_def hm_get_upsert)
  next
    case (LightningDetails a b c htlc e f g)
    with assms Some show ?thesis
      by (auto simp: insert_details_def join_payment_def without_details_def map_details_def shown_payment_def payment_row_def Let_def
          meta_def hm_get_upsert lightning_row_def lightning_description_def)
  qed (use assms Some in \<open>auto simp: insert_details_def join_payment_def without_details_def map_details_def shown_payment_def
        payment_row_def Let_def\<close>)
qed


definition sample_payment :: Payment where
  "sample_payment = \<lparr>p_id = ''a'', p_payment_type = Receive, p_status = PayCompleted, p_amount = 7, p_fees = 0, p_timestamp = 3,
     p_method = MethodLightning, p_details = Some (LightningDetails None ''lnbc'' ''k''
       \<lparr>htlc_payment_hash = ''h'', htlc_preimage = None, htlc_expiry_time = 9, htlc_status = WaitingForPreimage\<rparr> None None None),
     p_conversion_details = None\<rparr>"

definition sample_payment_db :: PaymentDb where
  "sample_payment_db = fst (sqlite_insert_payment sample_payment (empty_payment_db []))"

lemma sample_payment_inserted: "sqlite_insert_payment sample_payment (empty_payment_db []) = (sample_payment_db, Ok ())"
  by (simp add: sample_payment_db_def sqlite_insert_payment_def transacted_def on_database_def pdb_connect_def empty_payment_db_def
      sample_payment_def to_i64_def insert_details_def)



section \<open>What is never lost\<close>

text \<open>A column that has a value keeps one.\<close>

definition column_kept :: "('r \<Rightarrow> 'a option) \<Rightarrow> ('k, 'r) hmap \<Rightarrow> ('k, 'r) hmap \<Rightarrow> bool" where
  "column_kept f m m' \<longleftrightarrow> (\<forall>i r. hm_get m i = Some r \<and> f r \<noteq> None \<longrightarrow> (\<exists>r'. hm_get m' i = Some r' \<and> f r' \<noteq> None))"

lemma column_kept_refl [simp]: "column_kept f m m"
  by (simp add: column_kept_def)

lemma column_kept_trans: "column_kept f m m' \<Longrightarrow> column_kept f m' m'' \<Longrightarrow> column_kept f m m''"
  unfolding column_kept_def by meson

lemma column_kept_upsert: "(\<And>new old. f old \<noteq> None \<Longrightarrow> f (merge new old) \<noteq> None) \<Longrightarrow> column_kept f m (upsert_row merge k r m)"
  by (auto simp: column_kept_def hm_get_upsert split: option.split)

definition facts_kept :: "PaymentDb \<Rightarrow> PaymentDb \<Rightarrow> bool" where
  "facts_kept db db' \<longleftrightarrow>
     column_kept lr_preimage (payment_details_lightning db) (payment_details_lightning db')
     \<and> column_kept spr_invoice_details (payment_details_spark db) (payment_details_spark db')
     \<and> column_kept spr_htlc_details (payment_details_spark db) (payment_details_spark db')
     \<and> column_kept tkr_invoice_details (payment_details_token db) (payment_details_token db')
     \<and> column_kept mr_parent_payment_id (payment_metadata db) (payment_metadata db')
     \<and> column_kept mr_lnurl_pay_info (payment_metadata db) (payment_metadata db')
     \<and> column_kept mr_lnurl_withdraw_info (payment_metadata db) (payment_metadata db')
     \<and> column_kept mr_lnurl_description (payment_metadata db) (payment_metadata db')
     \<and> column_kept mr_conversion_info (payment_metadata db) (payment_metadata db')
     \<and> column_kept mr_conversion_status (payment_metadata db) (payment_metadata db')
     \<and> column_kept Some (payments db) (payments db')"

lemma facts_kept_trans: "facts_kept a b \<Longrightarrow> facts_kept b c \<Longrightarrow> facts_kept a c"
  unfolding facts_kept_def by (blast intro: column_kept_trans)

lemma coalesce_not_None: "y \<noteq> None \<Longrightarrow> coalesce x y \<noteq> None"
  by (cases x) simp_all

lemma coalesce_Some [simp]: "\<exists>z. coalesce x (Some y) = Some z"
  by (cases x) simp_all

lemma metadata_kept: "facts_kept db (db\<lparr>payment_metadata := upsert_row merge_metadata_row i r (payment_metadata db)\<rparr>)"
  by (simp add: facts_kept_def merge_metadata_row_def column_kept_upsert coalesce_not_None)

lemma insert_details_kept: "insert_details i d db = Ok db' \<Longrightarrow> facts_kept db db'"
  by (auto simp: insert_details_def facts_kept_def merge_spark_row_def merge_token_row_def merge_lightning_row_def
      intro!: column_kept_upsert coalesce_not_None split: option.splits PaymentDetails.splits if_splits)

lemma insert_row_kept: "facts_kept db (db\<lparr>payments := hm_insert i r (payments db)\<rparr>)"
  by (auto simp: facts_kept_def column_kept_def)

lemma facts_kept_other [simp]:
  "facts_kept db (db'\<lparr>settings := a\<rparr>) = facts_kept db db'" "facts_kept db (db'\<lparr>unclaimed_deposits := b\<rparr>) = facts_kept db db'"
  "facts_kept db (db'\<lparr>lnurl_receive_metadata := c\<rparr>) = facts_kept db db'" "facts_kept db (db'\<lparr>contacts := d\<rparr>) = facts_kept db db'"
  "facts_kept db (db'\<lparr>pdb_connections := e\<rparr>) = facts_kept db db'" "facts_kept db db"
  by (simp_all add: facts_kept_def)

lemma set_lnurl_rows_kept: "set_lnurl_rows ms db = (db', x) \<Longrightarrow> facts_kept d db \<Longrightarrow> facts_kept d db'"
proof (induction ms db rule: set_lnurl_rows.induct)
  case (2 m ms db)
  then show ?case by (auto simp: pdb_connect_def split: list.splits if_splits)
qed simp

lemma facts_kept_start [simp]: "facts_kept (db\<lparr>pdb_connections := cs\<rparr>) db' = facts_kept db db'"
  by (simp add: facts_kept_def)

lemma transaction_facts: "transacted f db = (db', x) \<Longrightarrow> (\<And>d d'. f d = Ok d' \<Longrightarrow> facts_kept d d') \<Longrightarrow> facts_kept db db'"
  by (erule transacted_cases) (simp, metis facts_kept_start)

lemma database_facts: "on_database f db = (db', x) \<Longrightarrow> (\<And>d d' r. f d = (d', r) \<Longrightarrow> facts_kept d d') \<Longrightarrow> facts_kept db db'"
  by (erule on_database_cases) (simp, metis facts_kept_start)

lemma insert_payment_facts:
  "rbind (to_i64 t) (\<lambda>_. insert_details i d (db\<lparr>payments := hm_insert i r (payments db)\<rparr>)) = Ok db' \<Longrightarrow> facts_kept db db'"
  by (auto intro: facts_kept_trans [OF insert_row_kept insert_details_kept])

lemmas write_defs = set_cached_item_def delete_cached_item_def sqlite_insert_payment_def postgres_insert_payment_def
  sqlite_insert_payment_metadata_def postgres_insert_payment_metadata_def sqlite_add_deposit_def postgres_add_deposit_def
  upsert_deposit_def sqlite_delete_deposit_def postgres_delete_deposit_def sqlite_update_deposit_def postgres_update_deposit_def
  update_deposit_row_def set_lnurl_metadata_def insert_contact_def delete_contact_def

lemma write_facts_kept:
  assumes "storage_write S db db'" and "S = SqliteStorage \<or> S = PostgresStorage collation"
  shows "facts_kept db db'"
  using assms
  by (elim storage_write.cases disjE)
    (auto simp: storage_simps write_defs intro: metadata_kept set_lnurl_rows_kept insert_payment_facts elim!: transaction_facts database_facts)



section \<open>Listings\<close>

definition selects :: "StorageListPaymentsRequest \<Rightarrow> PaymentDb \<Rightarrow> string \<Rightarrow> bool" where
  "selects req db i \<longleftrightarrow>
     (\<exists>r. hm_get (payments db) i = Some r \<and> list_all (\<lambda>c. c (join_payment db (i, r))) (where_clauses req))"

definition listed_order :: "StorageListPaymentsRequest \<Rightarrow> Payment \<Rightarrow> Payment \<Rightarrow> bool" where
  "listed_order req p q \<longleftrightarrow>
     (if unwrap_or (lp_sort_ascending req) False then p_timestamp p \<le> p_timestamp q else p_timestamp q \<le> p_timestamp p)"

lemma mapped_payment: "sqlite_map_payment j = Ok p \<Longrightarrow> p_id p = j_id j \<and> p_timestamp p = pr_timestamp (j_payment j)"
  by (auto simp: sqlite_map_payment_def Let_def)

lemma map_rows_list: "map_rows f xs = Ok ys \<Longrightarrow> list_all2 (\<lambda>x y. f x = Ok y) xs ys"
  by (induction xs arbitrary: ys) auto

lemma list_all2_map_eq: "list_all2 (\<lambda>x y. g y = h x) xs ys \<Longrightarrow> map g ys = map h xs"
  by (induction rule: list_all2_induct) simp_all

lemma map_rows_take: "map_rows f xs = Ok ys \<Longrightarrow> map_rows f (take n xs) = Ok (take n ys)"
  by (induction xs arbitrary: ys n) (auto simp: take_Cons split: nat.split)

lemma map_rows_drop: "map_rows f xs = Ok ys \<Longrightarrow> map_rows f (drop n xs) = Ok (drop n ys)"
  by (induction xs arbitrary: ys n) (auto simp: drop_Cons split: nat.split)

definition ordered_payments :: "StorageListPaymentsRequest \<Rightarrow> PaymentDb \<Rightarrow> PaymentJoin list" where
  "ordered_payments req db =
     (let rows = filter (\<lambda>j. list_all (\<lambda>c. c j) (where_clauses req)) (select_payments db)
      in if unwrap_or (lp_sort_ascending req) False then sort_key (\<lambda>j. int (pr_timestamp (j_payment j))) rows
         else sort_key (\<lambda>j. - int (pr_timestamp (j_payment j))) rows)"

lemma selected_page:
  "selected_payments req db = take (unwrap_or (lp_limit req) (2 ^ 32 - 1)) (drop (unwrap_or (lp_offset req) 0) (ordered_payments req db))"
  by (simp add: selected_payments_def ordered_payments_def Let_def)

lemma j_id_join [simp]:
  "j_id (join_payment db x) = fst x" "j_lightning (join_payment db x) = hm_get (payment_details_lightning db) (fst x)"
  by (simp_all add: join_payment_def Let_def)

lemma ordered_ids:
  assumes "hm_ok (payments db)"
  shows "distinct (map j_id (ordered_payments req db)) \<and> set (map j_id (ordered_payments req db)) = {i. selects req db i}"
proof -
  let ?rows = "filter (\<lambda>j. list_all (\<lambda>c. c j) (where_clauses req)) (select_payments db)"
  have mset: "mset (ordered_payments req db) = mset ?rows" by (simp add: ordered_payments_def Let_def)
  have "distinct (map j_id (select_payments db))"
    using assms by (simp add: select_payments_def o_def join_payment_def Let_def hm_ok_def)
  then have "distinct (map j_id ?rows)" by (rule distinct_map_filter)
  then have "distinct (map j_id (ordered_payments req db))" using mset by (metis mset_eq_imp_distinct_iff mset_map)
  moreover have "set (ordered_payments req db) = set ?rows" using mset by (rule mset_eq_setD)
  then have "set (map j_id (ordered_payments req db)) = {i. selects req db i}"
  proof (intro set_eqI)
    fix i
    have "i \<in> set (map j_id (ordered_payments req db)) \<longleftrightarrow>
        (\<exists>r. (i, r) \<in> set (payments db) \<and> list_all (\<lambda>c. c (join_payment db (i, r))) (where_clauses req))"
      unfolding set_map \<open>set (ordered_payments req db) = set ?rows\<close> by (auto simp: select_payments_def image_iff)
    then show "i \<in> set (map j_id (ordered_payments req db)) \<longleftrightarrow> i \<in> {i. selects req db i}"
      by (simp add: selects_def hm_in_set [OF assms])
  qed
  ultimately show ?thesis ..
qed

lemma sort_key_rel: "sorted_wrt (\<lambda>x y. f x \<le> f y) (sort_key f xs)" for f :: "'a \<Rightarrow> 'b :: linorder"
  using sorted_sort_key [of f xs] by (simp add: sorted_wrt_map)

lemma ordered_sorted:
  "sorted_wrt (\<lambda>x y. if unwrap_or (lp_sort_ascending req) False then pr_timestamp (j_payment x) \<le> pr_timestamp (j_payment y)
     else pr_timestamp (j_payment y) \<le> pr_timestamp (j_payment x)) (ordered_payments req db)"
  using sort_key_rel [of "\<lambda>j :: PaymentJoin. int (pr_timestamp (j_payment j))"]
    sort_key_rel [of "\<lambda>j :: PaymentJoin. - int (pr_timestamp (j_payment j))"]
  by (simp add: ordered_payments_def Let_def)



section \<open>Where reading goes astray\<close>

text \<open>Looking up a payment by its invoice works in one database only once two payments carry the invoice, as after a failed
  attempt and a second one: SQLite returns one of them, PostgreSQL refuses to answer.\<close>

theorem repeated_invoice_unreadable:
  assumes "payment_db_ok db" and "pdb_connections db = []"
    and "hm_get (payments db) i = Some a" and "hm_get (payments db) j = Some b" and "i \<noteq> j"
    and "hm_get (payment_details_lightning db) i = Some l" and "lr_invoice l = invoice"
    and "hm_get (payment_details_lightning db) j = Some k" and "lr_invoice k = invoice"
  shows "\<exists>p e. snd (sqlite_get_payment_by_invoice invoice db) = Ok (Some p) \<and> snd (postgres_get_payment_by_invoice invoice db) = Err e"
proof -
  let ?found = "filter (has_invoice invoice) (select_payments db)"
  have "join_payment db (i, a) \<in> set ?found" "join_payment db (j, b) \<in> set ?found"
    using hm_get_in_set [OF assms(3)] hm_get_in_set [OF assms(4)] assms(6-9)
    by (auto simp: select_payments_def has_invoice_def)
  moreover have "join_payment db (i, a) \<noteq> join_payment db (j, b)" using assms(5) by (auto simp: join_payment_def Let_def)
  ultimately obtain x y xs where found: "?found = x # y # xs"
    by (metis (no_types, lifting) empty_iff empty_set insert_iff list.exhaust list.simps(15))
  then have "x \<in> set ?found" by simp
  then have "join_ok x" using select_payments_ok [OF assms(1)] by simp
  then obtain p where "sqlite_map_payment x = Ok p" by (rule map_payment_agree)
  with found assms(2) show ?thesis
    by (simp add: sqlite_get_payment_by_invoice_def postgres_get_payment_by_invoice_def on_database_connected)
qed

definition sample_repeated_db :: PaymentDb where
  "sample_repeated_db = fst (sqlite_insert_payment (sample_payment\<lparr>p_id := ''b''\<rparr>) sample_payment_db)"

lemma sample_payment_step:
  "storage_write SqliteStorage db (fst (sqlite_insert_payment (sample_payment\<lparr>p_id := i\<rparr>) db))"
proof -
  let ?p = "sample_payment\<lparr>p_id := i\<rparr>"
  obtain db' x where e: "sqlite_insert_payment ?p db = (db', x)" by fastforce
  then have i: "s_insert_payment SqliteStorage ?p db = (db', x)" by (simp add: SqliteStorage_def)
  have a: "p_amount ?p < 2 ^ 128" "p_fees ?p < 2 ^ 128" by (simp_all add: sample_payment_def)
  have "storage_write SqliteStorage db db'" by (rule storage_write.intros(3) [OF a i])
  then show ?thesis by (simp add: e)
qed

theorem repeated_invoice_unreadable_witness:
  "\<exists>p e. snd (sqlite_get_payment_by_invoice ''lnbc'' sample_repeated_db) = Ok (Some p)
     \<and> snd (postgres_get_payment_by_invoice ''lnbc'' sample_repeated_db) = Err e"
proof -
  have first: "sample_payment_db = fst (sqlite_insert_payment (sample_payment\<lparr>p_id := ''a''\<rparr>) (empty_payment_db []))"
    by (simp add: sample_payment_db_def sample_payment_def)
  have "payment_db_ok (empty_payment_db [])" by (rule sqlite_payments.inv_init) simp
  then have "payment_db_ok sample_payment_db" unfolding first by (rule sqlite_payments.inv_step) (rule sample_payment_step)
  then have ok: "payment_db_ok sample_repeated_db"
    unfolding sample_repeated_db_def by (rule sqlite_payments.inv_step) (rule sample_payment_step)
  let ?row = "payment_row sample_payment" and ?l = "lightning_row None ''lnbc'' ''k''
       \<lparr>htlc_payment_hash = ''h'', htlc_preimage = None, htlc_expiry_time = 9, htlc_status = WaitingForPreimage\<rparr>"
  have h: "pdb_connections sample_repeated_db = []"
    "hm_get (payments sample_repeated_db) ''a'' = Some ?row" "hm_get (payments sample_repeated_db) ''b'' = Some ?row"
    "hm_get (payment_details_lightning sample_repeated_db) ''a'' = Some ?l"
    "hm_get (payment_details_lightning sample_repeated_db) ''b'' = Some ?l"
    by (simp_all add: sample_repeated_db_def sample_payment_db_def sqlite_insert_payment_def transacted_def on_database_def
        pdb_connect_def empty_payment_db_def sample_payment_def to_i64_def insert_details_def hm_get_upsert payment_row_def)
  show ?thesis by (rule repeated_invoice_unreadable [OF ok h(1-3) _ h(4) _ h(5)]) (simp_all add: lightning_row_def)
qed

text \<open>A failed statement of PostgreSQL is taken for the absence of child payments.\<close>

lemma lost_children:
  "ids \<noteq> [] \<Longrightarrow> pdb_connections db = [True, False] \<Longrightarrow> snd (postgres_get_payments_by_parent_ids ids db) = Ok []"
  by (simp add: postgres_get_payments_by_parent_ids_def on_database_def pdb_connect_def)

text \<open>A filter on details without criteria is left out instead of selecting its kind of payment.\<close>

lemma empty_details_filter:
  "details_clauses (Some [FilterLightning None]) = []" "details_clauses (Some [FilterSpark None None]) = []"
  "details_clauses (Some [FilterSpark None None, f]) = details_clauses (Some [f])"
  by (simp_all add: details_clauses_def details_filter_clauses_def htlc_clauses_def conversion_clauses_def token_clauses_def)

section \<open>Settings as an interface\<close>

text \<open>What users of the settings rely on: a value that was written is read back, and a failed write changes nothing.\<close>

locale settings_store =
  fixes S :: "'s Storage" and items :: "'s \<Rightarrow> string \<Rightarrow> string option"
  assumes set_item: "s_set_cached_item S k v s = (s', r) \<Longrightarrow> items s' = (if is_ok r then (items s)(k \<mapsto> v) else items s)"
    and delete_item: "s_delete_cached_item S k s = (s', r) \<Longrightarrow> items s' = (if is_ok r then (items s)(k := None) else items s)"
    and get_item: "s_get_cached_item S k s = (s', g) \<Longrightarrow> items s' = items s \<and> (\<forall>v. g = Ok v \<longrightarrow> v = items s k)"
    and other_items: "s_insert_payment_metadata S i m s = (s', r) \<Longrightarrow> items s' = items s"
      "s_get_payment_by_id S i s = (s', q) \<Longrightarrow> items s' = items s"
begin

lemma written_item_is_read:
  assumes "s_set_cached_item S k v s = (s1, Ok ())" and "s_get_cached_item S k s1 = (s2, Ok w)"
  shows "w = Some v"
  using set_item [OF assms(1)] get_item [OF assms(2)] by (simp add: is_ok_def)

end

lemma hm_get_fun: "hm_get (hm_insert k v m) = (hm_get m)(k \<mapsto> v)" "hm_get (hm_remove k m) = (hm_get m)(k := None)"
  by (auto simp: fun_eq_iff)

lemma settings_of_connected [simp]: "hm_get (settings (db\<lparr>pdb_connections := cs\<rparr>)) = hm_get (settings db)"
  by simp

interpretation sqlite_settings: settings_store SqliteStorage "\<lambda>db. hm_get (settings db)"
  by unfold_locales
    (auto simp: storage_simps set_cached_item_def delete_cached_item_def get_cached_item_def sqlite_insert_payment_metadata_def
      sqlite_get_payment_by_id_def hm_get_fun is_ok_def elim!: on_database_cases)

interpretation postgres_settings: settings_store "PostgresStorage collation" "\<lambda>db. hm_get (settings db)" for collation
  by unfold_locales
    (auto simp: storage_simps set_cached_item_def delete_cached_item_def get_cached_item_def postgres_insert_payment_metadata_def
      postgres_get_payment_by_id_def hm_get_fun is_ok_def elim!: on_database_cases)

end
