(* ===== verification/Event_Emitter.thy ===== *)
theory Event_Emitter
  imports Payment_Storage
begin

text \<open>
  Events of the SDK: \<open>crates/breez-sdk/core/src/events.rs\<close> and the middleware of
  \<open>crates/breez-sdk/core/src/token_conversion/middleware.rs\<close>.

  Listeners and middleware are code that acts on the rest of the program: a listener is a function on a state \<open>'w\<close>, a middleware
  also says which event, if any, goes on. The maps of listeners are ordered by their keys, as a \<open>BTreeMap\<close> is. Random identifiers
  are arguments.
\<close>

section \<open>Events\<close>

record LnurlInfo =
  li_url :: string
  li_bech32 :: string

record LightningAddressInfo =
  lai_description :: string
  lai_lightning_address :: string
  lai_lnurl :: LnurlInfo
  lai_username :: string

datatype SdkOptimizationEvent =
    OptStarted u32
  | OptRoundCompleted u32 u32
  | OptCompleted
  | OptCancelled
  | OptFailed string
  | OptSkipped

datatype SdkEvent =
    Synced
  | UnclaimedDeposits "DepositInfo list"
  | ClaimedDeposits "DepositInfo list"
  | PaymentSucceeded Payment
  | PaymentPending Payment
  | PaymentFailed Payment
  | Optimization SdkOptimizationEvent
  | LightningAddressChanged "LightningAddressInfo option"
  | NewDeposits "DepositInfo list"

definition from_payment :: "Payment \<Rightarrow> SdkEvent" where
  "from_payment p =
     (case p_status p of
        PayCompleted \<Rightarrow> PaymentSucceeded p
      | PayPending \<Rightarrow> PaymentPending p
      | PayFailed \<Rightarrow> PaymentFailed p)"

text \<open>What a sync has reached; the number of records pulled is present when the storage was synced.\<close>

record InternalSyncedEvent =
  is_wallet :: bool
  is_wallet_state :: bool
  is_deposits :: bool
  is_lnurl_metadata :: bool
  is_storage_incoming :: "u32 option"

definition default_synced :: InternalSyncedEvent where
  "default_synced = \<lparr>is_wallet = False, is_wallet_state = False, is_deposits = False, is_lnurl_metadata = False,
     is_storage_incoming = None\<rparr>"

definition synced_any :: "InternalSyncedEvent \<Rightarrow> bool" where
  "synced_any e \<longleftrightarrow> is_wallet e \<or> is_wallet_state e \<or> is_deposits e \<or> is_lnurl_metadata e \<or> is_storage_incoming e \<noteq> None"

definition any_non_zero :: "InternalSyncedEvent \<Rightarrow> bool" where
  "any_non_zero e \<longleftrightarrow> is_wallet e \<or> is_wallet_state e \<or> is_deposits e \<or> is_lnurl_metadata e
     \<or> (case is_storage_incoming e of None \<Rightarrow> False | Some v \<Rightarrow> v > 0)"

definition synced_merge :: "InternalSyncedEvent \<Rightarrow> InternalSyncedEvent \<Rightarrow> InternalSyncedEvent" where
  "synced_merge e other =
     \<lparr>is_wallet = (is_wallet e \<or> is_wallet other), is_wallet_state = (is_wallet_state e \<or> is_wallet_state other),
      is_deposits = (is_deposits e \<or> is_deposits other), is_lnurl_metadata = (is_lnurl_metadata e \<or> is_lnurl_metadata other),
      is_storage_incoming =
        (case (is_storage_incoming e, is_storage_incoming other) of
           (Some a, Some b) \<Rightarrow> Some (sat_add 32 a b)
         | (Some a, None) \<Rightarrow> Some a
         | (None, b) \<Rightarrow> b)\<rparr>"

section \<open>The emitter\<close>

type_synonym 'w listener = "SdkEvent \<Rightarrow> 'w \<Rightarrow> 'w"
type_synonym 'w middleware = "SdkEvent \<Rightarrow> 'w \<Rightarrow> 'w \<times> SdkEvent option"

record 'w EventEmitter =
  has_real_time_sync :: bool
  rtsync_failed :: bool
  listener_index :: u64
  internal_listeners :: "(string \<times> 'w listener) list"
  em_middleware :: "'w middleware list"
  external_listeners :: "(string \<times> 'w listener) list"
  synced_event_buffer :: "InternalSyncedEvent option"

definition new_emitter :: "bool \<Rightarrow> 'w EventEmitter" where
  "new_emitter rts = \<lparr>has_real_time_sync = rts, rtsync_failed = False, listener_index = 0, internal_listeners = [],
     em_middleware = [], external_listeners = [], synced_event_buffer = Some default_synced\<rparr>"

definition btree_insert :: "string \<Rightarrow> 'v \<Rightarrow> (string \<times> 'v) list \<Rightarrow> (string \<times> 'v) list" where
  "btree_insert k v m = filter (\<lambda>(j, _). byte_order j < byte_order k) m @ (k, v) # filter (\<lambda>(j, _). byte_order k < byte_order j) m"

definition listener_id :: "string \<Rightarrow> u64 \<Rightarrow> string \<Rightarrow> string" where
  "listener_id stem index uuid = stem @ decimal index @ ''-'' @ uuid"

definition add_external_listener :: "string \<Rightarrow> 'w listener \<Rightarrow> 'w EventEmitter \<Rightarrow> 'w EventEmitter \<times> string" where
  "add_external_listener uuid l em =
     (let i = listener_id ''listener_'' (listener_index em) uuid
      in (em\<lparr>listener_index := wadd 64 (listener_index em) 1,
             external_listeners := btree_insert i l (external_listeners em)\<rparr>, i))"

definition add_internal_listener :: "string \<Rightarrow> 'w listener \<Rightarrow> 'w EventEmitter \<Rightarrow> 'w EventEmitter \<times> string" where
  "add_internal_listener uuid l em =
     (let i = listener_id ''internal_'' (listener_index em) uuid
      in (em\<lparr>listener_index := wadd 64 (listener_index em) 1,
             internal_listeners := btree_insert i l (internal_listeners em)\<rparr>, i))"

definition remove_external_listener :: "string \<Rightarrow> 'w EventEmitter \<Rightarrow> 'w EventEmitter \<times> bool" where
  "remove_external_listener i em =
     (em\<lparr>external_listeners := hm_remove i (external_listeners em)\<rparr>, hm_contains (external_listeners em) i)"

definition remove_internal_listener :: "string \<Rightarrow> 'w EventEmitter \<Rightarrow> 'w EventEmitter \<times> bool" where
  "remove_internal_listener i em =
     (em\<lparr>internal_listeners := hm_remove i (internal_listeners em)\<rparr>, hm_contains (internal_listeners em) i)"

definition add_middleware :: "'w middleware \<Rightarrow> 'w EventEmitter \<Rightarrow> 'w EventEmitter" where
  "add_middleware m em = em\<lparr>em_middleware := em_middleware em @ [m]\<rparr>"

definition notify_listeners :: "(string \<times> 'w listener) list \<Rightarrow> SdkEvent \<Rightarrow> 'w \<Rightarrow> 'w" where
  "notify_listeners ls e w = foldl (\<lambda>w (_, l). l e w) w ls"

fun run_middleware :: "'w middleware list \<Rightarrow> SdkEvent option \<Rightarrow> 'w \<Rightarrow> 'w \<times> SdkEvent option" where
  "run_middleware [] e w = (w, e)"
| "run_middleware (m # ms) None w = (w, None)"
| "run_middleware (m # ms) (Some e) w = (case m e w of (w', e') \<Rightarrow> run_middleware ms e' w')"

definition emit :: "'w EventEmitter \<Rightarrow> SdkEvent \<Rightarrow> 'w \<Rightarrow> 'w" where
  "emit em e w =
     (case run_middleware (em_middleware em) (Some e) (notify_listeners (internal_listeners em) e w) of
        (w', None) \<Rightarrow> w'
      | (w', Some e') \<Rightarrow> notify_listeners (external_listeners em) e' w')"

definition emit_synced :: "InternalSyncedEvent \<Rightarrow> 'w EventEmitter \<times> 'w \<Rightarrow> 'w EventEmitter \<times> 'w" where
  "emit_synced synced s = (case s of (em, w) \<Rightarrow>
     if \<not> synced_any synced then (em, w)
     else case synced_event_buffer em of
         Some buffered \<Rightarrow>
           (let merged = synced_merge buffered synced
            in if is_wallet merged \<and> (\<not> has_real_time_sync em \<or> is_storage_incoming merged \<noteq> None \<or> rtsync_failed em)
               then (em\<lparr>synced_event_buffer := None\<rparr>, emit (em\<lparr>synced_event_buffer := None\<rparr>) Synced w)
               else (em\<lparr>synced_event_buffer := Some merged\<rparr>, w))
       | None \<Rightarrow> if any_non_zero synced then (em, emit em Synced w) else (em, w))"

definition notify_rtsync_failed :: "'w EventEmitter \<times> 'w \<Rightarrow> 'w EventEmitter \<times> 'w" where
  "notify_rtsync_failed s = (case s of (em, w) \<Rightarrow>
     let em' = em\<lparr>rtsync_failed := True\<rparr>
     in case synced_event_buffer em' of
          Some buffered \<Rightarrow>
            if is_wallet buffered
            then (em'\<lparr>synced_event_buffer := None\<rparr>, emit (em'\<lparr>synced_event_buffer := None\<rparr>) Synced w)
            else (em', w)
        | None \<Rightarrow> (em', w))"

section \<open>Middleware of token conversions\<close>

definition conversion_child_event :: "SdkEvent \<Rightarrow> bool" where
  "conversion_child_event e =
     (case e of
        PaymentSucceeded p \<Rightarrow> is_conversion_child p
      | PaymentPending p \<Rightarrow> is_conversion_child p
      | PaymentFailed p \<Rightarrow> is_conversion_child p
      | _ \<Rightarrow> False)"

definition TokenConversionMiddleware :: "'w middleware" where
  "TokenConversionMiddleware e w = (w, if conversion_child_event e then None else Some e)"

section \<open>Listeners\<close>

lemma byte_order_eq [simp]: "byte_order a = byte_order b \<longleftrightarrow> a = b"
  by (simp add: byte_order_def inj_map_eq_map inj_def)

definition btree_ok :: "(string \<times> 'v) list \<Rightarrow> bool" where
  "btree_ok m \<longleftrightarrow> sorted_wrt (\<lambda>a b. byte_order (fst a) < byte_order (fst b)) m"

lemma btree_ok_insert: "btree_ok m \<Longrightarrow> btree_ok (btree_insert k v m)"
  unfolding btree_ok_def btree_insert_def sorted_wrt_append
  by (auto intro: sorted_wrt_filter order.strict_trans)

lemma btree_ok_remove: "btree_ok m \<Longrightarrow> btree_ok (hm_remove k m)"
  unfolding btree_ok_def hm_remove_def by (simp add: AList.delete_eq sorted_wrt_filter)

lemma hm_get_append: "hm_get (a @ b) k = (case hm_get a k of None \<Rightarrow> hm_get b k | Some v \<Rightarrow> Some v)"
  by (simp add: hm_get_def map_add_def cong: option.case_cong)

lemma hm_get_filter_keys: "hm_get (filter (\<lambda>(j, _). P j) m) k = (if P k then hm_get m k else None)"
  by (induction m) (auto simp: hm_get_def)

lemma btree_get_insert [simp]: "hm_get (btree_insert k v m) j = (if j = k then Some v else hm_get m j)"
  using linorder_neqE [of "byte_order j" "byte_order k"]
  by (auto simp: btree_insert_def hm_get_append hm_get_filter_keys hm_get_Cons split: option.split)

text \<open>What an emitter calls is what was registered: a listener is found under the identifier that it was given, until it is removed.\<close>

lemma listener_registered:
  "add_external_listener uuid l em = (em', i) \<Longrightarrow> hm_get (external_listeners em') i = Some l"
  "add_internal_listener uuid l em = (em', i) \<Longrightarrow> hm_get (internal_listeners em') i = Some l"
  "remove_external_listener i em = (em', found) \<Longrightarrow> hm_get (external_listeners em') i = None \<and> (found \<longleftrightarrow> hm_get (external_listeners em) i \<noteq> None)"
  "remove_internal_listener i em = (em', found) \<Longrightarrow> hm_get (internal_listeners em') i = None \<and> (found \<longleftrightarrow> hm_get (internal_listeners em) i \<noteq> None)"
  by (auto simp: add_external_listener_def add_internal_listener_def remove_external_listener_def remove_internal_listener_def
      Let_def hm_contains_iff)

section \<open>When the wallet counts as synced\<close>

text \<open>The emitter is told of partial syncs and of the failure of real-time sync.\<close>

datatype synced_call = SyncedCall InternalSyncedEvent | RtsyncFailed

fun synced_step :: "synced_call \<Rightarrow> 'w EventEmitter \<times> 'w \<Rightarrow> 'w EventEmitter \<times> 'w" where
  "synced_step (SyncedCall e) s = emit_synced e s"
| "synced_step RtsyncFailed s = notify_rtsync_failed s"

definition synced_run :: "synced_call list \<Rightarrow> 'w EventEmitter \<times> 'w \<Rightarrow> 'w EventEmitter \<times> 'w" where
  "synced_run cs s = foldl (\<lambda>s c. synced_step c s) s cs"

definition wallet_synced :: "synced_call list \<Rightarrow> bool" where
  "wallet_synced cs \<longleftrightarrow> (\<exists>e. SyncedCall e \<in> set cs \<and> is_wallet e)"

definition storage_synced :: "synced_call list \<Rightarrow> bool" where
  "storage_synced cs \<longleftrightarrow> (\<exists>e. SyncedCall e \<in> set cs \<and> is_storage_incoming e \<noteq> None)"

definition first_sync_done :: "bool \<Rightarrow> synced_call list \<Rightarrow> bool" where
  "first_sync_done rts cs \<longleftrightarrow> wallet_synced cs \<and> (\<not> rts \<or> storage_synced cs \<or> RtsyncFailed \<in> set cs)"

definition fresh_emitter :: "'w EventEmitter \<Rightarrow> bool" where
  "fresh_emitter em \<longleftrightarrow> \<not> rtsync_failed em \<and> synced_event_buffer em = Some default_synced"

definition same_audience :: "'w EventEmitter \<Rightarrow> 'w EventEmitter \<Rightarrow> bool" where
  "same_audience em em' \<longleftrightarrow> has_real_time_sync em' = has_real_time_sync em \<and> internal_listeners em' = internal_listeners em
     \<and> em_middleware em' = em_middleware em \<and> external_listeners em' = external_listeners em"

definition buffered_after :: "'w EventEmitter \<Rightarrow> synced_call list \<Rightarrow> 'w EventEmitter \<Rightarrow> bool" where
  "buffered_after em cs em' \<longleftrightarrow> same_audience em em' \<and> (rtsync_failed em' \<longleftrightarrow> RtsyncFailed \<in> set cs)
     \<and> (case synced_event_buffer em' of
          None \<Rightarrow> first_sync_done (has_real_time_sync em) cs
        | Some b \<Rightarrow> \<not> first_sync_done (has_real_time_sync em) cs \<and> (is_wallet b \<longleftrightarrow> wallet_synced cs)
            \<and> (is_storage_incoming b \<noteq> None \<longleftrightarrow> storage_synced cs))"

lemma emit_audience: "same_audience em em' \<Longrightarrow> emit em' = emit em"
  unfolding same_audience_def emit_def fun_eq_iff by (simp cong: prod.case_cong option.case_cong)

lemma merge_flags:
  "is_wallet (synced_merge a b) \<longleftrightarrow> is_wallet a \<or> is_wallet b"
  "is_storage_incoming (synced_merge a b) \<noteq> None \<longleftrightarrow> is_storage_incoming a \<noteq> None \<or> is_storage_incoming b \<noteq> None"
  by (auto simp: synced_merge_def split: option.splits)

lemma synced_calls_snoc:
  "wallet_synced (cs @ [SyncedCall e]) \<longleftrightarrow> wallet_synced cs \<or> is_wallet e"
  "storage_synced (cs @ [SyncedCall e]) \<longleftrightarrow> storage_synced cs \<or> is_storage_incoming e \<noteq> None"
  "wallet_synced (cs @ [RtsyncFailed]) \<longleftrightarrow> wallet_synced cs" "storage_synced (cs @ [RtsyncFailed]) \<longleftrightarrow> storage_synced cs"
  by (auto simp: wallet_synced_def storage_synced_def)

definition emits :: "bool \<Rightarrow> synced_call list \<Rightarrow> synced_call \<Rightarrow> bool" where
  "emits rts cs c \<longleftrightarrow>
     (if first_sync_done rts cs then (case c of SyncedCall e \<Rightarrow> any_non_zero e | RtsyncFailed \<Rightarrow> False)
      else first_sync_done rts (cs @ [c]))"

lemma synced_step_effect:
  assumes "buffered_after em cs em'" and "synced_step c (em', w) = (em'', w')"
  shows "buffered_after em (cs @ [c]) em'' \<and> w' = (if emits (has_real_time_sync em) cs c then emit em Synced w else w)"
proof (cases c)
  case (SyncedCall e)
  have aud: "emit em' = emit em" "emit (em'\<lparr>synced_event_buffer := b\<rparr>) = emit em" for b
    using assms(1) by (auto intro!: emit_audience simp: buffered_after_def same_audience_def)
  have step: "emit_synced e (em', w) = (em'', w')" using assms(2) SyncedCall by simp
  note facts = buffered_after_def same_audience_def first_sync_done_def synced_calls_snoc
  consider "\<not> synced_any e" | "synced_any e" "synced_event_buffer em' = None" | b where "synced_any e" "synced_event_buffer em' = Some b"
    by blast
  then show ?thesis
  proof cases
    case 1
    with step have "em'' = em'" "w' = w" by (simp_all add: emit_synced_def)
    moreover from 1 have "\<not> is_wallet e" "is_storage_incoming e = None" "\<not> any_non_zero e"
      by (simp_all add: synced_any_def any_non_zero_def)
    ultimately show ?thesis using assms(1) SyncedCall
      by (cases "synced_event_buffer em'") (auto simp: facts emits_def)
  next
    case 2
    with assms(1) have "first_sync_done (has_real_time_sync em) cs" by (simp add: buffered_after_def)
    moreover from this have "first_sync_done (has_real_time_sync em) (cs @ [c])" using SyncedCall by (auto simp: facts)
    ultimately show ?thesis using step 2 assms(1) SyncedCall
      by (simp add: emit_synced_def emits_def buffered_after_def aud split: if_splits)
  next
    case 3
    let ?m = "synced_merge b e"
    let ?done = "is_wallet ?m \<and> (\<not> has_real_time_sync em' \<or> is_storage_incoming ?m \<noteq> None \<or> rtsync_failed em')"
    have before: "\<not> first_sync_done (has_real_time_sync em) cs" "is_wallet ?m \<longleftrightarrow> wallet_synced (cs @ [c])"
      "is_storage_incoming ?m \<noteq> None \<longleftrightarrow> storage_synced (cs @ [c])" "RtsyncFailed \<in> set (cs @ [c]) \<longleftrightarrow> rtsync_failed em'"
      "has_real_time_sync em' = has_real_time_sync em"
      using assms(1) 3 SyncedCall unfolding merge_flags by (simp_all add: facts)
    then have reached: "?done \<longleftrightarrow> first_sync_done (has_real_time_sync em) (cs @ [c])" unfolding first_sync_done_def by metis
    have "same_audience em em'" using assms(1) by (simp add: buffered_after_def)
    then show ?thesis
    proof (cases ?done)
      case True
      with step 3 have "em'' = em'\<lparr>synced_event_buffer := None\<rparr>" "w' = emit em Synced w"
        by (simp_all add: emit_synced_def Let_def aud)
      with True reached before \<open>same_audience em em'\<close> show ?thesis by (simp add: emits_def buffered_after_def same_audience_def)
    next
      case False
      with step 3 have "em'' = em'\<lparr>synced_event_buffer := Some ?m\<rparr>" "w' = w" by (auto simp: emit_synced_def Let_def)
      moreover have "\<not> first_sync_done (has_real_time_sync em) (cs @ [c])" using False reached by blast
      ultimately show ?thesis using before \<open>same_audience em em'\<close> by (simp add: emits_def buffered_after_def same_audience_def)
    qed
  qed
next
  case RtsyncFailed
  have aud: "emit (em'\<lparr>rtsync_failed := True, synced_event_buffer := b\<rparr>) = emit em" for b
    using assms(1) by (auto intro!: emit_audience simp: buffered_after_def same_audience_def)
  show ?thesis using assms RtsyncFailed
    by (auto simp: buffered_after_def same_audience_def notify_rtsync_failed_def aud emits_def first_sync_done_def synced_calls_snoc
        Let_def split: option.splits if_splits)
qed

lemma synced_run_buffered:
  assumes "fresh_emitter em" and "synced_run cs (em, w) = (em', w')"
  shows "buffered_after em cs em'"
  using assms(2)
proof (induction cs arbitrary: em' w' rule: rev_induct)
  case Nil
  then show ?case using assms(1)
    by (auto simp: synced_run_def buffered_after_def same_audience_def fresh_emitter_def default_synced_def first_sync_done_def
        wallet_synced_def storage_synced_def)
next
  case (snoc c cs)
  obtain em1 w1 where r: "synced_run cs (em, w) = (em1, w1)" by fastforce
  with snoc.prems have "synced_step c (em1, w1) = (em', w')" by (simp add: synced_run_def)
  then show ?case using synced_step_effect [OF snoc.IH [OF r]] by blast
qed


definition counting_emitter :: "SdkEvent list EventEmitter" where
  "counting_emitter = (new_emitter True)\<lparr>external_listeners := [(''listener_0-a'', \<lambda>e log. log @ [e])]\<rparr>"


section \<open>What clients see of conversions\<close>

lemma run_middleware_append:
  "run_middleware (ms @ ns) e w = (case run_middleware ms e w of (w', e') \<Rightarrow> run_middleware ns e' w')"
proof (induction ms e w rule: run_middleware.induct)
  case (2 m ms w)
  then show ?case by (cases ns) simp_all
qed (auto split: prod.split)

text \<open>With the middleware of conversions last in the chain, no client is told of a payment that is part of a conversion,
  whatever the middleware before it does; components inside the SDK see every event.\<close>

lemma conversion_children_hidden:
  assumes "run_middleware (ms @ [TokenConversionMiddleware]) (Some e) w = (w', Some e')"
  shows "\<not> conversion_child_event e'"
  using assms by (auto simp: run_middleware_append TokenConversionMiddleware_def split: prod.splits option.splits if_splits
      elim!: run_middleware.elims)

end
