(* ===== verification/Stable_Balance.thy ===== *)
theory Stable_Balance
  imports Event_Emitter
begin

text \<open>
  Stable balance: \<open>crates/breez-sdk/core/src/stable_balance\<close> (\<open>mod.rs\<close>, \<open>queue.rs\<close>, \<open>conversions.rs\<close>), with the cell of
  \<open>utils/expiring_cell.rs\<close>, the settings that it keeps (\<open>persist/mod.rs\<close>), its configuration (\<open>models/mod.rs\<close>) and the errors of
  \<open>error.rs\<close>. Received bitcoin is converted into a token by a worker that takes tasks from a queue, while events, changes of the
  settings and payments go on.

  The storage is any value of the trait \<open>Storage\<close>. The token converter, the wallet, the clock, the JSON library and the derivation of
  identifiers are arguments; what they answer may differ from call to call. Every handler runs to its end before the next step. A task
  is taken, run and completed in separate steps, and an automatic conversion is prepared and performed in two, so handlers may run in
  between. A wake-up of \<open>Notify\<close> is a flag that the waiting task consumes.
\<close>

section \<open>Errors and configuration\<close>

datatype SdkError =
    SparkError string
  | InsufficientFunds
  | InvalidUuid string
  | InvalidInput string
  | NetworkError string
  | SdkStorageError string
  | ChainServiceError string
  | MaxDepositClaimFeeExceeded string u32 "Fee option" u64 u64
  | MissingUtxo string u32
  | SdkLnurlError string
  | SdkSigner string
  | SdkGeneric string

fun storage_error_to_string :: "StorageError \<Rightarrow> string" where
  "storage_error_to_string (StConnection e) = ''Connection error: '' @ e"
| "storage_error_to_string (StImplementation e) = ''Underlying implementation error: '' @ e"
| "storage_error_to_string (StInitialization e) = ''Failed to initialize database: '' @ e"
| "storage_error_to_string (StSerialization e) = ''Failed to serialize/deserialize data: '' @ e"
| "storage_error_to_string StNotFound = ''Not found''"

definition sdk_error_from_storage :: "StorageError \<Rightarrow> SdkError" where
  "sdk_error_from_storage e = (if e = StNotFound then InvalidInput ''Not found'' else SdkStorageError (storage_error_to_string e))"

record StableBalanceToken =
  sbt_label :: string
  sbt_token_identifier :: string

record StableBalanceConfig =
  sbc_tokens :: "StableBalanceToken list"
  sbc_default_active_label :: "string option"
  sbc_threshold_sats :: "u64 option"
  sbc_max_slippage_bps :: "u32 option"

text \<open>The loop over the configured tokens, with the labels and identifiers seen so far.\<close>

fun validate_tokens :: "StableBalanceToken list \<Rightarrow> string set \<Rightarrow> string set \<Rightarrow> SdkError + string set" where
  "validate_tokens [] labels ids = Ok labels"
| "validate_tokens (t # ts) labels ids =
     (if sbt_label t = [] then Err (InvalidInput ''token label must not be empty'')
      else if sbt_token_identifier t = [] then Err (InvalidInput ''token_identifier must not be empty'')
      else if sbt_label t \<in> labels then Err (InvalidInput (''tokens contains duplicate label: '' @ sbt_label t))
      else if sbt_token_identifier t \<in> ids
      then Err (InvalidInput (''tokens contains duplicate token_identifier: '' @ sbt_token_identifier t))
      else validate_tokens ts (insert (sbt_label t) labels) (insert (sbt_token_identifier t) ids))"

definition validate_config :: "u32 \<Rightarrow> StableBalanceConfig option \<Rightarrow> SdkError + unit" where
  "validate_config max_concurrent_claims stable_balance_config =
     (if max_concurrent_claims = 0 then Err (InvalidInput ''max_concurrent_claims must be greater than 0'')
      else case stable_balance_config of
          None \<Rightarrow> Ok ()
        | Some sb \<Rightarrow>
            if sbc_tokens sb = [] then Err (InvalidInput ''tokens must not be empty'')
            else rbind (validate_tokens (sbc_tokens sb) {} {}) (\<lambda>labels.
              if (case sbc_max_slippage_bps sb of None \<Rightarrow> False | Some bps \<Rightarrow> 10000 < bps)
              then Err (InvalidInput ''max_slippage_bps must be <= 10000'')
              else case sbc_default_active_label sb of
                  None \<Rightarrow> Ok ()
                | Some l \<Rightarrow> if l \<in> labels then Ok ()
                    else Err (InvalidInput (quoted ''default_active_label '' l @ '' not found in tokens list''))))"

section \<open>State\<close>

datatype ConversionTask = PerReceive string | AutoConvert | Deactivation string

datatype PendingState = Ready | Deferred

record PendingConversion =
  pc_payment_id :: string
  pc_state :: PendingState
  pc_created_at :: u64

record EffectiveValues =
  ev_threshold :: u64
  ev_min_from_amount :: u64

text \<open>A call of \<open>convert\<close> that has reached the converter.\<close>

record conversion_request =
  cr_options :: ConversionOptions
  cr_purpose :: ConversionPurpose
  cr_token_identifier :: "string option"
  cr_amount :: ConversionAmount
  cr_transfer_id :: "string option"

record 's StableBalance =
  sb_config :: StableBalanceConfig
  active_token :: "StableBalanceToken option"
  sb_storage :: 's
  effective_values :: "(EffectiveValues \<times> nat) option"
  per_receive :: "PendingConversion list"
  pending_task :: "ConversionTask option"
  queue_notify :: bool
  synced_notify :: bool
  syncs_triggered :: nat
  payment_counter :: nat
  sb_calls :: nat
  sb_requests :: "conversion_request list"

record FetchConversionLimitsResponse =
  fl_min_from_amount :: "u128 option"
  fl_min_to_amount :: "u128 option"

record 's stable_env =
  se_storage :: "'s Storage"
  se_now_secs :: "nat \<Rightarrow> u64"
  se_now_millis :: "nat \<Rightarrow> nat option"
  se_uuid_v5 :: "string \<Rightarrow> string"
  se_to_json :: "PendingConversion list \<Rightarrow> StorageError + string"
  se_from_json :: "string \<Rightarrow> StorageError + PendingConversion list"
  se_fetch_limits :: "nat \<Rightarrow> ConversionType \<Rightarrow> string option \<Rightarrow> ConversionError + FetchConversionLimitsResponse"
  se_validate :: "nat \<Rightarrow> ConversionOptions option \<Rightarrow> string option \<Rightarrow> ConversionAmount \<Rightarrow> ConversionError + ConversionEstimate option"
  se_convert :: "nat \<Rightarrow> conversion_request \<Rightarrow> 's \<Rightarrow> 's \<times> (ConversionError + TokenConversionResponse)"
  se_get_balance :: "nat \<Rightarrow> ConversionError + u64"
  se_get_token_balances :: "nat \<Rightarrow> ConversionError + (string, u128) hmap"

type_synonym ('s, 'a) stable = "'s StableBalance \<Rightarrow> 's StableBalance \<times> (ConversionError + 'a)"

definition outside :: "(nat \<Rightarrow> 'r) \<Rightarrow> 's StableBalance \<Rightarrow> 's StableBalance \<times> 'r" where
  "outside f s = (s\<lparr>sb_calls := Suc (sb_calls s)\<rparr>, f (sb_calls s))"

definition on_storage :: "('s \<Rightarrow> 's \<times> 'r) \<Rightarrow> 's StableBalance \<Rightarrow> 's StableBalance \<times> 'r" where
  "on_storage f s = (case f (sb_storage s) of (d, r) \<Rightarrow> (s\<lparr>sb_storage := d\<rparr>, r))"

definition conv_storage :: "('s \<Rightarrow> 's \<times> (StorageError + 'a)) \<Rightarrow> ('s, 'a) stable" where
  "conv_storage f = cl_map_err (\<lambda>e. ConversionStorage (storage_error_to_string e)) (on_storage f)"

definition per_receive_transfer_id :: "'s stable_env \<Rightarrow> string \<Rightarrow> string" where
  "per_receive_transfer_id env pid = se_uuid_v5 env (''receive_conversion:'' @ pid)"

section \<open>Settings and the cell of effective values\<close>

definition STABLE_BALANCE_ACTIVE_LABEL_KEY :: string where
  "STABLE_BALANCE_ACTIVE_LABEL_KEY = ''stable_balance_active_label''"

definition PENDING_CONVERSIONS_KEY :: string where
  "PENDING_CONVERSIONS_KEY = ''pending_conversions''"

definition save_stable_balance_active_label ::
  "'s stable_env \<Rightarrow> string \<Rightarrow> 's StableBalance \<Rightarrow> 's StableBalance \<times> (StorageError + unit)" where
  "save_stable_balance_active_label env label = on_storage (s_set_cached_item (se_storage env) STABLE_BALANCE_ACTIVE_LABEL_KEY label)"

definition delete_stable_balance_active_label :: "'s stable_env \<Rightarrow> 's StableBalance \<Rightarrow> 's StableBalance \<times> (StorageError + unit)" where
  "delete_stable_balance_active_label env = on_storage (s_delete_cached_item (se_storage env) STABLE_BALANCE_ACTIVE_LABEL_KEY)"

definition fetch_stable_balance_active_label :: "'s stable_env \<Rightarrow> 's \<Rightarrow> 's \<times> (StorageError + string option)" where
  "fetch_stable_balance_active_label env = s_get_cached_item (se_storage env) STABLE_BALANCE_ACTIVE_LABEL_KEY"

definition save_pending_conversions :: "'s stable_env \<Rightarrow> PendingConversion list \<Rightarrow> 's \<Rightarrow> 's \<times> (StorageError + unit)" where
  "save_pending_conversions env pending d =
     (case se_to_json env pending of
        Err e \<Rightarrow> (d, Err e)
      | Ok j \<Rightarrow> s_set_cached_item (se_storage env) PENDING_CONVERSIONS_KEY j d)"

definition fetch_pending_conversions :: "'s stable_env \<Rightarrow> 's \<Rightarrow> 's \<times> (StorageError + PendingConversion list option)" where
  "fetch_pending_conversions env d =
     (case s_get_cached_item (se_storage env) PENDING_CONVERSIONS_KEY d of
        (d', r) \<Rightarrow> (d', rbind r (\<lambda>v. case v of None \<Rightarrow> Ok None | Some j \<Rightarrow> rbind (se_from_json env j) (\<lambda>p. Ok (Some p)))))"

definition delete_pending_conversions :: "'s stable_env \<Rightarrow> 's \<Rightarrow> 's \<times> (StorageError + unit)" where
  "delete_pending_conversions env = s_delete_cached_item (se_storage env) PENDING_CONVERSIONS_KEY"

definition set_conversion_status :: "'s stable_env \<Rightarrow> ConversionStatus \<Rightarrow> string \<Rightarrow> 's StableBalance \<Rightarrow> 's StableBalance" where
  "set_conversion_status env st pid s =
     fst (on_storage (s_insert_payment_metadata (se_storage env) pid (default_payment_metadata\<lparr>pm_conversion_status := Some st\<rparr>)) s)"

definition cell_get :: "'s stable_env \<Rightarrow> 's StableBalance \<Rightarrow> 's StableBalance \<times> EffectiveValues option" where
  "cell_get env s =
     (case effective_values s of
        None \<Rightarrow> (s, None)
      | Some (v, expiration) \<Rightarrow>
          (case outside (se_now_millis env) s of (s', now) \<Rightarrow>
             (s', case now of None \<Rightarrow> None | Some n \<Rightarrow> if n < expiration then Some v else None)))"

definition cell_set :: "'s stable_env \<Rightarrow> EffectiveValues \<Rightarrow> nat \<Rightarrow> 's StableBalance \<Rightarrow> 's StableBalance" where
  "cell_set env v ttl_ms s =
     (case outside (se_now_millis env) s of (s', now) \<Rightarrow>
        s'\<lparr>effective_values := Some (v, case now of None \<Rightarrow> 0 | Some n \<Rightarrow> sat_add 128 n ttl_ms)\<rparr>)"

definition EFFECTIVE_VALUES_TTL_MS :: nat where
  "EFFECTIVE_VALUES_TTL_MS = 3600000"

section \<open>The queue\<close>

definition DEFERRED_TASK_TIMEOUT_SECS :: u64 where
  "DEFERRED_TASK_TIMEOUT_SECS = 120"

definition persist_pending :: "'s stable_env \<Rightarrow> 's StableBalance \<Rightarrow> 's StableBalance" where
  "persist_pending env s =
     (if per_receive s = [] then fst (on_storage (delete_pending_conversions env) s)
      else fst (on_storage (save_pending_conversions env (per_receive s)) s))"

definition push_per_receive :: "'s stable_env \<Rightarrow> string \<Rightarrow> 's StableBalance \<Rightarrow> 's StableBalance" where
  "push_per_receive env pid s =
     (if \<exists>p \<in> set (per_receive s). pc_payment_id p = pid then s
      else case outside (se_now_secs env) s of (s', now) \<Rightarrow>
        (persist_pending env
           (s'\<lparr>per_receive := per_receive s' @ [\<lparr>pc_payment_id = pid, pc_state = Ready, pc_created_at = now\<rparr>]\<rparr>))\<lparr>queue_notify := True\<rparr>)"

definition push_auto_convert :: "'s StableBalance \<Rightarrow> 's StableBalance" where
  "push_auto_convert s = (if pending_task s = None then s\<lparr>pending_task := Some AutoConvert, queue_notify := True\<rparr> else s)"

definition push_deactivation :: "string \<Rightarrow> 's StableBalance \<Rightarrow> 's StableBalance" where
  "push_deactivation tid s = s\<lparr>pending_task := Some (Deactivation tid), queue_notify := True\<rparr>"

definition clear_pending_auto_convert :: "'s StableBalance \<Rightarrow> 's StableBalance" where
  "clear_pending_auto_convert s = (if pending_task s = Some AutoConvert then s\<lparr>pending_task := None\<rparr> else s)"

definition has_per_receive :: "'s StableBalance \<Rightarrow> bool" where
  "has_per_receive s \<longleftrightarrow> per_receive s \<noteq> []"

definition clear_queue :: "'s stable_env \<Rightarrow> 's StableBalance \<Rightarrow> 's StableBalance \<times> string list" where
  "clear_queue env s = (persist_pending env (s\<lparr>per_receive := [], pending_task := None\<rparr>), map pc_payment_id (per_receive s))"

fun defer_first :: "string \<Rightarrow> PendingConversion list \<Rightarrow> PendingConversion list" where
  "defer_first pid [] = []"
| "defer_first pid (p # ps) = (if pc_payment_id p = pid then p\<lparr>pc_state := Deferred\<rparr> # ps else p # defer_first pid ps)"

definition defer_task :: "'s stable_env \<Rightarrow> string \<Rightarrow> 's StableBalance \<Rightarrow> 's StableBalance" where
  "defer_task env pid s =
     (if \<exists>p \<in> set (per_receive s). pc_payment_id p = pid
      then persist_pending env (s\<lparr>per_receive := defer_first pid (per_receive s)\<rparr>) else s)"

definition next_task :: "'s StableBalance \<Rightarrow> ConversionTask option" where
  "next_task s =
     (case find (\<lambda>p. pc_state p \<noteq> Deferred) (per_receive s) of
        Some p \<Rightarrow> Some (PerReceive (pc_payment_id p))
      | None \<Rightarrow> if per_receive s = [] then pending_task s else None)"

definition complete_task :: "'s stable_env \<Rightarrow> ConversionTask \<Rightarrow> 's StableBalance \<Rightarrow> 's StableBalance" where
  "complete_task env task s =
     (case task of
        PerReceive i \<Rightarrow> persist_pending env (s\<lparr>per_receive := filter (\<lambda>p. pc_payment_id p \<noteq> i) (per_receive s)\<rparr>)
      | AutoConvert \<Rightarrow> s\<lparr>pending_task := None\<rparr>
      | Deactivation _ \<Rightarrow> s\<lparr>pending_task := None\<rparr>)"

definition resolve_by_conversion_payment :: "'s stable_env \<Rightarrow> string \<Rightarrow> 's StableBalance \<Rightarrow> 's StableBalance \<times> string option" where
  "resolve_by_conversion_payment env incoming s =
     (let resolves = (\<lambda>p. pc_state p = Deferred \<and> per_receive_transfer_id env (pc_payment_id p) = incoming)
      in case List.extract resolves (per_receive s) of
           None \<Rightarrow> (s, None)
         | Some (before, p, rest) \<Rightarrow>
             ((persist_pending env (s\<lparr>per_receive := before @ rest\<rparr>))\<lparr>queue_notify := True\<rparr>, Some (pc_payment_id p)))"

definition expired :: "u64 \<Rightarrow> PendingConversion \<Rightarrow> bool" where
  "expired now p \<longleftrightarrow> pc_state p = Deferred \<and> 0 < pc_created_at p \<and> DEFERRED_TASK_TIMEOUT_SECS < now - pc_created_at p"

definition clear_expired_tasks :: "'s stable_env \<Rightarrow> 's StableBalance \<Rightarrow> 's StableBalance \<times> string list" where
  "clear_expired_tasks env s =
     (case outside (se_now_secs env) s of (s', now) \<Rightarrow>
        let timed_out = map pc_payment_id (filter (expired now) (per_receive s'));
            s'' = s'\<lparr>per_receive := filter (\<lambda>p. \<not> expired now p) (per_receive s')\<rparr>
        in (if timed_out \<noteq> [] then (persist_pending env s'')\<lparr>queue_notify := True\<rparr> else s'', timed_out))"

fun restore_entries :: "PendingConversion list \<Rightarrow> PendingConversion list \<Rightarrow> PendingConversion list" where
  "restore_entries queue [] = queue"
| "restore_entries queue (e # es) =
     (if \<exists>p \<in> set queue. pc_payment_id p = pc_payment_id e then restore_entries queue es else restore_entries (queue @ [e]) es)"

definition recover_pending_conversions :: "'s stable_env \<Rightarrow> 's StableBalance \<Rightarrow> 's StableBalance" where
  "recover_pending_conversions env s =
     (case on_storage (fetch_pending_conversions env) s of
        (s', Ok (Some pending)) \<Rightarrow>
          if pending \<noteq> [] then persist_pending env (s'\<lparr>per_receive := restore_entries (per_receive s') pending\<rparr>) else s'
      | (s', Ok None) \<Rightarrow> s'
      | (s', Err _) \<Rightarrow> s')"

section \<open>Stable balance\<close>

definition get_active_token_identifier :: "'s StableBalance \<Rightarrow> string option" where
  "get_active_token_identifier s = map_option sbt_token_identifier (active_token s)"

definition get_active_label :: "'s StableBalance \<Rightarrow> string option" where
  "get_active_label s = map_option sbt_label (active_token s)"

definition acquire_payment_guard :: "'s StableBalance \<Rightarrow> 's StableBalance" where
  "acquire_payment_guard s = s\<lparr>payment_counter := wadd 64 (payment_counter s) 1\<rparr>"

definition drop_payment_guard :: "'s StableBalance \<Rightarrow> 's StableBalance" where
  "drop_payment_guard s = s\<lparr>payment_counter := wsub 64 (payment_counter s) 1, queue_notify := True\<rparr>"

fun mark_all :: "'s stable_env \<Rightarrow> ConversionStatus \<Rightarrow> string list \<Rightarrow> 's StableBalance \<Rightarrow> 's StableBalance" where
  "mark_all env st [] s = s"
| "mark_all env st (i # is) s = mark_all env st is (set_conversion_status env st i s)"

text \<open>The choice of the new token, after the queue has been cleared.\<close>

definition choose_active_token ::
  "'s stable_env \<Rightarrow> string option \<Rightarrow> 's StableBalance \<Rightarrow> 's StableBalance \<times> (SdkError + StableBalanceToken option)" where
  "choose_active_token env label s =
     (case label of
        Some l \<Rightarrow>
          (case find (\<lambda>t. sbt_label t = l) (sbc_tokens (sb_config s)) of
             None \<Rightarrow> (s, Err (InvalidInput (quoted ''Stable balance label '' l @ '' not found in configured tokens'')))
           | Some token \<Rightarrow>
               cl_bind (cl_map_err sdk_error_from_storage (save_stable_balance_active_label env l)) (\<lambda>_. cl_return (Some token)) s)
      | None \<Rightarrow>
          (let s' = (case active_token s of None \<Rightarrow> s | Some t \<Rightarrow> push_deactivation (sbt_token_identifier t) s)
           in cl_bind (cl_map_err sdk_error_from_storage (delete_stable_balance_active_label env)) (\<lambda>_. cl_return None) s'))"

definition set_active_token :: "'s stable_env \<Rightarrow> string option \<Rightarrow> 's StableBalance \<Rightarrow> 's StableBalance \<times> (SdkError + unit)" where
  "set_active_token env label s =
     (case clear_queue env s of (s1, cleared) \<Rightarrow>
        cl_bind (choose_active_token env label) (\<lambda>new_active s3.
          (let s4 = s3\<lparr>active_token := new_active, effective_values := None\<rparr>
           in (if new_active \<noteq> None then push_auto_convert s4 else s4, Ok ())))
          (mark_all env Failed cleared s1))"

definition resolve_initial_token :: "'s stable_env \<Rightarrow> StableBalanceConfig \<Rightarrow> 's \<Rightarrow> 's \<times> StableBalanceToken option" where
  "resolve_initial_token env config d =
     (case fetch_stable_balance_active_label env d of
        (d', Ok (Some l)) \<Rightarrow> (d', find (\<lambda>t. sbt_label t = l) (sbc_tokens config))
      | (d', Ok None) \<Rightarrow>
          (d', case sbc_default_active_label config of None \<Rightarrow> None | Some l \<Rightarrow> find (\<lambda>t. sbt_label t = l) (sbc_tokens config))
      | (d', Err _) \<Rightarrow> (d', None))"

definition new_stable_balance :: "'s stable_env \<Rightarrow> StableBalanceConfig \<Rightarrow> 's \<Rightarrow> 's StableBalance" where
  "new_stable_balance env config d =
     (case resolve_initial_token env config d of (d', token) \<Rightarrow>
        \<lparr>sb_config = config, active_token = token, sb_storage = d', effective_values = None, per_receive = [], pending_task = None,
         queue_notify = False, synced_notify = False, syncs_triggered = 0, payment_counter = 0, sb_calls = 0, sb_requests = []\<rparr>)"

definition get_or_init_effective_values :: "'s stable_env \<Rightarrow> string \<Rightarrow> ('s, u64 \<times> u64) stable" where
  "get_or_init_effective_values env tid s =
     (case cell_get env s of
        (s1, Some v) \<Rightarrow> (s1, Ok (ev_threshold v, ev_min_from_amount v))
      | (s1, None) \<Rightarrow>
          cl_bind (outside (\<lambda>n. se_fetch_limits env n FromBitcoin (Some tid))) (\<lambda>limits s2.
            (let min_from = (let m = unwrap_or (fl_min_from_amount limits) 0 in if m < 2 ^ 64 then m else 2 ^ 64 - 1);
                 threshold = (case sbc_threshold_sats (sb_config s2) of
                     Some t \<Rightarrow> if min_from \<le> t then t else min_from
                   | None \<Rightarrow> min_from)
             in (cell_set env \<lparr>ev_threshold = threshold, ev_min_from_amount = min_from\<rparr> EFFECTIVE_VALUES_TTL_MS s2,
                 Ok (threshold, min_from)))) s1)"

definition get_conversion_options ::
  "'s stable_env \<Rightarrow> ConversionOptions option \<Rightarrow> string option \<Rightarrow> u128 \<Rightarrow> ('s, ConversionOptions option) stable" where
  "get_conversion_options env options token_id payment_amount s =
     (if options \<noteq> None then (s, Ok options)
      else if token_id \<noteq> None then (s, Ok None)
      else case get_active_token_identifier s of
          None \<Rightarrow> (s, Ok None)
        | Some active \<Rightarrow>
            cl_bind (outside (se_get_balance env)) (\<lambda>balance s'.
              (s', Ok (if payment_amount \<le> balance then None
                       else Some \<lparr>co_conversion_type = ToBitcoin active,
                                  co_max_slippage_bps = sbc_max_slippage_bps (sb_config s'),
                                  co_completion_timeout_secs = None\<rparr>))) s)"

definition should_trigger_per_receive :: "'s stable_env \<Rightarrow> Payment \<Rightarrow> 's StableBalance \<Rightarrow> 's StableBalance \<times> bool" where
  "should_trigger_per_receive env p s =
     (if p_payment_type p \<noteq> Receive \<or> p_method p = MethodToken then (s, False)
      else if is_conversion_child p then (s, False)
      else case get_active_token_identifier s of
          None \<Rightarrow> (s, False)
        | Some tid \<Rightarrow>
            (case get_or_init_effective_values env tid s of
               (s', Err _) \<Rightarrow> (s', False)
             | (s', Ok (_, min_from)) \<Rightarrow> (s', min_from \<le> min (p_amount p) (2 ^ 64 - 1))))"

definition process_synced :: "'s stable_env \<Rightarrow> 's StableBalance \<Rightarrow> 's StableBalance" where
  "process_synced env s =
     (case clear_expired_tasks env s of (s1, timed_out) \<Rightarrow>
        push_auto_convert ((mark_all env Failed timed_out s1)\<lparr>synced_notify := True\<rparr>))"

definition process_payment_succeeded :: "'s stable_env \<Rightarrow> Payment \<Rightarrow> 's StableBalance \<Rightarrow> 's StableBalance \<times> Payment" where
  "process_payment_succeeded env p s =
     (case resolve_by_conversion_payment env (p_id p) s of
        (s1, Some _) \<Rightarrow> (s1, p)
      | (s1, None) \<Rightarrow>
          (case should_trigger_per_receive env p s1 of
             (s2, True) \<Rightarrow>
               (push_per_receive env (p_id p) (set_conversion_status env ConvPending (p_id p) s2),
                p\<lparr>p_conversion_details := Some \<lparr>cd_status = ConvPending, cd_from = None, cd_to = None\<rparr>\<rparr>)
           | (s2, False) \<Rightarrow> (push_auto_convert s2, p)))"

definition stable_process :: "'s stable_env \<Rightarrow> 's StableBalance middleware" where
  "stable_process env e s =
     (case e of
        Synced \<Rightarrow> (process_synced env s, Some Synced)
      | PaymentSucceeded p \<Rightarrow> (case process_payment_succeeded env p s of (s', p') \<Rightarrow> (s', Some (PaymentSucceeded p')))
      | _ \<Rightarrow> (s, Some e))"

text \<open>What other tasks of the program do to the shared state, beside the worker.\<close>

datatype stable_op = EventOp SdkEvent | SetActiveToken "string option" | AcquireGuard | DropGuard

fun apply_op :: "'s stable_env \<Rightarrow> stable_op \<Rightarrow> 's StableBalance \<Rightarrow> 's StableBalance" where
  "apply_op env (EventOp e) s = fst (stable_process env e s)"
| "apply_op env (SetActiveToken l) s = fst (set_active_token env l s)"
| "apply_op env AcquireGuard s = acquire_payment_guard s"
| "apply_op env DropGuard s = (if 0 < payment_counter s then drop_payment_guard s else s)"

section \<open>Conversions\<close>

definition call_convert :: "'s stable_env \<Rightarrow> conversion_request \<Rightarrow> ('s, TokenConversionResponse) stable" where
  "call_convert env req s =
     (case se_convert env (sb_calls s) req (sb_storage s) of (d, r) \<Rightarrow>
        (s\<lparr>sb_calls := Suc (sb_calls s), sb_requests := sb_requests s @ [req], sb_storage := d\<rparr>, r))"

definition insert_metadata :: "'s stable_env \<Rightarrow> string \<Rightarrow> PaymentMetadata \<Rightarrow> ('s, unit) stable" where
  "insert_metadata env i m = conv_storage (s_insert_payment_metadata (se_storage env) i m)"

definition from_btc_options :: "'s StableBalance \<Rightarrow> ConversionOptions" where
  "from_btc_options s = \<lparr>co_conversion_type = FromBitcoin, co_max_slippage_bps = sbc_max_slippage_bps (sb_config s),
     co_completion_timeout_secs = None\<rparr>"

definition has_conversion_info :: "Payment \<Rightarrow> bool" where
  "has_conversion_info p = (case p_details p of Some (SparkDetails _ _ (Some _)) \<Rightarrow> True | _ \<Rightarrow> False)"

text \<open>The call of the converter and the links from the payments that it made to the received payment.\<close>

definition convert_received :: "'s stable_env \<Rightarrow> string \<Rightarrow> string \<Rightarrow> u128 \<Rightarrow> ('s, bool) stable" where
  "convert_received env pid active amount_sats s =
     (let linked = default_payment_metadata\<lparr>pm_parent_payment_id := Some pid\<rparr>
      in cl_bind (call_convert env
           \<lparr>cr_options = from_btc_options s, cr_purpose = AutoConversion, cr_token_identifier = Some active,
            cr_amount = AmountIn amount_sats, cr_transfer_id = Some (per_receive_transfer_id env pid)\<rparr>) (\<lambda>response.
         cl_bind (insert_metadata env (sent_payment_id response) linked) (\<lambda>_.
         cl_bind (insert_metadata env (received_payment_id response) linked) (\<lambda>_. cl_return True))) s)"

definition per_receive_convert :: "'s stable_env \<Rightarrow> string \<Rightarrow> ('s, bool) stable" where
  "per_receive_convert env pid s =
     (case get_active_token_identifier s of
        None \<Rightarrow> (s, Ok False)
      | Some active \<Rightarrow>
          cl_bind (conv_storage (s_get_payment_by_id (se_storage env) pid)) (\<lambda>payment.
            if has_conversion_info payment then cl_return False
            else cl_bind (get_or_init_effective_values env active) (\<lambda>(_, min_from).
              if min (p_amount payment) (2 ^ 64 - 1) < min_from then cl_return False
              else (\<lambda>s3. case on_storage (s_get_payment_by_id (se_storage env) (per_receive_transfer_id env pid)) s3 of
                  (s4, Ok _) \<Rightarrow> (s4, Ok False)
                | (s4, Err _) \<Rightarrow> convert_received env pid active (p_amount payment) s4))) s)"

definition token_balance_of :: "string \<Rightarrow> (string, u128) hmap \<Rightarrow> u128" where
  "token_balance_of tid balances = unwrap_or (hm_get balances tid) 0"

definition produces_token_dust :: "'s stable_env \<Rightarrow> string \<Rightarrow> ConversionOptions \<Rightarrow> u64 \<Rightarrow> 's StableBalance \<Rightarrow> 's StableBalance \<times> bool" where
  "produces_token_dust env tid options balance_sats s =
     (case outside (\<lambda>n. se_fetch_limits env n (ToBitcoin tid) (Some tid)) s of (s1, limits_res) \<Rightarrow>
      case outside (se_get_token_balances env) s1 of (s2, balances_res) \<Rightarrow>
      case (case limits_res of Err _ \<Rightarrow> None | Ok l \<Rightarrow> fl_min_from_amount l) of
        None \<Rightarrow> (s2, False)
      | Some to_btc_min \<Rightarrow>
          (let existing = token_balance_of tid (case balances_res of Err _ \<Rightarrow> [] | Ok b \<Rightarrow> b)
           in if to_btc_min \<le> existing then (s2, False)
              else case outside (\<lambda>n. se_validate env n (Some options) (Some tid) (AmountIn balance_sats)) s2 of
                  (s3, Ok (Some est)) \<Rightarrow> (s3, sat_add 128 existing (est_amount_out est) < to_btc_min)
                | (s3, _) \<Rightarrow> (s3, False)))"

text \<open>The call of the converter for a balance, with the links and the status of the received payment.\<close>

definition convert_balance :: "'s stable_env \<Rightarrow> ConversionOptions \<Rightarrow> string \<Rightarrow> u128 \<Rightarrow> ('s, bool) stable" where
  "convert_balance env options tid amount =
     cl_bind (call_convert env
       \<lparr>cr_options = options, cr_purpose = AutoConversion, cr_token_identifier = Some tid,
        cr_amount = AmountIn amount, cr_transfer_id = None\<rparr>) (\<lambda>response.
     cl_bind (insert_metadata env (sent_payment_id response)
       (default_payment_metadata\<lparr>pm_parent_payment_id := Some (received_payment_id response)\<rparr>)) (\<lambda>_.
     cl_bind (insert_metadata env (received_payment_id response)
       (default_payment_metadata\<lparr>pm_conversion_status := Some Completed\<rparr>)) (\<lambda>_. cl_return True)))"

text \<open>An automatic conversion up to the point at which the queue is looked at again: the options, the token and the balance to convert,
  or nothing when there is no reason to convert. The lock on payments is held between the test of the counter and the reading of the
  balance.\<close>

definition prepare_auto_convert :: "'s stable_env \<Rightarrow> ('s, (ConversionOptions \<times> string \<times> u64) option) stable" where
  "prepare_auto_convert env s =
     (case get_active_token_identifier s of
        None \<Rightarrow> (s, Ok None)
      | Some active \<Rightarrow>
          if 0 < payment_counter s then (s, Ok None)
          else cl_bind (outside (se_get_balance env)) (\<lambda>balance_sats.
            cl_bind (get_or_init_effective_values env active) (\<lambda>(threshold, _) s2.
              if balance_sats < threshold then (s2, Ok None)
              else case produces_token_dust env active (from_btc_options s2) balance_sats s2 of
                  (s3, True) \<Rightarrow> (s3, Ok None)
                | (s3, False) \<Rightarrow> (s3, Ok (Some (from_btc_options s2, active, balance_sats))))) s)"

definition perform_auto_convert :: "'s stable_env \<Rightarrow> ConversionOptions \<times> string \<times> u64 \<Rightarrow> ('s, bool) stable" where
  "perform_auto_convert env plan s =
     (case plan of (options, active, balance_sats) \<Rightarrow>
        if has_per_receive s then (s, Ok False) else convert_balance env options active balance_sats s)"

definition deactivation_convert :: "'s stable_env \<Rightarrow> string \<Rightarrow> ('s, bool) stable" where
  "deactivation_convert env tid =
     cl_bind (outside (se_get_token_balances env)) (\<lambda>balances.
       let token_balance = token_balance_of tid balances
       in if token_balance = 0 then cl_return False
          else cl_bind (outside (\<lambda>n. se_fetch_limits env n (ToBitcoin tid) (Some tid))) (\<lambda>limits s.
            if (case fl_min_from_amount limits of None \<Rightarrow> False | Some min_from \<Rightarrow> token_balance < min_from) then (s, Ok False)
            else convert_balance env
                \<lparr>co_conversion_type = ToBitcoin tid, co_max_slippage_bps = sbc_max_slippage_bps (sb_config s),
                 co_completion_timeout_secs = None\<rparr> tid token_balance s))"

section \<open>The worker\<close>

datatype PerReceiveResult = Done bool | Retry

definition process_per_receive :: "'s stable_env \<Rightarrow> string \<Rightarrow> 's StableBalance \<Rightarrow> 's StableBalance \<times> PerReceiveResult" where
  "process_per_receive env pid s =
     (case per_receive_convert env pid s of
        (s', Ok converted) \<Rightarrow> (if converted then set_conversion_status env Completed pid s' else s', Done converted)
      | (s', Err e) \<Rightarrow> (s', if is_duplicate_transfer e then Done False else Retry))"

definition trigger_sync :: "'s StableBalance \<Rightarrow> 's StableBalance" where
  "trigger_sync s = s\<lparr>syncs_triggered := Suc (syncs_triggered s)\<rparr>"

definition finish_task :: "'s stable_env \<Rightarrow> ConversionTask \<Rightarrow> PerReceiveResult \<Rightarrow> 's StableBalance \<Rightarrow> 's StableBalance" where
  "finish_task env task r s =
     (case (task, r) of
        (PerReceive pid, Retry) \<Rightarrow> defer_task env pid s
      | (PerReceive pid, Done converted) \<Rightarrow>
          (let s' = complete_task env task s in if converted then trigger_sync (clear_pending_auto_convert s') else s')
      | (_, Done converted) \<Rightarrow> (let s' = complete_task env task s in if converted then trigger_sync s' else s')
      | (_, Retry) \<Rightarrow> complete_task env task s)"

definition worker_start :: "'s stable_env \<Rightarrow> 's StableBalance \<Rightarrow> 's StableBalance" where
  "worker_start env s =
     recover_pending_conversions env
       (case get_active_token_identifier s of None \<Rightarrow> s | Some tid \<Rightarrow> fst (get_or_init_effective_values env tid s))"

text \<open>The worker waits for the first sync, takes a task, runs it, completes it, and waits to be woken when there is none. Failed
  automatic and deactivation conversions are logged and count as not converted.\<close>

datatype worker =
    Starting
  | AwaitingSync
  | Draining
  | Working ConversionTask
  | Prepared "ConversionOptions \<times> string \<times> u64"
  | Finished ConversionTask PerReceiveResult
  | WaitingForTask
  | Stopped

inductive stable_step :: "'s stable_env \<Rightarrow> 's StableBalance \<times> worker \<Rightarrow> 's StableBalance \<times> worker \<Rightarrow> bool" for env where
  other: "stable_step env (s, w) (apply_op env oper s, w)"
| start: "stable_step env (s, Starting) (worker_start env s, AwaitingSync)"
| first_sync: "synced_notify s \<Longrightarrow> stable_step env (s, AwaitingSync) (push_auto_convert (s\<lparr>synced_notify := False\<rparr>), Draining)"
| take: "next_task s = Some t \<Longrightarrow> stable_step env (s, Draining) (s, Working t)"
| received: "process_per_receive env pid s = (s', r) \<Longrightarrow> stable_step env (s, Working (PerReceive pid)) (s', Finished (PerReceive pid) r)"
| prepared: "prepare_auto_convert env s = (s', Ok (Some plan)) \<Longrightarrow> stable_step env (s, Working AutoConvert) (s', Prepared plan)"
| unprepared: "prepare_auto_convert env s = (s', r) \<Longrightarrow> r = Ok None \<or> r = Err e
    \<Longrightarrow> stable_step env (s, Working AutoConvert) (s', Finished AutoConvert (Done False))"
| performed: "perform_auto_convert env plan s = (s', r)
    \<Longrightarrow> stable_step env (s, Prepared plan) (s', Finished AutoConvert (Done (r = Ok True)))"
| deactivated: "deactivation_convert env tid s = (s', r)
    \<Longrightarrow> stable_step env (s, Working (Deactivation tid)) (s', Finished (Deactivation tid) (Done (r = Ok True)))"
| finish: "stable_step env (s, Finished t r) (finish_task env t r s, Draining)"
| drained: "next_task s = None \<Longrightarrow> stable_step env (s, Draining) (s, WaitingForTask)"
| wake: "queue_notify s \<Longrightarrow> stable_step env (s, WaitingForTask) (s\<lparr>queue_notify := False\<rparr>, Draining)"
| stop: "w = AwaitingSync \<or> w = WaitingForTask \<Longrightarrow> stable_step env (s, w) (s, Stopped)"

inductive_cases stable_stepE: "stable_step env (s, w) (s', w')"

end
