(* ===== verification/Stable_Progress.thy ===== *)
theory Stable_Progress
  imports Stable_Balance
begin

text \<open>
  Properties of stable balance: which steps change what, the queue and its copy in the storage, when conversions are asked for,
  how waiting payments are settled, and the places where the queue loses work.
\<close>

section \<open>What the operations leave alone\<close>

named_theorems stable_frames

definition storage_kept :: "'s StableBalance \<Rightarrow> 's StableBalance \<Rightarrow> bool" where
  "storage_kept s s' \<longleftrightarrow> (\<exists>c v. s' = s\<lparr>sb_calls := c, effective_values := v\<rparr>)"

lemma storage_kept_refl [simp]: "storage_kept s s"
  unfolding storage_kept_def by (rule exI [of _ "sb_calls s"], rule exI [of _ "effective_values s"]) simp

lemma storage_kept_trans: "storage_kept a b \<Longrightarrow> storage_kept b c \<Longrightarrow> storage_kept a c"
  unfolding storage_kept_def by (clarify, intro exI) simp

lemma storage_kept_calls [simp]: "storage_kept s (s\<lparr>sb_calls := c\<rparr>)"
  unfolding storage_kept_def by (rule exI [of _ c], rule exI [of _ "effective_values s"]) simp

lemma storage_kept_values [simp]: "storage_kept s (s\<lparr>sb_calls := c, effective_values := v\<rparr>)"
  unfolding storage_kept_def by blast

interpretation kept: step_preorder storage_kept
  by unfold_locales (auto intro: storage_kept_trans)

lemma storage_keptD [stable_frames]:
  assumes "storage_kept s s'"
  shows "sb_config s' = sb_config s" "active_token s' = active_token s" "sb_storage s' = sb_storage s" "per_receive s' = per_receive s"
    "pending_task s' = pending_task s" "queue_notify s' = queue_notify s" "synced_notify s' = synced_notify s"
    "syncs_triggered s' = syncs_triggered s" "payment_counter s' = payment_counter s" "sb_requests s' = sb_requests s"
  using assms by (auto simp: storage_kept_def)

lemma keptI: "(\<And>s s' r. m s = (s', r) \<Longrightarrow> storage_kept s s') \<Longrightarrow> Prelude.within storage_kept m"
  unfolding within_def by (metis prod.collapse)

lemma outside_kept: "Prelude.within storage_kept (outside f)"
  by (rule keptI) (auto simp: outside_def)

lemma cell_get_kept: "Prelude.within storage_kept (cell_get env)"
  by (rule keptI) (auto simp: cell_get_def outside_def split: option.splits prod.splits)

lemma effective_values_kept: "Prelude.within storage_kept (get_or_init_effective_values env tid)"
proof (rule keptI)
  fix s s' r assume h: "get_or_init_effective_values env tid s = (s', r)"
  obtain s1 c where c: "cell_get env s = (s1, c)" by fastforce
  note k = withinD [OF cell_get_kept c]
  show "storage_kept s s'"
  proof (cases c)
    case (Some v)
    with h c k show ?thesis by (simp add: get_or_init_effective_values_def)
  next
    case None
    then have "storage_kept s1 s'" using h c
      by (auto simp: get_or_init_effective_values_def cl_bind_def outside_def cell_set_def Let_def split: sum.splits)
    with k show ?thesis by (rule storage_kept_trans)
  qed
qed

lemma should_trigger_kept: "Prelude.within storage_kept (should_trigger_per_receive env p)"
  by (rule keptI) (auto simp: should_trigger_per_receive_def split: option.splits prod.splits sum.splits if_splits
      dest: withinD [OF effective_values_kept])

lemma dust_kept: "Prelude.within storage_kept (produces_token_dust env tid options balance)"
  by (rule keptI) (auto simp: produces_token_dust_def outside_def Let_def storage_kept_trans split: prod.splits option.splits sum.splits if_splits)

lemma prepare_effect:
  assumes "prepare_auto_convert env s = (s', r)"
  shows "storage_kept s s'"
    and "r = Ok (Some plan) \<Longrightarrow> \<exists>tok bal threshold m s2. active_token s = Some tok \<and> payment_counter s = 0
      \<and> se_get_balance env (sb_calls s) = Ok bal
      \<and> get_or_init_effective_values env (sbt_token_identifier tok) (s\<lparr>sb_calls := Suc (sb_calls s)\<rparr>) = (s2, Ok (threshold, m))
      \<and> threshold \<le> bal \<and> plan = (from_btc_options s, sbt_token_identifier tok, bal)"
proof -
  let ?goal = "storage_kept s s' \<and> (r = Ok (Some plan) \<longrightarrow> (\<exists>tok bal threshold m s2. active_token s = Some tok \<and> payment_counter s = 0
      \<and> se_get_balance env (sb_calls s) = Ok bal
      \<and> get_or_init_effective_values env (sbt_token_identifier tok) (s\<lparr>sb_calls := Suc (sb_calls s)\<rparr>) = (s2, Ok (threshold, m))
      \<and> threshold \<le> bal \<and> plan = (from_btc_options s, sbt_token_identifier tok, bal)))"
  let ?s1 = "s\<lparr>sb_calls := Suc (sb_calls s)\<rparr>"
  consider "active_token s = None" | "0 < payment_counter s" | e where "se_get_balance env (sb_calls s) = Err e"
    | tok bal where "active_token s = Some tok" "payment_counter s = 0" "se_get_balance env (sb_calls s) = Ok bal"
    by (cases "active_token s"; cases "se_get_balance env (sb_calls s)") auto
  then have ?goal
  proof cases
    case (4 tok bal)
    let ?tid = "sbt_token_identifier tok"
    obtain s2 v where v: "get_or_init_effective_values env ?tid ?s1 = (s2, v)" by fastforce
    have k: "storage_kept s s2" using withinD [OF effective_values_kept v] by (rule storage_kept_trans [OF storage_kept_calls])
    then have opts: "from_btc_options s2 = from_btc_options s" by (simp add: from_btc_options_def stable_frames)
    obtain s3 d where d: "produces_token_dust env ?tid (from_btc_options s2) bal s2 = (s3, d)" by fastforce
    have k3: "storage_kept s s3" by (rule storage_kept_trans [OF k withinD [OF dust_kept d]])
    show ?thesis using assms 4 v d k k3 opts
      by (cases v) (auto simp: prepare_auto_convert_def get_active_token_identifier_def cl_bind_def outside_def split: if_splits bool.splits)
  qed (use assms in \<open>auto simp: prepare_auto_convert_def get_active_token_identifier_def cl_bind_def outside_def split: option.splits if_splits\<close>)
  then show "storage_kept s s'"
    and "r = Ok (Some plan) \<Longrightarrow> \<exists>tok bal threshold m s2. active_token s = Some tok \<and> payment_counter s = 0
      \<and> se_get_balance env (sb_calls s) = Ok bal
      \<and> get_or_init_effective_values env (sbt_token_identifier tok) (s\<lparr>sb_calls := Suc (sb_calls s)\<rparr>) = (s2, Ok (threshold, m))
      \<and> threshold \<le> bal \<and> plan = (from_btc_options s, sbt_token_identifier tok, bal)" by blast+
qed

text \<open>Writes to the storage change nothing else.\<close>

lemma on_storage_eq: "fst (on_storage f s) = s\<lparr>sb_storage := fst (f (sb_storage s))\<rparr>" "snd (on_storage f s) = snd (f (sb_storage s))"
  by (simp_all add: on_storage_def split: prod.split)

definition pending_written :: "'s stable_env \<Rightarrow> PendingConversion list \<Rightarrow> 's \<Rightarrow> 's" where
  "pending_written env q d = (if q = [] then fst (delete_pending_conversions env d) else fst (save_pending_conversions env q d))"

lemma persist_pending_eq: "persist_pending env s = s\<lparr>sb_storage := pending_written env (per_receive s) (sb_storage s)\<rparr>"
  by (simp add: persist_pending_def pending_written_def on_storage_eq)

definition status_written :: "'s stable_env \<Rightarrow> ConversionStatus \<Rightarrow> string \<Rightarrow> 's \<Rightarrow> 's" where
  "status_written env st pid d =
     fst (s_insert_payment_metadata (se_storage env) pid (default_payment_metadata\<lparr>pm_conversion_status := Some st\<rparr>) d)"

lemma set_conversion_status_eq: "set_conversion_status env st pid s = s\<lparr>sb_storage := status_written env st pid (sb_storage s)\<rparr>"
  by (simp add: set_conversion_status_def status_written_def on_storage_eq)

lemma mark_all_eq: "mark_all env st is s = s\<lparr>sb_storage := foldl (\<lambda>d i. status_written env st i d) (sb_storage s) is\<rparr>"
  by (induction "is" arbitrary: s) (simp_all add: set_conversion_status_eq)

lemmas write_eqs = persist_pending_eq set_conversion_status_eq mark_all_eq

section \<open>Operations of the queue\<close>

abbreviation queued :: "'s StableBalance \<Rightarrow> string list" where
  "queued s \<equiv> map pc_payment_id (per_receive s)"

lemma resolve_effect:
  assumes "resolve_by_conversion_payment env i s = (s', r)"
  obtains (unresolved) "r = None" and "s' = s"
  | (resolved) before p rest where "r = Some (pc_payment_id p)" and "per_receive s = before @ p # rest" and "pc_state p = Deferred"
      and "per_receive_transfer_id env (pc_payment_id p) = i"
      and "s' = s\<lparr>per_receive := before @ rest, sb_storage := pending_written env (before @ rest) (sb_storage s), queue_notify := True\<rparr>"
proof (cases r)
  case None
  with assms unresolved show thesis
    by (auto simp: resolve_by_conversion_payment_def Let_def split: option.splits)
next
  case (Some pid)
  with assms obtain before p rest
    where x: "List.extract (\<lambda>p. pc_state p = Deferred \<and> per_receive_transfer_id env (pc_payment_id p) = i) (per_receive s) = Some (before, p, rest)"
      and "pid = pc_payment_id p"
      and "s' = s\<lparr>per_receive := before @ rest, sb_storage := pending_written env (before @ rest) (sb_storage s), queue_notify := True\<rparr>"
    by (auto simp: resolve_by_conversion_payment_def Let_def persist_pending_eq split: option.splits prod.splits)
  with Some extract_SomeE [OF x] show thesis by (intro resolved) auto
qed

lemma push_per_receive_effect:
  obtains (again) "pid \<in> set (queued s)" and "push_per_receive env pid s = s"
  | (pushed) p where "pid \<notin> set (queued s)" and "pc_payment_id p = pid" and "pc_state p = Ready" and "pc_created_at p = se_now_secs env (sb_calls s)"
      and "push_per_receive env pid s = s\<lparr>sb_calls := Suc (sb_calls s), per_receive := per_receive s @ [p],
        sb_storage := pending_written env (per_receive s @ [p]) (sb_storage s), queue_notify := True\<rparr>"
proof (cases "pid \<in> set (queued s)")
  case True
  then have "\<exists>p \<in> set (per_receive s). pc_payment_id p = pid" by auto
  then show thesis using again True by (simp add: push_per_receive_def)
next
  case False
  then have "\<not> (\<exists>p \<in> set (per_receive s). pc_payment_id p = pid)" by auto
  then show thesis using False
    by (intro pushed [of "\<lparr>pc_payment_id = pid, pc_state = Ready, pc_created_at = se_now_secs env (sb_calls s)\<rparr>"])
      (simp_all add: push_per_receive_def outside_def persist_pending_eq)
qed

lemma clear_expired_effect:
  assumes "clear_expired_tasks env s = (s', timed_out)"
  shows "timed_out = map pc_payment_id (filter (expired (se_now_secs env (sb_calls s))) (per_receive s))"
    and "s' = s\<lparr>sb_calls := Suc (sb_calls s),
      per_receive := filter (\<lambda>p. \<not> expired (se_now_secs env (sb_calls s)) p) (per_receive s),
      sb_storage := (if timed_out = [] then sb_storage s
        else pending_written env (filter (\<lambda>p. \<not> expired (se_now_secs env (sb_calls s)) p) (per_receive s)) (sb_storage s)),
      queue_notify := (queue_notify s \<or> timed_out \<noteq> [])\<rparr>"
  using assms by (auto simp: clear_expired_tasks_def outside_def Let_def persist_pending_eq split: if_splits)

lemma clear_queue_effect:
  "clear_queue env s =
     (s\<lparr>per_receive := [], pending_task := None, sb_storage := pending_written env [] (sb_storage s)\<rparr>, queued s)"
  by (simp add: clear_queue_def persist_pending_eq)

lemma defer_first_ids [simp]: "map pc_payment_id (defer_first pid q) = map pc_payment_id q"
  by (induction q) auto

lemma defer_first_image [simp]: "pc_payment_id ` set (defer_first pid q) = pc_payment_id ` set q"
  by (metis defer_first_ids set_map)

lemma defer_task_effect:
  "defer_task env pid s = (if pid \<in> set (queued s)
     then s\<lparr>per_receive := defer_first pid (per_receive s), sb_storage := pending_written env (defer_first pid (per_receive s)) (sb_storage s)\<rparr>
     else s)"
  by (auto simp: defer_task_def persist_pending_eq image_iff)

lemma restore_distinct:
  "distinct (map pc_payment_id q) \<Longrightarrow> distinct (map pc_payment_id (restore_entries q es))"
  by (induction q es rule: restore_entries.induct) (auto simp: image_iff, metis)

lemma restore_fresh:
  "distinct (map pc_payment_id (q @ es)) \<Longrightarrow> restore_entries q es = q @ es"
  by (induction q es rule: restore_entries.induct) (auto simp: image_iff)

section \<open>Effective values\<close>

definition values_ok :: "'s StableBalance \<Rightarrow> bool" where
  "values_ok s \<longleftrightarrow> (\<forall>v e. effective_values s = Some (v, e) \<longrightarrow>
     ev_min_from_amount v \<le> ev_threshold v \<and> (\<forall>t. sbc_threshold_sats (sb_config s) = Some t \<longrightarrow> t \<le> ev_threshold v))"

lemma cell_get_effect:
  "cell_get env s = (s', c) \<Longrightarrow> effective_values s' = effective_values s \<and> (\<forall>v. c = Some v \<longrightarrow> (\<exists>e. effective_values s = Some (v, e)))"
  by (auto simp: cell_get_def outside_def split: option.splits if_splits prod.splits)

lemma effective_values_spec:
  assumes "values_ok s" and "get_or_init_effective_values env tid s = (s', r)"
  shows "values_ok s'"
    and "r = Ok (th, m) \<Longrightarrow> m \<le> th \<and> (\<forall>t. sbc_threshold_sats (sb_config s) = Some t \<longrightarrow> t \<le> th)"
proof -
  obtain s1 c where c: "cell_get env s = (s1, c)" by fastforce
  have k: "sb_config s1 = sb_config s" "sb_config s' = sb_config s"
    using withinD [OF cell_get_kept c] withinD [OF effective_values_kept assms(2)] by (simp_all add: stable_frames)
  have "values_ok s' \<and> (r = Ok (th, m) \<longrightarrow> m \<le> th \<and> (\<forall>t. sbc_threshold_sats (sb_config s) = Some t \<longrightarrow> t \<le> th))"
    using cell_get_effect [OF c] assms c k
    by (cases c) (auto simp: get_or_init_effective_values_def values_ok_def cl_bind_def outside_def cell_set_def Let_def
        split: sum.splits option.splits if_splits)
  then show "values_ok s'"
    and "r = Ok (th, m) \<Longrightarrow> m \<le> th \<and> (\<forall>t. sbc_threshold_sats (sb_config s) = Some t \<longrightarrow> t \<le> th)"
    by blast+
qed

lemma values_ok_cong: "effective_values s' = effective_values s \<Longrightarrow> sb_config s' = sb_config s \<Longrightarrow> values_ok s' = values_ok s"
  by (simp add: values_ok_def)

lemma should_trigger_values: "values_ok s \<Longrightarrow> should_trigger_per_receive env p s = (s', b) \<Longrightarrow> values_ok s'"
  by (auto simp: should_trigger_per_receive_def split: option.splits prod.splits sum.splits if_splits dest: effective_values_spec(1))

section \<open>The invariant and the wake-ups\<close>

definition stable_ok :: "'s StableBalance \<Rightarrow> bool" where
  "stable_ok s \<longleftrightarrow> distinct (queued s) \<and> values_ok s \<and> (\<forall>pid. pending_task s \<noteq> Some (PerReceive pid))"

text \<open>The worker is told to wake up whenever there is a task for it.\<close>

definition awake :: "'s StableBalance \<Rightarrow> bool" where
  "awake s \<longleftrightarrow> next_task s = None \<or> queue_notify s"

lemma next_task_cong: "per_receive s' = per_receive s \<Longrightarrow> pending_task s' = pending_task s \<Longrightarrow> next_task s' = next_task s"
  by (simp add: next_task_def)

lemma awake_cong:
  "per_receive s' = per_receive s \<Longrightarrow> pending_task s' = pending_task s \<Longrightarrow> queue_notify s' = queue_notify s \<Longrightarrow> awake s' = awake s"
  by (simp add: awake_def next_task_def)

lemma awakeI [simp]: "queue_notify s \<Longrightarrow> awake s"
  by (simp add: awake_def)

lemma awake_empty: "per_receive s = [] \<Longrightarrow> pending_task s = None \<Longrightarrow> awake s"
  by (simp add: awake_def next_task_def)

definition handled :: "'s StableBalance \<Rightarrow> 's StableBalance \<Rightarrow> bool" where
  "handled s s' \<longleftrightarrow> (stable_ok s \<longrightarrow> stable_ok s') \<and> (awake s \<longrightarrow> awake s') \<and> sb_requests s' = sb_requests s \<and> sb_config s' = sb_config s"

lemma handled_refl [simp]: "handled s s" and handled_trans: "handled a b \<Longrightarrow> handled b c \<Longrightarrow> handled a c"
  by (auto simp: handled_def)

lemma kept_handled: "storage_kept s s' \<Longrightarrow> (values_ok s \<Longrightarrow> values_ok s') \<Longrightarrow> handled s s'"
  using awake_cong [of s' s] by (simp add: handled_def stable_ok_def stable_frames)

lemma push_auto_convert_handled [simp]: "handled s (push_auto_convert s)"
  by (auto simp: handled_def push_auto_convert_def stable_ok_def values_ok_def)

lemma storage_handled [simp]: "handled s (s\<lparr>sb_storage := d\<rparr>)"
  by (simp add: handled_def stable_ok_def values_ok_def awake_def next_task_def)

lemma push_per_receive_handled: "handled s (push_per_receive env pid s)"
  by (rule push_per_receive_effect [of pid s env]) (auto simp: handled_def stable_ok_def values_ok_def)

lemma process_payment_handled: "handled s (fst (process_payment_succeeded env p s))"
proof -
  obtain s1 r where r: "resolve_by_conversion_payment env (p_id p) s = (s1, r)" by fastforce
  obtain s2 b where b: "should_trigger_per_receive env p s = (s2, b)" by fastforce
  have h: "handled s s2" by (rule kept_handled [OF withinD [OF should_trigger_kept b]]) (rule should_trigger_values [OF _ b])
  show ?thesis
  proof (rule resolve_effect [OF r])
    assume u: "r = None" "s1 = s"
    have "handled s2 (push_per_receive env (p_id p) (set_conversion_status env ConvPending (p_id p) s2))"
      unfolding set_conversion_status_eq by (rule handled_trans [OF storage_handled push_per_receive_handled])
    with h r b u show ?thesis
      by (cases b) (auto simp: process_payment_succeeded_def intro: handled_trans)
  qed (use r in \<open>auto simp: process_payment_succeeded_def handled_def stable_ok_def values_ok_def\<close>)
qed

lemma process_synced_handled: "handled s (process_synced env s)"
proof -
  obtain s1 t where t: "clear_expired_tasks env s = (s1, t)" by fastforce
  note e = clear_expired_effect [OF t]
  have "handled s s1"
  proof (cases "t = []")
    case True
    then have "filter (\<lambda>p. \<not> expired (se_now_secs env (sb_calls s)) p) (per_receive s) = per_receive s"
      unfolding e(1) by (induction "per_receive s") (auto simp: filter_empty_conv)
    then show ?thesis using e(2) True by (simp add: handled_def stable_ok_def values_ok_def awake_def next_task_def)
  next
    case False
    then show ?thesis using e(2) by (simp add: handled_def stable_ok_def values_ok_def distinct_map_filter)
  qed
  moreover have "handled s1 ((mark_all env Failed t s1)\<lparr>synced_notify := True\<rparr>)"
    unfolding mark_all_eq by (simp add: handled_def stable_ok_def values_ok_def awake_def next_task_def)
  ultimately show ?thesis unfolding process_synced_def t by (auto intro: handled_trans)
qed

lemma set_active_token_handled: "handled s (fst (set_active_token env label s))"
proof -
  let ?s1 = "mark_all env Failed (queued s) (s\<lparr>per_receive := [], pending_task := None, sb_storage := pending_written env [] (sb_storage s)\<rparr>)"
  obtain s2 r where r: "choose_active_token env label ?s1 = (s2, r)" by fastforce
  have "handled s ?s1" unfolding mark_all_eq
    by (simp add: handled_def stable_ok_def values_ok_def awake_empty)
  moreover have "handled ?s1 s2" using r unfolding mark_all_eq
    by (auto simp: choose_active_token_def cl_bind_def cl_map_err_def cl_return_def save_stable_balance_active_label_def
        delete_stable_balance_active_label_def on_storage_def push_deactivation_def Let_def handled_def stable_ok_def values_ok_def
        awake_empty split: option.splits sum.splits prod.splits)
  moreover have "handled s2 (s2\<lparr>active_token := t, effective_values := None\<rparr>)" for t
    by (simp add: handled_def stable_ok_def values_ok_def awake_def next_task_def)
  ultimately show ?thesis
    using r by (cases r) (auto simp: set_active_token_def clear_queue_effect cl_bind_def Let_def intro: handled_trans
        handled_trans [OF _ push_auto_convert_handled])
qed

lemma apply_op_handled: "handled s (apply_op env oper s)"
proof (cases oper)
  case (EventOp e)
  then show ?thesis using process_payment_handled [of s env] process_synced_handled [of s env]
    by (cases e) (auto simp: stable_process_def split: prod.splits, metis fst_conv)
next
  case DropGuard
  then show ?thesis by (simp add: handled_def drop_payment_guard_def stable_ok_def values_ok_def)
next
  case AcquireGuard
  then show ?thesis by (simp add: acquire_payment_guard_def handled_def stable_ok_def values_ok_def awake_def next_task_def)
qed (simp add: set_active_token_handled)

section \<open>Conversions\<close>

definition queue_kept :: "'s StableBalance \<Rightarrow> 's StableBalance \<Rightarrow> bool" where
  "queue_kept s s' \<longleftrightarrow> sb_config s' = sb_config s \<and> active_token s' = active_token s \<and> per_receive s' = per_receive s
     \<and> pending_task s' = pending_task s \<and> queue_notify s' = queue_notify s \<and> payment_counter s' = payment_counter s
     \<and> (values_ok s \<longrightarrow> values_ok s')"

lemma queue_kept_refl [simp]: "queue_kept s s" and queue_kept_trans: "queue_kept a b \<Longrightarrow> queue_kept b c \<Longrightarrow> queue_kept a c"
  by (auto simp: queue_kept_def)

lemma queue_kept_fields [simp]:
  "queue_kept s (s\<lparr>sb_calls := c, sb_requests := q, sb_storage := d\<rparr>)" "queue_kept s (s\<lparr>sb_storage := d\<rparr>)"
  by (simp_all add: queue_kept_def values_ok_def)

lemma storage_queue_kept: "storage_kept s s' \<Longrightarrow> (values_ok s \<Longrightarrow> values_ok s') \<Longrightarrow> queue_kept s s'"
  by (simp add: queue_kept_def stable_frames)

lemma queue_kept_ok: "queue_kept s s' \<Longrightarrow> stable_ok s \<Longrightarrow> stable_ok s'"
  by (simp add: queue_kept_def stable_ok_def)

lemma insert_metadata_effect:
  "insert_metadata env i m s = (s', r) \<Longrightarrow>
     s' = s\<lparr>sb_storage := fst (s_insert_payment_metadata (se_storage env) i m (sb_storage s))\<rparr>"
  by (auto simp: insert_metadata_def conv_storage_def cl_map_err_def on_storage_def split: prod.splits)

lemma call_convert_effect:
  "call_convert env req s = (s', r) \<Longrightarrow> s' = s\<lparr>sb_calls := Suc (sb_calls s), sb_requests := sb_requests s @ [req],
     sb_storage := fst (se_convert env (sb_calls s) req (sb_storage s))\<rparr>"
  by (auto simp: call_convert_def split: prod.splits)

lemma convert_balance_effect:
  assumes "convert_balance env options tid amount s = (s', r)"
  shows "queue_kept s s' \<and> sb_requests s' = sb_requests s @ [\<lparr>cr_options = options, cr_purpose = AutoConversion,
    cr_token_identifier = Some tid, cr_amount = AmountIn amount, cr_transfer_id = None\<rparr>]"
  using assms unfolding convert_balance_def
  by (elim cl_bind_cases) (auto simp: cl_return_def queue_kept_def values_ok_def dest!: call_convert_effect insert_metadata_effect)

lemma convert_received_effect:
  assumes "convert_received env pid tid amount s = (s', r)"
  shows "queue_kept s s' \<and> sb_requests s' = sb_requests s @ [\<lparr>cr_options = from_btc_options s, cr_purpose = AutoConversion,
    cr_token_identifier = Some tid, cr_amount = AmountIn amount, cr_transfer_id = Some (per_receive_transfer_id env pid)\<rparr>]"
  using assms unfolding convert_received_def Let_def
  by (elim cl_bind_cases) (auto simp: cl_return_def queue_kept_def values_ok_def dest!: call_convert_effect insert_metadata_effect)

text \<open>The request for a received payment: the payment was read from the storage and is no part of a conversion itself, and no payment
  is stored under the identifier that the conversion is going to have.\<close>

definition received_request :: "'s stable_env \<Rightarrow> string \<Rightarrow> 's StableBalance \<Rightarrow> conversion_request \<Rightarrow> bool" where
  "received_request env pid s req \<longleftrightarrow> (\<exists>tok p d d' e. active_token s = Some tok
     \<and> s_get_payment_by_id (se_storage env) pid (sb_storage s) = (d, Ok p) \<and> \<not> has_conversion_info p
     \<and> s_get_payment_by_id (se_storage env) (per_receive_transfer_id env pid) d = (d', Err e)
     \<and> req = \<lparr>cr_options = from_btc_options s, cr_purpose = AutoConversion, cr_token_identifier = Some (sbt_token_identifier tok),
         cr_amount = AmountIn (p_amount p), cr_transfer_id = Some (per_receive_transfer_id env pid)\<rparr>)"

lemma per_receive_convert_effect:
  assumes "per_receive_convert env pid s = (s', r)"
  shows "queue_kept s s' \<and> (sb_requests s' = sb_requests s \<or> (\<exists>req. sb_requests s' = sb_requests s @ [req] \<and> received_request env pid s req))"
proof (cases "active_token s")
  case None
  then show ?thesis using assms by (simp add: per_receive_convert_def get_active_token_identifier_def)
next
  case (Some tok)
  let ?S = "se_storage env" and ?tid = "sbt_token_identifier tok" and ?i = "per_receive_transfer_id env pid"
  obtain d q where g: "s_get_payment_by_id ?S pid (sb_storage s) = (d, q)" by fastforce
  let ?s1 = "s\<lparr>sb_storage := d\<rparr>"
  show ?thesis
  proof (cases q)
    case (Inl e)
    then show ?thesis using assms Some g
      by (auto simp: per_receive_convert_def get_active_token_identifier_def cl_bind_def conv_storage_def cl_map_err_def on_storage_def map_err_def)
  next
    case (Inr p)
    obtain s2 v where v: "get_or_init_effective_values env ?tid ?s1 = (s2, v)" by fastforce
    have k2: "queue_kept s s2"
      by (rule queue_kept_trans [OF _ storage_queue_kept [OF withinD [OF effective_values_kept v]]])
        (simp_all add: effective_values_spec(1) [OF _ v])
    have f2: "sb_storage s2 = d" "sb_requests s2 = sb_requests s" "from_btc_options s2 = from_btc_options s"
      using withinD [OF effective_values_kept v] by (simp_all add: stable_frames from_btc_options_def)
    obtain d' t where t: "s_get_payment_by_id ?S ?i d = (d', t)" by fastforce
    let ?s3 = "s2\<lparr>sb_storage := d'\<rparr>"
    have k3: "queue_kept s ?s3" by (rule queue_kept_trans [OF k2]) simp
    obtain s4 r4 where c: "convert_received env pid ?tid (p_amount p) ?s3 = (s4, r4)" by fastforce
    have f3: "from_btc_options ?s3 = from_btc_options s" using f2(3) by (simp add: from_btc_options_def)
    note e = convert_received_effect [OF c, unfolded f3]
    have k4: "queue_kept s s4" using e queue_kept_trans [OF k3] by blast
    have q4: "sb_requests s4 = sb_requests s @ [\<lparr>cr_options = from_btc_options s, cr_purpose = AutoConversion,
        cr_token_identifier = Some ?tid, cr_amount = AmountIn (p_amount p), cr_transfer_id = Some ?i\<rparr>]"
      using e f2(2) by simp
    have "(s' = ?s1 \<or> s' = s2 \<or> s' = ?s3) \<or> (s' = s4 \<and> \<not> has_conversion_info p \<and> (\<exists>e. t = Err e))"
      using assms Some g Inr v f2(1) t c
      by (cases v; cases t) (auto simp: per_receive_convert_def get_active_token_identifier_def cl_bind_def conv_storage_def cl_map_err_def
          on_storage_def map_err_def cl_return_def split: if_splits)
    then show ?thesis
    proof (elim disjE conjE)
      assume "s' = s4" "\<not> has_conversion_info p" "\<exists>e. t = Err e"
      then have "received_request env pid s \<lparr>cr_options = from_btc_options s, cr_purpose = AutoConversion,
        cr_token_identifier = Some ?tid, cr_amount = AmountIn (p_amount p), cr_transfer_id = Some ?i\<rparr>"
        using Some g Inr t unfolding received_request_def by blast
      then show ?thesis using k4 q4 \<open>s' = s4\<close> by blast
    qed (use k2 k3 f2(2) in simp_all)
  qed
qed

lemma process_per_receive_effect:
  assumes "process_per_receive env pid s = (s', r)"
  shows "queue_kept s s' \<and> (sb_requests s' = sb_requests s \<or> (\<exists>req. sb_requests s' = sb_requests s @ [req] \<and> received_request env pid s req))"
proof -
  obtain s1 c where c: "per_receive_convert env pid s = (s1, c)" by fastforce
  have "s' = s1 \<or> s' = s1\<lparr>sb_storage := status_written env Completed pid (sb_storage s1)\<rparr>"
    using assms c by (cases c) (auto simp: process_per_receive_def set_conversion_status_eq split: if_splits)
  then show ?thesis using per_receive_convert_effect [OF c] queue_kept_fields(2) [of s1] by (auto intro: queue_kept_trans)
qed

lemma deactivation_effect:
  assumes "deactivation_convert env tid s = (s', r)"
  shows "queue_kept s s' \<and> (sb_requests s' = sb_requests s \<or> (\<exists>balances amount.
    se_get_token_balances env (sb_calls s) = Ok balances \<and> amount = token_balance_of tid balances \<and> 0 < amount
    \<and> sb_requests s' = sb_requests s @ [\<lparr>cr_options = \<lparr>co_conversion_type = ToBitcoin tid,
        co_max_slippage_bps = sbc_max_slippage_bps (sb_config s), co_completion_timeout_secs = None\<rparr>,
        cr_purpose = AutoConversion, cr_token_identifier = Some tid, cr_amount = AmountIn amount, cr_transfer_id = None\<rparr>]))"
proof -
  have c: "queue_kept s (s\<lparr>sb_calls := n\<rparr>)" for n by (simp add: queue_kept_def values_ok_def)
  show ?thesis using assms unfolding deactivation_convert_def Let_def
    by (elim cl_bind_cases) (auto simp: outside_def cl_return_def c split: if_splits elim!: cl_bind_cases
        dest!: convert_balance_effect intro: queue_kept_trans [OF c])
qed

section \<open>Reachable states\<close>

definition stable_init :: "'s stable_env \<Rightarrow> 's StableBalance \<times> worker \<Rightarrow> bool" where
  "stable_init env sw \<longleftrightarrow> (\<exists>config d. sw = (new_stable_balance env config d, Starting))"

definition system_ok :: "'s StableBalance \<times> worker \<Rightarrow> bool" where
  "system_ok sw = (case sw of (s, w) \<Rightarrow> stable_ok s \<and> (w = WaitingForTask \<longrightarrow> awake s)
     \<and> (\<forall>options tid balance. w = Prepared (options, tid, balance) \<longrightarrow>
          options = from_btc_options s \<and> (\<forall>t. sbc_threshold_sats (sb_config s) = Some t \<longrightarrow> t \<le> balance)))"

lemma from_btc_options_cong: "sb_config s' = sb_config s \<Longrightarrow> from_btc_options s' = from_btc_options s"
  by (simp add: from_btc_options_def)

lemma worker_start_ok: "stable_ok s \<Longrightarrow> stable_ok (worker_start env s)"
proof -
  assume ok: "stable_ok s"
  let ?s1 = "case get_active_token_identifier s of None \<Rightarrow> s | Some tid \<Rightarrow> fst (get_or_init_effective_values env tid s)"
  have "queue_kept s ?s1"
  proof (cases "get_active_token_identifier s")
    case (Some tid)
    obtain s1 v where v: "get_or_init_effective_values env tid s = (s1, v)" by fastforce
    with storage_queue_kept [OF withinD [OF effective_values_kept v] effective_values_spec(1) [OF _ v]] Some show ?thesis by simp
  qed simp
  then have ok1: "stable_ok ?s1" using ok by (rule queue_kept_ok)
  have "stable_ok (recover_pending_conversions env s)" if "stable_ok s" for s
    using that restore_distinct
    by (auto simp: recover_pending_conversions_def on_storage_def persist_pending_eq stable_ok_def values_ok_def
        split: prod.splits sum.splits option.splits)
  then show ?thesis unfolding worker_start_def using ok1 by blast
qed

lemma finish_task_ok: "stable_ok s \<Longrightarrow> stable_ok (finish_task env t r s)"
  by (cases t; cases r) (auto simp: finish_task_def complete_task_def defer_task_effect persist_pending_eq trigger_sync_def
      clear_pending_auto_convert_def stable_ok_def values_ok_def Let_def distinct_map_filter)

lemma dust_values:
  "produces_token_dust env tid options balance s = (s', b) \<Longrightarrow> effective_values s' = effective_values s \<and> sb_config s' = sb_config s"
  by (auto simp: produces_token_dust_def outside_def Let_def split: prod.splits option.splits sum.splits if_splits)

lemma prepare_values:
  assumes "values_ok s" and "prepare_auto_convert env s = (s', r)"
  shows "values_ok s'"
proof (cases "get_active_token_identifier s")
  case None
  then show ?thesis using assms by (simp add: prepare_auto_convert_def)
next
  case (Some tid)
  let ?s1 = "s\<lparr>sb_calls := Suc (sb_calls s)\<rparr>"
  have v1: "values_ok ?s1" using assms(1) by (simp add: values_ok_def)
  obtain s2 v where v: "get_or_init_effective_values env tid ?s1 = (s2, v)" by fastforce
  note v2 = effective_values_spec(1) [OF v1 v]
  have v3: "values_ok s3" if "produces_token_dust env tid (from_btc_options s2) balance s2 = (s3, b)" for balance s3 b
    using dust_values [OF that] v2 by (simp add: values_ok_cong [of s3 s2])
  consider "0 < payment_counter s" | e where "se_get_balance env (sb_calls s) = Err e" "payment_counter s = 0"
    | balance where "payment_counter s = 0" "se_get_balance env (sb_calls s) = Ok balance"
    by (cases "se_get_balance env (sb_calls s)") auto
  then show ?thesis
  proof cases
    case (3 balance)
    obtain s3 b where d: "produces_token_dust env tid (from_btc_options s2) balance s2 = (s3, b)" by fastforce
    have "s' = s2 \<or> s' = s3" using assms(2) Some 3 v d
      by (cases v; cases b) (auto simp: prepare_auto_convert_def cl_bind_def outside_def split: if_splits)
    then show ?thesis using v2 v3 [OF d] by blast
  qed (use assms Some v1 in \<open>auto simp: prepare_auto_convert_def cl_bind_def outside_def\<close>)
qed

lemma prepared_ok:
  assumes "stable_ok s" and "prepare_auto_convert env s = (s', r)"
  shows "stable_ok s'" and "r = Ok (Some (options, tid, balance)) \<Longrightarrow>
    options = from_btc_options s' \<and> (\<forall>t. sbc_threshold_sats (sb_config s') = Some t \<longrightarrow> t \<le> balance)"
proof -
  note k = prepare_effect(1) [OF assms(2)]
  have v: "values_ok s" using assms(1) by (simp add: stable_ok_def)
  then have v1: "values_ok (s\<lparr>sb_calls := c\<rparr>)" for c by (simp add: values_ok_def)
  show "options = from_btc_options s' \<and> (\<forall>t. sbc_threshold_sats (sb_config s') = Some t \<longrightarrow> t \<le> balance)"
    if "r = Ok (Some (options, tid, balance))"
  proof -
    from prepare_effect(2) [OF assms(2) that] obtain tok :: StableBalanceToken and bal th m s2
      where g: "get_or_init_effective_values env (sbt_token_identifier tok) (s\<lparr>sb_calls := Suc (sb_calls s)\<rparr>) = (s2, Ok (th, m))"
        and "th \<le> bal" "(options, tid, balance) = (from_btc_options s, sbt_token_identifier tok, bal)" by blast
    with effective_values_spec(2) [OF v1 g refl] k show ?thesis by (auto simp: stable_frames from_btc_options_def)
  qed
  have "values_ok s'" by (rule prepare_values [OF v assms(2)])
  then show "stable_ok s'" using assms(1) k by (simp add: stable_ok_def stable_frames)
qed

lemma new_stable_ok: "stable_ok (new_stable_balance env config d)"
  by (cases "resolve_initial_token env config d") (simp add: new_stable_balance_def stable_ok_def values_ok_def)

lemma system_ok_step:
  assumes "system_ok sw" and "stable_step env sw sw'"
  shows "system_ok sw'"
  using assms(2,1)
proof (cases rule: stable_step.cases)
  case (other s w oper)
  then show ?thesis using assms(1) apply_op_handled [of s env oper]
    from_btc_options_cong [of "apply_op env oper s" s]
    by (auto simp: system_ok_def handled_def)
next
  case (start s)
  then show ?thesis using assms(1) worker_start_ok by (auto simp: system_ok_def)
next
  case (first_sync s)
  then show ?thesis using assms(1) by (auto simp: system_ok_def push_auto_convert_def stable_ok_def values_ok_def)
next
  case (received pid s s' r)
  then show ?thesis using assms(1) process_per_receive_effect [of env pid s s' r] queue_kept_ok [of s s'] by (auto simp: system_ok_def)
next
  case (prepared s s' plan)
  then show ?thesis using assms(1) prepared_ok [of s env s'] by (auto simp: system_ok_def)
next
  case (unprepared s s' r e)
  then show ?thesis using assms(1) prepared_ok(1) [of s env s' r] by (auto simp: system_ok_def)
next
  case (performed plan s s' r)
  moreover have "queue_kept s s'" using performed(3)
    by (auto simp: perform_auto_convert_def split: prod.splits if_splits dest!: convert_balance_effect)
  ultimately show ?thesis using assms(1) queue_kept_ok [of s s'] by (auto simp: system_ok_def)
next
  case (deactivated tid s s' r)
  then show ?thesis using assms(1) deactivation_effect [of env tid s s' r] queue_kept_ok [of s s'] by (auto simp: system_ok_def)
next
  case (finish s t r)
  then show ?thesis using assms(1) finish_task_ok by (auto simp: system_ok_def)
next
  case (wake s)
  then show ?thesis using assms(1) by (auto simp: system_ok_def stable_ok_def values_ok_def)
qed (use assms(1) in \<open>auto simp: system_ok_def awake_def\<close>)

interpretation stable_system: invariant_system "stable_init env" "stable_step env" system_ok for env
proof unfold_locales
  show "stable_init env sw \<Longrightarrow> system_ok sw" for sw
    by (auto simp: stable_init_def system_ok_def new_stable_ok)
qed (rule system_ok_step)

text \<open>C30. No work is slept on: whenever the worker waits although a task is ready, its wake-up is pending, whatever sequence of
  events, changes of the token and payments has led there. No payment is queued twice.\<close>

theorem worker_never_sleeps_on_work:
  assumes "reachable (stable_init env) (stable_step env) (s, w)"
  shows "distinct (queued s) \<and> (w = WaitingForTask \<longrightarrow> next_task s = None \<or> stable_step env (s, w) (s\<lparr>queue_notify := False\<rparr>, Draining))"
  using stable_system.reachable_inv [OF assms] stable_step.wake [of s env] by (auto simp: system_ok_def stable_ok_def awake_def)

text \<open>The order of the queue: an automatic or deactivation conversion is taken only when no received payment is waiting or deferred,
  and among received payments the first that is ready.\<close>

lemma next_task_order:
  assumes "next_task s = Some t" and "stable_ok s"
  shows "case t of
      PerReceive pid \<Rightarrow> (\<exists>before p rest. per_receive s = before @ p # rest \<and> pc_payment_id p = pid \<and> pc_state p = Ready
        \<and> (\<forall>b \<in> set before. pc_state b = Deferred))
    | _ \<Rightarrow> per_receive s = [] \<and> pending_task s = Some t"
proof (cases "find (\<lambda>p. pc_state p \<noteq> Deferred) (per_receive s)")
  case None
  then show ?thesis using assms by (auto simp: next_task_def stable_ok_def split: if_splits ConversionTask.split)
next
  case (Some p)
  then obtain i where i: "i < length (per_receive s)" "per_receive s ! i = p" "pc_state p \<noteq> Deferred"
    "\<forall>j < i. pc_state (per_receive s ! j) = Deferred" by (auto simp: find_Some_iff)
  have "per_receive s = take i (per_receive s) @ p # drop (Suc i) (per_receive s)" using id_take_nth_drop [OF i(1)] i(2) by simp
  moreover have "\<forall>b \<in> set (take i (per_receive s)). pc_state b = Deferred" using i(1,4) by (auto simp: in_set_conv_nth)
  moreover have "pc_state p = Ready" using i(3) by (cases "pc_state p") simp_all
  ultimately have "\<exists>before q rest. per_receive s = before @ q # rest \<and> pc_payment_id q = pc_payment_id p \<and> pc_state q = Ready
    \<and> (\<forall>b \<in> set before. pc_state b = Deferred)" by blast
  moreover have "t = PerReceive (pc_payment_id p)" using assms(1) Some by (simp add: next_task_def)
  ultimately show ?thesis by (simp only: ConversionTask.case)
qed

text \<open>Why a conversion is asked for.\<close>

definition request_justified :: "'s stable_env \<Rightarrow> 's StableBalance \<Rightarrow> worker \<Rightarrow> conversion_request \<Rightarrow> bool" where
  "request_justified env s w req =
     (case w of
        Working (PerReceive pid) \<Rightarrow> received_request env pid s req
      | Prepared (options, tid, balance) \<Rightarrow> per_receive s = []
          \<and> (\<forall>t. sbc_threshold_sats (sb_config s) = Some t \<longrightarrow> t \<le> balance)
          \<and> req = \<lparr>cr_options = from_btc_options s, cr_purpose = AutoConversion, cr_token_identifier = Some tid,
              cr_amount = AmountIn balance, cr_transfer_id = None\<rparr>
      | Working (Deactivation tid) \<Rightarrow> (\<exists>balances. se_get_token_balances env (sb_calls s) = Ok balances \<and> 0 < token_balance_of tid balances
          \<and> req = \<lparr>cr_options = (from_btc_options s)\<lparr>co_conversion_type := ToBitcoin tid\<rparr>, cr_purpose = AutoConversion,
              cr_token_identifier = Some tid, cr_amount = AmountIn (token_balance_of tid balances), cr_transfer_id = None\<rparr>)
      | _ \<Rightarrow> False)"

lemma finish_task_requests [simp]: "sb_requests (finish_task env t r s) = sb_requests s"
  by (cases t; cases r) (auto simp: finish_task_def complete_task_def defer_task_effect persist_pending_eq trigger_sync_def
      clear_pending_auto_convert_def Let_def)

lemma worker_start_requests [simp]: "sb_requests (worker_start env s) = sb_requests s"
proof -
  have "sb_requests (recover_pending_conversions env s) = sb_requests s" for s
    by (auto simp: recover_pending_conversions_def on_storage_def persist_pending_eq split: prod.splits sum.splits option.splits)
  moreover have "sb_requests (fst (get_or_init_effective_values env tid s)) = sb_requests s" for tid
    using withinD [OF effective_values_kept prod.collapse [symmetric]] by (metis storage_keptD(10))
  ultimately show ?thesis by (simp add: worker_start_def split: option.split)
qed

text \<open>C27. Money is converted for a reason only. A step asks for at most one conversion. For a received payment it asks for the stored
  amount, under the identifier that every device derives for that payment, and only when no conversion with that identifier is known
  and the payment is no part of a conversion. An automatic conversion takes a balance of at least the configured threshold and
  gives way to received payments. On deactivation the whole token balance is converted.\<close>

theorem conversions_justified:
  assumes "reachable (stable_init env) (stable_step env) (s, w)" and "stable_step env (s, w) (s', w')"
  shows "sb_requests s' = sb_requests s \<or> (\<exists>req. sb_requests s' = sb_requests s @ [req] \<and> request_justified env s w req)"
  using assms(2)
proof (cases rule: stable_step.cases)
  case (other oper)
  then show ?thesis using apply_op_handled [of s env oper] by (simp add: handled_def)
next
  case (received pid r)
  then show ?thesis using process_per_receive_effect by (force simp: request_justified_def)
next
  case (performed plan r)
  have "system_ok (s, w)" by (rule stable_system.reachable_inv [OF assms(1)])
  then show ?thesis using performed
    by (auto simp: system_ok_def perform_auto_convert_def has_per_receive_def request_justified_def split: prod.splits if_splits
        dest!: convert_balance_effect)
next
  case (deactivated tid r)
  then show ?thesis using deactivation_effect [of env tid s s' r]
    by (auto simp: request_justified_def from_btc_options_def)
qed (auto simp: push_auto_convert_def stable_frames dest!: prepare_effect(1))

section \<open>Restarts\<close>

text \<open>What the queue needs from a storage beyond the settings: when it can be reached it answers, and it keeps the status of the
  conversion of a payment.\<close>

locale conversion_store = settings_store S items for S :: "'s Storage" and items +
  fixes up :: "'s \<Rightarrow> bool" and status :: "'s \<Rightarrow> string \<Rightarrow> string option"
  assumes set_up: "up d \<Longrightarrow> s_set_cached_item S k v d = (d', r) \<Longrightarrow> up d' \<and> is_ok r \<and> status d' = status d"
    and delete_up: "up d \<Longrightarrow> s_delete_cached_item S k d = (d', r) \<Longrightarrow> up d' \<and> is_ok r \<and> status d' = status d"
    and get_up: "up d \<Longrightarrow> s_get_cached_item S k d = (d', g) \<Longrightarrow> up d' \<and> is_ok g \<and> status d' = status d"
    and payment_up: "up d \<Longrightarrow> s_get_payment_by_id S i d = (d', q) \<Longrightarrow> up d' \<and> status d' = status d"
    and metadata_up: "up d \<Longrightarrow> s_insert_payment_metadata S i m d = (d', r) \<Longrightarrow>
      up d' \<and> status d' = (status d)(i := coalesce (map_option conversion_status_to_string (pm_conversion_status m)) (status d i))"
begin

lemma status_written:
  assumes "se_storage env = S" and "up d"
  shows "up (status_written env st pid d)" and "items (status_written env st pid d) = items d"
    and "status (status_written env st pid d) = (status d)(pid \<mapsto> conversion_status_to_string st)"
proof -
  obtain d' r where m: "s_insert_payment_metadata S pid (default_payment_metadata\<lparr>pm_conversion_status := Some st\<rparr>) d = (d', r)" by fastforce
  show "up (status_written env st pid d)" and "items (status_written env st pid d) = items d"
    and "status (status_written env st pid d) = (status d)(pid \<mapsto> conversion_status_to_string st)"
    using metadata_up [OF assms(2) m] other_items(1) [OF m] m assms(1)
    by (simp_all add: status_written_def coalesce_def)
qed

lemma statuses_written:
  assumes "se_storage env = S" and "up d"
  shows "up (foldl (\<lambda>d i. status_written env st i d) d is) \<and> items (foldl (\<lambda>d i. status_written env st i d) d is) = items d
    \<and> status (foldl (\<lambda>d i. status_written env st i d) d is) =
        (\<lambda>i. if i \<in> set is then Some (conversion_status_to_string st) else status d i)"
  using assms(2) by (induction "is" arbitrary: d) (auto simp: status_written [OF assms(1)] fun_eq_iff)

definition saved :: "'s stable_env \<Rightarrow> PendingConversion list \<Rightarrow> 's \<Rightarrow> bool" where
  "saved env q d \<longleftrightarrow> up d \<and> items d PENDING_CONVERSIONS_KEY = (if q = [] then None else case se_to_json env q of Ok j \<Rightarrow> Some j | Err _ \<Rightarrow> None)"

lemma pending_written:
  assumes "se_storage env = S" and "up d" and "\<And>q. is_ok (se_to_json env q)"
  shows "saved env q (pending_written env q d)" and "status (pending_written env q d) = status d"
    and "items (pending_written env q d) k = (if k = PENDING_CONVERSIONS_KEY
      then (if q = [] then None else case se_to_json env q of Ok j \<Rightarrow> Some j | Err _ \<Rightarrow> None) else items d k)"
proof -
  have "saved env q (pending_written env q d) \<and> status (pending_written env q d) = status d
    \<and> (k \<noteq> PENDING_CONVERSIONS_KEY \<longrightarrow> items (pending_written env q d) k = items d k)" for k
  proof (cases "q = []")
    case True
    obtain d' r where "s_delete_cached_item S PENDING_CONVERSIONS_KEY d = (d', r)" by fastforce
    then show ?thesis using True delete_up [OF assms(2)] delete_item assms(1)
      by (simp add: pending_written_def delete_pending_conversions_def saved_def)
  next
    case False
    obtain j where j: "se_to_json env q = Ok j" using assms(3) [of q] by (auto simp: is_ok_iff)
    obtain d' r where "s_set_cached_item S PENDING_CONVERSIONS_KEY j d = (d', r)" by fastforce
    then show ?thesis using False j set_up [OF assms(2)] set_item assms(1)
      by (simp add: pending_written_def save_pending_conversions_def saved_def)
  qed
  then show "saved env q (pending_written env q d)" and "status (pending_written env q d) = status d"
    and "items (pending_written env q d) k = (if k = PENDING_CONVERSIONS_KEY
      then (if q = [] then None else case se_to_json env q of Ok j \<Rightarrow> Some j | Err _ \<Rightarrow> None) else items d k)"
    by (auto simp: saved_def)
qed

end

abbreviation conversion_status_of :: "PaymentDb \<Rightarrow> string \<Rightarrow> string option" where
  "conversion_status_of db i \<equiv> Option.bind (hm_get (payment_metadata db) i) mr_conversion_status"

lemma metadata_status:
  "Option.bind (hm_get (upsert_row merge_metadata_row i (metadata_row m) (payment_metadata db)) j) mr_conversion_status =
     (if j = i then coalesce (map_option conversion_status_to_string (pm_conversion_status m)) (conversion_status_of db i)
      else conversion_status_of db j)"
  by (cases "hm_get (payment_metadata db) i") (auto simp: hm_get_upsert merge_metadata_row_def metadata_row_def coalesce_def split: option.split)

interpretation sqlite_conversions: conversion_store SqliteStorage "\<lambda>db. hm_get (settings db)" "\<lambda>db. pdb_connections db = []" conversion_status_of
  by unfold_locales
    (auto simp: storage_simps set_cached_item_def delete_cached_item_def get_cached_item_def sqlite_insert_payment_metadata_def
      sqlite_get_payment_by_id_def on_database_connected metadata_status fun_eq_iff)

interpretation postgres_conversions: conversion_store "PostgresStorage collation" "\<lambda>db. hm_get (settings db)" "\<lambda>db. pdb_connections db = []"
    conversion_status_of for collation
  by unfold_locales
    (auto simp: storage_simps set_cached_item_def delete_cached_item_def get_cached_item_def postgres_insert_payment_metadata_def
      postgres_get_payment_by_id_def on_database_connected metadata_status fun_eq_iff)

text \<open>Steps that may write to the storage but leave the saved queue alone.\<close>

definition softly :: "('s \<Rightarrow> bool) \<Rightarrow> ('s \<Rightarrow> string \<Rightarrow> string option) \<Rightarrow> 's StableBalance \<Rightarrow> 's StableBalance \<Rightarrow> bool" where
  "softly up items s s' \<longleftrightarrow> (up (sb_storage s) \<longrightarrow> up (sb_storage s')
     \<and> items (sb_storage s') PENDING_CONVERSIONS_KEY = items (sb_storage s) PENDING_CONVERSIONS_KEY)"

interpretation soft: step_preorder "softly up items" for up items
  by unfold_locales (auto simp: softly_def)

text \<open>The converter may write to the storage, but not to the saved queue; the JSON library reads what it wrote.\<close>

definition converter_leaves_queue :: "('s \<Rightarrow> bool) \<Rightarrow> ('s \<Rightarrow> string \<Rightarrow> string option) \<Rightarrow> 's stable_env \<Rightarrow> bool" where
  "converter_leaves_queue up items env \<longleftrightarrow> (\<forall>n req d. up d \<longrightarrow> up (fst (se_convert env n req d))
     \<and> items (fst (se_convert env n req d)) PENDING_CONVERSIONS_KEY = items d PENDING_CONVERSIONS_KEY)"

definition json_reads_back :: "'s stable_env \<Rightarrow> bool" where
  "json_reads_back env \<longleftrightarrow> (\<forall>q. \<exists>j. se_to_json env q = Ok j \<and> se_from_json env j = Ok q)"

lemma json_ok: "json_reads_back env \<Longrightarrow> is_ok (se_to_json env q)"
  unfolding json_reads_back_def by (metis is_ok_Inr)

context conversion_store
begin

lemma soft_kept: "storage_kept s s' \<Longrightarrow> softly up items s s'"
  by (simp add: softly_def stable_frames)

lemma soft_within_kept: "Prelude.within storage_kept m \<Longrightarrow> Prelude.within (softly up items) m"
  unfolding within_def using soft_kept by blast

lemma soft_metadata: "se_storage env = S \<Longrightarrow> Prelude.within (softly up items) (insert_metadata env i m)"
proof -
  assume S: "se_storage env = S"
  have "softly up items s (fst (insert_metadata env i m s))" for s
  proof -
    obtain d r where d: "s_insert_payment_metadata S i m (sb_storage s) = (d, r)" by fastforce
    then show ?thesis using metadata_up [OF _ d] other_items(1) [OF d] S
      by (simp add: softly_def insert_metadata_def conv_storage_def cl_map_err_def on_storage_def)
  qed
  then show ?thesis unfolding within_def by blast
qed

lemma soft_payment:
  assumes "se_storage env = S" and "on_storage (s_get_payment_by_id (se_storage env) i) s = (s', r)"
  shows "softly up items s s'"
proof -
  obtain d q where d: "s_get_payment_by_id S i (sb_storage s) = (d, q)" by fastforce
  then show ?thesis using payment_up [OF _ d] other_items(2) [OF d] assms by (auto simp: softly_def on_storage_def)
qed

lemma soft_get_payment: "se_storage env = S \<Longrightarrow> Prelude.within (softly up items) (conv_storage (s_get_payment_by_id (se_storage env) i))"
  unfolding conv_storage_def by (rule soft.within_map_err) (auto simp: within_def intro: soft_payment [OF _ prod.collapse [symmetric]])

lemma soft_convert: "converter_leaves_queue up items env \<Longrightarrow> Prelude.within (softly up items) (call_convert env req)"
  by (auto simp: within_def call_convert_def softly_def converter_leaves_queue_def split: prod.split) (metis fst_conv)+

lemma soft_convert_balance:
  assumes "se_storage env = S" and "converter_leaves_queue up items env"
  shows "Prelude.within (softly up items) (convert_balance env options tid amount)"
  unfolding convert_balance_def by (intro soft.within_bind soft_convert [OF assms(2)] soft_metadata [OF assms(1)] soft.within_simple)

lemma soft_convert_received:
  assumes "se_storage env = S" and "converter_leaves_queue up items env" and "convert_received env pid tid amount s = (s', r)"
  shows "softly up items s s'"
  using assms(3) unfolding convert_received_def Let_def
  by (rule withinD [rotated]) (intro soft.within_bind soft_convert [OF assms(2)] soft_metadata [OF assms(1)] soft.within_simple)

lemma soft_per_receive_convert:
  assumes "se_storage env = S" and "converter_leaves_queue up items env"
  shows "Prelude.within (softly up items) (per_receive_convert env pid)"
proof -
  let ?look = "\<lambda>active amount s3. case on_storage (s_get_payment_by_id (se_storage env) (per_receive_transfer_id env pid)) s3 of
      (s4, Ok _) \<Rightarrow> (s4, Ok False) | (s4, Err _) \<Rightarrow> convert_received env pid active amount s4"
  have look: "Prelude.within (softly up items) (?look active amount)" for active amount
  proof -
    have "softly up items s (fst (?look active amount s))" for s
    proof -
      obtain s4 q where q: "on_storage (s_get_payment_by_id (se_storage env) (per_receive_transfer_id env pid)) s = (s4, q)" by fastforce
      obtain s5 r where c: "convert_received env pid active amount s4 = (s5, r)" by fastforce
      show ?thesis using soft_payment [OF assms(1) q] soft.trans [OF _ soft_convert_received [OF assms c]] q c
        by (cases q) simp_all
    qed
    then show ?thesis unfolding within_def by blast
  qed
  have "Prelude.within (softly up items) (cl_bind (conv_storage (s_get_payment_by_id (se_storage env) pid)) (\<lambda>payment.
            if has_conversion_info payment then cl_return False
            else cl_bind (get_or_init_effective_values env active) (\<lambda>(_, min_from).
              if min (p_amount payment) (2 ^ 64 - 1) < min_from then cl_return False else ?look active (p_amount payment))))" for active
    by (intro soft.within_bind soft_get_payment [OF assms(1)] within_if soft.within_simple soft_within_kept [OF effective_values_kept])
      (auto intro!: within_if soft.within_simple look split: prod.split)
  then show ?thesis unfolding within_def per_receive_convert_def by (auto split: option.split simp: soft.refl)
qed

lemma soft_process_per_receive:
  assumes "se_storage env = S" and "converter_leaves_queue up items env" and "process_per_receive env pid s = (s', r)"
  shows "softly up items s s'"
proof -
  obtain s1 c where c: "per_receive_convert env pid s = (s1, c)" by fastforce
  note soft = withinD [OF soft_per_receive_convert [OF assms(1,2)] c]
  have "softly up items s1 (s1\<lparr>sb_storage := status_written env Completed pid (sb_storage s1)\<rparr>)"
    using status_written [OF assms(1)] by (simp add: softly_def)
  with soft have "softly up items s (s1\<lparr>sb_storage := status_written env Completed pid (sb_storage s1)\<rparr>)" by (rule soft.trans)
  with soft show ?thesis using assms(3) c by (cases c) (auto simp: process_per_receive_def set_conversion_status_eq split: if_splits)
qed

lemma soft_deactivation:
  assumes "se_storage env = S" and "converter_leaves_queue up items env"
  shows "Prelude.within (softly up items) (deactivation_convert env tid)"
proof -
  have "Prelude.within (softly up items) (\<lambda>s. if b then (s, Ok False) else convert_balance env (opts s) tid amount s)" for b opts amount
    using soft_convert_balance [OF assms, of _ tid amount] by (simp add: within_def soft.refl)
  then show ?thesis unfolding deactivation_convert_def Let_def
    by (intro soft.within_bind within_if soft.within_simple soft_within_kept [OF outside_kept])
qed

end

text \<open>The saved queue is the queue.\<close>

context conversion_store
begin

definition synced_queue :: "'s stable_env \<Rightarrow> 's StableBalance \<Rightarrow> bool" where
  "synced_queue env s \<longleftrightarrow> saved env (per_receive s) (sb_storage s)"

lemma soft_queue: "softly up items s s' \<Longrightarrow> per_receive s' = per_receive s \<Longrightarrow> synced_queue env s \<Longrightarrow> synced_queue env s'"
  by (simp add: softly_def synced_queue_def saved_def)

lemma written_queue:
  assumes "se_storage env = S" and "json_reads_back env" and "synced_queue env s"
    and "sb_storage s' = pending_written env (per_receive s') (sb_storage s)"
  shows "synced_queue env s'"
proof -
  have "up (sb_storage s)" using assms(3) by (simp add: synced_queue_def saved_def)
  then show ?thesis using pending_written(1) [OF assms(1) _ json_ok [OF assms(2)]] assms(4) by (simp add: synced_queue_def)
qed

lemma marked_queue:
  assumes "se_storage env = S" and "synced_queue env s"
  shows "synced_queue env (mark_all env st is s)" and "synced_queue env (set_conversion_status env st pid s)"
proof -
  have "up (sb_storage s)" using assms(2) by (simp add: synced_queue_def saved_def)
  then show "synced_queue env (mark_all env st is s)" and "synced_queue env (set_conversion_status env st pid s)"
    using statuses_written [OF assms(1)] status_written [OF assms(1)] assms(2)
    by (simp_all add: mark_all_eq set_conversion_status_eq synced_queue_def saved_def)
qed

lemma synced_queue_fields [simp]:
  "synced_queue env (s\<lparr>synced_notify := b\<rparr>) = synced_queue env s" "synced_queue env (s\<lparr>queue_notify := b\<rparr>) = synced_queue env s"
  "synced_queue env (push_auto_convert s) = synced_queue env s"
  by (simp_all add: synced_queue_def push_auto_convert_def)

lemma push_queue:
  assumes "se_storage env = S" and "json_reads_back env" and "synced_queue env s"
  shows "synced_queue env (push_per_receive env pid s)"
proof (rule push_per_receive_effect [of pid s env])
  fix p assume e: "push_per_receive env pid s = s\<lparr>sb_calls := Suc (sb_calls s), per_receive := per_receive s @ [p],
        sb_storage := pending_written env (per_receive s @ [p]) (sb_storage s), queue_notify := True\<rparr>"
  show ?thesis by (rule written_queue [OF assms]) (simp add: e)
qed (use assms(3) in simp)

lemma payment_queue:
  assumes "se_storage env = S" and "json_reads_back env" and "synced_queue env s"
  shows "synced_queue env (fst (process_payment_succeeded env p s))"
proof -
  obtain s1 r where r: "resolve_by_conversion_payment env (p_id p) s = (s1, r)" by fastforce
  obtain s2 b where b: "should_trigger_per_receive env p s = (s2, b)" by fastforce
  note k = withinD [OF should_trigger_kept b]
  have s2: "synced_queue env s2" using soft_queue [OF soft_kept [OF k] _ assms(3)] k by (simp add: stable_frames)
  note pushed = push_queue [OF assms(1,2) marked_queue(2) [OF assms(1) s2]]
  show ?thesis
  proof (rule resolve_effect [OF r])
    fix before q rest assume res: "r = Some (pc_payment_id q)"
      and e: "s1 = s\<lparr>per_receive := before @ rest, sb_storage := pending_written env (before @ rest) (sb_storage s), queue_notify := True\<rparr>"
    have "synced_queue env s1" by (rule written_queue [OF assms]) (simp add: e)
    then show ?thesis using r res by (simp add: process_payment_succeeded_def)
  qed (use r b s2 pushed in \<open>cases b, auto simp: process_payment_succeeded_def\<close>)
qed

lemma synced_event_queue:
  assumes "se_storage env = S" and "json_reads_back env" and "synced_queue env s"
  shows "synced_queue env (process_synced env s)"
proof -
  obtain s1 t where t: "clear_expired_tasks env s = (s1, t)" by fastforce
  note e = clear_expired_effect [OF t]
  have "synced_queue env s1"
  proof (cases "t = []")
    case True
    then have "filter (\<lambda>p. \<not> expired (se_now_secs env (sb_calls s)) p) (per_receive s) = per_receive s"
      unfolding e(1) by (simp add: filter_empty_conv filter_id_conv)
    then show ?thesis using e(2) True assms(3) by (simp add: synced_queue_def)
  next
    case False
    show ?thesis by (rule written_queue [OF assms]) (simp add: e(2) False)
  qed
  then show ?thesis unfolding process_synced_def t by (simp add: marked_queue(1) [OF assms(1)])
qed

lemma label_keys: "STABLE_BALANCE_ACTIVE_LABEL_KEY \<noteq> PENDING_CONVERSIONS_KEY"
  by (simp add: STABLE_BALANCE_ACTIVE_LABEL_KEY_def PENDING_CONVERSIONS_KEY_def)

lemma choose_queue:
  assumes "se_storage env = S" and "synced_queue env s" and "choose_active_token env label s = (s', r)"
  shows "synced_queue env s'"
proof -
  have up: "up (sb_storage s)" using assms(2) by (simp add: synced_queue_def saved_def)
  obtain d1 r1 where d1: "s_set_cached_item S STABLE_BALANCE_ACTIVE_LABEL_KEY (the label) (sb_storage s) = (d1, r1)" by fastforce
  obtain d2 r2 where d2: "s_delete_cached_item S STABLE_BALANCE_ACTIVE_LABEL_KEY (sb_storage s) = (d2, r2)" by fastforce
  have "items d1 PENDING_CONVERSIONS_KEY = items (sb_storage s) PENDING_CONVERSIONS_KEY \<and> up d1"
    "items d2 PENDING_CONVERSIONS_KEY = items (sb_storage s) PENDING_CONVERSIONS_KEY \<and> up d2"
    using set_item [OF d1] set_up [OF up d1] delete_item [OF d2] delete_up [OF up d2] label_keys by auto
  moreover have "(sb_storage s' = sb_storage s \<or> sb_storage s' = d1 \<or> sb_storage s' = d2) \<and> per_receive s' = per_receive s"
    using assms(1,3) d1 d2
    by (auto simp: choose_active_token_def cl_bind_def cl_map_err_def cl_return_def save_stable_balance_active_label_def
        delete_stable_balance_active_label_def on_storage_def push_deactivation_def Let_def split: option.splits sum.splits prod.splits)
  ultimately show ?thesis using assms(2) by (auto simp: synced_queue_def saved_def)
qed

lemma set_active_queue:
  assumes "se_storage env = S" and "json_reads_back env" and "synced_queue env s"
  shows "synced_queue env (fst (set_active_token env label s))"
proof -
  let ?s0 = "s\<lparr>per_receive := [], pending_task := None, sb_storage := pending_written env [] (sb_storage s)\<rparr>"
  let ?s1 = "mark_all env Failed (queued s) ?s0"
  obtain s2 r where r: "choose_active_token env label ?s1 = (s2, r)" by fastforce
  have "synced_queue env ?s0" by (rule written_queue [OF assms]) simp
  then have "synced_queue env ?s1" by (rule marked_queue(1) [OF assms(1)])
  then have s2: "synced_queue env s2" by (rule choose_queue [OF assms(1) _ r])
  then have "synced_queue env (s2\<lparr>active_token := a, effective_values := v\<rparr>)" for a v by (simp add: synced_queue_def)
  then show ?thesis using s2 r by (cases r) (auto simp: set_active_token_def clear_queue_effect cl_bind_def Let_def)
qed

lemma apply_op_queue:
  assumes "se_storage env = S" and "json_reads_back env" and "synced_queue env s"
  shows "synced_queue env (apply_op env oper s)"
proof (cases oper)
  case (EventOp e)
  then show ?thesis using payment_queue [OF assms] synced_event_queue [OF assms] assms(3)
    by (cases e) (auto simp: stable_process_def split: prod.splits, metis fst_conv)
qed (use set_active_queue [OF assms] assms(3) in \<open>auto simp: acquire_payment_guard_def drop_payment_guard_def synced_queue_def\<close>)

lemma finish_task_queue:
  assumes "se_storage env = S" and "json_reads_back env" and "synced_queue env s"
  shows "synced_queue env (finish_task env t r s)"
proof -
  have c: "synced_queue env (complete_task env t s)" for t
  proof (cases t)
    case (PerReceive i)
    show ?thesis by (rule written_queue [OF assms]) (simp add: complete_task_def PerReceive persist_pending_eq)
  qed (use assms(3) in \<open>simp_all add: complete_task_def synced_queue_def\<close>)
  have d: "synced_queue env (defer_task env pid s)" for pid
  proof (cases "pid \<in> set (queued s)")
    case True
    show ?thesis by (rule written_queue [OF assms]) (use True in \<open>simp add: defer_task_effect\<close>)
  next
    case False
    then show ?thesis using assms(3) by (simp add: defer_task_effect)
  qed
  have e: "synced_queue env (trigger_sync s) = synced_queue env s" "synced_queue env (clear_pending_auto_convert s) = synced_queue env s" for s
    by (simp_all add: trigger_sync_def clear_pending_auto_convert_def synced_queue_def)
  show ?thesis using c d by (cases t; cases r) (auto simp: finish_task_def Let_def e)
qed

lemma step_queue:
  assumes "se_storage env = S" and "json_reads_back env" and "converter_leaves_queue up items env" and "synced_queue env s"
    and "stable_step env (s, w) (s', w')" and "w \<noteq> Starting"
  shows "synced_queue env s' \<and> w' \<noteq> Starting"
  using assms(5)
proof (cases rule: stable_step.cases)
  case (other oper)
  then show ?thesis using apply_op_queue [OF assms(1,2,4)] assms(6) by simp
next
  case (received pid r)
  then show ?thesis using soft_queue [OF soft_process_per_receive [OF assms(1,3)] _ assms(4)] process_per_receive_effect
    by (force simp: queue_kept_def)
next
  case (prepared plan)
  have "storage_kept s s'" using prepared prepare_effect(1) by blast
  then show ?thesis using soft_queue [OF soft_kept _ assms(4)] prepared by (simp add: stable_frames)
next
  case (unprepared r e)
  have "storage_kept s s'" using unprepared prepare_effect(1) by blast
  then show ?thesis using soft_queue [OF soft_kept _ assms(4)] unprepared by (simp add: stable_frames)
next
  case (performed plan r)
  obtain options tid balance where plan: "plan = (options, tid, balance)" by (cases plan)
  show ?thesis
  proof (cases "has_per_receive s")
    case True
    then show ?thesis using performed plan assms(4) by (simp add: perform_auto_convert_def)
  next
    case False
    then have c: "convert_balance env options tid balance s = (s', r)" using performed plan by (simp add: perform_auto_convert_def)
    then show ?thesis using performed soft_queue [OF withinD [OF soft_convert_balance [OF assms(1,3)] c] _ assms(4)] convert_balance_effect [OF c]
      by (simp add: queue_kept_def)
  qed
next
  case (deactivated tid r)
  then show ?thesis using soft_queue [OF withinD [OF soft_deactivation [OF assms(1,3)]] _ assms(4)] deactivation_effect
    by (force simp: queue_kept_def)
next
  case (finish t r)
  then show ?thesis using finish_task_queue [OF assms(1,2,4)] by simp
qed (use assms(4,6) in \<open>auto simp: synced_queue_def push_auto_convert_def\<close>)

end

context conversion_store
begin

lemma new_storage:
  assumes "se_storage env = S" and "up d"
  shows "up (sb_storage (new_stable_balance env config d))" and "items (sb_storage (new_stable_balance env config d)) = items d"
    and "per_receive (new_stable_balance env config d) = []"
proof -
  obtain d' g where g: "s_get_cached_item S STABLE_BALANCE_ACTIVE_LABEL_KEY d = (d', g)" by fastforce
  have "fst (resolve_initial_token env config d) = d'"
    using g assms(1) by (auto simp: resolve_initial_token_def fetch_stable_balance_active_label_def split: sum.splits option.splits)
  then show "up (sb_storage (new_stable_balance env config d))" and "items (sb_storage (new_stable_balance env config d)) = items d"
    and "per_receive (new_stable_balance env config d) = []"
    using get_up [OF assms(2) g] get_item [OF g]
    by (cases "resolve_initial_token env config d", simp add: new_stable_balance_def)+
qed

text \<open>Starting on a storage that holds a saved queue brings the queue back.\<close>

lemma start_restores:
  assumes "se_storage env = S" and "json_reads_back env" and "saved env q d" and "distinct (map pc_payment_id q)"
  shows "per_receive (worker_start env (new_stable_balance env config d)) = q"
    and "synced_queue env (worker_start env (new_stable_balance env config d))"
proof -
  let ?n = "new_stable_balance env config d"
  let ?s1 = "case get_active_token_identifier ?n of None \<Rightarrow> ?n | Some tid \<Rightarrow> fst (get_or_init_effective_values env tid ?n)"
  have "up d" using assms(3) by (simp add: saved_def)
  note n = new_storage [OF assms(1) this, of config]
  have "storage_kept ?n (fst (get_or_init_effective_values env tid ?n))" for tid
    using effective_values_kept [of env tid] by (simp add: within_def)
  then have "storage_kept ?n ?s1" by (cases "get_active_token_identifier ?n") simp_all
  then have s1: "up (sb_storage ?s1)" "items (sb_storage ?s1) = items d" "per_receive ?s1 = []"
    using n by (simp_all add: stable_frames)
  obtain d' g where g: "s_get_cached_item S PENDING_CONVERSIONS_KEY (sb_storage ?s1) = (d', g)" by fastforce
  have d': "up d'" "items d' = items d" "g = Ok (items d PENDING_CONVERSIONS_KEY)"
    using get_up [OF s1(1) g] get_item [OF g] s1(2) by (auto simp: is_ok_iff)
  have "per_receive (worker_start env ?n) = q \<and> synced_queue env (worker_start env ?n)"
  proof (cases "q = []")
    case True
    then have "worker_start env ?n = ?s1\<lparr>sb_storage := d'\<rparr>" using g d' assms(1,3)
      by (simp add: worker_start_def recover_pending_conversions_def on_storage_def fetch_pending_conversions_def saved_def)
    then show ?thesis using True d' s1(3) assms(3) by (simp add: synced_queue_def saved_def)
  next
    case False
    obtain j where j: "se_to_json env q = Ok j" "se_from_json env j = Ok q" using assms(2) by (auto simp: json_reads_back_def)
    have "restore_entries [] q = q" using restore_fresh [of "[]" q] assms(4) by simp
    then have w: "worker_start env ?n = ?s1\<lparr>per_receive := q, sb_storage := pending_written env q d'\<rparr>"
      using g d' j assms(1,3) False s1(3)
      by (simp add: worker_start_def recover_pending_conversions_def on_storage_def fetch_pending_conversions_def saved_def persist_pending_eq)
    then show ?thesis using pending_written(1) [OF assms(1) d'(1) json_ok [OF assms(2)]] by (simp add: synced_queue_def)
  qed
  then show "per_receive (worker_start env ?n) = q" and "synced_queue env (worker_start env ?n)" by blast+
qed

lemma restart_brings_back:
  assumes "se_storage env = S" and "json_reads_back env" and "converter_leaves_queue up items env"
    and "up d" and "items d PENDING_CONVERSIONS_KEY = None"
    and "(stable_step env)\<^sup>*\<^sup>* (worker_start env (new_stable_balance env config d), AwaitingSync) (s, w)"
  shows "per_receive (worker_start env (new_stable_balance env config' (sb_storage s))) = per_receive s"
proof -
  have i: "saved env [] d" using assms(4,5) by (simp add: saved_def)
  have "system_ok (s, w) \<and> synced_queue env s \<and> w \<noteq> Starting"
    using assms(6)
  proof (induction rule: rtranclp_induct2)
    case refl
    show ?case using start_restores(2) [OF assms(1,2) i] worker_start_ok [OF new_stable_ok] by (simp add: system_ok_def)
  next
    case (step s w s' w')
    then show ?case using step_queue [OF assms(1-3)] system_ok_step by blast
  qed
  then show ?thesis using start_restores(1) [OF assms(1,2)] by (simp add: synced_queue_def system_ok_def stable_ok_def)
qed

end

text \<open>The environment of an application: one of the two databases, a converter that leaves the saved queue alone, and a JSON library that
  reads what it wrote.\<close>

definition application_env :: "PaymentDb stable_env \<Rightarrow> bool" where
  "application_env env \<longleftrightarrow> (se_storage env = SqliteStorage \<or> (\<exists>collation. se_storage env = PostgresStorage collation))
     \<and> json_reads_back env
     \<and> converter_leaves_queue (\<lambda>db. pdb_connections db = []) (\<lambda>db. hm_get (settings db)) env"

text \<open>C28. Received payments that wait for their conversion survive a restart: once the first start has read the storage, whatever events,
  changes and conversions follow, a program that is started again on the storage has the same payments in its queue, in the same
  order and state, provided that the database could be reached.\<close>

theorem restart_restores_queue:
  assumes "application_env env" and "pdb_connections d = []" and "hm_get (settings d) PENDING_CONVERSIONS_KEY = None"
    and "(stable_step env)\<^sup>*\<^sup>* (worker_start env (new_stable_balance env config d), AwaitingSync) (s, w)"
  shows "per_receive (worker_start env (new_stable_balance env config' (sb_storage s))) = per_receive s"
  using assms sqlite_conversions.restart_brings_back [of env d config s w config'] postgres_conversions.restart_brings_back [of env _ d config s w config']
  by (auto simp: application_env_def)

section \<open>How waiting payments are settled\<close>

lemma finish_leaves:
  assumes "pid \<in> set (queued s)" and "pid \<notin> set (queued (finish_task env t r s))"
  shows "\<exists>converted. t = PerReceive pid \<and> r = Done converted"
  using assms
  by (cases t; cases r) (auto simp: finish_task_def complete_task_def defer_task_effect persist_pending_eq trigger_sync_def
      clear_pending_auto_convert_def Let_def split: if_splits)

context conversion_store
begin

lemma synced_settles:
  assumes "se_storage env = S" and "json_reads_back env" and "up (sb_storage s)"
    and "pid \<in> set (queued s)" and "pid \<notin> set (queued (process_synced env s))"
  shows "status (sb_storage (process_synced env s)) pid = Some (conversion_status_to_string Failed)"
proof -
  obtain s1 t where t: "clear_expired_tasks env s = (s1, t)" by fastforce
  note e = clear_expired_effect [OF t]
  have q: "per_receive (process_synced env s) = per_receive s1" "sb_storage (process_synced env s) = sb_storage (mark_all env Failed t s1)"
    by (simp_all add: process_synced_def t push_auto_convert_def mark_all_eq)
  have "pid \<in> set t" using assms(4,5) unfolding q(1) e by auto
  moreover have "up (sb_storage s1)" using assms(3) pending_written(1) [OF assms(1,3) json_ok [OF assms(2)]] by (auto simp: e(2) saved_def)
  ultimately show ?thesis using statuses_written [OF assms(1)] by (simp add: q(2) mark_all_eq)
qed

lemma choose_status:
  assumes "se_storage env = S" and "up (sb_storage s)" and "choose_active_token env label s = (s', r)"
  shows "status (sb_storage s') = status (sb_storage s)"
proof -
  obtain d1 r1 where d1: "s_set_cached_item S STABLE_BALANCE_ACTIVE_LABEL_KEY (the label) (sb_storage s) = (d1, r1)" by fastforce
  obtain d2 r2 where d2: "s_delete_cached_item S STABLE_BALANCE_ACTIVE_LABEL_KEY (sb_storage s) = (d2, r2)" by fastforce
  have "sb_storage s' = sb_storage s \<or> sb_storage s' = d1 \<or> sb_storage s' = d2"
    using assms(1,3) d1 d2
    by (auto simp: choose_active_token_def cl_bind_def cl_map_err_def cl_return_def save_stable_balance_active_label_def
        delete_stable_balance_active_label_def on_storage_def push_deactivation_def Let_def split: option.splits sum.splits prod.splits)
  then show ?thesis using set_up [OF assms(2) d1] delete_up [OF assms(2) d2] by auto
qed

lemma set_active_settles:
  assumes "se_storage env = S" and "json_reads_back env" and "up (sb_storage s)" and "pid \<in> set (queued s)"
  shows "status (sb_storage (fst (set_active_token env label s))) pid = Some (conversion_status_to_string Failed)"
proof -
  let ?s0 = "s\<lparr>per_receive := [], pending_task := None, sb_storage := pending_written env [] (sb_storage s)\<rparr>"
  let ?s1 = "mark_all env Failed (queued s) ?s0"
  obtain s2 r where r: "choose_active_token env label ?s1 = (s2, r)" by fastforce
  have "up (sb_storage ?s0)" using pending_written(1) [OF assms(1,3) json_ok [OF assms(2)]] by (simp add: saved_def)
  then have s1: "up (sb_storage ?s1)" "status (sb_storage ?s1) pid = Some (conversion_status_to_string Failed)"
    using statuses_written [OF assms(1)] assms(4) by (simp_all add: mark_all_eq)
  have "sb_storage (fst (set_active_token env label s)) = sb_storage s2" using r
    by (cases r) (auto simp: set_active_token_def clear_queue_effect cl_bind_def Let_def push_auto_convert_def)
  then show ?thesis using choose_status [OF assms(1) s1(1) r] s1(2) by simp
qed

lemma payment_settles:
  assumes "pid \<in> set (queued s)" and "pid \<notin> set (queued (fst (process_payment_succeeded env p s)))"
  shows "per_receive_transfer_id env pid = p_id p"
proof -
  obtain s1 r where r: "resolve_by_conversion_payment env (p_id p) s = (s1, r)" by fastforce
  obtain s2 b where b: "should_trigger_per_receive env p s = (s2, b)" by fastforce
  have q2: "per_receive s2 = per_receive s" using withinD [OF should_trigger_kept b] by (simp add: stable_frames)
  have pushed: "set (queued s) \<subseteq> set (queued (push_per_receive env (p_id p) (set_conversion_status env ConvPending (p_id p) s2)))"
    by (rule push_per_receive_effect [of "p_id p" "set_conversion_status env ConvPending (p_id p) s2" env])
      (auto simp: set_conversion_status_eq q2)
  show ?thesis
  proof (rule resolve_effect [OF r])
    assume "r = None" "s1 = s"
    then have "set (queued s) \<subseteq> set (queued (fst (process_payment_succeeded env p s)))"
      using r b pushed q2 by (cases b) (auto simp: process_payment_succeeded_def push_auto_convert_def)
    then show ?thesis using assms by blast
  qed (use assms r in \<open>auto simp: process_payment_succeeded_def\<close>)
qed

lemma step_settles:
  assumes "se_storage env = S" and "json_reads_back env" and "up (sb_storage s)"
    and "stable_step env (s, w) (s', w')" and "w \<noteq> Starting" and "pid \<in> set (queued s)" and "pid \<notin> set (queued s')"
  shows "status (sb_storage s') pid = Some (conversion_status_to_string Failed)
    \<or> (\<exists>p. per_receive_transfer_id env pid = p_id p \<and> s' = apply_op env (EventOp (PaymentSucceeded p)) s)
    \<or> (\<exists>converted. w = Finished (PerReceive pid) (Done converted))"
  using assms(4)
proof (cases rule: stable_step.cases)
  case (other oper)
  show ?thesis
  proof (cases oper)
    case (EventOp e)
    consider "e = Synced" | p where "e = PaymentSucceeded p" | "stable_process env e s = (s, Some e)"
      by (cases e) (simp_all add: stable_process_def)
    then show ?thesis
    proof cases
      case 1
      then show ?thesis using synced_settles [OF assms(1-3,6)] assms(7) other EventOp by (simp add: stable_process_def)
    next
      case (2 p)
      then have "s' = fst (process_payment_succeeded env p s)" using other EventOp by (auto simp: stable_process_def split: prod.split)
      then show ?thesis using payment_settles [OF assms(6)] assms(7) other EventOp 2 by blast
    next
      case 3
      then show ?thesis using assms(6,7) other EventOp by simp
    qed
  next
    case (SetActiveToken l)
    then show ?thesis using set_active_settles [OF assms(1-3,6)] other by simp
  qed (use assms(6,7) other in \<open>auto simp: acquire_payment_guard_def drop_payment_guard_def split: if_splits\<close>)
next
  case (received i r)
  then show ?thesis using assms(6,7) process_per_receive_effect by (force simp: queue_kept_def)
next
  case (prepared plan)
  have "storage_kept s s'" using prepared prepare_effect(1) by blast
  then show ?thesis using assms(6,7) by (simp add: stable_frames)
next
  case (unprepared r e)
  have "storage_kept s s'" using unprepared prepare_effect(1) by blast
  then show ?thesis using assms(6,7) by (simp add: stable_frames)
next
  case (performed plan r)
  then have "per_receive s' = per_receive s"
    by (auto simp: perform_auto_convert_def queue_kept_def split: prod.splits if_splits dest!: convert_balance_effect)
  then show ?thesis using assms(6,7) by simp
next
  case (deactivated tid r)
  then show ?thesis using assms(6,7) deactivation_effect by (force simp: queue_kept_def)
next
  case (finish t r)
  then show ?thesis using finish_leaves [OF assms(6)] assms(7) by blast
qed (use assms(5-7) in \<open>auto simp: push_auto_convert_def\<close>)

end


section \<open>Configuration\<close>

lemma validate_tokens_Ok:
  "validate_tokens ts labels ids = Ok ls \<longleftrightarrow> ls = labels \<union> set (map sbt_label ts) \<and> distinct (map sbt_label ts)
     \<and> distinct (map sbt_token_identifier ts) \<and> [] \<notin> set (map sbt_label ts) \<and> [] \<notin> set (map sbt_token_identifier ts)
     \<and> labels \<inter> set (map sbt_label ts) = {} \<and> ids \<inter> set (map sbt_token_identifier ts) = {}"
  by (induction ts labels ids rule: validate_tokens.induct) auto

lemma validate_config_iff:
  "validate_config claims (Some sb) = Ok () \<longleftrightarrow> 0 < claims \<and> sbc_tokens sb \<noteq> [] \<and> distinct (map sbt_label (sbc_tokens sb))
     \<and> distinct (map sbt_token_identifier (sbc_tokens sb)) \<and> [] \<notin> set (map sbt_label (sbc_tokens sb))
     \<and> [] \<notin> set (map sbt_token_identifier (sbc_tokens sb)) \<and> (\<forall>bps. sbc_max_slippage_bps sb = Some bps \<longrightarrow> bps \<le> 10000)
     \<and> (\<forall>l. sbc_default_active_label sb = Some l \<longrightarrow> l \<in> set (map sbt_label (sbc_tokens sb)))"
  by (auto simp: validate_config_def validate_tokens_Ok split: option.splits if_splits)

text \<open>A valid configuration names its tokens without ambiguity: the token that a label activates is the only one with that label.\<close>

lemma active_token_unique:
  assumes "validate_config claims (Some sb) = Ok ()" and "t \<in> set (sbc_tokens sb)"
  shows "find (\<lambda>u. sbt_label u = sbt_label t) (sbc_tokens sb) = Some t"
proof -
  have d: "distinct (map sbt_label (sbc_tokens sb))" using assms(1) by (simp add: validate_config_iff)
  obtain u where u: "find (\<lambda>u. sbt_label u = sbt_label t) (sbc_tokens sb) = Some u"
    using assms(2) by (cases "find (\<lambda>u. sbt_label u = sbt_label t) (sbc_tokens sb)") (auto simp: find_None_iff)
  then have "u \<in> set (sbc_tokens sb)" "sbt_label u = sbt_label t" by (auto simp: find_Some_iff)
  then have "u = t" using d assms(2) by (auto simp: distinct_map inj_on_def)
  with u show ?thesis by simp
qed

section \<open>Where work is lost\<close>

text \<open>A change to an unknown label is refused, but only after the queue has been emptied and its payments have been marked as failed.\<close>

lemma unknown_label_clears_queue:
  assumes "find (\<lambda>t. sbt_label t = l) (sbc_tokens (sb_config s)) = None"
  shows "\<exists>e. snd (set_active_token env (Some l) s) = Err (InvalidInput e)" and "per_receive (fst (set_active_token env (Some l) s)) = []"
    and "pending_task (fst (set_active_token env (Some l) s)) = None" and "active_token (fst (set_active_token env (Some l) s)) = active_token s"
  using assms by (simp_all add: set_active_token_def clear_queue_effect mark_all_eq choose_active_token_def cl_bind_def)

text \<open>Stable balance is deactivated while an automatic conversion is prepared: the conversion into the old token still takes place, and its
  completion removes the deactivation task, so nothing converts the tokens back.\<close>

lemma deactivation_lost:
  assumes "pending_task s = Some AutoConvert" and "per_receive s = []" and "s1 = apply_op env (SetActiveToken None) s"
    and "snd (set_active_token env None s) = Ok ()"
    and "perform_auto_convert env (options, tid, balance) s1 = (s2, r)"
  shows "active_token s1 = None" and "(stable_step env)\<^sup>*\<^sup>* (s, Prepared (options, tid, balance))
      (finish_task env AutoConvert (Done (r = Ok True)) s2, Draining)"
    and "sb_requests s2 \<noteq> sb_requests s" and "next_task (finish_task env AutoConvert (Done (r = Ok True)) s2) = None"
proof -
  have s1: "active_token s1 = None \<and> per_receive s1 = [] \<and> sb_requests s1 = sb_requests s"
    using assms(3,4) apply_op_handled [of s env "SetActiveToken None"]
    by (auto simp: set_active_token_def clear_queue_effect mark_all_eq choose_active_token_def cl_bind_def cl_map_err_def cl_return_def
        delete_stable_balance_active_label_def on_storage_def push_deactivation_def Let_def handled_def map_err_def
        split: option.splits sum.splits prod.splits)
  have c: "convert_balance env options tid balance s1 = (s2, r)" using assms(5) s1 by (simp add: perform_auto_convert_def has_per_receive_def)
  note e = convert_balance_effect [OF c]
  show "active_token s1 = None" using s1 by simp
  show "sb_requests s2 \<noteq> sb_requests s" using e s1 by simp
  show "next_task (finish_task env AutoConvert (Done (r = Ok True)) s2) = None"
    using e s1 by (simp add: finish_task_def complete_task_def trigger_sync_def next_task_def queue_kept_def Let_def)
  have "stable_step env (s, Prepared (options, tid, balance)) (s1, Prepared (options, tid, balance))"
    unfolding assms(3) by (rule stable_step.other)
  moreover have "stable_step env (s1, Prepared (options, tid, balance)) (s2, Finished AutoConvert (Done (r = Ok True)))"
    by (rule stable_step.performed [OF assms(5)])
  moreover have "stable_step env (s2, Finished AutoConvert (Done (r = Ok True))) (finish_task env AutoConvert (Done (r = Ok True)) s2, Draining)"
    by (rule stable_step.finish)
  ultimately show "(stable_step env)\<^sup>*\<^sup>* (s, Prepared (options, tid, balance))
      (finish_task env AutoConvert (Done (r = Ok True)) s2, Draining)"
    by (meson converse_rtranclp_into_rtranclp rtranclp.rtrancl_refl)
qed

text \<open>The middleware is registered before the worker has read the saved queue. A payment that arrives in between is saved alone, over the
  queue of the last session, so the worker no longer finds the payments that were waiting.\<close>

lemma early_payment_overwrites_queue:
  assumes "application_env env" and "pdb_connections (sb_storage s) = []" and "per_receive s = []"
    and "should_trigger_per_receive env p s = (s2, True)" and "s' = apply_op env (EventOp (PaymentSucceeded p)) s"
  shows "\<exists>e j. pc_payment_id e = p_id p \<and> per_receive s' = [e] \<and> se_to_json env [e] = Ok j
    \<and> hm_get (settings (sb_storage s')) PENDING_CONVERSIONS_KEY = Some j"
proof -
  let ?s3 = "set_conversion_status env ConvPending (p_id p) s2"
  have "resolve_by_conversion_payment env (p_id p) s = (s, None)"
    using assms(3) by (simp add: resolve_by_conversion_payment_def extract_Nil_code)
  then have s': "s' = push_per_receive env (p_id p) ?s3"
    using assms(4,5) by (simp add: stable_process_def process_payment_succeeded_def)
  have q2: "per_receive s2 = []" "sb_storage s2 = sb_storage s"
    using withinD [OF should_trigger_kept assms(4)] assms(3) by (simp_all add: stable_frames)
  then have q3: "per_receive ?s3 = []" by (simp add: set_conversion_status_eq)
  obtain e where e: "pc_payment_id e = p_id p" "per_receive s' = [e]" "sb_storage s' = pending_written env [e] (sb_storage ?s3)"
    by (rule push_per_receive_effect [of "p_id p" ?s3 env]) (use q3 s' in auto)
  obtain j where j: "se_to_json env [e] = Ok j" using json_ok [of env "[e]"] assms(1) by (auto simp: application_env_def is_ok_iff)
  have js: "\<And>q. is_ok (se_to_json env q)" using json_ok assms(1) by (auto simp: application_env_def)
  have "hm_get (settings (sb_storage s')) PENDING_CONVERSIONS_KEY = Some j"
    using assms(1) unfolding application_env_def
  proof (elim conjE disjE exE)
    assume S: "se_storage env = SqliteStorage"
    have "pdb_connections (sb_storage ?s3) = []"
      using sqlite_conversions.status_written(1) [OF S assms(2)] q2 by (simp add: set_conversion_status_eq)
    from sqlite_conversions.pending_written(3) [OF S this js, of "[e]" PENDING_CONVERSIONS_KEY] show ?thesis using e(3) j by simp
  next
    fix collation assume S: "se_storage env = PostgresStorage collation"
    have "pdb_connections (sb_storage ?s3) = []"
      using postgres_conversions.status_written(1) [OF S assms(2)] q2 by (simp add: set_conversion_status_eq)
    from postgres_conversions.pending_written(3) [OF S this js, of "[e]" PENDING_CONVERSIONS_KEY] show ?thesis using e(3) j by simp
  qed
  with e j show ?thesis by blast
qed

text \<open>A payment announced as pending whose conversion is then skipped, for example because the minimum has risen, leaves the queue while its
  recorded status stays pending.\<close>

lemma skipped_conversion_stays_pending:
  assumes "per_receive_convert env pid s = (s', Ok False)"
  shows "process_per_receive env pid s = (s', Done False)"
    and "finish_task env (PerReceive pid) (Done False) s' =
      s'\<lparr>per_receive := filter (\<lambda>p. pc_payment_id p \<noteq> pid) (per_receive s'),
         sb_storage := pending_written env (filter (\<lambda>p. pc_payment_id p \<noteq> pid) (per_receive s')) (sb_storage s')\<rparr>"
  using assms by (simp_all add: process_per_receive_def finish_task_def complete_task_def persist_pending_eq Let_def)

text \<open>While a payment is under way the worker drops the automatic conversion that it takes; the wake-up at the end of the payment finds no
  task.\<close>

lemma guarded_auto_convert_dropped:
  assumes "0 < payment_counter s" and "per_receive s = []" and "active_token s = Some tok"
  shows "prepare_auto_convert env s = (s, Ok None)"
    and "next_task (drop_payment_guard (finish_task env AutoConvert (Done False) s)) = None"
  using assms by (simp_all add: prepare_auto_convert_def get_active_token_identifier_def finish_task_def complete_task_def drop_payment_guard_def
      next_task_def Let_def)

text \<open>A deferred task without a time of creation never expires, and while it is there no other task is taken.\<close>

lemma undated_task_blocks:
  assumes "per_receive s = [p]" and "pc_state p = Deferred" and "pc_created_at p = 0"
  shows "per_receive (process_synced env s) = [p]" and "next_task (process_synced env s) = None"
  using assms by (simp_all add: process_synced_def clear_expired_tasks_def outside_def expired_def Let_def push_auto_convert_def next_task_def)

section \<open>Deferred conversions end\<close>

text \<open>A sync more than two minutes after its creation takes a deferred conversion out of the queue, so that it blocks other tasks no
  longer, and wakes the worker.\<close>

lemma deferred_conversion_expires:
  assumes "p \<in> set (per_receive s)" and "pc_state p = Deferred" and "0 < pc_created_at p"
    and "pc_created_at p + 120 < se_now_secs env (sb_calls s)" and "distinct (queued s)"
  shows "pc_payment_id p \<notin> set (queued (process_synced env s)) \<and> queue_notify (process_synced env s)"
proof -
  obtain s1 t where t: "clear_expired_tasks env s = (s1, t)" by fastforce
  note e = clear_expired_effect [OF t]
  have x: "expired (se_now_secs env (sb_calls s)) p" using assms(2-4) by (simp add: expired_def DEFERRED_TASK_TIMEOUT_SECS_def)
  have "t \<noteq> []" using assms(1) x unfolding e(1) by (auto simp: filter_empty_conv)
  moreover have "pc_payment_id p \<notin> set (queued s1)"
    using assms(1,5) x by (auto simp: e(2) distinct_map inj_on_def)
  ultimately show ?thesis using t e(2) by (simp add: process_synced_def mark_all_eq push_auto_convert_def)
qed

section \<open>Stable balance among the middleware\<close>

text \<open>The emitter of the SDK runs stable balance before the middleware that hides parts of conversions: a conversion that another device
  has made settles the deferred task here, and no client hears of its payments.\<close>

lemma conversion_resolved_silently:
  assumes "em_middleware em = [stable_process env, TokenConversionMiddleware]" and "internal_listeners em = []"
    and "is_conversion_child p" and "q \<in> set (per_receive s)" and "pc_state q = Deferred"
    and "per_receive_transfer_id env (pc_payment_id q) = p_id p" and "\<forall>r \<in> set (per_receive s).
      per_receive_transfer_id env (pc_payment_id r) = p_id p \<longrightarrow> r = q" and "distinct (queued s)"
  shows "pc_payment_id q \<notin> set (queued (emit em (PaymentSucceeded p) s))"
    and "emit em (PaymentSucceeded p) s = emit (em\<lparr>external_listeners := []\<rparr>) (PaymentSucceeded p) s"
proof -
  obtain s1 r where r: "resolve_by_conversion_payment env (p_id p) s = (s1, r)" by fastforce
  obtain pid where pid: "r = Some pid" using r assms(4-6)
    by (cases r) (auto simp: resolve_by_conversion_payment_def Let_def extract_None_iff split: option.splits prod.splits)
  have "process_payment_succeeded env p s = (s1, p)" using r pid by (simp add: process_payment_succeeded_def)
  then have e: "emit em' (PaymentSucceeded p) s = s1"
    if "em_middleware em' = [stable_process env, TokenConversionMiddleware]" "internal_listeners em' = []" for em'
    using that assms(3) by (simp add: emit_def notify_listeners_def stable_process_def TokenConversionMiddleware_def conversion_child_event_def)
  show "emit em (PaymentSucceeded p) s = emit (em\<lparr>external_listeners := []\<rparr>) (PaymentSucceeded p) s"
    using e [of em] e [of "em\<lparr>external_listeners := []\<rparr>"] assms(1,2) by simp
  show "pc_payment_id q \<notin> set (queued (emit em (PaymentSucceeded p) s))"
    unfolding e [OF assms(1,2)]
  proof (rule resolve_effect [OF r])
    fix before x rest assume x: "per_receive s = before @ x # rest" "per_receive_transfer_id env (pc_payment_id x) = p_id p"
      "s1 = s\<lparr>per_receive := before @ rest, sb_storage := pending_written env (before @ rest) (sb_storage s), queue_notify := True\<rparr>"
    then have "x = q" using assms(7) by simp
    then show "pc_payment_id q \<notin> set (queued s1)" using x assms(8) by auto
  qed (use pid in simp)
qed

section \<open>An example\<close>

text \<open>A text format for the saved queue in the place of JSON.\<close>

fun enc_string :: "string \<Rightarrow> string" where
  "enc_string [] = ''.''"
| "enc_string (c # cs) = CHR ''+'' # c # enc_string cs"

fun dec_string :: "string \<Rightarrow> (string \<times> string) option" where
  "dec_string (x # c # r) = (if x = CHR ''.'' then Some ([], c # r) else map_option (map_prod ((#) c) id) (dec_string r))"
| "dec_string [x] = Some ([], [])"
| "dec_string [] = None"

definition enc_pending :: "PendingConversion \<Rightarrow> string" where
  "enc_pending p = enc_string (pc_payment_id p) @ enc_string (replicate (pc_created_at p) CHR ''s'')
     @ (if pc_state p = Ready then ''R'' else ''D'')"

definition dec_pending :: "string \<Rightarrow> (PendingConversion \<times> string) option" where
  "dec_pending j =
     (case dec_string j of None \<Rightarrow> None | Some (pid, r) \<Rightarrow>
      case dec_string r of None \<Rightarrow> None | Some (n, r') \<Rightarrow>
      case r' of [] \<Rightarrow> None
      | x # r'' \<Rightarrow> Some (\<lparr>pc_payment_id = pid, pc_state = (if x = CHR ''R'' then Ready else Deferred), pc_created_at = length n\<rparr>, r''))"

fun dec_all :: "nat \<Rightarrow> string \<Rightarrow> PendingConversion list option" where
  "dec_all n [] = Some []"
| "dec_all 0 (c # cs) = None"
| "dec_all (Suc n) (c # cs) =
     (case dec_pending (c # cs) of None \<Rightarrow> None | Some (p, r) \<Rightarrow> map_option ((#) p) (dec_all n r))"

definition sample_to_json :: "PendingConversion list \<Rightarrow> StorageError + string" where
  "sample_to_json q = Ok (concat (map enc_pending q))"

definition sample_from_json :: "string \<Rightarrow> StorageError + PendingConversion list" where
  "sample_from_json j = ok_or (dec_all (length j) j) (StSerialization ''json'')"

lemma dec_string_enc: "r \<noteq> [] \<Longrightarrow> dec_string (enc_string s @ r) = Some (s, r)"
  by (induction s) (auto simp: neq_Nil_conv)

lemma enc_string_ne [simp]: "enc_string s \<noteq> []"
  by (cases s) simp_all

lemma dec_pending_enc: "dec_pending (enc_pending p @ r) = Some (p, r)"
  by (cases "pc_state p") (simp_all add: dec_pending_def enc_pending_def dec_string_enc)

lemma dec_all_enc: "length q \<le> n \<Longrightarrow> dec_all n (concat (map enc_pending q)) = Some q"
proof (induction q arbitrary: n)
  case (Cons p q)
  then obtain m where m: "n = Suc m" "length q \<le> m" by (cases n) auto
  obtain c cs where c: "enc_pending p = c # cs" by (cases "enc_pending p") (auto simp: enc_pending_def)
  have "dec_all n (concat (map enc_pending (p # q))) = (case dec_pending (enc_pending p @ concat (map enc_pending q)) of
      None \<Rightarrow> None | Some (p, r) \<Rightarrow> map_option ((#) p) (dec_all m r))" by (simp add: m(1) c)
  then show ?case using Cons.IH [OF m(2)] by (simp add: dec_pending_enc)
qed simp

lemma enc_length: "length q \<le> length (concat (map enc_pending q))"
  by (induction q) (auto simp: enc_pending_def)

lemma sample_json: "\<exists>j. sample_to_json q = Ok j \<and> sample_from_json j = Ok q"
  using dec_all_enc [OF enc_length] by (simp add: sample_to_json_def sample_from_json_def ok_or_def)

definition sample_stable_env :: "PaymentDb stable_env" where
  "sample_stable_env = \<lparr>se_storage = SqliteStorage, se_now_secs = (\<lambda>n. 1000 + n), se_now_millis = (\<lambda>n. Some (1000000 + n)),
     se_uuid_v5 = (\<lambda>s. s), se_to_json = sample_to_json, se_from_json = sample_from_json,
     se_fetch_limits = (\<lambda>n t i. Ok \<lparr>fl_min_from_amount = Some 5, fl_min_to_amount = None\<rparr>),
     se_validate = (\<lambda>n p t a. Err NoPoolsAvailable), se_convert = (\<lambda>n req d. (d, Ok \<lparr>sent_payment_id = ''sent'', received_payment_id = ''got''\<rparr>)),
     se_get_balance = (\<lambda>n. Ok 100), se_get_token_balances = (\<lambda>n. Ok [(''usd-id'', 7)])\<rparr>"

definition sample_stable_config :: StableBalanceConfig where
  "sample_stable_config = \<lparr>sbc_tokens = [\<lparr>sbt_label = ''USD'', sbt_token_identifier = ''usd-id''\<rparr>], sbc_default_active_label = Some ''USD'',
     sbc_threshold_sats = Some 50, sbc_max_slippage_bps = None\<rparr>"

lemma sample_application_env: "application_env sample_stable_env"
  by (simp add: application_env_def sample_stable_env_def json_reads_back_def sample_json converter_leaves_queue_def)

abbreviation sample_db :: PaymentDb where
  "sample_db \<equiv> empty_payment_db []"

definition sample_new :: "PaymentDb StableBalance" where
  "sample_new = new_stable_balance sample_stable_env sample_stable_config sample_db"

definition sample_started :: "PaymentDb StableBalance" where
  "sample_started = worker_start sample_stable_env sample_new"

definition sample_receive :: SdkEvent where
  "sample_receive = PaymentSucceeded \<lparr>p_id = ''pay'', p_payment_type = Receive, p_status = PayCompleted, p_amount = 80, p_fees = 0,
     p_timestamp = 1, p_method = MethodSpark, p_details = None, p_conversion_details = None\<rparr>"

definition sample_waiting :: "PaymentDb StableBalance" where
  "sample_waiting = apply_op sample_stable_env (EventOp sample_receive) sample_started"

lemma sample_new_eq: "sample_new = \<lparr>sb_config = sample_stable_config,
   active_token = Some \<lparr>sbt_label = ''USD'', sbt_token_identifier = ''usd-id''\<rparr>, sb_storage = sample_db, effective_values = None,
   per_receive = [], pending_task = None, queue_notify = False, synced_notify = False, syncs_triggered = 0, payment_counter = 0,
   sb_calls = 0, sb_requests = []\<rparr>"
  by (simp add: sample_new_def new_stable_balance_def resolve_initial_token_def fetch_stable_balance_active_label_def sample_stable_env_def
      storage_simps get_cached_item_def on_database_def pdb_connect_def empty_payment_db_def sample_stable_config_def)

lemma sample_started_eq: "sample_started = sample_new\<lparr>sb_calls := 2,
   effective_values := Some (\<lparr>ev_threshold = 50, ev_min_from_amount = 5\<rparr>, 4600001)\<rparr>"
  by (simp add: sample_started_def worker_start_def sample_new_eq get_active_token_identifier_def get_or_init_effective_values_def cell_get_def
      cell_set_def outside_def cl_bind_def sample_stable_env_def Let_def sample_stable_config_def EFFECTIVE_VALUES_TTL_MS_def sat_add_def
      recover_pending_conversions_def on_storage_def fetch_pending_conversions_def storage_simps get_cached_item_def on_database_def
      pdb_connect_def empty_payment_db_def)

lemmas sample_evaluation = sample_started_eq sample_new_eq sample_stable_env_def sample_stable_config_def stable_process_def process_synced_def
  clear_expired_tasks_def outside_def Let_def push_auto_convert_def

definition sample_synced :: "PaymentDb StableBalance" where
  "sample_synced = push_auto_convert ((apply_op sample_stable_env (EventOp Synced) sample_started)\<lparr>synced_notify := False\<rparr>)"

lemma sample_synced_eq: "sample_synced = sample_started\<lparr>sb_calls := 3, pending_task := Some AutoConvert, queue_notify := True\<rparr>"
  by (simp add: sample_synced_def sample_evaluation)

definition sample_prepared :: "PaymentDb StableBalance" where
  "sample_prepared = sample_synced\<lparr>sb_calls := 7\<rparr>"

abbreviation sample_plan :: "ConversionOptions \<times> string \<times> u64" where
  "sample_plan \<equiv> (from_btc_options sample_prepared, ''usd-id'', 100)"

lemma sample_prepares: "prepare_auto_convert sample_stable_env sample_synced = (sample_prepared, Ok (Some sample_plan))"
  by (simp add: sample_prepared_def sample_synced_eq sample_evaluation prepare_auto_convert_def get_active_token_identifier_def cl_bind_def
      get_or_init_effective_values_def cell_get_def from_btc_options_def produces_token_dust_def token_balance_of_def hm_get_def)

abbreviation sample_reachable :: "PaymentDb StableBalance \<times> worker \<Rightarrow> bool" where
  "sample_reachable \<equiv> reachable (stable_init sample_stable_env) (stable_step sample_stable_env)"

lemma reach_next: "sample_reachable a \<Longrightarrow> stable_step sample_stable_env a b \<Longrightarrow> sample_reachable b"
  by (rule reach_step)

lemma sample_reaches_start: "sample_reachable (sample_started, AwaitingSync)"
proof -
  have "sample_reachable (sample_new, Starting)" by (rule reach_init) (auto simp: stable_init_def sample_new_def)
  then show ?thesis unfolding sample_started_def by (rule reach_next) (rule stable_step.start)
qed

lemma sample_prepared_fields: "per_receive sample_prepared = []" "pending_task sample_prepared = Some AutoConvert" "sb_requests sample_prepared = []"
  by (simp_all add: sample_prepared_def sample_synced_eq sample_started_eq sample_new_eq)

lemma sample_reaches_prepared: "sample_reachable (sample_prepared, Prepared sample_plan)"
proof -
  let ?env = sample_stable_env and ?s = "apply_op sample_stable_env (EventOp Synced) sample_started"
  have "sample_reachable (?s, AwaitingSync)" by (rule reach_next [OF sample_reaches_start]) (rule stable_step.other)
  moreover have "synced_notify ?s" by (simp add: sample_evaluation)
  ultimately have "sample_reachable (sample_synced, Draining)"
    unfolding sample_synced_def by (metis reach_next stable_step.first_sync)
  moreover have "next_task sample_synced = Some AutoConvert" by (simp add: sample_synced_eq sample_started_eq sample_new_eq next_task_def)
  ultimately have "sample_reachable (sample_synced, Working AutoConvert)" by (metis reach_next stable_step.take)
  then show ?thesis by (rule reach_next) (rule stable_step.prepared [OF sample_prepares])
qed

definition sample_performed :: "PaymentDb StableBalance \<times> (ConversionError + bool)" where
  "sample_performed = perform_auto_convert sample_stable_env sample_plan sample_prepared"

lemma sample_performs: "stable_step sample_stable_env (sample_prepared, Prepared sample_plan)
    (fst sample_performed, Finished AutoConvert (Done (snd sample_performed = Ok True)))"
  by (rule stable_step.performed) (simp add: sample_performed_def)

lemma sample_performed_effect: "queue_kept sample_prepared (fst sample_performed)
    \<and> sb_requests (fst sample_performed) = [\<lparr>cr_options = from_btc_options sample_prepared, cr_purpose = AutoConversion,
      cr_token_identifier = Some ''usd-id'', cr_amount = AmountIn 100, cr_transfer_id = None\<rparr>]"
proof -
  have "convert_balance sample_stable_env (from_btc_options sample_prepared) ''usd-id'' 100 sample_prepared
      = (fst sample_performed, snd sample_performed)"
    by (simp add: sample_performed_def perform_auto_convert_def has_per_receive_def sample_prepared_fields)
  from convert_balance_effect [OF this] show ?thesis by (simp add: sample_prepared_fields)
qed

theorem conversions_justified_witness:
  "\<exists>req. sb_requests (fst sample_performed) = [req] \<and> request_justified sample_stable_env sample_prepared (Prepared sample_plan) req"
proof -
  have "sb_requests (fst sample_performed) \<noteq> sb_requests sample_prepared" using sample_performed_effect by (simp add: sample_prepared_fields)
  then show ?thesis using conversions_justified [OF sample_reaches_prepared sample_performs] by (simp add: sample_prepared_fields)
qed

definition sample_woken :: "PaymentDb StableBalance" where
  "sample_woken = apply_op sample_stable_env (EventOp Synced)
     (finish_task sample_stable_env AutoConvert (Done (snd sample_performed = Ok True)) (fst sample_performed))"

theorem worker_never_sleeps_on_work_witness:
  "next_task sample_woken = Some AutoConvert \<and> stable_step sample_stable_env (sample_woken, WaitingForTask) (sample_woken\<lparr>queue_notify := False\<rparr>, Draining)"
proof -
  let ?env = sample_stable_env
  let ?done = "finish_task ?env AutoConvert (Done (snd sample_performed = Ok True)) (fst sample_performed)"
  have q: "per_receive ?done = []" "pending_task ?done = None"
    using sample_performed_effect sample_prepared_fields
    by (simp_all add: finish_task_def complete_task_def trigger_sync_def Let_def queue_kept_def)
  have "sample_reachable (?done, Draining)"
    by (rule reach_next [OF reach_next [OF sample_reaches_prepared sample_performs]]) (rule stable_step.finish)
  moreover have "next_task ?done = None" using q by (simp add: next_task_def)
  ultimately have "sample_reachable (?done, WaitingForTask)" by (metis reach_next stable_step.drained)
  then have r: "sample_reachable (sample_woken, WaitingForTask)"
    unfolding sample_woken_def by (rule reach_next) (rule stable_step.other)
  have n: "next_task sample_woken = Some AutoConvert"
    using q by (simp add: sample_woken_def stable_process_def process_synced_def clear_expired_tasks_def outside_def Let_def
        push_auto_convert_def next_task_def)
  with worker_never_sleeps_on_work [OF r] show ?thesis by simp
qed

lemma sample_waiting_queue: "queued sample_waiting = [''pay''] \<and> pdb_connections (sb_storage sample_waiting) = []"
  by (simp add: sample_waiting_def sample_receive_def sample_evaluation process_payment_succeeded_def resolve_by_conversion_payment_def
      extract_Nil_code should_trigger_per_receive_def is_conversion_child_def get_active_token_identifier_def get_or_init_effective_values_def
      cell_get_def set_conversion_status_def on_storage_def storage_simps sqlite_insert_payment_metadata_def on_database_def pdb_connect_def
      empty_payment_db_def push_per_receive_def persist_pending_def save_pending_conversions_def sample_to_json_def set_cached_item_def)

theorem restart_restores_queue_witness:
  "queued (worker_start sample_stable_env (new_stable_balance sample_stable_env sample_stable_config (sb_storage sample_waiting))) = [''pay'']"
proof -
  have "stable_step sample_stable_env (worker_start sample_stable_env (new_stable_balance sample_stable_env sample_stable_config sample_db), AwaitingSync)
      (sample_waiting, AwaitingSync)"
    unfolding sample_waiting_def sample_started_def sample_new_def by (rule stable_step.other)
  then have "(stable_step sample_stable_env)\<^sup>*\<^sup>* (worker_start sample_stable_env (new_stable_balance sample_stable_env sample_stable_config sample_db), AwaitingSync)
      (sample_waiting, AwaitingSync)" by blast
  from restart_restores_queue [OF sample_application_env _ _ this, of sample_stable_config] show ?thesis
    using sample_waiting_queue by (simp add: empty_payment_db_def)
qed


end
