(* ===== verification/Spec2Isabelle.thy ===== *)
theory Spec2Isabelle
  imports Timelock Tree_Model Spark_Transactions Paging Unilateral_Exit Leaf_Selection Tree_Store
    Reservation_Scope Tree_Service Leaf_Optimizer Token_Store
    Postgres_Tree_Store Postgres_Tree_Agreement
    Sync_Model Sync_Storage Sync_Processor Sync_Progress
    Conversion_Pools Conversion_Client Token_Converter
    Postgres_Token_Store
    Byte_Codecs Token_Transactions Token_Service
    Payment_Model Payment_Storage Event_Emitter Stable_Balance Stable_Progress
begin

text \<open>
  A verification library for the Spark wallet at the heart of the Breez SDK.

  \<^bold>\<open>The program.\<close> A Spark wallet holds \<^emph>\<open>leaves\<close>: outputs of trees of pre-signed Bitcoin transactions, kept by
  a group of operators together with the owner. Paying means handing over leaves whose values sum exactly to
  the amount; when they do not, a service provider swaps leaves for others of the same total. Every transfer
  shortens the relative timelock of the refund transaction of a leaf, which must be renewed before it runs out,
  and an owner can always leave by broadcasting the transactions of the path from the root to the leaf. The
  code under \<open>crates/spark\<close> keeps the leaves in a store that hands out exclusive reservations, selects leaves,
  swaps and renews them, improves their denominations in the background, and keeps token outputs in a similar
  store.

  \<^bold>\<open>Theories and sources\<close> (paths under \<open>crates/spark/src\<close>).

  \<^item> \<open>Prelude\<close>: results, wrapping and saturating arithmetic on naturals, hash maps as association lists with
    distinct keys, reachable states, the locale \<open>invariant_system\<close> that turns a step-wise invariant into one
    of all reachable states, steps that may fail, and the locale \<open>step_preorder\<close> of relations kept by such steps.
  \<^item> \<open>Timelock\<close>: \<open>core/constants.rs\<close>. Sequence numbers are 32-bit words. The next refund and HTLC sequences are
    characterised on every input, and a lock of \<open>n\<close> blocks allows exactly \<open>n div 100\<close> transfers.
  \<^item> \<open>Tree_Model\<close>: \<open>tree/mod.rs\<close>, the error types, \<open>core/network.rs\<close>. Nodes, statuses, leaves by state and their
    balances, target amounts, reservations; when a node is due for renewal.
  \<^item> \<open>Spark_Transactions\<close>: \<open>utils/transactions.rs\<close>, \<open>utils/htlc_transactions.rs\<close>. Each builder is shown to spend the
    right outpoint, to account for every satoshi and to carry the right sequence.
  \<^item> \<open>Paging\<close>: \<open>utils/paging.rs\<close>. The pager returns everything a paged source serves, once and in order.
  \<^item> \<open>Unilateral_Exit\<close>: \<open>services/unilateral_exit.rs\<close>. The walk to the root is a \<open>partial_function\<close>, since the loop has no
    bound of its own; it is shown to end on every acyclic parent relation. Fee-bumping children balance.
  \<^item> \<open>Leaf_Selection\<close>: \<open>tree/select_helper.rs\<close>. Soundness and completeness of the searches.
  \<^item> \<open>Tree_Store\<close>: \<open>tree/store.rs\<close>. One function per command on the record \<open>LeavesState\<close>, and the store as a step
    relation in which callers queue commands and the processor takes the next one, with the semaphore. The
    invariant (no leaf is reserved twice, no reserved leaf can be selected, no spent leaf is usable) is kept by
    every command; the effect of a refresh, of a reservation and of its cancellation is characterised.
  \<^item> \<open>Reservation_Scope\<close>: the finalize-or-cancel scope of \<open>with_reserved_leaves\<close> and
    \<open>with_reserved_token_outputs\<close>, and the locale \<open>reservation_store\<close> of what it needs from a store. The stores in
    memory and in the database interpret it.
  \<^item> \<open>Tree_Service\<close>: \<open>tree/service.rs\<close>, \<open>check_renew_nodes\<close> of \<open>services/timelock_manager.rs\<close>. Selection with waiting, swap and
    renewal, and the comparison of operators during a refresh.
  \<^item> \<open>Postgres_Tree_Store\<close>: \<open>crates/spark-postgres/src/tree_store.rs\<close>. The same store on database tables that several
    instances share, each operation a transaction that may fail, with the invariant of the tables.
  \<^item> \<open>Postgres_Tree_Agreement\<close>: the two stores against each other, as a simulation and as equal pools after a refresh,
    and the places where they differ.
  \<^item> \<open>Leaf_Optimizer\<close>: \<open>services/leaf_optimizer.rs\<close>. Denominations, planning, the rounds on the leaf store, the
    life of a run.
  \<^item> \<open>Token_Store\<close>: \<open>token/store/mod.rs\<close>, \<open>token/mod.rs\<close>. The token output store, its invariant and balances.
  \<^item> \<open>Postgres_Token_Store\<close>: \<open>crates/spark-postgres/src/token_store.rs\<close>. The same store on tables: their invariant, a simulation of
    the store in memory, and the queries on which the two differ.
  \<^item> \<open>Byte_Codecs\<close>: \<open>utils/byte_padding.rs\<close>, \<open>utils/tagged_hasher.rs\<close> and \<open>zbase32.rs\<close> of the SDK. Round trips, the encoding against
    its definition on bits, and that a tagged message determines the values hashed.
  \<^item> \<open>Token_Transactions\<close>: \<open>services/tokens.rs\<close>, the conversions of \<open>services/models.rs\<close>. Token transactions are built, hashed
    and validated; a transfer neither creates nor loses tokens, equal hashes mean equal transactions up to collisions of SHA-256,
    and validation is characterised, with what it leaves open.
  \<^item> \<open>Token_Service\<close>: \<open>token/service.rs\<close>, \<open>services/tokens.rs\<close>. Reservation with retries, transfers, consolidation and issuing
    against a signer and a coordinator that may answer anything; receivers are paid at most once and no reservation stays
    behind, with two places where an error breaks this.

  \<^bold>\<open>Real-time sync\<close> (paths under \<open>crates/breez-sdk\<close>) keeps contacts and payment metadata alike on all devices of a user:
  changes are queued in the database and pushed to a server under the revision last seen; records changed elsewhere
  are pulled, stored and handed to the application.

  \<^item> \<open>Sync_Model\<close>: \<open>common/src/sync/model.rs\<close> and the conversions of \<open>storage.rs\<close>. Schema versions, records, merging, change
    sets; change sets are minimal and sufficient, and stored records are read back as they were.
  \<^item> \<open>Sync_Storage\<close>: the \<open>SyncStorage\<close> trait and its implementations in \<open>core/src/persist/sqlite.rs\<close> and
    \<open>core/src/persist/postgres/storage.rs\<close>. The locale \<open>sync_storage\<close> says that an implementation refines an abstract
    machine (a queue, waiting records, known states, a cursor), every operation being allowed to fail; both
    databases interpret it, and they are compared with each other.
  \<^item> \<open>Sync_Processor\<close>: \<open>common/src/sync/background.rs\<close>, \<open>service.rs\<close>. Queueing, replay, push, pull, the loop and its timer,
    with the effect of a push and of a pull proved in the locale for any storage that refines the machine.
  \<^item> \<open>Sync_Progress\<close>: the properties for both databases. No record and no change is lost, what a restart
    replays, when a failure is retried, what the next pull asks for.

  \<^bold>\<open>Token conversion\<close> (paths under \<open>crates\<close>) exchanges bitcoin for tokens and back in liquidity pools of a remote service: the
  wallet sends the input to the pool and asks the service, under its signature, to execute the swap; when the
  service does not, the input is clawed back.

  \<^item> \<open>Float64\<close>: the IEEE doubles that prices come in, with the casts of Rust.
  \<^item> \<open>Conversion_Pools\<close>: \<open>flashnet/src/models.rs\<close>, \<open>pool_selection.rs\<close>. The input that a pool asks for is the least one
    that serves the request; the selection never panics and takes a best pool; where the scores overflow.
  \<^item> \<open>Conversion_Client\<close>: \<open>flashnet/src/api.rs\<close>, \<open>auth.rs\<close>, \<open>cache.rs\<close>. Cached requests, checks, swaps and clawbacks; a swap
    that has sent money always names the transfer in its result.
  \<^item> \<open>Token_Converter\<close>: \<open>breez-sdk/core/src/token_conversion\<close>. Estimation, conversion, its record in the storage and
    refunds; a transfer is never left without a record that the refund task finds.

  \<^bold>\<open>The storage of the SDK\<close> (paths under \<open>crates/breez-sdk/core/src\<close>) keeps payments, what is learnt about them later, deposits
  on their way, contacts and settings, in SQLite or in PostgreSQL.

  \<^item> \<open>Payment_Model\<close>: \<open>models/mod.rs\<close>, \<open>common/models.rs\<close>, the requests of \<open>persist/mod.rs\<close>. The texts of enumerations are parsed back.
  \<^item> \<open>Payment_Storage\<close>: \<open>persist/sqlite.rs\<close>, \<open>persist/postgres/storage.rs\<close> behind the trait \<open>Storage\<close>, a record of operations with
    the two databases as its values. Whatever was written can be read, a payment is read back as it was stored, known facts are
    never lost, listings are complete under paging, and the databases agree but for the cases stated. The locale
    \<open>settings_store\<close> is what users of the settings rely on.

  \<^bold>\<open>Events and stable balance\<close> (paths under \<open>crates/breez-sdk/core/src\<close>). Components tell each other and clients of payments and syncs through
  an emitter. Stable balance listens there: a worker converts received bitcoin into a token, and back when it is switched off.

  \<^item> \<open>Event_Emitter\<close>: \<open>events.rs\<close>, \<open>token_conversion/middleware.rs\<close>. When clients learn of a sync, and what they do not see of conversions.
  \<^item> \<open>Stable_Balance\<close>: \<open>stable_balance\<close>, \<open>utils/expiring_cell.rs\<close>, with its configuration and settings. The queue, the conversions and the
    worker as a step relation in which events, changes of the token and payments interleave.
  \<^item> \<open>Stable_Progress\<close>: the queue and its saved copy agree over restarts, for every storage that meets the locale \<open>conversion_store\<close>, which
    both databases do; conversions are asked for with a reason only, waiting payments are settled, the worker does not sleep on
    work; and where work is lost.

  \<^bold>\<open>How the parts interact.\<close> \<open>Tree_Service\<close> calls the commands of \<open>Tree_Store\<close>, which call \<open>Leaf_Selection\<close>, whose
  targets come from \<open>Tree_Model\<close>; \<open>Leaf_Optimizer\<close> plans with its own arithmetic and runs each round through
  \<open>select_leaves\<close> of \<open>Tree_Service\<close> and the store commands. That a wallet with optimal leaves pays any amount
  without a swap joins \<open>Leaf_Optimizer\<close> with the completeness of \<open>Leaf_Selection\<close>. \<open>Token_Service\<close> reserves in
  \<open>Token_Store\<close>, runs under the scope of \<open>Reservation_Scope\<close> and sends what \<open>Token_Transactions\<close> builds. \<open>Stable_Balance\<close> is a
  middleware of \<open>Event_Emitter\<close>, keeps its queue in any \<open>Storage\<close> of \<open>Payment_Storage\<close> and asks a token converter such as that of
  \<open>Token_Converter\<close>.

  \<^bold>\<open>Conventions.\<close> A \<open>Result\<close> is a sum with \<open>Err\<close> on the left and \<open>Ok\<close> on the right. Where the code can panic (an
  index out of range, a malformed transaction) the model returns an outer \<open>None\<close>. Unsigned integers are naturals;
  sums and differences that the code does without a check wrap at the width of their type (\<open>wadd\<close>, \<open>wsub\<close>, \<open>wsum\<close>), as in a
  release build, and the theorems state the bound under which nothing wraps. Iteration over a hash map follows
  the order of its association list; the theorems hold for every order. Clock readings, new identifiers,
  answers of operators and of the service provider, transaction identifiers, keys and addresses are arguments;
  what is assumed of them is a named hypothesis of the theorem. Log output is left out.

  \<^bold>\<open>Bounds and termination.\<close> There is no fuel. Loops that end by themselves are recursive functions with termination
  proofs. The waiting loop of \<open>select_leaves\<close> runs over the list of its rounds, each with what the clock and the
  other tasks do in it; a selection that has not returned when the list is used up is the value \<open>None\<close> inside the
  result, and it is proved that this does not happen once a round starts after the maximal wait.

  \<^bold>\<open>Not modelled.\<close> Signing, secret sharing and the other cryptography; the remote calls to operators and the service
  provider and the generated protocol code; the services that are sequences of such calls (transfers, Lightning,
  deposits, cooperative exits, queries for past token transactions); database migrations; of real-time sync the
  subscription stream and the encryption of records; the payment flows of the SDK; bindings, command line, servers and tooling.
\<close>

end
